(* ===== verification/Amanda_Prelude.thy ===== *)
theory Amanda_Prelude
  imports Main "HOL-Library.Word"
begin

text \<open>
  Shared vocabulary of the development: the C-level types, the failure values, decimal and
  hexadecimal text, and the interfaces (locales) several components implement.

  Conventions.
  A C string is a HOL \<^typ>\<open>string\<close> that does not contain the NUL character; its end is the end of the
  list, so reading the terminator is reading the empty list. A NULL pointer argument is \<^term>\<open>None\<close>.
  A read or write outside an allocated object, a failed \<open>assert\<close> and a loop that never ends
  are values of type \<open>fault\<close>, carried in the left summand of a result.
\<close>

named_theorems codec_simps \<open>equations that evaluate the text encoders and decoders\<close>
named_theorems step_simps \<open>one-step behaviour of the state machines\<close>

type_synonym byte = "8 word"

datatype fault =
    Out_of_bounds      \<comment> \<open>memory outside the object is read or written\<close>
  | Assertion_failed   \<comment> \<open>\<open>assert\<close>, \<open>g_assert\<close> or \<open>error()\<close>\<close>
  | Div_by_zero        \<comment> \<open>an integer division by zero\<close>
  | Invalid_free       \<comment> \<open>memory that was not allocated is freed\<close>
  | Never_returns      \<comment> \<open>a loop whose exit condition is never met\<close>

section \<open>Results\<close>

definition bind_r :: "'e + 'a \<Rightarrow> ('a \<Rightarrow> 'e + 'b) \<Rightarrow> 'e + 'b" where
  "bind_r r f = (case r of Inl e \<Rightarrow> Inl e | Inr x \<Rightarrow> f x)"

lemma bind_r_simps [simp]:
  "bind_r (Inl e) f = Inl e"
  "bind_r (Inr x) f = f x"
  by (simp_all add: bind_r_def)

lemma bind_r_eq_Inr_iff:
  "bind_r r f = Inr y \<longleftrightarrow> (\<exists>x. r = Inr x \<and> f x = Inr y)"
  by (cases r) auto

definition map_r :: "('a \<Rightarrow> 'b) \<Rightarrow> 'e + 'a \<Rightarrow> 'e + 'b" where
  "map_r f r = (case r of Inl e \<Rightarrow> Inl e | Inr x \<Rightarrow> Inr (f x))"

lemma map_r_simps [simp]:
  "map_r f (Inl e) = Inl e"
  "map_r f (Inr x) = Inr (f x)"
  by (simp_all add: map_r_def)

lemma map_r_eq_Inr_iff: "map_r f r = Inr y \<longleftrightarrow> (\<exists>x. r = Inr x \<and> y = f x)"
  by (cases r) auto

fun collect_r :: "('e + 'a) list \<Rightarrow> 'e + 'a list" where
  "collect_r [] = Inr []"
| "collect_r (r # rs) = bind_r r (\<lambda>x. map_r ((#) x) (collect_r rs))"

lemma collect_r_Inr [simp]: "collect_r (map Inr xs) = Inr xs"
  by (induction xs) auto

lemma collect_r_map: "(\<And>x. x \<in> set xs \<Longrightarrow> f x = Inr (g x)) \<Longrightarrow> collect_r (map f xs) = Inr (map g xs)"
  by (induction xs) auto

section \<open>Characters and decimal text\<close>

definition is_digit :: "char \<Rightarrow> bool" where
  "is_digit c \<longleftrightarrow> 48 \<le> (of_char c :: nat) \<and> (of_char c :: nat) \<le> 57"

definition signed_char :: "char \<Rightarrow> int" where
  \<comment> \<open>the value of a \<open>char\<close> where plain \<open>char\<close> is signed, as on the x86 targets\<close>
  "signed_char c = (let n = (of_char c :: int) in if n < 128 then n else n - 256)"

lemma of_char_0_iff: "(of_char c :: nat) = 0 \<longleftrightarrow> c = CHR 0x00"
proof -
  have "(of_char (CHR 0x00) :: nat) = 0" by simp
  then show ?thesis by (metis of_char_eq_iff)
qed

definition digit_char :: "nat \<Rightarrow> char" where
  "digit_char n = char_of (48 + n)"

fun show_nat :: "nat \<Rightarrow> string" where
  \<comment> \<open>\<open>%ju\<close>, \<open>%lld\<close> of a non-negative value\<close>
  "show_nat n = (if n < 10 then [digit_char n] else show_nat (n div 10) @ [digit_char (n mod 10)])"

declare show_nat.simps [simp del]

fun read_digits :: "nat \<Rightarrow> string \<Rightarrow> nat" where
  \<comment> \<open>the value of the longest prefix of decimal digits, on top of an accumulator\<close>
  "read_digits acc [] = acc"
| "read_digits acc (c # cs) =
     (if is_digit c then read_digits (acc * 10 + (of_char c - 48)) cs else acc)"

lemma is_digit_digit_char [simp]: "n < 10 \<Longrightarrow> is_digit (digit_char n)"
  by (simp add: is_digit_def digit_char_def of_char_of take_bit_eq_mod)

lemma of_char_digit_char [simp]: "n < 10 \<Longrightarrow> of_char (digit_char n) = (48 + n :: nat)"
  by (simp add: digit_char_def of_char_of take_bit_eq_mod)

lemma show_nat_nonempty [simp]: "show_nat n \<noteq> []"
  by (subst show_nat.simps) simp

lemma show_nat_digits: "\<forall>c \<in> set (show_nat n). is_digit c"
proof (induction n rule: show_nat.induct)
  case (1 n)
  then show ?case
    by (cases "n < 10") (simp_all add: show_nat.simps [of n] ball_Un)
qed

lemma read_digits_append:
  "\<forall>c \<in> set xs. is_digit c \<Longrightarrow> read_digits a (xs @ ys) = read_digits (read_digits a xs) ys"
  by (induction xs arbitrary: a) auto

lemma read_show_nat [simp]: "read_digits 0 (show_nat n) = n"
proof (induction n rule: show_nat.induct)
  case (1 n)
  show ?case
  proof (cases "n < 10")
    case True
    then show ?thesis by (simp add: show_nat.simps [of n])
  next
    case False
    with 1 show ?thesis
      by (simp add: show_nat.simps [of n] read_digits_append show_nat_digits)
  qed
qed

section \<open>Joining\<close>

fun join_with :: "'a list \<Rightarrow> 'a list list \<Rightarrow> 'a list" where
  \<comment> \<open>\<open>g_strjoinv\<close>\<close>
  "join_with sep [] = []"
| "join_with sep [x] = x"
| "join_with sep (x # y # ys) = x @ sep @ join_with sep (y # ys)"

lemma join_with_Cons: "xs \<noteq> [] \<Longrightarrow> join_with sep (x # xs) = x @ sep @ join_with sep xs"
  by (cases xs) auto

lemma join_with_snoc: "xs \<noteq> [] \<Longrightarrow> join_with sep (xs @ [x]) = join_with sep xs @ sep @ x"
proof (induction xs)
  case (Cons y ys)
  then show ?case by (cases ys) (simp_all add: join_with_Cons)
qed simp

lemma unat_below: "unat w < 2 ^ LENGTH('a)" for w :: "'a::len word"
  by (rule unsigned_less)

lemma unat_not_max: "w \<noteq> - 1 \<Longrightarrow> Suc (unat w) < 2 ^ LENGTH('a)" for w :: "'a::len word"
proof -
  assume "w \<noteq> - 1"
  then have "unat w \<noteq> 2 ^ LENGTH('a) - 1"
    using word_unat_eq_iff [of w "- 1"] by (simp add: unsigned_minus_1_eq_mask mask_eq_exp_minus_1)
  with unat_below [of w] show ?thesis by linarith
qed

section \<open>Interfaces\<close>

text \<open>
  A text codec: a value goes through a printer and comes back through the matching reader. The
  printers and readers of several components promise this law; what a caller may rely on (distinct
  values have distinct texts, a list of values printed one by one is read back one by one) is proved
  here once.
\<close>

locale text_codec =
  fixes enc :: "'a \<Rightarrow> 'b"
    and dec :: "'b \<Rightarrow> 'e + 'a"
    and ok :: "'a \<Rightarrow> bool"
  assumes dec_enc: "ok x \<Longrightarrow> dec (enc x) = Inr x"
begin

lemma enc_inj: "ok x \<Longrightarrow> ok y \<Longrightarrow> enc x = enc y \<Longrightarrow> x = y"
  by (metis dec_enc Inr_inject)

lemma dec_map_enc: "\<forall>x \<in> set xs. ok x \<Longrightarrow> collect_r (map (dec \<circ> enc) xs) = Inr xs"
  using collect_r_map [of xs "dec \<circ> enc" "\<lambda>x. x"] by (simp add: dec_enc)

end

text \<open>
  A codec whose texts can be put on one line with a separator and cut apart again: a list of
  values survives the trip.
\<close>

locale line_codec = text_codec enc dec ok
  for enc :: "'a \<Rightarrow> 'c list" and dec :: "'c list \<Rightarrow> 'e + 'a" and ok :: "'a \<Rightarrow> bool" +
  fixes sep :: "'c list"
    and pieces :: "'c list \<Rightarrow> 'c list list"
  assumes pieces_join:
    "xs \<noteq> [] \<Longrightarrow> \<forall>x \<in> set xs. ok x \<Longrightarrow> pieces (join_with sep (map enc xs)) = map enc xs"
begin

lemma split_join:
  assumes "xs \<noteq> []" and "\<forall>x \<in> set xs. ok x"
  shows "collect_r (map dec (pieces (join_with sep (map enc xs)))) = Inr xs"
  unfolding pieces_join [OF assms] using dec_map_enc [OF assms(2)] by simp

lemma line_inj:
  assumes "xs \<noteq> []" "ys \<noteq> []" "\<forall>x \<in> set xs. ok x" "\<forall>y \<in> set ys. ok y"
    and "join_with sep (map enc xs) = join_with sep (map enc ys)"
  shows "xs = ys"
  using split_join [OF assms(1,3)] split_join [OF assms(2,4)] unfolding assms(5) by simp

end

text \<open>
  A transition system with an invariant: the state machines of the components promise that
  their initial states satisfy the invariant and that every operation keeps it; that it holds in
  every state a run can reach is proved here once.
\<close>

inductive run_steps :: "('s \<Rightarrow> 'a \<Rightarrow> 's \<Rightarrow> bool) \<Rightarrow> 's \<Rightarrow> 'a list \<Rightarrow> 's \<Rightarrow> bool"
  for step where
  run_nil: "run_steps step s [] s"
| run_cons: "step s a t \<Longrightarrow> run_steps step t as u \<Longrightarrow> run_steps step s (a # as) u"

inductive_simps run_steps_nil_iff [simp]: "run_steps step s [] t"
inductive_simps run_steps_cons_iff: "run_steps step s (a # as) t"

locale guarded_system =
  fixes start :: "'s \<Rightarrow> bool"
    and step :: "'s \<Rightarrow> 'a \<Rightarrow> 's \<Rightarrow> bool"
    and inv :: "'s \<Rightarrow> bool"
  assumes inv_start: "start s \<Longrightarrow> inv s"
    and inv_step: "inv s \<Longrightarrow> step s a t \<Longrightarrow> inv t"
begin

lemma inv_run: "run_steps step s as t \<Longrightarrow> inv s \<Longrightarrow> inv t"
  by (induction rule: run_steps.induct) (blast intro: inv_step)+

lemma inv_reachable: "start s \<Longrightarrow> run_steps step s as t \<Longrightarrow> inv t"
  by (blast intro: inv_run inv_start)

end

text \<open>
  The same for a system with a quantity some actions pay for: what the actions of a run cost is not
  more than the quantity it starts with.
\<close>

locale metered_system = guarded_system +
  fixes price :: "'b \<Rightarrow> nat"
    and budget :: "'a \<Rightarrow> nat"
  assumes budget_step: "inv s \<Longrightarrow> step s a t \<Longrightarrow> budget t + price a \<le> budget s"
begin

lemma run_bounded: "run_steps step s as t \<Longrightarrow> inv s \<Longrightarrow> sum_list (map price as) + budget t \<le> budget s"
proof (induction rule: run_steps.induct)
  case (run_cons s a t as u)
  then have "sum_list (map price as) + budget u \<le> budget t" by (blast intro: inv_step)
  with budget_step [OF run_cons.prems run_cons.hyps(1)] show ?case by simp
qed simp

end

end
