(* ===== verification/Quoting.thy ===== *)
theory Quoting
  imports Amanda_Prelude
begin

text \<open>
  The text conventions of \<open>common-src/util.c\<close>: quoted strings and lines of quoted strings,
  sanitised strings, percent-hexadecimal strings and braced alternates. The printers and readers
  are proved to be codecs in the sense of the prelude's locales; where a reader of the source runs
  past the end of its input the model returns \<^term>\<open>Inl Out_of_bounds\<close>.
\<close>

section \<open>Quoted strings\<close>

abbreviation dquote :: char where "dquote \<equiv> CHR 0x22"
abbreviation bslash :: char where "bslash \<equiv> CHR 0x5C"

definition needs_quote :: "char \<Rightarrow> bool" where
  "needs_quote c \<longleftrightarrow> c = CHR '':'' \<or> c = CHR 0x27 \<or> c = bslash \<or> c = dquote \<or>
     signed_char c \<le> 32 \<or> c = CHR 0x7F"

fun quote_body :: "string \<Rightarrow> string" where
  "quote_body [] = []"
| "quote_body (c # cs) =
     (if c = CHR 0x09 then bslash # CHR ''t'' # quote_body cs
      else if c = CHR 0x0A then bslash # CHR ''n'' # quote_body cs
      else if c = CHR 0x0D then bslash # CHR ''r'' # quote_body cs
      else if c = CHR 0x0C then bslash # CHR ''f'' # quote_body cs
      else if c = bslash then bslash # bslash # quote_body cs
      else if c = dquote then bslash # c # quote_body cs
      else c # quote_body cs)"

definition quote_string_maybe :: "string option \<Rightarrow> bool \<Rightarrow> string" where
  "quote_string_maybe str always =
     (case str of
        None \<Rightarrow> [dquote, dquote]
      | Some [] \<Rightarrow> [dquote, dquote]
      | Some s \<Rightarrow>
          if \<not> (always \<or> list_ex needs_quote s) then s
          else dquote # quote_body s @ [dquote])"

fun len_quote_body :: "string \<Rightarrow> nat" where
  "len_quote_body [] = 0"
| "len_quote_body (c # cs) =
     (if c = CHR 0x09 then 2 + len_quote_body cs
      else if c = CHR 0x0A then 2 + len_quote_body cs
      else if c = CHR 0x0D then 2 + len_quote_body cs
      else if c = CHR 0x0C then 2 + len_quote_body cs
      else if c = bslash then 2 + len_quote_body cs
      else if c = dquote then 2 + len_quote_body cs
      else 1 + len_quote_body cs)"

definition len_quote_string_maybe :: "string option \<Rightarrow> bool \<Rightarrow> nat" where
  "len_quote_string_maybe str always =
     (case str of
        None \<Rightarrow> 0
      | Some [] \<Rightarrow> 0
      | Some s \<Rightarrow>
          if \<not> (always \<or> list_ex needs_quote s) then length s
          else 1 + len_quote_body s + 1)"

definition is_octal :: "char \<Rightarrow> bool" where
  "is_octal c \<longleftrightarrow> 48 \<le> (of_char c :: nat) \<and> (of_char c :: nat) \<le> 55"

fun read_octal :: "nat \<Rightarrow> nat \<Rightarrow> string \<Rightarrow> nat \<times> string" where
  \<comment> \<open>up to \<open>k\<close> octal digits on top of the value \<open>v\<close> of an 8-bit \<open>char\<close>\<close>
  "read_octal 0 v cs = (v, cs)"
| "read_octal (Suc k) v [] = (v, [])"
| "read_octal (Suc k) v (c # cs) =
     (if is_octal c then read_octal k ((v * 8 + (of_char c - 48)) mod 256) cs else (v, c # cs))"

lemma read_octal_length: "length (snd (read_octal k v cs)) \<le> length cs"
  by (induction k v cs rule: read_octal.induct) (simp_all add: le_SucI)

text \<open>
  \<open>unquote_string\<close> drops quotes, expands the letter escapes and reads up to three octal
  digits; after an octal escape the next character is copied whatever it is, the terminator
  included, and then the pointer is past the end of the string.
\<close>

function unquote_loop :: "string \<Rightarrow> fault + string" where
  "unquote_loop [] = Inr []"
| "unquote_loop (c # cs) =
     (if c = dquote then unquote_loop cs
      else if c = bslash then
        (case cs of
           [] \<Rightarrow> Inr []
         | d # ds \<Rightarrow>
             if d = CHR ''n'' then map_r ((#) (CHR 0x0A)) (unquote_loop ds)
             else if d = CHR ''t'' then map_r ((#) (CHR 0x09)) (unquote_loop ds)
             else if d = CHR ''r'' then map_r ((#) (CHR 0x0D)) (unquote_loop ds)
             else if d = CHR ''f'' then map_r ((#) (CHR 0x0C)) (unquote_loop ds)
             else if is_octal d then
               (let v = fst (read_octal 3 0 (d # ds)) in
                case snd (read_octal 3 0 (d # ds)) of
                  [] \<Rightarrow> Inl Out_of_bounds
                | e # es \<Rightarrow>
                    map_r (\<lambda>r. (if v \<noteq> 0 then [char_of v] else []) @ e # r) (unquote_loop es))
             else map_r ((#) d) (unquote_loop ds))
      else map_r ((#) c) (unquote_loop cs))"
  by pat_completeness auto
termination
proof (relation "measure length", goal_cases)
  case (7 c cs d ds v e es)
  then show ?case using read_octal_length [of 3 0 "d # ds"] by simp
qed auto

definition unquote_string :: "string option \<Rightarrow> fault + string" where
  "unquote_string str = (case str of None \<Rightarrow> Inr [] | Some s \<Rightarrow> unquote_loop s)"

text \<open>A line is cut at the spaces outside quotes; a backslash protects the next character.\<close>

fun quoted_pieces :: "bool \<Rightarrow> string \<Rightarrow> string \<Rightarrow> string list" where
  "quoted_pieces iq cur [] = [cur]"
| "quoted_pieces iq cur (c # cs) =
     (if \<not> iq \<and> c = CHR '' '' then cur # quoted_pieces iq [] cs
      else if c = bslash then
        (case cs of
           [] \<Rightarrow> [cur @ [c]]
         | d # ds \<Rightarrow> quoted_pieces iq (cur @ [c, d]) ds)
      else if c = dquote then quoted_pieces (\<not> iq) (cur @ [c]) cs
      else quoted_pieces iq (cur @ [c]) cs)"

definition split_quoted_strings :: "string option \<Rightarrow> (fault + string list) option" where
  "split_quoted_strings str =
     (case str of
        None \<Rightarrow> None
      | Some s \<Rightarrow> Some (collect_r (map (unquote_string \<circ> Some) (quoted_pieces False [] s))))"

definition is_cntrl :: "char \<Rightarrow> bool" where
  "is_cntrl c \<longleftrightarrow> (of_char c :: nat) < 32 \<or> (of_char c :: nat) = 127"

definition sanitize_string :: "string option \<Rightarrow> string" where
  "sanitize_string str =
     (case str of None \<Rightarrow> [] | Some s \<Rightarrow> map (\<lambda>c. if is_cntrl c then CHR ''?'' else c) s)"

subsection \<open>Round trips\<close>

lemma not_octal [simp]: "\<not> is_octal bslash" "\<not> is_octal dquote"
  by (simp_all add: is_octal_def)

lemma unquote_quote_body: "unquote_loop (quote_body s @ [dquote]) = Inr s"
  by (induction s) auto

lemma unquote_bare: "\<not> list_ex needs_quote s \<Longrightarrow> unquote_loop s = Inr s"
  by (induction s) (auto simp: needs_quote_def)

lemma quote_string_maybe_eq:
  "quote_string_maybe (Some s) always =
     (if s \<noteq> [] \<and> \<not> (always \<or> list_ex needs_quote s) then s else dquote # quote_body s @ [dquote])"
  by (cases s) (simp_all add: quote_string_maybe_def)

lemma unquote_quote: "unquote_string (Some (quote_string_maybe (Some s) always)) = Inr s"
  using unquote_quote_body [of s] unquote_bare [of s]
  by (simp add: unquote_string_def quote_string_maybe_eq)

lemma quoted_pieces_body:
  "quoted_pieces True cur (quote_body s @ dquote # rest) =
   quoted_pieces False (cur @ quote_body s @ [dquote]) rest"
  by (induction s arbitrary: cur) auto

lemma quoted_pieces_bare:
  "\<not> list_ex needs_quote s \<Longrightarrow> quoted_pieces False cur (s @ rest) = quoted_pieces False (cur @ s) rest"
  by (induction s arbitrary: cur) (auto simp: needs_quote_def signed_char_def)

lemma quoted_pieces_quote:
  "quoted_pieces False cur (quote_string_maybe (Some s) always @ rest) =
   quoted_pieces False (cur @ quote_string_maybe (Some s) always) rest"
  by (simp add: quote_string_maybe_eq quoted_pieces_body quoted_pieces_bare)

lemma quoted_pieces_line:
  "xs \<noteq> [] \<Longrightarrow>
   quoted_pieces False [] (join_with '' '' (map (\<lambda>s. quote_string_maybe (Some s) always) xs)) =
   map (\<lambda>s. quote_string_maybe (Some s) always) xs"
proof (induction xs)
  case (Cons x xs)
  show ?case
  proof (cases xs)
    case Nil
    then show ?thesis using quoted_pieces_quote [of "[]" x always "[]"] by simp
  next
    case (Cons y ys)
    with Cons.IH show ?thesis by (simp add: join_with_Cons quoted_pieces_quote)
  qed
qed simp

interpretation quoted: line_codec
  "\<lambda>s. quote_string_maybe (Some s) always" "unquote_string \<circ> Some" "\<lambda>s. True" "'' ''"
  "quoted_pieces False []" for always
  by unfold_locales (simp_all add: unquote_quote quoted_pieces_line)

text \<open>C11: Any list of strings, printed with \<open>quote_string\<close> (or \<open>quote_string_always\<close>) and joined
  with single spaces, is read back exactly by \<open>split_quoted_strings\<close>: no byte is lost, no field
  boundary moves, whatever whitespace, quotes or backslashes the strings hold, and the reader
  never leaves its buffer.\<close>

theorem split_quoted_line:
  assumes "xs \<noteq> []"
  shows "split_quoted_strings
           (Some (join_with '' '' (map (\<lambda>s. quote_string_maybe (Some s) always) xs))) =
         Some (Inr xs)"
  using quoted.split_join [of xs always] assms by (simp add: split_quoted_strings_def)

theorem split_quoted_line_witness:
  "split_quoted_strings
     (Some (join_with '' '' (map (\<lambda>s. quote_string_maybe (Some s) False) [''a b'', [], [CHR 0x22]]))) =
   Some (Inr [''a b'', [], [CHR 0x22]])"
  by (rule split_quoted_line) simp

text \<open>The length the column printers compute is the length of the quoted text, except for the
  empty string, which prints as two quotes but counts as zero.\<close>

lemma len_quote_body: "len_quote_body s = length (quote_body s)"
  by (induction s) auto

lemma len_quote_string:
  "len_quote_string_maybe (Some s) always =
     (if s = [] then 0 else length (quote_string_maybe (Some s) always))"
  by (cases s) (simp_all add: len_quote_string_maybe_def quote_string_maybe_def len_quote_body)

lemma read_octal_all:
  "list_all is_octal ds \<Longrightarrow> length ds \<le> k \<Longrightarrow> snd (read_octal k v ds) = []"
proof (induction ds arbitrary: k v)
  case Nil
  then show ?case by (cases k) simp_all
next
  case (Cons d ds)
  then show ?case by (cases k) simp_all
qed

lemma unquote_append_plain:
  "\<forall>c \<in> set s. c \<noteq> dquote \<and> c \<noteq> bslash \<Longrightarrow>
   unquote_loop (s @ t) = map_r ((@) s) (unquote_loop t)"
proof (induction s)
  case Nil
  then show ?case by (cases "unquote_loop t") simp_all
next
  case (Cons c s)
  then show ?case by (cases "unquote_loop t") simp_all
qed

text \<open>An octal escape in front of the end of the string, closed or not by a character, makes
  \<open>unquote_string\<close> read past its buffer: for every digit string \<open>ds\<close> of one to three octal
  digits, the input that ends in a backslash and \<open>ds\<close> is not read back but overruns.\<close>

theorem unquote_octal_at_end:
  assumes "\<forall>c \<in> set s. c \<noteq> dquote \<and> c \<noteq> bslash"
    and "ds \<noteq> []" "length ds \<le> 3" "list_all is_octal ds"
  shows "unquote_string (Some (s @ bslash # ds)) = Inl Out_of_bounds"
proof -
  obtain d es where ds: "ds = d # es" using assms(2) by (cases ds) auto
  then have "is_octal d" using assms(4) by simp
  moreover from this have "d \<notin> {CHR ''n'', CHR ''t'', CHR ''r'', CHR ''f''}"
    by (auto simp: is_octal_def)
  moreover have "snd (read_octal 3 0 ds) = []" using assms by (simp add: read_octal_all)
  ultimately have "unquote_loop (bslash # ds) = Inl Out_of_bounds"
    unfolding ds by (simp del: read_octal.simps)
  then show ?thesis
    using assms(1) by (simp add: unquote_string_def unquote_append_plain)
qed

theorem unquote_octal_at_end_witness:
  "unquote_string (Some (''esc'' @ bslash # ''117'')) = Inl Out_of_bounds"
  by (rule unquote_octal_at_end) (simp_all add: is_octal_def)

section \<open>Percent-hexadecimal strings\<close>

definition is_alnum :: "char \<Rightarrow> bool" where
  "is_alnum c \<longleftrightarrow> (let n = (of_char c :: nat) in
     48 \<le> n \<and> n \<le> 57 \<or> 65 \<le> n \<and> n \<le> 90 \<or> 97 \<le> n \<and> n \<le> 122)"

definition hex_char :: "nat \<Rightarrow> char" where
  "hex_char n = (if n < 10 then char_of (48 + n) else char_of (87 + n))"

definition hex_val :: "char \<Rightarrow> nat option" where
  "hex_val c = (let n = (of_char c :: nat) in
     if 48 \<le> n \<and> n \<le> 57 then Some (n - 48)
     else if 97 \<le> n \<and> n \<le> 102 then Some (n - 97 + 10)
     else if 65 \<le> n \<and> n \<le> 70 then Some (n - 65 + 10)
     else None)"

definition percent_byte :: "char \<Rightarrow> string" where
  "percent_byte c = [CHR ''%'', hex_char (of_char c div 16), hex_char (of_char c mod 16)]"

definition hexencode_string :: "string option \<Rightarrow> string" where
  "hexencode_string str =
     (case str of
        None \<Rightarrow> []
      | Some s \<Rightarrow> concat (map (\<lambda>c. if is_alnum c then [c] else percent_byte c) s))"

datatype hexdecode_error =
    Illegal_character char nat   \<comment> \<open>the character and its offset\<close>
  | Encoded_NULL nat
  | Percent_at_end nat nat       \<comment> \<open>offset, characters that follow\<close>

fun hexdecode_tail :: "nat \<Rightarrow> string \<Rightarrow> hexdecode_error + string" where
  "hexdecode_tail i [] = Inr []"
| "hexdecode_tail i (c # cs) =
     (if c = CHR ''%'' then Inl (Percent_at_end i (length cs))
      else map_r ((#) c) (hexdecode_tail (Suc i) cs))"

fun hexdecode_loop :: "nat \<Rightarrow> string \<Rightarrow> hexdecode_error + string" where
  "hexdecode_loop i (c # h # l # cs) =
     (if c = CHR ''%'' then
        (case hex_val h of
           None \<Rightarrow> Inl (Illegal_character h (i + 1))
         | Some a \<Rightarrow>
             (case hex_val l of
                None \<Rightarrow> Inl (Illegal_character l (i + 2))
              | Some b \<Rightarrow>
                  if (a * 16 + b) mod 256 = 0 then Inl (Encoded_NULL i)
                  else map_r ((#) (char_of (a * 16 + b))) (hexdecode_loop (i + 3) cs)))
      else map_r ((#) c) (hexdecode_loop (i + 1) (h # l # cs)))"
| "hexdecode_loop i cs = hexdecode_tail i cs"

definition hexdecode_string :: "string option \<Rightarrow> hexdecode_error + string" where
  "hexdecode_string str = (case str of None \<Rightarrow> Inr [] | Some s \<Rightarrow> hexdecode_loop 0 s)"

lemma hex_val_hex_char [simp]: "n < 16 \<Longrightarrow> hex_val (hex_char n) = Some n"
  by (simp add: hex_val_def hex_char_def of_char_of take_bit_eq_mod Let_def)

lemma hexdecode_loop_plain:
  "c \<noteq> CHR ''%'' \<Longrightarrow> hexdecode_loop i (c # cs) = map_r ((#) c) (hexdecode_loop (Suc i) cs)"
proof (cases cs)
  case (Cons h hs)
  assume "c \<noteq> CHR ''%''"
  with Cons show ?thesis by (cases hs) simp_all
qed simp

lemma hexdecode_loop_percent:
  assumes "c \<noteq> CHR 0x00"
  shows "hexdecode_loop i (percent_byte c @ cs) = map_r ((#) c) (hexdecode_loop (i + 3) cs)"
proof -
  define n where "n = (of_char c :: nat)"
  have n: "n < 256" "n \<noteq> 0" using assms by (simp_all add: n_def of_char_0_iff)
  from n(1) have "n div 16 < 16" by (simp add: less_mult_imp_div_less)
  then have "hex_val (hex_char (n div 16)) = Some (n div 16)"
    "hex_val (hex_char (n mod 16)) = Some (n mod 16)" by simp_all
  moreover have "n div 16 * 16 + n mod 16 = n" by simp
  moreover have "char_of n = c" by (simp add: n_def)
  ultimately show ?thesis using n by (simp add: percent_byte_def n_def [symmetric])
qed

lemma not_alnum_percent [simp]: "\<not> is_alnum (CHR ''%'')"
  by (simp add: is_alnum_def)

lemma hexdecode_hexencode_loop:
  "CHR 0x00 \<notin> set s \<Longrightarrow>
   hexdecode_loop i (concat (map (\<lambda>c. if is_alnum c then [c] else percent_byte c) s)) = Inr s"
proof (induction s arbitrary: i)
  case (Cons c s)
  then have c: "c \<noteq> CHR 0x00" and IH: "\<And>i. hexdecode_loop i
      (concat (map (\<lambda>c. if is_alnum c then [c] else percent_byte c) s)) = Inr s"
    by auto
  show ?case
  proof (cases "is_alnum c")
    case True
    then have "c \<noteq> CHR ''%''" by auto
    then show ?thesis using True IH by (simp add: hexdecode_loop_plain)
  next
    case False
    then show ?thesis using c IH by (simp add: hexdecode_loop_percent)
  qed
qed simp

interpretation hex: text_codec
  "hexencode_string \<circ> Some" "hexdecode_string \<circ> Some" "\<lambda>s. CHR 0x00 \<notin> set s"
  by unfold_locales (simp add: hexencode_string_def hexdecode_string_def hexdecode_hexencode_loop)

lemma hex_char_alnum: "n < 16 \<Longrightarrow> is_alnum (hex_char n)"
  by (auto simp: is_alnum_def hex_char_def of_char_of take_bit_eq_mod Let_def)

text \<open>\<open>hexdecode_string\<close> inverts \<open>hexencode_string\<close> on every C string, and the encoded text
  uses only letters, digits and the percent sign, so it is safe as a file name component.\<close>

theorem hexencode_roundtrip:
  assumes "CHR 0x00 \<notin> set s"
  shows "hexdecode_string (Some (hexencode_string (Some s))) = Inr s \<and>
         list_all (\<lambda>c. is_alnum c \<or> c = CHR ''%'') (hexencode_string (Some s))"
proof
  show "hexdecode_string (Some (hexencode_string (Some s))) = Inr s"
    using hex.dec_enc [OF assms] by simp
  have "of_char c div 16 < (16 :: nat)" for c :: char
    using nat_of_char_less_256 [of c] by (simp add: less_mult_imp_div_less del: nat_of_char_less_256)
  then show "list_all (\<lambda>c. is_alnum c \<or> c = CHR ''%'') (hexencode_string (Some s))"
    by (auto simp: hexencode_string_def percent_byte_def hex_char_alnum list_all_iff)
qed

theorem hexencode_roundtrip_witness:
  "hexdecode_string (Some (hexencode_string (Some ''host/disk 1''))) = Inr ''host/disk 1''"
  using hexencode_roundtrip [of "''host/disk 1''"] by simp

section \<open>Braced alternates\<close>

text \<open>
  \<open>{a,b,c}\<close> names several devices at once. An alternative of the form \<open>m..n\<close> stands for the
  numbers from \<open>m\<close> to \<open>n\<close>; they are counted in a 64-bit variable.
\<close>

definition split_sequence :: "string \<Rightarrow> (string \<times> string) option" where
  "split_sequence elt =
     (let l = takeWhile is_digit elt; rest = dropWhile is_digit elt in
      if l = [] then None
      else if take 2 rest = ''..'' \<and> drop 2 rest \<noteq> [] \<and> list_all is_digit (drop 2 rest)
      then Some (l, drop 2 rest)
      else None)"

definition strtoull :: "string \<Rightarrow> 64 word" where
  \<comment> \<open>\<open>g_ascii_strtoull\<close> of a digit string: saturates\<close>
  "strtoull s = (let n = read_digits 0 s in if n < 2 ^ 64 then of_nat n else - 1)"

definition pad_zeros :: "nat \<Rightarrow> string \<Rightarrow> string" where
  "pad_zeros n s = replicate (n - length s) (CHR ''0'') @ s"

definition seq_element :: "bool \<Rightarrow> nat \<Rightarrow> 64 word \<Rightarrow> string" where
  "seq_element leading_zero ndigits v =
     (if leading_zero then pad_zeros ndigits (show_nat (unat v)) else show_nat (unat v))"

partial_function (option) seq_loop ::
  "bool \<Rightarrow> nat \<Rightarrow> 64 word \<Rightarrow> 64 word \<Rightarrow> string list \<Rightarrow> string list option" where
  "seq_loop lz nd start stop arr =
     (if start \<le> stop then seq_loop lz nd (start + 1) stop (arr @ [seq_element lz nd start])
      else Some arr)"

definition expand_braced_sequence :: "string \<Rightarrow> fault + string list" where
  \<comment> \<open>what the last element of the array is replaced by\<close>
  "expand_braced_sequence elt =
     (case split_sequence elt of
        None \<Rightarrow> Inr [elt]
      | Some (l, r) \<Rightarrow>
          let start = strtoull l; stop = strtoull r in
          if start > stop then Inr [elt]
          else if stop - start > 100000 then Inr [elt]
          else case seq_loop (hd l = CHR ''0'') (max (length l) (length r)) start stop [] of
              None \<Rightarrow> Inl Never_returns
            | Some xs \<Rightarrow> Inr xs)"

definition brace_special :: "char \<Rightarrow> bool" where
  "brace_special c \<longleftrightarrow> c = CHR '','' \<or> c = bslash \<or> c = CHR ''{'' \<or> c = CHR ''}''"

text \<open>
  The loop of \<open>parse_braced_component\<close>. Right after a comma the next character is copied without
  being looked at (\<open>fresh\<close>), even where it is the terminator.
\<close>

function braced_loop ::
  "bool \<Rightarrow> string \<Rightarrow> string \<Rightarrow> string list \<Rightarrow> fault + (string list \<times> string) option" where
  "braced_loop fresh [] cur res = (if fresh then Inl Out_of_bounds else Inr None)"
| "braced_loop fresh (c # cs) cur res =
     (if \<not> fresh \<and> c = CHR ''{'' then Inr None
      else if \<not> fresh \<and> c = CHR ''}'' then
        map_r (\<lambda>xs. Some (res @ xs, cs)) (expand_braced_sequence cur)
      else if \<not> fresh \<and> c = CHR '','' then
        bind_r (expand_braced_sequence cur) (\<lambda>xs. braced_loop True cs [] (res @ xs))
      else if c = bslash \<and> cs \<noteq> [] \<and> brace_special (hd cs) then
        braced_loop False (tl cs) (cur @ [hd cs]) res
      else braced_loop False cs (cur @ [c]) res)"
  by pat_completeness auto
termination
  by (relation "measure (\<lambda>(f, p, c, r). length p)") (auto simp: neq_Nil_conv)

function plain_loop :: "string \<Rightarrow> string \<Rightarrow> string \<times> string" where
  "plain_loop cur [] = (cur, [])"
| "plain_loop cur (c # cs) =
     (if c = CHR ''{'' then (cur, c # cs)
      else if c = bslash \<and> cs \<noteq> [] \<and> brace_special (hd cs) then
        plain_loop (cur @ [hd cs]) (tl cs)
      else plain_loop (cur @ [c]) cs)"
  by pat_completeness auto
termination
  by (relation "measure (\<lambda>(c, p). length p)") (auto simp: neq_Nil_conv)

definition parse_braced_component :: "string \<Rightarrow> fault + (string list \<times> string) option" where
  "parse_braced_component str =
     (if str \<noteq> [] \<and> hd str = CHR ''{'' then braced_loop False (tl str) [] []
      else Inr (Some (case plain_loop [] str of (l, rest) \<Rightarrow> ([l], rest))))"

lemma plain_loop_length: "length (snd (plain_loop cur s)) \<le> length s"
proof (induction cur s rule: plain_loop.induct)
  case (2 cur c cs)
  then show ?case by (cases "c = bslash \<and> cs \<noteq> [] \<and> brace_special (hd cs)") (auto simp: neq_Nil_conv)
qed simp

lemma plain_loop_shorter: "c \<noteq> CHR ''{'' \<Longrightarrow> length (snd (plain_loop cur (c # s))) \<le> length s"
  using plain_loop_length [of "cur @ [hd s]" "tl s"] plain_loop_length [of "cur @ [c]" s]
  by (auto simp: neq_Nil_conv)

lemma braced_loop_shorter:
  "braced_loop fresh p cur res = Inr (Some (xs, rest)) \<Longrightarrow> length rest < length p"
proof (induction fresh p cur res rule: braced_loop.induct)
  case (1 fresh cur res)
  then show ?case by (simp split: if_splits)
next
  case (2 fresh c cs cur res)
  show ?case
  proof (cases "\<not> fresh \<and> brace_special c \<and> c \<noteq> bslash")
    case True
    then show ?thesis
      using 2 by (cases "expand_braced_sequence cur") (fastforce simp: brace_special_def split: if_splits)+
  next
    case False
    then have n: "\<not> (\<not> fresh \<and> c = CHR ''{'')" "\<not> (\<not> fresh \<and> c = CHR ''}'')"
        "\<not> (\<not> fresh \<and> c = CHR '','')"
      by (auto simp: brace_special_def)
    show ?thesis
    proof (cases "c = bslash \<and> cs \<noteq> [] \<and> brace_special (hd cs)")
      case True
      then have "length rest < length (tl cs)"
        using "2.IH"(2) [OF n True] "2.prems" n by simp
      then show ?thesis by simp
    next
      case False
      then have "length rest < length cs"
        using "2.IH"(3) [OF n False] "2.prems" n by (simp only: braced_loop.simps if_False)
      then show ?thesis by simp
    qed
  qed
qed

lemma parse_braced_component_shorter:
  assumes "parse_braced_component str = Inr (Some (xs, rest))" and "str \<noteq> []"
  shows "length rest < length str"
proof -
  obtain c p where str: "str = c # p" using assms(2) by (cases str) auto
  show ?thesis
  proof (cases "c = CHR ''{''")
    case True
    with assms(1) have "braced_loop False p [] [] = Inr (Some (xs, rest))"
      by (simp add: str parse_braced_component_def)
    from braced_loop_shorter [OF this] show ?thesis by (simp add: str)
  next
    case False
    with assms(1) have "rest = snd (plain_loop [] str)"
      by (auto simp: str parse_braced_component_def split: prod.splits)
    with plain_loop_shorter [OF False, of "[]" p] show ?thesis by (simp add: str)
  qed
qed

function expand_loop :: "string list \<Rightarrow> string \<Rightarrow> fault + string list option" where
  "expand_loop rval source =
     (if source = [] then Inr (Some rval)
      else case parse_braced_component source of
          Inl e \<Rightarrow> Inl e
        | Inr None \<Rightarrow> Inr None
        | Inr (Some (new_components, rest)) \<Rightarrow>
            expand_loop (concat (map (\<lambda>r. map (\<lambda>c. r @ c) new_components) rval)) rest)"
  by pat_completeness auto
termination
  by (relation "measure (\<lambda>(r, s). length s)") (auto dest: parse_braced_component_shorter)

declare expand_loop.simps [simp del]

definition expand_braced_alternates :: "string \<Rightarrow> fault + string list option" where
  "expand_braced_alternates source = expand_loop [[]] source"

definition escape_braces :: "string \<Rightarrow> string" where
  "escape_braces s = concat (map (\<lambda>c. if brace_special c then [bslash, c] else [c]) s)"

definition collapse_braced_alternates :: "string list \<Rightarrow> string" where
  "collapse_braced_alternates source =
     CHR ''{'' # join_with '','' (map escape_braces source) @ ''}''"

subsection \<open>Numeric ranges\<close>

lemma seq_loop_counts:
  assumes "start \<le> stop" and "stop \<noteq> - 1"
  shows "seq_loop lz nd start stop arr =
           Some (arr @ map (\<lambda>n. seq_element lz nd (of_nat n)) [unat start ..< Suc (unat stop)])"
  using assms
proof (induction "unat stop - unat start" arbitrary: start arr)
  case 0
  then have "start = stop" by (simp add: word_le_nat_alt word_unat_eq_iff)
  moreover have "\<not> stop + 1 \<le> stop"
    using unat_not_max [OF 0(3)] by (simp add: word_le_nat_alt unat_word_ariths)
  ultimately show ?case by (subst seq_loop.simps) (simp add: seq_loop.simps)
next
  case (Suc k)
  then have lt: "unat start < unat stop" by simp
  then have "unat (start + 1) = Suc (unat start)"
    using unat_below [of stop] by (simp add: unat_word_ariths)
  moreover from this lt have "start + 1 \<le> stop" by (simp add: word_le_nat_alt)
  ultimately have "seq_loop lz nd (start + 1) stop (arr @ [seq_element lz nd start]) =
      Some ((arr @ [seq_element lz nd start]) @
        map (\<lambda>n. seq_element lz nd (of_nat n)) [Suc (unat start) ..< Suc (unat stop)])"
    using Suc.hyps(1) [of "start + 1"] Suc.hyps(2) Suc.prems(2) by simp
  moreover have "[unat start ..< Suc (unat stop)] = unat start # [Suc (unat start) ..< Suc (unat stop)]"
    using lt by (simp only: upt_conv_Cons)
  ultimately show ?case using Suc.prems(1) by (subst seq_loop.simps) simp
qed

lemma seq_loop_stuck: "seq_loop lz nd start (- 1) arr \<noteq> Some res"
proof
  assume "seq_loop lz nd start (- 1) arr = Some res"
  then have "(- 1 :: 64 word) \<noteq> - 1"
  proof (rule seq_loop.raw_induct [where P = "\<lambda>lz nd start stop arr r. stop \<noteq> - 1", rotated])
    fix f lz nd start and stop :: "64 word" and arr r
    assume IH: "\<And>lz nd start stop arr r. f lz nd start stop arr = Some r \<Longrightarrow> stop \<noteq> - 1"
      and eq: "(if start \<le> stop then f lz nd (start + 1) stop (arr @ [seq_element lz nd start])
                else Some arr) = Some r"
    show "stop \<noteq> - 1"
    proof
      assume "stop = - 1"
      with eq have "f lz nd (start + 1) stop (arr @ [seq_element lz nd start]) = Some r" by simp
      from IH [OF this] \<open>stop = - 1\<close> show False by simp
    qed
  qed
  then show False by simp
qed

text \<open>A range \<open>m..n\<close> of at most 100001 numbers is expanded to exactly the numbers from \<open>m\<close>
  to \<open>n\<close> in order, each printed with the wider operand's digits when \<open>m\<close> starts with a zero; when
  \<open>n\<close> is the largest 64-bit number the counting loop never ends.\<close>

theorem braced_sequence_range:
  assumes "split_sequence elt = Some (l, r)"
    and "strtoull l \<le> strtoull r" and "strtoull r - strtoull l \<le> 100000"
  shows "expand_braced_sequence elt =
           (if strtoull r = - 1 then Inl Never_returns
            else Inr (map (\<lambda>n. seq_element (hd l = CHR ''0'') (max (length l) (length r)) (of_nat n))
                       [unat (strtoull l) ..< Suc (unat (strtoull r))]))"
proof (cases "strtoull r = - 1")
  case True
  then have "seq_loop lz nd (strtoull l) (strtoull r) [] = None" for lz nd
    using seq_loop_stuck [of lz nd "strtoull l" "[]"] by (cases "seq_loop lz nd (strtoull l) (strtoull r) []") auto
  then show ?thesis using assms True by (simp add: expand_braced_sequence_def Let_def)
next
  case False
  then show ?thesis
    using assms seq_loop_counts [OF assms(2) False]
    by (simp add: expand_braced_sequence_def Let_def linorder_not_less del: upt_Suc)
qed

theorem braced_sequence_range_witness:
  "expand_braced_sequence ''08..11'' = Inr [''08'', ''09'', ''10'', ''11'']"
proof -
  have "split_sequence ''08..11'' = Some (''08'', ''11'')"
    by (simp add: split_sequence_def is_digit_def)
  moreover have "strtoull ''08'' = 8" "strtoull ''11'' = 11"
    by (simp_all add: strtoull_def is_digit_def)
  ultimately show ?thesis
    using braced_sequence_range [of "''08..11''" "''08''" "''11''"]
    by (simp add: seq_element_def pad_zeros_def show_nat.simps digit_char_def char_of_def bit_0 upt_rec)
qed

subsection \<open>Collapse and expand\<close>

definition inert :: "string \<Rightarrow> bool" where
  \<comment> \<open>does not look like a numeric range\<close>
  "inert x \<longleftrightarrow> split_sequence x = None"

lemma expand_inert [simp]: "inert x \<Longrightarrow> expand_braced_sequence x = Inr [x]"
  by (simp add: inert_def expand_braced_sequence_def)

lemma escape_braces_simps [simp]:
  "escape_braces [] = []"
  "escape_braces (c # s) = (if brace_special c then [bslash, c] else [c]) @ escape_braces s"
  by (simp_all add: escape_braces_def)

lemma not_special_comma:
  "\<not> brace_special c \<Longrightarrow> c \<noteq> CHR '','' \<and> c \<noteq> bslash \<and> c \<noteq> CHR ''{'' \<and> c \<noteq> CHR ''}''"
  by (simp add: brace_special_def)

lemma braced_loop_char:
  "braced_loop fresh ((if brace_special c then [bslash, c] else [c]) @ rest) cur res =
   braced_loop False rest (cur @ [c]) res"
  by (cases "brace_special c") (simp_all add: not_special_comma)

lemma braced_loop_escaped:
  "braced_loop False (escape_braces s @ rest) cur res = braced_loop False rest (cur @ s) res"
  by (induction s arbitrary: cur) (simp_all del: braced_loop.simps add: braced_loop_char)

lemma braced_loop_escaped_fresh:
  "s \<noteq> [] \<Longrightarrow> braced_loop fresh (escape_braces s @ rest) cur res = braced_loop False rest (cur @ s) res"
  by (cases s) (simp_all del: braced_loop.simps add: braced_loop_char braced_loop_escaped)

lemma braced_loop_list:
  assumes "xs \<noteq> []" "\<forall>x \<in> set xs. inert x" "\<forall>x \<in> set (tl xs). x \<noteq> []" "fresh \<longrightarrow> hd xs \<noteq> []"
  shows "braced_loop fresh (join_with '','' (map escape_braces xs) @ CHR ''}'' # rest) [] res =
           Inr (Some (res @ xs, rest))"
  using assms
proof (induction xs arbitrary: fresh res)
  case (Cons x xs)
  have x: "braced_loop fresh (escape_braces x @ t) [] res = braced_loop False t x res" for t
    using Cons.prems(4) braced_loop_escaped_fresh [of x fresh t "[]" res] braced_loop_escaped [of x t "[]" res]
    by (cases fresh) simp_all
  show ?case
  proof (cases xs)
    case Nil
    with x Cons.prems(2) show ?thesis by simp
  next
    case (Cons y ys)
    with Cons.IH [of True "res @ [x]"] Cons.prems x show ?thesis
      by (simp add: join_with_Cons)
  qed
qed simp

definition braced_names :: "string \<Rightarrow> fault option + string list" where
  "braced_names s =
     (case expand_braced_alternates s of
        Inl f \<Rightarrow> Inl (Some f) | Inr None \<Rightarrow> Inl None | Inr (Some xs) \<Rightarrow> Inr xs)"

definition braceable :: "string list \<Rightarrow> bool" where
  "braceable xs \<longleftrightarrow> xs \<noteq> [] \<and> (\<forall>x \<in> set xs. inert x) \<and> (\<forall>x \<in> set (tl xs). x \<noteq> [])"

lemma parse_collapsed:
  "braceable xs \<Longrightarrow> parse_braced_component (collapse_braced_alternates xs) = Inr (Some (xs, []))"
  using braced_loop_list [of xs False "[]" "[]"]
  by (simp add: braceable_def parse_braced_component_def collapse_braced_alternates_def)

lemma expand_collapsed:
  "braceable xs \<Longrightarrow> expand_braced_alternates (collapse_braced_alternates xs) = Inr (Some xs)"
  by (simp add: expand_braced_alternates_def expand_loop.simps parse_collapsed map_idI)
    (simp add: collapse_braced_alternates_def)

interpretation braces: text_codec collapse_braced_alternates braced_names braceable
  by unfold_locales (simp add: braced_names_def expand_collapsed)

text \<open>\<open>expand_braced_alternates\<close> inverts \<open>collapse_braced_alternates\<close>: the name of a RAIT device
  built from its children's names is taken apart into exactly those names, whatever commas,
  backslashes and braces they contain, when no name looks like a numeric range and only the first
  may be empty.\<close>

theorem braces_roundtrip:
  assumes "xs \<noteq> []" "\<forall>x \<in> set xs. split_sequence x = None" "\<forall>x \<in> set (tl xs). x \<noteq> []"
  shows "expand_braced_alternates (collapse_braced_alternates xs) = Inr (Some xs)"
  using assms by (simp add: expand_collapsed braceable_def inert_def)

theorem braces_roundtrip_witness:
  "expand_braced_alternates (collapse_braced_alternates [''tape:/dev/nst0'', ''a,b{c}'', ''x'']) =
   Inr (Some [''tape:/dev/nst0'', ''a,b{c}'', ''x''])"
  by (rule braces_roundtrip) (simp_all add: split_sequence_def is_digit_def)

lemma braced_loop_trailing_comma:
  assumes "xs \<noteq> []" "\<forall>x \<in> set xs. inert x" "\<forall>x \<in> set (tl xs). x \<noteq> []" "fresh \<longrightarrow> hd xs \<noteq> []"
  shows "braced_loop fresh (join_with '','' (map escape_braces xs) @ CHR '','' # rest) [] res =
           braced_loop True rest [] (res @ xs)"
  using assms
proof (induction xs arbitrary: fresh res)
  case (Cons x xs)
  have x: "braced_loop fresh (escape_braces x @ t) [] res = braced_loop False t x res" for t
    using Cons.prems(4) braced_loop_escaped_fresh [of x fresh t "[]" res] braced_loop_escaped [of x t "[]" res]
    by (cases fresh) simp_all
  show ?case
  proof (cases xs)
    case Nil
    with x Cons.prems(2) show ?thesis by simp
  next
    case (Cons y ys)
    with Cons.IH [of True "res @ [x]"] Cons.prems x show ?thesis
      by (simp add: join_with_Cons)
  qed
qed simp

text \<open>An empty name in the last place is lost: the collapsed text is rejected by the parser,
  because the closing brace after the comma is taken as a character of the name. Without the
  closing brace the parser reads past the end of its input.\<close>

theorem braces_trailing_empty:
  assumes "xs \<noteq> []" "\<forall>x \<in> set xs. split_sequence x = None" "\<forall>x \<in> set (tl xs). x \<noteq> []"
  shows "expand_braced_alternates (collapse_braced_alternates (xs @ [[]])) = Inr None \<and>
         expand_braced_alternates (butlast (collapse_braced_alternates (xs @ [[]]))) = Inl Out_of_bounds"
  using assms braced_loop_trailing_comma [of xs False "''}''" "[]"] braced_loop_trailing_comma [of xs False "[]" "[]"]
  by (simp add: expand_braced_alternates_def expand_loop.simps parse_braced_component_def
      collapse_braced_alternates_def join_with_snoc inert_def butlast_append)

theorem braces_trailing_empty_witness:
  "expand_braced_alternates (collapse_braced_alternates ([''a''] @ [[]])) = Inr None"
  using braces_trailing_empty [of "[''a'']"] by (simp add: split_sequence_def is_digit_def)

end
