(* ===== verification/Fileheader.thy ===== *)
theory Fileheader
  imports Amanda_Prelude
begin

text \<open>
  The dump file header of \<open>common-src/fileheader.h\<close> and the operations on it that other components
  use as they are: initialisation, copying and comparison (\<open>common-src/fileheader.c\<close>).
\<close>

datatype filetype =
    F_UNKNOWN | F_WEIRD | F_TAPESTART | F_TAPEEND | F_DUMPFILE | F_CONT_DUMPFILE
  | F_SPLIT_DUMPFILE | F_NOOP | F_EMPTY

record dumpfile =
  h_type :: filetype
  h_datestamp :: string
  h_dumplevel :: int
  h_compressed :: int
  h_encrypted :: int
  h_comp_suffix :: string
  h_encrypt_suffix :: string
  h_name :: string
  h_disk :: string
  h_program :: string
  h_application :: string
  h_srvcompprog :: string
  h_clntcompprog :: string
  h_srv_encrypt :: string
  h_clnt_encrypt :: string
  h_recover_cmd :: string
  h_uncompress_cmd :: string
  h_decrypt_cmd :: string
  h_srv_decrypt_opt :: string
  h_clnt_decrypt_opt :: string
  h_cont_filename :: string
  h_dle_str :: "string option"
  h_is_partial :: int
  h_partnum :: int
  h_totalparts :: int
  h_blocksize :: nat
  h_orig_size :: int

definition fh_init :: dumpfile where
  "fh_init = \<lparr>h_type = F_EMPTY, h_datestamp = [], h_dumplevel = 0, h_compressed = 0,
     h_encrypted = 0, h_comp_suffix = [], h_encrypt_suffix = [], h_name = [], h_disk = [],
     h_program = [], h_application = [], h_srvcompprog = [], h_clntcompprog = [],
     h_srv_encrypt = [], h_clnt_encrypt = [], h_recover_cmd = [], h_uncompress_cmd = [],
     h_decrypt_cmd = [], h_srv_decrypt_opt = [], h_clnt_decrypt_opt = [], h_cont_filename = [],
     h_dle_str = None, h_is_partial = 0, h_partnum = 0, h_totalparts = 0, h_blocksize = 0,
     h_orig_size = 0\<rparr>"

definition dle_str_differs :: "string option \<Rightarrow> string option \<Rightarrow> bool" where
  \<comment> \<open>a NULL string never differs\<close>
  "dle_str_differs a b = (case (a, b) of (Some x, Some y) \<Rightarrow> x \<noteq> y | _ \<Rightarrow> False)"

definition headers_are_equal :: "dumpfile option \<Rightarrow> dumpfile option \<Rightarrow> bool" where
  "headers_are_equal a b =
     (case (a, b) of
        (None, None) \<Rightarrow> True
      | (None, Some _) \<Rightarrow> False
      | (Some _, None) \<Rightarrow> False
      | (Some a, Some b) \<Rightarrow>
          if h_type a \<noteq> h_type b then False
          else if h_datestamp a \<noteq> h_datestamp b then False
          else if h_dumplevel a \<noteq> h_dumplevel b then False
          else if h_compressed a \<noteq> h_compressed b then False
          else if h_encrypted a \<noteq> h_encrypted b then False
          else if h_comp_suffix a \<noteq> h_comp_suffix b then False
          else if h_encrypt_suffix a \<noteq> h_encrypt_suffix b then False
          else if h_name a \<noteq> h_name b then False
          else if h_disk a \<noteq> h_disk b then False
          else if h_program a \<noteq> h_program b then False
          else if h_application a \<noteq> h_application b then False
          else if h_srvcompprog a \<noteq> h_srvcompprog b then False
          else if h_clntcompprog a \<noteq> h_clntcompprog b then False
          else if h_srv_encrypt a \<noteq> h_srv_encrypt b then False
          else if h_clnt_encrypt a \<noteq> h_clnt_encrypt b then False
          else if h_recover_cmd a \<noteq> h_recover_cmd b then False
          else if h_uncompress_cmd a \<noteq> h_uncompress_cmd b then False
          else if h_decrypt_cmd a \<noteq> h_decrypt_cmd b then False
          else if h_srv_decrypt_opt a \<noteq> h_srv_decrypt_opt b then False
          else if h_clnt_decrypt_opt a \<noteq> h_clnt_decrypt_opt b then False
          else if h_cont_filename a \<noteq> h_cont_filename b then False
          else if dle_str_differs (h_dle_str a) (h_dle_str b) then False
          else if h_is_partial a \<noteq> h_is_partial b then False
          else if h_partnum a \<noteq> h_partnum b then False
          else if h_totalparts a \<noteq> h_totalparts b then False
          else if h_blocksize a \<noteq> h_blocksize b then False
          else True)"

definition dumpfile_copy :: "dumpfile \<Rightarrow> dumpfile" where
  "dumpfile_copy source = source"

lemma headers_are_equal_iff:
  "headers_are_equal (Some a) (Some b) \<longleftrightarrow>
   \<not> dle_str_differs (h_dle_str a) (h_dle_str b) \<and>
   a\<lparr>h_dle_str := None, h_orig_size := 0\<rparr> = b\<lparr>h_dle_str := None, h_orig_size := 0\<rparr>"
  by (cases a; cases b) (simp add: headers_are_equal_def)

lemma headers_are_equal_None [simp]:
  "headers_are_equal None b \<longleftrightarrow> b = None" "headers_are_equal a None \<longleftrightarrow> a = None"
  by (cases b; simp only: headers_are_equal_def prod.case option.case option.simps simp_thms)
    (cases a; simp only: headers_are_equal_def prod.case option.case option.simps simp_thms)

lemma dle_str_differs_sym: "dle_str_differs a b = dle_str_differs b a"
  by (auto simp: dle_str_differs_def split: option.split)

lemma headers_are_equal_refl [simp]: "headers_are_equal a a"
  by (cases a) (simp_all add: headers_are_equal_iff dle_str_differs_def split: option.split)

lemma headers_are_equal_sym: "headers_are_equal a b \<longleftrightarrow> headers_are_equal b a"
  by (cases a; cases b) (auto simp: headers_are_equal_iff dle_str_differs_sym)

text \<open>
  Equality is not identity: the original size is not compared, and a missing DLE string equals
  every DLE string, so the relation is not transitive.
\<close>

lemma headers_are_equal_dle:
  "headers_are_equal (Some h) (Some (h\<lparr>h_dle_str := None\<rparr>))"
  by (simp add: headers_are_equal_iff dle_str_differs_def split: option.split)

end
