(* ===== verification/Device.thy ===== *)
theory Device
  imports Fileheader
begin

text \<open>
  The Device API of \<open>device-src/device.h\<close> and \<open>device-src/device.c\<close>: the common fields of every
  device, the virtual method table of its class, and the dispatching functions callers use, with
  the assertions they make before they call a method. A subclass adds its own fields by extending
  the record, as the C structure is extended; diagnostic texts are not modelled.
\<close>

section \<open>Device state\<close>

datatype device_access_mode = ACCESS_NULL | ACCESS_READ | ACCESS_WRITE | ACCESS_APPEND

definition is_writable_access_mode :: "device_access_mode \<Rightarrow> bool" where
  "is_writable_access_mode mode \<longleftrightarrow> mode = ACCESS_WRITE \<or> mode = ACCESS_APPEND"

type_synonym device_status_flags = "32 word"

definition DEVICE_STATUS_SUCCESS :: device_status_flags where "DEVICE_STATUS_SUCCESS = 0"
definition DEVICE_STATUS_DEVICE_ERROR :: device_status_flags where "DEVICE_STATUS_DEVICE_ERROR = 1"
definition DEVICE_STATUS_DEVICE_BUSY :: device_status_flags where "DEVICE_STATUS_DEVICE_BUSY = 2"
definition DEVICE_STATUS_VOLUME_MISSING :: device_status_flags where "DEVICE_STATUS_VOLUME_MISSING = 4"
definition DEVICE_STATUS_VOLUME_UNLABELED :: device_status_flags where
  "DEVICE_STATUS_VOLUME_UNLABELED = 8"
definition DEVICE_STATUS_VOLUME_ERROR :: device_status_flags where "DEVICE_STATUS_VOLUME_ERROR = 16"

lemmas device_status_defs =
  DEVICE_STATUS_SUCCESS_def DEVICE_STATUS_DEVICE_ERROR_def DEVICE_STATUS_DEVICE_BUSY_def
  DEVICE_STATUS_VOLUME_MISSING_def DEVICE_STATUS_VOLUME_UNLABELED_def DEVICE_STATUS_VOLUME_ERROR_def

datatype property_surety = PROPERTY_SURETY_BAD | PROPERTY_SURETY_GOOD
datatype property_source = PROPERTY_SOURCE_DEFAULT | PROPERTY_SOURCE_DETECTED | PROPERTY_SOURCE_USER

datatype concurrency_paradigm =
  CONCURRENCY_PARADIGM_EXCLUSIVE | CONCURRENCY_PARADIGM_SHARED_READ | CONCURRENCY_PARADIGM_RANDOM_ACCESS
datatype streaming_requirement =
  STREAMING_REQUIREMENT_NONE | STREAMING_REQUIREMENT_DESIRED | STREAMING_REQUIREMENT_REQUIRED
datatype media_access_mode =
  MEDIA_ACCESS_MODE_READ_ONLY | MEDIA_ACCESS_MODE_WORM | MEDIA_ACCESS_MODE_READ_WRITE
  | MEDIA_ACCESS_MODE_WRITE_ONLY

datatype property_id =
    PROPERTY_CONCURRENCY | PROPERTY_STREAMING | PROPERTY_APPENDABLE | PROPERTY_PARTIAL_DELETION
  | PROPERTY_FULL_DELETION | PROPERTY_LEOM | PROPERTY_MEDIUM_ACCESS_TYPE | PROPERTY_BLOCK_SIZE
  | PROPERTY_MIN_BLOCK_SIZE | PROPERTY_MAX_BLOCK_SIZE | PROPERTY_CANONICAL_NAME
  | PROPERTY_MAX_VOLUME_USAGE

text \<open>A \<open>GValue\<close>: a value tagged with its type.\<close>

datatype gvalue =
    G_int int | G_uint nat | G_uint64 "64 word" | G_bool bool | G_string string
  | G_concurrency concurrency_paradigm | G_streaming streaming_requirement
  | G_media media_access_mode

record device =
  d_file :: int
  d_block :: "64 word"
  d_in_file :: bool
  d_access_mode :: device_access_mode
  d_is_eof :: bool
  d_is_eom :: bool
  d_volume_label :: "string option"
  d_volume_time :: "string option"
  d_volume_header :: "dumpfile option"
  d_status :: device_status_flags
  d_min_block_size :: nat
  d_max_block_size :: nat
  d_block_size :: nat
  d_header_block_size :: nat
  d_bytes_read :: "64 word"
  d_bytes_written :: "64 word"
  d_block_size_surety :: property_surety
  d_block_size_source :: property_source
  d_wrote_short_block :: bool   \<comment> \<open>of the private part\<close>

definition device_set_error :: "device_status_flags \<Rightarrow> 'p device_scheme \<Rightarrow> 'p device_scheme" where
  "device_set_error new_flags self = self\<lparr>d_status := new_flags\<rparr>"

definition device_in_error :: "'p device_scheme \<Rightarrow> bool" where
  "device_in_error dev \<longleftrightarrow> d_status dev = DEVICE_STATUS_DEVICE_ERROR"

datatype property_phase =
    PHASE_BEFORE_START | PHASE_BETWEEN_FILE_WRITE | PHASE_INSIDE_FILE_WRITE
  | PHASE_BETWEEN_FILE_READ | PHASE_INSIDE_FILE_READ

definition state_to_phase :: "'p device_scheme \<Rightarrow> property_phase" where
  "state_to_phase self =
     (if d_access_mode self = ACCESS_NULL then PHASE_BEFORE_START
      else if is_writable_access_mode (d_access_mode self) then
        (if d_in_file self then PHASE_INSIDE_FILE_WRITE else PHASE_BETWEEN_FILE_WRITE)
      else
        (if d_in_file self then PHASE_INSIDE_FILE_READ else PHASE_BETWEEN_FILE_READ))"

section \<open>The class of a device\<close>

text \<open>
  The virtual methods. A method that is a NULL pointer is \<^term>\<open>None\<close> where the dispatcher tests for
  it. \<open>read_block\<close> returns the new device, the result, the value left in \<open>*size\<close> and the bytes
  stored in the buffer.
\<close>

record 'd device_class =
  k_configure :: "('d \<Rightarrow> bool \<Rightarrow> 'd \<times> bool) option"
  k_read_label :: "'d \<Rightarrow> 'd \<times> device_status_flags"
  k_start :: "('d \<Rightarrow> device_access_mode \<Rightarrow> string option \<Rightarrow> string option \<Rightarrow> 'd \<times> bool) option"
  k_start_file :: "'d \<Rightarrow> dumpfile \<Rightarrow> 'd \<times> bool"
  k_write_block :: "'d \<Rightarrow> nat \<Rightarrow> byte list \<Rightarrow> 'd \<times> bool"
  k_finish_file :: "'d \<Rightarrow> 'd \<times> bool"
  k_seek_file :: "'d \<Rightarrow> nat \<Rightarrow> 'd \<times> dumpfile option"
  k_seek_block :: "'d \<Rightarrow> 64 word \<Rightarrow> 'd \<times> bool"
  k_read_block :: "'d \<Rightarrow> nat \<Rightarrow> 'd \<times> int \<times> nat \<times> byte list"
  k_property_get :: "'d \<Rightarrow> property_id \<Rightarrow> 'd \<times> (gvalue \<times> property_surety \<times> property_source) option"
  k_property_set :: "'d \<Rightarrow> property_id \<Rightarrow> gvalue \<Rightarrow> property_surety \<Rightarrow> property_source \<Rightarrow> 'd \<times> bool"
  k_recycle_file :: "'d \<Rightarrow> nat \<Rightarrow> 'd \<times> bool"
  k_erase :: "('d \<Rightarrow> 'd \<times> bool) option"
  k_eject :: "('d \<Rightarrow> 'd \<times> bool) option"
  k_finish :: "'d \<Rightarrow> 'd \<times> bool"

definition assert_then :: "bool \<Rightarrow> 'a \<Rightarrow> fault + 'a" where
  "assert_then b x = (if b then Inr x else Inl Assertion_failed)"

lemma assert_then_Inr [simp]: "assert_then b x = Inr y \<longleftrightarrow> b \<and> x = y"
  by (simp add: assert_then_def)

lemma assert_then_True [simp]: "assert_then True x = Inr x"
  by (simp add: assert_then_def)

type_synonym 'p devclass = "'p device_scheme device_class"

definition device_read_label ::
  "'p devclass \<Rightarrow> 'p device_scheme \<Rightarrow> fault + 'p device_scheme \<times> device_status_flags" where
  "device_read_label klass self = assert_then (d_access_mode self = ACCESS_NULL) (k_read_label klass self)"

definition device_finish :: "'p devclass \<Rightarrow> 'p device_scheme \<Rightarrow> 'p device_scheme \<times> bool" where
  "device_finish klass self = k_finish klass self"

definition device_configure ::
  "'p devclass \<Rightarrow> 'p device_scheme \<Rightarrow> bool \<Rightarrow> fault + 'p device_scheme \<times> bool" where
  "device_configure klass self use_global_config =
     assert_then (d_access_mode self = ACCESS_NULL)
       (case k_configure klass of
          Some configure \<Rightarrow> configure self use_global_config
        | None \<Rightarrow> (device_set_error DEVICE_STATUS_DEVICE_ERROR self, False))"

datatype time_state = TIME_STATE_REPLACE | TIME_STATE_UNDEF | TIME_STATE_SET

definition get_timestamp_state :: "string option \<Rightarrow> time_state" where
  "get_timestamp_state timestamp =
     (case timestamp of
        None \<Rightarrow> TIME_STATE_REPLACE
      | Some t \<Rightarrow> if t = [] then TIME_STATE_REPLACE else if t = ''X'' then TIME_STATE_UNDEF
                  else TIME_STATE_SET)"

text \<open>\<open>now\<close> is the timestamp of the current time.\<close>

definition device_start ::
  "'p devclass \<Rightarrow> string \<Rightarrow> 'p device_scheme \<Rightarrow> device_access_mode \<Rightarrow> string option \<Rightarrow> string option \<Rightarrow>
   fault + 'p device_scheme \<times> bool" where
  "device_start klass now self mode label timestamp =
     (if mode = ACCESS_NULL \<or> (mode = ACCESS_WRITE \<and> label = None) then Inl Assertion_failed
      else case k_start klass of
          None \<Rightarrow> Inl Assertion_failed
        | Some start \<Rightarrow>
            Inr (start self mode label
              (if mode = ACCESS_WRITE \<and> get_timestamp_state timestamp = TIME_STATE_REPLACE
               then Some now else timestamp)))"

definition device_write_block ::
  "'p devclass \<Rightarrow> 'p device_scheme \<Rightarrow> nat \<Rightarrow> byte list \<Rightarrow> fault + 'p device_scheme \<times> bool" where
  "device_write_block klass self sz block =
     (if \<not> (sz > 0 \<and> sz \<le> d_block_size self \<and> d_in_file self \<and> \<not> d_wrote_short_block self \<and>
            is_writable_access_mode (d_access_mode self))
      then Inl Assertion_failed
      else Inr (k_write_block klass
             (if sz < d_block_size self then self\<lparr>d_wrote_short_block := True\<rparr> else self) sz block))"

definition device_start_file ::
  "'p devclass \<Rightarrow> 'p device_scheme \<Rightarrow> dumpfile \<Rightarrow> fault + 'p device_scheme \<times> bool" where
  "device_start_file klass self jobInfo =
     assert_then (\<not> d_in_file self) (k_start_file klass (self\<lparr>d_wrote_short_block := False\<rparr>) jobInfo)"

definition device_finish_file ::
  "'p devclass \<Rightarrow> 'p device_scheme \<Rightarrow> fault + 'p device_scheme \<times> bool" where
  "device_finish_file klass self =
     assert_then (is_writable_access_mode (d_access_mode self) \<and> d_in_file self) (k_finish_file klass self)"

definition device_seek_file ::
  "'p devclass \<Rightarrow> 'p device_scheme \<Rightarrow> nat \<Rightarrow> fault + 'p device_scheme \<times> dumpfile option" where
  "device_seek_file klass self file =
     assert_then (d_access_mode self = ACCESS_READ) (k_seek_file klass self file)"

definition device_seek_block ::
  "'p devclass \<Rightarrow> 'p device_scheme \<Rightarrow> 64 word \<Rightarrow> fault + 'p device_scheme \<times> bool" where
  "device_seek_block klass self block =
     assert_then (d_access_mode self = ACCESS_READ \<and> d_in_file self) (k_seek_block klass self block)"

definition device_read_block ::
  "'p devclass \<Rightarrow> 'p device_scheme \<Rightarrow> nat \<Rightarrow> fault + 'p device_scheme \<times> int \<times> nat \<times> byte list" where
  "device_read_block klass self sz =
     assert_then (d_access_mode self = ACCESS_READ) (k_read_block klass self sz)"

definition device_recycle_file ::
  "'p devclass \<Rightarrow> 'p device_scheme \<Rightarrow> nat \<Rightarrow> fault + 'p device_scheme \<times> bool" where
  "device_recycle_file klass self filenum =
     assert_then (d_access_mode self = ACCESS_APPEND \<and> \<not> d_in_file self) (k_recycle_file klass self filenum)"

definition device_erase :: "'p devclass \<Rightarrow> 'p device_scheme \<Rightarrow> fault + 'p device_scheme \<times> bool" where
  "device_erase klass self =
     assert_then (d_access_mode self = ACCESS_NULL \<and> \<not> d_in_file self)
       (case k_erase klass of
          Some erase \<Rightarrow> erase self
        | None \<Rightarrow> (device_set_error DEVICE_STATUS_DEVICE_ERROR self, False))"

definition device_eject :: "'p devclass \<Rightarrow> 'p device_scheme \<Rightarrow> fault + 'p device_scheme \<times> bool" where
  "device_eject klass self =
     assert_then (d_access_mode self = ACCESS_NULL \<and> \<not> d_in_file self)
       (case k_eject klass of Some eject \<Rightarrow> eject self | None \<Rightarrow> (self, True))"

section \<open>A new device\<close>

definition SIZE_MAX :: nat where "SIZE_MAX = 2 ^ 64 - 1"
definition INT_MAX :: nat where "INT_MAX = 2 ^ 31 - 1"

definition device_init :: "bool \<Rightarrow> 'p \<Rightarrow> 'p device_scheme" where
  \<comment> \<open>\<open>wrote_short_block\<close> is not initialised; the object system clears the public part\<close>
  "device_init garbage p =
     \<lparr>d_file = - 1, d_block = 0, d_in_file = False, d_access_mode = ACCESS_NULL, d_is_eof = False,
      d_is_eom = False, d_volume_label = None, d_volume_time = None, d_volume_header = None,
      d_status = DEVICE_STATUS_SUCCESS, d_min_block_size = 1, d_max_block_size = SIZE_MAX,
      d_block_size = 32768, d_header_block_size = 0, d_bytes_read = 0, d_bytes_written = 0,
      d_block_size_surety = PROPERTY_SURETY_BAD, d_block_size_source = PROPERTY_SOURCE_DEFAULT,
      d_wrote_short_block = garbage, \<dots> = p\<rparr>"

text \<open>
  A device that keeps its blocks in a list: the examples are evaluated on it. It is not part of
  the program.
\<close>

type_synonym store = "byte list list device_scheme"

definition store_class :: "byte list list devclass" where
  "store_class =
     \<lparr>k_configure = None,
      k_read_label = (\<lambda>d. (d\<lparr>d_volume_label := Some ''A'', d_volume_time := Some ''X''\<rparr>, 0)),
      k_start = Some (\<lambda>d mode label timestamp.
        (d\<lparr>d_access_mode := mode, d_volume_label := label, d_volume_time := timestamp\<rparr>, True)),
      k_start_file = (\<lambda>d info. (d\<lparr>d_in_file := True, d_file := d_file d + 1\<rparr>, True)),
      k_write_block = (\<lambda>d sz block. (device.more_update (\<lambda>bs. bs @ [take sz block]) d, True)),
      k_finish_file = (\<lambda>d. (d\<lparr>d_in_file := False\<rparr>, True)),
      k_seek_file = (\<lambda>d file. (d\<lparr>d_in_file := True, d_file := int file\<rparr>, Some fh_init)),
      k_seek_block = (\<lambda>d block. (d\<lparr>d_block := block\<rparr>, True)),
      k_read_block = (\<lambda>d sz.
        case device.more d of
          [] \<Rightarrow> (d\<lparr>d_is_eof := True\<rparr>, - 1, sz, [])
        | b # bs \<Rightarrow> (device.more_update (\<lambda>_. bs) d, int (length b), length b, b)),
      k_property_get = (\<lambda>d prop. (d,
        if prop = PROPERTY_MIN_BLOCK_SIZE then
          Some (G_uint (d_min_block_size d), PROPERTY_SURETY_GOOD, PROPERTY_SOURCE_DEFAULT)
        else if prop = PROPERTY_MAX_BLOCK_SIZE then
          Some (G_uint (d_max_block_size d), PROPERTY_SURETY_GOOD, PROPERTY_SOURCE_DEFAULT)
        else if prop = PROPERTY_BLOCK_SIZE then
          Some (G_int (int (d_block_size d)), d_block_size_surety d, d_block_size_source d)
        else None)),
      k_property_set = (\<lambda>d prop v surety source.
        case v of G_int n \<Rightarrow> (d\<lparr>d_block_size := nat n, d_block_size_surety := surety,
                               d_block_size_source := source\<rparr>, True) | _ \<Rightarrow> (d, False)),
      k_recycle_file = (\<lambda>d n. (d, True)),
      k_erase = None,
      k_eject = None,
      k_finish = (\<lambda>d. (d\<lparr>d_access_mode := ACCESS_NULL\<rparr>, True))\<rparr>"

lemmas store_simps = store_class_def device_init_def

end
