(* ===== verification/Rait_Parity.thy ===== *)
theory Rait_Parity
  imports Amanda_Prelude
begin

unbundle bit_operations_syntax

text \<open>
  Parity blocks of the RAIT device (\<open>device-src/rait-device.c\<close>): how a block is cut into one
  chunk per data child, how the parity chunk is made, and the algebra behind the recovery of a
  missing chunk. The algebra is stated once for any commutative operation in which every element
  is its own inverse, and interpreted on byte blocks under bitwise exclusive or.
\<close>

section \<open>Self-inverse combination\<close>

locale parity_algebra =
  fixes combine :: "'b \<Rightarrow> 'b \<Rightarrow> 'b"
    and zero :: 'b
    and valid :: "'b \<Rightarrow> bool"
  assumes valid_zero: "valid zero"
    and valid_combine: "valid a \<Longrightarrow> valid b \<Longrightarrow> valid (combine a b)"
    and assoc: "valid a \<Longrightarrow> valid b \<Longrightarrow> valid c \<Longrightarrow> combine (combine a b) c = combine a (combine b c)"
    and commute: "valid a \<Longrightarrow> valid b \<Longrightarrow> combine a b = combine b a"
    and unit: "valid a \<Longrightarrow> combine zero a = a"
    and self_inverse: "valid a \<Longrightarrow> combine a a = zero"
begin

lemma valid_foldl: "valid a \<Longrightarrow> list_all valid xs \<Longrightarrow> valid (foldl combine a xs)"
  by (induction xs arbitrary: a) (simp_all add: valid_combine)

lemma foldl_shift:
  "valid a \<Longrightarrow> valid b \<Longrightarrow> list_all valid xs \<Longrightarrow>
   foldl combine (combine a b) xs = combine a (foldl combine b xs)"
  by (induction xs arbitrary: b) (simp_all add: assoc valid_combine)

lemma foldl_split:
  "valid a \<Longrightarrow> list_all valid xs \<Longrightarrow> foldl combine a xs = combine a (foldl combine zero xs)"
  using foldl_shift [of a zero xs] commute [of a zero] by (simp add: valid_zero unit)

lemma foldl_middle:
  assumes "list_all valid xs" "valid x" "list_all valid ys"
  shows "foldl combine zero (xs @ x # ys) = combine x (foldl combine zero (xs @ ys))"
proof -
  have v: "valid (foldl combine zero xs)" using assms by (simp add: valid_foldl valid_zero)
  have "foldl combine zero (xs @ x # ys) = foldl combine (combine (foldl combine zero xs) x) ys"
    by simp
  also have "\<dots> = foldl combine (combine x (foldl combine zero xs)) ys"
    using assms v by (simp add: commute)
  also have "\<dots> = combine x (foldl combine (foldl combine zero xs) ys)"
    using assms v by (simp add: foldl_shift)
  finally show ?thesis by simp
qed

text \<open>The parity of all elements, combined with all but one, is the missing one.\<close>

lemma recover:
  assumes "list_all valid xs" "valid x" "list_all valid ys"
  shows "foldl combine zero (xs @ ys @ [foldl combine zero (xs @ x # ys)]) = x"
proof -
  let ?r = "foldl combine zero (xs @ ys)"
  have r: "valid ?r" using assms by (simp add: valid_foldl valid_zero del: foldl_append)
  have "foldl combine zero (xs @ ys @ [foldl combine zero (xs @ x # ys)]) =
      combine ?r (combine x ?r)"
    using foldl_middle [OF assms] by simp
  also have "\<dots> = combine x (combine ?r ?r)"
    by (simp only: commute [OF r valid_combine [OF assms(2) r]] assoc [OF assms(2) r r])
  finally show ?thesis
    using r assms(2) commute [OF assms(2) valid_zero] by (simp add: self_inverse unit)
qed

end

section \<open>Byte blocks\<close>

definition xor_block :: "byte list \<Rightarrow> byte list \<Rightarrow> byte list" where
  \<comment> \<open>\<open>parity[j] ^= chunk[j]\<close> for every \<open>j\<close> of the chunk\<close>
  "xor_block parity chunk = map2 (XOR) parity chunk"

definition make_parity_block :: "byte list \<Rightarrow> nat \<Rightarrow> nat \<Rightarrow> byte list" where
  "make_parity_block data chunk_size num_chunks =
     foldl (\<lambda>parity i. xor_block parity (take chunk_size (drop (chunk_size * i) data)))
       (replicate chunk_size 0) [0 ..< num_chunks - 1]"

definition make_parity_block_extents :: "byte list list \<Rightarrow> nat \<Rightarrow> byte list" where
  "make_parity_block_extents data chunk_size = foldl xor_block (replicate chunk_size 0) data"

definition extract_data_block :: "byte list \<Rightarrow> nat \<Rightarrow> nat \<Rightarrow> nat \<Rightarrow> fault + byte list" where
  "extract_data_block data sz chunks chunk =
     (if \<not> (chunks > 0 \<and> chunk > 0 \<and> chunk \<le> chunks) then Inl Assertion_failed
      else if \<not> (sz > 0 \<and> sz mod (chunks - 1) = 0) then Inl Assertion_failed
      else
        let chunk_size = sz div (chunks - 1) in
        Inr (if chunks \<noteq> chunk then take chunk_size (drop (chunk_size * (chunk - 1)) data)
             else make_parity_block data chunk_size chunks))"

lemma length_xor_block [simp]: "length (xor_block a b) = min (length a) (length b)"
  by (simp add: xor_block_def)

lemma nth_xor_block:
  "j < length a \<Longrightarrow> j < length b \<Longrightarrow> xor_block a b ! j = a ! j XOR b ! j"
  by (simp add: xor_block_def)

interpretation blocks: parity_algebra xor_block "replicate n 0" "\<lambda>b. length b = n" for n
proof unfold_locales
  fix a b c :: "byte list"
  assume a: "length a = n" and b: "length b = n"
  show "xor_block a b = xor_block b a"
    using a b by (intro nth_equalityI) (simp_all add: nth_xor_block xor.commute)
  assume c: "length c = n"
  show "xor_block (xor_block a b) c = xor_block a (xor_block b c)"
    using a b c by (intro nth_equalityI) (simp_all add: nth_xor_block xor.assoc)
next
  fix a :: "byte list"
  assume a: "length a = n"
  show "xor_block (replicate n 0) a = a"
    using a by (intro nth_equalityI) (simp_all add: nth_xor_block)
  show "xor_block a a = replicate n 0"
    using a by (intro nth_equalityI) (simp_all add: nth_xor_block)
qed simp_all

definition chunks_of :: "nat \<Rightarrow> nat \<Rightarrow> byte list \<Rightarrow> byte list list" where
  \<comment> \<open>the first \<open>n\<close> chunks of \<open>cs\<close> bytes\<close>
  "chunks_of cs n data = map (\<lambda>i. take cs (drop (cs * i) data)) [0 ..< n]"

lemma length_chunks_of [simp]: "length (chunks_of cs n data) = n"
  by (simp add: chunks_of_def)

lemma nth_chunks_of: "i < n \<Longrightarrow> chunks_of cs n data ! i = take cs (drop (cs * i) data)"
  by (simp add: chunks_of_def)

lemma chunks_of_Suc: "chunks_of cs (Suc n) data = chunks_of cs n data @ [take cs (drop (cs * n) data)]"
  by (simp add: chunks_of_def)

lemma concat_chunks_of: "concat (chunks_of cs n data) = take (cs * n) data"
proof (induction n)
  case (Suc n)
  then show ?case by (simp add: chunks_of_Suc take_add add.commute [of cs])
qed (simp add: chunks_of_def)

lemma chunk_length:
  assumes "length data = cs * n" and "i < n"
  shows "length (take cs (drop (cs * i) data)) = cs"
proof -
  have "cs * Suc i \<le> cs * n" using assms(2) by (intro mult_le_mono) simp_all
  then show ?thesis using assms(1) by simp
qed

lemma valid_chunks: "length data = cs * n \<Longrightarrow> list_all (\<lambda>b. length b = cs) (chunks_of cs n data)"
  unfolding list_all_iff chunks_of_def by (auto simp del: length_take length_drop intro: chunk_length)

lemma parity_eq_extents:
  "make_parity_block data cs (Suc n) = make_parity_block_extents (chunks_of cs n data) cs"
  by (simp add: make_parity_block_def make_parity_block_extents_def chunks_of_def foldl_map)

lemma length_parity [simp]:
  "length data = cs * n \<Longrightarrow> length (make_parity_block data cs (Suc n)) = cs"
  using blocks.valid_foldl [of "replicate cs 0" cs "chunks_of cs n data"] valid_chunks [of data cs n]
  by (simp add: parity_eq_extents make_parity_block_extents_def)

text \<open>A missing data chunk is the parity of the other data chunks and the parity chunk.\<close>

lemma split_chunks:
  "k < n \<Longrightarrow> chunks_of cs n data =
     take k (chunks_of cs n data) @ chunks_of cs n data ! k # drop (Suc k) (chunks_of cs n data)"
  by (simp add: id_take_nth_drop)

lemma recover_chunk:
  assumes "length data = cs * n" and "k < n"
  shows "make_parity_block_extents
           (take k (chunks_of cs n data) @ drop (Suc k) (chunks_of cs n data) @
            [make_parity_block data cs (Suc n)]) cs =
         chunks_of cs n data ! k"
proof -
  let ?c = "chunks_of cs n data"
  have v: "list_all (\<lambda>b. length b = cs) (take k ?c)" "length (?c ! k) = cs"
    "list_all (\<lambda>b. length b = cs) (drop (Suc k) ?c)"
    using valid_chunks [OF assms(1)] assms(2)
    by (auto simp: list_all_length simp del: take_map)
  have "make_parity_block data cs (Suc n) =
      foldl xor_block (replicate cs 0) (take k ?c @ ?c ! k # drop (Suc k) ?c)"
    unfolding parity_eq_extents make_parity_block_extents_def
    using split_chunks [OF assms(2)] by metis
  then show ?thesis
    using blocks.recover [OF v] unfolding make_parity_block_extents_def by simp
qed

end
