(* ===== verification/Rait.thy ===== *)
theory Rait
  imports Device Rait_Parity Quoting
begin

text \<open>
  The RAIT device (\<open>device-src/rait-device.c\<close>): a redundant array of inexpensive tapes. One child
  device holds parity, the others data; the array survives the loss of one child.

  A child is any device: its methods are the class record of \<open>Device\<close>, a parameter of every
  definition here. A child position that holds a NULL pointer is \<^term>\<open>None\<close>. The code runs the
  children of one operation in parallel threads, each on its own child only; the model runs them in
  index order. A failed assertion in any child ends the program.
\<close>

datatype rait_status = RAIT_STATUS_COMPLETE | RAIT_STATUS_DEGRADED | RAIT_STATUS_FAILED

text \<open>The status only gets worse; the order says how bad it is.\<close>

instantiation rait_status :: linorder
begin

fun severity :: "rait_status \<Rightarrow> nat" where
  "severity RAIT_STATUS_COMPLETE = 0"
| "severity RAIT_STATUS_DEGRADED = 1"
| "severity RAIT_STATUS_FAILED = 2"

definition less_eq_rait_status :: "rait_status \<Rightarrow> rait_status \<Rightarrow> bool" where
  "less_eq_rait_status a b \<longleftrightarrow> severity a \<le> severity b"

definition less_rait_status :: "rait_status \<Rightarrow> rait_status \<Rightarrow> bool" where
  "less_rait_status a b \<longleftrightarrow> severity a < severity b"

instance
proof
  fix a b :: rait_status
  show "a \<le> b \<Longrightarrow> b \<le> a \<Longrightarrow> a = b"
    by (cases a; cases b) (simp_all add: less_eq_rait_status_def)
qed (auto simp: less_eq_rait_status_def less_rait_status_def)

end

record 'c rait = device +
  r_children :: "'c option list"
  r_status :: rait_status
  r_failed :: int
  r_child_block_size :: nat

definition rait_device_init :: "bool \<Rightarrow> nat \<Rightarrow> 'c rait" where
  \<comment> \<open>what is not initialised is an argument\<close>
  "rait_device_init garbage cbs =
     device_init garbage
       \<lparr>r_children = [], r_status = RAIT_STATUS_COMPLETE, r_failed = - 1, r_child_block_size = cbs\<rparr>"

definition rait_device_in_error :: "('c, 'q) rait_scheme \<Rightarrow> bool" where
  "rait_device_in_error dev \<longleftrightarrow> device_in_error dev \<or> r_status dev = RAIT_STATUS_FAILED"

definition find_simple_params :: "('c, 'q) rait_scheme \<Rightarrow> nat \<times> nat" where
  "find_simple_params self =
     (let num = length (r_children self); data = (if num > 1 then num - 1 else num) in (num, data))"

section \<open>Operations on the children\<close>

definition all_children :: "('c, 'q) rait_scheme \<Rightarrow> (nat \<times> 'c option) list" where
  "all_children self = enumerate 0 (r_children self)"

definition live_children :: "('c, 'q) rait_scheme \<Rightarrow> (nat \<times> 'c option) list" where
  \<comment> \<open>every child but the failed one\<close>
  "live_children self = filter (\<lambda>(i, c). int i \<noteq> r_failed self) (all_children self)"

text \<open>
  An operation that has run on a child: the child's index, the child afterwards and its result.
  \<open>do_rait_child_ops\<close> gives the list of them; \<open>store_children\<close> is the effect on the array.
\<close>

type_synonym ('c, 'r) child_op = "nat \<times> 'c \<times> 'r"

definition run_op :: "(nat \<Rightarrow> 'c \<Rightarrow> fault + 'c \<times> 'r) \<Rightarrow> nat \<times> 'c option \<Rightarrow> fault + ('c, 'r) child_op" where
  "run_op f ic =
     (case ic of
        (i, None) \<Rightarrow> Inl Assertion_failed
      | (i, Some c) \<Rightarrow> map_r (\<lambda>(c', r). (i, c', r)) (f i c))"

definition do_rait_child_ops ::
  "(nat \<Rightarrow> 'c \<Rightarrow> fault + 'c \<times> 'r) \<Rightarrow> (nat \<times> 'c option) list \<Rightarrow> fault + ('c, 'r) child_op list" where
  "do_rait_child_ops f ops = collect_r (map (run_op f) ops)"

definition store_children ::
  "('c, 'r) child_op list \<Rightarrow> ('c, 'q) rait_scheme \<Rightarrow> ('c, 'q) rait_scheme" where
  "store_children ops self =
     self\<lparr>r_children := foldl (\<lambda>cs (i, c, r). cs[i := Some c]) (r_children self) ops\<rparr>"

definition g_ptr_array_and :: "('op \<Rightarrow> bool) \<Rightarrow> 'op list \<Rightarrow> bool" where
  "g_ptr_array_and extractor array = (array \<noteq> [] \<and> list_all extractor array)"

definition g_ptr_array_count :: "('op \<Rightarrow> bool) \<Rightarrow> 'op list \<Rightarrow> nat" where
  "g_ptr_array_count flt array = length (filter flt array)"

definition op_result :: "('c, 'r) child_op \<Rightarrow> 'r" where
  "op_result op = snd (snd op)"

definition op_child :: "('c, 'r) child_op \<Rightarrow> 'c" where
  "op_child op = fst (snd op)"

lemma op_simps [simp]: "op_result (i, c, r) = r" "op_child (i, c, r) = c"
  by (simp_all add: op_result_def op_child_def)

text \<open>
  \<open>g_ptr_array_union_robust\<close>: one failure of a complete array degrades it, anything more fails it.
  The index of the failed child is taken from the position in the list of operations.
\<close>

definition g_ptr_array_union_robust ::
  "(('c, 'r) child_op \<Rightarrow> bool) \<Rightarrow> ('c, 'r) child_op list \<Rightarrow> ('c, 'q) rait_scheme \<Rightarrow>
   ('c, 'q) rait_scheme \<times> bool" where
  "g_ptr_array_union_robust extractor ops self =
     (let bad = filter (\<lambda>(k, op). \<not> extractor op) (enumerate 0 ops) in
      if bad = [] then (self, True)
      else
        let (lastfailed, op) = last bad; self = self\<lparr>r_failed := int (fst op)\<rparr> in
        if r_status self = RAIT_STATUS_COMPLETE \<and> length bad = 1 then
          (self\<lparr>r_status := RAIT_STATUS_DEGRADED, r_failed := int lastfailed\<rparr>, True)
        else (self\<lparr>r_status := RAIT_STATUS_FAILED\<rparr>, False))"

section \<open>Block sizes\<close>

definition g_value_get_int :: "gvalue \<Rightarrow> int" where
  "g_value_get_int v = (case v of G_int i \<Rightarrow> i | _ \<Rightarrow> 0)"

definition g_value_get_uint :: "gvalue \<Rightarrow> nat" where
  "g_value_get_uint v = (case v of G_uint n \<Rightarrow> n | _ \<Rightarrow> 0)"

definition gsize_of_int :: "int \<Rightarrow> nat" where
  "gsize_of_int i = nat (i mod 2 ^ 64)"

text \<open>What one child says about its block size: nothing, or a range.\<close>

definition child_block_range ::
  "'p devclass \<Rightarrow> 'p device_scheme \<Rightarrow> 'p device_scheme \<times> (nat \<times> nat) option" where
  "child_block_range klass child =
     (case k_property_get klass child PROPERTY_BLOCK_SIZE of
        (child, None) \<Rightarrow> (child, None)
      | (child, Some (v, surety, source)) \<Rightarrow>
          if source = PROPERTY_SOURCE_USER then
            (child, Some (gsize_of_int (g_value_get_int v), gsize_of_int (g_value_get_int v)))
          else
            (case k_property_get klass child PROPERTY_MIN_BLOCK_SIZE of
               (child, None) \<Rightarrow> (child, None)
             | (child, Some (vmin, _)) \<Rightarrow>
                 (case k_property_get klass child PROPERTY_MAX_BLOCK_SIZE of
                    (child, None) \<Rightarrow> (child, None)
                  | (child, Some (vmax, _)) \<Rightarrow>
                      let child_min = g_value_get_uint vmin; child_max = g_value_get_uint vmax in
                      if child_min = 0 \<or> child_max = 0 \<or> child_min > child_max then (child, None)
                      else (child, Some (child_min, child_max)))))"

definition block_ranges :: "('c, (nat \<times> nat) option) child_op list \<Rightarrow> (nat \<times> nat) list" where
  "block_ranges ops = map (the \<circ> op_result) (filter (\<lambda>op. op_result op \<noteq> None) ops)"

definition clamp :: "nat \<Rightarrow> nat \<Rightarrow> nat \<Rightarrow> nat" where
  "clamp x low high = (if x > high then high else if x < low then low else x)"

text \<open>The block size the children can agree on, or 0, and the block size of the array.\<close>

definition calculate_block_size_from_children ::
  "'p devclass \<Rightarrow> ('p device_scheme) rait \<Rightarrow> fault + ('p device_scheme) rait \<times> nat \<times> nat" where
  "calculate_block_size_from_children klass self =
     map_r (\<lambda>ops.
       let self = store_children ops self;
           rs = block_ranges ops;
           mn = foldl max 0 (map fst rs);
           mx = foldl min SIZE_MAX (map snd rs) in
       if rs = [] then (device_set_error DEVICE_STATUS_DEVICE_ERROR self, 0, 0)
       else if mn > mx then (device_set_error DEVICE_STATUS_DEVICE_ERROR self, 0, 0)
       else
         let result = clamp 32768 mn mx in
         (self, result, result * snd (find_simple_params self)))
     (do_rait_child_ops (\<lambda>i c. Inr (child_block_range klass c)) (live_children self))"

text \<open>Tell the children, one by one, stopping at the first that refuses.\<close>

fun set_block_size_loop ::
  "'p devclass \<Rightarrow> nat \<Rightarrow> (nat \<times> 'p device_scheme option) list \<Rightarrow> ('p device_scheme) rait \<Rightarrow>
   fault + ('p device_scheme) rait \<times> bool" where
  "set_block_size_loop klass bs [] self = Inr (self, True)"
| "set_block_size_loop klass bs ((i, None) # rest) self = Inl Assertion_failed"
| "set_block_size_loop klass bs ((i, Some child) # rest) self =
     (case k_property_get klass child PROPERTY_BLOCK_SIZE of (child1, prop) \<Rightarrow>
      if (case prop of
            Some (v, surety, source) \<Rightarrow>
              source \<noteq> PROPERTY_SOURCE_DEFAULT \<and> gsize_of_int (g_value_get_int v) \<noteq> bs
          | None \<Rightarrow> False)
      then Inr (device_set_error DEVICE_STATUS_DEVICE_ERROR
                  (self\<lparr>r_children := (r_children self)[i := Some child1]\<rparr>), False)
      else
        (case k_property_set klass child1 PROPERTY_BLOCK_SIZE (G_int (int bs)) PROPERTY_SURETY_GOOD
                PROPERTY_SOURCE_USER of (child2, ok) \<Rightarrow>
         let self = self\<lparr>r_children := (r_children self)[i := Some child2]\<rparr> in
         if \<not> ok then Inr (device_set_error DEVICE_STATUS_DEVICE_ERROR self, False)
         else set_block_size_loop klass bs rest self))"

definition set_block_size_on_children ::
  "'p devclass \<Rightarrow> ('p device_scheme) rait \<Rightarrow> nat \<Rightarrow> fault + ('p device_scheme) rait \<times> bool" where
  "set_block_size_on_children klass self child_block_size =
     (if child_block_size \<ge> INT_MAX then Inl Assertion_failed
      else set_block_size_loop klass child_block_size (live_children self) self)"

definition fix_block_size ::
  "'p devclass \<Rightarrow> ('p device_scheme) rait \<Rightarrow> fault + ('p device_scheme) rait \<times> bool" where
  "fix_block_size klass self =
     (if d_block_size_source self = PROPERTY_SOURCE_DEFAULT then
        bind_r (calculate_block_size_from_children klass self)
          (\<lambda>(self, child_block_size, my_block_size).
             if child_block_size = 0 then Inr (self, False)
             else set_block_size_on_children klass
               (self\<lparr>r_child_block_size := child_block_size, d_block_size := my_block_size,
                     d_block_size_surety := PROPERTY_SURETY_GOOD,
                     d_block_size_source := PROPERTY_SOURCE_DETECTED\<rparr>)
               child_block_size)
      else
        let data_children = snd (find_simple_params self) in
        if data_children = 0 then Inl Div_by_zero
        else if d_block_size self mod data_children \<noteq> 0 then Inl Assertion_failed
        else set_block_size_on_children klass self (d_block_size self div data_children))"

section \<open>Opening\<close>

definition compare_volume_results :: "'p device_scheme \<Rightarrow> 'p device_scheme \<Rightarrow> bool" where
  "compare_volume_results a b \<longleftrightarrow>
     d_volume_time a = d_volume_time b \<and> d_volume_label a = d_volume_label b"

text \<open>
  \<open>device_open\<close> of a child name is a parameter: it gives a device, in error or not, or NULL.
\<close>

definition device_open_do_op :: "(string \<Rightarrow> 'c option) \<Rightarrow> string \<Rightarrow> 'c option" where
  "device_open_do_op device_open name =
     (if name = ''ERROR'' \<or> name = ''MISSING'' \<or> name = ''DEGRADED'' then None else device_open name)"

text \<open>The results are looked at in order: the first failure degrades, the second fails the array.\<close>

fun open_results ::
  "nat \<Rightarrow> ('p device_scheme) option list \<Rightarrow> ('p device_scheme) rait \<Rightarrow> device_status_flags \<Rightarrow> bool \<Rightarrow>
   ('p device_scheme) rait \<times> device_status_flags \<times> bool" where
  "open_results i [] self failure_flags failure = (self, failure_flags, failure)"
| "open_results i (r # rs) self failure_flags failure =
     (if r \<noteq> None \<and> d_status (the r) = DEVICE_STATUS_SUCCESS then
        open_results (i + 1) rs (self\<lparr>r_children := r_children self @ [r]\<rparr>) failure_flags failure
      else
        let flags = failure_flags OR
              (case r of None \<Rightarrow> DEVICE_STATUS_DEVICE_ERROR | Some d \<Rightarrow> d_status d) in
        if r_status self = RAIT_STATUS_COMPLETE then
          open_results (i + 1) rs
            (self\<lparr>r_children := r_children self @ [r], r_status := RAIT_STATUS_DEGRADED,
                  r_failed := int i\<rparr>) flags failure
        else open_results (i + 1) rs self flags True)"

definition open_child_devices ::
  "(string \<Rightarrow> ('p device_scheme) option) \<Rightarrow> ('p device_scheme) rait \<Rightarrow> string \<Rightarrow>
   fault + ('p device_scheme) rait \<times> bool" where
  "open_child_devices device_open self device_node =
     map_r (\<lambda>names.
       case names of
         None \<Rightarrow> (device_set_error DEVICE_STATUS_DEVICE_ERROR self, False)
       | Some names \<Rightarrow>
           (case open_results 0 (map (device_open_do_op device_open) names) self 0 False of
              (self, failure_flags, failure) \<Rightarrow>
                if failure then
                  (device_set_error failure_flags (self\<lparr>r_status := RAIT_STATUS_FAILED\<rparr>), False)
                else (self, True)))
     (expand_braced_alternates device_node)"

text \<open>
  \<open>rait_device_open_from_children\<close>, with the array that \<open>device_open\<close> of the sentinel name returned.
\<close>

definition open_from_children ::
  "('p device_scheme) rait \<Rightarrow> ('p device_scheme) option list \<Rightarrow> ('p device_scheme) rait" where
  "open_from_children self kids =
     (let failures = filter (\<lambda>(i, k). k = None) (enumerate 0 kids);
          self = self\<lparr>r_children := r_children self @ kids\<rparr>;
          self = (if failures = [] then self else self\<lparr>r_failed := int (fst (last failures))\<rparr>) in
      if length failures = 0 then self\<lparr>r_status := RAIT_STATUS_COMPLETE\<rparr>
      else if length failures = 1 then self\<lparr>r_status := RAIT_STATUS_DEGRADED\<rparr>
      else device_set_error DEVICE_STATUS_DEVICE_ERROR (self\<lparr>r_status := RAIT_STATUS_FAILED\<rparr>))"

definition child_device_names_to_rait_name ::
  "'p devclass \<Rightarrow> ('p device_scheme) rait \<Rightarrow> fault + string" where
  "child_device_names_to_rait_name klass self =
     map_r (\<lambda>kids. ''rait:'' @ collapse_braced_alternates kids)
       (collect_r (map (\<lambda>(i, child).
          if int i = r_failed self then Inr ''MISSING''
          else case child of
              None \<Rightarrow> Inl Assertion_failed
            | Some child \<Rightarrow>
                (case snd (k_property_get klass child PROPERTY_CANONICAL_NAME) of
                   None \<Rightarrow> Inr ''MISSING''
                 | Some (G_string name, _) \<Rightarrow> Inr name
                 | Some _ \<Rightarrow> Inl Out_of_bounds))
        (all_children self)))"

section \<open>Labels and start\<close>

text \<open>
  The labels of the children that could be read are compared with the first of them. The result
  is the first success, the status flags collected, in the order of the children.
\<close>

fun read_label_results ::
  "('p device_scheme, device_status_flags) child_op list \<Rightarrow> ('p device_scheme) option \<Rightarrow>
   device_status_flags \<Rightarrow> ('p device_scheme) option \<times> device_status_flags" where
  "read_label_results [] first_success failed_result = (first_success, failed_result)"
| "read_label_results ((i, child, result) # ops) first_success failed_result =
     (if result = DEVICE_STATUS_SUCCESS then
        (case first_success of
           None \<Rightarrow> read_label_results ops (Some child) failed_result
         | Some f \<Rightarrow>
             if \<not> compare_volume_results f child
             then read_label_results ops first_success (failed_result OR DEVICE_STATUS_VOLUME_ERROR)
             else read_label_results ops first_success failed_result)
      else read_label_results ops first_success (failed_result OR result))"

definition rait_device_read_label ::
  "'p devclass \<Rightarrow> ('p device_scheme) rait \<Rightarrow> fault + ('p device_scheme) rait \<times> device_status_flags" where
  "rait_device_read_label klass self =
     (let self = self\<lparr>d_volume_time := None, d_volume_label := None, d_volume_header := None\<rparr> in
      if rait_device_in_error self then Inr (self, d_status self OR DEVICE_STATUS_DEVICE_ERROR)
      else bind_r (fix_block_size klass self) (\<lambda>(self, ok).
        if \<not> ok then Inr (self, 0)
        else bind_r (do_rait_child_ops (\<lambda>i c. device_read_label klass c) (live_children self)) (\<lambda>ops.
          let self = store_children ops self;
              (first_success, failed_result) = read_label_results ops None 0 in
          if failed_result \<noteq> DEVICE_STATUS_SUCCESS then
            let self = device_set_error failed_result self in Inr (self, d_status self)
          else case first_success of
              None \<Rightarrow> Inl Assertion_failed
            | Some f \<Rightarrow>
                let self = self\<lparr>
                    d_volume_label := d_volume_label f,
                    d_volume_time := d_volume_time f,
                    d_volume_header := map_option dumpfile_copy (d_volume_header f),
                    d_header_block_size := d_header_block_size f\<rparr>
                in Inr (self, d_status self))))"

definition rait_device_configure ::
  "'p devclass \<Rightarrow> (('p device_scheme) rait \<Rightarrow> bool \<Rightarrow> ('p device_scheme) rait \<times> bool) \<Rightarrow>
   ('p device_scheme) rait \<Rightarrow> bool \<Rightarrow> fault + ('p device_scheme) rait \<times> bool" where
  \<comment> \<open>\<open>parent\<close> is the \<open>configure\<close> method of the parent class\<close>
  "rait_device_configure klass parent dself use_global_config =
     bind_r
       (foldl (\<lambda>acc (i, child).
          bind_r acc (\<lambda>(self, ok).
            if \<not> ok then Inr (self, False)
            else case child of
                None \<Rightarrow> Inl Assertion_failed
              | Some c \<Rightarrow> map_r (\<lambda>(c, ok). (self\<lparr>r_children := (r_children self)[i := Some c]\<rparr>, ok))
                            (device_configure klass c False)))
         (Inr (dself, True)) (live_children dself))
       (\<lambda>(self, ok). if \<not> ok then Inr (self, False) else Inr (parent self use_global_config))"

text \<open>
  After the children have been started their labels are collected: the array takes the first label
  found, and a child with another label, or with none, is an error. \<open>from\<close> is set once a label
  has been taken.
\<close>

fun start_results ::
  "('p device_scheme, bool) child_op list \<Rightarrow> ('p device_scheme) rait \<Rightarrow> device_status_flags \<Rightarrow> bool \<Rightarrow>
   ('p device_scheme) rait \<times> device_status_flags" where
  "start_results [] dself total_status from = (dself, total_status)"
| "start_results ((i, child, result) # ops) dself total_status from =
     (let total_status = total_status OR d_status child in
      if d_status child \<noteq> DEVICE_STATUS_SUCCESS then start_results ops dself total_status from
      else if d_volume_label child \<noteq> None \<and> d_volume_time child \<noteq> None then
        if from then
          if d_volume_label child \<noteq> d_volume_label dself \<or> d_volume_time child \<noteq> d_volume_time dself
          then start_results ops dself (total_status OR DEVICE_STATUS_DEVICE_ERROR) from
          else start_results ops dself total_status from
        else start_results ops
          (dself\<lparr>d_volume_label := d_volume_label child, d_volume_time := d_volume_time child,
                 d_volume_header := map_option dumpfile_copy (d_volume_header child)\<rparr>)
          total_status True
      else start_results ops dself (total_status OR DEVICE_STATUS_DEVICE_ERROR) from)"

definition start_do_op ::
  "'p devclass \<Rightarrow> device_access_mode \<Rightarrow> string option \<Rightarrow> string option \<Rightarrow> 'p device_scheme \<Rightarrow>
   'p device_scheme \<times> bool" where
  "start_do_op klass mode label timestamp child =
     (case k_start klass of
        Some start \<Rightarrow> start child mode label timestamp
      | None \<Rightarrow> (child, False))"

definition rait_device_start ::
  "'p devclass \<Rightarrow> ('p device_scheme) rait \<Rightarrow> device_access_mode \<Rightarrow> string option \<Rightarrow> string option \<Rightarrow>
   fault + ('p device_scheme) rait \<times> bool" where
  "rait_device_start klass self mode label timestamp =
     (if rait_device_in_error self then Inr (self, False)
      else if r_status self \<noteq> RAIT_STATUS_COMPLETE \<and> (mode = ACCESS_WRITE \<or> mode = ACCESS_APPEND) then
        Inr (device_set_error DEVICE_STATUS_DEVICE_ERROR self, False)
      else bind_r (fix_block_size klass self) (\<lambda>(self, ok).
        if \<not> ok then Inr (self, False)
        else
          let self = self\<lparr>d_access_mode := mode, d_in_file := False, d_volume_label := None,
                          d_volume_time := None, d_volume_header := None\<rparr> in
          bind_r (do_rait_child_ops (\<lambda>i c. Inr (start_do_op klass mode label timestamp c))
                   (live_children self)) (\<lambda>ops.
            let self = store_children ops self;
                success = g_ptr_array_and op_result ops;
                (self, total_status) = start_results ops self 0 False in
            if total_status = DEVICE_STATUS_SUCCESS \<and> ops = [] then Inl Out_of_bounds
            else
              let self = (if total_status = DEVICE_STATUS_SUCCESS
                          then self\<lparr>d_header_block_size := d_header_block_size (op_child (hd ops))\<rparr>
                          else self);
                  self = self\<lparr>d_status := total_status\<rparr> in
              if total_status \<noteq> DEVICE_STATUS_SUCCESS \<or> \<not> success
              then Inr (device_set_error total_status self, False)
              else Inr (self, True))))"

section \<open>Writing\<close>

definition start_file_do_op ::
  "'p devclass \<Rightarrow> dumpfile \<Rightarrow> 'p device_scheme \<Rightarrow> fault + 'p device_scheme \<times> (bool \<times> int)" where
  "start_file_do_op klass info child =
     map_r (\<lambda>(c, result). (c, if d_file c < 1 then False else result, d_file c))
       (device_start_file klass child (dumpfile_copy info))"

text \<open>The file numbers of the children, against the first one; stops at the first mismatch.\<close>

fun file_numbers :: "int list \<Rightarrow> int \<Rightarrow> int option" where
  "file_numbers [] actual = Some actual"
| "file_numbers (n # ns) actual =
     (let actual = (if actual < 1 then n else actual) in
      if actual \<noteq> n then None else file_numbers ns actual)"

definition rait_device_start_file ::
  "'p devclass \<Rightarrow> ('p device_scheme) rait \<Rightarrow> dumpfile \<Rightarrow> fault + ('p device_scheme) rait \<times> bool" where
  "rait_device_start_file klass self info =
     (if rait_device_in_error self then Inr (self, False)
      else if r_status self \<noteq> RAIT_STATUS_COMPLETE then Inr (self, False)
      else bind_r (do_rait_child_ops (\<lambda>i c. start_file_do_op klass info c) (all_children self)) (\<lambda>ops.
        let self = store_children ops self;
            success = g_ptr_array_and (fst \<circ> op_result) ops in
        if \<not> success then
          Inr (if \<not> device_in_error self then device_set_error DEVICE_STATUS_DEVICE_ERROR self else self,
               False)
        else case file_numbers (map (snd \<circ> op_result) ops) (- 1) of
            None \<Rightarrow> Inr (device_set_error DEVICE_STATUS_DEVICE_ERROR self, False)
          | Some actual_file \<Rightarrow>
              if actual_file < 1 then Inl Assertion_failed
              else Inr (self\<lparr>d_file := actual_file, d_in_file := True, d_bytes_written := 0\<rparr>, True)))"

definition pad_block :: "nat \<Rightarrow> byte list \<Rightarrow> byte list" where
  "pad_block blocksize data = data @ replicate (blocksize - length data) 0"

definition rait_device_write_block ::
  "'p devclass \<Rightarrow> ('p device_scheme) rait \<Rightarrow> nat \<Rightarrow> byte list \<Rightarrow> fault + ('p device_scheme) rait \<times> bool" where
  "rait_device_write_block klass self sz data =
     (let blocksize = d_block_size self; last_block = (sz < blocksize) in
      if rait_device_in_error self then Inr (self, False)
      else if r_status self \<noteq> RAIT_STATUS_COMPLETE then Inr (self, False)
      else
        let num_children = length (r_children self);
            data_children = (if num_children = 0 then 2 ^ 32 - 1   \<comment> \<open>unsigned 0 - 1\<close>
                             else if num_children \<noteq> 1 then num_children - 1 else num_children) in
        if \<not> (sz mod data_children = 0 \<or> last_block) then Inl Assertion_failed
        else
          let data = (if last_block then pad_block blocksize (take sz data) else data);
              sz = (if last_block then blocksize else sz) in
          bind_r (do_rait_child_ops (\<lambda>i c.
              bind_r (if num_children \<le> 2 then Inr data
                      else extract_data_block data sz num_children (i + 1))
                (\<lambda>chunk. device_write_block klass c (sz div data_children) chunk))
            (all_children self)) (\<lambda>ops.
            let self = store_children ops self in
            if \<not> g_ptr_array_and op_result ops then
              Inr ((device_set_error DEVICE_STATUS_DEVICE_ERROR self)\<lparr>d_is_eom := True\<rparr>, False)
            else Inr (self\<lparr>d_block := d_block self + 1,
                           d_bytes_written := d_bytes_written self + of_nat sz\<rparr>, True)))"

definition rait_device_finish_file ::
  "'p devclass \<Rightarrow> ('p device_scheme) rait \<Rightarrow> fault + ('p device_scheme) rait \<times> bool" where
  "rait_device_finish_file klass self =
     (if rait_device_in_error self then Inr (self, False)
      else if r_status self \<noteq> RAIT_STATUS_COMPLETE then Inr (self, False)
      else
        let ops = live_children self; kids = filter (\<lambda>(i, c). c \<noteq> None) ops in
        bind_r (do_rait_child_ops (\<lambda>i c. device_finish_file klass c) kids) (\<lambda>done_ops.
          let self = store_children done_ops self in
          if \<not> (g_ptr_array_and op_result done_ops \<and> length kids = length ops)
          then Inr (device_set_error DEVICE_STATUS_DEVICE_ERROR self, False)
          else Inr (self\<lparr>d_in_file := False\<rparr>, True)))"

section \<open>Seeking\<close>

type_synonym seek_result = "dumpfile option \<times> int \<times> bool"

definition seek_file_do_op ::
  "'p devclass \<Rightarrow> nat \<Rightarrow> 'p device_scheme \<Rightarrow> fault + 'p device_scheme \<times> seek_result" where
  \<comment> \<open>the header, and the file number and \<open>in_file\<close> flag of the child afterwards\<close>
  "seek_file_do_op klass requested_file child =
     map_r (\<lambda>(c, result). (c, result, d_file c, d_in_file c)) (device_seek_file klass child requested_file)"

fun seek_results ::
  "int \<Rightarrow> ('c, seek_result) child_op list \<Rightarrow> seek_result \<Rightarrow> bool \<Rightarrow> seek_result \<times> bool" where
  "seek_results failed [] (rval, actual_file, in_file) success = ((rval, actual_file, in_file), success)"
| "seek_results failed ((i, c, this_result, this_actual_file, this_in_file) # ops)
     (rval, actual_file, in_file) success =
     (if int i = failed then seek_results failed ops (rval, actual_file, in_file) success
      else if rval = None then
        seek_results failed ops (this_result, this_actual_file, this_in_file) success
      else if headers_are_equal rval this_result \<and> actual_file = this_actual_file \<and> in_file = this_in_file
      then seek_results failed ops (rval, actual_file, in_file) success
      else seek_results failed ops (rval, actual_file, in_file) False)"

definition rait_device_seek_file ::
  "'p devclass \<Rightarrow> ('p device_scheme) rait \<Rightarrow> nat \<Rightarrow> fault + ('p device_scheme) rait \<times> dumpfile option" where
  "rait_device_seek_file klass self file =
     (if rait_device_in_error self then Inr (self, None)
      else
        let self = self\<lparr>d_is_eof := False, d_block := 0, d_in_file := False, d_bytes_read := 0\<rparr> in
        bind_r (do_rait_child_ops (\<lambda>i c. seek_file_do_op klass file c) (live_children self)) (\<lambda>ops.
          let (self, success) = g_ptr_array_union_robust (\<lambda>op. fst (op_result op) \<noteq> None) ops
                                  (store_children ops self);
              ((rval, actual_file, in_file), success) =
                seek_results (r_failed self) ops (None, 0, False) success in
          if \<not> success then Inr (device_set_error DEVICE_STATUS_DEVICE_ERROR self, None)
          else Inr (self\<lparr>d_in_file := in_file, d_file := actual_file\<rparr>, rval)))"

definition rait_device_seek_block ::
  "'p devclass \<Rightarrow> ('p device_scheme) rait \<Rightarrow> 64 word \<Rightarrow> fault + ('p device_scheme) rait \<times> bool" where
  "rait_device_seek_block klass self block =
     (if rait_device_in_error self then Inr (self, False)
      else bind_r (do_rait_child_ops (\<lambda>i c. device_seek_block klass c block) (live_children self)) (\<lambda>ops.
        let (self, success) = g_ptr_array_union_robust op_result ops (store_children ops self) in
        if \<not> success then Inr (device_set_error DEVICE_STATUS_DEVICE_ERROR self, False)
        else Inr (self\<lparr>d_block := block\<rparr>, True)))"

section \<open>Reading\<close>

text \<open>
  The result of \<open>read_block\<close> on a child: the returned size and the bytes it put in its buffer, which
  holds \<open>child_blocksize\<close> bytes.
\<close>

type_synonym read_result = "int \<times> byte list"

definition read_block_do_op ::
  "'p devclass \<Rightarrow> nat \<Rightarrow> 'p device_scheme \<Rightarrow> fault + 'p device_scheme \<times> read_result" where
  "read_block_do_op klass child_blocksize child =
     map_r (\<lambda>(c, result, read_size, buffer). (c, result, buffer))
       (device_read_block klass child child_blocksize)"

definition read_ok :: "nat \<Rightarrow> ('c, read_result) child_op \<Rightarrow> bool" where
  \<comment> \<open>\<open>extract_boolean_read_block_op_data\<close>\<close>
  "read_ok desired_read_size op \<longleftrightarrow> fst (op_result op) = int desired_read_size"

definition read_eof :: "('p device_scheme, read_result) child_op \<Rightarrow> bool" where
  \<comment> \<open>\<open>extract_boolean_read_block_op_eof\<close>\<close>
  "read_eof op \<longleftrightarrow> d_is_eof (op_child op)"

definition memcpy_at :: "byte list \<Rightarrow> nat \<Rightarrow> byte list \<Rightarrow> byte list" where
  "memcpy_at buf off bytes = take off buf @ bytes @ drop (off + length bytes) buf"

text \<open>The first loop of \<open>raid_block_reconstruction\<close>: data chunks to their places, parity kept aside.\<close>

fun place_chunks ::
  "nat \<Rightarrow> int \<Rightarrow> ('c, read_result) child_op list \<Rightarrow> byte list \<Rightarrow> byte list option \<Rightarrow>
   fault + byte list \<times> byte list option" where
  "place_chunks cbs parity_child [] buf parity_block = Inr (buf, parity_block)"
| "place_chunks cbs parity_child ((i, c, result, buffer) # ops) buf parity_block =
     (if result \<noteq> int cbs then place_chunks cbs parity_child ops buf parity_block
      else if int i = parity_child then place_chunks cbs parity_child ops buf (Some buffer)
      else if \<not> cbs * (i + 1) \<le> length buf then Inl Assertion_failed
      else place_chunks cbs parity_child ops (memcpy_at buf (cbs * i) (take cbs buffer)) parity_block)"

definition op_buffer :: "('c, read_result) child_op \<Rightarrow> byte list" where
  "op_buffer op = snd (op_result op)"

definition raid_block_reconstruction ::
  "('p device_scheme) rait \<Rightarrow> ('p device_scheme, read_result) child_op list \<Rightarrow> byte list \<Rightarrow>
   fault + ('p device_scheme) rait \<times> byte list \<times> bool" where
  "raid_block_reconstruction self ops buf =
     (let blocksize = d_block_size self;
          (num_children, data_children) = find_simple_params self;
          parity_child = (if num_children > 1 then int num_children - 1 else - 1) in
      if data_children = 0 then Inl Div_by_zero
      else
        let cbs = blocksize div data_children in
        bind_r (place_chunks cbs parity_child ops buf None) (\<lambda>(buf, parity_block).
          case r_status self of
            RAIT_STATUS_COMPLETE \<Rightarrow>
              (case parity_block of
                 None \<Rightarrow> Inl Assertion_failed
               | Some parity_block \<Rightarrow>
                   if num_children \<ge> 2 then
                     if length ops < data_children then Inl Out_of_bounds
                     else if \<not> list_all (read_ok cbs) (take data_children ops) then Inl Assertion_failed
                     else
                       let extents = map op_buffer (filter (\<lambda>op. int (fst op) \<noteq> parity_child)
                                       (take data_children ops)) in
                       if take cbs parity_block \<noteq> make_parity_block_extents extents cbs
                       then Inr (device_set_error DEVICE_STATUS_DEVICE_ERROR self, buf, False)
                       else Inr (self, buf, True)
                   else Inr (self, buf, True))
          | RAIT_STATUS_DEGRADED \<Rightarrow>
              if \<not> (0 \<le> r_failed self \<and> r_failed self < int num_children) then Inl Assertion_failed
              else if r_failed self = parity_child then Inr (self, buf, True)
              else if num_children \<ge> 2 then
                if length ops < data_children then Inl Out_of_bounds
                else
                  let extents = map op_buffer (filter (read_ok cbs) (take data_children ops)) in
                  Inr (self,
                       memcpy_at buf (cbs * nat (r_failed self)) (make_parity_block_extents extents cbs),
                       True)
              else Inl Assertion_failed
          | RAIT_STATUS_FAILED \<Rightarrow> Inr (self, buf, False)))"

text \<open>
  \<open>rait_device_read_block\<close>: the array afterwards, the returned value, \<open>*size\<close> and the caller's
  buffer. The buffer given in \<open>buf\<close> has \<open>*size\<close> bytes.
\<close>

definition rait_device_read_block ::
  "'p devclass \<Rightarrow> ('p device_scheme) rait \<Rightarrow> byte list \<Rightarrow>
   fault + ('p device_scheme) rait \<times> int \<times> nat \<times> byte list" where
  "rait_device_read_block klass self buf =
     (let blocksize = d_block_size self; (num_children, data_children) = find_simple_params self in
      if rait_device_in_error self then Inr (self, - 1, length buf, buf)
      else if blocksize > length buf then
        if blocksize < INT_MAX then Inr (self, 0, blocksize, buf) else Inl Assertion_failed
      else if data_children = 0 then Inl Div_by_zero
      else if blocksize mod data_children \<noteq> 0 then Inl Assertion_failed
      else
        let cbs = blocksize div data_children in
        bind_r (do_rait_child_ops (\<lambda>i c. read_block_do_op klass cbs c) (live_children self)) (\<lambda>ops.
          let self = store_children ops self in
          bind_r
            (if g_ptr_array_count (read_ok cbs) ops \<noteq> 0 then
               (case g_ptr_array_union_robust (read_ok cbs) ops self of
                  (self, False) \<Rightarrow> Inr (device_set_error DEVICE_STATUS_DEVICE_ERROR self, buf, False)
                | (self, True) \<Rightarrow> raid_block_reconstruction self ops buf)
             else
               (case g_ptr_array_union_robust read_eof ops self of
                  (self, True) \<Rightarrow>
                    Inr ((device_set_error DEVICE_STATUS_SUCCESS self)
                           \<lparr>d_is_eof := True, d_in_file := False\<rparr>, buf, False)
                | (self, False) \<Rightarrow> Inr (device_set_error DEVICE_STATUS_DEVICE_ERROR self, buf, False)))
            (\<lambda>(self, buf, success).
               if success then
                 Inr (self\<lparr>d_block := d_block self + 1,
                           d_bytes_read := d_bytes_read self + of_nat blocksize\<rparr>,
                      int blocksize, blocksize, buf)
               else Inr (self, - 1, length buf, buf))))"

end
