(* ===== verification/Rait_Read.thy ===== *)
theory Rait_Read
  imports Rait
begin

text \<open>
  Reading from a RAIT device: what \<open>rait_device_read_block\<close> gives back when the children give back
  what \<open>rait_device_write_block\<close> handed them. The lemmas follow the code: the operations on the
  children, the placing of the data chunks, the parity check or the reconstruction.
\<close>

section \<open>Running operations on children\<close>

lemma do_rait_child_ops_Inr:
  assumes "\<And>i c. (i, c) \<in> set ops \<Longrightarrow> \<exists>d. c = Some d \<and> f i d = Inr (h i d)"
  shows "do_rait_child_ops f ops = Inr (map (\<lambda>(i, c). (i, h i (the c))) ops)"
  unfolding do_rait_child_ops_def
proof (rule collect_r_map)
  fix ic
  assume "ic \<in> set ops"
  with assms show "run_op f ic = Inr (case ic of (i, c) \<Rightarrow> (i, h i (the c)))"
    by (cases ic) (force simp: run_op_def)
qed

lemma all_children_upt: "all_children self = map (\<lambda>i. (i, r_children self ! i)) [0 ..< length (r_children self)]"
  by (rule nth_equalityI) (simp_all add: all_children_def nth_enumerate_eq)

definition live_indices :: "('c, 'q) rait_scheme \<Rightarrow> nat list" where
  "live_indices self = filter (\<lambda>i. int i \<noteq> r_failed self) [0 ..< length (r_children self)]"

lemma live_children_indices:
  "live_children self = map (\<lambda>i. (i, r_children self ! i)) (live_indices self)"
  by (simp add: live_children_def live_indices_def all_children_upt filter_map o_def)

lemma live_indices_all: "r_failed self = - 1 \<Longrightarrow> live_indices self = [0 ..< length (r_children self)]"
  by (simp add: live_indices_def)

lemma filter_neq_upt: "k < n \<Longrightarrow> filter (\<lambda>i. i \<noteq> k) [0 ..< n] = [0 ..< k] @ [Suc k ..< n]"
proof -
  assume k: "k < n"
  have "[0 ..< n] = [0 ..< k] @ k # [Suc k ..< n]"
    using k upt_add_eq_append [of 0 k "n - k"] by (simp add: upt_conv_Cons)
  moreover have "filter (\<lambda>i. i \<noteq> k) [0 ..< k] = [0 ..< k]" by (simp add: filter_id_conv)
  moreover have "filter (\<lambda>i. i \<noteq> k) [Suc k ..< n] = [Suc k ..< n]" by (simp add: filter_id_conv)
  ultimately show ?thesis by simp
qed

lemma live_indices_but:
  "r_failed self = int k \<Longrightarrow> k < length (r_children self) \<Longrightarrow>
   live_indices self = [0 ..< k] @ [Suc k ..< length (r_children self)]"
  by (simp add: live_indices_def filter_neq_upt)

lemma union_robust_all:
  "list_all ext ops \<Longrightarrow> g_ptr_array_union_robust ext ops self = (self, True)"
proof -
  assume "list_all ext ops"
  then have "filter (\<lambda>(k, op). \<not> ext op) (enumerate 0 ops) = []"
    by (auto simp: filter_empty_conv in_set_enumerate_eq list_all_length)
  then show ?thesis by (simp add: g_ptr_array_union_robust_def)
qed

lemma store_children_same [simp]:
  "r_status (store_children ops self) = r_status self"
  "r_failed (store_children ops self) = r_failed self"
  "d_block_size (store_children ops self) = d_block_size self"
  "d_block (store_children ops self) = d_block self"
  "d_status (store_children ops self) = d_status self"
  by (simp_all add: store_children_def)

lemma length_store_children [simp]: "length (r_children (store_children ops self)) = length (r_children self)"
proof -
  have "length (foldl (\<lambda>cs (i, c, r). cs[i := Some c]) cs ops) = length cs" for cs
    by (induction ops arbitrary: cs) (auto split: prod.split)
  then show ?thesis by (simp add: store_children_def)
qed

lemma find_simple_params_store [simp]: "find_simple_params (store_children ops self) = find_simple_params self"
  by (simp add: find_simple_params_def)

section \<open>Buffers seen as chunks\<close>

lemma length_memcpy_at [simp]: "off + length x \<le> length b \<Longrightarrow> length (memcpy_at b off x) = length b"
  by (simp add: memcpy_at_def)

lemma chunk_end: "i < m \<Longrightarrow> cs * i + cs \<le> cs * m" for cs :: nat
  by (metis Suc_leI add.commute mult_Suc_right mult_le_mono2)

lemma drop_memcpy_at:
  "off + length x \<le> e \<Longrightarrow> e \<le> length b \<Longrightarrow> drop e (memcpy_at b off x) = drop e b"
  by (simp add: memcpy_at_def)

lemma chunk_memcpy_at:
  assumes "length x = cs" "cs * m \<le> length b" "i < m" "j < m"
  shows "take cs (drop (cs * j) (memcpy_at b (cs * i) x)) = (if i = j then x else take cs (drop (cs * j) b))"
proof (cases i j rule: linorder_cases)
  case equal
  have "cs * i \<le> length b" using chunk_end [OF assms(3)] assms(2) by (meson add_leD1 le_trans)
  with equal assms(1) show ?thesis by (simp add: memcpy_at_def)
next
  case less
  have "cs * i + cs \<le> cs * j" using less by (rule chunk_end)
  moreover have "cs * j \<le> length b" using chunk_end [OF assms(4)] assms(2) by (meson add_leD1 le_trans)
  ultimately show ?thesis using less assms(1) by (simp add: drop_memcpy_at)
next
  case greater
  have e: "cs * j + cs \<le> cs * i" using greater by (rule chunk_end)
  have "cs * i \<le> length b" using chunk_end [OF assms(3)] assms(2) by (meson add_leD1 le_trans)
  with e greater show ?thesis by (simp add: memcpy_at_def take_drop min_absorb2 add.commute)
qed

lemma buffer_eq_data:
  fixes b :: "byte list"
  assumes "\<And>j. j < m \<Longrightarrow> take cs (drop (cs * j) b) = take cs (drop (cs * j) data)"
    and "length data = cs * m" and "drop (cs * m) b = drop (cs * m) buf"
  shows "b = data @ drop (cs * m) buf"
proof -
  have "chunks_of cs m b = chunks_of cs m data" using assms(1) by (simp add: chunks_of_def)
  then have "take (cs * m) b = take (cs * m) data" by (metis concat_chunks_of)
  then show ?thesis using assms(2,3) append_take_drop_id [of "cs * m" b] by simp
qed

lemma place_chunks_good:
  assumes "\<And>op. op \<in> set ops \<Longrightarrow> read_ok cs op \<Longrightarrow> fst op \<le> m \<and> op_buffer op = g (fst op)"
    and "\<And>i. i \<le> m \<Longrightarrow> length (g i) = cs" and "cs * m \<le> length buf"
  shows "\<exists>b. place_chunks cs (int m) ops buf p =
             Inr (b, if m \<in> fst ` set (filter (read_ok cs) ops) then Some (g m) else p) \<and>
           length b = length buf \<and> drop (cs * m) b = drop (cs * m) buf \<and>
           (\<forall>j < m. take cs (drop (cs * j) b) =
              (if j \<in> fst ` set (filter (read_ok cs) ops) then g j else take cs (drop (cs * j) buf)))"
  using assms(1,3)
proof (induction ops arbitrary: buf p)
  case Nil
  then show ?case by simp
next
  case (Cons op ops)
  obtain i c r x where op: "op = (i, c, r, x)" by (cases op) auto
  show ?case
  proof (cases "r = int cs")
    case bad: False
    then have "\<not> read_ok cs op" by (simp add: op read_ok_def)
    with bad show ?thesis using Cons.IH [of buf p] Cons.prems by (simp add: op)
  next
    case ok: True
    then have good: "read_ok cs op" by (simp add: op read_ok_def)
    with Cons.prems(1) [of op] have i: "i \<le> m" and x: "x = g i" by (auto simp: op op_buffer_def)
    show ?thesis
    proof (cases "i = m")
      case True
      with ok good x show ?thesis using Cons.IH [of buf "Some (g m)"] Cons.prems by (auto simp: op)
    next
      case False
      with i have im: "i < m" by simp
      let ?b = "memcpy_at buf (cs * i) (g i)"
      have e: "cs * i + cs \<le> length buf" using chunk_end [OF im] Cons.prems(2) by (rule le_trans)
      have len: "length (g i) = cs" using assms(2) i by simp
      have "cs * m \<le> length ?b" using e len Cons.prems(2) by simp
      then obtain b where b: "place_chunks cs (int m) ops ?b p =
             Inr (b, if m \<in> fst ` set (filter (read_ok cs) ops) then Some (g m) else p)"
          "length b = length ?b" "drop (cs * m) b = drop (cs * m) ?b"
          "\<forall>j < m. take cs (drop (cs * j) b) =
              (if j \<in> fst ` set (filter (read_ok cs) ops) then g j else take cs (drop (cs * j) ?b))"
        using Cons.IH [of ?b p] Cons.prems(1) by auto
      have "drop (cs * m) ?b = drop (cs * m) buf"
        using chunk_end [OF im] len Cons.prems(2) by (simp add: drop_memcpy_at)
      moreover have "\<forall>j < m. take cs (drop (cs * j) ?b) = (if i = j then g i else take cs (drop (cs * j) buf))"
        using chunk_memcpy_at [OF len Cons.prems(2) im] by simp
      moreover have "place_chunks cs (int m) (op # ops) buf p = place_chunks cs (int m) ops ?b p"
        using ok False e len x by (simp add: op add.commute)
      ultimately show ?thesis using b e len good False by (intro exI [of _ b]) (auto simp: op)
    qed
  qed
qed

section \<open>What the children return\<close>

definition gives_block :: "'p devclass \<Rightarrow> nat \<Rightarrow> byte list \<Rightarrow> 'p device_scheme \<Rightarrow> bool" where
  \<comment> \<open>the next block read from the device is \<open>x\<close>\<close>
  "gives_block klass cs x c \<longleftrightarrow>
     d_access_mode c = ACCESS_READ \<and>
     (case k_read_block klass c cs of (c', result, sz, buffer) \<Rightarrow> result = int cs \<and> buffer = x)"

definition fails_block :: "'p devclass \<Rightarrow> nat \<Rightarrow> 'p device_scheme \<Rightarrow> bool" where
  "fails_block klass cs c \<longleftrightarrow>
     d_access_mode c = ACCESS_READ \<and>
     (case k_read_block klass c cs of (c', result, sz, buffer) \<Rightarrow> result \<noteq> int cs)"

definition read_op :: "'p devclass \<Rightarrow> nat \<Rightarrow> nat \<Rightarrow> 'p device_scheme \<Rightarrow> ('p device_scheme, read_result) child_op" where
  "read_op klass cs i c =
     (case k_read_block klass c cs of (c', result, sz, buffer) \<Rightarrow> (i, c', result, buffer))"

lemma read_op_gives:
  "gives_block klass cs x c \<Longrightarrow>
     read_ok cs (read_op klass cs i c) \<and> op_buffer (read_op klass cs i c) = x"
  by (auto simp: gives_block_def read_op_def read_ok_def op_buffer_def split: prod.splits)

lemma read_op_fails: "fails_block klass cs c \<Longrightarrow> \<not> read_ok cs (read_op klass cs i c)"
  by (auto simp: fails_block_def read_op_def read_ok_def split: prod.splits)

lemma fst_read_op [simp]: "fst (read_op klass cs i c) = i"
  by (simp add: read_op_def split: prod.splits)

lemma gives_reads: "gives_block klass cs x c \<Longrightarrow> d_access_mode c = ACCESS_READ"
  and fails_reads: "fails_block klass cs c \<Longrightarrow> d_access_mode c = ACCESS_READ"
  by (simp_all add: gives_block_def fails_block_def)

lemma read_ops_run:
  assumes "\<And>i. i \<in> set is \<Longrightarrow> \<exists>c. cs' i = Some c \<and> d_access_mode c = ACCESS_READ"
  shows "do_rait_child_ops (\<lambda>i c. read_block_do_op klass cs c) (map (\<lambda>i. (i, cs' i)) is) =
         Inr (map (\<lambda>i. read_op klass cs i (the (cs' i))) is)"
proof -
  have "do_rait_child_ops (\<lambda>i c. read_block_do_op klass cs c) (map (\<lambda>i. (i, cs' i)) is) =
      Inr (map (\<lambda>(i, c). (i, snd (read_op klass cs i (the c)))) (map (\<lambda>i. (i, cs' i)) is))"
  proof (rule do_rait_child_ops_Inr [where h = "\<lambda>i c. snd (read_op klass cs i c)"])
    fix i c
    assume "(i, c) \<in> set (map (\<lambda>i. (i, cs' i)) is)"
    with assms obtain d where "c = Some d" "d_access_mode d = ACCESS_READ" by auto
    then show "\<exists>d. c = Some d \<and> read_block_do_op klass cs d = Inr (snd (read_op klass cs i d))"
      by (auto simp: read_block_do_op_def device_read_block_def read_op_def split: prod.split)
  qed
  also have "map (\<lambda>(i, c). (i, snd (read_op klass cs i (the c)))) (map (\<lambda>i. (i, cs' i)) is) =
      map (\<lambda>i. read_op klass cs i (the (cs' i))) is"
    using fst_read_op by (simp add: prod_eq_iff)
  finally show ?thesis .
qed

text \<open>The chunk of a block that belongs to a child.\<close>

definition child_chunk :: "byte list \<Rightarrow> nat \<Rightarrow> nat \<Rightarrow> nat \<Rightarrow> byte list" where
  "child_chunk data cs m i =
     (if i < m then take cs (drop (cs * i) data) else make_parity_block data cs (Suc m))"

lemma extract_child_chunk:
  assumes "length data = cs * m" "0 < cs" "0 < m" "i \<le> m"
  shows "extract_data_block data (cs * m) (Suc m) (Suc i) = Inr (child_chunk data cs m i)"
  using assms by (auto simp: extract_data_block_def child_chunk_def)

lemma length_child_chunk: "length data = cs * m \<Longrightarrow> i \<le> m \<Longrightarrow> length (child_chunk data cs m i) = cs"
  using chunk_length [of data cs m i] by (simp add: child_chunk_def)

lemma map_child_chunk: "map (child_chunk data cs m) [0 ..< m] = chunks_of cs m data"
  by (simp add: chunks_of_def child_chunk_def)

lemma chunks_but:
  assumes "k < m"
  shows "map (child_chunk data cs m) ([0 ..< k] @ [Suc k ..< Suc m]) =
     take k (chunks_of cs m data) @ drop (Suc k) (chunks_of cs m data) @ [make_parity_block data cs (Suc m)]"
  using assms by (simp add: chunks_of_def child_chunk_def take_map drop_map)

section \<open>Reconstruction\<close>

text \<open>The operations of a read in which the children of \<open>is\<close> all gave their chunk.\<close>

definition good_ops ::
  "byte list \<Rightarrow> nat \<Rightarrow> nat \<Rightarrow> nat list \<Rightarrow> ('c, read_result) child_op list \<Rightarrow> bool" where
  "good_ops data cs m is ops \<longleftrightarrow>
     map fst ops = is \<and> list_all (read_ok cs) ops \<and> map op_buffer ops = map (child_chunk data cs m) is"

lemma good_ops_op:
  assumes "good_ops data cs m is ops" "op \<in> set ops" "set is \<subseteq> {0 .. m}"
  shows "fst op \<le> m \<and> op_buffer op = child_chunk data cs m (fst op)"
proof -
  obtain k where k: "k < length ops" "op = ops ! k" using assms(2) by (metis in_set_conv_nth)
  have fs: "is = map fst ops" using assms(1) by (simp add: good_ops_def)
  then have "is ! k = fst op" using k by simp
  moreover have "map op_buffer ops ! k = map (child_chunk data cs m) is ! k"
    using assms(1) by (simp add: good_ops_def)
  moreover have "fst op \<in> set is" unfolding fs using assms(2) by simp
  ultimately show ?thesis using k fs assms(3) by (metis atLeastAtMost_iff length_map nth_map subsetD)
qed

lemma place_good_ops:
  assumes "good_ops data cs m is ops" "set is \<subseteq> {0 .. m}" "length data = cs * m" "cs * m \<le> length buf"
  shows "\<exists>b. place_chunks cs (int m) ops buf None =
             Inr (b, if m \<in> set is then Some (make_parity_block data cs (Suc m)) else None) \<and>
           length b = length buf \<and> drop (cs * m) b = drop (cs * m) buf \<and>
           (\<forall>j < m. take cs (drop (cs * j) b) =
              (if j \<in> set is then take cs (drop (cs * j) data) else take cs (drop (cs * j) buf)))"
proof -
  have f: "filter (read_ok cs) ops = ops" and i: "fst ` set ops = set is"
    using assms(1) by (simp_all add: good_ops_def list_all_iff filter_id_conv flip: set_map)
  obtain b where b: "place_chunks cs (int m) ops buf None =
             Inr (b, if m \<in> fst ` set (filter (read_ok cs) ops) then Some (child_chunk data cs m m) else None)"
      "length b = length buf" "drop (cs * m) b = drop (cs * m) buf"
      "\<forall>j < m. take cs (drop (cs * j) b) =
          (if j \<in> fst ` set (filter (read_ok cs) ops) then child_chunk data cs m j
           else take cs (drop (cs * j) buf))"
    using place_chunks_good [of ops cs m "child_chunk data cs m" buf None]
      good_ops_op [OF assms(1) _ assms(2)] length_child_chunk [OF assms(3)] assms(4) by blast
  then show ?thesis unfolding f i by (intro exI [of _ b]) (auto simp: child_chunk_def)
qed

lemma take_good_ops:
  assumes "good_ops data cs m [0 ..< Suc m] ops"
  shows "map op_buffer (take m ops) = chunks_of cs m data" "map fst (take m ops) = [0 ..< m]"
    "list_all (read_ok cs) (take m ops)" "length ops = Suc m"
proof -
  have "map op_buffer ops = map (child_chunk data cs m) [0 ..< Suc m]" "map fst ops = [0 ..< Suc m]"
    using assms by (simp_all add: good_ops_def)
  then show "map op_buffer (take m ops) = chunks_of cs m data" "map fst (take m ops) = [0 ..< m]"
    by (simp_all add: map_child_chunk flip: take_map)
  show "length ops = Suc m" using assms by (metis good_ops_def length_map length_upt minus_nat.diff_0)
  show "list_all (read_ok cs) (take m ops)"
    using assms by (auto simp: good_ops_def list_all_iff dest: in_set_takeD)
qed

lemma simple_params: "length (r_children self) = Suc m \<Longrightarrow> 0 < m \<Longrightarrow> find_simple_params self = (Suc m, m)"
  by (simp add: find_simple_params_def)

lemma reconstruct_complete:
  assumes n: "length (r_children self) = Suc m" "0 < m" and bs: "d_block_size self = cs * m"
    and st: "r_status self = RAIT_STATUS_COMPLETE"
    and ops: "good_ops data cs m [0 ..< Suc m] ops" and len: "length data = cs * m" "cs * m \<le> length buf"
  shows "raid_block_reconstruction self ops buf = Inr (self, data @ drop (cs * m) buf, True)"
proof -
  have sub: "set [0 ..< Suc m] \<subseteq> {0 .. m}" by auto
  obtain b where b: "place_chunks cs (int m) ops buf None = Inr (b, Some (make_parity_block data cs (Suc m)))"
      "drop (cs * m) b = drop (cs * m) buf"
      "\<forall>j < m. take cs (drop (cs * j) b) = take cs (drop (cs * j) data)"
    using place_good_ops [OF ops _ len] sub by auto
  have "b = data @ drop (cs * m) buf" using b(2,3) len(1) by (intro buffer_eq_data) simp_all
  moreover have "filter (\<lambda>op. fst op \<noteq> m) (take m ops) = take m ops"
    using take_good_ops(2) [OF ops] by (metis (mono_tags, lifting) atLeastLessThan_iff filter_True
        image_eqI list.set_map less_irrefl set_upt)
  moreover have "take cs (make_parity_block data cs (Suc m)) =
      make_parity_block_extents (chunks_of cs m data) cs"
    using length_parity [OF len(1)] by (simp add: parity_eq_extents)
  ultimately show ?thesis
    using n take_good_ops [OF ops] b(1)
    by (simp add: raid_block_reconstruction_def simple_params bs st Let_def)
qed

lemma reconstruct_degraded:
  assumes n: "length (r_children self) = Suc m" "0 < m" and bs: "d_block_size self = cs * m"
    and st: "r_status self = RAIT_STATUS_DEGRADED" "r_failed self = int k" "k \<le> m"
    and ops: "good_ops data cs m ([0 ..< k] @ [Suc k ..< Suc m]) ops"
    and len: "length data = cs * m" "cs * m \<le> length buf"
  shows "raid_block_reconstruction self ops buf = Inr (self, data @ drop (cs * m) buf, True)"
proof -
  let ?is = "[0 ..< k] @ [Suc k ..< Suc m]"
  have sub: "set ?is \<subseteq> {0 .. m}" using st(3) by auto
  obtain b p where b: "place_chunks cs (int m) ops buf None = Inr (b, p)" "length b = length buf"
      "drop (cs * m) b = drop (cs * m) buf"
      "\<forall>j < m. take cs (drop (cs * j) b) =
         (if j \<in> set ?is then take cs (drop (cs * j) data) else take cs (drop (cs * j) buf))"
    using place_good_ops [OF ops sub len] by auto
  have others: "take cs (drop (cs * j) b) = take cs (drop (cs * j) data)" if "j < m" "j \<noteq> k" for j
  proof -
    have "j \<in> set ?is" using that by auto
    with b(4) that(1) show ?thesis by simp
  qed
  show ?thesis
  proof (cases "k = m")
    case True
    have "b = data @ drop (cs * m) buf" using others True b(3) len(1) by (intro buffer_eq_data) simp_all
    with True n b(1) show ?thesis
      by (simp add: raid_block_reconstruction_def simple_params bs st Let_def)
  next
    case False
    with st(3) have k: "k < m" by simp
    let ?x = "make_parity_block_extents (map op_buffer (filter (read_ok cs) (take m ops))) cs"
    have l: "length ops = m" using ops k by (metis good_ops_def length_map length_append length_upt
          add_diff_inverse_nat diff_Suc_Suc minus_nat.diff_0 not_less_iff_gr_or_eq)
    have "filter (read_ok cs) (take m ops) = ops"
      using ops l by (simp add: good_ops_def list_all_iff)
    moreover have "map op_buffer ops = map (child_chunk data cs m) ?is"
      using ops unfolding good_ops_def by blast
    ultimately have x: "?x = take cs (drop (cs * k) data)"
      using recover_chunk [OF len(1) k] nth_chunks_of [OF k] chunks_but [OF k] by simp
    have xl: "length ?x = cs" unfolding x using chunk_length [OF len(1) k] .
    let ?b = "memcpy_at b (cs * k) ?x"
    have "take cs (drop (cs * j) ?b) = take cs (drop (cs * j) data)" if "j < m" for j
      using chunk_memcpy_at [OF xl _ k that, of b] others [OF that] b(2) len(2) x by auto
    moreover have "drop (cs * m) ?b = drop (cs * m) buf"
      using drop_memcpy_at [of "cs * k" ?x "cs * m" b] chunk_end [OF k] xl b(2,3) len(2) by simp
    ultimately have "?b = data @ drop (cs * m) buf" using len(1) by (intro buffer_eq_data)
    with n k l b(1) show ?thesis
      by (simp add: raid_block_reconstruction_def simple_params bs st Let_def)
  qed
qed

section \<open>Reading a block\<close>

text \<open>An array that can serve reads: complete, or degraded with one known child missing.\<close>

definition rait_serving :: "('c, 'q) rait_scheme \<Rightarrow> bool" where
  "rait_serving self \<longleftrightarrow>
     \<not> device_in_error self \<and>
     (r_status self = RAIT_STATUS_COMPLETE \<and> r_failed self = - 1 \<or>
      r_status self = RAIT_STATUS_DEGRADED \<and> 0 \<le> r_failed self \<and>
        r_failed self < int (length (r_children self)))"

lemma serving_indices:
  assumes "rait_serving self" "length (r_children self) = Suc m"
  obtains (complete) "r_status self = RAIT_STATUS_COMPLETE" "live_indices self = [0 ..< Suc m]"
  | (degraded) k where "r_status self = RAIT_STATUS_DEGRADED" "r_failed self = int k" "k \<le> m"
      "live_indices self = [0 ..< k] @ [Suc k ..< Suc m]"
proof (cases "r_status self = RAIT_STATUS_COMPLETE")
  case True
  with assms have "r_failed self = - 1" by (simp add: rait_serving_def)
  with True complete live_indices_all [of self] show ?thesis using assms(2) by simp
next
  case False
  with assms have k: "r_status self = RAIT_STATUS_DEGRADED" "r_failed self = int (nat (r_failed self))"
      "nat (r_failed self) \<le> m"
    by (auto simp: rait_serving_def)
  moreover from k have "live_indices self = [0 ..< nat (r_failed self)] @ [Suc (nat (r_failed self)) ..< Suc m]"
    using live_indices_but [of self "nat (r_failed self)"] assms(2) by simp
  ultimately show ?thesis by (rule degraded)
qed

lemma serving_no_error: "rait_serving self \<Longrightarrow> \<not> rait_device_in_error self"
  by (auto simp: rait_serving_def rait_device_in_error_def)

lemma good_read_ops:
  assumes "set is \<subseteq> {0 .. m}"
    and "\<And>i. i \<in> set is \<Longrightarrow> \<exists>c. kids ! i = Some c \<and> gives_block klass cs (child_chunk data cs m i) c"
  shows "good_ops data cs m is (map (\<lambda>i. read_op klass cs i (the (kids ! i))) is)"
proof -
  have "read_ok cs (read_op klass cs i (the (kids ! i))) \<and>
      op_buffer (read_op klass cs i (the (kids ! i))) = child_chunk data cs m i" if "i \<in> set is" for i
    using assms(2) [OF that] read_op_gives [of klass cs _ _ i] by auto
  then show ?thesis by (simp add: good_ops_def list_all_iff o_def map_idI)
qed

lemma read_block_good:
  assumes sv: "rait_serving self" and n: "length (r_children self) = Suc m" "0 < m"
    and bs: "d_block_size self = cs * m"
    and len: "length data = cs * m" "cs * m \<le> length buf"
    and kids: "\<And>i. i \<in> set (live_indices self) \<Longrightarrow>
      \<exists>c. r_children self ! i = Some c \<and> gives_block klass cs (child_chunk data cs m i) c"
  shows "\<exists>self'. rait_device_read_block klass self buf =
           Inr (self', int (cs * m), cs * m, data @ drop (cs * m) buf) \<and>
         d_block self' = d_block self + 1 \<and> r_status self' = r_status self \<and> r_failed self' = r_failed self"
proof -
  let ?is = "live_indices self"
  let ?ops = "map (\<lambda>i. read_op klass cs i (the (r_children self ! i))) ?is"
  let ?self = "store_children ?ops self"
  have sub: "set ?is \<subseteq> {0 .. m}" using n(1) by (auto simp: live_indices_def)
  have good: "good_ops data cs m ?is ?ops" using sub kids by (rule good_read_ops)
  have run: "do_rait_child_ops (\<lambda>i c. read_block_do_op klass cs c) (live_children self) = Inr ?ops"
    unfolding live_children_indices using kids by (intro read_ops_run) (blast dest: gives_reads)
  have "?is \<noteq> []"
    using n by (cases rule: serving_indices [OF sv n(1)]) auto
  moreover have all: "list_all (read_ok cs) ?ops" using good by (simp add: good_ops_def)
  ultimately have count: "g_ptr_array_count (read_ok cs) ?ops \<noteq> 0"
    unfolding g_ptr_array_count_def list_all_iff by (simp add: filter_id_conv)
  have rec: "raid_block_reconstruction ?self ?ops buf = Inr (?self, data @ drop (cs * m) buf, True)"
    using sv n(1)
  proof (cases rule: serving_indices)
    case complete
    then show ?thesis using n bs len good by (intro reconstruct_complete) simp_all
  next
    case (degraded k)
    then show ?thesis using n bs len good by (intro reconstruct_degraded [where k = k]) simp_all
  qed
  show ?thesis
    using serving_no_error [OF sv] n(2) len(2) run count rec
    by (simp add: rait_device_read_block_def simple_params [OF n] bs union_robust_all [OF all]
        Let_def)
qed

section \<open>The first failure\<close>

text \<open>
  A data child of a complete array that fails in the middle of a file. The failed operation is still
  in the list when the missing chunk is reconstructed, and the loop over the first
  \<open>data_children\<close> operations does not get to the parity chunk.
\<close>

lemma others_parity:
  assumes "length data = cs * m" and "k < m"
  shows "make_parity_block_extents (take k (chunks_of cs m data) @ drop (Suc k) (chunks_of cs m data)) cs =
     xor_block (child_chunk data cs m k) (make_parity_block data cs (Suc m))"
proof -
  let ?c = "chunks_of cs m data"
  let ?r = "foldl xor_block (replicate cs 0) (take k ?c @ drop (Suc k) ?c)"
  have v: "list_all (\<lambda>b. length b = cs) (take k ?c)" "length (?c ! k) = cs"
    "list_all (\<lambda>b. length b = cs) (drop (Suc k) ?c)"
    using valid_chunks [OF assms(1)] assms(2) by (auto simp: list_all_length simp del: take_map)
  have r: "length ?r = cs"
    using v blocks.valid_foldl [of "replicate cs 0" cs "take k ?c @ drop (Suc k) ?c"]
    by (simp del: foldl_append)
  have "make_parity_block data cs (Suc m) = foldl xor_block (replicate cs 0) (take k ?c @ ?c ! k # drop (Suc k) ?c)"
    unfolding parity_eq_extents make_parity_block_extents_def using split_chunks [OF assms(2)] by metis
  also have "\<dots> = xor_block (?c ! k) ?r" using blocks.foldl_middle [OF v] .
  finally have p: "make_parity_block data cs (Suc m) = xor_block (?c ! k) ?r" .
  have "xor_block (?c ! k) (xor_block (?c ! k) ?r) = xor_block (xor_block (?c ! k) (?c ! k)) ?r"
    using blocks.assoc [OF v(2) v(2) r] ..
  also have "\<dots> = ?r" using blocks.self_inverse [OF v(2)] blocks.unit [OF r] by simp
  finally show ?thesis
    using assms(2) p by (simp add: make_parity_block_extents_def child_chunk_def nth_chunks_of)
qed

lemma single_bad:
  assumes "length ops = n" "k < n" "\<not> ext (ops ! k)" "\<And>i. i < n \<Longrightarrow> i \<noteq> k \<Longrightarrow> ext (ops ! i)"
  shows "filter (\<lambda>(k, op). \<not> ext op) (enumerate 0 ops) = [(k, ops ! k)]"
proof -
  have e: "enumerate 0 ops = map (\<lambda>i. (i, ops ! i)) [0 ..< n]"
    using assms(1) by (intro nth_equalityI) (simp_all add: nth_enumerate_eq)
  have "filter (\<lambda>i. \<not> ext (ops ! i)) [0 ..< n] = filter (\<lambda>i. i = k) [0 ..< n]"
    using assms by (intro filter_cong) auto
  also have "\<dots> = [k]"
  proof -
    have "[0 ..< n] = [0 ..< k] @ k # [Suc k ..< n]"
      using assms(2) upt_add_eq_append [of 0 k "n - k"] by (simp add: upt_conv_Cons)
    then show ?thesis by (simp add: filter_empty_conv)
  qed
  finally show ?thesis unfolding e by (simp add: filter_map o_def)
qed

lemma union_robust_first:
  assumes "filter (\<lambda>(k, op). \<not> ext op) (enumerate 0 ops) = [(k, op)]"
    and "r_status self = RAIT_STATUS_COMPLETE"
  shows "g_ptr_array_union_robust ext ops self =
     (self\<lparr>r_failed := int k, r_status := RAIT_STATUS_DEGRADED\<rparr>, True)"
  using assms by (simp add: g_ptr_array_union_robust_def)

lemma map_but_split:
  "map f ([0 ..< k] @ [Suc k ..< m]) = take k (map f [0 ..< m]) @ drop (Suc k) (map f [0 ..< m])" if "k < m"
  using that by (simp add: take_map drop_map)

lemma first_failure_ops:
  assumes "length kids = Suc m" "k < m"
    and "\<And>i. i \<le> m \<Longrightarrow> i \<noteq> k \<Longrightarrow> \<exists>c. kids ! i = Some c \<and> gives_block klass cs (child_chunk data cs m i) c"
    and "\<exists>c. kids ! k = Some c \<and> fails_block klass cs c"
  defines "ops \<equiv> map (\<lambda>i. read_op klass cs i (the (kids ! i))) [0 ..< Suc m]"
  shows "\<And>i. i \<le> m \<Longrightarrow> i \<noteq> k \<Longrightarrow> read_ok cs (ops ! i) \<and> op_buffer (ops ! i) = child_chunk data cs m i"
    and "\<not> read_ok cs (ops ! k)" and "length ops = Suc m" and "map fst ops = [0 ..< Suc m]"
proof -
  fix i assume i: "i \<le> m" "i \<noteq> k"
  then have "ops ! i = read_op klass cs i (the (kids ! i))" by (simp add: ops_def del: upt_Suc)
  with assms(3) [OF i] show "read_ok cs (ops ! i) \<and> op_buffer (ops ! i) = child_chunk data cs m i"
    using read_op_gives [of klass cs _ _ i] by auto
next
  have "ops ! k = read_op klass cs k (the (kids ! k))" using assms(2) by (simp add: ops_def del: upt_Suc)
  with assms(4) show "\<not> read_ok cs (ops ! k)" using read_op_fails [of klass cs _ k] by auto
qed (simp_all add: ops_def o_def del: upt_Suc)

lemma reconstruct_first_failure:
  assumes n: "length (r_children self) = Suc m" and k: "k < m" and bs: "d_block_size self = cs * m"
    and st: "r_status self = RAIT_STATUS_DEGRADED" "r_failed self = int k"
    and good: "\<And>i. i \<le> m \<Longrightarrow> i \<noteq> k \<Longrightarrow> read_ok cs (ops ! i) \<and> op_buffer (ops ! i) = child_chunk data cs m i"
    and bad: "\<not> read_ok cs (ops ! k)" and ln: "length ops = Suc m" and fs: "map fst ops = [0 ..< Suc m]"
    and len: "length data = cs * m" "cs * m \<le> length buf"
  shows "raid_block_reconstruction self ops buf = Inr (self,
     memcpy_at data (cs * k) (xor_block (child_chunk data cs m k) (make_parity_block data cs (Suc m)))
       @ drop (cs * m) buf, True)"
proof -
  let ?P = "xor_block (child_chunk data cs m k) (make_parity_block data cs (Suc m))"
  have idx: "fst (ops ! i) = i" if "i \<le> m" for i
    using arg_cong [OF fs, of "\<lambda>xs. xs ! i"] that ln by (simp del: upt_Suc)
  have okset: "fst ` set (filter (read_ok cs) ops) = {0 .. m} - {k}"
  proof (intro set_eqI iffI)
    fix i assume "i \<in> fst ` set (filter (read_ok cs) ops)"
    then obtain j where j: "j \<le> m" "i = fst (ops ! j)" "read_ok cs (ops ! j)"
      using ln by (auto simp: in_set_conv_nth less_Suc_eq_le)
    then show "i \<in> {0 .. m} - {k}" using bad idx [OF j(1)] by auto
  next
    fix i assume i: "i \<in> {0 .. m} - {k}"
    then have "ops ! i \<in> set (filter (read_ok cs) ops)" using good [of i] ln by simp
    with i idx [of i] show "i \<in> fst ` set (filter (read_ok cs) ops)" by force
  qed
  have all: "fst op \<le> m \<and> op_buffer op = child_chunk data cs m (fst op)"
    if op: "op \<in> set ops" "read_ok cs op" for op
  proof -
    obtain j where "j < length ops" "ops ! j = op" using op(1) unfolding in_set_conv_nth by blast
    with ln have j: "j \<le> m" "op = ops ! j" by simp_all
    with op(2) bad have "j \<noteq> k" by auto
    with j good [of j] idx [of j] show ?thesis by simp
  qed
  obtain b p where b: "place_chunks cs (int m) ops buf None = Inr (b, p)" "length b = length buf"
      "drop (cs * m) b = drop (cs * m) buf"
      "\<forall>j < m. take cs (drop (cs * j) b) =
         (if j \<in> {0 .. m} - {k} then child_chunk data cs m j else take cs (drop (cs * j) buf))"
    using place_chunks_good [of ops cs m "child_chunk data cs m" buf None,
        OF all length_child_chunk [OF len(1)] len(2), unfolded okset] by blast
  have tk: "take m ops = map ((!) ops) [0 ..< m]" using ln by (intro nth_equalityI) simp_all
  have "filter (\<lambda>i. read_ok cs (ops ! i)) [0 ..< m] = filter (\<lambda>i. i \<noteq> k) [0 ..< m]"
    using good bad by (intro filter_cong) auto
  then have "map op_buffer (filter (read_ok cs) (take m ops)) =
      map (\<lambda>i. op_buffer (ops ! i)) ([0 ..< k] @ [Suc k ..< m])"
    using filter_neq_upt [OF k] by (simp add: tk filter_map o_def)
  also have "\<dots> = map (child_chunk data cs m) ([0 ..< k] @ [Suc k ..< m])"
    using good k by (intro map_cong) auto
  also have "\<dots> = take k (chunks_of cs m data) @ drop (Suc k) (chunks_of cs m data)"
    unfolding map_but_split [OF k] map_child_chunk ..
  finally have ext: "make_parity_block_extents (map op_buffer (filter (read_ok cs) (take m ops))) cs = ?P"
    using others_parity [OF len(1) k] by simp
  have pl: "length ?P = cs"
    using length_child_chunk [OF len(1), of k] length_parity [OF len(1)] k by simp
  have ck: "cs * k + length ?P \<le> cs * m" using chunk_end [OF k] pl by simp
  let ?d = "memcpy_at data (cs * k) ?P"
  have "memcpy_at b (cs * k) ?P = ?d @ drop (cs * m) buf"
    using drop_memcpy_at [OF ck] len b(2,3) ck
  proof (intro buffer_eq_data)
    fix j assume j: "j < m"
    have "take cs (drop (cs * j) b) = take cs (drop (cs * j) data)" if "j \<noteq> k"
      using b(4) j that by (simp add: child_chunk_def)
    then show "take cs (drop (cs * j) (memcpy_at b (cs * k) ?P)) = take cs (drop (cs * j) ?d)"
      using chunk_memcpy_at [OF pl _ k j, of b] chunk_memcpy_at [OF pl _ k j, of data] b(2) len by simp
  qed simp_all
  then show ?thesis
    using n k ln b(1) ext by (simp add: raid_block_reconstruction_def simple_params bs st Let_def)
qed

lemma read_block_first_failure:
  assumes st: "r_status self = RAIT_STATUS_COMPLETE" "r_failed self = - 1" "\<not> device_in_error self"
    and n: "length (r_children self) = Suc m" and k: "k < m" and bs: "d_block_size self = cs * m"
    and len: "length data = cs * m" "cs * m \<le> length buf"
    and kids: "\<And>i. i \<le> m \<Longrightarrow> i \<noteq> k \<Longrightarrow>
      \<exists>c. r_children self ! i = Some c \<and> gives_block klass cs (child_chunk data cs m i) c"
    and bad: "\<exists>c. r_children self ! k = Some c \<and> fails_block klass cs c"
  shows "\<exists>self'. rait_device_read_block klass self buf = Inr (self', int (cs * m), cs * m,
           memcpy_at data (cs * k) (xor_block (child_chunk data cs m k) (make_parity_block data cs (Suc m)))
             @ drop (cs * m) buf) \<and>
         d_status self' = d_status self \<and> r_status self' = RAIT_STATUS_DEGRADED \<and> r_failed self' = int k"
proof -
  define ops where "ops = map (\<lambda>i. read_op klass cs i (the (r_children self ! i))) [0 ..< Suc m]"
  let ?self = "(store_children ops self)\<lparr>r_failed := int k, r_status := RAIT_STATUS_DEGRADED\<rparr>"
  note ops = first_failure_ops [OF n k kids bad, folded ops_def]
  have run: "do_rait_child_ops (\<lambda>i c. read_block_do_op klass cs c) (live_children self) = Inr ops"
    unfolding live_children_indices live_indices_all [OF st(2)] n ops_def
  proof (rule read_ops_run)
    fix i assume "i \<in> set [0 ..< Suc m]"
    then show "\<exists>c. r_children self ! i = Some c \<and> d_access_mode c = ACCESS_READ"
      using kids [of i] bad gives_reads fails_reads by (cases "i = k"; auto)
  qed
  have "ops ! m \<in> set (filter (read_ok cs) ops)"
    using ops(1) [of m] ops(3) k by (simp del: upt_Suc map_append)
  then have count: "g_ptr_array_count (read_ok cs) ops \<noteq> 0"
    unfolding g_ptr_array_count_def by (simp only: length_0_conv) (rule notI, simp only: list.set empty_iff)
  have "filter (\<lambda>(k, op). \<not> read_ok cs op) (enumerate 0 ops) = [(k, ops ! k)]"
    using ops(1,2) k by (intro single_bad [OF ops(3)]) (simp_all add: less_Suc_eq_le)
  then have union: "g_ptr_array_union_robust (read_ok cs) ops (store_children ops self) = (?self, True)"
    using st(1) by (intro union_robust_first) simp_all
  have rec: "raid_block_reconstruction ?self ops buf = Inr (?self,
     memcpy_at data (cs * k) (xor_block (child_chunk data cs m k) (make_parity_block data cs (Suc m)))
       @ drop (cs * m) buf, True)"
    using n k bs ops len by (intro reconstruct_first_failure) simp_all
  have "\<not> rait_device_in_error self" "0 < m" using st k by (simp_all add: rait_device_in_error_def)
  then show ?thesis
    using len(2) run count union rec
    by (simp add: rait_device_read_block_def simple_params [OF n] bs Let_def del: upt_Suc)
qed

section \<open>Properties\<close>

text \<open>An array of in-memory children for the examples: the block size and the blocks of each child.\<close>

definition store_array ::
  "device_access_mode \<Rightarrow> nat \<Rightarrow> rait_status \<Rightarrow> int \<Rightarrow> byte list list list \<Rightarrow> (byte list list device_scheme) rait" where
  "store_array mode bs st failed media =
     (device_init False
       \<lparr>r_children = map (\<lambda>blocks. Some ((device_init False blocks)
            \<lparr>d_access_mode := mode, d_in_file := (mode = ACCESS_WRITE)\<rparr>)) media,
        r_status = st, r_failed = failed, r_child_block_size = 0\<rparr>)
     \<lparr>d_block_size := bs, d_access_mode := mode\<rparr>"

lemma replicate_2: "replicate 2 x = [x, x]"
  by (simp add: numeral_2_eq_2)

lemmas store_array_simps = store_array_def store_class_def device_init_def

text \<open>C1: a complete array, or an array degraded before the read with any one child missing, gives
  back exactly the block whose chunks its remaining children return, and counts it.\<close>

theorem rait_read_returns_block:
  assumes "rait_serving self" "length (r_children self) = Suc m" "0 < m" "0 < cs"
    and "d_block_size self = cs * m" "length data = cs * m" "cs * m \<le> length buf"
    and "\<And>i. i \<le> m \<Longrightarrow> int i \<noteq> r_failed self \<Longrightarrow>
      \<exists>c x. r_children self ! i = Some c \<and> gives_block klass cs x c \<and>
        extract_data_block data (cs * m) (Suc m) (Suc i) = Inr x"
  shows "\<exists>self'. rait_device_read_block klass self buf =
           Inr (self', int (cs * m), cs * m, data @ drop (cs * m) buf) \<and>
         d_block self' = d_block self + 1 \<and> r_status self' = r_status self \<and> r_failed self' = r_failed self"
proof (rule read_block_good [OF assms(1,2,3,5,6,7)])
  fix i
  assume "i \<in> set (live_indices self)"
  then have i: "i \<le> m" "int i \<noteq> r_failed self" using assms(2) by (auto simp: live_indices_def simp del: upt_Suc)
  with assms(8) [OF i] show "\<exists>c. r_children self ! i = Some c \<and> gives_block klass cs (child_chunk data cs m i) c"
    using extract_child_chunk [OF assms(6,4,3) i(1)] by auto
qed

text \<open>Child 1 of three is missing; the other two hold the chunks 1, 2 and the parity of 1, 2, 3, 4.\<close>

theorem rait_read_returns_block_witness:
  "\<exists>self'. rait_device_read_block store_class
       (store_array ACCESS_READ 4 RAIT_STATUS_DEGRADED 1 [[[1, 2]], [], [[2, 6]]]) [0, 0, 0, 0, 9] =
       Inr (self', 4, 4, [1, 2, 3, 4, 9]) \<and> d_block self' = 1"
proof -
  let ?self = "store_array ACCESS_READ 4 RAIT_STATUS_DEGRADED 1 [[[1, 2]], [], [[2, 6]]]"
  have ps: "rait_serving ?self" "length (r_children ?self) = Suc 2" "d_block_size ?self = 2 * 2"
    by (simp_all add: store_array_simps rait_serving_def device_in_error_def device_status_defs)
  have "\<exists>c x. r_children ?self ! i = Some c \<and> gives_block store_class 2 x c \<and>
        extract_data_block [1, 2, 3, 4] (2 * 2) (Suc 2) (Suc i) = Inr x"
    if "i \<le> 2" "int i \<noteq> r_failed ?self" for i
  proof -
    from that have "i = 0 \<or> i = 2" by (auto simp: store_array_simps)
    then show ?thesis
      by (auto simp: store_array_simps gives_block_def extract_data_block_def make_parity_block_def
          xor_block_def upt_rec replicate_2)
  qed
  then show ?thesis
    using rait_read_returns_block [of ?self 2 2 "[1, 2, 3, 4]" "[0, 0, 0, 0, 9]" store_class] ps
    by (auto simp: store_array_simps)
qed

text \<open>When a data child of a complete array fails for the first time, the read reports success
  with a wrong block: the missing chunk comes back as itself exclusive-ored with the parity chunk, which
  is right only if the parity is all zero. The failed operation is still among the operations the
  chunk is rebuilt from, so the parity is left out.\<close>

theorem rait_read_first_failure_wrong_data:
  assumes "r_status self = RAIT_STATUS_COMPLETE" "r_failed self = - 1" "\<not> device_in_error self"
    and "length (r_children self) = Suc m" "k < m" "0 < cs"
    and "d_block_size self = cs * m" "length data = cs * m" "cs * m \<le> length buf"
    and "\<And>i. i \<le> m \<Longrightarrow> i \<noteq> k \<Longrightarrow>
      \<exists>c x. r_children self ! i = Some c \<and> gives_block klass cs x c \<and>
        extract_data_block data (cs * m) (Suc m) (Suc i) = Inr x"
    and "\<exists>c. r_children self ! k = Some c \<and> fails_block klass cs c"
  shows "\<exists>self' chunk. rait_device_read_block klass self buf = Inr (self', int (cs * m), cs * m,
           memcpy_at data (cs * k) (xor_block chunk (make_parity_block data cs (Suc m))) @ drop (cs * m) buf) \<and>
         extract_data_block data (cs * m) (Suc m) (Suc k) = Inr chunk \<and>
         d_status self' = d_status self \<and> r_status self' = RAIT_STATUS_DEGRADED \<and> r_failed self' = int k"
proof -
  have m: "0 < m" using assms(5) by simp
  have "\<exists>c. r_children self ! i = Some c \<and> gives_block klass cs (child_chunk data cs m i) c"
    if i: "i \<le> m" "i \<noteq> k" for i
    using assms(10) [OF i] extract_child_chunk [OF assms(8,6) m i(1)] by auto
  moreover have "extract_data_block data (cs * m) (Suc m) (Suc k) = Inr (child_chunk data cs m k)"
    using assms(5) by (intro extract_child_chunk [OF assms(8,6) m]) simp
  ultimately show ?thesis
    using read_block_first_failure [OF assms(1,2,3,4,5,7,8,9) _ assms(11)] by blast
qed

theorem rait_read_first_failure_wrong_data_witness:
  "\<exists>self'. rait_device_read_block store_class
       (store_array ACCESS_READ 4 RAIT_STATUS_COMPLETE (- 1) [[[1, 2]], [], [[2, 6]]]) [0, 0, 0, 0] =
       Inr (self', 4, 4, [1, 2, 1, 2])"
proof -
  let ?self = "store_array ACCESS_READ 4 RAIT_STATUS_COMPLETE (- 1) [[[1, 2]], [], [[2, 6]]]"
  have ps: "\<not> device_in_error ?self" "length (r_children ?self) = Suc 2" "d_block_size ?self = 2 * 2"
    "\<exists>c. r_children ?self ! 1 = Some c \<and> fails_block store_class 2 c"
    by (simp_all add: store_array_simps device_in_error_def device_status_defs fails_block_def)
  have "\<exists>c x. r_children ?self ! i = Some c \<and> gives_block store_class 2 x c \<and>
        extract_data_block [1, 2, 3, 4] (2 * 2) (Suc 2) (Suc i) = Inr x"
    if "i \<le> 2" "i \<noteq> 1" for i
  proof -
    from that have "i = 0 \<or> i = 2" by auto
    then show ?thesis
      by (auto simp: store_array_simps gives_block_def extract_data_block_def make_parity_block_def
          xor_block_def upt_rec replicate_2)
  qed
  then have "\<exists>self' chunk. rait_device_read_block store_class ?self [0, 0, 0, 0] = Inr (self', int (2 * 2), 2 * 2,
           memcpy_at [1, 2, 3, 4] (2 * 1) (xor_block chunk (make_parity_block [1, 2, 3, 4] 2 (Suc 2))) @ drop (2 * 2) [0, 0, 0, 0]) \<and>
         extract_data_block [1, 2, 3, 4] (2 * 2) (Suc 2) (Suc 1) = Inr chunk"
    using rait_read_first_failure_wrong_data [of ?self 2 1 2 "[1, 2, 3, 4]" "[0, 0, 0, 0]" store_class] ps
    by (auto simp: store_array_simps)
  then show ?thesis
    by (auto simp: extract_data_block_def make_parity_block_def xor_block_def memcpy_at_def upt_rec replicate_2)
qed

text \<open>Reading from an array of a single child that returns its block always fails an assertion:
  there is no parity child, yet a parity block is required.\<close>

theorem rait_read_single_child_asserts:
  assumes "r_status self = RAIT_STATUS_COMPLETE" "r_failed self = - 1" "\<not> device_in_error self"
    and "r_children self = [Some c]" "gives_block klass (d_block_size self) x c"
    and "length x = d_block_size self" "d_block_size self \<le> length buf"
  shows "rait_device_read_block klass self buf = Inl Assertion_failed"
proof -
  let ?bs = "d_block_size self"
  let ?ops = "[read_op klass ?bs 0 c]"
  have ok: "read_ok ?bs (read_op klass ?bs 0 c)" using assms(5) read_op_gives by blast
  then obtain c' x' where op: "read_op klass ?bs 0 c = (0, c', int ?bs, x')"
    by (auto simp: read_op_def read_ok_def split: prod.splits)
  have "do_rait_child_ops (\<lambda>i c. read_block_do_op klass ?bs c) (live_children self) =
      Inr (map (\<lambda>i. read_op klass ?bs i (the (r_children self ! i))) (live_indices self))"
    unfolding live_children_indices using assms(2,4,5) gives_reads
    by (intro read_ops_run) (auto simp: live_indices_all)
  also have "map (\<lambda>i. read_op klass ?bs i (the (r_children self ! i))) (live_indices self) = ?ops"
    using assms(2,4) by (simp add: live_indices_all)
  finally have run: "do_rait_child_ops (\<lambda>i c. read_block_do_op klass ?bs c) (live_children self) = Inr ?ops" .
  have "g_ptr_array_count (read_ok ?bs) ?ops \<noteq> 0" using ok by (simp add: g_ptr_array_count_def)
  moreover have "find_simple_params self = (1, 1)" using assms(4) by (simp add: find_simple_params_def)
  ultimately show ?thesis
    using assms(1,3,7) run ok op
    by (simp add: rait_device_read_block_def raid_block_reconstruction_def union_robust_all
        rait_device_in_error_def Let_def)
qed

theorem rait_read_single_child_asserts_witness:
  "rait_device_read_block store_class
     (store_array ACCESS_READ 2 RAIT_STATUS_COMPLETE (- 1) [[[1, 2]]]) [0, 0] = Inl Assertion_failed"
  by (rule rait_read_single_child_asserts)
    (auto simp: store_array_simps device_in_error_def device_status_defs gives_block_def)

end
