(* ===== verification/Rait_Config.thy ===== *)
theory Rait_Config
  imports Rait
begin

text \<open>
  The properties of a RAIT device and its two remaining operations, \<open>recycle_file\<close> and \<open>finish\<close>
  (\<open>device-src/rait-device.c\<close>). A property is asked of every child that has not failed and the
  answers are combined. What each combination computes is stated against an order on the answers:
  the most restrictive concurrency, the strongest streaming requirement, the smallest volume.
\<close>

section \<open>Asking and telling the children\<close>

type_synonym property_answer = "(gvalue \<times> property_surety \<times> property_source) option"

definition property_get_ops ::
  "'p devclass \<Rightarrow> ('p device_scheme) rait \<Rightarrow> property_id \<Rightarrow>
   fault + ('p device_scheme, property_answer) child_op list" where
  "property_get_ops klass self prop =
     do_rait_child_ops (\<lambda>i c. Inr (k_property_get klass c prop)) (live_children self)"

definition property_set_ops ::
  "'p devclass \<Rightarrow> ('p device_scheme) rait \<Rightarrow> property_id \<Rightarrow> gvalue \<Rightarrow> property_surety \<Rightarrow> property_source \<Rightarrow>
   fault + ('p device_scheme, bool) child_op list" where
  "property_set_ops klass self prop value surety source =
     do_rait_child_ops (\<lambda>i c. Inr (k_property_set klass c prop value surety source)) (live_children self)"

definition detected :: "gvalue option \<Rightarrow> property_answer" where
  \<comment> \<open>a combined value is good and detected\<close>
  "detected v = map_option (\<lambda>v. (v, PROPERTY_SURETY_GOOD, PROPERTY_SOURCE_DETECTED)) v"

section \<open>Combining answers\<close>

fun combine_concurrency ::
  "property_answer list \<Rightarrow> concurrency_paradigm \<Rightarrow> concurrency_paradigm option" where
  "combine_concurrency [] result = Some result"
| "combine_concurrency (Some (G_concurrency cur, _) # as) result =
     (if result = CONCURRENCY_PARADIGM_EXCLUSIVE \<or> cur = CONCURRENCY_PARADIGM_EXCLUSIVE
      then combine_concurrency as CONCURRENCY_PARADIGM_EXCLUSIVE
      else if result = CONCURRENCY_PARADIGM_SHARED_READ \<or> cur = CONCURRENCY_PARADIGM_SHARED_READ
      then combine_concurrency as CONCURRENCY_PARADIGM_SHARED_READ
      else if result = CONCURRENCY_PARADIGM_RANDOM_ACCESS \<and> cur = CONCURRENCY_PARADIGM_RANDOM_ACCESS
      then combine_concurrency as CONCURRENCY_PARADIGM_RANDOM_ACCESS
      else None)"
| "combine_concurrency (_ # as) result = None"

fun combine_streaming ::
  "property_answer list \<Rightarrow> streaming_requirement \<Rightarrow> streaming_requirement option" where
  "combine_streaming [] result = Some result"
| "combine_streaming (Some (G_streaming cur, _) # as) result =
     (if result = STREAMING_REQUIREMENT_REQUIRED \<or> cur = STREAMING_REQUIREMENT_REQUIRED
      then combine_streaming as STREAMING_REQUIREMENT_REQUIRED
      else if result = STREAMING_REQUIREMENT_DESIRED \<or> cur = STREAMING_REQUIREMENT_DESIRED
      then combine_streaming as STREAMING_REQUIREMENT_DESIRED
      else if result = STREAMING_REQUIREMENT_NONE \<and> cur = STREAMING_REQUIREMENT_NONE
      then combine_streaming as STREAMING_REQUIREMENT_NONE
      else None)"
| "combine_streaming (_ # as) result = None"

fun combine_and :: "property_answer list \<Rightarrow> bool option" where
  "combine_and [] = Some True"
| "combine_and (Some (G_bool b, _) # as) = (if b then combine_and as else Some False)"
| "combine_and (_ # as) = None"

fun combine_media :: "property_answer list \<Rightarrow> media_access_mode option \<Rightarrow> media_access_mode option" where
  \<comment> \<open>the second argument is \<open>None\<close> before the first child; \<open>result = 0\<close> is read-only\<close>
  "combine_media [] None = Some MEDIA_ACCESS_MODE_READ_ONLY"
| "combine_media [] (Some result) = Some result"
| "combine_media (Some (G_media cur, _) # as) None = combine_media as (Some cur)"
| "combine_media (Some (G_media cur, _) # as) (Some result) =
     (if result = MEDIA_ACCESS_MODE_READ_ONLY \<and> cur = MEDIA_ACCESS_MODE_WRITE_ONLY \<or>
         result = MEDIA_ACCESS_MODE_WRITE_ONLY \<and> cur = MEDIA_ACCESS_MODE_READ_ONLY then None
      else if result = MEDIA_ACCESS_MODE_READ_ONLY \<or> cur = MEDIA_ACCESS_MODE_READ_ONLY
      then combine_media as (Some MEDIA_ACCESS_MODE_READ_ONLY)
      else if result = MEDIA_ACCESS_MODE_WRITE_ONLY \<or> cur = MEDIA_ACCESS_MODE_WRITE_ONLY
      then combine_media as (Some MEDIA_ACCESS_MODE_WRITE_ONLY)
      else if result = MEDIA_ACCESS_MODE_WORM \<or> cur = MEDIA_ACCESS_MODE_WORM
      then combine_media as (Some MEDIA_ACCESS_MODE_WORM)
      else if result = MEDIA_ACCESS_MODE_READ_WRITE \<and> cur = MEDIA_ACCESS_MODE_READ_WRITE
      then combine_media as (Some MEDIA_ACCESS_MODE_READ_WRITE)
      else None)"
| "combine_media (_ # as) result = None"

fun combine_usage :: "property_answer list \<Rightarrow> 64 word \<Rightarrow> 64 word" where
  "combine_usage [] result = result"
| "combine_usage (Some (G_uint64 cur, _) # as) result =
     combine_usage as (if result = 0 \<or> cur \<noteq> 0 \<and> cur < result then cur else result)"
| "combine_usage (_ # as) result = combine_usage as result"

section \<open>The property functions\<close>

definition combined_property ::
  "'p devclass \<Rightarrow> ('p device_scheme) rait \<Rightarrow> property_id \<Rightarrow> (property_answer list \<Rightarrow> gvalue option) \<Rightarrow>
   fault + ('p device_scheme) rait \<times> property_answer" where
  "combined_property klass self prop f =
     map_r (\<lambda>ops. (store_children ops self, detected (f (map op_result ops))))
       (property_get_ops klass self prop)"

definition property_get_concurrency_fn where
  "property_get_concurrency_fn klass self = combined_property klass self PROPERTY_CONCURRENCY
     (\<lambda>as. map_option G_concurrency (combine_concurrency as CONCURRENCY_PARADIGM_RANDOM_ACCESS))"

definition property_get_streaming_fn where
  "property_get_streaming_fn klass self = combined_property klass self PROPERTY_STREAMING
     (\<lambda>as. map_option G_streaming (combine_streaming as STREAMING_REQUIREMENT_NONE))"

definition property_get_boolean_and_fn where
  "property_get_boolean_and_fn klass self prop = combined_property klass self prop
     (\<lambda>as. map_option G_bool (combine_and as))"

definition property_get_medium_access_type_fn where
  "property_get_medium_access_type_fn klass self = combined_property klass self PROPERTY_MEDIUM_ACCESS_TYPE
     (\<lambda>as. map_option G_media (combine_media as None))"

definition property_get_max_volume_usage_fn where
  "property_get_max_volume_usage_fn klass self = combined_property klass self PROPERTY_MAX_VOLUME_USAGE
     (\<lambda>as. let result = combine_usage as 0 in
       if result \<noteq> 0 then Some (G_uint64 (result * of_nat (snd (find_simple_params self)))) else None)"

definition property_set_max_volume_usage_fn ::
  "'p devclass \<Rightarrow> ('p device_scheme) rait \<Rightarrow> 64 word \<Rightarrow> property_surety \<Rightarrow> property_source \<Rightarrow>
   fault + ('p device_scheme) rait \<times> bool" where
  "property_set_max_volume_usage_fn klass self parent_usage surety source =
     (let data_children = snd (find_simple_params self) in
      if data_children = 0 then Inl Div_by_zero
      else map_r (\<lambda>ops. (store_children ops self, list_ex op_result ops))
        (property_set_ops klass self PROPERTY_MAX_VOLUME_USAGE
           (G_uint64 (parent_usage div of_nat data_children)) surety source))"

definition property_get_block_size_fn ::
  "'p devclass \<Rightarrow> ('p device_scheme) rait \<Rightarrow> fault + ('p device_scheme) rait \<times> property_answer" where
  "property_get_block_size_fn klass self =
     bind_r
       (if d_block_size_source self \<noteq> PROPERTY_SOURCE_DEFAULT
        then Inr (self, Some (d_block_size self, d_block_size_surety self))
        else map_r (\<lambda>(self, child_block_size, my_block_size).
            (self, if child_block_size = 0 then None else Some (my_block_size, PROPERTY_SURETY_BAD)))
          (calculate_block_size_from_children klass self))
       (\<lambda>(self, answer).
          case answer of
            None \<Rightarrow> Inr (self, None)
          | Some (my_block_size, surety) \<Rightarrow>
              if \<not> my_block_size < INT_MAX then Inl Assertion_failed
              else Inr (self, Some (G_int (int my_block_size), surety, d_block_size_source self)))"

definition property_set_block_size_fn ::
  "'p devclass \<Rightarrow> ('p device_scheme) rait \<Rightarrow> int \<Rightarrow> property_surety \<Rightarrow> property_source \<Rightarrow>
   fault + ('p device_scheme) rait \<times> bool" where
  "property_set_block_size_fn klass self my_block_size surety source =
     (let data_children = snd (find_simple_params self) in
      if data_children = 0 then Inl Div_by_zero
      else if nat (my_block_size mod 2 ^ 32) mod data_children \<noteq> 0 then
        Inr (device_set_error DEVICE_STATUS_DEVICE_ERROR self, False)
      else fix_block_size klass
        (self\<lparr>d_block_size := gsize_of_int my_block_size, d_block_size_source := source,
              d_block_size_surety := surety\<rparr>))"

definition property_get_canonical_name_fn ::
  "'p devclass \<Rightarrow> ('p device_scheme) rait \<Rightarrow> fault + property_answer" where
  "property_get_canonical_name_fn klass self =
     map_r (\<lambda>name. detected (Some (G_string name))) (child_device_names_to_rait_name klass self)"

section \<open>Recycling and finishing\<close>

text \<open>\<open>recycle_file\<close> does not leave the failed child out.\<close>

definition rait_device_recycle_file ::
  "'p devclass \<Rightarrow> ('p device_scheme) rait \<Rightarrow> nat \<Rightarrow> fault + ('p device_scheme) rait \<times> bool" where
  "rait_device_recycle_file klass self filenum =
     (if rait_device_in_error self then Inr (self, False)
      else bind_r (do_rait_child_ops (\<lambda>i c. device_recycle_file klass c filenum) (all_children self)) (\<lambda>ops.
        let self = store_children ops self in
        if \<not> g_ptr_array_and op_result ops
        then Inr (device_set_error DEVICE_STATUS_DEVICE_ERROR self, False)
        else Inr (self, True)))"

definition rait_device_finish ::
  "'p devclass \<Rightarrow> ('p device_scheme) rait \<Rightarrow> fault + ('p device_scheme) rait \<times> bool" where
  "rait_device_finish klass self =
     (let rval = \<not> rait_device_in_error self in
      map_r (\<lambda>ops.
        ((store_children ops self)\<lparr>d_access_mode := ACCESS_NULL\<rparr>, rval \<and> g_ptr_array_and op_result ops))
      (do_rait_child_ops (\<lambda>i c. Inr (device_finish klass c)) (live_children self)))"

section \<open>What the combinations compute\<close>

text \<open>The paradigms and requirements in the order of their C enumerations.\<close>

instantiation concurrency_paradigm :: linorder
begin

fun freedom :: "concurrency_paradigm \<Rightarrow> nat" where
  "freedom CONCURRENCY_PARADIGM_EXCLUSIVE = 0"
| "freedom CONCURRENCY_PARADIGM_SHARED_READ = 1"
| "freedom CONCURRENCY_PARADIGM_RANDOM_ACCESS = 2"

definition less_eq_concurrency_paradigm :: "concurrency_paradigm \<Rightarrow> concurrency_paradigm \<Rightarrow> bool" where
  "less_eq_concurrency_paradigm a b \<longleftrightarrow> freedom a \<le> freedom b"

definition less_concurrency_paradigm :: "concurrency_paradigm \<Rightarrow> concurrency_paradigm \<Rightarrow> bool" where
  "less_concurrency_paradigm a b \<longleftrightarrow> freedom a < freedom b"

instance
proof
  fix a b :: concurrency_paradigm
  show "a \<le> b \<Longrightarrow> b \<le> a \<Longrightarrow> a = b"
    by (cases a; cases b) (simp_all add: less_eq_concurrency_paradigm_def)
qed (auto simp: less_eq_concurrency_paradigm_def less_concurrency_paradigm_def)

end

instantiation streaming_requirement :: linorder
begin

fun demand :: "streaming_requirement \<Rightarrow> nat" where
  "demand STREAMING_REQUIREMENT_NONE = 0"
| "demand STREAMING_REQUIREMENT_DESIRED = 1"
| "demand STREAMING_REQUIREMENT_REQUIRED = 2"

definition less_eq_streaming_requirement :: "streaming_requirement \<Rightarrow> streaming_requirement \<Rightarrow> bool" where
  "less_eq_streaming_requirement a b \<longleftrightarrow> demand a \<le> demand b"

definition less_streaming_requirement :: "streaming_requirement \<Rightarrow> streaming_requirement \<Rightarrow> bool" where
  "less_streaming_requirement a b \<longleftrightarrow> demand a < demand b"

instance
proof
  fix a b :: streaming_requirement
  show "a \<le> b \<Longrightarrow> b \<le> a \<Longrightarrow> a = b"
    by (cases a; cases b) (simp_all add: less_eq_streaming_requirement_def)
qed (auto simp: less_eq_streaming_requirement_def less_streaming_requirement_def)

end

lemma combine_concurrency_min:
  "combine_concurrency (map (\<lambda>v. Some (G_concurrency v, q v)) vs) r = Some (foldl min r vs)"
proof (induction vs arbitrary: r)
  case (Cons v vs)
  then show ?case
    by (cases r; cases v) (simp_all add: min_def less_eq_concurrency_paradigm_def)
qed simp

lemma combine_streaming_max:
  "combine_streaming (map (\<lambda>v. Some (G_streaming v, q v)) vs) r = Some (foldl max r vs)"
proof (induction vs arbitrary: r)
  case (Cons v vs)
  then show ?case
    by (cases r; cases v) (simp_all add: max_def less_eq_streaming_requirement_def)
qed simp

definition least_set :: "64 word list \<Rightarrow> 64 word" where
  \<comment> \<open>the smallest of the values that are not 0, or 0\<close>
  "least_set vs = (let pos = filter (\<lambda>v. v \<noteq> 0) vs in if pos = [] then 0 else Min (set pos))"

fun usages :: "property_answer list \<Rightarrow> 64 word list" where
  "usages [] = []"
| "usages (Some (G_uint64 v, _) # as) = v # usages as"
| "usages (_ # as) = usages as"

lemma least_set_zero: "least_set vs = 0 \<longleftrightarrow> filter (\<lambda>v. v \<noteq> 0) vs = []"
proof (cases "filter (\<lambda>v. v \<noteq> 0) vs = []")
  case False
  then have "Min (set (filter (\<lambda>v. v \<noteq> 0) vs)) \<in> set (filter (\<lambda>v. v \<noteq> 0) vs)"
    by (intro Min_in) (simp_all only: finite_set set_empty not_False_eq_True)
  then have "Min (set (filter (\<lambda>v. v \<noteq> 0) vs)) \<noteq> 0" by simp
  with False show ?thesis unfolding least_set_def Let_def by (simp only: if_False)
qed (simp add: least_set_def)

lemma least_set_step:
  "least_set (x # xs) =
     (if x = 0 then least_set xs else if least_set xs = 0 then x else min x (least_set xs))"
proof (cases "filter (\<lambda>v. v \<noteq> 0) xs = []")
  case True
  then show ?thesis using least_set_zero [of xs] by (simp add: least_set_def)
next
  case False
  then have "least_set xs \<noteq> 0" using least_set_zero [of xs] by simp
  moreover have "least_set xs = Min (set (filter (\<lambda>v. v \<noteq> 0) xs))"
    using False unfolding least_set_def Let_def by (simp only: if_False)
  moreover have "x \<noteq> 0 \<Longrightarrow>
      least_set (x # xs) = min x (Min (set (filter (\<lambda>v. v \<noteq> 0) xs)))"
    using False unfolding least_set_def Let_def
    by (simp only: filter.simps if_True not_False_eq_True list.simps if_False list.set
        Min_insert finite_set set_empty)
  ultimately show ?thesis by (simp add: least_set_def)
qed

lemma least_set_Cons: "least_set (r # v # vs) = least_set ((if r = 0 \<or> v \<noteq> 0 \<and> v < r then v else r) # vs)"
  unfolding least_set_step [of _ "v # vs"] least_set_step [of _ vs]
  by (cases "r = 0"; cases "v = 0"; cases "v < r"; cases "least_set vs = 0") (auto simp: min_def)

lemma combine_usage_least: "combine_usage as r = least_set (r # usages as)"
proof (induction "as" r rule: combine_usage.induct)
  case (2 cur q as result)
  then show ?case by (simp only: combine_usage.simps usages.simps least_set_Cons [of result])
qed (simp_all add: least_set_def)

end
