(* ===== verification/Rait_Status.thy ===== *)
theory Rait_Status
  imports Rait_Read Rait_Config
begin

text \<open>
  The life of a RAIT device: its status only gets worse, whatever is called in whatever order; the
  recorded failed child is a child; and what the operations do in each status.
\<close>

section \<open>What operations leave alone\<close>

definition same_array :: "('c, 'q) rait_scheme \<Rightarrow> ('c, 'q) rait_scheme \<Rightarrow> bool" where
  "same_array self self' \<longleftrightarrow>
     r_status self' = r_status self \<and> r_failed self' = r_failed self \<and>
     length (r_children self') = length (r_children self)"

lemma same_array_refl [simp]: "same_array self self"
  by (simp add: same_array_def)

lemma same_array_trans [trans]: "same_array a b \<Longrightarrow> same_array b c \<Longrightarrow> same_array a c"
  by (simp add: same_array_def)

lemma device_set_error_same [simp]:
  "r_status (device_set_error f self) = r_status self"
  "r_failed (device_set_error f self) = r_failed self"
  "r_children (device_set_error f self) = r_children self"
  by (simp_all add: device_set_error_def)

lemmas result_iffs = bind_r_eq_Inr_iff map_r_eq_Inr_iff

lemma calculate_same:
  "calculate_block_size_from_children klass self = Inr (self', c, b) \<Longrightarrow> same_array self self'"
  by (auto simp: calculate_block_size_from_children_def result_iffs same_array_def Let_def
      split: if_splits)

lemma set_block_size_loop_same:
  "set_block_size_loop klass bs kids self = Inr (self', ok) \<Longrightarrow> same_array self self'"
proof (induction klass bs kids self rule: set_block_size_loop.induct)
  case (3 klass bs i child rest self)
  obtain child1 answer where g: "k_property_get klass child PROPERTY_BLOCK_SIZE = (child1, answer)" by force
  obtain child2 ok2 where s: "k_property_set klass child1 PROPERTY_BLOCK_SIZE (G_int (int bs))
      PROPERTY_SURETY_GOOD PROPERTY_SOURCE_USER = (child2, ok2)" by force
  show ?case
    using 3 g s
    by (fastforce simp: Let_def same_array_def split: if_splits option.splits prod.splits)
qed simp_all

lemma fix_block_size_same: "fix_block_size klass self = Inr (self', ok) \<Longrightarrow> same_array self self'"
proof -
  assume f: "fix_block_size klass self = Inr (self', ok)"
  show "same_array self self'"
  proof (cases "d_block_size_source self = PROPERTY_SOURCE_DEFAULT")
    case True
    with f obtain s c b where c: "calculate_block_size_from_children klass self = Inr (s, c, b)"
      and r: "(if c = 0 then Inr (s, False)
           else set_block_size_on_children klass
             (s\<lparr>r_child_block_size := c, d_block_size := b, d_block_size_surety := PROPERTY_SURETY_GOOD,
                d_block_size_source := PROPERTY_SOURCE_DETECTED\<rparr>) c) = Inr (self', ok)"
      by (auto simp: fix_block_size_def bind_r_eq_Inr_iff)
    from r have "same_array s self'"
      by (auto simp: set_block_size_on_children_def same_array_def split: if_splits
          dest!: set_block_size_loop_same)
    with calculate_same [OF c] show ?thesis by (rule same_array_trans)
  next
    case False
    with f show ?thesis
      by (auto simp: fix_block_size_def set_block_size_on_children_def Let_def split: if_splits
          dest: set_block_size_loop_same)
  qed
qed

lemma start_results_same:
  "start_results ops self ts from = (self', ts') \<Longrightarrow> same_array self self'"
  by (induction ops self ts "from" rule: start_results.induct)
    (auto simp: Let_def same_array_def split: if_splits; metis)+

section \<open>Calls on the array\<close>

datatype rait_call =
    Call_read_label
  | Call_start device_access_mode "string option" "string option"
  | Call_start_file dumpfile
  | Call_write_block nat "byte list"
  | Call_finish_file
  | Call_seek_file nat
  | Call_seek_block "64 word"
  | Call_read_block "byte list"
  | Call_recycle_file nat
  | Call_finish
  | Call_get_block_size
  | Call_set_block_size int property_surety property_source
  | Call_set_max_volume_usage "64 word" property_surety property_source

text \<open>A call that returns: the array before and after. A call that ends the program has no step.\<close>

inductive rait_step ::
  "'p devclass \<Rightarrow> ('p device_scheme) rait \<Rightarrow> rait_call \<Rightarrow> ('p device_scheme) rait \<Rightarrow> bool"
  for klass where
  step_read_label: "rait_device_read_label klass s = Inr (t, flags) \<Longrightarrow> rait_step klass s Call_read_label t"
| step_start: "rait_device_start klass s mode label timestamp = Inr (t, ok) \<Longrightarrow>
    rait_step klass s (Call_start mode label timestamp) t"
| step_start_file: "rait_device_start_file klass s info = Inr (t, ok) \<Longrightarrow>
    rait_step klass s (Call_start_file info) t"
| step_write_block: "rait_device_write_block klass s sz data = Inr (t, ok) \<Longrightarrow>
    rait_step klass s (Call_write_block sz data) t"
| step_finish_file: "rait_device_finish_file klass s = Inr (t, ok) \<Longrightarrow> rait_step klass s Call_finish_file t"
| step_seek_file: "rait_device_seek_file klass s file = Inr (t, header) \<Longrightarrow>
    rait_step klass s (Call_seek_file file) t"
| step_seek_block: "rait_device_seek_block klass s block = Inr (t, ok) \<Longrightarrow>
    rait_step klass s (Call_seek_block block) t"
| step_read_block: "rait_device_read_block klass s buf = Inr (t, result, sz, buf') \<Longrightarrow>
    rait_step klass s (Call_read_block buf) t"
| step_recycle_file: "rait_device_recycle_file klass s file = Inr (t, ok) \<Longrightarrow>
    rait_step klass s (Call_recycle_file file) t"
| step_finish: "rait_device_finish klass s = Inr (t, ok) \<Longrightarrow> rait_step klass s Call_finish t"
| step_get_block_size: "property_get_block_size_fn klass s = Inr (t, answer) \<Longrightarrow>
    rait_step klass s Call_get_block_size t"
| step_set_block_size: "property_set_block_size_fn klass s n surety source = Inr (t, ok) \<Longrightarrow>
    rait_step klass s (Call_set_block_size n surety source) t"
| step_set_max_volume_usage: "property_set_max_volume_usage_fn klass s v surety source = Inr (t, ok) \<Longrightarrow>
    rait_step klass s (Call_set_max_volume_usage v surety source) t"

section \<open>The invariant\<close>

definition rait_inv :: "('c, 'q) rait_scheme \<Rightarrow> bool" where
  "rait_inv self \<longleftrightarrow>
     (case r_status self of
        RAIT_STATUS_COMPLETE \<Rightarrow> r_failed self = - 1
      | RAIT_STATUS_DEGRADED \<Rightarrow> 0 \<le> r_failed self \<and> r_failed self < int (length (r_children self))
      | RAIT_STATUS_FAILED \<Rightarrow> True)"

definition worse :: "('c, 'q) rait_scheme \<Rightarrow> ('c, 'q) rait_scheme \<Rightarrow> bool" where
  "worse self self' \<longleftrightarrow>
     length (r_children self') = length (r_children self) \<and> r_status self \<le> r_status self' \<and>
     (rait_inv self \<longrightarrow> rait_inv self')"

lemma worse_refl [simp]: "worse self self"
  by (simp add: worse_def)

lemma worse_trans [trans]: "worse a b \<Longrightarrow> worse b c \<Longrightarrow> worse a c"
  by (auto simp: worse_def)

lemma same_worse: "same_array a b \<Longrightarrow> worse a b"
  by (auto simp: same_array_def worse_def rait_inv_def split: rait_status.splits)

lemma same_store [simp]: "same_array self (store_children ops self)"
  by (simp add: same_array_def)

lemma do_rait_child_ops_fst:
  "do_rait_child_ops f kids = Inr ops \<Longrightarrow> map fst ops = map fst kids"
proof (induction kids arbitrary: ops)
  case (Cons ic kids)
  then obtain r rs where r: "run_op f ic = Inr r" "collect_r (map (run_op f) kids) = Inr rs" "ops = r # rs"
    by (auto simp: do_rait_child_ops_def result_iffs)
  then have "fst r = fst ic" by (auto simp: run_op_def map_r_eq_Inr_iff split: prod.splits option.splits)
  with r Cons.IH [of rs] show ?case by (simp add: do_rait_child_ops_def)
qed (simp add: do_rait_child_ops_def)

lemma live_ops_fst: "do_rait_child_ops f (live_children self) = Inr ops \<Longrightarrow> map fst ops = live_indices self"
  by (simp add: do_rait_child_ops_fst live_children_indices o_def)

lemma union_robust_worse:
  assumes ops: "do_rait_child_ops f (live_children self0) = Inr ops"
    and same: "same_array self0 self"
    and u: "g_ptr_array_union_robust ext ops self = (self', ok)"
  shows "worse self self'"
proof (cases "filter (\<lambda>(k, op). \<not> ext op) (enumerate 0 ops) = []")
  case True
  with u show ?thesis by (simp add: g_ptr_array_union_robust_def)
next
  case False
  let ?bad = "filter (\<lambda>(k, op). \<not> ext op) (enumerate 0 ops)"
  obtain k op where l: "last ?bad = (k, op)" by (cases "last ?bad") auto
  from last_in_set [OF False] l have "k < length ops" by (auto simp: in_set_enumerate_eq)
  moreover have "length ops \<le> length (r_children self)"
    using arg_cong [OF live_ops_fst [OF ops], of length] same
    by (simp add: live_indices_def same_array_def) (metis diff_zero length_filter_le length_upt)
  ultimately show ?thesis
    using False l u
    by (cases "r_status self")
      (auto simp: g_ptr_array_union_robust_def worse_def rait_inv_def less_eq_rait_status_def Let_def
        split: if_splits)
qed

section \<open>Every operation\<close>

named_theorems rait_ops \<open>the operations of a RAIT device only make it worse\<close>

lemma store_children_nil [simp]: "r_children (store_children ops self) = [] \<longleftrightarrow> r_children self = []"
  by (metis length_0_conv length_store_children)

lemma reconstruct_same:
  assumes "raid_block_reconstruction self ops buf = Inr (self', buf', ok)"
  shows "same_array self self'"
proof -
  obtain n d where f: "find_simple_params self = (n, d)" by force
  have d: "d \<noteq> 0"
  proof
    assume "d = 0"
    with assms f show False by (simp add: raid_block_reconstruction_def)
  qed
  let ?pc = "if n > 1 then int n - 1 else - 1"
  from assms f d obtain b p where b: "place_chunks (d_block_size self div d) ?pc ops buf None = Inr (b, p)"
    by (cases "place_chunks (d_block_size self div d) ?pc ops buf None")
      (auto simp: raid_block_reconstruction_def)
  show ?thesis
  proof (cases "r_status self")
    case RAIT_STATUS_COMPLETE
    then show ?thesis
      using assms f d b unfolding raid_block_reconstruction_def Let_def
      by (cases p) (simp_all add: same_array_def split: if_splits, auto)
  next
    case RAIT_STATUS_DEGRADED
    then show ?thesis
      using assms f d b unfolding raid_block_reconstruction_def Let_def
      by (simp add: same_array_def split: if_splits)
  next
    case RAIT_STATUS_FAILED
    then show ?thesis using assms f d b unfolding raid_block_reconstruction_def Let_def by simp
  qed
qed

lemma read_label_worse [rait_ops]:
  assumes "rait_device_read_label klass s = Inr (t, flags)"
  shows "worse s t"
proof -
  let ?s = "s\<lparr>d_volume_time := None, d_volume_label := None, d_volume_header := None\<rparr>"
  have s: "same_array s ?s" by (simp add: same_array_def)
  show ?thesis
  proof (cases "rait_device_in_error ?s")
    case True
    with assms s show ?thesis by (auto simp: rait_device_read_label_def Let_def intro: same_worse)
  next
    case False
    with assms obtain u ok where u: "fix_block_size klass ?s = Inr (u, ok)"
      by (auto simp: rait_device_read_label_def Let_def bind_r_eq_Inr_iff)
    have "same_array u t"
    proof (cases ok)
      case ok: True
      obtain ops where ops: "do_rait_child_ops (\<lambda>i c. device_read_label klass c) (live_children u) = Inr ops"
        using assms False u ok by (auto simp: rait_device_read_label_def Let_def bind_r_eq_Inr_iff)
      obtain fs fr where r: "read_label_results ops None 0 = (fs, fr)" by force
      show ?thesis
        using assms False u ok ops r
        by (cases fs) (auto simp: rait_device_read_label_def Let_def same_array_def split: if_splits)
    qed (use assms False u in \<open>simp add: rait_device_read_label_def Let_def\<close>)
    with s fix_block_size_same [OF u] show ?thesis by (meson same_array_trans same_worse)
  qed
qed

lemma start_worse [rait_ops]:
  assumes "rait_device_start klass s mode label timestamp = Inr (t, ok)"
  shows "worse s t"
proof (cases "rait_device_in_error s \<or>
    r_status s \<noteq> RAIT_STATUS_COMPLETE \<and> (mode = ACCESS_WRITE \<or> mode = ACCESS_APPEND)")
  case True
  with assms show ?thesis
    by (auto simp: rait_device_start_def same_array_def intro!: same_worse split: if_splits)
next
  case False
  with assms obtain u ok1 where u: "fix_block_size klass s = Inr (u, ok1)"
    by (auto simp: rait_device_start_def Let_def bind_r_eq_Inr_iff)
  show ?thesis
  proof (cases ok1)
    case False
    with assms \<open>\<not> (rait_device_in_error s \<or> _)\<close> u fix_block_size_same [OF u] show ?thesis
      by (auto simp: rait_device_start_def intro: same_worse)
  next
    case True
    let ?v = "u\<lparr>d_access_mode := mode, d_in_file := False, d_volume_label := None,
                d_volume_time := None, d_volume_header := None\<rparr>"
    obtain ops where ops: "do_rait_child_ops (\<lambda>i c. Inr (start_do_op klass mode label timestamp c))
        (live_children ?v) = Inr ops"
      using assms True \<open>\<not> (rait_device_in_error s \<or> _)\<close> u
      by (auto simp: rait_device_start_def Let_def bind_r_eq_Inr_iff)
    obtain w ts where w: "start_results ops (store_children ops ?v) 0 False = (w, ts)" by force
    have "same_array w t"
      using assms True \<open>\<not> (rait_device_in_error s \<or> _)\<close> u ops w
      by (auto simp: rait_device_start_def Let_def same_array_def split: if_splits)
    moreover have "same_array u ?v" by (simp add: same_array_def)
    moreover note start_results_same [OF w] fix_block_size_same [OF u] same_store [of ?v ops]
    ultimately show ?thesis by (meson same_array_trans same_worse)
  qed
qed

lemma start_file_worse [rait_ops]: "rait_device_start_file klass s info = Inr (t, ok) \<Longrightarrow> worse s t"
  by (auto simp: rait_device_start_file_def Let_def result_iffs same_array_def
      intro!: same_worse split: if_splits option.splits)

lemma write_block_worse [rait_ops]: "rait_device_write_block klass s sz data = Inr (t, ok) \<Longrightarrow> worse s t"
  by (rule same_worse)
    (simp add: rait_device_write_block_def Let_def result_iffs same_array_def split: if_splits; auto)

lemma finish_file_worse [rait_ops]: "rait_device_finish_file klass s = Inr (t, ok) \<Longrightarrow> worse s t"
  by (auto simp: rait_device_finish_file_def Let_def result_iffs same_array_def
      intro!: same_worse split: if_splits)

lemma recycle_file_worse [rait_ops]: "rait_device_recycle_file klass s file = Inr (t, ok) \<Longrightarrow> worse s t"
  by (auto simp: rait_device_recycle_file_def Let_def result_iffs same_array_def
      intro!: same_worse split: if_splits)

lemma finish_worse [rait_ops]: "rait_device_finish klass s = Inr (t, ok) \<Longrightarrow> worse s t"
  by (auto simp: rait_device_finish_def Let_def result_iffs same_array_def intro!: same_worse)

lemma seek_block_worse [rait_ops]:
  assumes "rait_device_seek_block klass s block = Inr (t, ok)"
  shows "worse s t"
proof (cases "rait_device_in_error s")
  case True
  with assms show ?thesis by (simp add: rait_device_seek_block_def)
next
  case False
  with assms obtain ops where ops: "do_rait_child_ops (\<lambda>i c. device_seek_block klass c block)
      (live_children s) = Inr ops" by (auto simp: rait_device_seek_block_def bind_r_eq_Inr_iff)
  obtain u b where u: "g_ptr_array_union_robust op_result ops (store_children ops s) = (u, b)" by force
  have "worse s u" using union_robust_worse [OF ops same_store u] same_worse [OF same_store, of s ops]
    by (rule worse_trans [rotated])
  moreover have "same_array u t"
    using assms False ops u by (auto simp: rait_device_seek_block_def same_array_def split: if_splits)
  ultimately show ?thesis by (meson same_worse worse_trans)
qed

lemma seek_file_worse [rait_ops]:
  assumes "rait_device_seek_file klass s file = Inr (t, header)"
  shows "worse s t"
proof (cases "rait_device_in_error s")
  case True
  with assms show ?thesis by (simp add: rait_device_seek_file_def)
next
  case False
  let ?s = "s\<lparr>d_is_eof := False, d_block := 0, d_in_file := False, d_bytes_read := 0\<rparr>"
  have s: "worse s ?s" by (rule same_worse) (simp add: same_array_def)
  from assms False obtain ops where ops: "do_rait_child_ops (\<lambda>i c. seek_file_do_op klass file c)
      (live_children ?s) = Inr ops" by (auto simp: rait_device_seek_file_def bind_r_eq_Inr_iff Let_def)
  obtain u b where u: "g_ptr_array_union_robust (\<lambda>op. fst (op_result op) \<noteq> None) ops
      (store_children ops ?s) = (u, b)" by force
  obtain r f i b' where r: "seek_results (r_failed u) ops (None, 0, False) b = ((r, f, i), b')"
    by (metis surj_pair)
  have "worse ?s u" using union_robust_worse [OF ops same_store u] same_worse [OF same_store, of ?s ops]
    by (rule worse_trans [rotated])
  moreover have "same_array u t"
    using assms False ops u r
    by (auto simp: rait_device_seek_file_def same_array_def Let_def split: if_splits)
  ultimately show ?thesis using s by (meson same_worse worse_trans)
qed

lemma union_in_ops:
  assumes "do_rait_child_ops f (live_children s) = Inr ops"
    and "g_ptr_array_union_robust ext ops (store_children ops s) = (u, b)"
  shows "worse s u"
  using worse_trans [OF same_worse [OF same_store] union_robust_worse [OF assms(1) same_store assms(2)]] .

lemma read_block_worse [rait_ops]:
  assumes "rait_device_read_block klass s buf = Inr (t, result, sz, buf')"
  shows "worse s t"
proof (cases "rait_device_in_error s \<or> d_block_size s > length buf")
  case True
  with assms show ?thesis by (auto simp: rait_device_read_block_def Let_def split: prod.splits if_splits)
next
  case False
  obtain n d where f: "find_simple_params s = (n, d)" by force
  let ?cbs = "d_block_size s div d"
  from assms False f have d: "d \<noteq> 0" "d_block_size s mod d = 0"
    by (auto simp: rait_device_read_block_def Let_def split: if_splits)
  note d = d f
  with assms False obtain ops where ops:
      "do_rait_child_ops (\<lambda>i c. read_block_do_op klass ?cbs c) (live_children s) = Inr ops"
    by (cases "do_rait_child_ops (\<lambda>i c. read_block_do_op klass ?cbs c) (live_children s)")
      (auto simp: rait_device_read_block_def Let_def)
  show ?thesis
  proof (cases "g_ptr_array_count (read_ok ?cbs) ops = 0")
    case True
    obtain u b where u: "g_ptr_array_union_robust read_eof ops (store_children ops s) = (u, b)" by force
    have "same_array u t"
      using assms False d ops True u
      by (cases b) (auto simp: rait_device_read_block_def Let_def same_array_def split: prod.splits)
    with union_in_ops [OF ops u] show ?thesis by (meson same_worse worse_trans)
  next
    case count: False
    obtain u b where u: "g_ptr_array_union_robust (read_ok ?cbs) ops (store_children ops s) = (u, b)" by force
    have "same_array u t"
    proof (cases b)
      case True
      obtain v buf2 ok where v: "raid_block_reconstruction u ops buf = Inr (v, buf2, ok)"
        using assms False d ops count u True
        by (cases "raid_block_reconstruction u ops buf")
          (auto simp: rait_device_read_block_def split: prod.splits)
      have "same_array v t"
        using assms False d ops count u True v
        by (cases ok) (auto simp: rait_device_read_block_def Let_def same_array_def split: prod.splits)
      with reconstruct_same [OF v] show ?thesis by (rule same_array_trans)
    next
      case b: False
      then show ?thesis
        using assms False d ops count u
        by (auto simp: rait_device_read_block_def Let_def same_array_def split: prod.splits)
    qed
    with union_in_ops [OF ops u] show ?thesis by (meson same_worse worse_trans)
  qed
qed

lemma get_block_size_worse [rait_ops]: "property_get_block_size_fn klass s = Inr (t, answer) \<Longrightarrow> worse s t"
  by (auto simp: property_get_block_size_fn_def result_iffs
      intro: same_worse dest!: calculate_same split: if_splits option.splits)

lemma set_block_size_worse [rait_ops]:
  assumes "property_set_block_size_fn klass s n surety source = Inr (t, ok)"
  shows "worse s t"
proof -
  let ?s = "s\<lparr>d_block_size := gsize_of_int n, d_block_size_source := source, d_block_size_surety := surety\<rparr>"
  have s: "same_array s ?s" "same_array s (device_set_error DEVICE_STATUS_DEVICE_ERROR s)"
    by (simp_all add: same_array_def)
  have "t = device_set_error DEVICE_STATUS_DEVICE_ERROR s \<or> fix_block_size klass ?s = Inr (t, ok)"
    using assms by (auto simp: property_set_block_size_fn_def Let_def split: if_splits)
  then show ?thesis using s fix_block_size_same by (meson same_array_trans same_worse)
qed

lemma set_max_volume_usage_worse [rait_ops]:
  "property_set_max_volume_usage_fn klass s v surety source = Inr (t, ok) \<Longrightarrow> worse s t"
  by (auto simp: property_set_max_volume_usage_fn_def Let_def result_iffs intro: same_worse split: if_splits)

lemma rait_step_worse: "rait_step klass s call t \<Longrightarrow> worse s t"
  by (induction rule: rait_step.induct) (rule rait_ops, assumption)+

text \<open>
  The array as a guarded system: whatever it is opened as, its number of children stays, its status is
  at least as bad, and the invariant holds.
\<close>

interpretation array: guarded_system
  "\<lambda>s. s = s0" "rait_step klass" "worse s0" for s0 :: "('p device_scheme) rait" and klass
  by unfold_locales (auto intro: worse_trans rait_step_worse)

section \<open>Opening\<close>

lemma open_results_inv:
  assumes "open_results i rs self flags failure = (self', flags', failure')"
    and "\<not> failure" "r_status self = RAIT_STATUS_COMPLETE \<and> r_failed self = - 1 \<or>
      r_status self = RAIT_STATUS_DEGRADED \<and> 0 \<le> r_failed self \<and> r_failed self < int i"
    and "length (r_children self) = i" "\<not> failure'"
  shows "rait_inv self' \<and> length (r_children self') = i + length rs"
  using assms
proof (induction rs arbitrary: i self flags failure)
  case Nil
  then show ?case by (auto simp: rait_inv_def)
next
  case (Cons r rs)
  have stuck: "failure' = True" if "open_results j xs s f True = (self', flags', failure')" for j xs s f
    using that by (induction xs arbitrary: j s f) (auto simp: Let_def split: if_splits)
  show ?case
  proof (cases "r \<noteq> None \<and> d_status (the r) = DEVICE_STATUS_SUCCESS")
    case True
    with Cons.prems Cons.IH [of "i + 1" "self\<lparr>r_children := r_children self @ [r]\<rparr>" flags failure]
    show ?thesis by (auto simp: Let_def)
  next
    case bad: False
    show ?thesis
    proof (cases "r_status self = RAIT_STATUS_COMPLETE")
      case True
      let ?f = "flags OR (case r of None \<Rightarrow> DEVICE_STATUS_DEVICE_ERROR | Some d \<Rightarrow> d_status d)"
      let ?s = "self\<lparr>r_children := r_children self @ [r], r_status := RAIT_STATUS_DEGRADED, r_failed := int i\<rparr>"
      have "open_results (i + 1) rs ?s ?f failure = (self', flags', failure')"
        using Cons.prems(1) unfolding open_results.simps if_not_P [OF bad] Let_def if_P [OF True] .
      from Cons.IH [OF this] Cons.prems show ?thesis by auto
    next
      case False
      show ?thesis
        using Cons.prems(1,5) stuck unfolding open_results.simps if_not_P [OF bad] Let_def if_not_P [OF False]
        by blast
    qed
  qed
qed

lemma open_child_devices_inv:
  assumes "open_child_devices device_open (rait_device_init garbage cbs) node = Inr (self, True)"
  shows "rait_inv self"
proof -
  from assms obtain names where
      "(case open_results 0 (map (device_open_do_op device_open) names) (rait_device_init garbage cbs) 0 False of
              (self, failure_flags, failure) \<Rightarrow>
                if failure then
                  (device_set_error failure_flags (self\<lparr>r_status := RAIT_STATUS_FAILED\<rparr>), False)
                else (self, True)) = (self, True)"
    by (auto simp: open_child_devices_def map_r_eq_Inr_iff split: option.splits)
  then obtain flags where "open_results 0 (map (device_open_do_op device_open) names)
      (rait_device_init garbage cbs) 0 False = (self, flags, False)"
    by (auto split: prod.splits if_splits)
  from open_results_inv [OF this] show ?thesis by (simp add: rait_device_init_def device_init_def)
qed

end
