(* ===== verification/Rait_Correct.thy ===== *)
theory Rait_Correct
  imports Rait_Status
begin

text \<open>
  What a RAIT device promises: how its block size is chosen, which chunk each child is given to
  write, how it ages under failures, and what the operations do on a degraded array.
\<close>

section \<open>Agreeing on a block size\<close>

definition reported_ranges :: "'p devclass \<Rightarrow> ('p device_scheme) rait \<Rightarrow> (nat \<times> nat) list" where
  "reported_ranges klass self =
     List.map_filter (\<lambda>(i, c). snd (child_block_range klass (the c))) (live_children self)"

definition fits :: "nat \<Rightarrow> nat \<times> nat \<Rightarrow> bool" where
  "fits x r \<longleftrightarrow> fst r \<le> x \<and> x \<le> snd r"

definition distance :: "nat \<Rightarrow> nat \<Rightarrow> nat" where
  "distance a b = (a - b) + (b - a)"

lemma foldl_max_le: "foldl max a xs \<le> (x :: nat) \<longleftrightarrow> a \<le> x \<and> (\<forall>y \<in> set xs. y \<le> x)"
  by (induction xs arbitrary: a) auto

lemma le_foldl_min: "x \<le> foldl min a xs \<longleftrightarrow> x \<le> (a :: nat) \<and> (\<forall>y \<in> set xs. x \<le> y)"
  by (induction xs arbitrary: a) auto

lemma clamp_bounds: "mn \<le> mx \<Longrightarrow> mn \<le> clamp x mn mx \<and> clamp x mn mx \<le> mx"
  by (simp add: clamp_def)

lemma clamp_nearest: "mn \<le> mx \<Longrightarrow> mn \<le> y \<Longrightarrow> y \<le> mx \<Longrightarrow> distance (clamp x mn mx) x \<le> distance y x"
  by (auto simp: clamp_def distance_def)

lemma block_ranges_map:
  "block_ranges (map (\<lambda>(i, c). (i, f i (the c))) kids) =
     List.map_filter (\<lambda>(i, c). snd (f i (the c))) kids"
  by (induction kids) (auto simp: block_ranges_def List.map_filter_def op_result_def)

lemma calculate_ops:
  assumes "\<And>i. i \<in> set (live_indices self) \<Longrightarrow> r_children self ! i \<noteq> None"
  shows "do_rait_child_ops (\<lambda>i c. Inr (child_block_range klass c)) (live_children self) =
      Inr (map (\<lambda>(i, c). (i, child_block_range klass (the c))) (live_children self))"
  using assms by (intro do_rait_child_ops_Inr) (auto simp: live_children_indices)

lemma calculate_eq:
  assumes "\<And>i. i \<in> set (live_indices self) \<Longrightarrow> r_children self ! i \<noteq> None"
  shows "\<exists>self'. calculate_block_size_from_children klass self =
    (let rs = reported_ranges klass self; mn = foldl max 0 (map fst rs); mx = foldl min SIZE_MAX (map snd rs) in
     if rs = [] \<or> mn > mx then Inr (device_set_error DEVICE_STATUS_DEVICE_ERROR self', 0, 0)
     else Inr (self', clamp 32768 mn mx, clamp 32768 mn mx * snd (find_simple_params self)))"
proof -
  let ?ops = "map (\<lambda>(i, c). (i, child_block_range klass (the c))) (live_children self)"
  have "block_ranges ?ops = reported_ranges klass self"
    using block_ranges_map [of "\<lambda>i c. child_block_range klass c"] by (simp add: reported_ranges_def)
  then show ?thesis
    by (intro exI [of _ "store_children ?ops self"])
      (simp only: calculate_block_size_from_children_def calculate_ops [OF assms] map_r_simps Let_def
        if_distrib [of Inr] disj_imp find_simple_params_store split: if_split, simp)
qed

text \<open>The block size computed for the children lies in the range of every child that reports one,
  no size that does is closer to 32768 bytes, and the block size of the array is that many times the
  number of data children.\<close>

theorem rait_block_size_agreed:
  assumes "\<And>i. i \<in> set (live_indices self) \<Longrightarrow> r_children self ! i \<noteq> None"
    and "calculate_block_size_from_children klass self = Inr (self', c, b)" and "c \<noteq> 0"
  shows "(\<forall>r \<in> set (reported_ranges klass self). fits c r) \<and>
    (\<forall>x. (\<forall>r \<in> set (reported_ranges klass self). fits x r) \<longrightarrow> distance c 32768 \<le> distance x 32768) \<and>
    b = c * snd (find_simple_params self)"
proof -
  let ?rs = "reported_ranges klass self"
  let ?mn = "foldl max 0 (map fst ?rs)" let ?mx = "foldl min SIZE_MAX (map snd ?rs)"
  have c: "?mn \<le> ?mx" "c = clamp 32768 ?mn ?mx" "b = c * snd (find_simple_params self)"
    using calculate_eq [OF assms(1), of klass] assms(2,3) by (auto simp: Let_def split: if_splits)
  have le: "?mn \<le> x \<longleftrightarrow> (\<forall>r \<in> set ?rs. fst r \<le> x)" "x \<le> ?mx \<longleftrightarrow> x \<le> SIZE_MAX \<and> (\<forall>r \<in> set ?rs. x \<le> snd r)" for x
    by (simp_all add: foldl_max_le le_foldl_min)
  have "distance c 32768 \<le> distance x 32768" if x: "\<forall>r \<in> set ?rs. fits x r" for x
  proof (cases "x \<le> SIZE_MAX")
    case True
    then have "x \<le> ?mx" using x le(2) by (auto simp: fits_def)
    moreover have "?mn \<le> x" using x le(1) by (auto simp: fits_def)
    ultimately show ?thesis unfolding c(2) using c(1) by (intro clamp_nearest)
  next
    case False
    have "c \<le> ?mx" unfolding c(2) using c(1) clamp_bounds by blast
    then have "c \<le> SIZE_MAX" using le(2) by blast
    moreover have "c \<le> 32768 \<Longrightarrow> 0 < c \<Longrightarrow> distance c 32768 < 32768" by (simp add: distance_def)
    ultimately show ?thesis using False assms(3) unfolding distance_def SIZE_MAX_def by simp
  qed
  moreover have "\<forall>r \<in> set ?rs. fits c r"
    using clamp_bounds [OF c(1), of 32768] le unfolding c(2) fits_def by blast
  ultimately show ?thesis using c(3) by blast
qed

text \<open>Two children, one that takes 512 to 8192 bytes and one that takes any size.\<close>

definition sized_store :: "nat \<Rightarrow> nat \<Rightarrow> byte list list device_scheme" where
  "sized_store lo hi = (device_init False [])\<lparr>d_min_block_size := lo, d_max_block_size := hi\<rparr>"

definition new_array :: "(byte list list device_scheme) option list \<Rightarrow> (byte list list device_scheme) rait" where
  "new_array kids = open_from_children (rait_device_init False 0) kids"

lemmas new_array_simps =
  new_array_def open_from_children_def rait_device_init_def device_init_def sized_store_def

lemma sized_store_range:
  "0 < lo \<Longrightarrow> lo \<le> hi \<Longrightarrow> snd (child_block_range store_class (sized_store lo hi)) = Some (lo, hi)"
  by (simp add: child_block_range_def store_class_def sized_store_def device_init_def g_value_get_uint_def)

theorem rait_block_size_agreed_witness:
  "\<exists>self' c b. calculate_block_size_from_children store_class
       (new_array [Some (sized_store 512 8192), Some (sized_store 1 SIZE_MAX)]) = Inr (self', c, b) \<and>
     fits c (512, 8192) \<and> b = c"
proof -
  let ?a = "new_array [Some (sized_store 512 8192), Some (sized_store 1 SIZE_MAX)]"
  have live: "live_indices ?a = [0, 1]" and kids: "\<And>i. i \<in> set (live_indices ?a) \<Longrightarrow> r_children ?a ! i \<noteq> None"
    by (auto simp: live_indices_def new_array_simps upt_rec)
  have rs: "reported_ranges store_class ?a = [(512, 8192), (1, SIZE_MAX)]"
    unfolding reported_ranges_def live_children_indices live
    by (simp add: List.map_filter_def sized_store_range
        new_array_def open_from_children_def rait_device_init_def device_init_def SIZE_MAX_def)
  obtain self' where c: "calculate_block_size_from_children store_class ?a = Inr (self', 8192, 8192)"
    using calculate_eq [OF kids, of store_class] unfolding rs
    by (auto simp: SIZE_MAX_def clamp_def find_simple_params_def new_array_simps)
  with rait_block_size_agreed [OF kids c] rs show ?thesis
    by (auto simp: find_simple_params_def new_array_simps)
qed

section \<open>Writing\<close>

definition writable_child :: "nat \<Rightarrow> 'p device_scheme \<Rightarrow> bool" where
  "writable_child cs c \<longleftrightarrow> is_writable_access_mode (d_access_mode c) \<and> d_in_file c \<and>
     \<not> d_wrote_short_block c \<and> d_block_size c = cs"

lemma write_writable:
  "writable_child cs c \<Longrightarrow> 0 < cs \<Longrightarrow> device_write_block klass c cs x = Inr (k_write_block klass c cs x)"
  by (simp add: writable_child_def device_write_block_def)

lemma child_chunk_small:
  assumes "m = 1" "i \<le> m" "length data = cs"
  shows "child_chunk data cs m i = data"
  using assms blocks.unit [OF assms(3)]
  by (auto simp: child_chunk_def make_parity_block_def)

lemma store_children_nth:
  assumes "map fst ops = [0 ..< n]" "i < n" "length (r_children self) = n"
  shows "r_children (store_children ops self) ! i = Some (op_child (ops ! i))"
proof -
  have gen: "foldl (\<lambda>cs (i, c, r). cs[i := Some c]) cs ops ! i = Some (op_child (ops ! (i - k)))"
    if "map fst ops = [k ..< n]" "k \<le> i" "i < n" "length cs = n" for ops :: "('a, 'b) child_op list" and k cs
    using that
  proof (induction ops arbitrary: k cs)
    case (Cons op ops)
    obtain j c r where op: "op = (j, c, r)" by (cases op)
    from Cons.prems(1) have k: "j = k" "k < n" "map fst ops = [Suc k ..< n]"
      using op upt_eq_Cons_conv [of k n j "map fst ops"] by auto
    show ?case
    proof (cases "k = i")
      case True
      have keep: "foldl (\<lambda>cs (i, c, r). cs[i := Some c]) cs' os ! i = cs' ! i"
        if "i \<notin> fst ` set os" for os :: "('a, 'b) child_op list" and cs'
        using that by (induction os arbitrary: cs') auto
      have "i \<notin> fst ` set ops" unfolding set_map [symmetric] k(3) using True by simp
      with True keep [of ops "cs[i := Some c]"] Cons.prems(3,4) op k(1) show ?thesis by simp
    next
      case False
      with Cons.prems k Cons.IH [of "Suc k" "cs[k := Some c]"] op show ?thesis
        by (simp add: Suc_diff_Suc nth_Cons')
    qed
  qed (auto dest!: sym [of "[]"])
  from gen [OF assms(1) _ assms(2,3)] show ?thesis by (simp add: store_children_def)
qed

lemma g_and_upt: "0 < n \<Longrightarrow> g_ptr_array_and op_result (map (\<lambda>i. (i, f i)) [0 ..< n]) \<longleftrightarrow> (\<forall>i < n. snd (f i))"
  by (auto simp: g_ptr_array_and_def list_all_iff op_result_def)

lemma write_ops:
  assumes m: "length (r_children self) = Suc m" "0 < m" "0 < cs" and data: "length data = cs * m"
    and kids: "\<And>i. i \<le> m \<Longrightarrow> \<exists>c. r_children self ! i = Some c \<and> writable_child cs c"
  shows "do_rait_child_ops (\<lambda>i c.
       bind_r (if Suc m \<le> 2 then Inr data else extract_data_block data (cs * m) (Suc m) (i + 1))
         (\<lambda>chunk. device_write_block klass c (cs * m div m) chunk)) (all_children self) =
     Inr (map (\<lambda>i. (i, k_write_block klass (the (r_children self ! i)) cs (child_chunk data cs m i)))
       [0 ..< Suc m])"
proof -
  let ?f = "\<lambda>i c. bind_r (if Suc m \<le> 2 then Inr data else extract_data_block data (cs * m) (Suc m) (i + 1))
         (\<lambda>chunk. device_write_block klass c (cs * m div m) chunk)"
  have one: "\<exists>d. c = Some d \<and> ?f i d = Inr (k_write_block klass d cs (child_chunk data cs m i))"
    if ic: "(i, c) \<in> set (all_children self)" for i c
  proof -
    from ic m(1) have i: "i \<le> m" "c = r_children self ! i"
      by (auto simp: all_children_upt simp del: upt_Suc)
    from kids [OF i(1)] i(2) obtain d where d: "c = Some d" "writable_child cs d" by auto
    have "(if Suc m \<le> 2 then Inr data else extract_data_block data (cs * m) (Suc m) (i + 1)) =
        (Inr (child_chunk data cs m i) :: fault + byte list)"
      using extract_child_chunk [OF data m(3,2) i(1)] child_chunk_small [of m i data cs] i(1) data m(2)
      by (cases "m = 1") auto
    with d m write_writable [OF d(2) m(3)] show ?thesis by simp
  qed
  have "do_rait_child_ops ?f (all_children self) = Inr (map (\<lambda>(i, c). (i, k_write_block klass (the c) cs
      (child_chunk data cs m i))) (all_children self))"
    by (rule do_rait_child_ops_Inr [where h = "\<lambda>i d. k_write_block klass d cs (child_chunk data cs m i)"])
      (rule one)
  then show ?thesis by (simp add: all_children_upt m(1) o_def del: upt_Suc)
qed

text \<open>C3: writing a block, padded with zeros if it is the short last one, hands every child of a complete
  array exactly its chunk of the block, the last child the parity; the call succeeds when all of them do,
  and otherwise reports an error and the end of the medium.\<close>

theorem rait_write_block_chunks:
  assumes "\<not> device_in_error self" "r_status self = RAIT_STATUS_COMPLETE"
    and "length (r_children self) = Suc m" "0 < m" "0 < cs" "d_block_size self = cs * m"
    and "length data = sz" "sz \<le> cs * m"
    and "\<And>i. i \<le> m \<Longrightarrow> \<exists>c. r_children self ! i = Some c \<and> writable_child cs c"
  shows "\<exists>self' ok. rait_device_write_block klass self sz data = Inr (self', ok) \<and>
    (\<forall>i \<le> m. \<exists>c x c' r. r_children self ! i = Some c \<and>
       extract_data_block (pad_block (cs * m) data) (cs * m) (Suc m) (Suc i) = Inr x \<and>
       k_write_block klass c cs x = (c', r) \<and> r_children self' ! i = Some c' \<and> (ok \<longrightarrow> r)) \<and>
    (ok \<longrightarrow> d_block self' = d_block self + 1 \<and> d_status self' = d_status self) \<and>
    (\<not> ok \<longrightarrow> d_is_eom self' \<and> d_status self' = DEVICE_STATUS_DEVICE_ERROR \<and>
       (\<exists>i \<le> m. \<exists>c x. r_children self ! i = Some c \<and> \<not> snd (k_write_block klass c cs x)))"
proof -
  let ?data = "pad_block (cs * m) data"
  have data: "length ?data = cs * m" using assms(7,8) by (simp add: pad_block_def)
  have same: "\<not> sz < cs * m \<Longrightarrow> ?data = data" "take sz data = data" using assms(7,8) by (simp_all add: pad_block_def)
  define w where "w i = k_write_block klass (the (r_children self ! i)) cs (child_chunk ?data cs m i)" for i
  define ops where "ops = map (\<lambda>i. (i, w i)) [0 ..< Suc m]"
  have run: "do_rait_child_ops (\<lambda>i c.
       bind_r (if Suc m \<le> 2 then Inr ?data else extract_data_block ?data (cs * m) (Suc m) (i + 1))
         (\<lambda>chunk. device_write_block klass c (cs * m div m) chunk)) (all_children self) = Inr ops"
    unfolding ops_def w_def by (rule write_ops [OF assms(3,4,5) data assms(9)])
  have and_ops: "g_ptr_array_and op_result ops \<longleftrightarrow> (\<forall>i \<le> m. snd (w i))"
    unfolding ops_def using g_and_upt [of "Suc m" w] by (simp add: less_Suc_eq_le)
  let ?self = "store_children ops self"
  let ?res = "if g_ptr_array_and op_result ops
     then (?self\<lparr>d_block := d_block ?self + 1, d_bytes_written := d_bytes_written ?self + of_nat (cs * m)\<rparr>, True)
     else ((device_set_error DEVICE_STATUS_DEVICE_ERROR ?self)\<lparr>d_is_eom := True\<rparr>, False)"
  have szs: "sz = cs * m \<or> sz < cs * m" using assms(8) by auto
  have wr: "rait_device_write_block klass self sz data = Inr ?res"
  proof (cases "sz < cs * m")
    case True
    with assms(1-6) run same(2) show ?thesis
      by (simp add: rait_device_write_block_def rait_device_in_error_def Let_def)
  next
    case False
    with szs have "sz = cs * m" by simp
    with assms(1-6) run [unfolded same(1) [OF False]] show ?thesis
      by (simp add: rait_device_write_block_def rait_device_in_error_def Let_def)
  qed
  have kid: "r_children ?self ! i = Some (fst (w i))" if "i \<le> m" for i
    using that store_children_nth [of ops "Suc m" i self] assms(3)
    by (simp add: ops_def o_def op_child_def del: upt_Suc)
  have part: "\<exists>c x. r_children self ! i = Some c \<and> extract_data_block ?data (cs * m) (Suc m) (Suc i) = Inr x \<and>
      k_write_block klass c cs x = w i" if "i \<le> m" for i
    using assms(9) [OF that] extract_child_chunk [OF data assms(5,4) that] by (auto simp: w_def)
  show ?thesis
  proof (cases "g_ptr_array_and op_result ops")
    case True
    then have "\<forall>i \<le> m. snd (w i)" using and_ops by blast
    with True wr kid part show ?thesis
      by (intro exI [of _ "fst ?res"] exI [of _ True]) (force simp: prod_eq_iff)
  next
    case False
    then obtain i where i: "i \<le> m" "\<not> snd (w i)" using and_ops by blast
    with part obtain c x where "r_children self ! i = Some c" "\<not> snd (k_write_block klass c cs x)" by metis
    with i(1) False wr kid part show ?thesis
      by (intro exI [of _ "fst ?res"] exI [of _ False])
        (force simp: prod_eq_iff device_set_error_def)
  qed
qed

text \<open>A short last block of three bytes on three children: the third chunk is the parity of the padded block.\<close>

theorem rait_write_block_chunks_witness:
  "\<exists>self'. rait_device_write_block store_class
       ((store_array ACCESS_WRITE 65536 RAIT_STATUS_COMPLETE (- 1) [[], [], []])) 3 [1, 2, 3] = Inr (self', True) \<and>
     r_children self' ! 0 \<noteq> None"
proof -
  let ?self = "store_array ACCESS_WRITE 65536 RAIT_STATUS_COMPLETE (- 1) [[], [], []]"
  have kids: "\<exists>c. r_children ?self ! i = Some c \<and> writable_child 32768 c" if "i \<le> 2" for i
  proof -
    from that have "i = 0 \<or> i = 1 \<or> i = 2" by auto
    then show ?thesis
      by (auto simp: store_array_def device_init_def writable_child_def is_writable_access_mode_def)
  qed
  have "\<not> device_in_error ?self" "r_status ?self = RAIT_STATUS_COMPLETE" "length (r_children ?self) = Suc 2"
    "d_block_size ?self = 32768 * 2"
    by (simp_all add: store_array_def device_init_def device_in_error_def device_status_defs)
  from rait_write_block_chunks [OF this(1,2,3) _ _ this(4) _ _ kids, of "[1, 2, 3]" 3 store_class]
  obtain self' ok where r: "rait_device_write_block store_class ?self 3 [1, 2, 3] = Inr (self', ok)"
      "\<forall>i\<le>2. \<exists>c x c' r. r_children ?self ! i = Some c \<and> k_write_block store_class c 32768 x = (c', r) \<and>
         r_children self' ! i = Some c'"
      "\<not> ok \<longrightarrow> (\<exists>i \<le> 2. \<exists>c x. r_children ?self ! i = Some c \<and> \<not> snd (k_write_block store_class c 32768 x))"
    by auto (metis+)
  have "snd (k_write_block store_class c n x)" for c n x by (simp add: store_class_def)
  with r(3) have ok by blast
  moreover have "r_children self' ! 0 \<noteq> None" using r(2) by (metis le0 option.distinct(1))
  ultimately show ?thesis using r(1) by auto
qed

section \<open>Ageing\<close>

text \<open>C2: from the moment its children are opened, through any sequence of calls, an array keeps its
  children and its status never improves; a complete array has no failed child, and the failed child of a
  degraded array is one of its children.\<close>

theorem rait_status_only_worse:
  assumes "open_child_devices device_open (rait_device_init garbage cbs) node = Inr (s0, True)"
    and "run_steps (rait_step klass) s0 calls s"
  shows "length (r_children s) = length (r_children s0) \<and> r_status s0 \<le> r_status s \<and>
    (r_status s = RAIT_STATUS_COMPLETE \<longrightarrow> r_failed s = - 1) \<and>
    (r_status s = RAIT_STATUS_DEGRADED \<longrightarrow> 0 \<le> r_failed s \<and> r_failed s < int (length (r_children s)))"
  using array.inv_reachable [OF refl assms(2)] open_child_devices_inv [OF assms(1)]
  by (auto simp: worse_def rait_inv_def)

theorem rait_status_only_worse_witness:
  "\<exists>s0. open_child_devices (\<lambda>n. Some (device_init False [] :: byte list list device_scheme))
       (rait_device_init False 0) ''{a,ERROR}'' = Inr (s0, True) \<and>
     r_status s0 = RAIT_STATUS_DEGRADED \<and> r_failed s0 < int (length (r_children s0))"
proof -
  let ?open = "\<lambda>n :: string. Some (device_init False [] :: byte list list device_scheme)"
  have names: "expand_braced_alternates ''{a,ERROR}'' = Inr (Some [''a'', ''ERROR''])"
    by code_simp
  obtain s0 where s0: "open_child_devices ?open (rait_device_init False 0) ''{a,ERROR}'' = Inr (s0, True)"
      "r_status s0 = RAIT_STATUS_DEGRADED"
    by (simp add: open_child_devices_def names device_open_do_op_def rait_device_init_def device_init_def
        device_status_defs)
  have "run_steps (rait_step store_class) s0 [] s0" by simp
  from rait_status_only_worse [OF s0(1) this] s0 show ?thesis by simp
qed

section \<open>The second failure\<close>

lemma union_robust_degraded:
  assumes "r_status self \<noteq> RAIT_STATUS_COMPLETE" "op \<in> set ops" "\<not> ext op"
  shows "\<exists>f. g_ptr_array_union_robust ext ops self =
    (self\<lparr>r_failed := f, r_status := RAIT_STATUS_FAILED\<rparr>, False)"
proof -
  obtain k where "k < length ops" "ops ! k = op" using assms(2) by (auto simp: in_set_conv_nth)
  then have "(k, op) \<in> set (filter (\<lambda>(k, op). \<not> ext op) (enumerate 0 ops))"
    using assms(3) by (auto simp: in_set_enumerate_eq)
  then have "filter (\<lambda>(k, op). \<not> ext op) (enumerate 0 ops) \<noteq> []" by (metis list.set(1) empty_iff)
  then show ?thesis
    using assms(1) by (auto simp: g_ptr_array_union_robust_def Let_def split: prod.split)
qed

text \<open>When another child of a degraded array fails during a read, the read fails, the array fails
  for good, and no later read asks a child for anything.\<close>

theorem rait_second_failure_is_final:
  assumes "rait_serving self" "r_status self = RAIT_STATUS_DEGRADED"
    and "length (r_children self) = Suc m" "0 < m" "d_block_size self = cs * m" "cs * m \<le> length buf"
    and "\<And>i. i \<in> set (live_indices self) \<Longrightarrow>
      \<exists>c. r_children self ! i = Some c \<and> d_access_mode c = ACCESS_READ"
    and "i \<in> set (live_indices self)" "gives_block klass cs x (the (r_children self ! i))"
    and "j \<in> set (live_indices self)" "fails_block klass cs (the (r_children self ! j))"
  shows "\<exists>self'. rait_device_read_block klass self buf = Inr (self', - 1, length buf, buf) \<and>
    r_status self' = RAIT_STATUS_FAILED \<and> d_status self' = DEVICE_STATUS_DEVICE_ERROR \<and>
    (\<forall>klass' buf'. rait_device_read_block klass' self' buf' = Inr (self', - 1, length buf', buf'))"
proof -
  define ops where "ops = map (\<lambda>i. read_op klass cs i (the (r_children self ! i))) (live_indices self)"
  have run: "do_rait_child_ops (\<lambda>i c. read_block_do_op klass cs c) (live_children self) = Inr ops"
    unfolding live_children_indices ops_def using assms(7) by (rule read_ops_run)
  have "read_op klass cs i (the (r_children self ! i)) \<in> set (filter (read_ok cs) ops)"
    using assms(8) read_op_gives [OF assms(9), of i] by (auto simp: ops_def)
  then have count: "g_ptr_array_count (read_ok cs) ops \<noteq> 0"
    unfolding g_ptr_array_count_def by (simp only: length_0_conv) (rule notI, simp only: list.set empty_iff)
  have bad: "read_op klass cs j (the (r_children self ! j)) \<in> set ops"
    "\<not> read_ok cs (read_op klass cs j (the (r_children self ! j)))"
    using assms(10) read_op_fails [OF assms(11), of j] by (auto simp: ops_def)
  have "r_status (store_children ops self) \<noteq> RAIT_STATUS_COMPLETE" using assms(2) by simp
  from union_robust_degraded [OF this bad(1), of "read_ok cs", OF bad(2)] obtain f where u: "g_ptr_array_union_robust (read_ok cs) ops (store_children ops self) =
      ((store_children ops self)\<lparr>r_failed := f, r_status := RAIT_STATUS_FAILED\<rparr>, False)"
    by blast
  have "rait_device_read_block klass self buf = Inr (device_set_error DEVICE_STATUS_DEVICE_ERROR
      ((store_children ops self)\<lparr>r_failed := f, r_status := RAIT_STATUS_FAILED\<rparr>), - 1, length buf, buf)"
    using serving_no_error [OF assms(1)] assms(4,6) run count u
    by (simp add: rait_device_read_block_def simple_params [OF assms(3,4)] assms(5) Let_def)
  then show ?thesis
    by (simp add: rait_device_read_block_def rait_device_in_error_def device_in_error_def device_set_error_def)
qed

theorem rait_second_failure_is_final_witness:
  "\<exists>self'. rait_device_read_block store_class
       (store_array ACCESS_READ 4 RAIT_STATUS_DEGRADED 1 [[[1, 2]], [], []]) [0, 0, 0, 0] =
       Inr (self', - 1, 4, [0, 0, 0, 0]) \<and> r_status self' = RAIT_STATUS_FAILED"
proof -
  let ?self = "store_array ACCESS_READ 4 RAIT_STATUS_DEGRADED 1 [[[1, 2]], [], []]"
  have live: "live_indices ?self = [0, 2]" by (simp add: live_indices_def store_array_simps upt_rec)
  have "rait_serving ?self" "length (r_children ?self) = Suc 2"
    "gives_block store_class 2 [1, 2] (the (r_children ?self ! 0))"
    "fails_block store_class 2 (the (r_children ?self ! 2))"
    "\<And>i. i \<in> set (live_indices ?self) \<Longrightarrow> \<exists>c. r_children ?self ! i = Some c \<and> d_access_mode c = ACCESS_READ"
    unfolding live
    by (auto simp: store_array_simps rait_serving_def device_in_error_def device_status_defs
        gives_block_def fails_block_def)
  with rait_second_failure_is_final [of ?self 2 2 "[0, 0, 0, 0]" 0 store_class "[1, 2]" 2] live show ?thesis
    by (auto simp: store_array_simps)
qed

section \<open>Degraded arrays\<close>

text \<open>Nothing is written to an array that is not complete: starting it for writing or appending fails
  with a device error, and starting a file, writing a block and finishing a file fail, without a call to
  any child.\<close>

theorem rait_degraded_refuses_writes:
  assumes "r_status self \<noteq> RAIT_STATUS_COMPLETE" "\<not> rait_device_in_error self"
  shows "rait_device_start klass self ACCESS_WRITE label timestamp =
      Inr (device_set_error DEVICE_STATUS_DEVICE_ERROR self, False) \<and>
    rait_device_start klass self ACCESS_APPEND label timestamp =
      Inr (device_set_error DEVICE_STATUS_DEVICE_ERROR self, False) \<and>
    rait_device_start_file klass self info = Inr (self, False) \<and>
    rait_device_write_block klass self sz data = Inr (self, False) \<and>
    rait_device_finish_file klass self = Inr (self, False)"
  using assms
  by (simp add: rait_device_start_def rait_device_start_file_def rait_device_write_block_def
      rait_device_finish_file_def)

theorem rait_degraded_refuses_writes_witness:
  "rait_device_write_block store_class (store_array ACCESS_WRITE 4 RAIT_STATUS_DEGRADED 1 [[], [], []]) 4 [1, 2, 3, 4] =
     Inr (store_array ACCESS_WRITE 4 RAIT_STATUS_DEGRADED 1 [[], [], []], False)"
  using rait_degraded_refuses_writes
    [of "store_array ACCESS_WRITE 4 RAIT_STATUS_DEGRADED 1 [[], [], []]" store_class None None fh_init 4 "[1, 2, 3, 4]"]
  by (simp add: store_array_simps rait_device_in_error_def device_in_error_def device_status_defs)

text \<open>Recycling a file on an array opened with a missing child fails an assertion: the failed child, a
  NULL pointer, is not left out.\<close>

theorem rait_recycle_degraded_asserts:
  assumes "\<not> rait_device_in_error self" "k < length (r_children self)" "r_children self ! k = None"
    and "\<And>i. i < k \<Longrightarrow> \<exists>c. r_children self ! i = Some c \<and> d_access_mode c = ACCESS_APPEND \<and> \<not> d_in_file c"
  shows "rait_device_recycle_file klass self file = Inl Assertion_failed"
proof -
  have stop: "collect_r (map f xs @ Inl e # ys) = Inl e" if "\<And>x. x \<in> set xs \<Longrightarrow> \<exists>y. f x = Inr y"
    for f :: "'x \<Rightarrow> fault + 'y" and xs e ys
    using that
  proof (induction xs)
    case (Cons x xs)
    then obtain y where "f x = Inr y" by auto
    with Cons show ?case by simp
  qed simp
  let ?f = "run_op (\<lambda>i c. device_recycle_file klass c file) \<circ> (\<lambda>i. (i, r_children self ! i))"
  have "[0 ..< length (r_children self)] = [0 ..< k] @ k # [Suc k ..< length (r_children self)]"
    using assms(2) upt_add_eq_append [of 0 k "length (r_children self) - k"] by (simp add: upt_conv_Cons)
  then have "do_rait_child_ops (\<lambda>i c. device_recycle_file klass c file) (all_children self) =
      collect_r (map ?f [0 ..< k] @ Inl Assertion_failed # map ?f [Suc k ..< length (r_children self)])"
    by (simp add: do_rait_child_ops_def all_children_upt run_op_def [of _ "(k, _)"] assms(3) del: upt_Suc)
  also have "\<dots> = Inl Assertion_failed"
  proof (rule stop)
    fix i assume "i \<in> set [0 ..< k]"
    with assms(4) [of i] show "\<exists>y. ?f i = Inr y"
      by (auto simp: run_op_def device_recycle_file_def)
  qed
  finally show ?thesis using assms(1) by (simp add: rait_device_recycle_file_def)
qed

theorem rait_recycle_degraded_asserts_witness:
  "rait_device_recycle_file store_class (new_array [None, Some (sized_store 1 9)]) 1 = Inl Assertion_failed"
  by (rule rait_recycle_degraded_asserts [where k = 0])
    (simp_all add: new_array_simps rait_device_in_error_def device_in_error_def device_status_defs)

text \<open>Reading the label of an array none of whose children reports a block size returns the success
  code, although the device is left in error and no label has been read: the failure is returned as the
  boolean false, which is the code for success.\<close>

theorem rait_read_label_failure_reads_as_success:
  assumes "\<not> rait_device_in_error self" "d_block_size_source self = PROPERTY_SOURCE_DEFAULT"
    and "\<And>i. i \<in> set (live_indices self) \<Longrightarrow>
      \<exists>c. r_children self ! i = Some c \<and> snd (child_block_range klass c) = None"
  shows "\<exists>self'. rait_device_read_label klass self = Inr (self', DEVICE_STATUS_SUCCESS) \<and>
    d_status self' = DEVICE_STATUS_DEVICE_ERROR \<and> d_volume_label self' = None"
proof -
  let ?self = "self\<lparr>d_volume_time := None, d_volume_label := None, d_volume_header := None\<rparr>"
  have li: "live_indices ?self = live_indices self" by (simp add: live_indices_def)
  have kids: "\<And>i. i \<in> set (live_indices ?self) \<Longrightarrow> r_children ?self ! i \<noteq> None"
    using assms(3) unfolding li by force
  have "reported_ranges klass ?self = []"
    unfolding reported_ranges_def live_children_indices li
    using assms(3) by (force simp: List.map_filter_def filter_empty_conv)
  with calculate_ops [OF kids, of klass] obtain ops where
    ops: "do_rait_child_ops (\<lambda>i c. Inr (child_block_range klass c)) (live_children ?self) = Inr ops"
      "block_ranges ops = []"
    using block_ranges_map [of "\<lambda>i c. child_block_range klass c" "live_children ?self"]
    unfolding reported_ranges_def by auto
  then have calc: "calculate_block_size_from_children klass ?self =
      Inr (device_set_error DEVICE_STATUS_DEVICE_ERROR (store_children ops ?self), 0, 0)"
    by (simp add: calculate_block_size_from_children_def)
  have err: "\<not> rait_device_in_error ?self"
    using assms(1) by (simp add: rait_device_in_error_def device_in_error_def)
  have "fix_block_size klass ?self =
      Inr (device_set_error DEVICE_STATUS_DEVICE_ERROR (store_children ops ?self), False)"
    using assms(2) calc by (simp add: fix_block_size_def)
  with err show ?thesis
    by (simp add: rait_device_read_label_def Let_def device_set_error_def store_children_def DEVICE_STATUS_SUCCESS_def)
qed

theorem rait_read_label_failure_reads_as_success_witness:
  "\<exists>self'. rait_device_read_label store_class (new_array [Some (sized_store 0 0), Some (sized_store 0 0)]) =
     Inr (self', DEVICE_STATUS_SUCCESS) \<and> d_status self' = DEVICE_STATUS_DEVICE_ERROR"
proof -
  let ?a = "new_array [Some (sized_store 0 0), Some (sized_store 0 0)]"
  have zero: "snd (child_block_range store_class (sized_store 0 0)) = None"
    by (simp add: child_block_range_def store_class_def sized_store_def device_init_def g_value_get_uint_def)
  have "set (live_indices ?a) = {0, 1}" by (auto simp: live_indices_def new_array_simps)
  with zero have "\<And>i. i \<in> set (live_indices ?a) \<Longrightarrow>
      \<exists>c. r_children ?a ! i = Some c \<and> snd (child_block_range store_class c) = None"
    by (auto simp: new_array_def open_from_children_def rait_device_init_def device_init_def)
  with rait_read_label_failure_reads_as_success [of ?a store_class] show ?thesis
    by (auto simp: new_array_simps rait_device_in_error_def device_in_error_def device_status_defs)
qed

end
