(* ===== verification/Amar_Write.thy ===== *)
theory Amar_Write
  imports Amanda_Prelude
begin

unbundle bit_operations_syntax

text \<open>
  The Amanda archive format, writing side (\<open>amar-src/amar.c\<close>): an archive is a header and a sequence of
  records, each an 8 byte record header (file number, attribute, size and end-of-attribute bit, in network
  order) and data. The writer collects records in a buffer and hands the descriptor the buffer, or the
  buffer and the caller's data.

  The file descriptor is a parameter: \<open>wr\<close> writes bytes and says whether it succeeded, as
  \<open>full_write\<close> and \<open>full_writev\<close> do.
\<close>

section \<open>Records\<close>

fun be_bytes :: "nat \<Rightarrow> nat \<Rightarrow> byte list" where
  \<comment> \<open>\<open>k\<close> bytes in network order\<close>
  "be_bytes 0 n = []"
| "be_bytes (Suc k) n = be_bytes k (n div 256) @ [of_nat n]"

definition be_value :: "byte list \<Rightarrow> nat" where
  "be_value bs = foldl (\<lambda>a b. a * 256 + unat b) 0 bs"

definition MAGIC_FILENUM :: "16 word" where "MAGIC_FILENUM = 0x414d"
definition EOA_BIT :: "32 word" where "EOA_BIT = 0x80000000"
definition RECORD_SIZE :: nat where "RECORD_SIZE = 8"
definition HEADER_SIZE :: nat where "HEADER_SIZE = 28"
definition HEADER_VERSION :: nat where "HEADER_VERSION = 1"
definition MAX_RECORD_DATA_SIZE :: nat where "MAX_RECORD_DATA_SIZE = 4 * 1024 * 1024"
definition WRITE_BUFFER_SIZE :: nat where "WRITE_BUFFER_SIZE = 512 * 1024"

definition AMAR_ATTR_FILENAME :: "16 word" where "AMAR_ATTR_FILENAME = 0"
definition AMAR_ATTR_EOF :: "16 word" where "AMAR_ATTR_EOF = 1"
definition AMAR_ATTR_APP_START :: "16 word" where "AMAR_ATTR_APP_START = 16"

definition MKRECORD :: "16 word \<Rightarrow> 16 word \<Rightarrow> nat \<Rightarrow> bool \<Rightarrow> byte list" where
  "MKRECORD f a s eoa =
     (let size = (of_nat s :: 32 word); size = (if eoa then size OR EOA_BIT else size) in
      be_bytes 2 (unat f) @ be_bytes 2 (unat a) @ be_bytes 4 (unat size))"

definition GETRECORD :: "byte list \<Rightarrow> 16 word \<times> 16 word \<times> nat \<times> bool" where
  "GETRECORD p =
     (let s = (of_nat (be_value (take 4 (drop 4 p))) :: 32 word);
          eoa = (s AND EOA_BIT \<noteq> 0);
          s = (if eoa then s AND NOT EOA_BIT else s) in
      (of_nat (be_value (take 2 p)), of_nat (be_value (take 2 (drop 2 p))), unat s, eoa))"

lemma length_be_bytes [simp]: "length (be_bytes k n) = k"
  by (induction k arbitrary: n) auto

lemma be_bytes_2: "be_bytes 2 n = [of_nat (n div 256), of_nat n]"
  by (simp add: numeral_2_eq_2)

lemma be_value_bytes: "be_value (be_bytes k n) = n mod 256 ^ k"
proof (induction k arbitrary: n)
  case (Suc k)
  have "n mod 256 ^ Suc k = n div 256 mod 256 ^ k * 256 + n mod 256"
    by (simp add: mod_mult2_eq mult.commute)
  with Suc show ?case by (simp add: be_value_def unat_of_nat)
qed (simp add: be_value_def)

lemma length_MKRECORD [simp]: "length (MKRECORD f a s eoa) = RECORD_SIZE"
  by (simp add: MKRECORD_def RECORD_SIZE_def Let_def)

lemma bit_31_small: "n < 2 ^ 31 \<Longrightarrow> \<not> bit (of_nat n :: 32 word) 31"
  by (simp add: bit_of_nat_iff bit_nat_def)

lemma EOA_BIT_alt: "EOA_BIT = push_bit 31 1"
  by (simp add: EOA_BIT_def)

lemma EOA_OR:
  assumes "\<not> bit (s :: 32 word) 31"
  shows "(s OR EOA_BIT) AND EOA_BIT \<noteq> 0" "(s OR EOA_BIT) AND NOT EOA_BIT = s" "s AND EOA_BIT = 0"
proof -
  have b: "bit EOA_BIT n \<longleftrightarrow> n = 31" for n
    unfolding EOA_BIT_alt bit_push_bit_iff bit_1_iff by (auto simp: possible_bit_def)
  have "bit ((s OR EOA_BIT) AND EOA_BIT) 31" by (simp add: bit_simps b)
  then show "(s OR EOA_BIT) AND EOA_BIT \<noteq> 0" by (metis bit_0_eq bot_apply bot_bool_def)
  show "(s OR EOA_BIT) AND NOT EOA_BIT = s" "s AND EOA_BIT = 0"
    by (rule bit_word_eqI; use assms b in \<open>auto simp: bit_simps\<close>)+
qed

text \<open>A record header that is written can be read back, whatever follows it.\<close>

lemma GETRECORD_MKRECORD:
  assumes "s < 2 ^ 31"
  shows "GETRECORD (MKRECORD f a s eoa @ rest) = (f, a, s, eoa)"
proof -
  have v: "be_value (be_bytes 2 (unat f)) = unat f" "be_value (be_bytes 2 (unat a)) = unat a"
      "be_value (be_bytes 4 (unat w)) = unat w" for w :: "32 word"
    using unat_below [of f] unat_below [of a] unat_below [of w] by (simp_all add: be_value_bytes)
  let ?s = "of_nat s :: 32 word"
  have s: "unat ?s = s" using assms by (simp add: unat_of_nat)
  note e = EOA_OR [OF bit_31_small [OF assms]]
  let ?w = "if eoa then ?s OR EOA_BIT else ?s"
  have "GETRECORD (MKRECORD f a s eoa @ rest) =
      (let eoa' = (?w AND EOA_BIT \<noteq> 0); s = (if eoa' then ?w AND NOT EOA_BIT else ?w) in
      (f, a, unat s, eoa'))"
    unfolding GETRECORD_def MKRECORD_def Let_def by (simp add: v del: be_bytes.simps)
  also have "\<dots> = (f, a, s, eoa)" using e s by (cases eoa) (simp_all add: Let_def)
  finally show ?thesis .
qed

section \<open>The archive\<close>

text \<open>
  A file being written is an object of its own; the table of open files maps a file number to one.
  The attributes of a file are kept in the order in which the hash table enumerates them; whether the end
  of the attribute has been written goes with each.
\<close>

record amar_file =
  af_filenum :: "16 word"
  af_attributes :: "(16 word \<times> bool) list"

record 'fd archive =
  a_fd :: 'fd
  a_writing :: bool
  a_maxfilenum :: "16 word"
  a_position :: nat
  a_files :: "(16 word \<times> nat) list"
  a_objects :: "nat \<Rightarrow> amar_file option"
  a_next :: nat
  a_buf :: "byte list"

type_synonym 'fd writer = "'fd \<Rightarrow> byte list \<Rightarrow> 'fd \<times> bool"

definition archive_header :: "byte list" where
  "archive_header =
     (let magic = map of_char ''AMANDA ARCHIVE FORMAT 1'' in
      magic @ replicate (HEADER_SIZE - length magic) 0)"

definition flush_buffer :: "'fd writer \<Rightarrow> 'fd archive \<Rightarrow> 'fd archive \<times> bool" where
  "flush_buffer wr a =
     (if a_buf a \<noteq> [] then
        (case wr (a_fd a) (a_buf a) of
           (fd, ok) \<Rightarrow> if ok then (a\<lparr>a_fd := fd, a_buf := []\<rparr>, True) else (a\<lparr>a_fd := fd\<rparr>, False))
      else (a, True))"

definition put_bytes :: "byte list \<Rightarrow> 'fd archive \<Rightarrow> fault + 'fd archive" where
  \<comment> \<open>a copy to the end of the buffer\<close>
  "put_bytes bs a =
     (if length (a_buf a) + length bs > WRITE_BUFFER_SIZE then Inl Out_of_bounds
      else Inr (a\<lparr>a_buf := a_buf a @ bs\<rparr>))"

definition write_header :: "'fd writer \<Rightarrow> 'fd archive \<Rightarrow> fault + 'fd archive \<times> bool" where
  "write_header wr a =
     (let (a, ok) = (if length (a_buf a) + HEADER_SIZE \<ge> WRITE_BUFFER_SIZE - RECORD_SIZE
                     then flush_buffer wr a else (a, True)) in
      if \<not> ok then Inr (a, False)
      else map_r (\<lambda>a. (a\<lparr>a_position := a_position a + HEADER_SIZE\<rparr>, True)) (put_bytes archive_header a))"

definition write_record ::
  "'fd writer \<Rightarrow> 'fd archive \<Rightarrow> 16 word \<Rightarrow> 16 word \<Rightarrow> bool \<Rightarrow> byte list \<Rightarrow> fault + 'fd archive \<times> bool" where
  "write_record wr a filenum attrid eoa data =
     (let data_size = length data;
          done = (\<lambda>a. a\<lparr>a_position := a_position a + (data_size + RECORD_SIZE)\<rparr>) in
      bind_r (put_bytes (MKRECORD filenum attrid data_size eoa) a) (\<lambda>a.
        if length (a_buf a) + RECORD_SIZE + data_size < WRITE_BUFFER_SIZE - RECORD_SIZE then
          map_r (\<lambda>a. (done a, True)) (put_bytes data a)
        else
          (case wr (a_fd a) (a_buf a @ data) of
             (fd, ok) \<Rightarrow>
               if \<not> ok then Inr (a\<lparr>a_fd := fd\<rparr>, False)
               else Inr (done (a\<lparr>a_fd := fd, a_buf := []\<rparr>), True))))"

section \<open>Opening and closing\<close>

definition amar_new :: "'fd writer \<Rightarrow> 'fd \<Rightarrow> bool \<Rightarrow> fault + 'fd archive \<times> bool" where
  "amar_new wr fd writing =
     (let a = \<lparr>a_fd = fd, a_writing = writing, a_maxfilenum = 0, a_position = 0, a_files = [],
               a_objects = (\<lambda>_. None), a_next = 0, a_buf = []\<rparr> in
      if writing then write_header wr a else Inr (a, True))"

definition amar_close :: "'fd writer \<Rightarrow> 'fd archive \<Rightarrow> fault + 'fd archive \<times> bool" where
  "amar_close wr a =
     (if a_files a \<noteq> [] then Inl Assertion_failed
      else if a_writing a then Inr (flush_buffer wr a) else Inr (a, True))"

section \<open>Files\<close>

definition insert_file :: "16 word \<Rightarrow> nat \<Rightarrow> (16 word \<times> nat) list \<Rightarrow> (16 word \<times> nat) list" where
  \<comment> \<open>\<open>g_hash_table_insert\<close>: an entry with the same key is replaced\<close>
  "insert_file n f files = (n, f) # filter (\<lambda>(m, _). m \<noteq> n) files"

definition remove_file :: "16 word \<Rightarrow> (16 word \<times> nat) list \<Rightarrow> (16 word \<times> nat) list" where
  "remove_file n files = filter (\<lambda>(m, _). m \<noteq> n) files"

text \<open>
  The search for an unused file number is a \<open>do ... while (0)\<close> loop in which \<open>continue\<close> is meant to
  try the next number; it goes to the loop condition instead, which ends the loop.
\<close>

definition pick_filenum :: "'fd archive \<Rightarrow> 16 word" where
  "pick_filenum a =
     (let maxfilenum = a_maxfilenum a + 1 in
      if maxfilenum = MAGIC_FILENUM then maxfilenum
      else if map_of (a_files a) maxfilenum \<noteq> None then maxfilenum
      else maxfilenum)"

text \<open>
  \<open>amar_new_file\<close> with the bytes at \<open>filename_buf\<close>; \<open>want_offset\<close> says whether \<open>header_offset\<close> is given.
  The result is the file object and the offset, or nothing.
\<close>

definition amar_new_file ::
  "'fd writer \<Rightarrow> 'fd archive \<Rightarrow> byte list \<Rightarrow> nat \<Rightarrow> bool \<Rightarrow> fault + 'fd archive \<times> (nat \<times> nat option) option" where
  "amar_new_file wr a filename_buf filename_len want_offset =
     (let filename_len = (if filename_len = 0 then length (takeWhile (\<lambda>b. b \<noteq> 0) filename_buf) else filename_len) in
      if \<not> a_writing a \<or> filename_len = 0 then Inl Assertion_failed
      else if filename_len > MAX_RECORD_DATA_SIZE then Inr (a, None)
      else if length (a_files a) = 65535 then Inr (a, None)
      else
        let filenum = pick_filenum a; file = a_next a;
            a = a\<lparr>a_maxfilenum := filenum, a_next := file + 1,
                  a_objects := (a_objects a)(file \<mapsto> \<lparr>af_filenum = filenum, af_attributes = []\<rparr>),
                  a_files := insert_file filenum file (a_files a)\<rparr>;
            header_offset = (if want_offset then Some (a_position a) else None);
            error_exit = (\<lambda>a. (a\<lparr>a_files := remove_file filenum (a_files a),
                                a_objects := (a_objects a)(file := None)\<rparr>, None)) in
        bind_r (if want_offset then write_header wr a else Inr (a, True)) (\<lambda>(a, ok).
          if \<not> ok then Inr (error_exit a)
          else bind_r (write_record wr a filenum AMAR_ATTR_FILENAME True (take filename_len filename_buf)) (\<lambda>(a, ok).
            if \<not> ok then Inr (error_exit a) else Inr (a, Some (file, header_offset)))))"

definition set_attribute :: "16 word \<Rightarrow> bool \<Rightarrow> amar_file \<Rightarrow> amar_file" where
  "set_attribute attrid eoa f =
     f\<lparr>af_attributes := map (\<lambda>(i, e). if i = attrid then (i, eoa) else (i, e)) (af_attributes f)\<rparr>"

definition with_attr :: "'fd archive \<Rightarrow> nat \<Rightarrow> 16 word \<Rightarrow> (amar_file \<Rightarrow> bool \<Rightarrow> fault + 'r) \<Rightarrow> fault + 'r" where
  \<comment> \<open>the attribute object behind an \<open>amar_attr_t\<close> pointer\<close>
  "with_attr a file attrid k =
     (case a_objects a file of
        None \<Rightarrow> Inl Out_of_bounds
      | Some f \<Rightarrow> (case map_of (af_attributes f) attrid of None \<Rightarrow> Inl Out_of_bounds | Some eoa \<Rightarrow> k f eoa))"

definition amar_new_attr :: "'fd archive \<Rightarrow> nat \<Rightarrow> 16 word \<Rightarrow> fault + 'fd archive" where
  "amar_new_attr a file attrid =
     (case a_objects a file of
        None \<Rightarrow> Inl Out_of_bounds
      | Some f \<Rightarrow>
          if attrid < AMAR_ATTR_APP_START \<or> map_of (af_attributes f) attrid \<noteq> None then Inl Assertion_failed
          else Inr (a\<lparr>a_objects := (a_objects a)(file \<mapsto>
                  f\<lparr>af_attributes := af_attributes f @ [(attrid, False)]\<rparr>)\<rparr>))"

definition amar_attr_close ::
  "'fd writer \<Rightarrow> 'fd archive \<Rightarrow> nat \<Rightarrow> 16 word \<Rightarrow> fault + 'fd archive \<times> bool" where
  "amar_attr_close wr a file attrid =
     with_attr a file attrid (\<lambda>f wrote_eoa.
       if wrote_eoa then Inr (a, True)
       else map_r (\<lambda>(a, rv). (a\<lparr>a_objects := (a_objects a)(file \<mapsto> set_attribute attrid True f)\<rparr>, rv))
              (write_record wr a (af_filenum f) attrid True []))"

text \<open>Every attribute that has not ended is closed, until one fails.\<close>

fun close_attributes ::
  "'fd writer \<Rightarrow> 'fd archive \<Rightarrow> nat \<Rightarrow> (16 word \<times> bool) list \<Rightarrow> fault + 'fd archive \<times> bool" where
  "close_attributes wr a file [] = Inr (a, True)"
| "close_attributes wr a file ((attrid, wrote_eoa) # rest) =
     (if wrote_eoa then close_attributes wr a file rest
      else bind_r (amar_attr_close wr a file attrid) (\<lambda>(a, ok).
        if ok then close_attributes wr a file rest else Inr (a, False)))"

definition amar_file_close :: "'fd writer \<Rightarrow> 'fd archive \<Rightarrow> nat \<Rightarrow> fault + 'fd archive \<times> bool" where
  "amar_file_close wr a file =
     (case a_objects a file of
        None \<Rightarrow> Inl Out_of_bounds
      | Some f \<Rightarrow>
          bind_r (close_attributes wr a file (af_attributes f)) (\<lambda>(a, success).
          bind_r (if success then write_record wr a (af_filenum f) AMAR_ATTR_EOF True [] else Inr (a, False))
            (\<lambda>(a, success).
              Inr (a\<lparr>a_files := remove_file (af_filenum f) (a_files a),
                     a_objects := (a_objects a)(file := None)\<rparr>, success))))"

section \<open>Data\<close>

text \<open>Records of at most \<open>MAX_RECORD_DATA_SIZE\<close> bytes, the last one with the end-of-attribute bit.\<close>

function add_data_records ::
  "'fd writer \<Rightarrow> 'fd archive \<Rightarrow> 16 word \<Rightarrow> 16 word \<Rightarrow> byte list \<Rightarrow> bool \<Rightarrow> fault + 'fd archive \<times> bool" where
  "add_data_records wr a filenum attrid data eoa =
     (if data = [] then Inr (a, True)
      else
        let rec_data_size = (if length data > MAX_RECORD_DATA_SIZE then MAX_RECORD_DATA_SIZE else length data);
            rec_eoa = (\<not> length data > MAX_RECORD_DATA_SIZE \<and> eoa) in
        bind_r (write_record wr a filenum attrid rec_eoa (take rec_data_size data)) (\<lambda>(a, ok).
          if ok then add_data_records wr a filenum attrid (drop rec_data_size data) eoa else Inr (a, False)))"
  by pat_completeness auto
termination
  by (relation "measure (\<lambda>(wr, a, n, i, data, eoa). length data)") (auto simp: MAX_RECORD_DATA_SIZE_def)

declare add_data_records.simps [simp del]

definition amar_attr_add_data_buffer ::
  "'fd writer \<Rightarrow> 'fd archive \<Rightarrow> nat \<Rightarrow> 16 word \<Rightarrow> byte list \<Rightarrow> bool \<Rightarrow> fault + 'fd archive \<times> bool" where
  "amar_attr_add_data_buffer wr a file attrid data eoa =
     with_attr a file attrid (\<lambda>f wrote_eoa.
       if wrote_eoa then Inl Assertion_failed
       else map_r (\<lambda>(a, ok).
           (if ok \<and> eoa then a\<lparr>a_objects := (a_objects a)(file \<mapsto> set_attribute attrid True f)\<rparr> else a, ok))
         (add_data_records wr a (af_filenum f) attrid data eoa))"

text \<open>
  The same from a descriptor: \<open>input\<close> is what can still be read from it and \<open>err\<close> says that it ends in a
  read error. The result is the archive, whether a record could not be written, and the bytes copied.
\<close>

function add_fd_records ::
  "'fd writer \<Rightarrow> 'fd archive \<Rightarrow> 16 word \<Rightarrow> 16 word \<Rightarrow> byte list \<Rightarrow> bool \<Rightarrow> nat \<Rightarrow>
   fault + 'fd archive \<times> bool \<times> nat" where
  "add_fd_records wr a filenum attrid input eoa filesize =
     (let buf = take MAX_RECORD_DATA_SIZE input; size = length buf in
      if size = 0 then Inr (a, True, filesize)
      else
        let short_read = (size < MAX_RECORD_DATA_SIZE) in
        bind_r (write_record wr a filenum attrid (eoa \<and> short_read) buf) (\<lambda>(a, ok).
          if \<not> ok then Inr (a, False, filesize)
          else if short_read then Inr (a, True, filesize + size)
          else add_fd_records wr a filenum attrid (drop MAX_RECORD_DATA_SIZE input) eoa (filesize + size)))"
  by pat_completeness auto
termination
  by (relation "measure (\<lambda>(wr, a, n, i, input, eoa, sz). length input)")
    (auto simp: MAX_RECORD_DATA_SIZE_def)

declare add_fd_records.simps [simp del]

definition amar_attr_add_data_fd ::
  "'fd writer \<Rightarrow> 'fd archive \<Rightarrow> nat \<Rightarrow> 16 word \<Rightarrow> byte list \<Rightarrow> bool \<Rightarrow> bool \<Rightarrow> fault + 'fd archive \<times> int" where
  "amar_attr_add_data_fd wr a file attrid input err eoa =
     with_attr a file attrid (\<lambda>f wrote_eoa.
       if wrote_eoa then Inl Assertion_failed
       else map_r (\<lambda>(a, ok, size).
           let filesize = (if ok \<and> \<not> err then int size else - 1) in
           (if filesize \<noteq> - 1 then a\<lparr>a_objects := (a_objects a)(file \<mapsto> set_attribute attrid eoa f)\<rparr> else a, filesize))
         (add_fd_records wr a (af_filenum f) attrid input eoa 0))"

section \<open>What is written\<close>

text \<open>A descriptor that takes everything it is given, and the bytes of the archive so far.\<close>

definition mem_write :: "byte list writer" where
  "mem_write fd bs = (fd @ bs, True)"

definition stream :: "byte list archive \<Rightarrow> byte list" where
  "stream a = a_fd a @ a_buf a"

definition buf_room :: "'fd archive \<Rightarrow> bool" where
  \<comment> \<open>there is room for a record header\<close>
  "buf_room a \<longleftrightarrow> length (a_buf a) < WRITE_BUFFER_SIZE - RECORD_SIZE"

lemmas buffer_sizes = WRITE_BUFFER_SIZE_def RECORD_SIZE_def HEADER_SIZE_def

definition wrote :: "byte list archive \<Rightarrow> byte list \<Rightarrow> byte list archive \<Rightarrow> bool" where
  "wrote a bs a' \<longleftrightarrow>
     buf_room a' \<and> stream a' = stream a @ bs \<and> a_position a' = a_position a + length bs \<and>
     a_maxfilenum a' = a_maxfilenum a \<and> a_writing a' = a_writing a \<and>
     a_files a' = a_files a \<and> a_next a' = a_next a"

lemma wrote_trans: "wrote a bs b \<Longrightarrow> wrote b cs c \<Longrightarrow> wrote a (bs @ cs) c"
  by (simp add: wrote_def)

lemma wrote_refl: "buf_room a \<Longrightarrow> wrote a [] a"
  by (simp add: wrote_def)

lemma wrote_room: "wrote a bs b \<Longrightarrow> buf_room b"
  by (simp add: wrote_def)

definition record_bytes :: "16 word \<Rightarrow> 16 word \<Rightarrow> bool \<Rightarrow> byte list \<Rightarrow> byte list" where
  "record_bytes f i eoa data = MKRECORD f i (length data) eoa @ data"

lemma write_record_mem:
  assumes "buf_room a"
  shows "\<exists>a'. write_record mem_write a f i eoa data = Inr (a', True) \<and>
    wrote a (record_bytes f i eoa data) a' \<and> a_objects a' = a_objects a"
  using assms
  by (auto simp: write_record_def put_bytes_def mem_write_def buf_room_def wrote_def stream_def
      record_bytes_def buffer_sizes Let_def)

lemma length_archive_header [simp]: "length archive_header = HEADER_SIZE"
  by (simp add: archive_header_def HEADER_SIZE_def Let_def)

lemma write_header_mem:
  assumes "buf_room a"
  shows "\<exists>a'. write_header mem_write a = Inr (a', True) \<and> wrote a archive_header a' \<and>
    a_objects a' = a_objects a"
  using assms
  by (auto simp: write_header_def flush_buffer_def put_bytes_def mem_write_def buf_room_def wrote_def
      stream_def buffer_sizes Let_def)

fun data_records :: "16 word \<Rightarrow> 16 word \<Rightarrow> bool \<Rightarrow> byte list list \<Rightarrow> byte list" where
  "data_records f i eoa [] = []"
| "data_records f i eoa [d] = record_bytes f i eoa d"
| "data_records f i eoa (d # e # ds) = record_bytes f i False d @ data_records f i eoa (e # ds)"

function pieces_of :: "nat \<Rightarrow> 'a list \<Rightarrow> 'a list list" where
  "pieces_of n xs = (if xs = [] \<or> n = 0 then [] else take n xs # pieces_of n (drop n xs))"
  by pat_completeness auto
termination by (relation "measure (\<lambda>(n, xs). length xs)") auto

declare pieces_of.simps [simp del]

lemma pieces_of_nonempty: "xs \<noteq> [] \<Longrightarrow> 0 < n \<Longrightarrow> pieces_of n xs \<noteq> []"
  by (simp add: pieces_of.simps)

lemma concat_pieces_of: "0 < n \<Longrightarrow> concat (pieces_of n xs) = xs"
proof (induction n xs rule: pieces_of.induct)
  case (1 n xs)
  then show ?case by (subst pieces_of.simps) simp
qed

lemma add_data_records_mem:
  assumes "buf_room a"
  shows "\<exists>a'. add_data_records mem_write a f i data eoa = Inr (a', True) \<and>
    wrote a (data_records f i eoa (pieces_of MAX_RECORD_DATA_SIZE data)) a' \<and> a_objects a' = a_objects a"
  using assms
proof (induction "length data" arbitrary: a data rule: less_induct)
  case less
  let ?M = MAX_RECORD_DATA_SIZE
  show ?case
  proof (cases "data = []")
    case True
    with less.prems show ?thesis by (simp add: add_data_records.simps pieces_of.simps wrote_refl)
  next
    case False
    show ?thesis
    proof (cases "length data > ?M")
      case True
      obtain b where b: "write_record mem_write a f i False (take ?M data) = Inr (b, True)"
          "wrote a (record_bytes f i False (take ?M data)) b" "a_objects b = a_objects a"
        using write_record_mem [OF less.prems] by blast
      have "length (drop ?M data) < length data" using True by (simp add: MAX_RECORD_DATA_SIZE_def)
      from less.hyps [OF this wrote_room [OF b(2)]] obtain c where
        c: "add_data_records mem_write b f i (drop ?M data) eoa = Inr (c, True)"
          "wrote b (data_records f i eoa (pieces_of ?M (drop ?M data))) c" "a_objects c = a_objects b"
        by blast
      have "pieces_of ?M (drop ?M data) \<noteq> []"
        using True by (intro pieces_of_nonempty) (simp_all add: MAX_RECORD_DATA_SIZE_def)
      then have "data_records f i eoa (pieces_of ?M data) =
          record_bytes f i False (take ?M data) @ data_records f i eoa (pieces_of ?M (drop ?M data))"
        using False by (subst pieces_of.simps, cases "pieces_of ?M (drop ?M data)")
          (simp_all add: MAX_RECORD_DATA_SIZE_def)
      with True False b c wrote_trans [OF b(2) c(2)] show ?thesis
        by (subst add_data_records.simps) (simp add: Let_def)
    next
      case short: False
      obtain b where b: "write_record mem_write a f i eoa data = Inr (b, True)"
          "wrote a (record_bytes f i eoa data) b" "a_objects b = a_objects a"
        using write_record_mem [OF less.prems] by blast
      have "pieces_of ?M data = [data]"
        using False short by (subst pieces_of.simps) (simp add: pieces_of.simps MAX_RECORD_DATA_SIZE_def)
      with False short b show ?thesis
        by (subst add_data_records.simps) (simp add: Let_def add_data_records.simps [of _ _ _ _ "[]"])
    qed
  qed
qed

section \<open>Files in the archive\<close>

lemma new_file_mem:
  assumes "buf_room a" "a_writing a" "name \<noteq> []" "length name \<le> MAX_RECORD_DATA_SIZE"
    and "length (a_files a) \<noteq> 65535"
  defines "n \<equiv> a_maxfilenum a + 1"
  shows "\<exists>a'. amar_new_file mem_write a name (length name) False = Inr (a', Some (a_next a, None)) \<and>
    buf_room a' \<and> a_position a' = a_position a + length (record_bytes n AMAR_ATTR_FILENAME True name) \<and>
    stream a' = stream a @ record_bytes n AMAR_ATTR_FILENAME True name \<and>
    a_objects a' = (a_objects a)(a_next a \<mapsto> \<lparr>af_filenum = n, af_attributes = []\<rparr>) \<and>
    a_files a' = insert_file n (a_next a) (a_files a) \<and> a_maxfilenum a' = n"
proof -
  let ?a = "a\<lparr>a_maxfilenum := n, a_next := a_next a + 1,
      a_objects := (a_objects a)(a_next a \<mapsto> \<lparr>af_filenum = n, af_attributes = []\<rparr>),
      a_files := insert_file n (a_next a) (a_files a)\<rparr>"
  have "buf_room ?a" using assms(1) by (simp add: buf_room_def)
  from write_record_mem [OF this, of n AMAR_ATTR_FILENAME True name] obtain a' where
    a': "write_record mem_write ?a n AMAR_ATTR_FILENAME True name = Inr (a', True)"
      "wrote ?a (record_bytes n AMAR_ATTR_FILENAME True name) a'" "a_objects a' = a_objects ?a" by blast
  have pick: "pick_filenum a = n" by (simp add: pick_filenum_def n_def Let_def)
  show ?thesis
    using assms(2,3,4,5) a' pick
    by (intro exI [of _ a']) (simp add: amar_new_file_def Let_def wrote_def stream_def n_def)
qed

lemma add_data_buffer_mem:
  assumes "buf_room a" "a_objects a file = Some f" "map_of (af_attributes f) attrid = Some False"
  shows "\<exists>a'. amar_attr_add_data_buffer mem_write a file attrid data eoa = Inr (a', True) \<and>
    wrote a (data_records (af_filenum f) attrid eoa (pieces_of MAX_RECORD_DATA_SIZE data)) a' \<and>
    a_objects a' = (if eoa then (a_objects a)(file \<mapsto> set_attribute attrid True f) else a_objects a)"
proof -
  obtain b where b: "add_data_records mem_write a (af_filenum f) attrid data eoa = Inr (b, True)"
      "wrote a (data_records (af_filenum f) attrid eoa (pieces_of MAX_RECORD_DATA_SIZE data)) b"
      "a_objects b = a_objects a"
    using add_data_records_mem [OF assms(1)] by blast
  then show ?thesis
    using assms(2,3)
    by (auto simp: amar_attr_add_data_buffer_def with_attr_def wrote_def stream_def buf_room_def)
qed

lemma attr_close_mem:
  assumes "buf_room a" "a_objects a file = Some f" "map_of (af_attributes f) attrid = Some False"
  shows "\<exists>a'. amar_attr_close mem_write a file attrid = Inr (a', True) \<and>
    wrote a (record_bytes (af_filenum f) attrid True []) a' \<and>
    a_objects a' = (a_objects a)(file \<mapsto> set_attribute attrid True f)"
proof -
  obtain b where b: "write_record mem_write a (af_filenum f) attrid True [] = Inr (b, True)"
      "wrote a (record_bytes (af_filenum f) attrid True []) b" "a_objects b = a_objects a"
    using write_record_mem [OF assms(1)] by blast
  then show ?thesis
    using assms(2,3) by (auto simp: amar_attr_close_def with_attr_def wrote_def stream_def buf_room_def)
qed

text \<open>The records that end the attributes of a file that is closed.\<close>

fun closing_records :: "16 word \<Rightarrow> (16 word \<times> bool) list \<Rightarrow> byte list" where
  "closing_records n [] = []"
| "closing_records n ((i, wrote_eoa) # rest) =
     (if wrote_eoa then [] else record_bytes n i True []) @ closing_records n rest"

lemma map_of_set_attribute:
  "map_of (af_attributes (set_attribute i e f)) j =
     (if j = i then map_option (\<lambda>_. e) (map_of (af_attributes f) j) else map_of (af_attributes f) j)"
proof -
  have "map_of (map (\<lambda>(k, x). if k = i then (k, e) else (k, x)) xs) j =
      (if j = i then map_option (\<lambda>_. e) (map_of xs j) else map_of xs j)" for xs
    by (induction xs) auto
  then show ?thesis by (simp add: set_attribute_def)
qed

lemma close_attributes_mem:
  assumes "buf_room a" "a_objects a file = Some f" "distinct (map fst as)"
    and "\<And>i e. (i, e) \<in> set as \<Longrightarrow> map_of (af_attributes f) i = Some e"
  shows "\<exists>a' f'. close_attributes mem_write a file as = Inr (a', True) \<and>
    wrote a (closing_records (af_filenum f) as) a' \<and> a_objects a' = (a_objects a)(file \<mapsto> f') \<and>
    af_filenum f' = af_filenum f"
  using assms
proof (induction "as" arbitrary: a f)
  case Nil
  then show ?case by (auto intro!: exI [of _ f] wrote_refl)
next
  case (Cons ie rest)
  obtain i e where ie: "ie = (i, e)" by force
  show ?case
  proof (cases e)
    case True
    with Cons.IH [OF Cons.prems(1,2)] Cons.prems(3,4) show ?thesis by (auto simp: ie)
  next
    case False
    with Cons.prems(4) ie have "map_of (af_attributes f) i = Some False" by auto
    from attr_close_mem [OF Cons.prems(1,2) this] obtain b where
      b: "amar_attr_close mem_write a file i = Inr (b, True)"
        "wrote a (record_bytes (af_filenum f) i True []) b"
        "a_objects b = (a_objects a)(file \<mapsto> set_attribute i True f)" by blast
    let ?f = "set_attribute i True f"
    have fn: "af_filenum ?f = af_filenum f" by (simp add: set_attribute_def)
    have at: "map_of (af_attributes ?f) j = Some d" if "(j, d) \<in> set rest" for j d
    proof -
      have "j \<noteq> i" using that Cons.prems(3) ie by force
      with that Cons.prems(4) show ?thesis by (simp add: map_of_set_attribute)
    qed
    have ob: "a_objects b file = Some ?f" and di: "distinct (map fst rest)"
      using b(3) Cons.prems(3) by simp_all
    from Cons.IH [OF wrote_room [OF b(2)] ob di at] obtain c f' where
      c: "close_attributes mem_write b file rest = Inr (c, True)"
        "wrote b (closing_records (af_filenum ?f) rest) c" "a_objects c = (a_objects b)(file \<mapsto> f')"
        "af_filenum f' = af_filenum ?f" by blast
    have "a_objects c = (a_objects a)(file \<mapsto> f')" using b(3) c(3) by simp
    with False b c wrote_trans [OF b(2) c(2)] ie fn show ?thesis
      by (intro exI [of _ c] exI [of _ f']) simp
  qed
qed

lemma file_close_mem:
  assumes "buf_room a" "a_objects a file = Some f" "distinct (map fst (af_attributes f))"
  shows "\<exists>a'. amar_file_close mem_write a file = Inr (a', True) \<and> buf_room a' \<and>
    stream a' = stream a @ closing_records (af_filenum f) (af_attributes f) @
      record_bytes (af_filenum f) AMAR_ATTR_EOF True [] \<and>
    a_position a' = a_position a + (length (closing_records (af_filenum f) (af_attributes f)) + RECORD_SIZE) \<and>
    a_files a' = remove_file (af_filenum f) (a_files a)"
proof -
  obtain b f' where b: "close_attributes mem_write a file (af_attributes f) = Inr (b, True)"
      "wrote a (closing_records (af_filenum f) (af_attributes f)) b"
    using close_attributes_mem [OF assms(1,2,3)] assms(3) by fastforce
  obtain c where c: "write_record mem_write b (af_filenum f) AMAR_ATTR_EOF True [] = Inr (c, True)"
      "wrote b (record_bytes (af_filenum f) AMAR_ATTR_EOF True []) c"
    using write_record_mem [OF wrote_room [OF b(2)]] by blast
  from b c assms(2) show ?thesis
    by (intro exI [of _ "c\<lparr>a_files := remove_file (af_filenum f) (a_files c),
          a_objects := (a_objects c)(file := None)\<rparr>"])
      (simp add: amar_file_close_def wrote_def stream_def buf_room_def record_bytes_def)
qed

section \<open>Calls on an archive\<close>

datatype archive_call =
    New_file "byte list" nat bool
  | New_attr nat "16 word"
  | Add_data nat "16 word" "byte list" bool
  | Add_fd nat "16 word" "byte list" bool bool
  | Close_attr nat "16 word"
  | Close_file nat

inductive archive_step :: "'fd writer \<Rightarrow> 'fd archive \<Rightarrow> archive_call \<Rightarrow> 'fd archive \<Rightarrow> bool" for wr where
  arch_new_file: "amar_new_file wr a name len off = Inr (b, r) \<Longrightarrow> archive_step wr a (New_file name len off) b"
| arch_new_attr: "amar_new_attr a file i = Inr b \<Longrightarrow> archive_step wr a (New_attr file i) b"
| arch_add_data: "amar_attr_add_data_buffer wr a file i data eoa = Inr (b, r) \<Longrightarrow>
    archive_step wr a (Add_data file i data eoa) b"
| arch_add_fd: "amar_attr_add_data_fd wr a file i input err eoa = Inr (b, sz) \<Longrightarrow>
    archive_step wr a (Add_fd file i input err eoa) b"
| arch_close_attr: "amar_attr_close wr a file i = Inr (b, r) \<Longrightarrow> archive_step wr a (Close_attr file i) b"
| arch_close_file: "amar_file_close wr a file = Inr (b, r) \<Longrightarrow> archive_step wr a (Close_file file) b"

text \<open>What every state of an archive satisfies while the descriptor takes what it is given.\<close>

definition archive_inv :: "byte list archive \<Rightarrow> bool" where
  "archive_inv a \<longleftrightarrow> buf_room a \<and> a_position a = length (stream a) \<and>
     take HEADER_SIZE (stream a) = archive_header"

definition grows :: "byte list archive \<Rightarrow> byte list archive \<Rightarrow> bool" where
  "grows a b \<longleftrightarrow> buf_room b \<and> (\<exists>bs. stream b = stream a @ bs \<and> a_position b = a_position a + length bs)"

lemma grows_inv: "archive_inv a \<Longrightarrow> grows a b \<Longrightarrow> archive_inv b"
proof -
  assume a: "archive_inv a" and b: "grows a b"
  have "HEADER_SIZE \<le> length (stream a)"
    using a length_archive_header by (metis archive_inv_def length_take min_def nat_le_linear)
  with a b show ?thesis by (auto simp: archive_inv_def grows_def)
qed

lemma grows_refl: "buf_room a \<Longrightarrow> grows a a"
  by (auto simp: grows_def intro: exI [of _ "[]"])

lemma grows_trans: "grows a b \<Longrightarrow> grows b c \<Longrightarrow> grows a c"
  by (force simp: grows_def)

lemma wrote_grows: "wrote a bs b \<Longrightarrow> grows a b"
  by (auto simp: wrote_def grows_def)

lemma grows_cong: "grows a b \<Longrightarrow> stream a = stream a' \<Longrightarrow> a_position a = a_position a' \<Longrightarrow>
    stream b = stream b' \<Longrightarrow> a_buf b = a_buf b' \<Longrightarrow> a_position b = a_position b' \<Longrightarrow> grows a' b'"
  by (simp add: grows_def buf_room_def)

lemma write_record_grows: "buf_room a \<Longrightarrow> write_record mem_write a f i eoa data = Inr (b, r) \<Longrightarrow> r \<and> grows a b"
  using write_record_mem [of a f i eoa data] by (auto dest: wrote_grows)

lemma write_header_grows: "buf_room a \<Longrightarrow> write_header mem_write a = Inr (b, r) \<Longrightarrow> r \<and> grows a b"
  using write_header_mem [of a] by (auto dest: wrote_grows)

lemma grows_room: "grows a b \<Longrightarrow> buf_room b"
  by (simp add: grows_def)

lemma grows_fields [simp]:
  "grows (a\<lparr>a_objects := x\<rparr>) b = grows a b" "grows a (b\<lparr>a_objects := x\<rparr>) = grows a b"
  "grows (a\<lparr>a_files := y\<rparr>) b = grows a b" "grows a (b\<lparr>a_files := y\<rparr>) = grows a b"
  "grows (a\<lparr>a_next := z\<rparr>) b = grows a b" "grows (a\<lparr>a_maxfilenum := w\<rparr>) b = grows a b"
  "buf_room (a\<lparr>a_objects := x\<rparr>) = buf_room a" "buf_room (a\<lparr>a_files := y\<rparr>) = buf_room a"
  "buf_room (a\<lparr>a_next := z\<rparr>) = buf_room a" "buf_room (a\<lparr>a_maxfilenum := w\<rparr>) = buf_room a"
  by (simp_all add: grows_def buf_room_def stream_def)

lemma new_file_grows:
  assumes "buf_room a" "amar_new_file mem_write a name len off = Inr (b, r)"
  shows "grows a b"
proof -
  let ?n = "pick_filenum a" and ?f = "a_next a"
  let ?len = "if len = 0 then length (takeWhile (\<lambda>b. b \<noteq> 0) name) else len"
  let ?c = "a\<lparr>a_maxfilenum := ?n, a_next := ?f + 1,
      a_objects := (a_objects a)(?f \<mapsto> \<lparr>af_filenum = ?n, af_attributes = []\<rparr>),
      a_files := insert_file ?n ?f (a_files a)\<rparr>"
  let ?E = "\<lambda>a. (a\<lparr>a_files := remove_file ?n (a_files a), a_objects := (a_objects a)(?f := None)\<rparr>, None)"
  have room: "buf_room ?c" using assms(1) by simp
  have "b = a \<or> bind_r (if off then write_header mem_write ?c else Inr (?c, True)) (\<lambda>(a', ok).
          if \<not> ok then Inr (?E a')
          else bind_r (write_record mem_write a' ?n AMAR_ATTR_FILENAME True (take ?len name)) (\<lambda>(a', ok).
            if \<not> ok then Inr (?E a') else Inr (a', Some (?f, if off then Some (a_position ?c) else None)))) = Inr (b, r)"
    using assms(2) unfolding amar_new_file_def Let_def
    by (simp split: if_split_asm)
  then show ?thesis
  proof
    assume b: "bind_r (if off then write_header mem_write ?c else Inr (?c, True)) (\<lambda>(a', ok).
          if \<not> ok then Inr (?E a')
          else bind_r (write_record mem_write a' ?n AMAR_ATTR_FILENAME True (take ?len name)) (\<lambda>(a', ok).
            if \<not> ok then Inr (?E a') else Inr (a', Some (?f, if off then Some (a_position ?c) else None)))) = Inr (b, r)"
    obtain d where d: "(if off then write_header mem_write ?c else Inr (?c, True)) = Inr (d, True)" "grows ?c d"
      using write_header_mem [OF room] write_header_grows [OF room] grows_refl [OF room]
      by (cases off; simp only: if_True if_False; blast)
    obtain e where e: "write_record mem_write d ?n AMAR_ATTR_FILENAME True (take ?len name) = Inr (e, True)"
        "grows d e"
      using write_record_mem [OF grows_room [OF d(2)]] wrote_grows by blast
    from b d(1) e(1) have "b = e" by simp
    with grows_trans [OF d(2) e(2)] show ?thesis by simp
  qed (use assms(1) grows_refl in simp)
qed

lemma attr_close_grows:
  "buf_room a \<Longrightarrow> amar_attr_close mem_write a file i = Inr (b, r) \<Longrightarrow> grows a b"
  by (auto simp: amar_attr_close_def with_attr_def map_r_def grows_refl
      split: option.splits if_splits sum.splits dest: write_record_grows)

lemma close_attributes_grows:
  "buf_room a \<Longrightarrow> close_attributes mem_write a file as = Inr (b, r) \<Longrightarrow> grows a b"
proof (induction "as" arbitrary: a)
  case (Cons ie rest)
  obtain i e where ie: "ie = (i, e)" by force
  show ?case
  proof (cases e)
    case True
    with Cons ie show ?thesis by simp
  next
    case False
    with Cons.prems ie obtain c ok where c: "amar_attr_close mem_write a file i = Inr (c, ok)"
      "(if ok then close_attributes mem_write c file rest else Inr (c, False)) = Inr (b, r)"
      by (auto simp: bind_r_eq_Inr_iff)
    have "grows a c" using attr_close_grows [OF Cons.prems(1) c(1)] .
    with c(2) Cons.IH [OF grows_room] show ?thesis by (cases ok) (auto intro: grows_trans)
  qed
qed (simp add: grows_refl)

lemma add_data_grows:
  assumes "buf_room a" "amar_attr_add_data_buffer mem_write a file i data eoa = Inr (b, r)"
  shows "grows a b"
proof -
  from assms(2) obtain f where f: "a_objects a file = Some f" "map_of (af_attributes f) i = Some False"
    by (auto simp: amar_attr_add_data_buffer_def with_attr_def split: option.splits if_splits)
  from add_data_buffer_mem [OF assms(1) f, of data eoa] assms(2) show ?thesis by (auto dest: wrote_grows)
qed

lemma add_fd_records_grows:
  "buf_room a \<Longrightarrow> add_fd_records mem_write a n i input eoa sz = Inr (b, ok, sz') \<Longrightarrow> grows a b"
proof (induction "length input" arbitrary: a input sz rule: less_induct)
  case less
  let ?M = MAX_RECORD_DATA_SIZE
  show ?case
  proof (cases "input = []")
    case True
    with less.prems show ?thesis
      by (simp add: add_fd_records.simps [of _ _ _ _ "[]"] grows_refl)
  next
    case False
    let ?buf = "take ?M input"
    have pos: "length ?buf \<noteq> 0" using False by (simp add: MAX_RECORD_DATA_SIZE_def)
    obtain c where c: "write_record mem_write a n i (eoa \<and> length ?buf < ?M) ?buf = Inr (c, True)" "grows a c"
      using write_record_mem [OF less.prems(1)] wrote_grows by blast
    show ?thesis
    proof (cases "length ?buf < ?M")
      case True
      have "add_fd_records mem_write a n i input eoa sz = Inr (c, True, sz + length ?buf)"
        using True pos c(1) by (subst add_fd_records.simps) (simp only: Let_def bind_r_simps prod.case simp_thms if_True if_False)
      with less.prems(2) c(2) show ?thesis by simp
    next
      case full: False
      have "add_fd_records mem_write a n i input eoa sz =
          add_fd_records mem_write c n i (drop ?M input) eoa (sz + length ?buf)"
        using full pos c(1) by (subst add_fd_records.simps) (simp only: Let_def bind_r_simps prod.case simp_thms if_True if_False)
      with less.prems(2) have "add_fd_records mem_write c n i (drop ?M input) eoa (sz + length ?buf) = Inr (b, ok, sz')"
        by simp
      moreover have "length (drop ?M input) < length input" using False by (simp add: MAX_RECORD_DATA_SIZE_def)
      ultimately have "grows c b" using less.hyps [OF _ grows_room [OF c(2)]] by blast
      with c(2) show ?thesis by (rule grows_trans)
    qed
  qed
qed

lemma add_fd_grows:
  "buf_room a \<Longrightarrow> amar_attr_add_data_fd mem_write a file i input err eoa = Inr (b, sz) \<Longrightarrow> grows a b"
  by (fastforce simp: amar_attr_add_data_fd_def with_attr_def map_r_def Let_def
      split: option.splits if_splits sum.splits prod.splits dest: add_fd_records_grows)

lemma file_close_grows:
  assumes "buf_room a" "amar_file_close mem_write a file = Inr (b, r)"
  shows "grows a b"
proof -
  from assms(2) obtain f c ok where f: "a_objects a file = Some f"
      and c: "close_attributes mem_write a file (af_attributes f) = Inr (c, ok)"
    by (auto simp: amar_file_close_def bind_r_eq_Inr_iff split: option.splits)
  have ac: "grows a c" using close_attributes_grows [OF assms(1) c] .
  show ?thesis
  proof (cases ok)
    case True
    obtain d where "write_record mem_write c (af_filenum f) AMAR_ATTR_EOF True [] = Inr (d, True)" "grows c d"
      using write_record_mem [OF grows_room [OF ac]] wrote_grows by blast
    with assms(2) f c True ac show ?thesis by (auto simp: amar_file_close_def intro: grows_trans)
  next
    case False
    with assms(2) f c ac show ?thesis by (auto simp: amar_file_close_def)
  qed
qed

lemma archive_step_grows: "archive_step mem_write a call b \<Longrightarrow> buf_room a \<Longrightarrow> grows a b"
proof (induction rule: archive_step.induct)
  case arch_new_attr
  then show ?case by (auto simp: amar_new_attr_def grows_refl split: option.splits if_splits)
qed (blast intro: new_file_grows add_data_grows add_fd_grows attr_close_grows file_close_grows)+

interpretation writing: guarded_system
  "\<lambda>a. amar_new mem_write [] True = Inr (a, True)" "archive_step mem_write" archive_inv
proof unfold_locales
  let ?n = "\<lparr>a_fd = [], a_writing = True, a_maxfilenum = 0, a_position = 0, a_files = [],
      a_objects = (\<lambda>_. None), a_next = 0, a_buf = []\<rparr> :: byte list archive"
  have "buf_room ?n" by (simp add: buf_room_def buffer_sizes)
  from write_header_mem [OF this] obtain b where
    b: "write_header mem_write ?n = Inr (b, True)" "wrote ?n archive_header b" by blast
  fix a
  assume "amar_new mem_write [] True = Inr (a, True)"
  with b show "archive_inv a" by (simp add: amar_new_def archive_inv_def wrote_def stream_def)
next
  fix s a t
  assume "archive_inv s" "archive_step mem_write s a t"
  moreover from this have "grows s t" by (intro archive_step_grows) (simp_all add: archive_inv_def)
  ultimately show "archive_inv t" by (blast intro: grows_inv)
qed

section \<open>Properties\<close>

text \<open>A record header survives the trip through its eight bytes in network order, for every file
  number, attribute, size below 2 GB and end-of-attribute bit, whatever bytes follow.\<close>

theorem record_header_roundtrip:
  assumes "s < 2 ^ 31"
  shows "GETRECORD (MKRECORD f a s eoa @ rest) = (f, a, s, eoa) \<and> length (MKRECORD f a s eoa) = 8"
  using GETRECORD_MKRECORD [OF assms] by (simp add: RECORD_SIZE_def)

theorem record_header_roundtrip_witness:
  "GETRECORD (MKRECORD 7 16 1000 True @ [1, 2]) = (7, 16, 1000, True)"
  using record_header_roundtrip [of 1000 7 16 True "[1, 2]"] by simp




definition new_archive :: "16 word \<Rightarrow> byte list archive" where
  \<comment> \<open>an archive with an empty buffer, for the examples\<close>
  "new_archive maxfilenum =
     \<lparr>a_fd = archive_header, a_writing = True, a_maxfilenum = maxfilenum, a_position = 28, a_files = [],
      a_objects = (\<lambda>_. None), a_next = 0, a_buf = []\<rparr>"

lemma new_archive_room [simp]: "buf_room (new_archive n)"
  by (simp add: new_archive_def buf_room_def buffer_sizes)


text \<open>The file number that must not be used, because its bytes begin the header text, is given out:
  the search for the next number does not retry. The archive then has a record that a reader takes for a
  header and that does not hold the header text.\<close>

theorem magic_filenum_given_out:
  assumes "a_maxfilenum a = MAGIC_FILENUM - 1" "buf_room a" "a_writing a" "name \<noteq> []"
    and "length name \<le> MAX_RECORD_DATA_SIZE" "length (a_files a) \<noteq> 65535"
  shows "\<exists>a' r. amar_new_file mem_write a name (length name) False = Inr (a', Some r) \<and>
    fst (GETRECORD (drop (length (stream a)) (stream a'))) = MAGIC_FILENUM \<and>
    take 2 (drop (length (stream a)) (stream a')) = take 2 archive_header \<and>
    take 3 (drop (length (stream a)) (stream a')) \<noteq> take 3 archive_header"
proof -
  have n: "a_maxfilenum a + 1 = MAGIC_FILENUM" by (simp add: assms(1))
  obtain a' where a': "amar_new_file mem_write a name (length name) False = Inr (a', Some (a_next a, None))"
      "stream a' = stream a @ record_bytes MAGIC_FILENUM AMAR_ATTR_FILENAME True name"
    using new_file_mem [OF assms(2-6)] unfolding n by blast
  have "fst (GETRECORD (record_bytes MAGIC_FILENUM AMAR_ATTR_FILENAME True name)) = MAGIC_FILENUM"
    using GETRECORD_MKRECORD [of "length name" MAGIC_FILENUM AMAR_ATTR_FILENAME True name] assms(5)
    by (simp add: record_bytes_def MAX_RECORD_DATA_SIZE_def)
  moreover have t3: "take 3 (record_bytes MAGIC_FILENUM AMAR_ATTR_FILENAME True name) = [0x41, 0x4d, 0]"
    by (simp add: record_bytes_def MKRECORD_def MAGIC_FILENUM_def AMAR_ATTR_FILENAME_def Let_def
        be_bytes_2)
  moreover have h3: "take 3 archive_header = [0x41, 0x4d, 0x41]"
    by (simp add: archive_header_def Let_def)
  moreover have "take 2 xs = take 2 (take 3 xs)" for xs :: "byte list" by (simp add: take_take)
  from this [of "record_bytes MAGIC_FILENUM AMAR_ATTR_FILENAME True name"] this [of archive_header]
  have "take 2 (record_bytes MAGIC_FILENUM AMAR_ATTR_FILENAME True name) = take 2 archive_header"
    unfolding t3 h3 by simp
  ultimately show ?thesis using a' t3 h3 by simp
qed

theorem magic_filenum_given_out_witness:
  "\<exists>a' r. amar_new_file mem_write (new_archive 0x414c) [97] 1 False = Inr (a', Some r) \<and>
     fst (GETRECORD (drop 28 (stream a'))) = MAGIC_FILENUM"
proof -
  have "length (stream (new_archive 0x414c)) = 28"
    by (simp add: new_archive_def stream_def archive_header_def Let_def HEADER_SIZE_def)
  then show ?thesis
    using magic_filenum_given_out [of "new_archive 0x414c" "[97]"]
    by (auto simp: new_archive_def MAGIC_FILENUM_def MAX_RECORD_DATA_SIZE_def buf_room_def buffer_sizes)
qed

text \<open>A file number that is still in use is given out again when the 16-bit counter comes back to it: the
  new file takes the older file's place in the table of open files and its records carry the same number.\<close>

theorem filenum_in_use_given_out:
  assumes "map_of (a_files a) (a_maxfilenum a + 1) = Some old" "buf_room a" "a_writing a" "name \<noteq> []"
    and "length name \<le> MAX_RECORD_DATA_SIZE" "length (a_files a) \<noteq> 65535"
  shows "\<exists>a'. amar_new_file mem_write a name (length name) False = Inr (a', Some (a_next a, None)) \<and>
    map_of (a_files a') (a_maxfilenum a + 1) = Some (a_next a) \<and>
    fst (GETRECORD (drop (length (stream a)) (stream a'))) = a_maxfilenum a + 1"
proof -
  let ?n = "a_maxfilenum a + 1"
  obtain a' where a': "amar_new_file mem_write a name (length name) False = Inr (a', Some (a_next a, None))"
      "stream a' = stream a @ record_bytes ?n AMAR_ATTR_FILENAME True name"
      "a_files a' = insert_file ?n (a_next a) (a_files a)"
    using new_file_mem [OF assms(2-6)] by blast
  have "fst (GETRECORD (record_bytes ?n AMAR_ATTR_FILENAME True name)) = ?n"
    using GETRECORD_MKRECORD [of "length name" ?n AMAR_ATTR_FILENAME True name] assms(5)
    by (simp add: record_bytes_def MAX_RECORD_DATA_SIZE_def)
  with a' show ?thesis by (simp add: insert_file_def)
qed

theorem filenum_in_use_given_out_witness:
  "\<exists>a'. amar_new_file mem_write ((new_archive 6)\<lparr>a_files := [(7, 3)], a_next := 9\<rparr>) [97] 1 False = Inr (a', Some (9, None)) \<and>
     map_of (a_files a') 7 = Some 9"
  using filenum_in_use_given_out [of "(new_archive 6)\<lparr>a_files := [(7, 3)], a_next := 9\<rparr>" 3 "[97]"]
  by (auto simp: new_archive_def MAX_RECORD_DATA_SIZE_def buf_room_def buffer_sizes)

lemma add_fd_records_full:
  assumes "buf_room a" "length input = k * MAX_RECORD_DATA_SIZE"
  shows "\<exists>a'. add_fd_records mem_write a n i input eoa sz = Inr (a', True, sz + length input) \<and>
    wrote a (concat (map (record_bytes n i False) (pieces_of MAX_RECORD_DATA_SIZE input))) a' \<and>
    a_objects a' = a_objects a"
  using assms
proof (induction k arbitrary: a input sz)
  case 0
  then show ?case
    by (simp add: add_fd_records.simps [of _ _ _ _ "[]"] pieces_of.simps wrote_refl)
next
  case (Suc k)
  let ?M = MAX_RECORD_DATA_SIZE
  have m: "0 < ?M" and m0: "?M \<noteq> 0" by (simp_all add: MAX_RECORD_DATA_SIZE_def)
  let ?buf = "take ?M input"
  have l: "length ?buf = ?M" "length (drop ?M input) = k * ?M" using Suc.prems(2) by simp_all
  obtain b where b: "write_record mem_write a n i False ?buf = Inr (b, True)"
      "wrote a (record_bytes n i False ?buf) b" "a_objects b = a_objects a"
    using write_record_mem [OF Suc.prems(1)] by blast
  from Suc.IH [OF wrote_room [OF b(2)] l(2), of "sz + ?M"] obtain c where
    c: "add_fd_records mem_write b n i (drop ?M input) eoa (sz + ?M) = Inr (c, True, sz + ?M + length (drop ?M input))"
      "wrote b (concat (map (record_bytes n i False) (pieces_of ?M (drop ?M input)))) c" "a_objects c = a_objects b"
    by blast
  have "add_fd_records mem_write a n i input eoa sz = add_fd_records mem_write b n i (drop ?M input) eoa (sz + ?M)"
    using l(1) m b(1)
    by (subst add_fd_records.simps) (simp only: Let_def bind_r_simps prod.case less_irrefl simp_thms if_True if_False
        m0)
  moreover have "pieces_of ?M input = ?buf # pieces_of ?M (drop ?M input)"
    using Suc.prems(2) m by (subst pieces_of.simps) auto
  moreover have "sz + ?M + length (drop ?M input) = sz + length input" using Suc.prems(2) l(2) by simp
  ultimately show ?case
    using b(3) c wrote_trans [OF b(2) c(2)] by (intro exI [of _ c]) (simp only: list.map concat.simps simp_thms)
qed

text \<open>When the data copied from a descriptor with the end-of-attribute flag is empty or a multiple of 4 MB, no
  record with the end-of-attribute bit is written, the attribute is marked as ended all the same, and
  closing it writes nothing: the end is lost.\<close>

theorem fd_end_of_attribute_lost:
  assumes "buf_room a" "a_objects a file = Some f" "map_of (af_attributes f) attrid = Some False"
    and "length input = k * MAX_RECORD_DATA_SIZE"
  shows "\<exists>a'. amar_attr_add_data_fd mem_write a file attrid input False True = Inr (a', int (length input)) \<and>
    stream a' = stream a @
      concat (map (record_bytes (af_filenum f) attrid False) (pieces_of MAX_RECORD_DATA_SIZE input)) \<and>
    amar_attr_close mem_write a' file attrid = Inr (a', True)"
proof -
  obtain b where b: "add_fd_records mem_write a (af_filenum f) attrid input True 0 = Inr (b, True, length input)"
      "wrote a (concat (map (record_bytes (af_filenum f) attrid False) (pieces_of MAX_RECORD_DATA_SIZE input))) b"
      "a_objects b = a_objects a"
    using add_fd_records_full [OF assms(1,4), of "af_filenum f" attrid True 0] by auto
  then show ?thesis
    using assms(2,3)
    by (auto simp: amar_attr_add_data_fd_def with_attr_def wrote_def stream_def Let_def
        amar_attr_close_def map_of_set_attribute)
qed

theorem fd_end_of_attribute_lost_witness:
  "\<exists>a'. amar_attr_add_data_fd mem_write
       ((new_archive 1)\<lparr>a_objects := [0 \<mapsto> \<lparr>af_filenum = 1, af_attributes = [(16, False)]\<rparr>]\<rparr>) 0 16 [] False True =
       Inr (a', 0) \<and> stream a' = archive_header"
  using fd_end_of_attribute_lost
    [of "(new_archive 1)\<lparr>a_objects := [0 \<mapsto> \<lparr>af_filenum = 1, af_attributes = [(16, False)]\<rparr>]\<rparr>" 0
      "\<lparr>af_filenum = 1, af_attributes = [(16, False)]\<rparr>" 16 "[]" 0]
  by (auto simp: new_archive_def buf_room_def buffer_sizes stream_def pieces_of.simps)

end
