(* ===== verification/Amar_Read.thy ===== *)
theory Amar_Read
  imports Amar_Write
begin

text \<open>
  Reading an archive (\<open>amar_read\<close> of \<open>amar-src/amar.c\<close>): a loop over records behind a buffer, with
  callbacks for the start and the end of files and for the data of attributes.

  The descriptor is the list of the bytes still to be read and whether it can seek. The callbacks are
  parameters; they thread the user's state. A pointer to an attribute state is an address in a heap, because
  the code keeps one across records and frees it: following a pointer to freed memory is
  \<^term>\<open>Out_of_bounds\<close>. A pointer to a file state is the file's number, of which at most one is open.
\<close>

section \<open>State\<close>

type_synonym ('u, 'f, 'a) attr_callback =
  "'u \<Rightarrow> 16 word \<Rightarrow> 'f option \<Rightarrow> 16 word \<Rightarrow> 'a option \<Rightarrow> byte list \<Rightarrow> bool \<Rightarrow> bool \<Rightarrow> 'u \<times> 'a option \<times> bool"

record ('u, 'f, 'a) handling =
  hd_attrid :: "16 word"
  hd_min_size :: nat
  hd_callback :: "('u, 'f, 'a) attr_callback option"

record ('u, 'f, 'a) attr_state =
  as_attrid :: "16 word"
  as_handling :: "('u, 'f, 'a) handling"
  as_buf :: "byte list"
  as_attr_data :: "'a option"
  as_wrote_eoa :: bool

record 'f file_state =
  fs_filenum :: "16 word"
  fs_file_data :: "'f option"
  fs_ignore :: bool
  fs_attr_states :: "nat list"

text \<open>The parameters of a call: the handling array up to its terminator, which has attribute 0, and the callbacks.\<close>

record ('u, 'f, 'a) read_params =
  p_handling :: "('u, 'f, 'a) handling list"
  p_default :: "('u, 'f, 'a) handling"
  p_file_start :: "('u \<Rightarrow> 16 word \<Rightarrow> byte list \<Rightarrow> 'u \<times> bool \<times> 'f option \<times> bool) option"
  p_file_finish :: "('u \<Rightarrow> 16 word \<Rightarrow> 'f option \<Rightarrow> bool \<Rightarrow> 'u \<times> bool) option"

record ('u, 'f, 'a) reader =
  rd_user :: 'u
  rd_input :: "byte list"           \<comment> \<open>what the descriptor still holds\<close>
  rd_can_seek :: bool               \<comment> \<open>whether \<open>lseek\<close> works on it\<close>
  rd_seekable :: bool               \<comment> \<open>\<open>archive->seekable\<close>\<close>
  rd_buf :: "byte list"             \<comment> \<open>the \<open>buf_len\<close> bytes at \<open>buf + buf_offset\<close>\<close>
  rd_buf_offset :: nat
  rd_buf_size :: nat
  rd_got_eof :: bool
  rd_just_lseeked :: bool
  rd_files :: "'f file_state list"
  rd_heap :: "nat \<Rightarrow> ('u, 'f, 'a) attr_state option"
  rd_next :: nat
  rd_fs :: "16 word option"
  rd_as :: "nat option"

section \<open>The buffer\<close>

definition read_fully :: "nat \<Rightarrow> byte list \<Rightarrow> byte list \<times> byte list" where
  "read_fully n input = (take n input, drop n input)"

definition buf_atleast :: "nat \<Rightarrow> ('u, 'f, 'a) reader \<Rightarrow> ('u, 'f, 'a) reader \<times> bool" where
  "buf_atleast atleast r =
     (if length (rd_buf r) \<ge> atleast then (r, True)
      else if rd_got_eof r then (r, False)
      else
        let r = (if rd_buf_size r < atleast then r\<lparr>rd_buf_offset := 0, rd_buf_size := atleast\<rparr>
                 else if rd_buf_size r - rd_buf_offset r < atleast then r\<lparr>rd_buf_offset := 0\<rparr>
                 else r);
            to_read = (if rd_just_lseeked r then atleast - length (rd_buf r)
                       else rd_buf_size r - rd_buf_offset r - length (rd_buf r));
            (bytes, input) = read_fully to_read (rd_input r);
            r = r\<lparr>rd_got_eof := (rd_got_eof r \<or> length bytes < to_read), rd_just_lseeked := False,
                  rd_buf := rd_buf r @ bytes, rd_input := input\<rparr> in
        (r, length (rd_buf r) \<ge> atleast))"

text \<open>The bytes to skip on a descriptor that cannot seek are read and thrown away.\<close>

function skip_by_reading :: "nat \<Rightarrow> nat \<Rightarrow> byte list \<Rightarrow> byte list \<times> bool" where
  "skip_by_reading buf_size skipbytes input =
     (if skipbytes = 0 \<or> buf_size = 0 then (input, True)
      else
        let toread = min skipbytes buf_size; (bytes, input) = read_fully toread input in
        if length bytes < toread then (input, False)
        else skip_by_reading buf_size (skipbytes - length bytes) input)"
  by pat_completeness auto
termination by (relation "measure (\<lambda>(b, n, i). n)") (auto simp: read_fully_def)

declare skip_by_reading.simps [simp del]

definition buf_skip :: "nat \<Rightarrow> ('u, 'f, 'a) reader \<Rightarrow> ('u, 'f, 'a) reader \<times> bool" where
  "buf_skip skipbytes r =
     (if skipbytes \<le> length (rd_buf r) then
        (r\<lparr>rd_buf := drop skipbytes (rd_buf r), rd_buf_offset := rd_buf_offset r + skipbytes\<rparr>, True)
      else
        let skipbytes = skipbytes - length (rd_buf r);
            r = r\<lparr>rd_buf := [], rd_buf_offset := 0\<rparr> in
        if rd_seekable r \<and> rd_can_seek r then (r\<lparr>rd_input := drop skipbytes (rd_input r)\<rparr>, True)
        else
          let r = r\<lparr>rd_seekable := False\<rparr>;
              (input, ok) = skip_by_reading (rd_buf_size r) skipbytes (rd_input r) in
          if ok then (r\<lparr>rd_input := input\<rparr>, True)
          else (r\<lparr>rd_input := input, rd_got_eof := True\<rparr>, False))"

definition skip :: "nat \<Rightarrow> ('u, 'f, 'a) reader \<Rightarrow> ('u, 'f, 'a) reader" where
  \<comment> \<open>the callers ignore the result\<close>
  "skip n r = fst (buf_skip n r)"

section \<open>Files and attributes\<close>

definition find_file :: "16 word \<Rightarrow> 'f file_state list \<Rightarrow> 'f file_state option" where
  "find_file n files = List.find (\<lambda>fs. fs_filenum fs = n) files"

definition remove_fs :: "16 word \<Rightarrow> 'f file_state list \<Rightarrow> 'f file_state list" where
  "remove_fs n files = filter (\<lambda>fs. fs_filenum fs \<noteq> n) files"

definition finish_attr ::
  "'f file_state \<Rightarrow> nat \<Rightarrow> bool \<Rightarrow> ('u, 'f, 'a) reader \<Rightarrow> fault + ('u, 'f, 'a) reader \<times> bool" where
  "finish_attr fs p truncated r =
     (case rd_heap r p of
        None \<Rightarrow> Inl Out_of_bounds
      | Some as \<Rightarrow>
          let free = (\<lambda>r. r\<lparr>rd_heap := (rd_heap r)(p := None)\<rparr>) in
          Inr (case hd_callback (as_handling as) of
                 Some cb \<Rightarrow>
                   if \<not> as_wrote_eoa as then
                     (case cb (rd_user r) (fs_filenum fs) (fs_file_data fs) (as_attrid as) (as_attr_data as)
                             (as_buf as) True truncated of
                        (u, _, success) \<Rightarrow> (free (r\<lparr>rd_user := u\<rparr>), success))
                   else (free r, True)
               | None \<Rightarrow> (free r, True)))"

fun finish_attrs ::
  "'f file_state \<Rightarrow> nat list \<Rightarrow> bool \<Rightarrow> ('u, 'f, 'a) reader \<Rightarrow> fault + ('u, 'f, 'a) reader \<times> bool" where
  "finish_attrs fs [] success r = Inr (r, success)"
| "finish_attrs fs (p # ps) success r =
     (if \<not> success then finish_attrs fs ps success r
      else bind_r (finish_attr fs p True r) (\<lambda>(r, ok). finish_attrs fs ps ok r))"

definition finish_file ::
  "('u, 'f, 'a) read_params \<Rightarrow> 'f file_state \<Rightarrow> bool \<Rightarrow> ('u, 'f, 'a) reader \<Rightarrow> fault + ('u, 'f, 'a) reader \<times> bool" where
  "finish_file ps fs truncated r =
     map_r (\<lambda>(r, success).
       case p_file_finish ps of
         Some cb \<Rightarrow>
           if \<not> fs_ignore fs \<and> success then
             (case cb (rd_user r) (fs_filenum fs) (fs_file_data fs) truncated of
                (u, ok) \<Rightarrow> (r\<lparr>rd_user := u\<rparr>, ok))
           else (r, success)
       | None \<Rightarrow> (r, success))
     (finish_attrs fs (fs_attr_states fs) True r)"

text \<open>The data of an attribute is passed on as it comes, or collected until there is enough of it.\<close>

definition handle_hunk ::
  "'f file_state \<Rightarrow> nat \<Rightarrow> ('u, 'f, 'a) handling \<Rightarrow> ('u, 'f, 'a) attr_callback \<Rightarrow> byte list \<Rightarrow> bool \<Rightarrow>
   ('u, 'f, 'a) reader \<Rightarrow> fault + ('u, 'f, 'a) reader \<times> bool" where
  "handle_hunk fs p hdl callback bytes eoa r =
     (case rd_heap r p of
        None \<Rightarrow> Inl Out_of_bounds
      | Some as \<Rightarrow>
          let put = (\<lambda>as r. r\<lparr>rd_heap := (rd_heap r)(p \<mapsto> as)\<rparr>) in
          Inr (if hd_min_size hdl = 0 \<or> (as_buf as = [] \<and> length bytes \<ge> hd_min_size hdl) then
                 (case callback (rd_user r) (fs_filenum fs) (fs_file_data fs) (as_attrid as) (as_attr_data as)
                         bytes eoa False of
                    (u, d, success) \<Rightarrow>
                      (put (as\<lparr>as_attr_data := d, as_wrote_eoa := eoa\<rparr>) (r\<lparr>rd_user := u\<rparr>), success))
               else
                 let as = as\<lparr>as_buf := as_buf as @ bytes\<rparr> in
                 if length (as_buf as) \<ge> hd_min_size hdl \<or> eoa then
                   (case callback (rd_user r) (fs_filenum fs) (fs_file_data fs) (as_attrid as) (as_attr_data as)
                           (as_buf as) eoa False of
                      (u, d, success) \<Rightarrow>
                        (put (as\<lparr>as_attr_data := d, as_buf := [], as_wrote_eoa := eoa\<rparr>) (r\<lparr>rd_user := u\<rparr>), success))
                 else (put as r, True)))"

section \<open>The header text\<close>

definition is_space :: "byte \<Rightarrow> bool" where
  "is_space b \<longleftrightarrow> b = 32 \<or> 9 \<le> b \<and> b \<le> 13"

fun scan_literal :: "string \<Rightarrow> byte list \<Rightarrow> byte list option" where
  \<comment> \<open>the text of a \<open>scanf\<close> format, in which a blank stands for any white space\<close>
  "scan_literal [] bs = Some bs"
| "scan_literal (c # cs) bs =
     (if c = CHR '' '' then scan_literal cs (dropWhile is_space bs)
      else case bs of [] \<Rightarrow> None | b # bs \<Rightarrow> if b = of_char c then scan_literal cs bs else None)"

definition scan_int :: "byte list \<Rightarrow> int option" where
  "scan_int bs =
     (let bs = dropWhile is_space bs;
          neg = (take 1 bs = [45]);
          bs = (if take 1 bs = [45] \<or> take 1 bs = [43] then drop 1 bs else bs);
          digits = takeWhile (\<lambda>b. 48 \<le> b \<and> b \<le> 57) bs;
          n = foldl (\<lambda>a b. a * 10 + (int (unat b) - 48)) 0 digits in
      if digits = [] then None else Some (if neg then - n else n))"

definition scan_header :: "byte list \<Rightarrow> int option" where
  "scan_header bs =
     Option.bind (scan_literal ''AMANDA ARCHIVE FORMAT '' (takeWhile (\<lambda>b. b \<noteq> 0) bs)) scan_int"

section \<open>One record\<close>

datatype 's flow =
    Go_on 's          \<comment> \<open>\<open>continue\<close>\<close>
  | Break 's bool     \<comment> \<open>\<open>break\<close>, with the value of \<open>success\<close>\<close>
  | Reject 's         \<comment> \<open>an error is set and \<open>FALSE\<close> returned at once\<close>

definition read_header :: "('u, 'f, 'a) reader \<Rightarrow> ('u, 'f, 'a) reader flow" where
  "read_header r =
     (case buf_atleast HEADER_SIZE r of (r, enough) \<Rightarrow>
      if \<not> enough then Break r True
      else case scan_header (rd_buf r) of
          None \<Rightarrow> Reject r
        | Some vers \<Rightarrow> if vers > int HEADER_VERSION then Reject r else Go_on (skip HEADER_SIZE r))"

definition read_eof_record ::
  "('u, 'f, 'a) read_params \<Rightarrow> 'f file_state option \<Rightarrow> nat \<Rightarrow> ('u, 'f, 'a) reader \<Rightarrow>
   fault + ('u, 'f, 'a) reader flow" where
  "read_eof_record ps fs datasize r =
     (if datasize \<noteq> 0 then Inr (Reject r)
      else case fs of
          None \<Rightarrow> Inr (Go_on r)
        | Some fs \<Rightarrow>
            map_r (\<lambda>(r, success).
              let r = r\<lparr>rd_as := None, rd_fs := None\<rparr> in if success then Go_on r else Break r False)
            (finish_file ps fs False (r\<lparr>rd_files := remove_fs (fs_filenum fs) (rd_files r)\<rparr>)))"

text \<open>An empty file name is the padding at the end of the archive, if the next 504 bytes are zero.\<close>

definition read_empty_name :: "('u, 'f, 'a) reader \<Rightarrow> ('u, 'f, 'a) reader flow" where
  "read_empty_name r =
     (case buf_atleast (512 - RECORD_SIZE) r of (r, enough) \<Rightarrow>
      if \<not> enough then Break r True
      else if list_all (\<lambda>b. b = 0) (take (512 - RECORD_SIZE) (rd_buf r)) then Break r True
      else Reject r)"

definition start_file ::
  "('u, 'f, 'a) read_params \<Rightarrow> 16 word \<Rightarrow> nat \<Rightarrow> ('u, 'f, 'a) reader \<Rightarrow> ('u, 'f, 'a) reader flow" where
  "start_file ps filenum datasize r =
     (let add = (\<lambda>ignore file_data r. r\<lparr>rd_files :=
            \<lparr>fs_filenum = filenum, fs_file_data = file_data, fs_ignore = ignore, fs_attr_states = []\<rparr>
            # rd_files r, rd_fs := Some filenum\<rparr>) in
      case p_file_start ps of
        None \<Rightarrow> Go_on (skip datasize (add False None r))
      | Some cb \<Rightarrow>
          (case cb (rd_user r) filenum (take datasize (rd_buf r)) of
             (u, ignore, file_data, success) \<Rightarrow>
               let r = add ignore file_data (r\<lparr>rd_user := u\<rparr>) in
               if success then Go_on (skip datasize r) else Break r False))"

definition read_filename_record ::
  "('u, 'f, 'a) read_params \<Rightarrow> 'f file_state option \<Rightarrow> 16 word \<Rightarrow> nat \<Rightarrow> bool \<Rightarrow> ('u, 'f, 'a) reader \<Rightarrow>
   fault + ('u, 'f, 'a) reader flow" where
  "read_filename_record ps fs filenum datasize eoa r =
     (case buf_atleast datasize r of (r, enough) \<Rightarrow>
      if \<not> enough then Inr (Break r True)
      else
        bind_r
          (case fs of
             None \<Rightarrow> Inr (r, True)
           | Some fs \<Rightarrow>
               map_r (\<lambda>(r, success). (r\<lparr>rd_as := None, rd_fs := None\<rparr>, success))
               (finish_file ps fs True (r\<lparr>rd_files := remove_fs (fs_filenum fs) (rd_files r)\<rparr>)))
          (\<lambda>(r, success).
             if \<not> success then Inr (Break r False)
             else if datasize = 0 then Inr (read_empty_name r)
             else if \<not> eoa then Inr (Reject r)
             else Inr (start_file ps filenum datasize r)))"

text \<open>The attribute state the pointer \<open>as\<close> is at, or the one of the file for this attribute.\<close>

fun find_attr :: "('u, 'f, 'a) reader \<Rightarrow> 16 word \<Rightarrow> nat list \<Rightarrow> fault + nat option" where
  "find_attr r attrid [] = Inr None"
| "find_attr r attrid (p # ps) =
     (case rd_heap r p of
        None \<Rightarrow> Inl Out_of_bounds
      | Some as \<Rightarrow> if as_attrid as = attrid then Inr (Some p) else find_attr r attrid ps)"

definition look_up_as ::
  "'f file_state \<Rightarrow> 16 word \<Rightarrow> ('u, 'f, 'a) reader \<Rightarrow> fault + nat option" where
  "look_up_as fs attrid r =
     (case rd_as r of
        None \<Rightarrow> find_attr r attrid (fs_attr_states fs)
      | Some p \<Rightarrow>
          (case rd_heap r p of
             None \<Rightarrow> Inl Out_of_bounds
           | Some as \<Rightarrow> if as_attrid as = attrid then Inr (Some p)
                        else find_attr r attrid (fs_attr_states fs)))"

definition find_handling :: "('u, 'f, 'a) read_params \<Rightarrow> 16 word \<Rightarrow> ('u, 'f, 'a) handling" where
  "find_handling ps attrid =
     (case List.find (\<lambda>h. hd_attrid h = attrid) (p_handling ps) of Some h \<Rightarrow> h | None \<Rightarrow> p_default ps)"

text \<open>An attribute in a single record. \<^term>\<open>None\<close>: it needs a state after all.\<close>

definition read_single ::
  "'f file_state \<Rightarrow> 16 word \<Rightarrow> ('u, 'f, 'a) handling \<Rightarrow> nat \<Rightarrow> ('u, 'f, 'a) reader \<Rightarrow>
   ('u, 'f, 'a) reader flow option" where
  "read_single fs attrid hdl datasize r =
     (case hd_callback hdl of
        None \<Rightarrow> Some (Go_on (skip datasize r))
      | Some cb \<Rightarrow>
          let call = (\<lambda>tmp bytes eoa r. case cb (rd_user r) (fs_filenum fs) (fs_file_data fs) attrid tmp bytes eoa False of
                        (u, tmp, success) \<Rightarrow> (r\<lparr>rd_user := u\<rparr>, tmp, success));
              avail = length (rd_buf r) in
          if avail \<ge> datasize then
            (case call None (take datasize (rd_buf r)) True r of
               (r, _, success) \<Rightarrow> Some (if success then Go_on (skip datasize r) else Break r False))
          else if avail \<ge> hd_min_size hdl then
            (case call None (rd_buf r) False r of
               (r, tmp, success) \<Rightarrow>
                 if \<not> success then Some (Break r False)
                 else
                   (case buf_atleast (datasize - avail) (skip avail r) of
                      (r, enough) \<Rightarrow>
                        if \<not> enough then Some (Break r True)
                        else
                          (case call tmp (take (datasize - avail) (rd_buf r)) True r of
                             (r, _, success) \<Rightarrow>
                               Some (if success then Go_on (skip (datasize - avail) r) else Break r False))))
          else None)"

definition new_attr_state ::
  "16 word \<Rightarrow> 16 word \<Rightarrow> ('u, 'f, 'a) handling \<Rightarrow> ('u, 'f, 'a) reader \<Rightarrow> ('u, 'f, 'a) reader \<times> nat" where
  "new_attr_state filenum attrid hdl r =
     (let p = rd_next r in
      (r\<lparr>rd_next := p + 1,
         rd_heap := (rd_heap r)(p \<mapsto> \<lparr>as_attrid = attrid, as_handling = hdl, as_buf = [], as_attr_data = None,
                                    as_wrote_eoa = False\<rparr>),
         rd_files := map (\<lambda>fs. if fs_filenum fs = filenum
                               then fs\<lparr>fs_attr_states := p # fs_attr_states fs\<rparr> else fs) (rd_files r)\<rparr>, p))"

text \<open>The data of a record of an attribute with a state, in one hunk or two. The result of the second is ignored.\<close>

definition read_hunks ::
  "'f file_state \<Rightarrow> nat \<Rightarrow> ('u, 'f, 'a) handling \<Rightarrow> nat \<Rightarrow> bool \<Rightarrow> ('u, 'f, 'a) reader \<Rightarrow>
   fault + ('u, 'f, 'a) reader flow" where
  "read_hunks fs p hdl datasize eoa r =
     (case hd_callback hdl of
        None \<Rightarrow> Inr (Go_on (skip datasize r))
      | Some cb \<Rightarrow>
          let avail = length (rd_buf r) in
          if avail \<ge> datasize then
            map_r (\<lambda>(r, success). if success then Go_on (skip datasize r) else Break r False)
              (handle_hunk fs p hdl cb (take datasize (rd_buf r)) eoa r)
          else
            bind_r (handle_hunk fs p hdl cb (rd_buf r) False r) (\<lambda>(r, success).
              if \<not> success then Inr (Break r False)
              else
                (case buf_atleast (datasize - avail) (skip avail r) of
                   (r, enough) \<Rightarrow>
                     if \<not> enough then Inr (Break r True)
                     else map_r (\<lambda>(r, _). Go_on (skip (datasize - avail) r))
                            (handle_hunk fs p hdl cb (take (datasize - avail) (rd_buf r)) eoa r))))"

definition remove_attr :: "16 word \<Rightarrow> nat \<Rightarrow> ('u, 'f, 'a) reader \<Rightarrow> ('u, 'f, 'a) reader" where
  "remove_attr filenum p r =
     r\<lparr>rd_files := map (\<lambda>fs. if fs_filenum fs = filenum
                             then fs\<lparr>fs_attr_states := remove1 p (fs_attr_states fs)\<rparr> else fs) (rd_files r)\<rparr>"

definition read_attribute ::
  "('u, 'f, 'a) read_params \<Rightarrow> 'f file_state \<Rightarrow> 16 word \<Rightarrow> nat \<Rightarrow> bool \<Rightarrow> ('u, 'f, 'a) reader \<Rightarrow>
   fault + ('u, 'f, 'a) reader flow" where
  "read_attribute ps fs attrid datasize eoa r =
     bind_r (look_up_as fs attrid r) (\<lambda>as.
       let hdl = (case as of
                    Some p \<Rightarrow> (case rd_heap r p of Some s \<Rightarrow> as_handling s | None \<Rightarrow> find_handling ps attrid)
                  | None \<Rightarrow> find_handling ps attrid);
           r = r\<lparr>rd_as := as\<rparr> in
       case (if eoa \<and> as = None then read_single fs attrid hdl datasize r else None) of
         Some flow \<Rightarrow> Inr flow
       | None \<Rightarrow>
           let (r, p) = (case as of Some p \<Rightarrow> (r, p) | None \<Rightarrow> new_attr_state (fs_filenum fs) attrid hdl r);
               r = r\<lparr>rd_as := Some p\<rparr> in
           bind_r (read_hunks fs p hdl datasize eoa r) (\<lambda>flow.
             case flow of
               Go_on r \<Rightarrow>
                 if eoa then
                   map_r (\<lambda>(r, success).
                     let r = remove_attr (fs_filenum fs) p r in
                     if success then Go_on (r\<lparr>rd_as := None\<rparr>) else Break r False)
                   (finish_attr fs p False r)
                 else Inr (Go_on r)
             | _ \<Rightarrow> Inr flow))"

definition read_iteration ::
  "('u, 'f, 'a) read_params \<Rightarrow> ('u, 'f, 'a) reader \<Rightarrow> fault + ('u, 'f, 'a) reader flow" where
  "read_iteration ps r =
     (case buf_atleast RECORD_SIZE r of (r, enough) \<Rightarrow>
      if \<not> enough then Inr (Break r True)
      else case GETRECORD (rd_buf r) of (filenum, attrid, datasize, eoa) \<Rightarrow>
        if filenum = MAGIC_FILENUM then Inr (read_header r)
        else
          let r = skip RECORD_SIZE r in
          if datasize > MAX_RECORD_DATA_SIZE then Inr (Reject r)
          else
            let fs = find_file filenum (rd_files r);
                r = r\<lparr>rd_fs := map_option fs_filenum fs\<rparr> in
            if attrid < AMAR_ATTR_APP_START then
              if attrid = AMAR_ATTR_EOF then read_eof_record ps fs datasize r
              else if attrid = AMAR_ATTR_FILENAME then read_filename_record ps fs filenum datasize eoa r
              else Inr (Reject r)
            else case fs of
                None \<Rightarrow> Inr (Go_on (skip datasize r))
              | Some fs \<Rightarrow>
                  if fs_ignore fs then Inr (Go_on (skip datasize r))
                  else read_attribute ps fs attrid datasize eoa r)"

section \<open>The loop\<close>

fun finish_files ::
  "('u, 'f, 'a) read_params \<Rightarrow> 'f file_state list \<Rightarrow> ('u, 'f, 'a) reader \<Rightarrow> fault + ('u, 'f, 'a) reader" where
  "finish_files ps [] r = Inr r"
| "finish_files ps (fs # rest) r = bind_r (finish_file ps fs True r) (\<lambda>(r, _). finish_files ps rest r)"

text \<open>The loop with a bound on its rounds; \<open>read_loop_fuel_enough\<close> shows how many are enough.\<close>

fun read_loop ::
  "nat \<Rightarrow> ('u, 'f, 'a) read_params \<Rightarrow> ('u, 'f, 'a) reader \<Rightarrow> (fault + ('u, 'f, 'a) reader \<times> bool) option" where
  "read_loop 0 ps r = None"
| "read_loop (Suc n) ps r =
     (case read_iteration ps r of
        Inl e \<Rightarrow> Some (Inl e)
      | Inr (Go_on r) \<Rightarrow> read_loop n ps r
      | Inr (Break r success) \<Rightarrow> Some (map_r (\<lambda>r. (r, success)) (finish_files ps (rd_files r) r))
      | Inr (Reject r) \<Rightarrow> Some (Inr (r, False)))"

definition new_reader :: "byte list \<Rightarrow> bool \<Rightarrow> bool \<Rightarrow> 'u \<Rightarrow> ('u, 'f, 'a) reader" where
  "new_reader input can_seek seekable user =
     \<lparr>rd_user = user, rd_input = input, rd_can_seek = can_seek, rd_seekable = seekable, rd_buf = [],
      rd_buf_offset = 0, rd_buf_size = 1024, rd_got_eof = False, rd_just_lseeked = False, rd_files = [],
      rd_heap = (\<lambda>_. None), rd_next = 0, rd_fs = None, rd_as = None\<rparr>"

definition amar_read ::
  "nat \<Rightarrow> ('u, 'f, 'a) read_params \<Rightarrow> byte list \<Rightarrow> bool \<Rightarrow> bool \<Rightarrow> 'u \<Rightarrow>
   (fault + ('u, 'f, 'a) reader \<times> bool) option" where
  "amar_read fuel ps input can_seek seekable user =
     (case buf_atleast RECORD_SIZE (new_reader input can_seek seekable user) of (r, enough) \<Rightarrow>
      if enough \<and> fst (GETRECORD (rd_buf r)) \<noteq> MAGIC_FILENUM then Some (Inr (r, False))
      else read_loop fuel ps r)"

section \<open>The buffer as a stream\<close>

definition view :: "('u, 'f, 'a) reader \<Rightarrow> byte list" where
  "view r = rd_buf r @ rd_input r"

definition rd_ok :: "('u, 'f, 'a) reader \<Rightarrow> bool" where
  "rd_ok r \<longleftrightarrow> (rd_got_eof r \<longrightarrow> rd_input r = []) \<and> \<not> rd_just_lseeked r \<and> 0 < rd_buf_size r \<and>
     rd_buf_offset r + length (rd_buf r) \<le> rd_buf_size r"

definition same_client :: "('u, 'f, 'a) reader \<Rightarrow> ('u, 'f, 'a) reader \<Rightarrow> bool" where
  \<comment> \<open>everything but the buffer and the descriptor\<close>
  "same_client r r' \<longleftrightarrow>
     rd_user r' = rd_user r \<and> rd_files r' = rd_files r \<and> rd_heap r' = rd_heap r \<and> rd_next r' = rd_next r \<and>
     rd_fs r' = rd_fs r \<and> rd_as r' = rd_as r \<and> rd_can_seek r' = rd_can_seek r"

lemma same_client_refl [simp]: "same_client r r"
  by (simp add: same_client_def)

lemma same_client_trans: "same_client a b \<Longrightarrow> same_client b c \<Longrightarrow> same_client a c"
  by (simp add: same_client_def)

lemma buf_atleast_view: "buf_atleast n r = (r', ok) \<Longrightarrow> view r' = view r \<and> same_client r r'"
  by (auto simp: buf_atleast_def read_fully_def view_def same_client_def Let_def split: if_splits)

lemma buf_atleast_buf: "buf_atleast n r = (r', True) \<Longrightarrow> n \<le> length (rd_buf r')"
  by (auto simp: buf_atleast_def read_fully_def Let_def split: if_splits)

lemma skip_by_reading_drop:
  "0 < sz \<Longrightarrow> fst (skip_by_reading sz n input) = drop n input \<and>
     (\<not> snd (skip_by_reading sz n input) \<longrightarrow> drop n input = [])"
proof (induction n arbitrary: input rule: less_induct)
  case (less n)
  let ?t = "min n sz"
  show ?case
  proof (cases "n = 0")
    case True
    then have "skip_by_reading sz n input = (input, True)" by (subst skip_by_reading.simps) simp
    with True show ?thesis by simp
  next
    case n: False
    show ?thesis
    proof (cases "length input < ?t")
      case True
      with n less.prems have "skip_by_reading sz n input = (drop ?t input, False)"
        by (subst skip_by_reading.simps) (simp add: read_fully_def Let_def)
      with True show ?thesis by simp
    next
      case False
      then have l: "length (take ?t input) = ?t" by (simp only: length_take not_less min_absorb2)
      have s: "skip_by_reading sz n input = skip_by_reading sz (n - ?t) (drop ?t input)"
        using n less.prems False l
        by (subst skip_by_reading.simps) (simp only: read_fully_def Let_def prod.case if_False simp_thms less_irrefl
            neq0_conv less_not_refl2)
      have "n - ?t < n" using n less.prems by simp
      moreover have "drop (n - ?t) (drop ?t input) = drop n input" by simp
      ultimately show ?thesis using less.IH [of "n - ?t" "drop ?t input"] less.prems unfolding s by simp
    qed
  qed
qed

lemma skip_by_reading_shorter: "length (fst (skip_by_reading sz n input)) \<le> length input"
proof (cases "sz = 0")
  case True
  then show ?thesis by (subst skip_by_reading.simps) simp
next
  case False
  then show ?thesis using skip_by_reading_drop [of sz n input] by simp
qed

lemma skip_shorter: "length (view (skip n r)) \<le> length (view r)"
  using skip_by_reading_shorter [of "rd_buf_size r" "n - length (rd_buf r)" "rd_input r"]
  by (auto simp: skip_def buf_skip_def view_def Let_def split: prod.split)

lemma skip_client [simp]: "same_client r (skip n r)"
  by (auto simp: skip_def buf_skip_def same_client_def Let_def split: prod.split)

lemma skip_buffered: "n \<le> length (rd_buf r) \<Longrightarrow> view (skip n r) = drop n (view r)"
  by (simp add: skip_def buf_skip_def view_def)

text \<open>In a consistent state the buffer behaves like the stream behind it.\<close>

lemma skip_view: "rd_ok r \<Longrightarrow> view (skip n r) = drop n (view r) \<and> rd_ok (skip n r)"
proof (cases "n \<le> length (rd_buf r)")
  case True
  then show "rd_ok r \<Longrightarrow> ?thesis" by (auto simp: skip_def buf_skip_def view_def rd_ok_def)
next
  case False
  then have d: "drop n (view r) = drop (n - length (rd_buf r)) (rd_input r)" by (simp add: view_def)
  assume ok: "rd_ok r"
  show ?thesis
  proof (cases "rd_seekable r \<and> rd_can_seek r")
    case True
    with False ok d show ?thesis by (simp add: skip_def buf_skip_def view_def rd_ok_def Let_def)
  next
    case noseek: False
    obtain i b where i: "skip_by_reading (rd_buf_size r) (n - length (rd_buf r)) (rd_input r) = (i, b)" by force
    with ok have "i = drop n (view r)" "\<not> b \<longrightarrow> i = []"
      using skip_by_reading_drop [of "rd_buf_size r" "n - length (rd_buf r)" "rd_input r"] d
      by (auto simp: rd_ok_def)
    with i noseek False ok show ?thesis
      by (auto simp: skip_def buf_skip_def view_def rd_ok_def Let_def)
  qed
qed

lemma buf_atleast_stream:
  assumes "rd_ok r"
  shows "\<exists>r'. buf_atleast n r = (r', n \<le> length (view r)) \<and> rd_ok r' \<and> view r' = view r \<and> same_client r r' \<and>
    (n \<le> length (view r) \<longrightarrow> n \<le> length (rd_buf r'))"
proof (cases "length (rd_buf r) \<ge> n")
  case True
  with assms show ?thesis by (simp add: buf_atleast_def view_def)
next
  case False
  show ?thesis
  proof (cases "rd_got_eof r")
    case True
    with assms False show ?thesis by (simp add: buf_atleast_def view_def rd_ok_def)
  next
    case eof: False
    let ?off = "if rd_buf_size r - rd_buf_offset r < n then 0 else rd_buf_offset r"
    let ?sz = "max (rd_buf_size r) n"
    let ?k = "?sz - ?off - length (rd_buf r)"
    have k: "n - length (rd_buf r) \<le> ?k" using False assms by (auto simp: rd_ok_def)
    let ?r = "r\<lparr>rd_buf_offset := ?off, rd_buf_size := ?sz,
        rd_got_eof := length (take ?k (rd_input r)) < ?k, rd_just_lseeked := False,
        rd_buf := rd_buf r @ take ?k (rd_input r), rd_input := drop ?k (rd_input r)\<rparr>"
    have "buf_atleast n r = (?r, length (rd_buf ?r) \<ge> n)"
      using False eof assms
      by (auto simp: buf_atleast_def read_fully_def rd_ok_def Let_def max_def)
    moreover have "length (rd_buf ?r) \<ge> n \<longleftrightarrow> n \<le> length (view r)"
      using k False by (auto simp: view_def)
    moreover have "rd_ok ?r" using assms False eof by (auto simp: rd_ok_def max_def)
    moreover have "view ?r = view r" "same_client r ?r" by (simp_all add: view_def same_client_def)
    ultimately show ?thesis by (intro exI [of _ ?r]) auto
  qed
qed

section \<open>The loop ends\<close>

lemma finish_attr_view: "finish_attr fs p t r = Inr (r', ok) \<Longrightarrow> view r' = view r"
  by (auto simp: finish_attr_def view_def Let_def split: option.splits if_splits prod.splits)

lemma finish_attrs_view: "finish_attrs fs ps s r = Inr (r', ok) \<Longrightarrow> view r' = view r"
proof (induction ps arbitrary: s r)
  case (Cons p ps)
  show ?case
  proof (cases s)
    case True
    with Cons.prems obtain q b where "finish_attr fs p True r = Inr (q, b)" "finish_attrs fs ps b q = Inr (r', ok)"
      by (auto simp: bind_r_eq_Inr_iff)
    with Cons.IH finish_attr_view show ?thesis by metis
  next
    case False
    with Cons show ?thesis by simp
  qed
qed simp

lemma finish_file_view: "finish_file ps fs t r = Inr (r', ok) \<Longrightarrow> view r' = view r"
  by (auto simp: finish_file_def map_r_def view_def split: sum.splits option.splits if_splits prod.splits
      dest!: finish_attrs_view)

lemma handle_hunk_view: "handle_hunk fs p h cb bs e r = Inr (r', ok) \<Longrightarrow> view r' = view r"
  by (auto simp: handle_hunk_def view_def Let_def split: option.splits if_splits prod.splits)

lemma view_fields [simp]:
  "view (r\<lparr>rd_user := u\<rparr>) = view r" "view (r\<lparr>rd_files := f\<rparr>) = view r" "view (r\<lparr>rd_heap := h\<rparr>) = view r"
  "view (r\<lparr>rd_next := n\<rparr>) = view r" "view (r\<lparr>rd_fs := x\<rparr>) = view r" "view (r\<lparr>rd_as := y\<rparr>) = view r"
  by (simp_all add: view_def)

lemma skip_after_atleast:
  assumes "buf_atleast n r = (q, True)"
  shows "length (view (skip n q)) + n = length (view r)"
proof -
  have q: "view q = view r" "n \<le> length (rd_buf q)"
    using buf_atleast_view [OF assms] buf_atleast_buf [OF assms] by simp_all
  then have "n \<le> length (view r)" by (metis view_def length_append trans_le_add1)
  moreover have "view (skip n q) = drop n (view r)" using skip_buffered [OF q(2)] q(1) by simp
  ultimately show ?thesis by simp
qed

definition not_longer :: "('u, 'f, 'a) reader \<Rightarrow> fault + ('u, 'f, 'a) reader flow \<Rightarrow> bool" where
  "not_longer r res \<longleftrightarrow> (\<forall>r'. res = Inr (Go_on r') \<longrightarrow> length (view r') \<le> length (view r))"

lemma not_longer_simps [simp]:
  "not_longer r (Inl e)" "not_longer r (Inr (Break q b))" "not_longer r (Inr (Reject q))"
  "not_longer r (Inr (Go_on q)) \<longleftrightarrow> length (view q) \<le> length (view r)"
  by (simp_all add: not_longer_def)

lemma not_longer_if [simp]: "not_longer r (if c then a else b) \<longleftrightarrow> (if c then not_longer r a else not_longer r b)"
  by simp

lemma read_eof_not_longer: "not_longer r (read_eof_record ps fs n r)"
  by (auto simp: read_eof_record_def not_longer_def map_r_def Let_def
      split: option.splits sum.splits prod.splits if_splits dest!: finish_file_view)

lemma read_empty_name_flow: "read_empty_name r \<noteq> Go_on r'"
  by (auto simp: read_empty_name_def split: prod.split)

lemma start_file_not_longer: "not_longer r (Inr (start_file ps n sz r))"
  using skip_shorter by (auto simp: start_file_def Let_def not_longer_def split: option.splits prod.splits
      intro: order_trans [OF skip_shorter])

lemma read_filename_not_longer: "not_longer r (read_filename_record ps fs n sz eoa r)"
proof -
  obtain q b where q: "buf_atleast sz r = (q, b)" by force
  have qv: "view q = view r" using buf_atleast_view [OF q] by simp
  have tail: "not_longer r (if \<not> success then Inr (Break u False) else if sz = 0 then Inr (read_empty_name u)
      else if \<not> eoa then Inr (Reject u) else Inr (start_file ps n sz u))"
    if "view u = view r" for u success
    using start_file_not_longer [of u ps n sz] that
    by (auto simp: not_longer_def read_empty_name_flow)
  show ?thesis
  proof (cases "\<not> b")
    case True
    with q show ?thesis by (simp add: read_filename_record_def)
  next
    case False
    show ?thesis
    proof (cases fs)
      case None
      with q False tail [OF qv, of True] show ?thesis by (simp add: read_filename_record_def)
    next
      case (Some f)
      show ?thesis
      proof (cases "finish_file ps f True (q\<lparr>rd_files := remove_fs (fs_filenum f) (rd_files q)\<rparr>)")
        case (Inl e)
        with q False Some show ?thesis by (simp add: read_filename_record_def)
      next
        case (Inr us)
        then obtain u s where u: "us = (u, s)" by force
        from finish_file_view [OF Inr [unfolded u]] qv have "view (u\<lparr>rd_as := None, rd_fs := None\<rparr>) = view r" by simp
        from tail [OF this, of s] q False Some Inr u show ?thesis by (simp add: read_filename_record_def)
      qed
    qed
  qed
qed

lemma read_single_not_longer: "read_single fs i h n r = Some flow \<Longrightarrow> not_longer r (Inr flow)"
proof -
  assume f: "read_single fs i h n r = Some flow"
  have two: "length (view (skip k (x\<lparr>rd_user := u\<rparr>))) \<le> length (view r)"
    if "buf_atleast m (skip l (r\<lparr>rd_user := v\<rparr>)) = (x, b)" for k x u m l v b
  proof -
    have "view x = view (skip l (r\<lparr>rd_user := v\<rparr>))" using buf_atleast_view [OF that] by simp
    then show ?thesis using skip_shorter [of k "x\<lparr>rd_user := u\<rparr>"] skip_shorter [of l "r\<lparr>rd_user := v\<rparr>"]
      by (simp add: order_trans)
  qed
  have one: "length (view (skip k (r\<lparr>rd_user := u\<rparr>))) \<le> length (view r)" for k u
    using skip_shorter [of k "r\<lparr>rd_user := u\<rparr>"] by simp
  from f show ?thesis
    by (auto simp: read_single_def Let_def skip_shorter one two
        split: option.splits prod.splits if_splits)
qed

lemma read_hunks_not_longer: "not_longer r (read_hunks fs p h n eoa r)"
proof (cases "hd_callback h")
  case None
  then show ?thesis by (simp add: read_hunks_def skip_shorter)
next
  case (Some cb)
  have one: "length (view (skip k q)) \<le> length (view r)" if "view q = view r" for k q
    using skip_shorter [of k q] that by simp
  have two: "length (view (skip k y)) \<le> length (view r)"
    if "view q = view r" "buf_atleast m (skip l q) = (x, b)" "view y = view x" for k x y m l q b
    using skip_shorter [of k y] skip_shorter [of l q] buf_atleast_view [OF that(2)] that(1,3)
    by (simp add: order_trans)
  show ?thesis
  proof (cases "length (rd_buf r) \<ge> n")
    case True
    with Some show ?thesis
      by (auto simp: read_hunks_def Let_def not_longer_def map_r_def one
          split: sum.splits prod.splits if_splits dest!: handle_hunk_view)
  next
    case False
    with Some show ?thesis
      by (auto simp: read_hunks_def Let_def not_longer_def map_r_def bind_r_def
          split: sum.splits prod.splits if_splits dest!: handle_hunk_view intro: two)
  qed
qed

lemma read_attribute_not_longer: "not_longer r (read_attribute ps fs i n eoa r)"
proof (cases "look_up_as fs i r")
  case (Inl e)
  then show ?thesis by (simp add: read_attribute_def)
next
  case (Inr as)
  let ?r = "r\<lparr>rd_as := as\<rparr>"
  let ?h = "case as of Some p \<Rightarrow> (case rd_heap r p of Some s \<Rightarrow> as_handling s | None \<Rightarrow> find_handling ps i)
                  | None \<Rightarrow> find_handling ps i"
  show ?thesis
  proof (cases "if eoa \<and> as = None then read_single fs i ?h n ?r else None")
    case (Some flow)
    then have "read_single fs i ?h n ?r = Some flow" by (simp split: if_splits)
    from read_single_not_longer [OF this] Inr Some show ?thesis
      by (simp add: read_attribute_def Let_def not_longer_def)
  next
    case None
    obtain q p where q: "(case as of Some p \<Rightarrow> (?r, p) | None \<Rightarrow> new_attr_state (fs_filenum fs) i ?h ?r) = (q, p)"
      by force
    then have qv: "view q = view r"
      by (auto simp: new_attr_state_def Let_def view_def split: option.splits)
    let ?q = "q\<lparr>rd_as := Some p\<rparr>"
    have v: "view (remove_attr m p u\<lparr>rd_as := x\<rparr>) = view u" "view (remove_attr m p u) = view u" for m u x
      by (simp_all add: remove_attr_def)
    have "not_longer r (bind_r (read_hunks fs p ?h n eoa ?q) (\<lambda>flow.
             case flow of
               Go_on r \<Rightarrow>
                 if eoa then
                   map_r (\<lambda>(r, success).
                     let r = remove_attr (fs_filenum fs) p r in
                     if success then Go_on (r\<lparr>rd_as := None\<rparr>) else Break r False)
                   (finish_attr fs p False r)
                 else Inr (Go_on r)
             | _ \<Rightarrow> Inr flow))"
      using read_hunks_not_longer [of ?q fs p ?h n eoa] qv
      by (auto simp: not_longer_def bind_r_def map_r_def Let_def v
          split: sum.splits flow.splits prod.splits if_splits dest!: finish_attr_view)
    then show ?thesis using Inr None q by (simp add: read_attribute_def Let_def)
  qed
qed

text \<open>Every round that goes on has taken at least a record header from the stream.\<close>

lemma read_header_shorter: "read_header r = Go_on r' \<Longrightarrow> length (view r') + RECORD_SIZE \<le> length (view r)"
  using skip_after_atleast [of HEADER_SIZE r]
  by (auto simp: read_header_def buffer_sizes split: prod.splits if_splits option.splits)

lemma read_iteration_shorter:
  assumes "read_iteration ps r = Inr (Go_on r')"
  shows "length (view r') + RECORD_SIZE \<le> length (view r)"
proof -
  obtain q b where q: "buf_atleast RECORD_SIZE r = (q, b)" by force
  have b: "b"
  proof (rule ccontr)
    assume "\<not> b"
    with assms q show False by (simp add: read_iteration_def)
  qed
  obtain f i n e where g: "GETRECORD (rd_buf q) = (f, i, n, e)" by (metis prod_cases4)
  show ?thesis
  proof (cases "f = MAGIC_FILENUM")
    case True
    with assms q b g have "read_header q = Go_on r'" by (simp add: read_iteration_def)
    with read_header_shorter buf_atleast_view [OF q] show ?thesis by fastforce
  next
    case False
    let ?fs = "find_file f (rd_files (skip RECORD_SIZE q))"
    let ?s = "(skip RECORD_SIZE q)\<lparr>rd_fs := map_option fs_filenum ?fs\<rparr>"
    have "length (view ?s) + RECORD_SIZE = length (view r)"
      using skip_after_atleast [OF q [unfolded eqTrueI [OF b]]] by simp
    moreover have "length (view r') \<le> length (view ?s)"
      using assms q b g False skip_shorter [of n ?s]
        read_eof_not_longer [of ?s ps ?fs n] read_filename_not_longer [of ?s ps ?fs f n e]
        read_attribute_not_longer [of ?s ps "the ?fs" i n e]
      by (auto simp: read_iteration_def Let_def not_longer_def split: if_splits option.splits)
    ultimately show ?thesis by simp
  qed
qed

lemma read_loop_fuel_enough: "length (view r) < RECORD_SIZE * n \<Longrightarrow> read_loop n ps r \<noteq> None"
proof (induction n arbitrary: r)
  case (Suc n)
  show ?case
  proof (cases "read_iteration ps r")
    case (Inr flow)
    show ?thesis
    proof (cases flow)
      case (Go_on q)
      with Inr read_iteration_shorter have "length (view q) + RECORD_SIZE \<le> length (view r)" by blast
      with Suc.prems have "length (view q) < RECORD_SIZE * n" by (simp add: RECORD_SIZE_def)
      with Suc.IH Inr Go_on show ?thesis by simp
    qed (simp_all add: Inr)
  qed simp
qed simp

section \<open>Properties of the loop\<close>

text \<open>C6: reading an archive always comes to an end, whatever bytes the archive holds and whatever the
  callbacks do: one round for every eight bytes, and one more, is enough.\<close>

theorem amar_read_terminates:
  fixes ps :: "('u, 'f, 'a) read_params"
  assumes "length input < 8 * fuel"
  shows "amar_read fuel ps input can_seek seekable user \<noteq> None"
proof -
  obtain q :: "('u, 'f, 'a) reader" and b
    where q: "buf_atleast RECORD_SIZE (new_reader input can_seek seekable user) = (q, b)" by force
  have "view q = input" using buf_atleast_view [OF q] by (simp add: new_reader_def view_def)
  then have "read_loop fuel ps q \<noteq> None"
    using assms by (intro read_loop_fuel_enough) (simp add: RECORD_SIZE_def)
  with q show ?thesis by (simp add: amar_read_def)
qed

text \<open>Callbacks that keep everything they are called with.\<close>

datatype event =
    Started "16 word" "byte list"
  | Data "16 word" "16 word" "nat option" "byte list" bool bool
  | Finished "16 word" bool

definition log_callback :: "(event list, nat, nat) attr_callback" where
  \<comment> \<open>counts its calls in the attribute's data\<close>
  "log_callback u f fd i d bytes eoa truncated =
     (u @ [Data f i d bytes eoa truncated], Some (case d of None \<Rightarrow> 1 | Some n \<Rightarrow> Suc n), True)"

definition log_params :: "(event list, nat, nat) read_params" where
  "log_params =
     \<lparr>p_handling = [\<lparr>hd_attrid = 16, hd_min_size = 0, hd_callback = Some log_callback\<rparr>],
      p_default = \<lparr>hd_attrid = 0, hd_min_size = 0, hd_callback = None\<rparr>,
      p_file_start = Some (\<lambda>u f name. (u @ [Started f name], False, None, True)),
      p_file_finish = Some (\<lambda>u f fd truncated. (u @ [Finished f truncated], True))\<rparr>"

theorem amar_read_terminates_witness:
  "amar_read 4 log_params (archive_header) True True [] \<noteq> None"
  by (rule amar_read_terminates) (simp add: HEADER_SIZE_def)

end
