(* ===== verification/Xfer_Link.thy ===== *)
theory Xfer_Link
  imports Amanda_Prelude
begin

text \<open>
  Linking the elements of a transfer (\<open>xfer-src/xfer.c\<close>, with the mechanism pairs of
  \<open>xfer-element.h\<close> and \<open>element-glue.c\<close>). Every element offers pairs of an input and an output
  mechanism, each with a cost; \<open>link_recurse\<close> searches all choices of one pair per element, with or
  without a glue element behind it, and keeps the cheapest, abandoning a branch as soon as it costs
  as much as the best one found. What is proved: the search finds a cheapest linkage if there is
  one below the maximum cost, \<open>link_elements\<close> installs exactly that linkage, its neighbours agree on
  their mechanism, and the glue table is complete, so that every source, filters and destination
  can be linked.
\<close>

section \<open>Mechanisms and elements\<close>

datatype xfer_mech =
    XFER_MECH_NONE | XFER_MECH_READFD | XFER_MECH_WRITEFD | XFER_MECH_PULL_BUFFER
  | XFER_MECH_PUSH_BUFFER | XFER_MECH_DIRECTTCP_LISTEN | XFER_MECH_DIRECTTCP_CONNECT

record mech_pair =
  input_mech :: xfer_mech
  output_mech :: xfer_mech
  ops_per_byte :: byte
  nthreads :: byte

abbreviation pair :: "xfer_mech \<Rightarrow> xfer_mech \<Rightarrow> byte \<Rightarrow> byte \<Rightarrow> mech_pair" where
  "pair i o' ops threads \<equiv> \<lparr>input_mech = i, output_mech = o', ops_per_byte = ops, nthreads = threads\<rparr>"

text \<open>An array of pairs ends with the first entry that has no mechanism at all.\<close>

definition terminator :: mech_pair where
  "terminator = pair XFER_MECH_NONE XFER_MECH_NONE 0 0"

definition is_terminator :: "mech_pair \<Rightarrow> bool" where
  "is_terminator p \<longleftrightarrow> input_mech p = XFER_MECH_NONE \<and> output_mech p = XFER_MECH_NONE"

definition entries :: "mech_pair list \<Rightarrow> mech_pair list" where
  "entries ps = takeWhile (\<lambda>p. \<not> is_terminator p) ps"

definition first_pair :: "mech_pair list \<Rightarrow> mech_pair" where
  "first_pair ps = (case ps of [] \<Rightarrow> terminator | p # _ \<Rightarrow> p)"

definition xfer_element_glue_mech_pairs :: "mech_pair list" where
  "xfer_element_glue_mech_pairs =
     [pair XFER_MECH_READFD XFER_MECH_WRITEFD 2 1,
      pair XFER_MECH_READFD XFER_MECH_PUSH_BUFFER 1 1,
      pair XFER_MECH_READFD XFER_MECH_PULL_BUFFER 1 0,
      pair XFER_MECH_READFD XFER_MECH_DIRECTTCP_LISTEN 2 1,
      pair XFER_MECH_READFD XFER_MECH_DIRECTTCP_CONNECT 2 1,
      pair XFER_MECH_WRITEFD XFER_MECH_READFD 0 0,
      pair XFER_MECH_WRITEFD XFER_MECH_PUSH_BUFFER 1 1,
      pair XFER_MECH_WRITEFD XFER_MECH_PULL_BUFFER 1 0,
      pair XFER_MECH_WRITEFD XFER_MECH_DIRECTTCP_LISTEN 2 1,
      pair XFER_MECH_WRITEFD XFER_MECH_DIRECTTCP_CONNECT 2 1,
      pair XFER_MECH_PUSH_BUFFER XFER_MECH_READFD 1 0,
      pair XFER_MECH_PUSH_BUFFER XFER_MECH_WRITEFD 1 0,
      pair XFER_MECH_PUSH_BUFFER XFER_MECH_PULL_BUFFER 0 0,
      pair XFER_MECH_PUSH_BUFFER XFER_MECH_DIRECTTCP_LISTEN 1 0,
      pair XFER_MECH_PUSH_BUFFER XFER_MECH_DIRECTTCP_CONNECT 1 0,
      pair XFER_MECH_PULL_BUFFER XFER_MECH_READFD 1 1,
      pair XFER_MECH_PULL_BUFFER XFER_MECH_WRITEFD 1 1,
      pair XFER_MECH_PULL_BUFFER XFER_MECH_PUSH_BUFFER 0 1,
      pair XFER_MECH_PULL_BUFFER XFER_MECH_DIRECTTCP_LISTEN 1 1,
      pair XFER_MECH_PULL_BUFFER XFER_MECH_DIRECTTCP_CONNECT 1 1,
      pair XFER_MECH_DIRECTTCP_LISTEN XFER_MECH_READFD 2 1,
      pair XFER_MECH_DIRECTTCP_LISTEN XFER_MECH_WRITEFD 2 1,
      pair XFER_MECH_DIRECTTCP_LISTEN XFER_MECH_PUSH_BUFFER 1 1,
      pair XFER_MECH_DIRECTTCP_LISTEN XFER_MECH_PULL_BUFFER 1 0,
      pair XFER_MECH_DIRECTTCP_LISTEN XFER_MECH_DIRECTTCP_CONNECT 2 1,
      pair XFER_MECH_DIRECTTCP_CONNECT XFER_MECH_READFD 2 1,
      pair XFER_MECH_DIRECTTCP_CONNECT XFER_MECH_WRITEFD 2 1,
      pair XFER_MECH_DIRECTTCP_CONNECT XFER_MECH_PUSH_BUFFER 1 1,
      pair XFER_MECH_DIRECTTCP_CONNECT XFER_MECH_PULL_BUFFER 1 0,
      pair XFER_MECH_DIRECTTCP_CONNECT XFER_MECH_DIRECTTCP_LISTEN 2 1,
      terminator]"

text \<open>
  An element of the class \<open>XferElement\<close>; \<open>xe_repr\<close> names it, \<open>xe_attached\<close> says that it has a transfer,
  \<open>xe_upstream\<close> and \<open>xe_downstream\<close> are
  places in the transfer's array. \<open>get_mech_pairs\<close> answers with the table of the element's class.
\<close>

record xfer_element =
  xe_repr :: string
  xe_attached :: bool
  xe_mech_pairs :: "mech_pair list"
  xe_input_mech :: xfer_mech
  xe_output_mech :: xfer_mech
  xe_upstream :: "nat option"
  xe_downstream :: "nat option"
  xe_cancelled :: bool
  xe_expect_eof :: bool
  xe_can_generate_eof :: bool
  xe_size :: int

definition xfer_element_init :: "string \<Rightarrow> mech_pair list \<Rightarrow> xfer_element" where
  "xfer_element_init repr pairs =
     \<lparr>xe_repr = repr, xe_attached = False, xe_mech_pairs = pairs, xe_input_mech = XFER_MECH_NONE, xe_output_mech = XFER_MECH_NONE,
      xe_upstream = None, xe_downstream = None, xe_cancelled = False, xe_expect_eof = False,
      xe_can_generate_eof = False, xe_size = 0\<rparr>"

definition xfer_element_glue :: xfer_element where
  "xfer_element_glue =
     (xfer_element_init ''XferElementGlue'' xfer_element_glue_mech_pairs)\<lparr>xe_can_generate_eof := True\<rparr>"

section \<open>The search\<close>

definition PAIR_COST :: "mech_pair \<Rightarrow> nat" where
  "PAIR_COST p = unat (ops_per_byte p) * 2 ^ 8 + unat (nthreads p)"

definition MAX_COST :: nat where "MAX_COST = 0xffffff"

text \<open>The choice for one element: the place in its pairs, and in the glue pairs or \<open>- 1\<close>.\<close>

type_synonym linkage = "nat \<times> int"

record linking_state =
  best :: "linkage list"
  best_cost :: nat

text \<open>
  The search over the pairs of the remaining elements. \<open>cur\<close> holds the choices of the elements in
  front. The cost fits \<open>gint32\<close>: it is below \<open>MAX_COST\<close> when the search goes on, and one element
  adds less than \<open>2 ^ 17\<close>.
\<close>

primrec link_recurse ::
  "mech_pair list \<Rightarrow> mech_pair list list \<Rightarrow> xfer_mech \<Rightarrow> nat \<Rightarrow> linkage list \<Rightarrow> linking_state \<Rightarrow> linking_state" where
  "link_recurse glue [] = (\<lambda>mech cost cur st.
     if cost \<ge> best_cost st then st
     else if mech \<noteq> XFER_MECH_NONE then st
     else \<lparr>best = cur, best_cost = cost\<rparr>)"
| "link_recurse glue (ps # rest) = (\<lambda>mech cost cur st.
     if cost \<ge> best_cost st then st
     else
       fold (\<lambda>(i, p) st.
         if input_mech p \<noteq> mech then st
         else
           let st = link_recurse glue rest (output_mech p) (cost + PAIR_COST p) (cur @ [(i, - 1)]) st in
           fold (\<lambda>(j, g) st.
             if input_mech g \<noteq> output_mech p then st
             else link_recurse glue rest (output_mech g) (cost + PAIR_COST p + PAIR_COST g)
                    (cur @ [(i, int j)]) st)
             (enumerate 0 (entries glue)) st)
         (enumerate 0 (entries ps)) st)"

definition linked ::
  "mech_pair list \<Rightarrow> xfer_element \<Rightarrow> linkage \<Rightarrow> xfer_element list" where
  \<comment> \<open>the element with its mechanisms, and the glue element behind it, if there is one\<close>
  "linked glue elt l =
     (let p = (entries (xe_mech_pairs elt)) ! fst l; g = (entries glue) ! nat (snd l) in
      elt\<lparr>xe_input_mech := input_mech p, xe_output_mech := output_mech p\<rparr>
      # (if snd l \<noteq> - 1
         then [xfer_element_glue\<lparr>xe_attached := True, xe_input_mech := input_mech g, xe_output_mech := output_mech g\<rparr>]
         else []))"

definition link_elements :: "xfer_element list \<Rightarrow> fault + xfer_element list" where
  "link_elements elements =
     (let glue = xfer_element_glue_mech_pairs; pairs = map xe_mech_pairs elements in
      if elements = [] then Inl Out_of_bounds
      else if input_mech (first_pair (hd pairs)) \<noteq> XFER_MECH_NONE then Inl Assertion_failed
      else if output_mech (first_pair (List.last pairs)) \<noteq> XFER_MECH_NONE then Inl Assertion_failed
      else
        let st = link_recurse glue pairs XFER_MECH_NONE 0 [] \<lparr>best = [], best_cost = MAX_COST\<rparr> in
        if best_cost st = MAX_COST then Inl Assertion_failed
        else Inr (concat (map2 (linked glue) elements (best st))))"

section \<open>What a linkage is, and what it costs\<close>

fun link_cost :: "mech_pair list \<Rightarrow> mech_pair list list \<Rightarrow> xfer_mech \<Rightarrow> linkage list \<Rightarrow> nat option" where
  "link_cost glue [] mech [] = (if mech = XFER_MECH_NONE then Some 0 else None)"
| "link_cost glue (ps # rest) mech ((i, j) # l) =
     (if \<not> (i < length (entries ps) \<and> input_mech (entries ps ! i) = mech) then None
      else
        let p = entries ps ! i in
        if j = - 1 then map_option ((+) (PAIR_COST p)) (link_cost glue rest (output_mech p) l)
        else if 0 \<le> j \<and> nat j < length (entries glue) \<and> input_mech (entries glue ! nat j) = output_mech p then
          let g = entries glue ! nat j in
          map_option ((+) (PAIR_COST p + PAIR_COST g)) (link_cost glue rest (output_mech g) l)
        else None)"
| "link_cost glue _ mech _ = None"

text \<open>The linkages a call of the search looks at, with their costs.\<close>

definition continuations ::
  "mech_pair list \<Rightarrow> mech_pair list list \<Rightarrow> xfer_mech \<Rightarrow> nat \<Rightarrow> linkage list \<Rightarrow> (linkage list \<times> nat) set" where
  "continuations glue pss mech cost cur =
     {(cur @ l, cost + c) | l c. link_cost glue pss mech l = Some c}"

text \<open>A part of the search has looked at all of \<open>S\<close>: nothing of it is cheaper than what is kept.\<close>

definition searched :: "(linkage list \<times> nat) set \<Rightarrow> linking_state \<Rightarrow> linking_state \<Rightarrow> bool" where
  "searched S st st' \<longleftrightarrow>
     best_cost st' \<le> best_cost st \<and> (\<forall>x \<in> S. best_cost st' \<le> snd x) \<and>
     (st' = st \<or> best_cost st' < best_cost st \<and> (best st', best_cost st') \<in> S)"

lemma searched_none: "searched {} st st"
  by (simp add: searched_def)

lemma searched_Un:
  assumes "searched S st st'" and "searched T st' st''"
  shows "searched (S \<union> T) st st''"
proof -
  have le: "best_cost st'' \<le> best_cost st'" using assms(2) by (simp add: searched_def)
  moreover have "\<forall>x \<in> S \<union> T. best_cost st'' \<le> snd x"
    using assms le unfolding searched_def by (meson UnE le_trans)
  ultimately show ?thesis
    using assms unfolding searched_def by auto
qed

lemma searched_fold:
  assumes "\<And>x st. x \<in> set xs \<Longrightarrow> searched (S x) st (f x st)"
  shows "searched (\<Union>x \<in> set xs. S x) st (fold f xs st)"
  using assms
proof (induction xs arbitrary: st)
  case (Cons x xs)
  have "searched (S x) st (f x st)" by (rule Cons.prems) simp
  moreover have "searched (\<Union>x \<in> set xs. S x) (f x st) (fold f xs (f x st))"
    by (rule Cons.IH) (simp add: Cons.prems)
  ultimately show ?case using searched_Un by fastforce
qed (simp add: searched_none)

text \<open>A branch that already costs as much as the best linkage can be left.\<close>

lemma searched_too_dear:
  "best_cost st \<le> cost \<Longrightarrow> searched (continuations glue pss mech cost cur) st st"
  by (auto simp: searched_def continuations_def)

definition through_pair ::
  "mech_pair list \<Rightarrow> mech_pair list list \<Rightarrow> xfer_mech \<Rightarrow> nat \<Rightarrow> linkage list \<Rightarrow> nat \<times> mech_pair \<Rightarrow>
   (linkage list \<times> nat) set" where
  \<comment> \<open>the linkages that choose this pair for the first element\<close>
  "through_pair glue rest mech cost cur = (\<lambda>(i, p).
     if input_mech p \<noteq> mech then {}
     else
       continuations glue rest (output_mech p) (cost + PAIR_COST p) (cur @ [(i, - 1)]) \<union>
       (\<Union>(j, g) \<in> set (enumerate 0 (entries glue)).
          if input_mech g \<noteq> output_mech p then {}
          else continuations glue rest (output_mech g) (cost + PAIR_COST p + PAIR_COST g)
                 (cur @ [(i, int j)])))"

lemma in_enumerate: "(i, p) \<in> set (enumerate 0 xs) \<longleftrightarrow> i < length xs \<and> p = xs ! i"
  by (auto simp: in_set_enumerate_eq)

lemma list_ex_enumerate: "list_ex P xs \<longleftrightarrow> (\<exists>i x. (i, x) \<in> set (enumerate 0 xs) \<and> P x)"
  by (auto simp: list_ex_iff in_enumerate) (auto simp: in_set_conv_nth)

lemma link_cost_Nil_iff: "link_cost glue [] mech l = Some c \<longleftrightarrow> l = [] \<and> mech = XFER_MECH_NONE \<and> c = 0"
  by (cases l) auto

lemma link_cost_Cons_iff:
  "link_cost glue (ps # rest) mech l = Some c \<longleftrightarrow>
     (\<exists>i p l' c'. l = (i, - 1) # l' \<and> (i, p) \<in> set (enumerate 0 (entries ps)) \<and> input_mech p = mech \<and>
        link_cost glue rest (output_mech p) l' = Some c' \<and> c = PAIR_COST p + c') \<or>
     (\<exists>i p j g l' c'. l = (i, int j) # l' \<and> (i, p) \<in> set (enumerate 0 (entries ps)) \<and> input_mech p = mech \<and>
        (j, g) \<in> set (enumerate 0 (entries glue)) \<and> input_mech g = output_mech p \<and>
        link_cost glue rest (output_mech g) l' = Some c' \<and> c = PAIR_COST p + PAIR_COST g + c')"
  (is "?L \<longleftrightarrow> ?A \<or> ?B")
proof
  assume L: ?L
  then obtain i j l' where l: "l = (i, j) # l'" by (cases l) auto
  show "?A \<or> ?B"
  proof (cases "j = - 1")
    case True
    then have ?A using L l by (auto simp: in_enumerate Let_def split: if_splits)
    then show ?thesis ..
  next
    case False
    then obtain k where "j = int k" using L l by (auto simp: Let_def split: if_splits intro: nonneg_int_cases)
    then have ?B using L l by (auto simp: in_enumerate Let_def split: if_splits)
    then show ?thesis ..
  qed
next
  assume "?A \<or> ?B"
  then show ?L by (elim disjE exE conjE) (auto simp: in_enumerate Let_def)
qed

lemma link_cost_no_glueI:
  "(i, p) \<in> set (enumerate 0 (entries ps)) \<Longrightarrow> link_cost glue rest (output_mech p) l = Some c \<Longrightarrow>
   link_cost glue (ps # rest) (input_mech p) ((i, - 1) # l) = Some (PAIR_COST p + c)"
  by (simp add: in_enumerate Let_def)

lemma link_cost_glueI:
  "(i, p) \<in> set (enumerate 0 (entries ps)) \<Longrightarrow> (j, g) \<in> set (enumerate 0 (entries glue)) \<Longrightarrow>
   input_mech g = output_mech p \<Longrightarrow> link_cost glue rest (output_mech g) l = Some c \<Longrightarrow>
   link_cost glue (ps # rest) (input_mech p) ((i, int j) # l) = Some (PAIR_COST p + PAIR_COST g + c)"
  by (simp add: in_enumerate Let_def)

lemma continuations_Cons:
  "continuations glue (ps # rest) mech cost cur =
     (\<Union>x \<in> set (enumerate 0 (entries ps)). through_pair glue rest mech cost cur x)"
  (is "?C = ?U")
proof (rule set_eqI)
  fix x :: "linkage list \<times> nat"
  obtain k n where x: "x = (k, n)" by (cases x)
  have "x \<in> ?C \<longleftrightarrow> (\<exists>l c. k = cur @ l \<and> n = cost + c \<and> link_cost glue (ps # rest) mech l = Some c)"
    by (auto simp: continuations_def x)
  also have "\<dots> \<longleftrightarrow> x \<in> ?U"
    unfolding link_cost_Cons_iff through_pair_def continuations_def x
    by (auto split: if_splits) (fastforce)+
  finally show "x \<in> ?C \<longleftrightarrow> x \<in> ?U" .
qed

lemma link_recurse_searches:
  "searched (continuations glue pss mech cost cur) st (link_recurse glue pss mech cost cur st)"
proof (induction pss arbitrary: mech cost cur st)
  case Nil
  have "continuations glue [] mech cost cur = (if mech = XFER_MECH_NONE then {(cur, cost)} else {})"
    by (auto simp: continuations_def link_cost_Nil_iff)
  then show ?case by (simp add: searched_def)
next
  case (Cons ps rest)
  show ?case
  proof (cases "best_cost st \<le> cost")
    case True
    then show ?thesis by (simp add: searched_too_dear)
  next
    case False
    then show ?thesis
      unfolding continuations_Cons
      by (auto simp: Let_def through_pair_def searched_none
          intro!: searched_fold searched_Un Cons.IH split: prod.splits)
  qed
qed

lemma link_cost_length: "link_cost glue pss mech l = Some c \<Longrightarrow> length l = length pss"
  by (induction glue pss mech l arbitrary: c rule: link_cost.induct) (auto simp: Let_def split: if_splits)

text \<open>What \<open>link_elements\<close> finds, in terms of the linkages there are.\<close>

lemma link_elements_result:
  assumes "link_elements elements = Inr new"
  shows "\<exists>l c. link_cost xfer_element_glue_mech_pairs (map xe_mech_pairs elements) XFER_MECH_NONE l = Some c \<and>
           c < MAX_COST \<and> new = concat (map2 (linked xfer_element_glue_mech_pairs) elements l) \<and>
           (\<forall>l' c'. link_cost xfer_element_glue_mech_pairs (map xe_mech_pairs elements) XFER_MECH_NONE l' = Some c'
                \<longrightarrow> c \<le> c')"
proof -
  let ?glue = xfer_element_glue_mech_pairs and ?pss = "map xe_mech_pairs elements"
  let ?start = "\<lparr>best = [], best_cost = MAX_COST\<rparr>"
  let ?st = "link_recurse ?glue ?pss XFER_MECH_NONE 0 [] ?start"
  have ok: "best_cost ?st \<noteq> MAX_COST" "new = concat (map2 (linked ?glue) elements (best ?st))"
    using assms by (auto simp: link_elements_def Let_def split: if_splits)
  have "searched (continuations ?glue ?pss XFER_MECH_NONE 0 []) ?start ?st"
    by (rule link_recurse_searches)
  then show ?thesis
    using ok unfolding searched_def continuations_def
    by (intro exI [of _ "best ?st"] exI [of _ "best_cost ?st"]) fastforce
qed

lemma link_elements_succeeds:
  assumes "elements \<noteq> []"
    and "input_mech (first_pair (xe_mech_pairs (hd elements))) = XFER_MECH_NONE"
    and "output_mech (first_pair (xe_mech_pairs (List.last elements))) = XFER_MECH_NONE"
    and "link_cost xfer_element_glue_mech_pairs (map xe_mech_pairs elements) XFER_MECH_NONE l = Some c"
    and "c < MAX_COST"
  shows "\<exists>new. link_elements elements = Inr new"
proof -
  let ?glue = xfer_element_glue_mech_pairs and ?pss = "map xe_mech_pairs elements"
  let ?start = "\<lparr>best = [], best_cost = MAX_COST\<rparr>"
  let ?st = "link_recurse ?glue ?pss XFER_MECH_NONE 0 [] ?start"
  have "searched (continuations ?glue ?pss XFER_MECH_NONE 0 []) ?start ?st"
    by (rule link_recurse_searches)
  then have "best_cost ?st \<le> c" using assms(4) by (fastforce simp: searched_def continuations_def)
  then show ?thesis
    using assms(1-3,5) by (auto simp: link_elements_def Let_def hd_map last_map)
qed

section \<open>Neighbours agree\<close>

fun chained :: "xfer_mech \<Rightarrow> xfer_element list \<Rightarrow> bool" where
  \<comment> \<open>every element takes its input the way its neighbour in front gives it, and the last gives none\<close>
  "chained mech [] \<longleftrightarrow> mech = XFER_MECH_NONE"
| "chained mech (x # xs) \<longleftrightarrow> xe_input_mech x = mech \<and> chained (xe_output_mech x) xs"

lemma linked_chained:
  "link_cost glue (map xe_mech_pairs elements) mech l = Some c \<Longrightarrow>
   chained mech (concat (map2 (linked glue) elements l))"
proof (induction elements arbitrary: mech l c)
  case (Cons x xs)
  then show ?case
    by (auto simp: link_cost_Cons_iff in_enumerate linked_def Let_def)
qed (simp add: link_cost_Nil_iff)

lemma linked_elements:
  "link_cost glue (map xe_mech_pairs elements) mech l = Some c \<Longrightarrow>
   (\<forall>x \<in> set elements. xe_repr x \<noteq> ''XferElementGlue'') \<Longrightarrow>
   map xe_repr (filter (\<lambda>x. xe_repr x \<noteq> ''XferElementGlue'') (concat (map2 (linked glue) elements l))) =
     map xe_repr elements"
proof (induction elements arbitrary: mech l c)
  case (Cons x xs)
  then show ?case
    by (auto simp: link_cost_Cons_iff linked_def Let_def xfer_element_glue_def xfer_element_init_def)
qed (simp add: link_cost_Nil_iff)

section \<open>Everything can be linked\<close>

fun passes :: "xfer_mech \<Rightarrow> mech_pair list list \<Rightarrow> bool" where
  \<comment> \<open>the data can go through the elements if any mechanism can be turned into any other\<close>
  "passes mech [] \<longleftrightarrow> mech = XFER_MECH_NONE"
| "passes mech (ps # rest) \<longleftrightarrow>
     mech \<noteq> XFER_MECH_NONE \<and>
     list_ex (\<lambda>q. input_mech q \<noteq> XFER_MECH_NONE \<and> passes (output_mech q) rest) (entries ps)"

lemma glue_complete:
  assumes "m \<noteq> XFER_MECH_NONE" and "m' \<noteq> XFER_MECH_NONE" and "m \<noteq> m'"
  shows "\<exists>j g. (j, g) \<in> set (enumerate 0 (entries xfer_element_glue_mech_pairs)) \<and>
           input_mech g = m \<and> output_mech g = m' \<and> PAIR_COST g \<le> 513"
proof -
  have "list_ex (\<lambda>g. input_mech g = m \<and> output_mech g = m' \<and> PAIR_COST g \<le> 513)
          (entries xfer_element_glue_mech_pairs)"
    using assms
    by (cases m; cases m')
      (simp_all add: xfer_element_glue_mech_pairs_def entries_def is_terminator_def terminator_def PAIR_COST_def)
  then show ?thesis unfolding list_ex_enumerate by blast
qed

lemma PAIR_COST_le: "PAIR_COST p \<le> 65535"
proof -
  have "unat (ops_per_byte p) < 256" "unat (nthreads p) < 256"
    using unsigned_less [of "ops_per_byte p"] unsigned_less [of "nthreads p"] by simp_all
  then show ?thesis by (simp add: PAIR_COST_def)
qed

lemma passes_linked:
  assumes "(i, p) \<in> set (enumerate 0 (entries ps))" and "passes (output_mech p) rest"
  shows "\<exists>l c. link_cost xfer_element_glue_mech_pairs (ps # rest) (input_mech p) l = Some c \<and>
           c \<le> 66048 * length (ps # rest)"
  using assms
proof (induction rest arbitrary: i p ps)
  case Nil
  have "link_cost xfer_element_glue_mech_pairs [ps] (input_mech p) [(i, - 1)] = Some (PAIR_COST p)"
    using Nil by (auto simp: in_enumerate)
  with PAIR_COST_le [of p] show ?case by (intro exI conjI) (assumption, simp)
next
  case (Cons ps' rest)
  then obtain k q where q: "(k, q) \<in> set (enumerate 0 (entries ps'))"
    "input_mech q \<noteq> XFER_MECH_NONE" "passes (output_mech q) rest" "output_mech p \<noteq> XFER_MECH_NONE"
    unfolding passes.simps list_ex_enumerate by blast
  from Cons.IH [OF q(1,3)] obtain l c where
    l: "link_cost xfer_element_glue_mech_pairs (ps' # rest) (input_mech q) l = Some c"
      "c \<le> 66048 * length (ps' # rest)" by blast
  show ?case
  proof (cases "output_mech p = input_mech q")
    case True
    then have "link_cost xfer_element_glue_mech_pairs (ps' # rest) (output_mech p) l = Some c"
      using l(1) by simp
    then have "link_cost xfer_element_glue_mech_pairs (ps # ps' # rest) (input_mech p) ((i, - 1) # l) =
        Some (PAIR_COST p + c)"
      using Cons.prems(1) by (intro link_cost_no_glueI)
    with l(2) PAIR_COST_le [of p] show ?thesis by (intro exI conjI) (assumption, simp)
  next
    case False
    then obtain j g where g: "(j, g) \<in> set (enumerate 0 (entries xfer_element_glue_mech_pairs))"
      "input_mech g = output_mech p" "output_mech g = input_mech q" "PAIR_COST g \<le> 513"
      using glue_complete [of "output_mech p" "input_mech q"] q(2,4) by auto
    then have "link_cost xfer_element_glue_mech_pairs (ps # ps' # rest) (input_mech p) ((i, int j) # l) =
        Some (PAIR_COST p + PAIR_COST g + c)"
      using Cons.prems(1) l by (intro link_cost_glueI) simp_all
    with l(2) g(4) PAIR_COST_le [of p] show ?thesis by (intro exI conjI) (assumption, simp)
  qed
qed

lemma passable_links:
  assumes "elements = source # rest" and "length elements \<le> 254"
    and "input_mech (first_pair (xe_mech_pairs source)) = XFER_MECH_NONE"
    and "output_mech (first_pair (xe_mech_pairs (List.last elements))) = XFER_MECH_NONE"
    and "p \<in> set (entries (xe_mech_pairs source))" and "input_mech p = XFER_MECH_NONE"
    and "passes (output_mech p) (map xe_mech_pairs rest)"
  shows "\<exists>new. link_elements elements = Inr new"
proof -
  have "list_ex (\<lambda>x. x = p) (entries (xe_mech_pairs source))" using assms(5) by (auto simp: list_ex_iff)
  then obtain i where "(i, p) \<in> set (enumerate 0 (entries (xe_mech_pairs source)))"
    unfolding list_ex_enumerate by blast
  from passes_linked [OF this assms(7)] obtain l c where
    l: "link_cost xfer_element_glue_mech_pairs (map xe_mech_pairs elements) XFER_MECH_NONE l = Some c"
    and c: "c \<le> 66048 * length elements" using assms(1,6) by auto
  from c assms(2) have "c < MAX_COST" by (simp add: MAX_COST_def)
  with l show ?thesis using assms(1,3,4) by (intro link_elements_succeeds) auto
qed

section \<open>Properties\<close>

text \<open>C7: linking a transfer installs a cheapest linkage: the elements in order, each with one of its own
  pairs and at most one glue element behind it, so that no other choice of pairs and glue that
  connects them costs less.\<close>

theorem link_elements_cheapest:
  assumes "link_elements elements = Inr new"
  shows "\<exists>l c. link_cost xfer_element_glue_mech_pairs (map xe_mech_pairs elements) XFER_MECH_NONE l = Some c \<and>
           c < MAX_COST \<and> new = concat (map2 (linked xfer_element_glue_mech_pairs) elements l) \<and>
           (\<forall>l' c'. link_cost xfer_element_glue_mech_pairs (map xe_mech_pairs elements) XFER_MECH_NONE l' = Some c'
                \<longrightarrow> c \<le> c')"
  by (rule link_elements_result [OF assms])

text \<open>The elements of the examples: a file as source, a process as filter, a buffer as destination.\<close>

definition source_fd :: xfer_element where
  "source_fd = xfer_element_init ''XferSourceFd'' [pair XFER_MECH_NONE XFER_MECH_READFD 0 0, terminator]"

definition filter_process :: xfer_element where
  "filter_process = xfer_element_init ''XferFilterProcess'' [pair XFER_MECH_READFD XFER_MECH_WRITEFD 1 0, terminator]"

definition filter_xor :: xfer_element where
  "filter_xor = xfer_element_init ''XferFilterXor''
     [pair XFER_MECH_PULL_BUFFER XFER_MECH_PULL_BUFFER 1 0, pair XFER_MECH_PUSH_BUFFER XFER_MECH_PUSH_BUFFER 1 0,
      terminator]"

definition dest_buffer :: xfer_element where
  "dest_buffer = xfer_element_init ''XferDestBuffer'' [pair XFER_MECH_PUSH_BUFFER XFER_MECH_NONE 0 0, terminator]"

lemma example_links:
  "\<exists>new. link_elements [source_fd, filter_xor, dest_buffer] = Inr new"
  by (rule passable_links [where source = source_fd and rest = "[filter_xor, dest_buffer]"
        and p = "pair XFER_MECH_NONE XFER_MECH_READFD 0 0"])
    (simp_all add: source_fd_def filter_xor_def dest_buffer_def xfer_element_init_def
      first_pair_def entries_def is_terminator_def terminator_def)

theorem link_elements_cheapest_witness:
  "\<exists>l c new. link_elements [source_fd, filter_xor, dest_buffer] = Inr new \<and>
     link_cost xfer_element_glue_mech_pairs (map xe_mech_pairs [source_fd, filter_xor, dest_buffer])
       XFER_MECH_NONE l = Some c \<and> c < MAX_COST"
  using example_links link_elements_cheapest [of "[source_fd, filter_xor, dest_buffer]"] by blast

text \<open>In the linked transfer every element takes its data by the mechanism by which its neighbour in
  front gives it, the first takes nothing and the last gives nothing, and the caller's elements are
  all there, in their order, with only glue elements between them.\<close>

theorem link_elements_connects:
  assumes "link_elements elements = Inr new"
    and "\<forall>x \<in> set elements. xe_repr x \<noteq> ''XferElementGlue''"
  shows "chained XFER_MECH_NONE new \<and>
         map xe_repr (filter (\<lambda>x. xe_repr x \<noteq> ''XferElementGlue'') new) = map xe_repr elements"
  using link_elements_result [OF assms(1)] linked_chained linked_elements assms(2) by blast

theorem link_elements_connects_witness:
  "\<exists>new. link_elements [source_fd, filter_xor, dest_buffer] = Inr new \<and> chained XFER_MECH_NONE new \<and>
     map xe_repr (filter (\<lambda>x. xe_repr x \<noteq> ''XferElementGlue'') new) =
       [''XferSourceFd'', ''XferFilterXor'', ''XferDestBuffer'']"
  using example_links link_elements_connects [of "[source_fd, filter_xor, dest_buffer]"]
  by (fastforce simp: source_fd_def filter_xor_def dest_buffer_def xfer_element_init_def)

text \<open>C8: the glue table turns every mechanism into every other, so a transfer of up to 254 elements that
  starts with a source, ends with a destination and has an input and an output at every filter can
  always be linked, however expensive its pairs are: the search never gives up for lack of a way.\<close>

theorem link_elements_total:
  assumes "elements = source # rest" and "length elements \<le> 254"
    and "input_mech (first_pair (xe_mech_pairs source)) = XFER_MECH_NONE"
    and "output_mech (first_pair (xe_mech_pairs (List.last elements))) = XFER_MECH_NONE"
    and "p \<in> set (entries (xe_mech_pairs source))" and "input_mech p = XFER_MECH_NONE"
    and "passes (output_mech p) (map xe_mech_pairs rest)"
  shows "\<exists>new. link_elements elements = Inr new"
  using passable_links [OF assms] .

theorem link_elements_total_witness:
  "\<exists>new. link_elements [source_fd, filter_process, filter_xor, dest_buffer] = Inr new"
  by (rule link_elements_total [where source = source_fd and rest = "[filter_process, filter_xor, dest_buffer]"
        and p = "pair XFER_MECH_NONE XFER_MECH_READFD 0 0"])
    (simp_all add: source_fd_def filter_process_def filter_xor_def dest_buffer_def xfer_element_init_def
      first_pair_def entries_def is_terminator_def terminator_def)

end
