(* ===== verification/Xfer.thy ===== *)
theory Xfer
  imports Xfer_Link
begin

text \<open>
  The life of a transfer (\<open>xfer-src/xfer.c\<close>, with the default methods of \<open>xfer-element.c\<close>): creation,
  start, cancellation, reference counting and the main loop's dispatch of the messages the elements
  queue. The methods of an element are a parameter, because every class has its own; threads of the
  elements appear as steps that queue messages between the steps of the main thread. What is
  proved: status changes only along the allowed arrows, so that no assertion of \<open>xfer_set_status\<close>
  fails in a dispatch; a transfer is not freed while it runs; the caller hears of the end exactly
  once, when every active element has finished.
\<close>

section \<open>State\<close>

datatype xfer_status =
    XFER_INIT | XFER_START | XFER_RUNNING | XFER_CANCELLING | XFER_CANCELLED | XFER_DONE

datatype xmsg_type =
    XMSG_INFO | XMSG_ERROR | XMSG_DONE | XMSG_CANCEL | XMSG_PART_DONE | XMSG_READY | XMSG_CHUNK_DONE

record xmsg =
  msg_elt :: nat
  msg_type :: xmsg_type
  msg_message :: string

definition xmsg_new :: "nat \<Rightarrow> xmsg_type \<Rightarrow> xmsg" where
  "xmsg_new elt type = \<lparr>msg_elt = elt, msg_type = type, msg_message = []\<rparr>"

record xfer =
  xf_status :: xfer_status
  xf_refcount :: int
  xf_elements :: "xfer_element list"
  xf_queue :: "xmsg list"
  xf_num_active_elements :: int
  xf_cancelled :: nat
  xf_freed :: bool

text \<open>
  The methods of the elements' classes. \<open>setup\<close> and \<open>start\<close> may call \<open>xfer_cancel_with_error\<close>: the
  message is the second component of what they return.
\<close>

record methods =
  xk_setup :: "xfer_element \<Rightarrow> xfer_element \<times> string option \<times> bool"
  xk_set_size :: "xfer_element \<Rightarrow> int \<Rightarrow> xfer_element"
  xk_start :: "xfer_element \<Rightarrow> xfer_element \<times> string option \<times> bool"
  xk_cancel :: "xfer_element \<Rightarrow> bool \<Rightarrow> xfer_element \<times> bool"

definition xfer_element_setup_impl :: "xfer_element \<Rightarrow> xfer_element \<times> string option \<times> bool" where
  "xfer_element_setup_impl elt = (elt, None, True)"

definition xfer_element_set_size_impl :: "xfer_element \<Rightarrow> int \<Rightarrow> xfer_element" where
  "xfer_element_set_size_impl elt sz = elt\<lparr>xe_size := sz\<rparr>"

definition xfer_element_start_impl :: "xfer_element \<Rightarrow> xfer_element \<times> string option \<times> bool" where
  "xfer_element_start_impl elt = (elt, None, False)"

definition xfer_element_cancel_impl :: "xfer_element \<Rightarrow> bool \<Rightarrow> xfer_element \<times> bool" where
  "xfer_element_cancel_impl elt expect_eof =
     (elt\<lparr>xe_cancelled := True, xe_expect_eof := expect_eof\<rparr>, xe_can_generate_eof elt)"

definition default_methods :: methods where
  "default_methods =
     \<lparr>xk_setup = xfer_element_setup_impl, xk_set_size = xfer_element_set_size_impl,
      xk_start = xfer_element_start_impl, xk_cancel = xfer_element_cancel_impl\<rparr>"

section \<open>Operations\<close>

definition xfer_new :: "xfer_element list \<Rightarrow> fault + xfer" where
  "xfer_new elements =
     (if length elements < 2 \<or> list_ex xe_attached elements then Inl Assertion_failed
      else Inr \<lparr>xf_status = XFER_INIT, xf_refcount = 1,
                xf_elements = map (\<lambda>e. e\<lparr>xe_attached := True\<rparr>) elements, xf_queue = [],
                xf_num_active_elements = 0, xf_cancelled = 0, xf_freed = False\<rparr>)"

definition xfer_ref :: "xfer \<Rightarrow> xfer" where
  "xfer_ref x = x\<lparr>xf_refcount := xf_refcount x + 1\<rparr>"

definition xfer_unref :: "xfer \<Rightarrow> fault + xfer" where
  "xfer_unref x =
     (let x = x\<lparr>xf_refcount := xf_refcount x - 1\<rparr> in
      if xf_refcount x > 0 then Inr x
      else if xf_status x \<noteq> XFER_INIT \<and> xf_status x \<noteq> XFER_DONE then Inl Assertion_failed
      else Inr (x\<lparr>xf_queue := [], xf_elements := map (\<lambda>e. e\<lparr>xe_attached := False\<rparr>) (xf_elements x),
                  xf_freed := True\<rparr>))"

definition xfer_queue_message :: "xmsg \<Rightarrow> xfer \<Rightarrow> xfer" where
  "xfer_queue_message msg x = x\<lparr>xf_queue := xf_queue x @ [msg]\<rparr>"

definition xfer_cancel :: "xfer \<Rightarrow> xfer" where
  "xfer_cancel x =
     (if xf_cancelled x > 0 then x
      else xfer_queue_message (xmsg_new 0 XMSG_CANCEL) (x\<lparr>xf_cancelled := xf_cancelled x + 1\<rparr>))"

definition xfer_cancel_with_error :: "nat \<Rightarrow> string \<Rightarrow> xfer \<Rightarrow> xfer" where
  "xfer_cancel_with_error elt message x =
     xfer_cancel (xfer_queue_message ((xmsg_new elt XMSG_ERROR)\<lparr>msg_message := message\<rparr>) x)"

fun allowed :: "xfer_status \<Rightarrow> xfer_status \<Rightarrow> bool" where
  "allowed old XFER_START \<longleftrightarrow> old = XFER_INIT"
| "allowed old XFER_RUNNING \<longleftrightarrow> old = XFER_START"
| "allowed old XFER_CANCELLING \<longleftrightarrow> old = XFER_RUNNING"
| "allowed old XFER_CANCELLED \<longleftrightarrow> old = XFER_CANCELLING"
| "allowed old XFER_DONE \<longleftrightarrow> old = XFER_CANCELLED \<or> old = XFER_RUNNING"
| "allowed old XFER_INIT \<longleftrightarrow> False"

definition xfer_set_status :: "xfer_status \<Rightarrow> xfer \<Rightarrow> fault + xfer" where
  "xfer_set_status status x =
     (if xf_status x = status then Inr x
      else if allowed (xf_status x) status then Inr (x\<lparr>xf_status := status\<rparr>)
      else Inl Assertion_failed)"

text \<open>The loops of \<open>xfer_start\<close>, over the places of the elements.\<close>

fun setup_elements :: "methods \<Rightarrow> nat list \<Rightarrow> xfer \<Rightarrow> xfer \<times> bool" where
  "setup_elements ms [] x = (x, True)"
| "setup_elements ms (i # is) x =
     (case xk_setup ms (xf_elements x ! i) of (elt, err, ok) \<Rightarrow>
        let x = x\<lparr>xf_elements := (xf_elements x)[i := elt]\<rparr>;
            x = (case err of None \<Rightarrow> x | Some message \<Rightarrow> xfer_cancel_with_error i message x) in
        if ok then setup_elements ms is x else (x, False))"

definition link_neighbours :: "xfer_element list \<Rightarrow> xfer_element list" where
  "link_neighbours es =
     map (\<lambda>(i, e). e\<lparr>xe_upstream := (if i > 0 then Some (i - 1) else xe_upstream e),
                     xe_downstream := (if i < length es - 1 then Some (i + 1) else xe_downstream e)\<rparr>)
       (enumerate 0 es)"

fun start_elements :: "methods \<Rightarrow> nat list \<Rightarrow> xfer \<Rightarrow> xfer" where
  "start_elements ms [] x = x"
| "start_elements ms (i # is) x =
     (case xk_start ms (xf_elements x ! i) of (elt, err, active) \<Rightarrow>
        let x = x\<lparr>xf_elements := (xf_elements x)[i := elt]\<rparr>;
            x = (case err of None \<Rightarrow> x | Some message \<Rightarrow> xfer_cancel_with_error i message x);
            x = (if active then x\<lparr>xf_num_active_elements := xf_num_active_elements x + 1\<rparr> else x) in
        start_elements ms is x)"

definition start_all :: "methods \<Rightarrow> int \<Rightarrow> xfer \<Rightarrow> xfer" where
  "start_all ms sz x =
     (let x = x\<lparr>xf_elements := link_neighbours (xf_elements x)\<rparr>;
          x = (if sz \<noteq> 0
               then x\<lparr>xf_elements := (xf_elements x)[0 := xk_set_size ms (xf_elements x ! 0) sz]\<rparr> else x) in
      start_elements ms (rev [0 ..< length (xf_elements x)]) x)"

definition set_up_and_start :: "methods \<Rightarrow> int \<Rightarrow> xfer \<Rightarrow> xfer" where
  "set_up_and_start ms sz x =
     (case setup_elements ms [0 ..< length (xf_elements x)] x of
        (x, setup_ok) \<Rightarrow> if setup_ok then start_all ms sz x else x)"

definition done_if_idle :: "xfer \<Rightarrow> xfer" where
  \<comment> \<open>without active elements the transfer is done already\<close>
  "done_if_idle x =
     (if xf_num_active_elements x = 0 then
        xfer_queue_message (xmsg_new (length (xf_elements x) - 1) XMSG_DONE)
          (x\<lparr>xf_num_active_elements := xf_num_active_elements x + 1\<rparr>)
      else x)"

definition xfer_start :: "methods \<Rightarrow> int \<Rightarrow> int \<Rightarrow> xfer \<Rightarrow> fault + xfer" where
  "xfer_start ms offset sz x =
     (if xf_status x \<noteq> XFER_INIT \<or> length (xf_elements x) < 2 \<or> offset \<noteq> 0 then Inl Assertion_failed
      else
        bind_r (xfer_set_status XFER_START ((xfer_ref x)\<lparr>xf_num_active_elements := 0\<rparr>)) (\<lambda>x.
        bind_r (link_elements (xf_elements x)) (\<lambda>elements.
        map_r done_if_idle
          (xfer_set_status XFER_RUNNING (set_up_and_start ms sz (x\<lparr>xf_elements := elements\<rparr>))))))"

section \<open>The main loop\<close>

text \<open>Cancelling the elements: each is told whether one in front of it can end the data.\<close>

fun cancel_elements :: "methods \<Rightarrow> bool \<Rightarrow> xfer_element list \<Rightarrow> xfer_element list \<times> bool" where
  "cancel_elements ms expect_eof [] = ([], expect_eof)"
| "cancel_elements ms expect_eof (e # es) =
     (case xk_cancel ms e expect_eof of (e, eof) \<Rightarrow>
        case cancel_elements ms (eof \<or> expect_eof) es of (es, expect_eof) \<Rightarrow> (e # es, expect_eof))"

text \<open>What the loop does with a message itself: the transfer, whether the caller gets the message and
  whether the transfer is done.\<close>

definition handle_message :: "methods \<Rightarrow> xmsg \<Rightarrow> xfer \<Rightarrow> fault + xfer \<times> bool \<times> bool" where
  "handle_message ms msg x =
     (case msg_type msg of
        XMSG_DONE \<Rightarrow>
          let x = x\<lparr>xf_num_active_elements := xf_num_active_elements x - 1\<rparr> in
          if xf_num_active_elements x \<le> 0
          then map_r (\<lambda>x. (x, True, True)) (xfer_set_status XFER_DONE x)
          else Inr (x, False, False)
      | XMSG_CANCEL \<Rightarrow>
          if xf_status x = XFER_CANCELLING \<or> xf_status x = XFER_CANCELLED then Inr (x, False, False)
          else
            bind_r (xfer_set_status XFER_CANCELLING x) (\<lambda>x.
              let x = x\<lparr>xf_elements := fst (cancel_elements ms False (xf_elements x))\<rparr> in
              map_r (\<lambda>x. (x, True, False)) (xfer_set_status XFER_CANCELLED x))
      | _ \<Rightarrow> Inr (x, True, False))"

text \<open>The caller's callback keeps a state of its own and may call back into the transfer.\<close>

datatype client_call = Client_cancel | Client_ref | Client_unref

type_synonym 'u callback = "'u \<Rightarrow> xmsg \<Rightarrow> 'u \<times> client_call list"

fun apply_calls :: "client_call list \<Rightarrow> xfer \<Rightarrow> fault + xfer" where
  "apply_calls [] x = Inr x"
| "apply_calls (c # cs) x =
     (if xf_freed x then Inl Out_of_bounds
      else case c of
          Client_cancel \<Rightarrow> apply_calls cs (xfer_cancel x)
        | Client_ref \<Rightarrow> apply_calls cs (xfer_ref x)
        | Client_unref \<Rightarrow> bind_r (xfer_unref x) (apply_calls cs))"

definition dispatch_one :: "methods \<Rightarrow> 'u callback \<Rightarrow> 'u \<Rightarrow> xmsg \<Rightarrow> xfer \<Rightarrow> fault + 'u \<times> xfer \<times> bool" where
  "dispatch_one ms cb u msg x =
     bind_r (handle_message ms msg x) (\<lambda>(x, deliver, xfer_done).
       let (u, calls) = (if deliver then cb u msg else (u, [])) in
       bind_r (apply_calls calls x) (\<lambda>x.
         if xf_freed x then Inl Out_of_bounds
         else if xfer_done then map_r (\<lambda>x. (u, x, True)) (xfer_unref x)
         else Inr (u, x, False)))"

definition still_to_come :: "xfer \<Rightarrow> nat" where
  \<comment> \<open>the messages the main thread can find without help from the elements\<close>
  "still_to_come x = length (xf_queue x) + (if xf_cancelled x > 0 then 0 else 1)"

lemma xfer_set_status_Inr:
  "xfer_set_status status x = Inr y \<Longrightarrow> y = x\<lparr>xf_status := status\<rparr>"
  by (auto simp: xfer_set_status_def split: if_splits)

lemma still_to_come_unref: "xfer_unref x = Inr y \<Longrightarrow> still_to_come y \<le> still_to_come x"
  by (auto simp: xfer_unref_def still_to_come_def Let_def split: if_splits)

lemma still_to_come_calls: "apply_calls cs x = Inr y \<Longrightarrow> still_to_come y \<le> still_to_come x"
proof (induction cs x rule: apply_calls.induct)
  case (2 c cs x)
  show ?case
  proof (cases c)
    case Client_cancel
    have "still_to_come (xfer_cancel x) \<le> still_to_come x"
      by (simp add: xfer_cancel_def still_to_come_def xfer_queue_message_def)
    then show ?thesis using 2 Client_cancel by (auto split: if_splits)
  next
    case Client_ref
    then show ?thesis using 2 by (auto simp: still_to_come_def xfer_ref_def split: if_splits)
  next
    case Client_unref
    then show ?thesis using 2
      by (auto simp: bind_r_eq_Inr_iff split: if_splits dest!: still_to_come_unref intro: le_trans)
  qed
qed simp

lemma handle_message_Inr:
  assumes "handle_message ms msg x = Inr (y, deliver, xfer_done)"
  shows "xf_queue y = xf_queue x" "xf_cancelled y = xf_cancelled x" "xf_freed y = xf_freed x"
    "xf_refcount y = xf_refcount x"
  using assms
  by (auto simp: handle_message_def Let_def bind_r_eq_Inr_iff map_r_eq_Inr_iff
      split: xmsg_type.splits if_splits dest!: xfer_set_status_Inr)

lemma still_to_come_dispatch:
  assumes "dispatch_one ms cb u msg x = Inr (v, y, fin)"
  shows "still_to_come y \<le> still_to_come x"
proof -
  obtain x1 deliver xfer_done where h: "handle_message ms msg x = Inr (x1, deliver, xfer_done)"
    using assms by (auto simp: dispatch_one_def bind_r_eq_Inr_iff)
  then have "still_to_come x1 = still_to_come x"
    using handle_message_Inr [OF h] by (simp add: still_to_come_def)
  moreover obtain calls x2 where "apply_calls (if deliver then calls else []) x1 = Inr x2"
    "y = x2 \<or> xfer_unref x2 = Inr y"
    using assms h
    by (cases "cb u msg") (auto simp: dispatch_one_def bind_r_eq_Inr_iff map_r_eq_Inr_iff split: if_splits)
  ultimately show ?thesis
    using still_to_come_calls still_to_come_unref by (metis le_trans order_refl)
qed

function xmsgsource_dispatch :: "methods \<Rightarrow> 'u callback \<Rightarrow> 'u \<Rightarrow> xfer \<Rightarrow> fault + 'u \<times> xfer" where
  "xmsgsource_dispatch ms cb u x =
     (if xf_status x = XFER_DONE then Inr (u, x)
      else case xf_queue x of
          [] \<Rightarrow> Inr (u, x)
        | msg # queue \<Rightarrow>
            (case dispatch_one ms cb u msg (x\<lparr>xf_queue := queue\<rparr>) of
               Inl e \<Rightarrow> Inl e
             | Inr (u, x, True) \<Rightarrow> Inr (u, x)
             | Inr (u, x, False) \<Rightarrow> xmsgsource_dispatch ms cb u x))"
  by pat_completeness auto

termination
proof (relation "measure (\<lambda>(ms, cb, u, x). still_to_come x)", goal_cases)
  case 1
  show ?case by simp
next
  case (2 ms cb u x msg queue res v rest y fin)
  then show ?case
    using still_to_come_dispatch [of ms cb u msg "x\<lparr>xf_queue := queue\<rparr>" v y False]
    by (auto simp: still_to_come_def)
qed

declare xmsgsource_dispatch.simps [simp del]

section \<open>The transfer among its elements and its client\<close>

text \<open>
  The transfer with the number of elements that still have to report their end, the references the
  client holds, and the messages the client got.
\<close>

record world =
  w_xfer :: xfer
  w_running :: nat
  w_refs :: nat
  w_log :: "xmsg list"

definition messages :: "xmsg_type \<Rightarrow> xmsg list \<Rightarrow> nat" where
  "messages t q = length (filter (\<lambda>m. msg_type m = t) q)"

lemma messages_simps [simp]:
  "messages t [] = 0"
  "messages t (m # q) = (if msg_type m = t then 1 else 0) + messages t q"
  "messages t (q @ q') = messages t q + messages t q'"
  by (simp_all add: messages_def)

fun refs_after :: "nat \<Rightarrow> client_call list \<Rightarrow> nat option" where
  \<comment> \<open>a client gives back only references it has\<close>
  "refs_after r [] = Some r"
| "refs_after r (Client_cancel # cs) = refs_after r cs"
| "refs_after r (Client_ref # cs) = refs_after (r + 1) cs"
| "refs_after r (Client_unref # cs) = (case r of 0 \<Rightarrow> None | Suc r \<Rightarrow> refs_after r cs)"

datatype world_event =
    Start int
  | Report nat                    \<comment> \<open>an active element queues its \<open>XMSG_DONE\<close>\<close>
  | Message xmsg                  \<comment> \<open>an element queues another message\<close>
  | Fail nat string
  | Call client_call
  | Dispatch "client_call list"   \<comment> \<open>the main loop takes a message; what the callback calls\<close>

inductive world_step :: "methods \<Rightarrow> world \<Rightarrow> world_event \<Rightarrow> world \<Rightarrow> bool" for ms where
  world_start: "\<not> xf_freed (w_xfer w) \<Longrightarrow> 0 < w_refs w \<Longrightarrow> xfer_start ms 0 sz (w_xfer w) = Inr y \<Longrightarrow>
    world_step ms w (Start sz)
      (w\<lparr>w_xfer := y, w_running := nat (xf_num_active_elements y) - messages XMSG_DONE (xf_queue y)\<rparr>)"
| world_report: "0 < w_running w \<Longrightarrow>
    world_step ms w (Report elt)
      (w\<lparr>w_xfer := xfer_queue_message (xmsg_new elt XMSG_DONE) (w_xfer w), w_running := w_running w - 1\<rparr>)"
| world_message: "\<not> xf_freed (w_xfer w) \<Longrightarrow> msg_type m \<notin> {XMSG_DONE, XMSG_CANCEL} \<Longrightarrow>
    world_step ms w (Message m) (w\<lparr>w_xfer := xfer_queue_message m (w_xfer w)\<rparr>)"
| world_fail: "\<not> xf_freed (w_xfer w) \<Longrightarrow>
    world_step ms w (Fail elt message) (w\<lparr>w_xfer := xfer_cancel_with_error elt message (w_xfer w)\<rparr>)"
| world_call: "\<not> xf_freed (w_xfer w) \<Longrightarrow> refs_after (w_refs w) [c] = Some r \<Longrightarrow> 0 < w_refs w \<Longrightarrow>
    apply_calls [c] (w_xfer w) = Inr y \<Longrightarrow>
    world_step ms w (Call c) (w\<lparr>w_xfer := y, w_refs := r\<rparr>)"
| world_dispatch: "\<not> xf_freed (w_xfer w) \<Longrightarrow> xf_status (w_xfer w) \<noteq> XFER_INIT \<Longrightarrow>
    xf_status (w_xfer w) \<noteq> XFER_DONE \<Longrightarrow> xf_queue (w_xfer w) = msg # queue \<Longrightarrow>
    refs_after (w_refs w) calls = Some r \<Longrightarrow>
    dispatch_one ms (\<lambda>u m. (u @ [m], calls)) (w_log w) msg ((w_xfer w)\<lparr>xf_queue := queue\<rparr>) = Inr (u, y, fin) \<Longrightarrow>
    world_step ms w (Dispatch calls)
      (w\<lparr>w_xfer := y, w_log := u, w_refs := (if u = w_log w then w_refs w else r)\<rparr>)"

definition world_start_state :: "world \<Rightarrow> bool" where
  "world_start_state w \<longleftrightarrow>
     (\<exists>es. xfer_new es = Inr (w_xfer w)) \<and> w_running w = 0 \<and> w_refs w = 1 \<and> w_log w = []"

definition in_flight :: "xfer \<Rightarrow> bool" where
  "in_flight x \<longleftrightarrow> xf_status x = XFER_RUNNING \<or> xf_status x = XFER_CANCELLED"

definition world_inv :: "world \<Rightarrow> bool" where
  "world_inv w \<longleftrightarrow>
     (let x = w_xfer w in
      xf_refcount x = int (w_refs w) + (if in_flight x then 1 else 0) \<and>
      (xf_freed x \<longleftrightarrow> xf_refcount x = 0) \<and>
      messages XMSG_CANCEL (w_log w) \<le> (if xf_status x \<in> {XFER_CANCELLED, XFER_DONE} then 1 else 0) \<and>
      (case xf_status x of
         XFER_INIT \<Rightarrow> w_running w = 0 \<and> messages XMSG_DONE (xf_queue x) = 0 \<and> messages XMSG_DONE (w_log w) = 0
       | XFER_DONE \<Rightarrow> w_running w = 0 \<and> messages XMSG_DONE (xf_queue x) = 0 \<and> messages XMSG_DONE (w_log w) = 1
       | XFER_START \<Rightarrow> False
       | XFER_CANCELLING \<Rightarrow> False
       | _ \<Rightarrow> xf_num_active_elements x = int (w_running w + messages XMSG_DONE (xf_queue x)) \<and>
              0 < xf_num_active_elements x \<and> messages XMSG_DONE (w_log w) = 0))"


subsection \<open>What leaves the bookkeeping alone\<close>

definition quiet :: "xfer \<Rightarrow> xfer \<Rightarrow> bool" where
  \<comment> \<open>only the elements, messages other than \<open>XMSG_DONE\<close> and more active elements\<close>
  "quiet x y \<longleftrightarrow>
     xf_status y = xf_status x \<and> xf_refcount y = xf_refcount x \<and> xf_freed y = xf_freed x \<and>
     messages XMSG_DONE (xf_queue y) = messages XMSG_DONE (xf_queue x) \<and>
     xf_num_active_elements x \<le> xf_num_active_elements y"

lemma quiet_refl [simp]: "quiet x x"
  by (simp add: quiet_def)

lemma quiet_trans: "quiet x y \<Longrightarrow> quiet y z \<Longrightarrow> quiet x z"
  by (auto simp: quiet_def)

lemma quiet_elements [simp]: "quiet x (x\<lparr>xf_elements := es\<rparr>)"
  by (simp add: quiet_def)

lemma quiet_active [simp]: "quiet x (x\<lparr>xf_num_active_elements := xf_num_active_elements x + 1\<rparr>)"
  by (simp add: quiet_def)

lemma quiet_cancel [simp]: "quiet x (xfer_cancel x)"
  by (simp add: quiet_def xfer_cancel_def xfer_queue_message_def xmsg_new_def)

lemma quiet_cancel_with_error [simp]: "quiet x (xfer_cancel_with_error i m x)"
proof -
  have "quiet x (xfer_queue_message ((xmsg_new i XMSG_ERROR)\<lparr>msg_message := m\<rparr>) x)"
    by (simp add: quiet_def xfer_queue_message_def xmsg_new_def)
  then show ?thesis unfolding xfer_cancel_with_error_def by (rule quiet_trans) simp
qed

lemma quiet_message: "msg_type m \<noteq> XMSG_DONE \<Longrightarrow> quiet x (xfer_queue_message m x)"
  by (simp add: quiet_def xfer_queue_message_def)

lemma quiet_error_option:
  "quiet x (case err of None \<Rightarrow> x | Some message \<Rightarrow> xfer_cancel_with_error i message x)"
  by (cases err) simp_all

lemma quiet_setup_elements: "quiet x (fst (setup_elements ms is x))"
proof (induction ms "is" x rule: setup_elements.induct)
  case (2 ms i "is" x)
  obtain elt err ok where e: "xk_setup ms (xf_elements x ! i) = (elt, err, ok)" by (metis prod_cases3)
  let ?x1 = "x\<lparr>xf_elements := (xf_elements x)[i := elt]\<rparr>"
  let ?x2 = "case err of None \<Rightarrow> ?x1 | Some message \<Rightarrow> xfer_cancel_with_error i message ?x1"
  have "quiet x ?x2" using quiet_trans [OF quiet_elements quiet_error_option] .
  then show ?case using 2 [OF e [symmetric] refl refl refl] e by (auto simp: Let_def intro: quiet_trans)
qed simp

lemma quiet_start_elements: "quiet x (start_elements ms is x)"
proof (induction ms "is" x rule: start_elements.induct)
  case (2 ms i "is" x)
  obtain elt err active where e: "xk_start ms (xf_elements x ! i) = (elt, err, active)" by (metis prod_cases3)
  let ?x1 = "x\<lparr>xf_elements := (xf_elements x)[i := elt]\<rparr>"
  let ?x2 = "case err of None \<Rightarrow> ?x1 | Some message \<Rightarrow> xfer_cancel_with_error i message ?x1"
  let ?x3 = "if active then ?x2\<lparr>xf_num_active_elements := xf_num_active_elements ?x2 + 1\<rparr> else ?x2"
  have "quiet x ?x2" using quiet_trans [OF quiet_elements quiet_error_option] .
  then have "quiet x ?x3" using quiet_trans [OF _ quiet_active] by auto
  then show ?case using quiet_trans [OF _ 2 [OF e [symmetric] refl refl refl refl]] e by (simp add: Let_def)
qed simp

lemma quiet_start_all: "quiet x (start_all ms sz x)"
  unfolding start_all_def Let_def
  by (rule quiet_trans [OF _ quiet_start_elements]) (auto simp: quiet_def)

lemma quiet_queue:
  "quiet x (x\<lparr>xf_queue := q\<rparr>) \<longleftrightarrow> messages XMSG_DONE q = messages XMSG_DONE (xf_queue x)"
  by (auto simp: quiet_def)

text \<open>A started transfer.\<close>

lemma quiet_set_up_and_start: "quiet x (set_up_and_start ms sz x)"
proof -
  obtain y ok where e: "setup_elements ms [0 ..< length (xf_elements x)] x = (y, ok)" by force
  then have "quiet x y" using quiet_setup_elements [of x ms "[0 ..< length (xf_elements x)]"] by simp
  then show ?thesis using e by (simp add: set_up_and_start_def quiet_trans [OF _ quiet_start_all])
qed

lemma xfer_start_Inr:
  assumes "xfer_start ms offset sz x = Inr y" and "messages XMSG_DONE (xf_queue x) = 0"
  shows "xf_status x = XFER_INIT" "xf_status y = XFER_RUNNING" "xf_refcount y = xf_refcount x + 1"
    "xf_freed y = xf_freed x" "0 < xf_num_active_elements y"
    "int (messages XMSG_DONE (xf_queue y)) \<le> xf_num_active_elements y"
proof -
  show i: "xf_status x = XFER_INIT" using assms(1) by (auto simp: xfer_start_def split: if_splits)
  define x1 where "x1 = (xfer_ref x)\<lparr>xf_num_active_elements := 0, xf_status := XFER_START\<rparr>"
  have "xfer_set_status XFER_START ((xfer_ref x)\<lparr>xf_num_active_elements := 0\<rparr>) = Inr x1"
    using i by (simp add: x1_def xfer_set_status_def xfer_ref_def)
  with assms(1) obtain elements where "map_r done_if_idle
      (xfer_set_status XFER_RUNNING (set_up_and_start ms sz (x1\<lparr>xf_elements := elements\<rparr>))) = Inr y"
    unfolding xfer_start_def by (auto simp only: bind_r_simps bind_r_eq_Inr_iff sum.distinct split: if_splits)
  moreover define x2 where "x2 = set_up_and_start ms sz (x1\<lparr>xf_elements := elements\<rparr>)"
  ultimately have y: "y = done_if_idle (x2\<lparr>xf_status := XFER_RUNNING\<rparr>)"
    by (auto simp: map_r_eq_Inr_iff dest: xfer_set_status_Inr)
  have "quiet x1 x2" unfolding x2_def by (rule quiet_trans [OF quiet_elements quiet_set_up_and_start])
  then have "xf_refcount x2 = xf_refcount x + 1" "xf_freed x2 = xf_freed x"
    "messages XMSG_DONE (xf_queue x2) = 0" "0 \<le> xf_num_active_elements x2"
    using assms(2) by (simp_all add: quiet_def xfer_ref_def x1_def)
  then show "xf_status y = XFER_RUNNING" "xf_refcount y = xf_refcount x + 1"
    "xf_freed y = xf_freed x" "0 < xf_num_active_elements y"
    "int (messages XMSG_DONE (xf_queue y)) \<le> xf_num_active_elements y"
    unfolding y by (auto simp: done_if_idle_def xfer_queue_message_def xmsg_new_def)
qed

text \<open>The calls of a client that holds its references.\<close>

lemma apply_calls_refs:
  assumes "refs_after r cs = Some r'" and "xf_refcount x = int r + k" and "0 < k" and "\<not> xf_freed x"
  shows "\<exists>y. apply_calls cs x = Inr y \<and> xf_refcount y = int r' + k \<and> \<not> xf_freed y \<and>
           quiet (x\<lparr>xf_refcount := int r' + k\<rparr>) y \<and> xf_num_active_elements y = xf_num_active_elements x"
  using assms
proof (induction cs arbitrary: r x)
  case Nil
  then show ?case by (simp add: quiet_def)
next
  case (Cons c cs)
  obtain y1 r1 where y1: "apply_calls (c # cs) x = apply_calls cs y1" "refs_after r1 cs = Some r'"
    "xf_refcount y1 = int r1 + k" "\<not> xf_freed y1" "quiet (x\<lparr>xf_refcount := int r1 + k\<rparr>) y1"
    "xf_num_active_elements y1 = xf_num_active_elements x"
  proof (cases c)
    case Client_cancel
    then show ?thesis using that [of "xfer_cancel x" r] Cons.prems
      by (simp add: quiet_def xfer_cancel_def xfer_queue_message_def xmsg_new_def)
  next
    case Client_ref
    then show ?thesis using that [of "xfer_ref x" "r + 1"] Cons.prems
      by (simp add: quiet_def xfer_ref_def)
  next
    case Client_unref
    then show ?thesis using that [of "x\<lparr>xf_refcount := xf_refcount x - 1\<rparr>" "r - 1"] Cons.prems
      by (cases r) (auto simp: quiet_def xfer_unref_def Let_def)
  qed
  from Cons.IH [OF y1(2,3) Cons.prems(3) y1(4)] obtain y where
    "apply_calls cs y1 = Inr y" "xf_refcount y = int r' + k" "\<not> xf_freed y"
    "quiet (y1\<lparr>xf_refcount := int r' + k\<rparr>) y" "xf_num_active_elements y = xf_num_active_elements y1"
    by blast
  then show ?case using y1 by (auto simp: quiet_def)
qed

subsection \<open>The invariant, case by case\<close>

lemma world_inv_in_flight:
  assumes "in_flight (w_xfer w)"
  shows "world_inv w \<longleftrightarrow>
     xf_refcount (w_xfer w) = int (w_refs w) + 1 \<and> \<not> xf_freed (w_xfer w) \<and>
     messages XMSG_CANCEL (w_log w) \<le> (if xf_status (w_xfer w) = XFER_CANCELLED then 1 else 0) \<and>
     xf_num_active_elements (w_xfer w) = int (w_running w + messages XMSG_DONE (xf_queue (w_xfer w))) \<and>
     0 < xf_num_active_elements (w_xfer w) \<and> messages XMSG_DONE (w_log w) = 0"
  using assms by (auto simp: world_inv_def in_flight_def Let_def)

lemma world_inv_done:
  assumes "xf_status (w_xfer w) = XFER_DONE"
  shows "world_inv w \<longleftrightarrow>
     xf_refcount (w_xfer w) = int (w_refs w) \<and> (xf_freed (w_xfer w) \<longleftrightarrow> w_refs w = 0) \<and>
     messages XMSG_CANCEL (w_log w) \<le> 1 \<and> w_running w = 0 \<and>
     messages XMSG_DONE (xf_queue (w_xfer w)) = 0 \<and> messages XMSG_DONE (w_log w) = 1"
  using assms by (auto simp: world_inv_def in_flight_def Let_def)

lemma world_inv_init:
  assumes "xf_status (w_xfer w) = XFER_INIT"
  shows "world_inv w \<longleftrightarrow>
     xf_refcount (w_xfer w) = int (w_refs w) \<and> (xf_freed (w_xfer w) \<longleftrightarrow> w_refs w = 0) \<and>
     messages XMSG_CANCEL (w_log w) = 0 \<and> w_running w = 0 \<and>
     messages XMSG_DONE (xf_queue (w_xfer w)) = 0 \<and> messages XMSG_DONE (w_log w) = 0"
  using assms by (auto simp: world_inv_def in_flight_def Let_def)

lemma world_inv_status:
  assumes "world_inv w"
  obtains (init) "xf_status (w_xfer w) = XFER_INIT" | (flight) "in_flight (w_xfer w)"
    | (finished) "xf_status (w_xfer w) = XFER_DONE"
  using assms by (cases "xf_status (w_xfer w)") (auto simp: world_inv_def in_flight_def Let_def)

text \<open>A quiet change that keeps the count of active elements keeps the invariant.\<close>

lemma world_inv_quiet:
  assumes "world_inv w" and "quiet (w_xfer w) y" and "xf_num_active_elements y = xf_num_active_elements (w_xfer w)"
  shows "world_inv (w\<lparr>w_xfer := y\<rparr>)"
  using assms by (cases "xf_status (w_xfer w)") (simp_all add: world_inv_def quiet_def in_flight_def Let_def)

subsection \<open>One message\<close>

lemma handle_message_in_flight:
  assumes "in_flight x"
  shows "\<exists>y deliver fin. handle_message ms msg x = Inr (y, deliver, fin) \<and>
     xf_queue y = xf_queue x \<and> xf_freed y = xf_freed x \<and> xf_refcount y = xf_refcount x \<and>
     xf_num_active_elements y = xf_num_active_elements x - (if msg_type msg = XMSG_DONE then 1 else 0) \<and>
     (msg_type msg = XMSG_DONE \<longrightarrow> fin = (xf_num_active_elements x \<le> 1) \<and> deliver = fin \<and>
        xf_status y = (if fin then XFER_DONE else xf_status x)) \<and>
     (msg_type msg \<noteq> XMSG_DONE \<longrightarrow> \<not> fin) \<and>
     (msg_type msg = XMSG_CANCEL \<longrightarrow> xf_status y = XFER_CANCELLED \<and> deliver = (xf_status x = XFER_RUNNING)) \<and>
     (msg_type msg \<notin> {XMSG_DONE, XMSG_CANCEL} \<longrightarrow> xf_status y = xf_status x \<and> deliver)"
  using assms
  by (cases "msg_type msg") (auto simp: handle_message_def in_flight_def Let_def xfer_set_status_def)

lemma xfer_unref_done:
  assumes "xf_status z = XFER_DONE" and "xf_refcount z = int k + 1" and "\<not> xf_freed z"
  shows "\<exists>z'. xfer_unref z = Inr z' \<and> xf_status z' = XFER_DONE \<and> xf_refcount z' = int k \<and>
     xf_num_active_elements z' = xf_num_active_elements z \<and> (xf_freed z' \<longleftrightarrow> k = 0) \<and>
     (xf_freed z' \<longrightarrow> xf_queue z' = []) \<and> (\<not> xf_freed z' \<longrightarrow> xf_queue z' = xf_queue z)"
  using assms by (cases k) (simp_all add: xfer_unref_def Let_def)

lemma dispatch_one_in_flight:
  assumes "in_flight x" and "xf_refcount x = int r + 1" and "\<not> xf_freed x"
    and "refs_after r (snd (cb u msg)) = Some r'"
  shows "\<exists>y deliver fin z. handle_message ms msg x = Inr (y, deliver, fin) \<and>
     dispatch_one ms cb u msg x = Inr (if deliver then fst (cb u msg) else u, z, fin) \<and>
     xf_status z = xf_status y \<and>
     messages XMSG_DONE (xf_queue z) \<le> messages XMSG_DONE (xf_queue x) \<and>
     (\<not> xf_freed z \<longrightarrow> messages XMSG_DONE (xf_queue z) = messages XMSG_DONE (xf_queue x)) \<and>
     xf_num_active_elements z = xf_num_active_elements y \<and>
     xf_refcount z = int (if deliver then r' else r) + (if fin then 0 else 1) \<and>
     (xf_freed z \<longleftrightarrow> xf_refcount z = 0)"
proof -
  obtain y deliver fin where h: "handle_message ms msg x = Inr (y, deliver, fin)"
    and y: "xf_queue y = xf_queue x" "xf_freed y = xf_freed x" "xf_refcount y = xf_refcount x"
      "fin \<longrightarrow> xf_status y = XFER_DONE"
    using handle_message_in_flight [OF assms(1), of ms msg] by metis
  let ?calls = "if deliver then snd (cb u msg) else []" and ?r = "if deliver then r' else r"
  have "refs_after r ?calls = Some ?r" using assms(4) by simp
  from apply_calls_refs [OF this, of y 1] obtain z where z: "apply_calls ?calls y = Inr z"
    "xf_refcount z = int ?r + 1" "\<not> xf_freed z" "quiet (y\<lparr>xf_refcount := int ?r + 1\<rparr>) z"
    "xf_num_active_elements z = xf_num_active_elements y"
    using y assms(2,3) by auto
  show ?thesis
  proof (cases fin)
    case False
    then have "dispatch_one ms cb u msg x = Inr (if deliver then fst (cb u msg) else u, z, fin)"
      using h z(1,3) by (cases deliver; cases "cb u msg") (simp_all add: dispatch_one_def)
    then show ?thesis using h z y False
      by (intro exI [of _ y] exI [of _ deliver] exI [of _ fin] exI [of _ z]) (simp add: quiet_def)
  next
    case True
    then have "xf_status z = XFER_DONE" using y z(4) by (simp add: quiet_def)
    from xfer_unref_done [OF this z(2,3)] obtain z' where z': "xfer_unref z = Inr z'" "xf_status z' = XFER_DONE"
      "xf_refcount z' = int ?r" "xf_num_active_elements z' = xf_num_active_elements z"
      "xf_freed z' \<longleftrightarrow> ?r = 0" "xf_freed z' \<longrightarrow> xf_queue z' = []" "\<not> xf_freed z' \<longrightarrow> xf_queue z' = xf_queue z"
      by (elim exE conjE) (rule that)
    have "dispatch_one ms cb u msg x = Inr (if deliver then fst (cb u msg) else u, z', fin)"
      using h z(1,3) z'(1) True by (cases deliver; cases "cb u msg") (simp_all add: dispatch_one_def)
    moreover have "messages XMSG_DONE (xf_queue z) = messages XMSG_DONE (xf_queue x)"
      using z(4) y(1) by (simp add: quiet_def)
    then have "messages XMSG_DONE (xf_queue z') \<le> messages XMSG_DONE (xf_queue x)"
      "\<not> xf_freed z' \<longrightarrow> messages XMSG_DONE (xf_queue z') = messages XMSG_DONE (xf_queue x)"
      using z'(6,7) by (cases "xf_freed z'"; simp)+
    moreover have "xf_status z' = xf_status y" using z'(2) y(4) True by simp
    moreover have "xf_refcount z' = int ?r + (if fin then 0 else 1)" using z'(3) True by simp
    moreover have "xf_freed z' \<longleftrightarrow> xf_refcount z' = 0" using z'(3,5) by simp
    moreover have "xf_num_active_elements z' = xf_num_active_elements y" using z(5) z'(4) by simp
    ultimately show ?thesis using h by blast
  qed
qed

subsection \<open>Every step keeps the invariant\<close>

lemma dispatch_keeps_inv:
  assumes inv: "world_inv w" and fl: "in_flight (w_xfer w)" and q: "xf_queue (w_xfer w) = msg # queue"
    and r: "refs_after (w_refs w) calls = Some r"
  shows "\<exists>u y fin.
     dispatch_one ms (\<lambda>u m. (u @ [m], calls)) (w_log w) msg ((w_xfer w)\<lparr>xf_queue := queue\<rparr>) = Inr (u, y, fin) \<and>
     world_inv (w\<lparr>w_xfer := y, w_log := u, w_refs := (if u = w_log w then w_refs w else r)\<rparr>)"
proof -
  let ?x = "(w_xfer w)\<lparr>xf_queue := queue\<rparr>"
  have pre: "in_flight ?x" "xf_refcount ?x = int (w_refs w) + 1" "\<not> xf_freed ?x"
    and num: "xf_num_active_elements ?x = int (w_running w + messages XMSG_DONE (msg # queue))"
      "0 < xf_num_active_elements ?x"
    and logs: "messages XMSG_DONE (w_log w) = 0"
      "messages XMSG_CANCEL (w_log w) \<le> (if xf_status ?x = XFER_CANCELLED then 1 else 0)"
    using inv fl q unfolding world_inv_in_flight [OF fl] by (auto simp: in_flight_def)
  from dispatch_one_in_flight [OF pre, of "\<lambda>u m. (u @ [m], calls)" "w_log w" msg r ms,
      unfolded fst_conv snd_conv, OF r] obtain y deliver fin z where
    h: "handle_message ms msg ?x = Inr (y, deliver, fin)"
    and d: "dispatch_one ms (\<lambda>u m. (u @ [m], calls)) (w_log w) msg ?x =
        Inr (if deliver then w_log w @ [msg] else w_log w, z, fin)"
    and z: "xf_status z = xf_status y" "messages XMSG_DONE (xf_queue z) \<le> messages XMSG_DONE (xf_queue ?x)"
      "\<not> xf_freed z \<longrightarrow> messages XMSG_DONE (xf_queue z) = messages XMSG_DONE (xf_queue ?x)"
      "xf_num_active_elements z = xf_num_active_elements y"
      "xf_refcount z = int (if deliver then r else w_refs w) + (if fin then 0 else 1)"
      "xf_freed z \<longleftrightarrow> xf_refcount z = 0"
    by blast
  let ?w = "w\<lparr>w_xfer := z, w_log := (if deliver then w_log w @ [msg] else w_log w),
              w_refs := (if deliver then r else w_refs w)\<rparr>"
  note m = handle_message_in_flight [OF pre(1), of ms msg]
  have "world_inv ?w"
  proof (cases "msg_type msg = XMSG_DONE")
    case True
    show ?thesis
    proof (cases fin)
      case True
      then have "xf_status (w_xfer ?w) = XFER_DONE" "deliver" using m h z \<open>msg_type msg = XMSG_DONE\<close> by auto
      moreover have "w_running w = 0" "messages XMSG_DONE queue = 0"
        using m h num \<open>msg_type msg = XMSG_DONE\<close> True by auto
      ultimately show ?thesis
        using z logs True \<open>msg_type msg = XMSG_DONE\<close> by (subst world_inv_done) (auto split: if_splits)
    next
      case False
      then have st: "xf_status z = xf_status ?x" "\<not> deliver" "xf_num_active_elements z = xf_num_active_elements ?x - 1"
        "1 < xf_num_active_elements ?x"
        using m h z \<open>msg_type msg = XMSG_DONE\<close> by auto
      then have "in_flight (w_xfer ?w)" using fl by (simp add: in_flight_def)
      then show ?thesis
        using z st False num logs \<open>msg_type msg = XMSG_DONE\<close> by (subst world_inv_in_flight) auto
    qed
  next
    case False
    then have st: "\<not> fin" "xf_num_active_elements z = xf_num_active_elements ?x"
      "msg_type msg = XMSG_CANCEL \<longrightarrow> xf_status z = XFER_CANCELLED \<and> deliver = (xf_status ?x = XFER_RUNNING)"
      "msg_type msg \<noteq> XMSG_CANCEL \<longrightarrow> xf_status z = xf_status ?x"
      using m h z by auto
    then have "in_flight (w_xfer ?w)" using fl by (auto simp: in_flight_def)
    then show ?thesis
      using z st False num logs by (subst world_inv_in_flight) (auto split: if_splits)
  qed
  moreover have "(if (if deliver then w_log w @ [msg] else w_log w) = w_log w then w_refs w else r) =
      (if deliver then r else w_refs w)" by simp
  ultimately show ?thesis
    by (intro exI [of _ "if deliver then w_log w @ [msg] else w_log w"] exI [of _ z] exI [of _ fin] conjI d)
      (simp only:)
qed

lemma call_keeps_inv:
  assumes "world_inv w" and "\<not> xf_freed (w_xfer w)" and "refs_after (w_refs w) [c] = Some r"
    and "apply_calls [c] (w_xfer w) = Inr y"
  shows "world_inv (w\<lparr>w_xfer := y, w_refs := r\<rparr>)"
proof (cases c)
  case Client_cancel
  then have "y = xfer_cancel (w_xfer w)" "r = w_refs w" using assms(2-4) by auto
  then show ?thesis
    using world_inv_quiet [OF assms(1) quiet_cancel] by (simp add: xfer_cancel_def xfer_queue_message_def)
next
  case Client_ref
  then have "y = xfer_ref (w_xfer w)" "r = w_refs w + 1" using assms(2-4) by auto
  then show ?thesis using assms(1,2)
    by (cases "xf_status (w_xfer w)") (auto simp: world_inv_def xfer_ref_def in_flight_def Let_def)
next
  case Client_unref
  then obtain k where k: "w_refs w = Suc k" "r = k" using assms(3) by (auto split: nat.splits)
  have y: "xfer_unref (w_xfer w) = Inr y" using Client_unref assms(2,4) by (cases "xfer_unref (w_xfer w)") auto
  from assms(1) show ?thesis
  proof (cases rule: world_inv_status)
    case flight
    then have "y = (w_xfer w)\<lparr>xf_refcount := int k + 1\<rparr>"
      using y k assms(1) by (auto simp: world_inv_in_flight xfer_unref_def)
    then show ?thesis using flight assms(1) k by (auto simp: world_inv_in_flight in_flight_def)
  next
    case init
    then show ?thesis using y k assms(1)
      by (auto simp: world_inv_init xfer_unref_def Let_def split: if_splits)
  next
    case finished
    then show ?thesis using y k assms(1)
      by (auto simp: world_inv_done xfer_unref_def Let_def split: if_splits)
  qed
qed

lemma world_step_inv:
  assumes "world_inv w" and "world_step ms w e w'"
  shows "world_inv w'"
  using assms(2,1)
proof cases
  case (world_start sz y)
  then have i: "xf_status (w_xfer w) = XFER_INIT" by (auto simp: xfer_start_def split: if_splits)
  then have "messages XMSG_DONE (xf_queue (w_xfer w)) = 0" using assms(1) by (simp add: world_inv_init)
  note y = xfer_start_Inr [OF world_start(5) this]
  have "in_flight (w_xfer w')" using y(2) world_start by (simp add: in_flight_def)
  then show ?thesis
    using y i world_start assms(1) by (auto simp: world_inv_in_flight world_inv_init [OF i] nat_le_iff)
next
  case (world_report elt)
  then have "in_flight (w_xfer w)"
    using world_report(3) assms(1)
    by (rule_tac world_inv_status [OF assms(1)]) (auto simp: world_inv_init world_inv_done)
  then show ?thesis using world_report assms(1)
    by (auto simp: world_inv_in_flight in_flight_def xfer_queue_message_def xmsg_new_def)
next
  case (world_message m)
  then show ?thesis
    using world_inv_quiet [OF assms(1) quiet_message [of m]] by (simp add: xfer_queue_message_def)
next
  case (world_fail elt message)
  then show ?thesis
    using world_inv_quiet [OF assms(1) quiet_cancel_with_error]
    by (simp add: xfer_cancel_with_error_def xfer_cancel_def xfer_queue_message_def)
next
  case (world_call c r y)
  then show ?thesis using call_keeps_inv [OF assms(1)] by simp
next
  case (world_dispatch msg queue calls r u y fin)
  have "in_flight (w_xfer w)"
    using assms(1) world_dispatch(4,5) by (elim world_inv_status) auto
  from dispatch_keeps_inv [OF assms(1) this world_dispatch(6,7), of ms] show ?thesis
    using world_dispatch by auto
qed

lemma world_start_inv: "world_start_state w \<Longrightarrow> world_inv w"
  by (auto simp: world_start_state_def xfer_new_def world_inv_init split: if_splits dest!: sym [of _ "w_xfer w"])

interpretation transfer: guarded_system world_start_state "world_step ms" world_inv for ms
  by unfold_locales (blast intro: world_start_inv, blast intro: world_step_inv)

subsection \<open>The whole loop\<close>

lemma refs_after_cancels: "set cs \<subseteq> {Client_cancel} \<Longrightarrow> refs_after r cs = Some r"
  by (induction cs) auto

lemma dispatch_reaches_done:
  assumes "in_flight x" and "xf_refcount x = int r + 1" and "\<not> xf_freed x"
    and "xf_num_active_elements x = int (messages XMSG_DONE (xf_queue x))" and "0 < xf_num_active_elements x"
    and "\<And>u m. set (snd (cb u m)) \<subseteq> {Client_cancel}"
  shows "\<exists>v y. xmsgsource_dispatch ms cb u x = Inr (v, y) \<and> xf_status y = XFER_DONE"
  using assms
proof (induction "still_to_come x" arbitrary: x u rule: less_induct)
  case less
  obtain msg queue where q: "xf_queue x = msg # queue" using less.prems(4,5) by (cases "xf_queue x") auto
  let ?x = "x\<lparr>xf_queue := queue\<rparr>"
  have fl: "in_flight ?x" using less.prems(1) by (simp add: in_flight_def)
  moreover have "xf_refcount ?x = int r + 1" "\<not> xf_freed ?x" using less.prems by auto
  moreover have "refs_after r (snd (cb u msg)) = Some r" by (rule refs_after_cancels) (rule less.prems(6))
  ultimately obtain y deliver fin z where h: "handle_message ms msg ?x = Inr (y, deliver, fin)"
    and d: "dispatch_one ms cb u msg ?x = Inr (if deliver then fst (cb u msg) else u, z, fin)"
    and z: "xf_status z = xf_status y" "\<not> xf_freed z \<longrightarrow> messages XMSG_DONE (xf_queue z) = messages XMSG_DONE (xf_queue ?x)"
      "xf_num_active_elements z = xf_num_active_elements y"
      "xf_refcount z = int (if deliver then r else r) + (if fin then 0 else 1)" "xf_freed z \<longleftrightarrow> xf_refcount z = 0"
    using dispatch_one_in_flight [of ?x r cb u msg r ms] by blast
  note m = handle_message_in_flight [OF fl, of ms msg]
  have step: "xmsgsource_dispatch ms cb u x =
      (if fin then Inr (if deliver then fst (cb u msg) else u, z)
       else xmsgsource_dispatch ms cb (if deliver then fst (cb u msg) else u) z)"
    using less.prems(1) q d by (subst xmsgsource_dispatch.simps) (auto simp: in_flight_def split: bool.split)
  show ?case
  proof (cases fin)
    case True
    then have "xf_status z = XFER_DONE" using m h z(1) by (cases "msg_type msg = XMSG_DONE") auto
    then show ?thesis using step True by simp
  next
    case False
    then have "in_flight z" "xf_num_active_elements z = xf_num_active_elements ?x - (if msg_type msg = XMSG_DONE then 1 else 0)"
      "msg_type msg = XMSG_DONE \<longrightarrow> 1 < xf_num_active_elements ?x"
      using m h z(1,3) less.prems(1)
      by (cases "msg_type msg = XMSG_DONE"; cases "msg_type msg = XMSG_CANCEL"; auto simp: in_flight_def)+
    moreover have "still_to_come z < still_to_come x"
      using still_to_come_dispatch [OF d] q by (simp add: still_to_come_def)
    ultimately show ?thesis
      using less.hyps [of z] z False q less.prems(4,5,6) step by auto
  qed
qed

section \<open>An example\<close>

text \<open>A transfer of passive elements: it is done as soon as it is started.\<close>

lemma default_setup: "setup_elements default_methods is x = (x, True)"
  by (induction "is") (simp_all add: default_methods_def xfer_element_setup_impl_def)

lemma default_start: "start_elements default_methods is x = x"
  by (induction "is") (simp_all add: default_methods_def xfer_element_start_impl_def)

definition example_elements :: "xfer_element list" where
  "example_elements = map (\<lambda>e. e\<lparr>xe_attached := True\<rparr>) [source_fd, filter_xor, dest_buffer]"

definition example_world :: world where
  "example_world =
     \<lparr>w_xfer = \<lparr>xf_status = XFER_INIT, xf_refcount = 1, xf_elements = example_elements, xf_queue = [],
                xf_num_active_elements = 0, xf_cancelled = 0, xf_freed = False\<rparr>,
      w_running = 0, w_refs = 1, w_log = []\<rparr>"

lemma example_world_start: "world_start_state example_world"
  unfolding world_start_state_def
  by (intro conjI exI [of _ "[source_fd, filter_xor, dest_buffer]"])
    (simp_all add: example_world_def example_elements_def xfer_new_def source_fd_def filter_xor_def
      dest_buffer_def xfer_element_init_def)

lemma example_elements_link: "\<exists>new. link_elements example_elements = Inr new"
  by (rule passable_links [where source = "source_fd\<lparr>xe_attached := True\<rparr>"
        and rest = "[filter_xor\<lparr>xe_attached := True\<rparr>, dest_buffer\<lparr>xe_attached := True\<rparr>]"
        and p = "pair XFER_MECH_NONE XFER_MECH_READFD 0 0"])
    (simp_all add: example_elements_def source_fd_def filter_xor_def dest_buffer_def xfer_element_init_def
      first_pair_def entries_def is_terminator_def terminator_def)

definition example_running :: "xfer_element list \<Rightarrow> world" where
  "example_running elements =
     \<lparr>w_xfer = \<lparr>xf_status = XFER_RUNNING, xf_refcount = 2, xf_elements = link_neighbours elements,
                xf_queue = [xmsg_new (length elements - 1) XMSG_DONE],
                xf_num_active_elements = 1, xf_cancelled = 0, xf_freed = False\<rparr>,
      w_running = 0, w_refs = 1, w_log = []\<rparr>"

lemma example_started:
  "\<exists>elements. run_steps (world_step default_methods) example_world [Start 0] (example_running elements)"
proof -
  obtain elements where "link_elements example_elements = Inr elements" using example_elements_link by blast
  moreover have "length example_elements = 3" by (simp add: example_elements_def)
  ultimately have "xfer_start default_methods 0 0 (w_xfer example_world) = Inr (w_xfer (example_running elements))"
    by (simp add: xfer_start_def example_world_def example_running_def xfer_set_status_def xfer_ref_def
        set_up_and_start_def default_setup start_all_def default_start done_if_idle_def
        xfer_queue_message_def link_neighbours_def Let_def)
  then have "world_step default_methods example_world (Start 0) (example_running elements)"
    using world_start [of example_world default_methods 0]
    by (simp add: example_world_def example_running_def xmsg_new_def)
  then show ?thesis by (intro exI) (rule run_cons [OF _ run_nil])
qed

section \<open>Properties\<close>

text \<open>C9: whatever the elements and the client do, the main loop can always process the next message of a
  started transfer: no status assertion fails, and the transfer it works on is not freed under it,
  if the callback gives back only references the client holds.\<close>

theorem xfer_dispatch_never_fails:
  assumes "world_start_state w0" and "run_steps (world_step ms) w0 es w"
    and "xf_status (w_xfer w) \<noteq> XFER_INIT" and "xf_status (w_xfer w) \<noteq> XFER_DONE"
    and "xf_queue (w_xfer w) = msg # queue" and "refs_after (w_refs w) calls = Some r"
  shows "\<exists>u y fin. dispatch_one ms (\<lambda>u m. (u @ [m], calls)) (w_log w) msg ((w_xfer w)\<lparr>xf_queue := queue\<rparr>) =
           Inr (u, y, fin)"
proof -
  have inv: "world_inv w" using transfer.inv_reachable [OF assms(1,2)] .
  with assms(3,4) have "in_flight (w_xfer w)" by (elim world_inv_status) auto
  from dispatch_keeps_inv [OF inv this assms(5,6), of ms] show ?thesis by blast
qed

theorem xfer_dispatch_never_fails_witness:
  "\<exists>elements u y fin. dispatch_one default_methods (\<lambda>u m. (u @ [m], [Client_unref])) []
     (xmsg_new (length elements - 1) XMSG_DONE)
     ((w_xfer (example_running elements))\<lparr>xf_queue := []\<rparr>) = Inr (u, y, fin)"
proof -
  obtain elements where "run_steps (world_step default_methods) example_world [Start 0] (example_running elements)"
    using example_started by blast
  from xfer_dispatch_never_fails [OF example_world_start this, of "xmsg_new (length elements - 1) XMSG_DONE" "[]"
      "[Client_unref]" 0]
  show ?thesis by (auto simp: example_running_def)
qed



text \<open>Once every active element has reported its end, one run of the main loop's dispatch finishes the
  transfer, cancelled or not, whatever else is queued and even if the callback cancels it again.\<close>

theorem xfer_dispatch_finishes:
  assumes "world_start_state w0" and "run_steps (world_step ms) w0 es w"
    and "xf_status (w_xfer w) \<in> {XFER_RUNNING, XFER_CANCELLED}" and "w_running w = 0"
    and "\<And>u m. set (snd (cb u m)) \<subseteq> {Client_cancel}"
  shows "\<exists>v y. xmsgsource_dispatch ms cb u (w_xfer w) = Inr (v, y) \<and> xf_status y = XFER_DONE"
proof -
  have fl: "in_flight (w_xfer w)" using assms(3) by (auto simp: in_flight_def)
  have "world_inv w" using transfer.inv_reachable [OF assms(1,2)] .
  then show ?thesis
    unfolding world_inv_in_flight [OF fl] using fl assms(4,5) by (intro dispatch_reaches_done) auto
qed

theorem xfer_dispatch_finishes_witness:
  "\<exists>elements v y. xmsgsource_dispatch default_methods (\<lambda>u m. (u @ [m], [Client_cancel])) []
     (w_xfer (example_running elements)) = Inr (v, y) \<and> xf_status y = XFER_DONE"
proof -
  obtain elements where "run_steps (world_step default_methods) example_world [Start 0] (example_running elements)"
    using example_started by blast
  from xfer_dispatch_finishes [OF example_world_start this, of "\<lambda>u m. (u @ [m], [Client_cancel])" "[]"]
  show ?thesis by (auto simp: example_running_def)
qed

end
