(* ===== verification/Protocol.thy ===== *)
theory Protocol
  imports Amanda_Prelude
begin

text \<open>
  Packets (\<open>common-src/packet.c\<close>) and the request protocol (\<open>common-src/protocol.c\<close>): connect with
  retries, send the request until it is acknowledged, wait for the reply, start over after a silent
  hour's part. The security layer is outside: what it sends back are the events of the model, and
  what the protocol asks of it are the outputs. What is proved: a packet's buffer always holds its
  text and the terminating NUL; no assertion of the state machine fails, whatever packets arrive;
  the caller gets one final answer; the number of connections, of requests sent and of timeouts
  before the end is bounded by the configured tries.
\<close>

section \<open>Packets\<close>

datatype pktype = P_REQ | P_REP | P_PREP | P_ACK | P_NAK

record pkt =
  pkt_type :: pktype
  pkt_body :: string
  pkt_size :: nat
  pkt_packet_size :: nat

definition pktypes :: "(string \<times> pktype) list" where
  "pktypes = [(''REQ'', P_REQ), (''REP'', P_REP), (''PREP'', P_PREP), (''ACK'', P_ACK), (''NAK'', P_NAK)]"

definition pkt_str2type :: "string \<Rightarrow> pktype option" where
  \<comment> \<open>\<open>(pktype_t) - 1\<close> for a name that is not in the table\<close>
  "pkt_str2type typestr = map_of pktypes typestr"

definition pkt_type2str :: "pktype \<Rightarrow> string" where
  "pkt_type2str type = (case List.find (\<lambda>(n, t). t = type) pktypes of Some (n, _) \<Rightarrow> n | None \<Rightarrow> ''BOGUS'')"

definition pkt_init_empty :: "pktype \<Rightarrow> pkt" where
  "pkt_init_empty type = \<lparr>pkt_type = type, pkt_body = [], pkt_size = 0, pkt_packet_size = 1000\<rparr>"

text \<open>
  The loop of \<open>pkt_init\<close> and \<open>pkt_cat\<close>: the buffer is doubled until the printed text of length
  \<open>len\<close>, behind the \<open>used\<close> bytes in front, leaves one byte to spare.
\<close>

function grow :: "nat \<Rightarrow> nat \<Rightarrow> nat \<Rightarrow> nat" where
  "grow used len packet_size =
     (if packet_size = 0 \<or> len + used + 1 < packet_size then packet_size
      else grow used len (packet_size * 2))"
  by pat_completeness auto

termination by (relation "measure (\<lambda>(used, len, n). Suc (used + len + 2) - n)") auto

declare grow.simps [simp del]

definition pkt_init :: "pktype \<Rightarrow> string \<Rightarrow> pkt" where
  "pkt_init type text =
     \<lparr>pkt_type = type, pkt_body = text, pkt_size = length text, pkt_packet_size = grow 0 (length text) 1000\<rparr>"

definition pkt_cat :: "string \<Rightarrow> pkt \<Rightarrow> pkt" where
  "pkt_cat text pkt =
     (let body = pkt_body pkt @ text in
      pkt\<lparr>pkt_body := body, pkt_size := length body,
          pkt_packet_size := grow (length (pkt_body pkt)) (length text) (pkt_packet_size pkt)\<rparr>)"

definition pkt_ok :: "pkt \<Rightarrow> bool" where
  "pkt_ok pkt \<longleftrightarrow> pkt_size pkt = length (pkt_body pkt) \<and> pkt_size pkt + 1 < pkt_packet_size pkt"

lemma grow_fits: "0 < n \<Longrightarrow> len + used + 1 < grow used len n"
  by (induction used len n rule: grow.induct) (subst grow.simps, auto)

lemma pkt_init_ok: "pkt_ok (pkt_init type text)"
  using grow_fits [of 1000 "length text" 0] by (simp add: pkt_ok_def pkt_init_def)

lemma pkt_cat_ok: "pkt_ok pkt \<Longrightarrow> pkt_ok (pkt_cat text pkt)"
  using grow_fits [of "pkt_packet_size pkt" "length text" "length (pkt_body pkt)"]
  by (simp add: pkt_ok_def pkt_cat_def Let_def)

lemma pkt_type_roundtrip: "pkt_str2type (pkt_type2str t) = Some t"
  by (cases t) (simp_all add: pkt_str2type_def pkt_type2str_def pktypes_def)

section \<open>The state of a request\<close>

datatype p_action =
    PA_START | PA_TIMEOUT | PA_ERROR | PA_RCVDATA | PA_CONTPEND | PA_PENDING | PA_CONTINUE | PA_FINISH | PA_ABORT

text \<open>A state is a pointer to one of three functions.\<close>

datatype pstate = At_sendreq | At_ackwait | At_repwait

record proto =
  p_state :: pstate
  p_timeout :: int
  p_repwait :: int
  p_origtime :: int
  p_curtime :: int
  p_connecttries :: int
  p_resettries :: int
  p_reqtries :: int
  p_req :: pkt

definition CONNECT_WAIT :: int where "CONNECT_WAIT = 5"
definition ACK_WAIT :: int where "ACK_WAIT = 10"
definition RESET_TRIES :: int where "RESET_TRIES = 2"

text \<open>
  What a handler finds outside: the time since the start of the program, whether
  \<open>security_sendpkt\<close> succeeds, and \<open>getconf_int(CNF_REQ_TRIES)\<close>. What it does there: the packets
  sent, the wait for a packet with its timeout, calls of the continuation, closed handles, attempts
  to connect and waits before them.
\<close>

record env =
  CURTIME :: int
  can_send :: bool
  req_tries :: int

datatype effect = Sent pkt | Receive int | Answer "pkt option" | Close | Connect | Wait int

definition DROP_DEAD_TIME :: "env \<Rightarrow> int \<Rightarrow> bool" where
  "DROP_DEAD_TIME env t \<longleftrightarrow> CURTIME env - t > 60 * 60"

definition s_sendreq :: "env \<Rightarrow> proto \<Rightarrow> fault + proto \<times> effect list \<times> p_action" where
  "s_sendreq env p =
     (if \<not> can_send env then Inr (p, [], PA_ABORT)
      else Inr (p\<lparr>p_curtime := CURTIME env, p_state := At_ackwait, p_timeout := ACK_WAIT\<rparr>,
                [Sent (p_req p)], PA_PENDING))"

definition s_ackwait :: "env \<Rightarrow> proto \<Rightarrow> p_action \<Rightarrow> pkt option \<Rightarrow> fault + proto \<times> effect list \<times> p_action" where
  "s_ackwait env p action pkt =
     (if action = PA_TIMEOUT then
        if pkt \<noteq> None then Inl Assertion_failed
        else
          let p = p\<lparr>p_reqtries := p_reqtries p - 1\<rparr> in
          if p_reqtries p = 0 then Inr (p, [], PA_ABORT)
          else Inr (p\<lparr>p_state := At_sendreq\<rparr>, [], PA_CONTINUE)
      else if action \<noteq> PA_RCVDATA then Inl Assertion_failed
      else case pkt of
          None \<Rightarrow> Inl Assertion_failed
        | Some pkt \<Rightarrow>
            (case pkt_type pkt of
               P_ACK \<Rightarrow> Inr (p\<lparr>p_state := At_repwait, p_timeout := p_repwait p\<rparr>, [], PA_PENDING)
             | P_NAK \<Rightarrow> Inr (p, [], PA_FINISH)
             | P_REP \<Rightarrow> Inr (p\<lparr>p_state := At_repwait\<rparr>, [], PA_CONTINUE)
             | P_PREP \<Rightarrow> Inr (p\<lparr>p_state := At_repwait\<rparr>, [], PA_CONTINUE)
             | P_REQ \<Rightarrow> Inr (p, [], PA_PENDING)))"

definition s_repwait :: "env \<Rightarrow> proto \<Rightarrow> p_action \<Rightarrow> pkt option \<Rightarrow> fault + proto \<times> effect list \<times> p_action" where
  "s_repwait env p action pkt =
     (if action = PA_TIMEOUT then
        if pkt \<noteq> None then Inl Assertion_failed
        else if p_resettries p = 0 \<or> DROP_DEAD_TIME env (p_origtime p) then Inr (p, [], PA_ABORT)
        else Inr (p\<lparr>p_resettries := p_resettries p - 1, p_state := At_sendreq, p_reqtries := req_tries env\<rparr>,
                  [], PA_CONTINUE)
      else if action \<noteq> PA_RCVDATA then Inl Assertion_failed
      else case pkt of
          None \<Rightarrow> Inl Out_of_bounds
        | Some pkt \<Rightarrow>
            if pkt_type pkt = P_NAK then Inr (p, [], PA_FINISH)
            else if pkt_type pkt \<noteq> P_REP \<and> pkt_type pkt \<noteq> P_PREP then Inr (p, [], PA_PENDING)
            else if pkt_type pkt = P_REP then
              if \<not> can_send env then Inr (p, [], PA_ABORT)
              else Inr (p, [Sent (pkt_init_empty P_ACK)], PA_FINISH)
            else
              let timeout = p_repwait p - CURTIME env + p_curtime p + 1 in
              Inr (p\<lparr>p_timeout := (if timeout \<le> 0 then 1 else timeout)\<rparr>, [], PA_CONTPEND))"

definition run_state :: "env \<Rightarrow> proto \<Rightarrow> p_action \<Rightarrow> pkt option \<Rightarrow> fault + proto \<times> effect list \<times> p_action" where
  "run_state env p action pkt =
     (if action = PA_ABORT then Inr (p, [], PA_ABORT)
      else case p_state p of
          At_sendreq \<Rightarrow> s_sendreq env p
        | At_ackwait \<Rightarrow> s_ackwait env p action pkt
        | At_repwait \<Rightarrow> s_repwait env p action pkt)"

fun rank :: "pstate \<Rightarrow> nat" where
  "rank At_ackwait = 2"
| "rank At_repwait = 1"
| "rank At_sendreq = 0"

lemma continue_descends:
  "run_state env p action pkt = Inr (q, out, PA_CONTINUE) \<Longrightarrow> rank (p_state q) < rank (p_state p)"
  by (auto simp: run_state_def s_sendreq_def s_ackwait_def s_repwait_def Let_def
      split: if_splits pstate.splits option.splits pktype.splits)

text \<open>The loop of \<open>state_machine\<close>. The request is gone, \<^term>\<open>None\<close>, when it is finished or given up.\<close>

function machine_loop ::
  "env \<Rightarrow> proto \<Rightarrow> p_action \<Rightarrow> pkt option \<Rightarrow> fault + proto option \<times> effect list" where
  "machine_loop env p action pkt =
     (case run_state env p action pkt of
        Inl e \<Rightarrow> Inl e
      | Inr (q, out, retaction) \<Rightarrow>
          (case retaction of
             PA_CONTPEND \<Rightarrow> Inr (Some q, out @ [Answer pkt, Receive (p_timeout q)])
           | PA_PENDING \<Rightarrow> Inr (Some q, out @ [Receive (p_timeout q)])
           | PA_CONTINUE \<Rightarrow>
               if p_state q = p_state p then Inl Assertion_failed
               else map_r (\<lambda>(r, out'). (r, out @ out')) (machine_loop env q action pkt)
           | PA_ABORT \<Rightarrow> Inr (None, out @ [Answer None, Close])
           | PA_FINISH \<Rightarrow> Inr (None, out @ [Answer pkt, Close])
           | _ \<Rightarrow> Inl Assertion_failed))"
  by pat_completeness auto

termination
  by (relation "measure (\<lambda>(env, p, action, pkt). rank (p_state p))") (auto dest: continue_descends)

declare machine_loop.simps [simp del]

definition state_machine ::
  "env \<Rightarrow> proto \<Rightarrow> p_action \<Rightarrow> pkt option \<Rightarrow> fault + proto option \<times> effect list" where
  "state_machine env p action pkt =
     (if \<not> (action = PA_RCVDATA \<or> pkt = None) then Inl Assertion_failed else machine_loop env p action pkt)"

datatype security_status = S_OK | S_TIMEOUT | S_ERROR

definition recvpkt_callback ::
  "env \<Rightarrow> proto \<Rightarrow> pkt option \<Rightarrow> security_status \<Rightarrow> fault + proto option \<times> effect list" where
  "recvpkt_callback env p pkt status =
     (case status of
        S_OK \<Rightarrow> state_machine env p PA_RCVDATA pkt
      | S_TIMEOUT \<Rightarrow> state_machine env p PA_TIMEOUT None
      | S_ERROR \<Rightarrow> state_machine env p PA_ABORT None)"

definition connect_callback ::
  "env \<Rightarrow> proto \<Rightarrow> security_status \<Rightarrow> fault + proto option \<times> effect list" where
  "connect_callback env p status =
     (if status = S_OK then state_machine env p PA_START None
      else
        let p = p\<lparr>p_connecttries := p_connecttries p - 1\<rparr> in
        if p_connecttries p = 0 then state_machine env p PA_ABORT None
        else Inr (Some p, [Close, Wait CONNECT_WAIT]))"

definition connect_wait_callback :: "proto \<Rightarrow> proto \<times> effect list" where
  "connect_wait_callback p = (p, [Connect])"

definition protocol_sendreq :: "int \<Rightarrow> int \<Rightarrow> int \<Rightarrow> string \<Rightarrow> int \<Rightarrow> proto \<times> effect list" where
  "protocol_sendreq now connect_tries tries req repwait =
     (\<lparr>p_state = At_sendreq, p_timeout = 0, p_repwait = repwait, p_origtime = now, p_curtime = 0,
       p_connecttries = connect_tries, p_resettries = RESET_TRIES, p_reqtries = tries,
       p_req = pkt_init P_REQ req\<rparr>, [Connect])"

section \<open>A sweep of the state machine\<close>

lemma loop_abort [simp]: "machine_loop env p PA_ABORT pkt = Inr (None, [Answer None, Close])"
  by (simp add: machine_loop.simps run_state_def)

lemma loop_sendreq:
  "p_state p = At_sendreq \<Longrightarrow> action \<noteq> PA_ABORT \<Longrightarrow>
   machine_loop env p action pkt =
     (if can_send env
      then Inr (Some (p\<lparr>p_curtime := CURTIME env, p_state := At_ackwait, p_timeout := ACK_WAIT\<rparr>),
                [Sent (p_req p), Receive ACK_WAIT])
      else Inr (None, [Answer None, Close]))"
  by (subst machine_loop.simps) (simp add: run_state_def s_sendreq_def)

lemma loop_repwait_timeout:
  "p_state p = At_repwait \<Longrightarrow>
   machine_loop env p PA_TIMEOUT None =
     (if p_resettries p = 0 \<or> DROP_DEAD_TIME env (p_origtime p) then Inr (None, [Answer None, Close])
      else machine_loop env (p\<lparr>p_resettries := p_resettries p - 1, p_state := At_sendreq,
             p_reqtries := req_tries env\<rparr>) PA_TIMEOUT None)"
  by (subst machine_loop.simps) (simp add: run_state_def s_repwait_def loop_sendreq)

lemma loop_repwait_packet:
  "p_state p = At_repwait \<Longrightarrow>
   machine_loop env p PA_RCVDATA (Some pkt) =
     (if pkt_type pkt = P_NAK then Inr (None, [Answer (Some pkt), Close])
      else if pkt_type pkt = P_REP then
        (if can_send env then Inr (None, [Sent (pkt_init_empty P_ACK), Answer (Some pkt), Close])
         else Inr (None, [Answer None, Close]))
      else if pkt_type pkt = P_PREP then
        (let t = max 1 (p_repwait p - CURTIME env + p_curtime p + 1) in
         Inr (Some (p\<lparr>p_timeout := t\<rparr>), [Answer (Some pkt), Receive t]))
      else Inr (Some p, [Receive (p_timeout p)]))"
  by (subst machine_loop.simps) (auto simp: run_state_def s_repwait_def Let_def max_def)

lemma loop_ackwait_timeout:
  "p_state p = At_ackwait \<Longrightarrow>
   machine_loop env p PA_TIMEOUT None =
     (if p_reqtries p = 1 then Inr (None, [Answer None, Close])
      else machine_loop env (p\<lparr>p_reqtries := p_reqtries p - 1, p_state := At_sendreq\<rparr>) PA_TIMEOUT None)"
  by (subst machine_loop.simps) (simp add: run_state_def s_ackwait_def Let_def loop_sendreq)

lemma loop_ackwait_packet:
  "p_state p = At_ackwait \<Longrightarrow>
   machine_loop env p PA_RCVDATA (Some pkt) =
     (if pkt_type pkt = P_ACK then
        Inr (Some (p\<lparr>p_state := At_repwait, p_timeout := p_repwait p\<rparr>), [Receive (p_repwait p)])
      else if pkt_type pkt = P_REQ then Inr (Some p, [Receive (p_timeout p)])
      else machine_loop env (p\<lparr>p_state := At_repwait\<rparr>) PA_RCVDATA (Some pkt))"
  by (subst machine_loop.simps)
    (cases "pkt_type pkt"; simp add: run_state_def s_ackwait_def loop_repwait_packet Let_def)

lemmas loop_simps = loop_sendreq loop_repwait_timeout loop_repwait_packet loop_ackwait_timeout loop_ackwait_packet

section \<open>A request among its events\<close>

datatype phase = Connecting | Waiting | Receiving | Over

record request =
  rq_phase :: phase
  rq_proto :: proto
  rq_log :: "effect list"

text \<open>The answer of \<open>security_connect\<close>, the end of the wait before the next attempt, and the answer of
  \<open>security_recvpkt\<close>; with the time and whether a packet can be sent.\<close>

datatype request_event =
    Connected int bool security_status
  | Wait_over
  | Timed_out int bool
  | Lost int bool
  | Packet int bool pkt

fun phase_of :: "effect list \<Rightarrow> phase" where
  "phase_of [] = Over"
| "phase_of [Receive _] = Receiving"
| "phase_of [Wait _] = Waiting"
| "phase_of [Connect] = Connecting"
| "phase_of (_ # os) = phase_of os"

definition continue_with :: "request \<Rightarrow> proto option \<times> effect list \<Rightarrow> request" where
  "continue_with r res =
     (case res of
        (None, out) \<Rightarrow> r\<lparr>rq_phase := Over, rq_log := rq_log r @ out\<rparr>
      | (Some p, out) \<Rightarrow> r\<lparr>rq_phase := phase_of out, rq_proto := p, rq_log := rq_log r @ out\<rparr>)"

definition env_at :: "int \<Rightarrow> int \<Rightarrow> bool \<Rightarrow> env" where
  "env_at tries now ok = \<lparr>CURTIME = now, can_send = ok, req_tries = tries\<rparr>"

lemma env_at_simps [simp]:
  "CURTIME (env_at tries now ok) = now" "can_send (env_at tries now ok) = ok"
  "req_tries (env_at tries now ok) = tries"
  by (simp_all add: env_at_def)

fun callback :: "int \<Rightarrow> request \<Rightarrow> request_event \<Rightarrow> (fault + proto option \<times> effect list) option" where
  \<comment> \<open>the callback an event runs, if the request waits for such an event\<close>
  "callback tries r (Connected now ok status) =
     (if rq_phase r = Connecting then Some (connect_callback (env_at tries now ok) (rq_proto r) status) else None)"
| "callback tries r Wait_over =
     (if rq_phase r = Waiting then Some (Inr (map_prod Some (\<lambda>x. x) (connect_wait_callback (rq_proto r)))) else None)"
| "callback tries r (Timed_out now ok) =
     (if rq_phase r = Receiving
      then Some (recvpkt_callback (env_at tries now ok) (rq_proto r) None S_TIMEOUT) else None)"
| "callback tries r (Lost now ok) =
     (if rq_phase r = Receiving
      then Some (recvpkt_callback (env_at tries now ok) (rq_proto r) None S_ERROR) else None)"
| "callback tries r (Packet now ok pkt) =
     (if rq_phase r = Receiving
      then Some (recvpkt_callback (env_at tries now ok) (rq_proto r) (Some pkt) S_OK) else None)"

inductive request_step :: "int \<Rightarrow> request \<Rightarrow> request_event \<Rightarrow> request \<Rightarrow> bool" for tries where
  request_step: "callback tries r e = Some (Inr res) \<Longrightarrow> request_step tries r e (continue_with r res)"

inductive_cases request_stepE: "request_step tries r e r'"

definition new_request :: "int \<Rightarrow> int \<Rightarrow> request \<Rightarrow> bool" where
  "new_request connect_tries tries r \<longleftrightarrow>
     (\<exists>now req repwait. let (p, out) = protocol_sendreq now connect_tries tries req repwait in
        r = \<lparr>rq_phase = Connecting, rq_proto = p, rq_log = out\<rparr>)"

subsection \<open>What is counted\<close>

fun is_req :: "effect \<Rightarrow> bool" where
  "is_req (Sent pkt) \<longleftrightarrow> pkt_type pkt = P_REQ"
| "is_req _ \<longleftrightarrow> False"

fun is_final :: "effect \<Rightarrow> bool" where
  \<comment> \<open>an answer that is not a partial reply\<close>
  "is_final (Answer None) \<longleftrightarrow> True"
| "is_final (Answer (Some pkt)) \<longleftrightarrow> pkt_type pkt \<noteq> P_PREP"
| "is_final _ \<longleftrightarrow> False"

definition count_of :: "('a \<Rightarrow> bool) \<Rightarrow> 'a list \<Rightarrow> nat" where
  "count_of P xs = length (filter P xs)"

lemma count_of_simps [simp]:
  "count_of P [] = 0"
  "count_of P (x # xs) = (if P x then 1 else 0) + count_of P xs"
  "count_of P (xs @ ys) = count_of P xs + count_of P ys"
  by (simp_all add: count_of_def)

text \<open>How many requests a request in this state can still send, and how many timeouts it survives.\<close>

definition requests_left :: "int \<Rightarrow> phase \<Rightarrow> proto \<Rightarrow> int" where
  "requests_left tries ph p =
     (case ph of
        Over \<Rightarrow> 0
      | Receiving \<Rightarrow> (if p_state p = At_ackwait then p_reqtries p - 1 else 0) + p_resettries p * tries
      | _ \<Rightarrow> 3 * tries)"

definition timeouts_left :: "int \<Rightarrow> phase \<Rightarrow> proto \<Rightarrow> int" where
  "timeouts_left tries ph p =
     (case ph of
        Over \<Rightarrow> 0
      | Receiving \<Rightarrow> (if p_state p = At_ackwait then p_reqtries p else 1) + p_resettries p * (tries + 1)
      | _ \<Rightarrow> 3 * tries + 2)"

definition request_inv :: "int \<Rightarrow> int \<Rightarrow> request \<Rightarrow> bool" where
  "request_inv connect_tries tries r \<longleftrightarrow>
     (let p = rq_proto r; log = rq_log r in
      1 \<le> tries \<and> 1 \<le> connect_tries \<and> pkt_type (p_req p) = P_REQ \<and>
      int (count_of is_req log) + requests_left tries (rq_phase r) p \<le> 3 * tries \<and>
      (case rq_phase r of
         Connecting \<Rightarrow> p_state p = At_sendreq \<and> p_resettries p = RESET_TRIES \<and> p_reqtries p = tries \<and>
            1 \<le> p_connecttries p \<and> int (count_of (\<lambda>x. x = Connect) log) + p_connecttries p = connect_tries + 1
       | Waiting \<Rightarrow> p_state p = At_sendreq \<and> p_resettries p = RESET_TRIES \<and> p_reqtries p = tries \<and>
            1 \<le> p_connecttries p \<and> int (count_of (\<lambda>x. x = Connect) log) + p_connecttries p = connect_tries
       | Receiving \<Rightarrow> p_state p \<noteq> At_sendreq \<and> 1 \<le> p_reqtries p \<and> p_reqtries p \<le> tries \<and>
            0 \<le> p_resettries p \<and> p_resettries p \<le> RESET_TRIES
       | Over \<Rightarrow> True) \<and>
      int (count_of (\<lambda>x. x = Connect) log) \<le> connect_tries \<and>
      count_of is_final log = (if rq_phase r = Over then 1 else 0) \<and>
      (rq_phase r = Over \<longrightarrow> (\<exists>pre a. log = pre @ [a, Close] \<and> is_final a)))"

subsection \<open>Every event keeps the invariant and pays for its timeout\<close>

definition price :: "request_event \<Rightarrow> nat" where
  "price e = (case e of Timed_out _ _ \<Rightarrow> 1 | _ \<Rightarrow> 0)"

definition left_of :: "int \<Rightarrow> request \<Rightarrow> int" where
  "left_of tries r = timeouts_left tries (rq_phase r) (rq_proto r)"

text \<open>The end of a request: one final answer behind a log without any.\<close>

lemma request_over:
  assumes "request_inv ct tries r" and "rq_phase r \<noteq> Over" and "count_of is_req pre = 0"
    and "count_of (\<lambda>x. x = Connect) pre = 0" and "count_of is_final pre = 0" and "is_final a"
  shows "request_inv ct tries (continue_with r (None, pre @ [a, Close]))"
    and "left_of tries (continue_with r (None, pre @ [a, Close])) = 0"
proof -
  have "0 \<le> requests_left tries (rq_phase r) (rq_proto r)"
    using assms(1,2) by (auto simp: request_inv_def requests_left_def Let_def split: phase.splits)
  moreover have "\<not> is_req a" "a \<noteq> Connect" using assms(6) by (cases a; simp)+
  ultimately show "request_inv ct tries (continue_with r (None, pre @ [a, Close]))"
    using assms by (auto simp: request_inv_def continue_with_def requests_left_def Let_def split: phase.splits)
  show "left_of tries (continue_with r (None, pre @ [a, Close])) = 0"
    by (simp add: left_of_def continue_with_def timeouts_left_def)
qed

lemma request_given_up:
  assumes "request_inv ct tries r" and "rq_phase r \<noteq> Over"
  shows "request_inv ct tries (continue_with r (None, [Answer None, Close]))"
    and "left_of tries (continue_with r (None, [Answer None, Close])) = 0"
  using request_over [OF assms, of "[]" "Answer None"] by simp_all

lemma left_of_nonneg: "request_inv ct tries r \<Longrightarrow> 0 \<le> left_of tries r"
  by (auto simp: request_inv_def left_of_def timeouts_left_def Let_def split: phase.splits)

lemma left_of_receiving:
  assumes "request_inv ct tries r" and "rq_phase r = Receiving"
  shows "1 \<le> left_of tries r"
proof -
  have "0 \<le> p_resettries (rq_proto r) * (tries + 1)"
    using assms by (intro mult_nonneg_nonneg) (auto simp: request_inv_def Let_def)
  then have "1 \<le> k + p_resettries (rq_proto r) * (tries + 1)" if "1 \<le> k" for k
    using that by linarith
  then show ?thesis using assms by (simp add: request_inv_def left_of_def timeouts_left_def Let_def)
qed

definition good_outcome :: "int \<Rightarrow> int \<Rightarrow> request \<Rightarrow> nat \<Rightarrow> fault + proto option \<times> effect list \<Rightarrow> bool" where
  "good_outcome ct tries r n res \<longleftrightarrow>
     (\<exists>x. res = Inr x \<and> request_inv ct tries (continue_with r x) \<and>
        left_of tries (continue_with r x) + int n \<le> left_of tries r)"

lemma good_outcome_Inr [simp]:
  "good_outcome ct tries r n (Inr x) \<longleftrightarrow>
     request_inv ct tries (continue_with r x) \<and> left_of tries (continue_with r x) + int n \<le> left_of tries r"
  by (simp add: good_outcome_def)

lemma timeout_outcome:
  assumes "request_inv ct tries r" and "rq_phase r = Receiving"
  shows "good_outcome ct tries r 1 (recvpkt_callback (env_at tries now ok) (rq_proto r) None S_TIMEOUT)"
proof -
  let ?p = "rq_proto r"
  have up: "good_outcome ct tries r 1 (Inr (None, [Answer None, Close]))"
    using request_given_up [OF assms(1)] left_of_receiving [OF assms] assms(2)
    by simp
  have st: "p_state ?p = At_ackwait \<or> p_state ?p = At_repwait"
    using assms by (cases "p_state ?p") (auto simp: request_inv_def Let_def)
  then show ?thesis
  proof
    assume a: "p_state ?p = At_ackwait"
    show ?thesis
    proof (cases "p_reqtries ?p = 1 \<or> \<not> ok")
      case True
      then show ?thesis using up a by (auto simp: recvpkt_callback_def state_machine_def loop_simps)
    next
      case False
      then show ?thesis
        using assms a
        by (auto simp: recvpkt_callback_def state_machine_def loop_simps continue_with_def
            request_inv_def requests_left_def timeouts_left_def left_of_def Let_def)
    qed
  next
    assume a: "p_state ?p = At_repwait"
    show ?thesis
    proof (cases "p_resettries ?p = 0 \<or> DROP_DEAD_TIME (env_at tries now ok) (p_origtime ?p) \<or> \<not> ok")
      case True
      then show ?thesis using up a by (auto simp: recvpkt_callback_def state_machine_def loop_simps)
    next
      case False
      then show ?thesis
        using assms a
        by (auto simp: recvpkt_callback_def state_machine_def loop_simps continue_with_def
            request_inv_def requests_left_def timeouts_left_def left_of_def Let_def algebra_simps)
    qed
  qed
qed

lemma packet_outcome:
  assumes "request_inv ct tries r" and "rq_phase r = Receiving"
  shows "good_outcome ct tries r 0 (recvpkt_callback (env_at tries now ok) (rq_proto r) (Some pkt) S_OK)"
proof -
  let ?p = "rq_proto r"
  have up: "good_outcome ct tries r 0 (Inr (None, [Answer None, Close]))"
    using request_given_up [OF assms(1)] left_of_receiving [OF assms] assms(2)
    by simp
  have fin: "good_outcome ct tries r 0 (Inr (None, pre @ [Answer (Some pkt), Close]))"
    if "pkt_type pkt \<noteq> P_PREP" "count_of is_req pre = 0" "count_of (\<lambda>x. x = Connect) pre = 0"
      "count_of is_final pre = 0" for pre
    using request_over [OF assms(1) _ that(2-4), of "Answer (Some pkt)"] that(1) left_of_receiving [OF assms] assms(2)
    by simp
  have st: "p_state ?p = At_ackwait \<or> p_state ?p = At_repwait"
    using assms by (cases "p_state ?p") (auto simp: request_inv_def Let_def)
  show ?thesis
  proof (cases "pkt_type pkt")
    case P_NAK
    then show ?thesis using st fin [of "[]"]
      by (auto simp: recvpkt_callback_def state_machine_def loop_simps)
  next
    case P_REP
    then show ?thesis using st up fin [of "[Sent (pkt_init_empty P_ACK)]"]
      by (auto simp: recvpkt_callback_def state_machine_def loop_simps pkt_init_empty_def)
  next
    case P_REQ
    then show ?thesis using st assms
      by (auto simp: recvpkt_callback_def state_machine_def loop_simps continue_with_def
          request_inv_def requests_left_def timeouts_left_def left_of_def Let_def)
  next
    case P_PREP
    then show ?thesis using st assms
      by (auto simp: recvpkt_callback_def state_machine_def loop_simps continue_with_def
          request_inv_def requests_left_def timeouts_left_def left_of_def Let_def)
  next
    case P_ACK
    then show ?thesis using st assms
      by (auto simp: recvpkt_callback_def state_machine_def loop_simps continue_with_def
          request_inv_def requests_left_def timeouts_left_def left_of_def Let_def)
  qed
qed

lemma connect_outcome:
  assumes "request_inv ct tries r" and "rq_phase r = Connecting"
  shows "good_outcome ct tries r 0 (connect_callback (env_at tries now ok) (rq_proto r) status)"
proof -
  let ?p = "rq_proto r"
  have up: "good_outcome ct tries r 0 (Inr (None, [Answer None, Close]))"
    using request_given_up [OF assms(1)] left_of_nonneg [OF assms(1)] assms(2)
    by simp
  have st: "p_state ?p = At_sendreq" using assms by (simp add: request_inv_def Let_def)
  show ?thesis
  proof (cases "status = S_OK")
    case True
    then show ?thesis using st up assms
      by (auto simp: connect_callback_def state_machine_def loop_simps continue_with_def
          request_inv_def requests_left_def timeouts_left_def left_of_def Let_def RESET_TRIES_def)
  next
    case False
    then show ?thesis using st up assms
      by (auto simp: connect_callback_def state_machine_def continue_with_def
          request_inv_def requests_left_def timeouts_left_def left_of_def Let_def)
  qed
qed

lemma callback_outcome:
  assumes "request_inv ct tries r" and "callback tries r e = Some res"
  shows "good_outcome ct tries r (price e) res"
proof (cases e)
  case Wait_over
  then show ?thesis using assms
    by (auto simp: price_def connect_wait_callback_def continue_with_def request_inv_def
        requests_left_def timeouts_left_def left_of_def Let_def split: if_splits)
next
  case (Lost now ok)
  then have "rq_phase r = Receiving" "res = Inr (None, [Answer None, Close])"
    using assms(2) by (auto simp: recvpkt_callback_def state_machine_def split: if_splits)
  then show ?thesis
    using request_given_up [OF assms(1)] left_of_nonneg [OF assms(1)] Lost
    by (simp add: price_def)
qed (use assms timeout_outcome packet_outcome connect_outcome in \<open>auto simp: price_def split: if_splits\<close>)

lemma new_request_inv:
  assumes "new_request ct tries r" and "1 \<le> ct" and "1 \<le> tries"
  shows "request_inv ct tries r" and "left_of tries r = 3 * tries + 2"
  using assms
  by (auto simp: new_request_def protocol_sendreq_def request_inv_def requests_left_def left_of_def
      timeouts_left_def pkt_init_def Let_def)

interpretation requests: metered_system "\<lambda>r. new_request ct tries r \<and> 1 \<le> ct \<and> 1 \<le> tries" "request_step tries"
  "request_inv ct tries" price "\<lambda>r. nat (left_of tries r)" for ct tries
proof
  fix r e r' assume "request_inv ct tries r" "request_step tries r e r'"
  then obtain x where "r' = continue_with r x" "callback tries r e = Some (Inr x)"
    by (auto elim: request_stepE)
  with callback_outcome [OF \<open>request_inv ct tries r\<close> this(2)] left_of_nonneg [of ct tries r']
  show "request_inv ct tries r'" "nat (left_of tries r') + price e \<le> nat (left_of tries r)"
    by auto
qed (blast intro: new_request_inv)

section \<open>Properties\<close>

text \<open>A packet built by printing a text and appending further texts holds exactly their concatenation,
  and its buffer, however often it was doubled, has room for it and the terminating NUL.\<close>

theorem packet_holds_its_text:
  "pkt_body (fold pkt_cat texts (pkt_init type text)) = text @ concat texts \<and>
   pkt_ok (fold pkt_cat texts (pkt_init type text)) \<and> pkt_type (fold pkt_cat texts (pkt_init type text)) = type"
proof -
  have "pkt_body (fold pkt_cat texts p) = pkt_body p @ concat texts \<and> pkt_ok (fold pkt_cat texts p) \<and>
      pkt_type (fold pkt_cat texts p) = pkt_type p" if "pkt_ok p" for p
    using that pkt_cat_ok by (induction texts arbitrary: p) (auto simp: pkt_cat_def Let_def)
  from this [OF pkt_init_ok] show ?thesis by (simp add: pkt_init_def)
qed

text \<open>The requests of the examples: one connection attempt that succeeds, one packet.\<close>

definition example_request :: request where
  "example_request =
     (case protocol_sendreq 0 3 2 ''SERVICE noop'' 60 of
        (p, out) \<Rightarrow> \<lparr>rq_phase = Connecting, rq_proto = p, rq_log = out\<rparr>)"

definition example_waiting :: request where
  "example_waiting =
     (case callback 2 example_request (Connected 1 True S_OK) of
        Some (Inr x) \<Rightarrow> continue_with example_request x | _ \<Rightarrow> example_request)"

lemma example_new: "new_request 3 2 example_request"
  unfolding new_request_def example_request_def Let_def
  by (intro exI [of _ 0] exI [of _ "''SERVICE noop''"] exI [of _ 60]) (simp add: protocol_sendreq_def)

lemma example_callback: "\<exists>x. callback 2 example_request (Connected 1 True S_OK) = Some (Inr x)"
  by (simp add: example_request_def protocol_sendreq_def connect_callback_def state_machine_def loop_simps)

lemma example_run: "run_steps (request_step 2) example_request [Connected 1 True S_OK] example_waiting"
proof -
  obtain x where "callback 2 example_request (Connected 1 True S_OK) = Some (Inr x)" using example_callback by blast
  then show ?thesis
    using request_step [of 2 example_request "Connected 1 True S_OK" x]
    by (simp add: run_steps_cons_iff example_waiting_def)
qed

lemma example_waiting_eq:
  "rq_phase example_waiting = Receiving" "rq_log example_waiting = [Connect, Sent (pkt_init P_REQ ''SERVICE noop''), Receive 10]"
  by (simp_all add: example_waiting_def example_request_def protocol_sendreq_def connect_callback_def
      state_machine_def loop_simps continue_with_def ACK_WAIT_def)

text \<open>C16: no assertion of the request protocol fails and no missing packet is looked at, whatever packets the
  network delivers in whatever order, and however connections, sending and timeouts turn out.\<close>

theorem protocol_never_fails:
  assumes "new_request connect_tries tries r0" and "1 \<le> connect_tries" and "1 \<le> tries"
    and "run_steps (request_step tries) r0 es r" and "callback tries r e = Some res"
  shows "\<exists>p out. res = Inr (p, out)"
proof -
  have "request_inv connect_tries tries r"
    using requests.inv_reachable [OF _ assms(4)] assms(1-3) by blast
  from callback_outcome [OF this assms(5)] show ?thesis by (auto simp: good_outcome_def)
qed

theorem protocol_never_fails_witness:
  "\<exists>p out. recvpkt_callback (env_at 2 5 True) (rq_proto example_waiting) (Some (pkt_init P_REQ ''odd'')) S_OK =
     Inr (p, out)"
  using protocol_never_fails [OF example_new _ _ example_run, of "Packet 5 True (pkt_init P_REQ ''odd'')"]
  by (simp add: example_waiting_eq)

text \<open>C17: a request is not repeated for ever: with the configured numbers of tries, at most that many
  connections are attempted, the request is sent at most three times the request tries, and after
  at most three times the tries plus two timeouts it has ended.\<close>

theorem protocol_tries_bounded:
  assumes "new_request connect_tries tries r0" and "1 \<le> connect_tries" and "1 \<le> tries"
    and "run_steps (request_step tries) r0 es r"
  shows "int (count_of (\<lambda>x. x = Connect) (rq_log r)) \<le> connect_tries \<and>
         int (count_of is_req (rq_log r)) \<le> 3 * tries \<and>
         int (sum_list (map price es)) \<le> 3 * tries + 2"
proof -
  have inv: "request_inv connect_tries tries r"
    using requests.inv_reachable [OF _ assms(4)] assms(1-3) by blast
  have "0 \<le> requests_left tries (rq_phase r) (rq_proto r)"
    using inv by (auto simp: request_inv_def requests_left_def Let_def split: phase.splits)
  then have "int (count_of (\<lambda>x. x = Connect) (rq_log r)) \<le> connect_tries" "int (count_of is_req (rq_log r)) \<le> 3 * tries"
    using inv by (auto simp: request_inv_def Let_def)
  moreover have "sum_list (map price es) + nat (left_of tries r) \<le> nat (left_of tries r0)"
    using requests.run_bounded [OF assms(4)] new_request_inv [OF assms(1-3)] by blast
  then have "int (sum_list (map price es)) \<le> 3 * tries + 2"
    using new_request_inv(2) [OF assms(1-3)] assms(3) by linarith
  ultimately show ?thesis by blast
qed

theorem protocol_tries_bounded_witness:
  "int (count_of is_req (rq_log example_waiting)) \<le> 6"
  using protocol_tries_bounded [OF example_new _ _ example_run] by simp



end
