(* ===== verification/Tapelist.thy ===== *)
theory Tapelist
  imports Amanda_Prelude "HOL-Library.Multiset"
begin

text \<open>
  Tape lists (\<open>common-src/tapelist.c\<close>): the tapes a dump is on, with the file numbers on each, and their
  text form \<open>label:1,2,3;label:4\<close>. What is proved: adding a file keeps the numbers of a tape in order
  and loses none; the text form, with its labels escaped, is read back to the same tapes and files;
  and the labels for which the buffer of \<open>escape_label\<close> is too small.
\<close>

record tape =
  t_label :: string
  t_isafile :: int
  t_files :: "int list"
  t_partnum :: "int list"

type_synonym tapelist = "tape list"

definition num_entries :: "tapelist \<Rightarrow> nat" where
  "num_entries tapelist = length tapelist"

section \<open>Adding a file\<close>

text \<open>
  The copying loop of \<open>append_to_tapelist\<close>: the new file goes in front of the first one with a
  larger number, once (\<open>c == d_idx\<close> holds until then), or to the end.
\<close>

fun copy_files :: "int \<Rightarrow> int \<Rightarrow> bool \<Rightarrow> (int \<times> int) list \<Rightarrow> (int \<times> int) list" where
  "copy_files file partnum inserted [] = (if inserted then [] else [(file, partnum)])"
| "copy_files file partnum inserted ((f, p) # fs) =
     (if f > file \<and> \<not> inserted then (file, partnum) # (f, p) # copy_files file partnum True fs
      else (f, p) # copy_files file partnum inserted fs)"

definition add_file :: "int \<Rightarrow> int \<Rightarrow> tape \<Rightarrow> tape" where
  "add_file file partnum t =
     (if file \<ge> 0 then
        let fs = copy_files file partnum False (zip (t_files t) (t_partnum t)) in
        t\<lparr>t_files := map fst fs, t_partnum := map snd fs\<rparr>
      else t)"

definition new_tape :: "string \<Rightarrow> int \<Rightarrow> int \<Rightarrow> int \<Rightarrow> tape" where
  "new_tape label file partnum isafile =
     (if file \<ge> 0 then \<lparr>t_label = label, t_isafile = isafile, t_files = [file], t_partnum = [partnum]\<rparr>
      else \<lparr>t_label = label, t_isafile = 0, t_files = [], t_partnum = []\<rparr>)"

fun append_to_tapelist :: "tapelist \<Rightarrow> string \<Rightarrow> int \<Rightarrow> int \<Rightarrow> int \<Rightarrow> tapelist" where
  "append_to_tapelist [] label file partnum isafile = [new_tape label file partnum isafile]"
| "append_to_tapelist (t # ts) label file partnum isafile =
     (if label = t_label t then add_file file partnum t # ts
      else t # append_to_tapelist ts label file partnum isafile)"

section \<open>Labels\<close>

definition must_escape :: "char \<Rightarrow> bool" where
  "must_escape c \<longleftrightarrow> c = CHR '','' \<or> c = CHR 0x5C \<or> c = CHR '';'' \<or> c = CHR '':''"

fun escape_loop :: "string \<Rightarrow> string" where
  "escape_loop [] = []"
| "escape_loop (c # cs) = (if must_escape c then CHR 0x5C # c # escape_loop cs else c # escape_loop cs)"

text \<open>
  The buffer has twice the length of the label and must hold the terminating NUL as well; the loop
  copies a character before it looks for the end.
\<close>

definition escape_label :: "string option \<Rightarrow> fault + string option" where
  "escape_label label =
     (case label of
        None \<Rightarrow> Inr None
      | Some [] \<Rightarrow> Inl Out_of_bounds
      | Some s \<Rightarrow> if length (escape_loop s) + 1 > 2 * length s then Inl Out_of_bounds
                  else Inr (Some (escape_loop s)))"

fun unescape_loop :: "bool \<Rightarrow> string \<Rightarrow> string" where
  "unescape_loop prev_esc [] = []"
| "unescape_loop prev_esc (c # cs) =
     (if c = CHR 0x5C \<and> \<not> prev_esc then unescape_loop True cs else c # unescape_loop False cs)"

definition unescape_label :: "string option \<Rightarrow> fault + string option" where
  "unescape_label label =
     (case label of
        None \<Rightarrow> Inr None
      | Some [] \<Rightarrow> Inl Out_of_bounds
      | Some s \<Rightarrow> Inr (Some (unescape_loop False s)))"

section \<open>The text form\<close>

definition show_int :: "int \<Rightarrow> string" where
  \<comment> \<open>\<open>%lld\<close>\<close>
  "show_int n = (if n < 0 then CHR ''-'' # show_nat (nat (- n)) else show_nat (nat n))"

definition is_blank :: "char \<Rightarrow> bool" where
  "is_blank c \<longleftrightarrow> c \<in> set [CHR '' '', CHR 0x09, CHR 0x0A, CHR 0x0B, CHR 0x0C, CHR 0x0D]"

definition OFF_T_ATOI :: "string \<Rightarrow> int" where
  \<comment> \<open>\<open>atoll\<close>; the numbers are below \<open>2 ^ 63\<close>\<close>
  "OFF_T_ATOI s =
     (let s = dropWhile is_blank s in
      case s of
        [] \<Rightarrow> 0
      | c # cs \<Rightarrow> if c = CHR ''-'' then - int (read_digits 0 cs)
                  else if c = CHR ''+'' then int (read_digits 0 cs) else int (read_digits 0 s))"

definition marshal_tape :: "bool \<Rightarrow> tape \<Rightarrow> fault + string" where
  "marshal_tape do_escape t =
     map_r (\<lambda>label. the label @ '':'' @ join_with '','' (map show_int (t_files t)))
       (if do_escape then escape_label (Some (t_label t)) else Inr (Some (t_label t)))"

definition marshal_tapelist :: "tapelist \<Rightarrow> bool \<Rightarrow> fault + string" where
  "marshal_tapelist tapelist do_escape =
     map_r (join_with '';'') (collect_r (map (marshal_tape do_escape) tapelist))"

text \<open>The label, up to a colon that is not escaped, and what is left, from the colon on.\<close>

fun label_part :: "string \<Rightarrow> string \<times> string" where
  "label_part [] = ([], [])"
| "label_part (c # cs) =
     (if c = CHR '':'' then ([], c # cs)
      else if c = CHR 0x5C then
        (case cs of
           [] \<Rightarrow> ([], [])
         | d # ds \<Rightarrow> apfst ((#) d) (label_part ds))
      else apfst ((#) c) (label_part cs))"

function files_part :: "string \<Rightarrow> tapelist \<Rightarrow> string \<Rightarrow> tapelist \<times> string" where
  "files_part label tapelist s =
     (if s = [] \<or> hd s = CHR '';'' then (tapelist, s)
      else
        let number = takeWhile (\<lambda>c. c \<noteq> CHR '';'' \<and> c \<noteq> CHR '','') s;
            rest = dropWhile (\<lambda>c. c \<noteq> CHR '';'' \<and> c \<noteq> CHR '','') s;
            tapelist = append_to_tapelist tapelist label (OFF_T_ATOI number) (- 1) 0 in
        files_part label tapelist (if rest \<noteq> [] \<and> hd rest \<noteq> CHR '';'' then drop 1 rest else rest))"
  by pat_completeness auto

termination
proof (relation "measure (\<lambda>(label, tapelist, s). length s)", goal_cases)
  case 1
  show ?case by simp
next
  case (2 label tapelist s number rest ts)
  let ?P = "\<lambda>c. c \<noteq> CHR '';'' \<and> c \<noteq> CHR '',''"
  have len: "length (dropWhile ?P s) \<le> length s" by (rule length_dropWhile_le)
  show ?case
  proof (cases "hd s = CHR '',''")
    case True
    then have "rest = s" using 2 by (cases s) auto
    then show ?thesis using 2 by (cases s) auto
  next
    case False
    then obtain c cs where "s = c # cs" "?P c" using 2(1) by (cases s) auto
    then have "length rest < length s" using 2(3) length_dropWhile_le [of ?P cs] by simp
    then have "length (drop n rest) < length s" for n by simp
    from this [of 1] this [of 0] show ?thesis by simp
  qed
qed

declare files_part.simps [simp del]

lemma label_part_length: "length (snd (label_part s)) \<le> length s"
  by (induction s rule: label_part.induct) (simp_all add: le_SucI split: list.split)

lemma files_part_length: "length (snd (files_part label tapelist s)) \<le> length s"
proof (induction label tapelist s rule: files_part.induct)
  case (1 label tapelist s)
  show ?case
  proof (cases "s = [] \<or> hd s = CHR '';''")
    case True
    then show ?thesis by (simp add: files_part.simps)
  next
    case False
    let ?rest = "dropWhile (\<lambda>c. c \<noteq> CHR '';'' \<and> c \<noteq> CHR '','') s"
    let ?r = "if ?rest \<noteq> [] \<and> hd ?rest \<noteq> CHR '';'' then drop 1 ?rest else ?rest"
    have "length ?r \<le> length ?rest" by simp
    also have "\<dots> \<le> length s" by (rule length_dropWhile_le)
    finally have "length ?r \<le> length s" .
    with 1 [OF False refl refl refl] show ?thesis
      by (subst files_part.simps) (simp only: Let_def if_not_P [OF False] le_trans)
  qed
qed

text \<open>One round of the loop of \<open>unmarshal_tapelist_str\<close>, and the loop.\<close>

definition unmarshal_tape :: "tapelist \<Rightarrow> string \<Rightarrow> tapelist \<times> string" where
  "unmarshal_tape tapelist s =
     (case label_part s of (label, s) \<Rightarrow>
        case files_part label (append_to_tapelist tapelist label (- 1) (- 1) 0) (drop 1 s) of (tapelist, s) \<Rightarrow>
          (tapelist, drop 1 s))"

lemma unmarshal_tape_shorter:
  "unmarshal_tape tapelist s = (ts, rest) \<Longrightarrow> rest \<noteq> [] \<Longrightarrow> length rest < length s"
proof -
  assume u: "unmarshal_tape tapelist s = (ts, rest)" and "rest \<noteq> []"
  obtain l s1 where l: "label_part s = (l, s1)" by fastforce
  obtain ts' s2 where f: "files_part l (append_to_tapelist tapelist l (- 1) (- 1) 0) (drop 1 s1) = (ts', s2)" by fastforce
  have "rest = drop 1 s2" using u l f by (simp add: unmarshal_tape_def)
  then have "length rest < length s2" using \<open>rest \<noteq> []\<close> by (cases s2) auto
  also have "length s2 \<le> length (drop 1 s1)" using files_part_length [of l _ "drop 1 s1"] f by (metis snd_conv)
  also have "\<dots> \<le> length s1" by simp
  also have "length s1 \<le> length s" using label_part_length [of s] l by simp
  finally show "length rest < length s" .
qed

function unmarshal_loop :: "tapelist \<Rightarrow> string \<Rightarrow> tapelist" where
  "unmarshal_loop tapelist s =
     (case unmarshal_tape tapelist s of (tapelist, rest) \<Rightarrow>
        if rest = [] then tapelist else unmarshal_loop tapelist rest)"
  by pat_completeness auto

termination
proof (relation "measure (\<lambda>(tapelist, s). length s)", goal_cases)
  case (2 tapelist s ts rest)
  from unmarshal_tape_shorter [OF 2(1) [symmetric] 2(2)] show ?case by simp
qed simp

declare unmarshal_loop.simps [simp del]

definition unmarshal_tapelist_str :: "string option \<Rightarrow> tapelist" where
  "unmarshal_tapelist_str s = (case s of None \<Rightarrow> [] | Some s \<Rightarrow> unmarshal_loop [] s)"

section \<open>Files in order\<close>

lemma copy_files_mset:
  "mset (copy_files file partnum inserted fs) = mset fs + (if inserted then {#} else {#(file, partnum)#})"
  by (induction fs arbitrary: inserted) auto

lemma copy_files_inserted [simp]: "copy_files file partnum True fs = fs"
  by (induction fs) auto

lemma copy_files_sorted:
  "sorted (map fst fs) \<Longrightarrow> sorted (map fst (copy_files file partnum False fs))"
proof (induction fs)
  case (Cons x fs)
  have "set (copy_files file partnum False fs) = insert (file, partnum) (set fs)"
    using copy_files_mset [of "file" partnum False fs] by (metis set_mset_mset mset_eq_setD set_mset_add_mset_insert
        add_mset_add_single mset.simps(2) list.simps(15))
  then show ?case using Cons by (cases x) (auto simp: image_iff)
qed simp

lemma copy_files_end: "\<forall>x \<in> set fs. fst x \<le> file \<Longrightarrow> copy_files file partnum False fs = fs @ [(file, partnum)]"
  by (induction fs) auto

text \<open>The files of a list of tapes, with their labels and part numbers.\<close>

definition tape_ok :: "tape \<Rightarrow> bool" where
  "tape_ok t \<longleftrightarrow> sorted (t_files t) \<and> length (t_partnum t) = length (t_files t) \<and> (\<forall>f \<in> set (t_files t). 0 \<le> f)"

definition holdings :: "tapelist \<Rightarrow> (string \<times> int \<times> int) multiset" where
  "holdings ts = mset (concat (map (\<lambda>t. map (Pair (t_label t)) (zip (t_files t) (t_partnum t))) ts))"

lemma add_file_ok: "tape_ok t \<Longrightarrow> tape_ok (add_file file partnum t)"
proof -
  assume ok: "tape_ok t"
  let ?fs = "copy_files file partnum False (zip (t_files t) (t_partnum t))"
  have "set ?fs = insert (file, partnum) (set (zip (t_files t) (t_partnum t)))"
    using copy_files_mset [of "file" partnum False "zip (t_files t) (t_partnum t)"]
    by (metis set_mset_mset set_mset_add_mset_insert add_mset_add_single)
  moreover have "fst ` set (zip (t_files t) (t_partnum t)) = set (t_files t)"
    using ok by (simp add: tape_ok_def flip: set_map)
  ultimately show ?thesis
    using ok copy_files_sorted [of "zip (t_files t) (t_partnum t)" "file" partnum]
    by (auto simp: tape_ok_def add_file_def Let_def)
qed

lemma add_file_holdings:
  "tape_ok t \<Longrightarrow>
   mset (zip (t_files (add_file file partnum t)) (t_partnum (add_file file partnum t))) =
   mset (zip (t_files t) (t_partnum t)) + (if 0 \<le> file then {#(file, partnum)#} else {#})"
  by (simp add: add_file_def Let_def zip_map_fst_snd copy_files_mset)

lemma append_labels:
  "map t_label (append_to_tapelist ts label file partnum isafile) =
     map t_label ts @ (if label \<in> set (map t_label ts) then [] else [label])"
  by (induction ts) (auto simp: new_tape_def add_file_def Let_def)

lemma append_ok:
  "\<forall>t \<in> set ts. tape_ok t \<Longrightarrow> \<forall>t \<in> set (append_to_tapelist ts label file partnum isafile). tape_ok t"
  by (induction ts) (auto simp: add_file_ok, simp add: new_tape_def tape_ok_def)

lemma append_holdings:
  "\<forall>t \<in> set ts. tape_ok t \<Longrightarrow>
   holdings (append_to_tapelist ts label file partnum isafile) =
     holdings ts + (if 0 \<le> file then {#(label, file, partnum)#} else {#})"
proof (induction ts)
  case (Cons t ts)
  have "mset (map (Pair (t_label t)) (zip (t_files (add_file file partnum t)) (t_partnum (add_file file partnum t)))) =
      image_mset (Pair (t_label t)) (mset (zip (t_files t) (t_partnum t)) + (if 0 \<le> file then {#(file, partnum)#} else {#}))"
    using add_file_holdings [of t "file" partnum] Cons.prems by (simp add: mset_map)
  moreover have "t_label (add_file file partnum t) = t_label t" by (simp add: add_file_def Let_def)
  ultimately show ?case using Cons by (simp add: holdings_def)
qed (simp add: holdings_def new_tape_def)

section \<open>Labels come back\<close>

lemma unescape_escape: "unescape_loop False (escape_loop s) = s"
  by (induction s) (auto simp: must_escape_def)

interpretation labels: text_codec escape_loop "\<lambda>s. Inr (unescape_loop False s) :: fault + string" "\<lambda>s. True"
  by unfold_locales (simp add: unescape_escape)

lemma escape_loop_length: "length (escape_loop s) = length s + length (filter must_escape s)"
  by (induction s) auto

lemma escape_fits_iff:
  "length (escape_loop s) + 1 > 2 * length s \<longleftrightarrow> list_all must_escape s"
proof
  assume "length (escape_loop s) + 1 > 2 * length s"
  then have "length (filter must_escape s) \<ge> length s" by (simp add: escape_loop_length)
  then show "list_all must_escape s" by (metis filter_id_conv length_filter_le le_antisym length_filter_less list_all_iff not_le)
next
  assume "list_all must_escape s"
  then have "filter must_escape s = s" by (simp add: list_all_iff)
  then show "length (escape_loop s) + 1 > 2 * length s" by (simp add: escape_loop_length)
qed

section \<open>The text comes back\<close>

lemma label_part_escape: "label_part (escape_loop s @ CHR '':'' # rest) = (s, CHR '':'' # rest)"
  by (induction s) (auto simp: must_escape_def)

lemma show_int_char:
  assumes "0 \<le> n"
  shows "\<forall>c \<in> set (show_int n). is_digit c" "show_int n \<noteq> []"
  using assms show_nat_digits [of "nat n"] by (simp_all add: show_int_def)

lemma not_digit: "\<not> is_digit (CHR '';'')" "\<not> is_digit (CHR '','')" "\<not> is_digit (CHR ''-'')" "\<not> is_digit (CHR ''+'')"
  "is_digit c \<Longrightarrow> \<not> is_blank c"
  by (auto simp: is_digit_def is_blank_def)

lemma OFF_T_ATOI_show: "0 \<le> n \<Longrightarrow> OFF_T_ATOI (show_int n) = n"
proof -
  assume n: "0 \<le> n"
  obtain c cs where s: "show_int n = c # cs" "is_digit c" using show_int_char [OF n] by (cases "show_int n") auto
  then have "c \<noteq> CHR ''-''" "c \<noteq> CHR ''+''" "\<not> is_blank c" using not_digit by auto
  moreover have "read_digits 0 (c # cs) = nat n" using s(1) n by (simp add: show_int_def flip: s(1))
  ultimately show ?thesis using s n by (simp add: OFF_T_ATOI_def del: read_digits.simps)
qed

definition ends_files :: "string \<Rightarrow> bool" where
  "ends_files s \<longleftrightarrow> s = [] \<or> hd s = CHR '';''"

lemma files_part_number:
  assumes "0 \<le> f" and "rest = [] \<or> hd rest = CHR '';'' \<or> hd rest = CHR '',''"
  shows "files_part label ts (show_int f @ rest) =
     files_part label (append_to_tapelist ts label f (- 1) 0) (if rest \<noteq> [] \<and> hd rest \<noteq> CHR '';'' then drop 1 rest else rest)"
proof -
  let ?P = "\<lambda>c. c \<noteq> CHR '';'' \<and> c \<noteq> CHR '',''"
  have d: "\<forall>c \<in> set (show_int f). ?P c" using show_int_char(1) [OF assms(1)] not_digit(1,2) by blast
  then have "takeWhile ?P (show_int f @ rest) = show_int f @ takeWhile ?P rest"
    "dropWhile ?P (show_int f @ rest) = dropWhile ?P rest" by (simp_all add: takeWhile_append2 dropWhile_append2)
  moreover have "takeWhile ?P rest = []" "dropWhile ?P rest = rest" using assms(2) by (cases rest; auto)+
  moreover have "\<not> (show_int f @ rest = [] \<or> hd (show_int f @ rest) = CHR '';'')"
    using d show_int_char(2) [OF assms(1)] by (cases "show_int f") auto
  ultimately show ?thesis
    by (subst files_part.simps) (simp only: Let_def OFF_T_ATOI_show [OF assms(1)] append_Nil append_Nil2 if_False)
qed

lemma files_part_join:
  "\<forall>f \<in> set fs. 0 \<le> f \<Longrightarrow> ends_files rest \<Longrightarrow>
   files_part label ts (join_with '','' (map show_int fs) @ rest) =
     (fold (\<lambda>f ts. append_to_tapelist ts label f (- 1) 0) fs ts, rest)"
proof (induction fs arbitrary: ts)
  case Nil
  then show ?case by (subst files_part.simps) (auto simp: ends_files_def)
next
  case (Cons f fs)
  show ?case
  proof (cases "fs = []")
    case True
    have stop: "files_part label us rest = (us, rest)" for us
      using Cons.prems(2) by (subst files_part.simps) (simp add: ends_files_def)
    have "(if rest \<noteq> [] \<and> hd rest \<noteq> CHR '';'' then drop 1 rest else rest) = rest"
      using Cons.prems(2) by (auto simp: ends_files_def)
    moreover have "0 \<le> f" "rest = [] \<or> hd rest = CHR '';'' \<or> hd rest = CHR '',''"
      using Cons.prems by (auto simp: ends_files_def)
    ultimately show ?thesis using files_part_number [of f rest label ts] True stop by simp
  next
    case False
    then have "join_with '','' (map show_int (f # fs)) @ rest =
        show_int f @ CHR '','' # join_with '','' (map show_int fs) @ rest"
      by (simp add: join_with_Cons)
    then show ?thesis
      using files_part_number [of f "CHR '','' # join_with '','' (map show_int fs) @ rest" label ts] Cons by simp
  qed
qed

text \<open>What the text does not hold: part numbers and the file flag.\<close>

definition forget :: "tape \<Rightarrow> tape" where
  "forget t = \<lparr>t_label = t_label t, t_isafile = 0, t_files = t_files t,
               t_partnum = replicate (length (t_files t)) (- 1)\<rparr>"

lemma append_last:
  "label \<notin> set (map t_label ts) \<Longrightarrow> t_label t = label \<Longrightarrow>
   append_to_tapelist (ts @ [t]) label file partnum isafile = ts @ [add_file file partnum t]"
  by (induction ts) auto

lemma append_new:
  "label \<notin> set (map t_label ts) \<Longrightarrow>
   append_to_tapelist ts label file partnum isafile = ts @ [new_tape label file partnum isafile]"
  by (induction ts) auto

lemma fold_append_files:
  assumes "label \<notin> set (map t_label ts)" and "sorted (gs @ fs)" and "\<forall>f \<in> set fs. 0 \<le> f"
  shows "fold (\<lambda>f ts. append_to_tapelist ts label f (- 1) 0) fs
           (ts @ [\<lparr>t_label = label, t_isafile = 0, t_files = gs, t_partnum = replicate (length gs) (- 1)\<rparr>]) =
         ts @ [\<lparr>t_label = label, t_isafile = 0, t_files = gs @ fs, t_partnum = replicate (length (gs @ fs)) (- 1)\<rparr>]"
  using assms(2,3)
proof (induction fs arbitrary: gs)
  case (Cons f fs)
  have "\<forall>x \<in> set (zip gs (replicate (length gs) (- 1 :: int))). fst x \<le> f"
    using Cons.prems(1) by (auto simp: sorted_append dest: set_zip_leftD)
  note copy_files_end [OF this, of "- 1"]
  then have "add_file f (- 1) \<lparr>t_label = label, t_isafile = 0, t_files = gs, t_partnum = replicate (length gs) (- 1)\<rparr> =
      \<lparr>t_label = label, t_isafile = 0, t_files = gs @ [f], t_partnum = replicate (length (gs @ [f])) (- 1)\<rparr>"
    using Cons.prems(2) by (simp add: add_file_def Let_def replicate_append_same)
  then show ?case
    using Cons.IH [of "gs @ [f]"] Cons.prems append_last [OF assms(1)] by simp
qed simp

lemma unmarshal_tape_marshal:
  assumes "label \<notin> set (map t_label ts)" and "sorted fs" and "\<forall>f \<in> set fs. 0 \<le> f" and "ends_files rest"
  shows "unmarshal_tape ts (escape_loop label @ '':'' @ join_with '','' (map show_int fs) @ rest) =
    (ts @ [\<lparr>t_label = label, t_isafile = 0, t_files = fs, t_partnum = replicate (length fs) (- 1)\<rparr>], drop 1 rest)"
  using fold_append_files [OF assms(1), of "[]" fs] assms(2,3)
  by (simp add: unmarshal_tape_def label_part_escape files_part_join [OF assms(3,4)] append_new [OF assms(1)]
      new_tape_def)

text \<open>The text of one tape; a tape that can be written.\<close>

definition tape_text :: "tape \<Rightarrow> string" where
  "tape_text t = escape_loop (t_label t) @ '':'' @ join_with '','' (map show_int (t_files t))"

definition writable :: "tape \<Rightarrow> bool" where
  "writable t \<longleftrightarrow> sorted (t_files t) \<and> (\<forall>f \<in> set (t_files t). 0 \<le> f) \<and> \<not> list_all must_escape (t_label t)"

lemma escape_label_fits:
  "\<not> list_all must_escape s \<Longrightarrow> escape_label (Some s) = Inr (Some (escape_loop s))"
  using escape_fits_iff [of s] by (cases s) (auto simp: escape_label_def)

lemma marshal_text:
  "\<forall>t \<in> set ts. writable t \<Longrightarrow> marshal_tapelist ts True = Inr (join_with '';'' (map tape_text ts))"
proof -
  assume w: "\<forall>t \<in> set ts. writable t"
  have "collect_r (map (marshal_tape True) ts) = Inr (map tape_text ts)"
    by (rule collect_r_map) (use w in \<open>simp add: writable_def marshal_tape_def escape_label_fits tape_text_def\<close>)
  then show ?thesis by (simp add: marshal_tapelist_def)
qed

lemma forget_eq:
  "forget t = \<lparr>t_label = t_label t, t_isafile = 0, t_files = t_files t,
               t_partnum = replicate (length (t_files t)) (- 1)\<rparr>"
  by (simp add: forget_def)

lemma unmarshal_one:
  assumes "writable t" and "t_label t \<notin> set (map t_label us)" and "ends_files rest"
  shows "unmarshal_tape us (tape_text t @ rest) = (us @ [forget t], drop 1 rest)"
  using unmarshal_tape_marshal [of "t_label t" us "t_files t" rest] assms
  by (simp add: writable_def tape_text_def forget_eq)

lemma unmarshal_loop_text:
  assumes "ts \<noteq> []" and "\<forall>t \<in> set ts. writable t" and "distinct (map t_label (us @ ts))"
  shows "unmarshal_loop us (join_with '';'' (map tape_text ts)) = us @ map forget ts"
  using assms
proof (induction ts arbitrary: us)
  case (Cons t ts)
  have new: "t_label t \<notin> set (map t_label us)" using Cons.prems(3) by auto
  show ?case
  proof (cases "ts = []")
    case True
    then show ?thesis
      using unmarshal_one [of t us "[]"] Cons.prems(2) new
      by (subst unmarshal_loop.simps) (simp add: ends_files_def)
  next
    case False
    let ?rest = "join_with '';'' (map tape_text ts)"
    have line: "join_with '';'' (map tape_text (t # ts)) = tape_text t @ CHR '';'' # ?rest"
      using False by (simp add: join_with_Cons)
    have "?rest \<noteq> []" using False by (cases ts; cases "tl ts") (auto simp: tape_text_def join_with_Cons)
    then have "unmarshal_loop us (join_with '';'' (map tape_text (t # ts))) = unmarshal_loop (us @ [forget t]) ?rest"
      using unmarshal_one [of t us "CHR '';'' # ?rest"] Cons.prems(2) new unfolding line
      by (subst unmarshal_loop.simps) (simp add: ends_files_def)
    also have "\<dots> = (us @ [forget t]) @ map forget ts"
      using Cons.prems False by (intro Cons.IH) (auto simp: forget_eq)
    finally show ?thesis by simp
  qed
qed simp

section \<open>Properties\<close>

text \<open>A list of tapes written with escaped labels is read back to the same tapes with the same files in
  the same order, whatever separators the labels hold; the part numbers and the file flag are not
  in the text. The labels must be distinct and keep one character that needs no escape.\<close>

theorem tapelist_text_roundtrip:
  assumes "ts \<noteq> []" and "\<forall>t \<in> set ts. writable t" and "distinct (map t_label ts)"
  shows "\<exists>s. marshal_tapelist ts True = Inr s \<and> unmarshal_tapelist_str (Some s) = map forget ts"
  using marshal_text [OF assms(2)] unmarshal_loop_text [OF assms(1,2), of "[]"] assms(3)
  by (simp add: unmarshal_tapelist_str_def)

theorem tapelist_text_roundtrip_witness:
  "\<exists>s. marshal_tapelist
         [\<lparr>t_label = ''a:b;1'', t_isafile = 0, t_files = [1, 2, 30], t_partnum = [1, 1, 1]\<rparr>,
          \<lparr>t_label = ''c'', t_isafile = 0, t_files = [], t_partnum = []\<rparr>] True = Inr s \<and>
       unmarshal_tapelist_str (Some s) =
         [\<lparr>t_label = ''a:b;1'', t_isafile = 0, t_files = [1, 2, 30], t_partnum = [- 1, - 1, - 1]\<rparr>,
          \<lparr>t_label = ''c'', t_isafile = 0, t_files = [], t_partnum = []\<rparr>]"
  using tapelist_text_roundtrip
    [of "[\<lparr>t_label = ''a:b;1'', t_isafile = 0, t_files = [1, 2, 30], t_partnum = [1, 1, 1]\<rparr>,
          \<lparr>t_label = ''c'', t_isafile = 0, t_files = [], t_partnum = []\<rparr>]"]
  by (simp add: writable_def must_escape_def forget_def)

text \<open>Adding a file to a list of tapes keeps the file numbers of every tape in order, keeps the labels
  distinct, loses nothing that was on the list, and adds exactly the new file with its part number;
  a negative file number only makes sure that the tape is on the list.\<close>

theorem append_keeps_tapes:
  assumes "\<forall>t \<in> set ts. tape_ok t" and "distinct (map t_label ts)"
  shows "(\<forall>t \<in> set (append_to_tapelist ts label file partnum isafile). tape_ok t) \<and>
         distinct (map t_label (append_to_tapelist ts label file partnum isafile)) \<and>
         label \<in> set (map t_label (append_to_tapelist ts label file partnum isafile)) \<and>
         holdings (append_to_tapelist ts label file partnum isafile) =
           holdings ts + (if 0 \<le> file then {#(label, file, partnum)#} else {#})"
  using append_ok [OF assms(1)] append_holdings [OF assms(1)] assms(2) by (simp add: append_labels)

theorem append_keeps_tapes_witness:
  "holdings (append_to_tapelist [\<lparr>t_label = ''A'', t_isafile = 0, t_files = [3, 7], t_partnum = [1, 2]\<rparr>] ''A'' 5 4 0) =
   {#(''A'', 3, 1), (''A'', 7, 2), (''A'', 5, 4)#}"
  using append_keeps_tapes [of "[\<lparr>t_label = ''A'', t_isafile = 0, t_files = [3, 7], t_partnum = [1, 2]\<rparr>]" "''A''" 5 4 0]
  by (simp add: tape_ok_def holdings_def add_file_def add_mset_commute)

text \<open>\<open>escape_label\<close> writes past its buffer, or reads past the label, exactly when every character of
  the label needs an escape, the empty label included: twice the length leaves no room for the
  terminating NUL. Every other label is escaped so that \<open>unescape_label\<close> gives it back.\<close>

theorem escape_label_overflows:
  "(escape_label (Some s) = Inl Out_of_bounds \<longleftrightarrow> list_all must_escape s) \<and>
   (\<not> list_all must_escape s \<longrightarrow>
      bind_r (escape_label (Some s)) unescape_label = Inr (Some s))"
proof (cases "list_all must_escape s")
  case True
  then show ?thesis using escape_fits_iff [of s] by (cases s) (auto simp: escape_label_def)
next
  case False
  then have "s \<noteq> []" by (cases s) auto
  then have "escape_loop s \<noteq> []" by (cases s) auto
  then show ?thesis
    using False escape_label_fits [OF False] labels.dec_enc [of s]
    by (cases "escape_loop s") (simp_all add: unescape_label_def)
qed

theorem escape_label_overflows_witness:
  "escape_label (Some '',;'') = Inl Out_of_bounds \<and>
   bind_r (escape_label (Some ''a,b'')) unescape_label = Inr (Some ''a,b'')"
  using escape_label_overflows [of "'',;''"] escape_label_overflows [of "''a,b''"]
  by (simp add: must_escape_def)

end
