(* ===== verification/Features.thy ===== *)
theory Features
  imports Amanda_Prelude
begin

unbundle bit_operations_syntax

text \<open>
  Feature sets (\<open>common-src/amfeatures.c\<close>): a bit per feature, with the text form two hosts exchange to
  agree on what both support. The operations implement a finite set of numbers, stated as a locale
  of set laws; what is proved: the laws, the round trip of the text, and that the text of a set
  with more or fewer features than this version knows is read as the features both know.
\<close>

section \<open>The interface\<close>

text \<open>A set of the numbers below a bound, kept in a state with an invariant.\<close>

locale bounded_set =
  fixes ok :: "'f \<Rightarrow> bool"
    and empty :: 'f
    and add :: "'f \<Rightarrow> int \<Rightarrow> 'f"
    and remove :: "'f \<Rightarrow> int \<Rightarrow> 'f"
    and has :: "'f \<Rightarrow> int \<Rightarrow> bool"
    and bound :: "'f \<Rightarrow> int"
  assumes ok_empty [simp]: "ok empty" and has_empty: "\<not> has empty n"
    and ok_add [simp]: "ok f \<Longrightarrow> ok (add f n)" and bound_add [simp]: "ok f \<Longrightarrow> bound (add f n) = bound f"
    and has_add: "ok f \<Longrightarrow> has (add f n) m \<longleftrightarrow> has f m \<or> (m = n \<and> 0 \<le> n \<and> n < bound f)"
    and ok_remove [simp]: "ok f \<Longrightarrow> ok (remove f n)"
    and has_remove: "ok f \<Longrightarrow> has (remove f n) m \<longleftrightarrow> has f m \<and> m \<noteq> n"
begin

lemma ok_fold_add: "ok f \<Longrightarrow> ok (fold (\<lambda>n f. add f (g n)) ns f)"
  by (induction ns arbitrary: f) simp_all

lemma has_fold_add:
  "ok f \<Longrightarrow> has (fold (\<lambda>n f. add f (g n)) ns f) m \<longleftrightarrow> has f m \<or> (m \<in> g ` set ns \<and> 0 \<le> m \<and> m < bound f)"
  by (induction ns arbitrary: f) (auto simp: has_add)

lemma has_added:
  "has (fold (\<lambda>n f. add f (g n)) ns empty) m \<longleftrightarrow> m \<in> g ` set ns \<and> 0 \<le> m \<and> m < bound empty"
  by (simp add: has_fold_add has_empty)

end

section \<open>The features\<close>

text \<open>The enumeration \<open>am_feature_e\<close>; a feature is its place in it.\<close>

definition am_feature_e :: "string list" where
  "am_feature_e =
     [''have_feature_support'', ''fe_options_auth'', ''fe_selfcheck_req'',
      ''fe_selfcheck_req_device'', ''fe_selfcheck_rep'', ''fe_sendsize_req_no_options'',
      ''fe_sendsize_req_options'', ''fe_sendsize_req_device'', ''fe_sendsize_rep'',
      ''fe_sendbackup_req'', ''fe_sendbackup_req_device'', ''fe_sendbackup_rep'', ''fe_noop_req'',
      ''fe_noop_rep'', ''fe_program_dump'', ''fe_program_gnutar'', ''fe_program_application_api'',
      ''fe_options_compress_fast'', ''fe_options_compress_best'', ''fe_options_srvcomp_fast'',
      ''fe_options_srvcomp_best'', ''fe_options_no_record'', ''fe_options_index'',
      ''fe_options_exclude_file'', ''fe_options_exclude_list'', ''fe_options_multiple_exclude'',
      ''fe_options_optional_exclude'', ''fe_options_include_file'', ''fe_options_include_list'',
      ''fe_options_multiple_include'', ''fe_options_optional_include'', ''fe_options_bsd_auth'',
      ''fe_options_krb4_auth'', ''fe_options_kencrypt'', ''fe_req_options_maxdumps'',
      ''fe_req_options_hostname'', ''fe_req_options_features'', ''fe_rep_options_maxdumps'',
      ''fe_rep_options_hostname'', ''fe_rep_options_features'',
      ''fe_rep_options_sendbackup_options'', ''fe_amindexd_fileno_in_OLSD'',
      ''fe_amindexd_fileno_in_ORLD'', ''fe_amidxtaped_fsf'', ''fe_amidxtaped_label'',
      ''fe_amidxtaped_device'', ''fe_amidxtaped_host'', ''fe_amidxtaped_disk'',
      ''fe_amidxtaped_datestamp'', ''fe_amidxtaped_header'', ''fe_amidxtaped_nargs'',
      ''fe_amidxtaped_config'', ''fe_partial_estimate'', ''fe_calcsize_estimate'',
      ''fe_selfcheck_calcsize'', ''fe_recover_splits'', ''fe_amidxtaped_exchange_features'',
      ''fe_options_compress_cust'', ''fe_options_srvcomp_cust'', ''fe_options_encrypt_cust'',
      ''fe_options_encrypt_serv_cust'', ''fe_options_client_decrypt_option'',
      ''fe_options_server_decrypt_option'', ''fe_amindexd_marshall_in_OLSD'',
      ''fe_amindexd_marshall_in_ORLD'', ''fe_amindexd_marshall_in_DHST'', ''fe_amrecover_FEEDME'',
      ''fe_amrecover_timestamp'', ''fe_interface_quoted_text'', ''fe_program_star'',
      ''fe_amindexd_options_hostname'', ''fe_amindexd_options_features'',
      ''fe_amindexd_options_auth'', ''fe_amidxtaped_options_hostname'',
      ''fe_amidxtaped_options_features'', ''fe_amidxtaped_options_auth'', ''fe_amrecover_message'',
      ''fe_amrecover_feedme_tape'', ''fe_req_options_config'', ''fe_rep_sendsize_quoted_error'',
      ''fe_req_xml'', ''fe_pp_script'', ''fe_amindexd_DLE'', ''fe_amrecover_dle_in_header'',
      ''fe_xml_estimate'', ''fe_xml_property_priority'', ''fe_sendsize_rep_warning'',
      ''fe_xml_estimatelist'', ''fe_xml_level_server'', ''fe_xml_data_path'',
      ''fe_xml_directtcp_list'', ''fe_amidxtaped_datapath'', ''fe_sendbackup_noop'',
      ''fe_amrecover_origsize_in_header'', ''fe_amidxtaped_abort'',
      ''fe_amrecover_correct_disk_quoting'', ''fe_amindexd_quote_label'',
      ''fe_amrecover_receive_unfiltered'', ''fe_application_client_name'',
      ''fe_script_client_name'', ''fe_dumptype_property'']"

definition last_feature :: nat where "last_feature = 101"

definition feature :: "string \<Rightarrow> int" where
  "feature name = int (length (takeWhile (\<lambda>x. x \<noteq> name) am_feature_e))"

record am_feature =
  f_size :: nat
  f_bytes :: "byte list"

definition am_allocate_feature_set :: am_feature where
  "am_allocate_feature_set =
     (let nbytes = drop_bit 3 (last_feature + 8) in \<lparr>f_size = nbytes, f_bytes = replicate nbytes 0\<rparr>)"

text \<open>The byte and the bit of a feature. The feature set is never \<open>NULL\<close> where a set is changed.\<close>

definition am_add_feature :: "am_feature \<Rightarrow> int \<Rightarrow> am_feature \<times> bool" where
  "am_add_feature f n =
     (if n < 0 then (f, False)
      else
        let b = drop_bit 3 (nat n) in
        if b < f_size f then
          (f\<lparr>f_bytes := (f_bytes f)[b := f_bytes f ! b OR push_bit (nat n mod 8) 1]\<rparr>, True)
        else (f, False))"

definition am_remove_feature :: "am_feature \<Rightarrow> int \<Rightarrow> am_feature \<times> bool" where
  "am_remove_feature f n =
     (if n < 0 then (f, False)
      else
        let b = drop_bit 3 (nat n) in
        if b < f_size f then
          (f\<lparr>f_bytes := (f_bytes f)[b := f_bytes f ! b AND NOT (push_bit (nat n mod 8) 1)]\<rparr>, True)
        else (f, False))"

definition am_has_feature :: "am_feature option \<Rightarrow> int \<Rightarrow> bool" where
  "am_has_feature f n =
     (case f of
        None \<Rightarrow> False
      | Some f \<Rightarrow>
          if n < 0 then False
          else
            let b = drop_bit 3 (nat n) in
            b < f_size f \<and> f_bytes f ! b AND push_bit (nat n mod 8) 1 \<noteq> 0)"

definition am_init_feature_set :: am_feature where
  "am_init_feature_set = fold (\<lambda>name f. fst (am_add_feature f (feature name)))
     [''have_feature_support'', ''fe_options_auth'', ''fe_selfcheck_req'',
      ''fe_selfcheck_req_device'', ''fe_selfcheck_rep'', ''fe_sendsize_req_no_options'',
      ''fe_sendsize_req_options'', ''fe_sendsize_req_device'', ''fe_sendsize_rep'',
      ''fe_sendbackup_req'', ''fe_sendbackup_req_device'', ''fe_sendbackup_rep'', ''fe_noop_req'',
      ''fe_noop_rep'', ''fe_program_dump'', ''fe_program_gnutar'', ''fe_program_application_api'',
      ''fe_options_compress_fast'', ''fe_options_compress_best'', ''fe_options_srvcomp_fast'',
      ''fe_options_srvcomp_best'', ''fe_options_no_record'', ''fe_options_bsd_auth'',
      ''fe_options_index'', ''fe_options_exclude_file'', ''fe_options_exclude_list'',
      ''fe_options_multiple_exclude'', ''fe_options_optional_exclude'', ''fe_options_include_file'',
      ''fe_options_include_list'', ''fe_options_multiple_include'', ''fe_options_optional_include'',
      ''fe_options_kencrypt'', ''fe_req_options_maxdumps'', ''fe_req_options_hostname'',
      ''fe_req_options_features'', ''fe_rep_options_features'', ''fe_amindexd_fileno_in_OLSD'',
      ''fe_amindexd_fileno_in_ORLD'', ''fe_amidxtaped_fsf'', ''fe_amidxtaped_label'',
      ''fe_amidxtaped_device'', ''fe_amidxtaped_host'', ''fe_amidxtaped_disk'',
      ''fe_amidxtaped_datestamp'', ''fe_amidxtaped_header'', ''fe_amidxtaped_config'',
      ''fe_recover_splits'', ''fe_amidxtaped_exchange_features'', ''fe_partial_estimate'',
      ''fe_calcsize_estimate'', ''fe_selfcheck_calcsize'', ''fe_options_compress_cust'',
      ''fe_options_srvcomp_cust'', ''fe_options_encrypt_cust'', ''fe_options_encrypt_serv_cust'',
      ''fe_options_client_decrypt_option'', ''fe_options_server_decrypt_option'',
      ''fe_amindexd_marshall_in_OLSD'', ''fe_amindexd_marshall_in_ORLD'',
      ''fe_amindexd_marshall_in_DHST'', ''fe_amrecover_FEEDME'', ''fe_amrecover_timestamp'',
      ''fe_interface_quoted_text'', ''fe_program_star'', ''fe_amindexd_options_hostname'',
      ''fe_amindexd_options_features'', ''fe_amindexd_options_auth'',
      ''fe_amidxtaped_options_hostname'', ''fe_amidxtaped_options_features'',
      ''fe_amidxtaped_options_auth'', ''fe_amrecover_message'', ''fe_amrecover_feedme_tape'',
      ''fe_req_options_config'', ''fe_rep_sendsize_quoted_error'', ''fe_req_xml'', ''fe_pp_script'',
      ''fe_amindexd_DLE'', ''fe_amrecover_dle_in_header'', ''fe_xml_estimate'',
      ''fe_xml_property_priority'', ''fe_sendsize_rep_warning'', ''fe_xml_estimatelist'',
      ''fe_xml_level_server'', ''fe_xml_data_path'', ''fe_xml_directtcp_list'',
      ''fe_amidxtaped_datapath'', ''fe_sendbackup_noop'', ''fe_amrecover_origsize_in_header'',
      ''fe_amidxtaped_abort'', ''fe_amrecover_correct_disk_quoting'', ''fe_amindexd_quote_label'',
      ''fe_amrecover_receive_unfiltered'', ''fe_application_client_name'',
      ''fe_script_client_name'', ''fe_dumptype_property'']
     am_allocate_feature_set"

definition am_set_default_feature_set :: am_feature where
  "am_set_default_feature_set = fold (\<lambda>name f. fst (am_add_feature f (feature name)))
     [''fe_selfcheck_req'', ''fe_selfcheck_rep'', ''fe_sendsize_req_no_options'',
      ''fe_sendsize_rep'', ''fe_sendbackup_req'', ''fe_sendbackup_rep'', ''fe_program_dump'',
      ''fe_program_gnutar'', ''fe_options_compress_fast'', ''fe_options_compress_best'',
      ''fe_options_srvcomp_fast'', ''fe_options_srvcomp_best'', ''fe_options_no_record'',
      ''fe_options_bsd_auth'', ''fe_options_index'', ''fe_options_exclude_file'',
      ''fe_options_exclude_list'', ''fe_options_kencrypt'', ''fe_req_options_maxdumps'',
      ''fe_req_options_hostname'', ''fe_req_options_features'',
      ''fe_rep_options_sendbackup_options'']
     am_allocate_feature_set"

section \<open>The text form\<close>

definition hex_digit :: "nat \<Rightarrow> char" where
  "hex_digit n = (if n < 10 then char_of (48 + n) else char_of (87 + n))"

definition am_feature_to_string :: "am_feature option \<Rightarrow> string" where
  "am_feature_to_string f =
     (case f of
        None \<Rightarrow> ''UNKNOWNFEATURE''
      | Some f \<Rightarrow> concat (map (\<lambda>b. [hex_digit (unat b div 16), hex_digit (unat b mod 16)]) (take (f_size f) (f_bytes f))))"

definition hex_value :: "char \<Rightarrow> nat option" where
  "hex_value c =
     (let n = of_char c in
      if 48 \<le> n \<and> n \<le> 57 then Some (n - 48)
      else if 97 \<le> n \<and> n \<le> 102 then Some (n - 97 + 10)
      else if 65 \<le> n \<and> n \<le> 70 then Some (n - 65 + 10)
      else None)"

text \<open>The loop of \<open>am_string_to_feature\<close> at byte \<open>i\<close>. \<^term>\<open>None\<close>: a character that is no hex digit.\<close>

function read_bytes :: "nat \<Rightarrow> string \<Rightarrow> am_feature \<Rightarrow> am_feature option" where
  "read_bytes i s f =
     (if \<not> i < f_size f then Some f
      else case s of
          [] \<Rightarrow> Some f
        | c1 # s1 \<Rightarrow>
            (case hex_value c1 of
               None \<Rightarrow> None
             | Some v1 \<Rightarrow>
                 (case s1 of
                    [] \<Rightarrow> Some f
                  | c2 # s2 \<Rightarrow>
                      (case hex_value c2 of
                         None \<Rightarrow> None
                       | Some v2 \<Rightarrow>
                           read_bytes (i + 1) s2 (f\<lparr>f_bytes := (f_bytes f)[i := of_nat (v1 * 16 + v2)]\<rparr>)))))"
  by pat_completeness auto

termination by (relation "measure (\<lambda>(i, s, f). length s)") auto

declare read_bytes.simps [simp del]

definition am_string_to_feature :: "string option \<Rightarrow> am_feature option" where
  "am_string_to_feature s =
     (case s of
        None \<Rightarrow> None
      | Some s \<Rightarrow> if s = ''UNKNOWNFEATURE'' then None else read_bytes 0 s am_allocate_feature_set)"

section \<open>A set of numbers\<close>

definition features_ok :: "am_feature \<Rightarrow> bool" where
  "features_ok f \<longleftrightarrow> length (f_bytes f) = f_size f"

lemma and_push_bit: "w AND 2 ^ k = 0 \<longleftrightarrow> \<not> bit w k" for w :: byte
  by (simp add: and_exp_eq_0_iff_not_bit)

lemma drop_bit_3: "drop_bit 3 n = n div 8" for n :: nat
  by (simp add: drop_bit_eq_div)

lemma has_feature_iff:
  "am_has_feature (Some f) n \<longleftrightarrow>
     0 \<le> n \<and> nat n div 8 < f_size f \<and> bit (f_bytes f ! (nat n div 8)) (nat n mod 8)"
  by (auto simp: am_has_feature_def Let_def drop_bit_3 push_bit_of_1 and_push_bit)

lemma same_place: "nat m div 8 = nat n div 8 \<Longrightarrow> nat m mod 8 = nat n mod 8 \<Longrightarrow> 0 \<le> m \<Longrightarrow> 0 \<le> n \<Longrightarrow> m = n"
  by (metis div_mult_mod_eq nat_eq_iff2)

lemma bit_single: "bit (2 ^ k :: byte) j \<longleftrightarrow> j = k \<and> j < 8"
  by (auto simp: bit_exp_iff)

lemma add_feature_has:
  assumes "features_ok f"
  shows "am_has_feature (Some (fst (am_add_feature f n))) m \<longleftrightarrow>
     am_has_feature (Some f) m \<or> (m = n \<and> 0 \<le> n \<and> n < int (8 * f_size f))"
proof (cases "0 \<le> n \<and> nat n div 8 < f_size f")
  case True
  then have "n < int (8 * f_size f)" by (auto simp: div_less_iff_less_mult)
  moreover have f: "fst (am_add_feature f n) =
      f\<lparr>f_bytes := (f_bytes f)[nat n div 8 := f_bytes f ! (nat n div 8) OR push_bit (nat n mod 8) 1]\<rparr>"
    using True by (simp add: am_add_feature_def Let_def drop_bit_3)
  ultimately show ?thesis
    using True assms same_place [of m n]
    by (cases "nat m div 8 = nat n div 8")
      (auto simp: f has_feature_iff features_ok_def bit_or_iff bit_single)
next
  case False
  then have "\<not> (0 \<le> n \<and> n < int (8 * f_size f))" by (auto simp: div_less_iff_less_mult nat_less_iff)
  moreover have "fst (am_add_feature f n) = f" using False by (auto simp: am_add_feature_def Let_def drop_bit_3)
  ultimately show ?thesis by auto
qed

lemma remove_feature_has:
  assumes "features_ok f"
  shows "am_has_feature (Some (fst (am_remove_feature f n))) m \<longleftrightarrow> am_has_feature (Some f) m \<and> m \<noteq> n"
proof (cases "0 \<le> n \<and> nat n div 8 < f_size f")
  case True
  then have f: "fst (am_remove_feature f n) =
      f\<lparr>f_bytes := (f_bytes f)[nat n div 8 := f_bytes f ! (nat n div 8) AND NOT (push_bit (nat n mod 8) 1)]\<rparr>"
    by (simp add: am_remove_feature_def Let_def drop_bit_3)
  show ?thesis
    using True assms same_place [of m n]
    by (cases "nat m div 8 = nat n div 8")
      (auto simp: f has_feature_iff features_ok_def bit_and_iff bit_not_iff bit_single)
next
  case False
  then have "fst (am_remove_feature f n) = f" by (auto simp: am_remove_feature_def Let_def drop_bit_3)
  then show ?thesis using False by (auto simp: has_feature_iff)
qed

interpretation features: bounded_set features_ok am_allocate_feature_set "\<lambda>f n. fst (am_add_feature f n)"
  "\<lambda>f n. fst (am_remove_feature f n)" "\<lambda>f. am_has_feature (Some f)" "\<lambda>f. int (8 * f_size f)"
proof
  show "features_ok am_allocate_feature_set" by (simp add: features_ok_def am_allocate_feature_set_def Let_def)
  show "\<not> am_has_feature (Some am_allocate_feature_set) n" for n
    by (simp add: has_feature_iff am_allocate_feature_set_def Let_def)
  fix f n assume ok: "features_ok f"
  show "features_ok (fst (am_add_feature f n))" "int (8 * f_size (fst (am_add_feature f n))) = int (8 * f_size f)"
    using ok by (auto simp: features_ok_def am_add_feature_def Let_def)
  show "features_ok (fst (am_remove_feature f n))" using ok by (auto simp: features_ok_def am_remove_feature_def Let_def)
qed (simp_all only: add_feature_has remove_feature_has)

section \<open>Two versions\<close>

lemma hex_value_digit: "n < 16 \<Longrightarrow> hex_value (hex_digit n) = Some n"
  by (auto simp: hex_value_def hex_digit_def of_char_of take_bit_eq_mod Let_def)

abbreviation hex_text :: "byte list \<Rightarrow> string" where
  "hex_text bs \<equiv> concat (map (\<lambda>b. [hex_digit (unat b div 16), hex_digit (unat b mod 16)]) bs)"

lemma same_bytes:
  assumes "features_ok f" and "\<And>j. j < f_size f \<Longrightarrow> g j = f_bytes f ! j"
  shows "f\<lparr>f_bytes := map g [0 ..< f_size f]\<rparr> = f"
proof -
  have "map g [0 ..< f_size f] = f_bytes f"
    using assms by (intro nth_equalityI) (simp_all add: features_ok_def)
  then show ?thesis by simp
qed

lemma read_bytes_text:
  assumes "features_ok f"
  shows "read_bytes i (hex_text bs) f =
     Some (f\<lparr>f_bytes := map (\<lambda>j. if i \<le> j \<and> j < i + length bs then bs ! (j - i) else f_bytes f ! j) [0 ..< f_size f]\<rparr>)"
  using assms
proof (induction bs arbitrary: i f)
  case Nil
  then have "f\<lparr>f_bytes := map (\<lambda>j. if i \<le> j \<and> j < i + length ([] :: byte list) then [] ! (j - i) else f_bytes f ! j) [0 ..< f_size f]\<rparr> = f"
    by (intro same_bytes) auto
  then show ?case by (subst read_bytes.simps) simp
next
  case (Cons b bs)
  show ?case
  proof (cases "i < f_size f")
    case False
    then show ?thesis using Cons.prems
      by (subst read_bytes.simps) (simp add: same_bytes)
  next
    case True
    have b: "unat b div 16 < 16" "unat b mod 16 < 16"
      using unsigned_less [of b] by (simp_all add: div_less_iff_less_mult)
    have v: "(of_nat (unat b div 16 * 16 + unat b mod 16) :: byte) = b" by (simp only: div_mult_mod_eq) simp
    have "read_bytes i (hex_text (b # bs)) f = read_bytes (Suc i) (hex_text bs) (f\<lparr>f_bytes := (f_bytes f)[i := b]\<rparr>)"
      using True by (subst read_bytes.simps) (simp add: hex_value_digit b v)
    also have "\<dots> = Some (f\<lparr>f_bytes := map (\<lambda>j. if Suc i \<le> j \<and> j < Suc i + length bs then bs ! (j - Suc i)
        else (f_bytes f)[i := b] ! j) [0 ..< f_size f]\<rparr>)"
      using Cons.prems by (subst Cons.IH) (simp_all add: features_ok_def)
    also have "\<dots> = Some (f\<lparr>f_bytes := map (\<lambda>j. if i \<le> j \<and> j < i + length (b # bs) then (b # bs) ! (j - i)
        else f_bytes f ! j) [0 ..< f_size f]\<rparr>)"
      using Cons.prems True
      by (auto simp: features_ok_def nth_list_update nth_Cons' le_Suc_eq Suc_le_eq intro!: map_cong arg_cong [of _ _ "\<lambda>x. f\<lparr>f_bytes := x\<rparr>"])
    finally show ?thesis .
  qed
qed

lemma hex_digit_lower: "n < 16 \<Longrightarrow> hex_digit n \<noteq> CHR ''U''"
  using hex_value_digit [of n] by (auto simp: hex_value_def)

lemma hex_text_not_unknown: "hex_text bs \<noteq> ''UNKNOWNFEATURE''"
proof (cases bs)
  case (Cons b bs')
  have "unat b div 16 < 16" using unsigned_less [of b] by (simp add: div_less_iff_less_mult)
  then show ?thesis using Cons hex_digit_lower by auto
qed simp

lemma own_size: "f_size am_allocate_feature_set = 13"
  by (simp add: am_allocate_feature_set_def last_feature_def Let_def drop_bit_3)

lemma own_byte: "j < 13 \<Longrightarrow> f_bytes am_allocate_feature_set ! j = 0"
  by (simp add: am_allocate_feature_set_def last_feature_def Let_def drop_bit_3)

lemma string_feature_text:
  assumes "features_ok g"
  shows "am_string_to_feature (Some (am_feature_to_string (Some g))) =
     Some \<lparr>f_size = 13, f_bytes = map (\<lambda>j. if j < f_size g then f_bytes g ! j else 0) [0 ..< 13]\<rparr>"
proof -
  have "features_ok am_allocate_feature_set" by simp
  from read_bytes_text [OF this, of 0 "f_bytes g"] have
    "read_bytes 0 (hex_text (f_bytes g)) am_allocate_feature_set =
      Some (am_allocate_feature_set\<lparr>f_bytes := map (\<lambda>j. if j < f_size g then f_bytes g ! j else 0) [0 ..< 13]\<rparr>)"
    using assms by (simp add: own_size own_byte features_ok_def cong: map_cong if_cong)
  then show ?thesis
    using assms hex_text_not_unknown [of "f_bytes g"] own_size
    by (simp add: am_string_to_feature_def am_feature_to_string_def features_ok_def)
qed

section \<open>The properties\<close>

text \<open>A feature set behaves as a set of the numbers below eight times its size: adding a number puts it in and
  no other, adding one out of range (or negative) changes nothing and is reported as a failure, and
  removing takes out that number only.
\<close>
theorem features_set_laws:
  assumes "features_ok f"
  shows "(snd (am_add_feature f n) \<longleftrightarrow> 0 \<le> n \<and> n < int (8 * f_size f)) \<and>
     (\<not> snd (am_add_feature f n) \<longrightarrow> fst (am_add_feature f n) = f) \<and>
     (\<forall>m. am_has_feature (Some (fst (am_add_feature f n))) m \<longleftrightarrow>
            am_has_feature (Some f) m \<or> m = n \<and> snd (am_add_feature f n)) \<and>
     (\<forall>m. am_has_feature (Some (fst (am_remove_feature f n))) m \<longleftrightarrow> am_has_feature (Some f) m \<and> m \<noteq> n)"
proof -
  have "snd (am_add_feature f n) \<longleftrightarrow> 0 \<le> n \<and> n < int (8 * f_size f)"
    by (auto simp: am_add_feature_def Let_def drop_bit_3 div_less_iff_less_mult nat_less_iff)
  moreover have "\<not> snd (am_add_feature f n) \<longrightarrow> fst (am_add_feature f n) = f"
    by (simp add: am_add_feature_def Let_def)
  ultimately show ?thesis using features.has_add [OF assms] features.has_remove [OF assms] by simp
qed

theorem features_set_laws_witness:
  "am_has_feature (Some (fst (am_add_feature am_allocate_feature_set 9))) 9"
  using features_set_laws [of am_allocate_feature_set 9] by (simp add: own_size)

text \<open>The text a host sends for its features is read by another version as the features both know: every
  feature of the sender within the receiver's range and no other, whatever the sender's size is.
\<close>
theorem features_text_versions:
  assumes "features_ok g"
  shows "\<exists>f. am_string_to_feature (Some (am_feature_to_string (Some g))) = Some f \<and>
     f_size f = f_size am_allocate_feature_set \<and>
     (\<forall>n. am_has_feature (Some f) n \<longleftrightarrow>
            am_has_feature (Some g) n \<and> n < int (8 * f_size am_allocate_feature_set))"
proof (intro exI conjI allI)
  let ?f = "\<lparr>f_size = 13, f_bytes = map (\<lambda>j. if j < f_size g then f_bytes g ! j else 0) [0 ..< 13]\<rparr>"
  show "am_string_to_feature (Some (am_feature_to_string (Some g))) = Some ?f" by (rule string_feature_text [OF assms])
  show "f_size ?f = f_size am_allocate_feature_set" by (simp add: own_size)
  fix n
  have "nat n div 8 < 13 \<Longrightarrow> ([0 ..< 13] ! (nat n div 8)) = nat n div 8" by (subst nth_upt) simp_all
  then show "am_has_feature (Some ?f) n \<longleftrightarrow> am_has_feature (Some g) n \<and> n < int (8 * f_size am_allocate_feature_set)"
    by (auto simp: has_feature_iff own_size div_less_iff_less_mult nat_less_iff split: if_splits)
qed

theorem features_text_versions_witness:
  "\<exists>f. am_string_to_feature (Some (am_feature_to_string (Some am_allocate_feature_set))) = Some f \<and> f_size f = 13"
  using features_text_versions [of am_allocate_feature_set] by (auto simp: own_size)

end
