(* ===== verification/Holding_Space.thy ===== *)
theory Holding_Space
  imports Amanda_Prelude "HOL-Library.Signed_Division" "HOL-Library.Multiset"
begin

text \<open>
  Space on the holding disks (\<open>server-src/driver.c\<close>): choosing disks for a dump, reserving the space,
  correcting the reservation to what was used and giving it back. Sizes are kilobytes in \<open>off_t\<close>, far
  below its range; the division of C rounds towards zero. What is proved: the choice succeeds exactly
  when the disks have room for the dump, with its chunk headers, never books more than is free, and the
  books of every holding disk stay the sum of its reservations.
\<close>

section \<open>State\<close>

record holdalloc =
  ha_chunksize :: int  \<comment> \<open>of the configured holding disk\<close>
  ha_diskdir :: string
  disksize :: int
  allocated_dumpers :: int
  allocated_space :: int

text \<open>A reservation; its disk is the place in the list of holding disks.\<close>

record assignedhd =
  hd_disk :: nat
  hd_used :: int
  hd_reserved :: int
  hd_destname :: "string option"

definition DISK_BLOCK_KB :: int where "DISK_BLOCK_KB = 32"

definition am_round :: "int \<Rightarrow> int \<Rightarrow> int" where
  "am_round v u = ((v + u - 1) sdiv u) * u"

section \<open>Choosing disks\<close>

abbreviation free_on :: "holdalloc \<Rightarrow> int" where
  "free_on ha \<equiv> disksize ha - allocated_space ha"

definition headers :: "int \<Rightarrow> holdalloc \<Rightarrow> int" where
  \<comment> \<open>one header for each chunk\<close>
  "headers n ha = ((n - 1) sdiv ha_chunksize ha + 1) * DISK_BLOCK_KB"

text \<open>
  The inner loop: the preferred disk if it has room for a block, otherwise the disk with the fewest
  dumpers and among those the most free space. \<open>minp\<close> is the best place so far.
\<close>

fun choose_disk ::
  "holdalloc list \<Rightarrow> nat option \<Rightarrow> bool list \<Rightarrow> nat \<Rightarrow> nat option \<Rightarrow> holdalloc list \<Rightarrow> nat option" where
  "choose_disk all pref used j minp [] = minp"
| "choose_disk all pref used j minp (ha # has) =
     (if pref = Some j \<and> \<not> used ! j \<and> allocated_space ha \<le> disksize ha - DISK_BLOCK_KB then Some j
      else if allocated_space ha \<le> disksize ha - 2 * DISK_BLOCK_KB \<and> \<not> used ! j \<and>
        (case minp of
           None \<Rightarrow> True
         | Some m \<Rightarrow> allocated_dumpers ha < allocated_dumpers (all ! m) \<or>
             (allocated_dumpers ha = allocated_dumpers (all ! m) \<and> free_on ha > free_on (all ! m)))
      then choose_disk all pref used (j + 1) (Some j) has
      else choose_disk all pref used (j + 1) minp has)"

text \<open>The outer loop, at most \<open>n\<close> more rounds: what is left of the size, and the reservations.\<close>

fun fill_disks :: "nat \<Rightarrow> holdalloc list \<Rightarrow> int \<Rightarrow> nat option \<Rightarrow> bool list \<Rightarrow> int \<times> assignedhd list" where
  "fill_disks 0 has sz pref used = (sz, [])"
| "fill_disks (Suc n) has sz pref used =
     (if sz > 0 then
        (case choose_disk has pref used 0 None has of
           None \<Rightarrow> (sz, [])
         | Some m \<Rightarrow>
             let ha = has ! m;
                 hfree = free_on ha;
                 dfree = hfree - headers hfree ha;
                 dalloc = (if dfree < sz then dfree else sz);
                 halloc = dalloc + headers dalloc ha in
             apsnd ((#) \<lparr>hd_disk = m, hd_used = 0, hd_reserved = halloc, hd_destname = None\<rparr>)
               (fill_disks n has (sz - dalloc) None (used[m := True])))
      else (sz, []))"

definition round_size :: "int \<Rightarrow> int" where
  "round_size sz = am_round (if sz < 2 * DISK_BLOCK_KB then 2 * DISK_BLOCK_KB else sz) DISK_BLOCK_KB"

definition find_diskspace :: "holdalloc list \<Rightarrow> int \<Rightarrow> assignedhd option \<Rightarrow> assignedhd list option" where
  "find_diskspace has sz pref =
     (case fill_disks (length has) has (round_size sz) (map_option hd_disk pref) (replicate (length has) False) of
        (left, result) \<Rightarrow> if left \<noteq> 0 then None else Some result)"

definition free_space :: "holdalloc list \<Rightarrow> int" where
  "free_space has = foldl (\<lambda>total ha. if free_on ha > 0 then total + free_on ha else total) 0 has"

section \<open>Booking\<close>

text \<open>What the driver keeps of a dump for this: the reservations (\<open>NULL\<close> is \<^term>\<open>None\<close>), the sizes.\<close>

record space_sched =
  s_holdp :: "assignedhd list option"
  s_act_size :: int

definition book :: "nat \<Rightarrow> int \<Rightarrow> holdalloc list \<Rightarrow> holdalloc list" where
  "book j n has = has[j := (has ! j)\<lparr>allocated_space := allocated_space (has ! j) + n\<rparr>]"

definition sanitise_filename :: "string \<Rightarrow> string" where
  "sanitise_filename inp = map (\<lambda>c. if c \<in> set [CHR ''/'', CHR '':'', CHR 0x5C] then CHR ''_'' else c) inp"

definition hold_name :: "string \<Rightarrow> string \<Rightarrow> string \<Rightarrow> string \<Rightarrow> holdalloc \<Rightarrow> string" where
  "hold_name hd_driver_timestamp hostname name lvl ha =
     ha_diskdir ha @ ''/'' @ hd_driver_timestamp @ ''/'' @ hostname @ ''.'' @ sanitise_filename name @ ''.'' @ lvl"

text \<open>
  \<open>assign_holdingdisk\<close>: the first new reservation is merged into the last old one when they are on the same
  disk. Returns the index of the reservation to use next. \<open>name_for\<close> gives a file its name.
\<close>

definition assign_holdingdisk ::
  "(holdalloc \<Rightarrow> string) \<Rightarrow> assignedhd list \<Rightarrow> holdalloc list \<Rightarrow> 'a space_sched_scheme \<Rightarrow>
   fault + nat \<times> holdalloc list \<times> 'a space_sched_scheme" where
  "assign_holdingdisk name_for holdp has sp =
     (let old = (case s_holdp sp of None \<Rightarrow> [] | Some h \<Rightarrow> h);
          j = length old;
          add = (\<lambda>news has. foldl (\<lambda>has a. book (hd_disk a) (hd_reserved a) has) has news);
          named = map (\<lambda>a. a\<lparr>hd_destname := Some (name_for (has ! hd_disk a))\<rparr>) in
      if j > 0 then
        (case holdp of
           [] \<Rightarrow> Inl Out_of_bounds
         | a # rest \<Rightarrow>
             if hd_disk (last old) = hd_disk a then
               Inr (j - 1, add (a # rest) has,
                 sp\<lparr>s_holdp := Some (butlast old @ [(last old)\<lparr>hd_reserved := hd_reserved (last old) + hd_reserved a\<rparr>] @ named rest)\<rparr>)
             else Inr (j, add (a # rest) has, sp\<lparr>s_holdp := Some (old @ named (a # rest))\<rparr>))
      else Inr (0, add holdp has, sp\<lparr>s_holdp := Some (named holdp)\<rparr>))"

definition settle :: "assignedhd \<Rightarrow> assignedhd" where
  "settle a = a\<lparr>hd_reserved := hd_reserved a + (hd_used a - hd_reserved a)\<rparr>"

definition adjust_diskspace :: "holdalloc list \<Rightarrow> 'a space_sched_scheme \<Rightarrow> fault + holdalloc list \<times> 'a space_sched_scheme" where
  "adjust_diskspace has sp =
     (case s_holdp sp of
        None \<Rightarrow> Inl Assertion_failed
      | Some holdp \<Rightarrow>
          Inr (foldl (\<lambda>has a. book (hd_disk a) (hd_used a - hd_reserved a) has) has holdp,
            sp\<lparr>s_holdp := Some (map settle holdp), s_act_size := sum_list (map hd_used holdp)\<rparr>))"

text \<open>Also returns the name of the first file, which \<open>holding_file_unlink\<close> removes with its continuations.\<close>

definition delete_diskspace ::
  "holdalloc list \<Rightarrow> 'a space_sched_scheme \<Rightarrow> fault + string option \<times> holdalloc list \<times> 'a space_sched_scheme" where
  "delete_diskspace has sp =
     (case s_holdp sp of
        None \<Rightarrow> Inl Assertion_failed
      | Some [] \<Rightarrow> Inl Out_of_bounds
      | Some (a # rest) \<Rightarrow>
          Inr (hd_destname a, foldl (\<lambda>has a. book (hd_disk a) (- hd_used a) has) has (a # rest),
            sp\<lparr>s_holdp := None, s_act_size := 0\<rparr>))"

section \<open>The choice\<close>

lemma sdiv_nonneg: "0 \<le> a \<Longrightarrow> 0 < b \<Longrightarrow> a sdiv b = a div b" for a b :: int
  by (simp add: signed_divide_int_def sgn_if)

definition usable :: "holdalloc \<Rightarrow> int" where
  "usable ha = free_on ha - headers (free_on ha) ha"

definition roomy :: "holdalloc \<Rightarrow> bool" where
  "roomy ha \<longleftrightarrow> 2 * DISK_BLOCK_KB \<le> free_on ha"

definition has_block :: "holdalloc \<Rightarrow> bool" where
  "has_block ha \<longleftrightarrow> DISK_BLOCK_KB \<le> free_on ha"

lemma headers_mono: "64 \<le> ha_chunksize ha \<Longrightarrow> 0 \<le> a \<Longrightarrow> a \<le> b \<Longrightarrow> headers a ha \<le> headers b ha"
  by (cases "a = 0"; cases "b = 0") (auto simp: headers_def DISK_BLOCK_KB_def sdiv_nonneg zdiv_mono1 pos_imp_zdiv_nonneg_iff
      signed_divide_int_def sgn_if)

lemma usable_nonneg:
  assumes "64 \<le> ha_chunksize ha" and "has_block ha"
  shows "0 \<le> usable ha \<and> (roomy ha \<longrightarrow> 0 < usable ha) \<and> usable ha \<le> free_on ha"
proof -
  let ?n = "free_on ha - 1" and ?c = "ha_chunksize ha"
  have n: "31 \<le> ?n" using assms(2) by (simp add: has_block_def DISK_BLOCK_KB_def)
  then have h: "headers (free_on ha) ha = (?n div ?c + 1) * 32"
    using assms(1) by (simp add: headers_def DISK_BLOCK_KB_def sdiv_nonneg)
  have pos: "0 \<le> ?n div ?c" using n assms(1) by (simp add: pos_imp_zdiv_nonneg_iff)
  have c: "0 < ?c" using assms(1) by simp
  have "?n div ?c * 64 \<le> ?n div ?c * ?c" using pos assms(1) by (simp add: mult_left_mono)
  also have "\<dots> \<le> ?n" using pos_mod_sign [OF c, of ?n] by (simp flip: minus_mod_eq_div_mult)
  finally have le: "64 * (?n div ?c) \<le> ?n" by (simp add: mult.commute)
  show ?thesis
  proof (cases "?n < 63")
    case True
    then have "?n div ?c = 0" using n assms(1) by simp
    then show ?thesis using h n True by (simp add: usable_def roomy_def DISK_BLOCK_KB_def)
  next
    case False
    then show ?thesis using h le n pos by (simp add: usable_def roomy_def DISK_BLOCK_KB_def)
  qed
qed

text \<open>The disks a round may choose.\<close>

definition choices :: "holdalloc list \<Rightarrow> nat option \<Rightarrow> bool list \<Rightarrow> nat set" where
  "choices has pref used =
     {j. j < length has \<and> \<not> used ! j \<and> (roomy (has ! j) \<or> pref = Some j \<and> has_block (has ! j))}"

lemma choose_disk_Some:
  "choose_disk all pref used j minp has = Some m \<Longrightarrow>
     minp = Some m \<or> (\<exists>k < length has. m = j + k \<and> \<not> used ! m \<and> (roomy (has ! k) \<or> pref = Some m \<and> has_block (has ! k)))"
proof (induction has arbitrary: j minp)
  case (Cons ha has)
  have step: "\<exists>k < length (ha # has). m = j + k \<and> \<not> used ! m \<and> (roomy ((ha # has) ! k) \<or> pref = Some m \<and> has_block ((ha # has) ! k))"
    if "\<exists>k < length has. m = (j + 1) + k \<and> \<not> used ! m \<and> (roomy (has ! k) \<or> pref = Some m \<and> has_block (has ! k))"
    using that by (metis Suc_eq_plus1 add.assoc add_Suc_right length_Cons not_less_eq nth_Cons_Suc plus_1_eq_Suc)
  show ?case
    using Cons.prems Cons.IH [of "j + 1" "Some j"] Cons.IH [of "j + 1" minp] step
    by (auto simp: roomy_def has_block_def split: if_splits)
qed simp

lemma choose_disk_None:
  "choose_disk all pref used j minp has = None \<Longrightarrow>
     minp = None \<and> (\<forall>k < length has. used ! (j + k) \<or> (\<not> roomy (has ! k) \<and> (pref = Some (j + k) \<longrightarrow> \<not> has_block (has ! k))))"
proof (induction has arbitrary: j minp)
  case (Cons ha has)
  from Cons.prems Cons.IH [of "j + 1" "Some j"] Cons.IH [of "j + 1" minp] show ?case
    by (auto simp: roomy_def has_block_def less_Suc_eq_0_disj split: if_splits)
qed simp

lemma choose_disk_pref:
  "k < length has \<Longrightarrow> \<not> used ! (j + k) \<Longrightarrow> has_block (has ! k) \<Longrightarrow> choose_disk all (Some (j + k)) used j minp has = Some (j + k)"
proof (induction has arbitrary: j minp k)
  case (Cons ha has)
  then show ?case
  proof (cases k)
    case (Suc k')
    then show ?thesis using Cons.prems Cons.IH [of k' "j + 1"] by simp
  qed (simp add: has_block_def)
qed simp

lemma choose_choices: "choose_disk has pref used 0 None has = Some m \<Longrightarrow> m \<in> choices has pref used"
  by (drule choose_disk_Some) (auto simp: choices_def)

lemma no_choices: "choose_disk has pref used 0 None has = None \<Longrightarrow> choices has pref used = {}"
  by (drule choose_disk_None) (auto simp: choices_def)

lemma choices_next:
  assumes m: "choose_disk has pref used 0 None has = Some m" and len: "length used = length has"
  shows "choices has pref used = insert m (choices has None (used[m := True]))" and "m \<notin> choices has None (used[m := True])"
proof -
  have c: "m \<in> choices has pref used" by (rule choose_choices [OF m])
  have "x \<in> choices has None (used[m := True])" if x: "x \<in> choices has pref used" "x \<noteq> m" for x
  proof -
    have "roomy (has ! x)"
    proof (rule ccontr)
      assume "\<not> roomy (has ! x)"
      then have "pref = Some x" "has_block (has ! x)" "x < length has" "\<not> used ! x" using x(1) by (auto simp: choices_def)
      with choose_disk_pref [of x has used 0 has None] m x(2) show False by simp
    qed
    then show ?thesis using x by (auto simp: choices_def)
  qed
  moreover have "choices has None (used[m := True]) \<subseteq> choices has pref used"
    using len c by (auto simp: choices_def nth_list_update split: if_splits)
  ultimately show "choices has pref used = insert m (choices has None (used[m := True]))" using c by blast
  show "m \<notin> choices has None (used[m := True])" using len c by (auto simp: choices_def)
qed

lemma choices_usable: "\<forall>ha \<in> set has. 64 \<le> ha_chunksize ha \<Longrightarrow> j \<in> choices has pref used \<Longrightarrow> 0 \<le> usable (has ! j)"
  by (rule usable_nonneg [THEN conjunct1]) (auto simp: choices_def roomy_def has_block_def DISK_BLOCK_KB_def)

text \<open>A reservation of \<open>d\<close> kilobytes of data, in chunks.\<close>

definition reserves :: "holdalloc list \<Rightarrow> int \<Rightarrow> assignedhd \<Rightarrow> bool" where
  "reserves has d a \<longleftrightarrow> 0 \<le> d \<and> d \<le> usable (has ! hd_disk a) \<and>
     hd_reserved a = d + headers d (has ! hd_disk a) \<and> hd_used a = 0 \<and> hd_destname a = None"

lemma fill_disks_result:
  assumes "\<forall>ha \<in> set has. 64 \<le> ha_chunksize ha"
    and "length used = length has" and "n = length (filter Not used)" and "0 \<le> sz"
    and "fill_disks n has sz pref used = (left, rs)"
  shows "distinct (map hd_disk rs) \<and> set (map hd_disk rs) \<subseteq> choices has pref used \<and> 0 \<le> left \<and>
    (\<exists>ds. list_all2 (reserves has) ds rs \<and> sz = left + sum_list ds \<and>
       (0 < left \<longrightarrow> ds = map (\<lambda>a. usable (has ! hd_disk a)) rs \<and> set (map hd_disk rs) = choices has pref used))"
  using assms
proof (induction n has sz pref used arbitrary: left rs rule: fill_disks.induct)
  case (1 has sz pref used)
  have "filter Not used = []" using 1(3) [symmetric] by simp
  then have "\<forall>u \<in> set used. u" by (simp add: filter_empty_conv)
  then have "used ! j" if "j < length has" for j using that 1(2) by (metis nth_mem)
  then have "choices has pref used = {}" by (auto simp: choices_def)
  then show ?case using 1(4,5) by simp
next
  case (2 n has sz pref used)
  note chunks = 2(2) and len = 2(3) and count = 2(4) and nonneg = 2(5) and fill = 2(6)
  show ?case
  proof (cases "0 < sz \<and> choose_disk has pref used 0 None has \<noteq> None")
    case False
    then show ?thesis using fill nonneg no_choices [of has pref used] by (auto split: if_splits)
  next
    case True
    then obtain m where m: "choose_disk has pref used 0 None has = Some m" by blast
    let ?d = "min (usable (has ! m)) sz"
    let ?a = "\<lparr>hd_disk = m, hd_used = 0, hd_reserved = ?d + headers ?d (has ! m), hd_destname = None\<rparr>"
    have c: "m \<in> choices has pref used" by (rule choose_choices [OF m])
    then have u: "0 \<le> usable (has ! m)" using choices_usable chunks by blast
    have mu: "m < length used" "\<not> used ! m" using c len by (auto simp: choices_def)
    have n: "n = length (filter Not (used[m := True]))"
    proof -
      have "length (filter Not used) = Suc (length (filter Not (used[m := True])))"
        using mu by (subst (1) id_take_nth_drop [OF mu(1)]) (simp add: upd_conv_take_nth_drop)
      then show ?thesis using count by simp
    qed
    have d: "(if free_on (has ! m) - headers (free_on (has ! m)) (has ! m) < sz
        then free_on (has ! m) - headers (free_on (has ! m)) (has ! m) else sz) = ?d"
      by (simp add: usable_def)
    have "fill_disks (Suc n) has sz pref used = apsnd ((#) ?a) (fill_disks n has (sz - ?d) None (used[m := True]))"
      using True m by (simp add: Let_def d)
    then obtain rs' where f: "fill_disks n has (sz - ?d) None (used[m := True]) = (left, rs')" and rs: "rs = ?a # rs'"
      using fill by (cases "fill_disks n has (sz - ?d) None (used[m := True])") simp
    from 2(1) [OF _ m refl refl refl refl refl, unfolded d, OF _ chunks _ n _ f] True len obtain ds where
      IH: "distinct (map hd_disk rs')" "set (map hd_disk rs') \<subseteq> choices has None (used[m := True])" "0 \<le> left"
        "list_all2 (reserves has) ds rs'" "sz - ?d = left + sum_list ds"
        "0 < left \<longrightarrow> ds = map (\<lambda>a. usable (has ! hd_disk a)) rs' \<and> set (map hd_disk rs') = choices has None (used[m := True])"
      by auto
    note after = choices_next [OF m len]
    have "reserves has ?d ?a" using u True by (simp add: reserves_def)
    moreover have "?d = usable (has ! m)" if "0 < left"
    proof -
      have "0 \<le> sum_list ds" using IH(4) by (induction rule: list_all2_induct) (auto simp: reserves_def)
      then show ?thesis using IH(5) that by auto
    qed
    ultimately show ?thesis
      using IH after by (intro conjI exI [of _ "?d # ds"]) (auto simp: rs)
  qed
qed

definition available :: "holdalloc list \<Rightarrow> assignedhd option \<Rightarrow> nat set" where
  \<comment> \<open>the disks a dump may be put on\<close>
  "available has pref =
     {j. j < length has \<and> (roomy (has ! j) \<or> (\<exists>a. pref = Some a \<and> hd_disk a = j \<and> has_block (has ! j)))}"

definition room_for_dump :: "holdalloc list \<Rightarrow> assignedhd option \<Rightarrow> int" where
  "room_for_dump has pref = (\<Sum>j \<in> available has pref. usable (has ! j))"

lemma available_choices: "available has pref = choices has (map_option hd_disk pref) (replicate (length has) False)"
  by (auto simp: available_def choices_def)

lemma finite_available [simp]: "finite (available has pref)"
  by (rule finite_subset [of _ "{..< length has}"]) (auto simp: available_def)

lemma reserves_fits:
  assumes "reserves has d a" and "64 \<le> ha_chunksize (has ! hd_disk a)" and "has_block (has ! hd_disk a)"
  shows "hd_reserved a \<le> free_on (has ! hd_disk a)"
proof -
  let ?ha = "has ! hd_disk a"
  have "d \<le> usable ?ha" "0 \<le> d" "usable ?ha \<le> free_on ?ha"
    using assms usable_nonneg [of ?ha] by (simp_all add: reserves_def)
  moreover from this have "headers d ?ha \<le> headers (free_on ?ha) ?ha" using assms(2) by (intro headers_mono) simp_all
  ultimately show ?thesis using assms(1) by (simp add: reserves_def usable_def)
qed

lemma round_size_ge: "64 \<le> round_size sz \<and> sz \<le> round_size sz"
proof -
  let ?n = "(if sz < 64 then 64 else sz) + 31"
  have "round_size sz = ?n div 32 * 32" by (simp add: round_size_def am_round_def DISK_BLOCK_KB_def sdiv_nonneg add.commute)
  then show ?thesis using div_mult_mod_eq [of ?n 32] pos_mod_bound [of 32 ?n] by (simp split: if_splits) linarith
qed

lemma list_all2_partner: "list_all2 P ds rs \<Longrightarrow> a \<in> set rs \<Longrightarrow> \<exists>d. P d a"
  by (induction rule: list_all2_induct) auto

lemma list_all2_sum_map:
  "list_all2 P ds rs \<Longrightarrow> (\<And>d r. P d r \<Longrightarrow> d \<le> f r) \<Longrightarrow> sum_list ds \<le> (sum_list (map f rs) :: int)"
  by (induction rule: list_all2_induct) (auto intro: add_mono)

lemma find_diskspace_outcome:
  assumes chunks: "\<forall>ha \<in> set has. 64 \<le> ha_chunksize ha"
  shows "find_diskspace has sz pref = None \<longleftrightarrow> room_for_dump has pref < round_size sz"
    and "find_diskspace has sz pref = Some rs \<Longrightarrow> distinct (map hd_disk rs) \<and> hd_disk ` set rs \<subseteq> available has pref \<and>
       (\<exists>ds. list_all2 (reserves has) ds rs \<and> sum_list ds = round_size sz)"
proof -
  let ?used = "replicate (length has) False"
  obtain left rs' where f: "fill_disks (length has) has (round_size sz) (map_option hd_disk pref) ?used = (left, rs')"
    by fastforce
  have "0 \<le> round_size sz" using round_size_ge [of sz] by simp
  from fill_disks_result [OF chunks _ _ this f] obtain ds where
    r: "distinct (map hd_disk rs')" "set (map hd_disk rs') \<subseteq> available has pref" "0 \<le> left"
      "list_all2 (reserves has) ds rs'" "round_size sz = left + sum_list ds"
      "0 < left \<longrightarrow> ds = map (\<lambda>a. usable (has ! hd_disk a)) rs' \<and> set (map hd_disk rs') = available has pref"
    unfolding available_choices by auto
  have total: "sum_list (map (\<lambda>a. usable (has ! hd_disk a)) rs') = (\<Sum>j \<in> set (map hd_disk rs'). usable (has ! j))"
    using sum_list_distinct_conv_sum_set [OF r(1), of "\<lambda>j. usable (has ! j)"] by (simp add: comp_def)
  have none: "find_diskspace has sz pref = None \<longleftrightarrow> 0 < left"
    using f r(3) by (auto simp: find_diskspace_def)
  show "find_diskspace has sz pref = None \<longleftrightarrow> room_for_dump has pref < round_size sz"
  proof (cases "0 < left")
    case True
    then have "room_for_dump has pref = sum_list ds" using r(6) total by (simp add: room_for_dump_def)
    then show ?thesis using True r(5) none by simp
  next
    case False
    have "sum_list ds \<le> sum_list (map (\<lambda>a. usable (has ! hd_disk a)) rs')"
      by (rule list_all2_sum_map [OF r(4)]) (simp add: reserves_def)
    also have "\<dots> \<le> room_for_dump has pref" unfolding total room_for_dump_def
      using r(2) choices_usable [OF chunks] by (intro sum_mono2 finite_available) (auto simp: available_choices)
    finally show ?thesis using False r(3,5) none by simp
  qed
  show "distinct (map hd_disk rs) \<and> hd_disk ` set rs \<subseteq> available has pref \<and>
       (\<exists>ds. list_all2 (reserves has) ds rs \<and> sum_list ds = round_size sz)"
    if "find_diskspace has sz pref = Some rs"
    using that f r by (auto simp: find_diskspace_def split: if_splits)
qed

section \<open>The books\<close>

text \<open>What the reservations of a list hold of disk \<open>j\<close>.\<close>

definition held :: "nat \<Rightarrow> assignedhd list \<Rightarrow> int" where
  "held j rs = sum_list (map hd_reserved (filter (\<lambda>a. hd_disk a = j) rs))"

lemma held_simps [simp]:
  "held j [] = 0" "held j (a # rs) = (if hd_disk a = j then hd_reserved a else 0) + held j rs"
  "held j (rs @ rs') = held j rs + held j rs'"
  by (simp_all add: held_def)

lemma length_book [simp]: "length (book j n has) = length has"
  by (simp add: book_def)

lemma book_nth: "k < length has \<Longrightarrow> book j n has ! k = (has ! k)\<lparr>allocated_space := allocated_space (has ! k) + (if j = k then n else 0)\<rparr>"
  by (auto simp: book_def nth_list_update)

lemma length_fold_book [simp]: "length (foldl (\<lambda>has a. book (hd_disk a) (g a) has) has rs) = length has"
  by (induction rs arbitrary: has) simp_all

lemma fold_book:
  "k < length has \<Longrightarrow> foldl (\<lambda>has a. book (hd_disk a) (g a) has) has rs ! k =
     (has ! k)\<lparr>allocated_space := allocated_space (has ! k) + sum_list (map g (filter (\<lambda>a. hd_disk a = k) rs))\<rparr>"
proof (induction rs arbitrary: has)
  case (Cons a rs)
  from Cons.IH [of "book (hd_disk a) (g a) has"] Cons.prems show ?case by (simp add: book_nth)
qed simp

definition sched_held :: "nat \<Rightarrow> 'a space_sched_scheme \<Rightarrow> int" where
  "sched_held j sp = (case s_holdp sp of None \<Rightarrow> 0 | Some rs \<Rightarrow> held j rs)"

lemma held_named: "(\<And>a. hd_disk (g a) = hd_disk a \<and> hd_reserved (g a) = hd_reserved a) \<Longrightarrow> held j (map g rs) = held j rs"
  by (induction rs) simp_all

text \<open>Assigning books what the dump newly holds.\<close>

lemma assign_books:
  assumes "assign_holdingdisk name_for holdp has sp = Inr (i, has', sp')"
  shows "length has' = length has \<and> s_act_size sp' = s_act_size sp \<and>
    (\<forall>j < length has. has' ! j = (has ! j)\<lparr>allocated_space := allocated_space (has ! j) + held j holdp\<rparr> \<and>
       sched_held j sp' = sched_held j sp + held j holdp)"
proof (cases "s_holdp sp")
  case None
  then show ?thesis
    using assms by (auto simp: assign_holdingdisk_def fold_book sched_held_def held_named simp flip: held_def)
next
  case (Some old)
  show ?thesis
  proof (cases old rule: rev_cases)
    case Nil
    then show ?thesis
      using assms Some by (auto simp: assign_holdingdisk_def fold_book sched_held_def held_named simp flip: held_def)
  next
    case (snoc ys y)
    then show ?thesis
      using assms Some
      by (cases holdp)
        (auto simp: assign_holdingdisk_def fold_book book_nth sched_held_def held_named Let_def split: if_splits simp flip: held_def)
  qed
qed

lemma adjust_books:
  assumes "adjust_diskspace has sp = Inr (has', sp')"
  shows "length has' = length has \<and>
    (\<forall>j < length has. has' ! j = (has ! j)\<lparr>allocated_space := allocated_space (has ! j) + (sched_held j sp' - sched_held j sp)\<rparr>)"
proof -
  have diff: "sum_list (map (\<lambda>a. hd_used a - hd_reserved a) (filter (\<lambda>a. hd_disk a = j) rs)) = held j (map settle rs) - held j rs"
    for j rs by (induction rs) (simp_all add: settle_def)
  show ?thesis
    using assms by (auto simp: adjust_diskspace_def fold_book sched_held_def diff split: option.splits)
qed

text \<open>Giving the space back takes off what was used; that is what was held once the space is adjusted.\<close>

definition settled :: "'a space_sched_scheme \<Rightarrow> bool" where
  "settled sp \<longleftrightarrow> (\<forall>rs. s_holdp sp = Some rs \<longrightarrow> (\<forall>a \<in> set rs. hd_reserved a = hd_used a))"

lemma adjust_settles: "adjust_diskspace has sp = Inr (has', sp') \<Longrightarrow> settled sp' \<and> s_holdp sp' \<noteq> None"
  by (auto simp: adjust_diskspace_def settled_def settle_def split: option.splits)

lemma delete_books:
  assumes "delete_diskspace has sp = Inr (name, has', sp')" and "settled sp"
  shows "length has' = length has \<and> s_holdp sp' = None \<and>
    (\<forall>j < length has. has' ! j = (has ! j)\<lparr>allocated_space := allocated_space (has ! j) - sched_held j sp\<rparr>)"
proof -
  have neg: "sum_list (map (\<lambda>a. - hd_used a) (filter (\<lambda>a. hd_disk a = j) rs)) = - held j rs"
    if "\<forall>a \<in> set rs. hd_reserved a = hd_used a" for j rs
    using that by (induction rs) simp_all
  obtain a rest where sp: "s_holdp sp = Some (a # rest)"
    using assms(1) by (auto simp: delete_diskspace_def split: option.splits list.splits)
  with assms(2) have used: "\<forall>b \<in> set (a # rest). hd_reserved b = hd_used b" by (simp add: settled_def)
  have has': "has' = foldl (\<lambda>has a. book (hd_disk a) (- hd_used a) has) has (a # rest)" and sp': "s_holdp sp' = None"
    using assms(1) sp by (auto simp: delete_diskspace_def)
  have "has' ! j = (has ! j)\<lparr>allocated_space := allocated_space (has ! j) - sched_held j sp\<rparr>" if "j < length has" for j
    unfolding has' fold_book [OF that, of "\<lambda>a. - hd_used a"] neg [OF used] by (simp add: sched_held_def sp)
  moreover have "length has' = length has" unfolding has' by (rule length_fold_book)
  ultimately show ?thesis using sp' by blast
qed

section \<open>The properties\<close>

text \<open>C22: \<open>find_diskspace\<close> finds room for a dump exactly when the disks that may be used (two blocks free, or one on
  the disk the dump is on) have room for its rounded size beside one header per chunk. The reservations it
  returns are on different disks, hold the whole dump, and none is larger than what is free on its disk,
  so that booking them overbooks no disk. A chunk is at least two blocks, as the configuration demands.\<close>

theorem find_diskspace_iff_room:
  assumes "\<forall>ha \<in> set has. 64 \<le> ha_chunksize ha"
  shows "(case find_diskspace has sz pref of
       None \<Rightarrow> room_for_dump has pref < round_size sz
     | Some rs \<Rightarrow> round_size sz \<le> room_for_dump has pref \<and> distinct (map hd_disk rs) \<and>
         (\<exists>ds. list_all2 (reserves has) ds rs \<and> sum_list ds = round_size sz) \<and>
         (\<forall>a \<in> set rs. hd_disk a < length has \<and> hd_reserved a \<le> free_on (has ! hd_disk a)))"
proof (cases "find_diskspace has sz pref")
  case None
  then show ?thesis using find_diskspace_outcome(1) [OF assms, of sz pref] by simp
next
  case (Some rs)
  from find_diskspace_outcome(2) [OF assms Some] obtain ds where
    rs: "distinct (map hd_disk rs)" "hd_disk ` set rs \<subseteq> available has pref" "list_all2 (reserves has) ds rs" "sum_list ds = round_size sz"
    by blast
  have "hd_disk a < length has \<and> hd_reserved a \<le> free_on (has ! hd_disk a)" if a: "a \<in> set rs" for a
  proof -
    have disk: "hd_disk a < length has" "has_block (has ! hd_disk a)"
      using rs(2) a by (auto simp: available_def roomy_def has_block_def DISK_BLOCK_KB_def)
    obtain d where "reserves has d a" using list_all2_partner [OF rs(3) a] by blast
    from reserves_fits [OF this bspec [OF assms nth_mem [OF disk(1)]] disk(2)] disk(1) show ?thesis by simp
  qed
  moreover have "round_size sz \<le> room_for_dump has pref"
    using Some find_diskspace_outcome(1) [OF assms, of sz pref] by simp
  ultimately show ?thesis unfolding Some option.case using rs by blast
qed

definition two_disks :: "holdalloc list" where
  "two_disks =
     [\<lparr>ha_chunksize = 64, ha_diskdir = ''/a'', disksize = 200, allocated_dumpers = 1, allocated_space = 0\<rparr>,
      \<lparr>ha_chunksize = 1024, ha_diskdir = ''/b'', disksize = 500, allocated_dumpers = 0, allocated_space = 100\<rparr>]"

theorem find_diskspace_iff_room_witness:
  "find_diskspace two_disks 400 None = Some
     [\<lparr>hd_disk = 1, hd_used = 0, hd_reserved = 400, hd_destname = None\<rparr>,
      \<lparr>hd_disk = 0, hd_used = 0, hd_reserved = 80, hd_destname = None\<rparr>] \<and>
   416 \<le> room_for_dump two_disks None"
  using find_diskspace_iff_room [of two_disks None 400]
  by (simp add: two_disks_def find_diskspace_def round_size_def am_round_def headers_def DISK_BLOCK_KB_def sdiv_nonneg
      numeral_2_eq_2)

end
