(* ===== verification/Disklist.thy ===== *)
theory Disklist
  imports Amanda_Prelude "HOL-Library.Multiset"
begin

text \<open>
  Queues of disks (\<open>server-src/diskfile.c\<close>): doubly linked lists whose links are fields of the disks, so
  that a disk is on one queue at a time. The model keeps the links in a heap and translates each pointer
  assignment; the abstract view is a family of lists with no disk in common. What is proved: every
  operation does to the links what the list operation does to the list, whatever else is in the heap, and
  \<open>sort_disk\<close> is a stable sort of one queue into another.
\<close>

text \<open>How a disk uses the holding disks, a setting of every disk.\<close>

datatype holding = HOLD_NEVER | HOLD_AUTO | HOLD_REQUIRED

section \<open>The interface\<close>

datatype ('q, 'd) queue_op = Enqueue 'q 'd | Headqueue 'q 'd | Dequeue 'q | Remove 'q 'd

text \<open>What the operations mean for a family of lists; \<^term>\<open>None\<close> where the caller may not call.\<close>

fun spec_op :: "('q, 'd) queue_op \<Rightarrow> ('q \<Rightarrow> 'd list) \<Rightarrow> ('d option \<times> ('q \<Rightarrow> 'd list)) option" where
  "spec_op (Enqueue q d) f = (if \<exists>p. d \<in> set (f p) then None else Some (None, f(q := f q @ [d])))"
| "spec_op (Headqueue q d) f = (if \<exists>p. d \<in> set (f p) then None else Some (None, f(q := d # f q)))"
| "spec_op (Dequeue q) f =
     Some (case f q of [] \<Rightarrow> (None, f) | d # ds \<Rightarrow> (Some d, f(q := ds)))"
| "spec_op (Remove q d) f = (if d \<in> set (f q) then Some (None, f(q := remove1 d (f q))) else None)"

fun spec_run :: "('q, 'd) queue_op list \<Rightarrow> ('q \<Rightarrow> 'd list) \<Rightarrow> ('d option list \<times> ('q \<Rightarrow> 'd list)) option" where
  "spec_run [] f = Some ([], f)"
| "spec_run (a # as) f =
     (case spec_op a f of
        None \<Rightarrow> None
      | Some (r, f) \<Rightarrow> map_option (apfst ((#) r)) (spec_run as f))"

text \<open>The operations of an implementation, chosen by the code of an operation.\<close>

primrec do_op ::
  "('q \<Rightarrow> 'd \<Rightarrow> 's \<Rightarrow> 's) \<Rightarrow> ('q \<Rightarrow> 'd \<Rightarrow> 's \<Rightarrow> 's) \<Rightarrow> ('q \<Rightarrow> 'd \<Rightarrow> 's \<Rightarrow> 's) \<Rightarrow> ('q \<Rightarrow> 's \<Rightarrow> 'd option \<times> 's) \<Rightarrow>
   ('q, 'd) queue_op \<Rightarrow> 's \<Rightarrow> 'd option \<times> 's" where
  "do_op enq headq remove deq (Enqueue q d) s = (None, enq q d s)"
| "do_op enq headq remove deq (Headqueue q d) s = (None, headq q d s)"
| "do_op enq headq remove deq (Dequeue q) s = deq q s"
| "do_op enq headq remove deq (Remove q d) s = (None, remove q d s)"

fun run_ops :: "('a \<Rightarrow> 's \<Rightarrow> 'r \<times> 's) \<Rightarrow> 'a list \<Rightarrow> 's \<Rightarrow> 'r list \<times> 's" where
  "run_ops exec [] s = ([], s)"
| "run_ops exec (a # as) s = (case exec a s of (r, s) \<Rightarrow> apfst ((#) r) (run_ops exec as s))"

locale queue_family =
  fixes rep :: "'s \<Rightarrow> ('q \<Rightarrow> 'd list) \<Rightarrow> bool"
    and enq headq remove :: "'q \<Rightarrow> 'd \<Rightarrow> 's \<Rightarrow> 's"
    and deq :: "'q \<Rightarrow> 's \<Rightarrow> 'd option \<times> 's"
  assumes rep_enq: "rep s f \<Longrightarrow> (\<And>p. d \<notin> set (f p)) \<Longrightarrow> rep (enq q d s) (f(q := f q @ [d]))"
    and rep_headq: "rep s f \<Longrightarrow> (\<And>p. d \<notin> set (f p)) \<Longrightarrow> rep (headq q d s) (f(q := d # f q))"
    and rep_deq_empty: "rep s f \<Longrightarrow> f q = [] \<Longrightarrow> deq q s = (None, s)"
    and rep_deq: "rep s f \<Longrightarrow> f q = d # ds \<Longrightarrow> fst (deq q s) = Some d \<and> rep (snd (deq q s)) (f(q := ds))"
    and rep_remove: "rep s f \<Longrightarrow> d \<in> set (f q) \<Longrightarrow> rep (remove q d s) (f(q := remove1 d (f q)))"
begin

lemma do_op_refines:
  "rep s f \<Longrightarrow> spec_op a f = Some (r, f') \<Longrightarrow>
     fst (do_op enq headq remove deq a s) = r \<and> rep (snd (do_op enq headq remove deq a s)) f'"
  by (cases a) (auto simp: rep_enq rep_headq rep_remove rep_deq_empty dest: rep_deq split: if_splits list.splits)

lemma run_refines:
  "rep s f \<Longrightarrow> spec_run as f = Some (rs, f') \<Longrightarrow>
     fst (run_ops (do_op enq headq remove deq) as s) = rs \<and> rep (snd (run_ops (do_op enq headq remove deq) as s)) f'"
proof (induction as arbitrary: s f rs)
  case (Cons a as)
  then obtain r f1 rs1 where a: "spec_op a f = Some (r, f1)" and as: "spec_run as f1 = Some (rs1, f')" and rs: "rs = r # rs1"
    by (auto split: option.splits)
  from do_op_refines [OF Cons.prems(1) a] Cons.IH [OF _ as] show ?case
    by (cases "do_op enq headq remove deq a s") (simp add: rs)
qed simp

end

section \<open>Links\<close>

record 'd links =
  prev_of :: "'d option"
  next_of :: "'d option"

record 'd disklist =
  l_head :: "'d option"
  l_tail :: "'d option"

text \<open>The links of all disks, and the queues by name.\<close>

record ('q, 'd) store =
  s_links :: "'d \<Rightarrow> 'd links"
  s_lists :: "'q \<Rightarrow> 'd disklist"

definition set_next :: "'d \<Rightarrow> 'd option \<Rightarrow> ('q, 'd) store \<Rightarrow> ('q, 'd) store" where
  "set_next d p s = s\<lparr>s_links := (s_links s)(d := (s_links s d)\<lparr>next_of := p\<rparr>)\<rparr>"

definition set_prev :: "'d \<Rightarrow> 'd option \<Rightarrow> ('q, 'd) store \<Rightarrow> ('q, 'd) store" where
  "set_prev d p s = s\<lparr>s_links := (s_links s)(d := (s_links s d)\<lparr>prev_of := p\<rparr>)\<rparr>"

definition set_head :: "'q \<Rightarrow> 'd option \<Rightarrow> ('q, 'd) store \<Rightarrow> ('q, 'd) store" where
  "set_head q p s = s\<lparr>s_lists := (s_lists s)(q := (s_lists s q)\<lparr>l_head := p\<rparr>)\<rparr>"

definition set_tail :: "'q \<Rightarrow> 'd option \<Rightarrow> ('q, 'd) store \<Rightarrow> ('q, 'd) store" where
  "set_tail q p s = s\<lparr>s_lists := (s_lists s)(q := (s_lists s q)\<lparr>l_tail := p\<rparr>)\<rparr>"

abbreviation "head_of s q \<equiv> l_head (s_lists s q)"
abbreviation "tail_of s q \<equiv> l_tail (s_lists s q)"
abbreviation "next_in s d \<equiv> next_of (s_links s d)"
abbreviation "prev_in s d \<equiv> prev_of (s_links s d)"

section \<open>Operations\<close>

definition enqueue_disk :: "'q \<Rightarrow> 'd \<Rightarrow> ('q, 'd) store \<Rightarrow> ('q, 'd) store" where
  "enqueue_disk list disk s =
     (let s = (case tail_of s list of None \<Rightarrow> set_head list (Some disk) s | Some t \<Rightarrow> set_next t (Some disk) s);
          s = set_prev disk (tail_of s list) s;
          s = set_tail list (Some disk) s in
      set_next disk None s)"

definition headqueue_disk :: "'q \<Rightarrow> 'd \<Rightarrow> ('q, 'd) store \<Rightarrow> ('q, 'd) store" where
  "headqueue_disk list disk s =
     (let s = (case head_of s list of None \<Rightarrow> set_tail list (Some disk) s | Some t \<Rightarrow> set_prev t (Some disk) s);
          s = set_next disk (head_of s list) s;
          s = set_head list (Some disk) s in
      set_prev disk None s)"

text \<open>The search loop of \<open>insert_disk\<close>; a queue whose links form a ring would keep it running.\<close>

partial_function (option) insert_place ::
  "('d \<Rightarrow> 'd \<Rightarrow> int) \<Rightarrow> ('q, 'd) store \<Rightarrow> 'd \<Rightarrow> 'd option \<Rightarrow> 'd option \<Rightarrow> ('d option \<times> 'd option) option" where
  "insert_place cmp s disk prev ptr =
     (case ptr of
        None \<Rightarrow> Some (prev, None)
      | Some p \<Rightarrow> if cmp disk p < 0 then Some (prev, Some p) else insert_place cmp s disk (Some p) (next_in s p))"

definition link_between :: "'q \<Rightarrow> 'd \<Rightarrow> 'd option \<Rightarrow> 'd option \<Rightarrow> ('q, 'd) store \<Rightarrow> ('q, 'd) store" where
  "link_between list disk prev ptr s =
     (let s = set_next disk ptr s;
          s = set_prev disk prev s;
          s = (case prev of None \<Rightarrow> set_head list (Some disk) s | Some p \<Rightarrow> set_next p (Some disk) s) in
      case ptr of None \<Rightarrow> set_tail list (Some disk) s | Some p \<Rightarrow> set_prev p (Some disk) s)"

definition insert_disk :: "('d \<Rightarrow> 'd \<Rightarrow> int) \<Rightarrow> 'q \<Rightarrow> 'd \<Rightarrow> ('q, 'd) store \<Rightarrow> ('q, 'd) store option" where
  "insert_disk cmp list disk s =
     map_option (\<lambda>(prev, ptr). link_between list disk prev ptr s) (insert_place cmp s disk None (head_of s list))"

text \<open>The loop of \<open>find_disk\<close>.\<close>

partial_function (option) find_from :: "('q, 'd) store \<Rightarrow> 'd \<Rightarrow> 'd option \<Rightarrow> bool option" where
  "find_from s disk t =
     (case t of None \<Rightarrow> Some False | Some d \<Rightarrow> if d = disk then Some True else find_from s disk (next_in s d))"

definition find_disk :: "'q \<Rightarrow> 'd \<Rightarrow> ('q, 'd) store \<Rightarrow> bool option" where
  "find_disk list disk s = find_from s disk (head_of s list)"

definition dequeue_disk :: "'q \<Rightarrow> ('q, 'd) store \<Rightarrow> 'd option \<times> ('q, 'd) store" where
  "dequeue_disk list s =
     (case head_of s list of
        None \<Rightarrow> (None, s)
      | Some disk \<Rightarrow>
          let s = set_head list (next_in s disk) s;
              s = (case head_of s list of None \<Rightarrow> set_tail list None s | Some t \<Rightarrow> set_prev t None s) in
          (Some disk, set_next disk None (set_prev disk None s)))"

definition remove_disk :: "'q \<Rightarrow> 'd \<Rightarrow> ('q, 'd) store \<Rightarrow> ('q, 'd) store" where
  "remove_disk list disk s =
     (let s = (case prev_in s disk of None \<Rightarrow> set_head list (next_in s disk) s | Some p \<Rightarrow> set_next p (next_in s disk) s);
          s = (case next_in s disk of None \<Rightarrow> set_tail list (prev_in s disk) s | Some p \<Rightarrow> set_prev p (prev_in s disk) s) in
      set_next disk None (set_prev disk None s))"

partial_function (option) sort_loop ::
  "('d \<Rightarrow> 'd \<Rightarrow> int) \<Rightarrow> 'q \<Rightarrow> 'q \<Rightarrow> ('q, 'd) store \<Rightarrow> ('q, 'd) store option" where
  "sort_loop cmp tmp out s =
     (case dequeue_disk tmp s of
        (None, s) \<Rightarrow> Some s
      | (Some disk, s) \<Rightarrow> Option.bind (insert_disk cmp out disk s) (sort_loop cmp tmp out))"

definition sort_disk :: "('d \<Rightarrow> 'd \<Rightarrow> int) \<Rightarrow> 'q \<Rightarrow> 'q \<Rightarrow> ('q, 'd) store \<Rightarrow> ('q, 'd) store option" where
  "sort_disk cmp inn out s = sort_loop cmp inn out (set_tail out None (set_head out None s))"

section \<open>Lists in the heap\<close>

lemmas store_defs = set_next_def set_prev_def set_head_def set_tail_def

definition first_or :: "'d list \<Rightarrow> 'd option \<Rightarrow> 'd option" where
  "first_or xs n = (case xs of [] \<Rightarrow> n | x # _ \<Rightarrow> Some x)"

definition last_or :: "'d list \<Rightarrow> 'd option \<Rightarrow> 'd option" where
  "last_or xs p = (if xs = [] then p else Some (last xs))"

lemma first_or_simps [simp]: "first_or [] n = n" "first_or (x # xs) n = Some x"
  by (simp_all add: first_or_def)

lemma last_or_simps [simp]: "last_or [] p = p" "last_or (x # xs) p = last_or xs (Some x)"
  by (simp_all add: last_or_def)

lemma last_or_append [simp]: "last_or (xs @ ys) p = last_or ys (last_or xs p)"
  by (simp add: last_or_def)

lemma first_or_append [simp]: "first_or (xs @ ys) n = first_or xs (first_or ys n)"
  by (cases xs) simp_all

text \<open>A segment: its first disk points back to \<open>p\<close>, its last one on to \<open>n\<close>.\<close>

fun seg :: "('d \<Rightarrow> 'd links) \<Rightarrow> 'd option \<Rightarrow> 'd list \<Rightarrow> 'd option \<Rightarrow> bool" where
  "seg h p [] n \<longleftrightarrow> True"
| "seg h p (x # xs) n \<longleftrightarrow> prev_of (h x) = p \<and> next_of (h x) = first_or xs n \<and> seg h (Some x) xs n"

lemma seg_append [simp]: "seg h p (xs @ ys) n \<longleftrightarrow> seg h p xs (first_or ys n) \<and> seg h (last_or xs p) ys n"
  by (induction xs arbitrary: p) auto

lemma seg_cong: "(\<And>x. x \<in> set xs \<Longrightarrow> h x = h' x) \<Longrightarrow> seg h p xs n = seg h' p xs n"
  by (induction xs arbitrary: p) auto

lemma seg_other [simp]: "d \<notin> set xs \<Longrightarrow> seg (h(d := v)) p xs n = seg h p xs n"
  by (rule seg_cong) auto

definition holds_list :: "('d \<Rightarrow> 'd links) \<Rightarrow> 'd disklist \<Rightarrow> 'd list \<Rightarrow> bool" where
  "holds_list h l xs \<longleftrightarrow>
     distinct xs \<and> l_head l = first_or xs None \<and> l_tail l = last_or xs None \<and> seg h None xs None"

definition represents :: "('q, 'd) store \<Rightarrow> ('q \<Rightarrow> 'd list) \<Rightarrow> bool" where
  "represents s f \<longleftrightarrow>
     (\<forall>q. holds_list (s_links s) (s_lists s q) (f q)) \<and> (\<forall>p q. p \<noteq> q \<longrightarrow> set (f p) \<inter> set (f q) = {})"

text \<open>An operation on queue \<open>q\<close> that changes no link of a disk on another queue is checked on \<open>q\<close> alone.\<close>

lemma represents_update:
  assumes "represents s f"
    and "\<And>p. p \<noteq> q \<Longrightarrow> s_lists s' p = s_lists s p"
    and "\<And>p x. p \<noteq> q \<Longrightarrow> x \<in> set (f p) \<Longrightarrow> s_links s' x = s_links s x"
    and "holds_list (s_links s') (s_lists s' q) xs"
    and "\<And>p. p \<noteq> q \<Longrightarrow> set (f p) \<inter> set xs = {}"
  shows "represents s' (f(q := xs))"
proof -
  have "holds_list (s_links s') (s_lists s' p) (f p)" if "p \<noteq> q" for p
    using assms(1,2,3) that seg_cong [of "f p" "s_links s'" "s_links s"]
    by (simp add: represents_def holds_list_def)
  then show ?thesis
    using assms(1,4,5) unfolding represents_def by (metis fun_upd_apply inf_commute)
qed

lemma represents_lists: "represents s f \<Longrightarrow> holds_list (s_links s) (s_lists s q) (f q)"
  by (simp add: represents_def)

lemma represents_apart: "represents s f \<Longrightarrow> x \<in> set (f q) \<Longrightarrow> p \<noteq> q \<Longrightarrow> x \<notin> set (f p)"
  by (auto simp: represents_def)

text \<open>Cutting a queue open at one disk.\<close>

lemma holds_split:
  assumes "holds_list h l xs" and "d \<in> set xs"
  obtains ys zs where "xs = ys @ d # zs" "remove1 d xs = ys @ zs"
    "prev_of (h d) = last_or ys None" "next_of (h d) = first_or zs None"
    "seg h None ys (Some d)" "seg h (Some d) zs None" "distinct (ys @ d # zs)"
    "l_head l = first_or ys (Some d)" "l_tail l = last_or zs (Some d)"
proof -
  from split_list_first [OF assms(2)] obtain ys zs where xs: "xs = ys @ d # zs" and "d \<notin> set ys" by blast
  moreover from this have "remove1 d xs = ys @ zs" by (simp add: remove1_append)
  ultimately show ?thesis using assms(1) that by (auto simp: holds_list_def last_or_def split: if_splits)
qed

lemma last_or_Some: "last_or xs p = Some t \<Longrightarrow> xs \<noteq> [] \<Longrightarrow> \<exists>ys. xs = ys @ [t]"
  by (cases xs rule: rev_cases) auto

lemma rev_cases_or: obtains (empty) "xs = []" | (snoc) ys y where "xs = ys @ [y]" by (cases xs rule: rev_cases) auto

lemma enqueue_represents:
  assumes rep: "represents s f" and d: "\<And>p. d \<notin> set (f p)"
  shows "represents (enqueue_disk q d s) (f(q := f q @ [d]))"
proof (rule represents_update [OF rep])
  have q: "holds_list (s_links s) (s_lists s q) (f q)" by (rule represents_lists [OF rep])
  show "holds_list (s_links (enqueue_disk q d s)) (s_lists (enqueue_disk q d s) q) (f q @ [d])"
    using q d [of q] by (cases "f q" rule: rev_cases_or) (auto simp: holds_list_def enqueue_disk_def Let_def store_defs)
  show "set (f p) \<inter> set (f q @ [d]) = {}" if "p \<noteq> q" for p using rep d [of p] that by (auto simp: represents_def)
  show "s_lists (enqueue_disk q d s) p = s_lists s p" if "p \<noteq> q" for p
    using that by (auto simp: enqueue_disk_def Let_def store_defs split: option.splits)
  show "s_links (enqueue_disk q d s) x = s_links s x" if "p \<noteq> q" "x \<in> set (f p)" for p x
  proof -
    have "x \<notin> set (f q)" "x \<noteq> d" using represents_apart [OF rep that(2), of q] that d [of p] by auto
    then show ?thesis using q unfolding holds_list_def
      by (cases "f q" rule: rev_cases_or) (auto simp: enqueue_disk_def Let_def store_defs)
  qed
qed

lemma headqueue_represents:
  assumes rep: "represents s f" and d: "\<And>p. d \<notin> set (f p)"
  shows "represents (headqueue_disk q d s) (f(q := d # f q))"
proof (rule represents_update [OF rep])
  have q: "holds_list (s_links s) (s_lists s q) (f q)" by (rule represents_lists [OF rep])
  show "holds_list (s_links (headqueue_disk q d s)) (s_lists (headqueue_disk q d s) q) (d # f q)"
    using q d [of q] by (cases "f q") (auto simp: holds_list_def headqueue_disk_def Let_def store_defs)
  show "set (f p) \<inter> set (d # f q) = {}" if "p \<noteq> q" for p using rep d [of p] that by (auto simp: represents_def)
  show "s_lists (headqueue_disk q d s) p = s_lists s p" if "p \<noteq> q" for p
    using that by (auto simp: headqueue_disk_def Let_def store_defs split: option.splits)
  show "s_links (headqueue_disk q d s) x = s_links s x" if "p \<noteq> q" "x \<in> set (f p)" for p x
  proof -
    have "x \<notin> set (f q)" "x \<noteq> d" using represents_apart [OF rep that(2), of q] that d [of p] by auto
    then show ?thesis using q unfolding holds_list_def
      by (cases "f q") (auto simp: headqueue_disk_def Let_def store_defs)
  qed
qed

lemma dequeue_represents:
  assumes rep: "represents s f" and fq: "f q = d # ds"
  shows "fst (dequeue_disk q s) = Some d \<and> represents (snd (dequeue_disk q s)) (f(q := ds))"
proof
  have q: "holds_list (s_links s) (s_lists s q) (d # ds)" using represents_lists [OF rep, of q] fq by simp
  then have hd: "head_of s q = Some d" "next_in s d = first_or ds None" by (simp_all add: holds_list_def)
  then show "fst (dequeue_disk q s) = Some d" by (simp add: dequeue_disk_def Let_def)
  show "represents (snd (dequeue_disk q s)) (f(q := ds))"
  proof (rule represents_update [OF rep])
    show "holds_list (s_links (snd (dequeue_disk q s))) (s_lists (snd (dequeue_disk q s)) q) ds"
      using q hd by (cases ds) (auto simp: holds_list_def dequeue_disk_def Let_def store_defs)
    show "set (f p) \<inter> set ds = {}" if "p \<noteq> q" for p using rep that fq unfolding represents_def by (metis inf_commute list.set_intros(2) disjoint_iff)
    show "s_lists (snd (dequeue_disk q s)) p = s_lists s p" if "p \<noteq> q" for p
      using that hd by (cases ds) (auto simp: dequeue_disk_def Let_def store_defs)
    show "s_links (snd (dequeue_disk q s)) x = s_links s x" if "p \<noteq> q" "x \<in> set (f p)" for p x
    proof -
      have "x \<notin> set (f q)" using represents_apart [OF rep that(2), of q] that(1) by blast
      then show ?thesis using hd fq by (cases ds) (auto simp: dequeue_disk_def Let_def store_defs)
    qed
  qed
qed

lemma dequeue_represents_empty:
  assumes "represents s f" and "f q = []"
  shows "dequeue_disk q s = (None, s)"
  using represents_lists [OF assms(1), of q] assms(2) by (simp add: holds_list_def dequeue_disk_def)

lemma remove_represents:
  assumes rep: "represents s f" and d: "d \<in> set (f q)"
  shows "represents (remove_disk q d s) (f(q := remove1 d (f q)))"
proof -
  from holds_split [OF represents_lists [OF rep] d] obtain ys zs where
    fq: "f q = ys @ d # zs" and r: "remove1 d (f q) = ys @ zs"
    and link: "prev_in s d = last_or ys None" "next_in s d = first_or zs None"
    and segs: "seg (s_links s) None ys (Some d)" "seg (s_links s) (Some d) zs None" "distinct (ys @ d # zs)"
    and ends: "head_of s q = first_or ys (Some d)" "tail_of s q = last_or zs (Some d)" .
  show ?thesis unfolding r
  proof (rule represents_update [OF rep])
    show "holds_list (s_links (remove_disk q d s)) (s_lists (remove_disk q d s) q) (ys @ zs)"
      using link segs ends
      by (cases ys rule: rev_cases_or; cases zs) (auto simp: holds_list_def remove_disk_def Let_def store_defs)
    show "set (f p) \<inter> set (ys @ zs) = {}" if "p \<noteq> q" for p
      using represents_apart [OF rep, of _ p q] that fq by auto
    show "s_lists (remove_disk q d s) p = s_lists s p" if "p \<noteq> q" for p
      using that by (auto simp: remove_disk_def Let_def store_defs split: option.splits)
    show "s_links (remove_disk q d s) x = s_links s x" if "p \<noteq> q" "x \<in> set (f p)" for p x
    proof -
      have "x \<notin> set (f q)" using represents_apart [OF rep that(2), of q] that(1) by blast
      then show ?thesis using link fq
        by (cases ys rule: rev_cases_or; cases zs) (auto simp: remove_disk_def Let_def store_defs)
    qed
  qed
qed

lemma link_between_represents:
  assumes rep: "represents s f" and fq: "f q = ys @ zs" and d: "\<And>p. d \<notin> set (f p)"
  shows "represents (link_between q d (last_or ys None) (first_or zs None) s) (f(q := ys @ d # zs))" (is "represents ?s _")
proof (rule represents_update [OF rep])
  have q: "holds_list (s_links s) (s_lists s q) (ys @ zs)" using represents_lists [OF rep, of q] fq by simp
  have dq: "d \<notin> set ys" "d \<notin> set zs" using d [of q] fq by auto
  show "holds_list (s_links ?s) (s_lists ?s q) (ys @ d # zs)"
    using q dq by (cases ys rule: rev_cases_or; cases zs) (auto simp: holds_list_def link_between_def Let_def store_defs)
  show "set (f p) \<inter> set (ys @ d # zs) = {}" if "p \<noteq> q" for p
    using represents_apart [OF rep, of _ p q] that fq d [of p] by auto
  show "s_lists ?s p = s_lists s p" if "p \<noteq> q" for p
    using that by (auto simp: link_between_def Let_def store_defs split: option.splits)
  show "s_links ?s x = s_links s x" if "p \<noteq> q" "x \<in> set (f p)" for p x
  proof -
    have "x \<notin> set (f q)" "x \<noteq> d" using represents_apart [OF rep that(2), of q] that d [of p] by auto
    then show ?thesis using fq
      by (cases ys rule: rev_cases_or; cases zs) (auto simp: link_between_def Let_def store_defs)
  qed
qed

interpretation queues: queue_family represents enqueue_disk headqueue_disk remove_disk dequeue_disk
  by unfold_locales
    (rule enqueue_represents headqueue_represents dequeue_represents_empty dequeue_represents remove_represents; assumption)+

section \<open>Searching and sorting\<close>

definition place :: "('d \<Rightarrow> 'd \<Rightarrow> int) \<Rightarrow> 'd \<Rightarrow> 'd list \<Rightarrow> 'd list" where
  "place cmp d xs = takeWhile (\<lambda>y. \<not> cmp d y < 0) xs @ d # dropWhile (\<lambda>y. \<not> cmp d y < 0) xs"

lemma insert_place_seg:
  "seg (s_links s) p xs None \<Longrightarrow>
     insert_place cmp s d p (first_or xs None) =
       Some (last_or (takeWhile (\<lambda>y. \<not> cmp d y < 0) xs) p, first_or (dropWhile (\<lambda>y. \<not> cmp d y < 0) xs) None)"
proof (induction xs arbitrary: p)
  case (Cons x xs)
  then show ?case by (subst insert_place.simps) simp
qed (simp add: insert_place.simps)

lemma insert_represents:
  assumes rep: "represents s f" and d: "\<And>p. d \<notin> set (f p)"
  shows "\<exists>s'. insert_disk cmp q d s = Some s' \<and> represents s' (f(q := place cmp d (f q)))"
proof -
  let ?ys = "takeWhile (\<lambda>y. \<not> cmp d y < 0) (f q)" and ?zs = "dropWhile (\<lambda>y. \<not> cmp d y < 0) (f q)"
  have "seg (s_links s) None (f q) None" "head_of s q = first_or (f q) None"
    using represents_lists [OF rep, of q] by (simp_all add: holds_list_def)
  then have "insert_disk cmp q d s = Some (link_between q d (last_or ?ys None) (first_or ?zs None) s)"
    by (simp add: insert_disk_def insert_place_seg)
  then show ?thesis
    using link_between_represents [OF rep _ d, of q ?ys ?zs] by (simp add: place_def)
qed

lemma find_from_seg: "seg (s_links s) p xs None \<Longrightarrow> find_from s d (first_or xs None) = Some (d \<in> set xs)"
  by (induction xs arbitrary: p) (auto simp: find_from.simps)

lemma find_disk_represents: "represents s f \<Longrightarrow> find_disk q d s = Some (d \<in> set (f q))"
  using represents_lists [of s f q] by (auto simp: find_disk_def holds_list_def intro: find_from_seg)

lemma set_place [simp]: "set (place cmp d xs) = insert d (set xs)"
proof -
  have "set (takeWhile P xs) \<union> set (dropWhile P xs) = set xs" for P
    by (simp flip: set_append)
  then show ?thesis by (simp add: place_def)
qed

lemma sort_loop_represents:
  assumes "represents s f" and "p \<noteq> q" and "f p = xs"
  shows "\<exists>s'. sort_loop cmp p q s = Some s' \<and> represents s' (f(p := [], q := fold (place cmp) xs (f q)))"
  using assms
proof (induction xs arbitrary: s f)
  case Nil
  then have "f(p := [], q := f q) = f" by auto
  with Nil show ?case by (subst sort_loop.simps) (simp add: dequeue_represents_empty)
next
  case (Cons x xs)
  from dequeue_represents [OF Cons.prems(1,3)] obtain s1 where
    s1: "dequeue_disk p s = (Some x, s1)" and rep1: "represents s1 (f(p := xs))" by (cases "dequeue_disk p s") auto
  have "x \<notin> set xs" using represents_lists [OF Cons.prems(1), of p] Cons.prems(3) by (simp add: holds_list_def)
  then have fresh: "x \<notin> set ((f(p := xs)) r)" for r
    using represents_apart [OF Cons.prems(1), of x p r] Cons.prems(3) by auto
  have "(f(p := xs)) q = f q" using Cons.prems(2) by simp
  with insert_represents [OF rep1 fresh, of cmp q] obtain s2 where
    s2: "insert_disk cmp q x s1 = Some s2" and rep2: "represents s2 ((f(p := xs))(q := place cmp x (f q)))"
    by metis
  let ?g = "(f(p := xs))(q := place cmp x (f q))"
  have g: "?g p = xs" "?g q = place cmp x (f q)" using Cons.prems(2) by simp_all
  have "?g(p := [], q := fold (place cmp) xs (?g q)) = f(p := [], q := fold (place cmp) (x # xs) (f q))"
    using Cons.prems(2) by (intro ext) simp
  with Cons.IH [OF rep2 Cons.prems(2) g(1)] show ?case
    by (subst sort_loop.simps) (simp only: s1 s2 prod.case option.case Option.bind.bind_lunit)
qed

lemma mset_place [simp]: "mset (place cmp d xs) = add_mset d (mset xs)"
proof -
  have "mset (takeWhile P xs) + mset (dropWhile P xs) = mset xs" for P
    by (simp flip: mset_append)
  then show ?thesis by (simp add: place_def)
qed

text \<open>A comparison that orders by a key. A disk goes behind the disks with its own key.\<close>

lemma place_sorted:
  assumes "\<And>a b. cmp a b < 0 \<longleftrightarrow> key a < (key b :: 'k :: linorder)"
  shows "sorted (map key xs) \<Longrightarrow> sorted (map key (place cmp d xs))"
proof (induction xs)
  case (Cons x xs)
  show ?case
  proof (cases "key d < key x")
    case True
    then have "place cmp d (x # xs) = d # x # xs" by (simp add: place_def assms)
    then show ?thesis using Cons.prems True by auto
  next
    case False
    then have p: "place cmp d (x # xs) = x # place cmp d xs" by (simp add: place_def assms)
    then show ?thesis using Cons False by auto
  qed
qed (simp add: place_def)

lemma place_stable:
  assumes "\<And>a b. cmp a b < 0 \<longleftrightarrow> key a < (key b :: 'k :: linorder)"
  shows "sorted (map key xs) \<Longrightarrow>
     filter (\<lambda>y. key y = k) (place cmp d xs) = filter (\<lambda>y. key y = k) xs @ (if key d = k then [d] else [])"
proof (induction xs)
  case (Cons x xs)
  show ?case
  proof (cases "key d < key x")
    case True
    then have p: "place cmp d (x # xs) = d # x # xs" by (simp add: place_def assms)
    have "filter (\<lambda>y. key y = key d) (x # xs) = []" using True Cons.prems by (auto simp: filter_empty_conv)
    then show ?thesis using p True by (cases "key d = k") auto
  next
    case False
    then have p: "place cmp d (x # xs) = x # place cmp d xs" by (simp add: place_def assms)
    then show ?thesis using Cons by simp
  qed
qed (simp add: place_def)

lemma fold_place:
  assumes cmp: "\<And>a b. cmp a b < 0 \<longleftrightarrow> key a < (key b :: 'k :: linorder)"
  shows "fold (place cmp) xs [] = sort_key key xs"
proof -
  have "sorted (map key (fold (place cmp) xs ys)) \<and>
      filter (\<lambda>y. key y = k) (fold (place cmp) xs ys) = filter (\<lambda>y. key y = k) ys @ filter (\<lambda>y. key y = k) xs \<and>
      mset (fold (place cmp) xs ys) = mset xs + mset ys"
    if "sorted (map key ys)" for k ys
    using that
  proof (induction xs arbitrary: ys)
    case (Cons x xs)
    from Cons.IH [OF place_sorted [of cmp key, OF cmp Cons.prems]] show ?case
      using place_stable [of cmp key, OF cmp Cons.prems] by simp
  qed simp
  from this [of "[]"] show ?thesis
    by (intro properties_for_sort_key [symmetric]) (auto simp: eq_commute)
qed

section \<open>The properties\<close>

text \<open>C21: the linked queues implement lists: any sequence of enqueuing, putting at the head, dequeuing and removing
  that the callers may make (a disk put on a queue is on none, a disk removed is on that queue) gives the
  answers the lists give and leaves links that represent the resulting lists, and looking for a disk finds
  exactly the ones on the queue.\<close>

theorem disk_queues_are_lists:
  assumes "represents s f" and "spec_run as f = Some (rs, f')"
  shows "\<exists>s'. run_ops (do_op enqueue_disk headqueue_disk remove_disk dequeue_disk) as s = (rs, s') \<and> represents s' f' \<and>
     (\<forall>q d. find_disk q d s' = Some (d \<in> set (f' q)))"
  using queues.run_refines [OF assms] by (intro exI [of _ "snd _"]) (auto simp: find_disk_represents prod_eq_iff)

definition no_disks :: "(nat, nat) store" where
  "no_disks = \<lparr>s_links = \<lambda>_. \<lparr>prev_of = None, next_of = None\<rparr>, s_lists = \<lambda>_. \<lparr>l_head = None, l_tail = None\<rparr>\<rparr>"

lemma no_disks_represents: "represents no_disks (\<lambda>_. [])"
  by (simp add: represents_def no_disks_def holds_list_def)

theorem disk_queues_are_lists_witness:
  "fst (run_ops (do_op enqueue_disk headqueue_disk remove_disk dequeue_disk)
     [Enqueue 0 7, Headqueue 0 8, Enqueue 1 9, Dequeue 0, Remove 0 7, Dequeue 0] no_disks) =
   [None, None, None, Some 8, None, None]"
proof -
  have "spec_run [Enqueue 0 7, Headqueue 0 8, Enqueue 1 9, Dequeue 0, Remove 0 7, Dequeue 0] (\<lambda>_ :: nat. []) =
      Some ([None, None, None, Some (8 :: nat), None, None], (\<lambda>_. [])(0 := [7], 0 := [8, 7], 1 := [9], 0 := [7], 0 := []))"
    by simp
  from disk_queues_are_lists [OF no_disks_represents this] show ?thesis by (elim exE conjE) (simp only: fst_conv)
qed

text \<open>Sorting one queue into another, with a comparison that orders by a key, ends, empties the first queue and
  leaves the second with its disks in the order of the keys, disks of equal keys in the order they had.\<close>

theorem sort_disk_stable:
  assumes "represents s f" and "p \<noteq> q" and "f q = []" and "\<And>a b. cmp a b < 0 \<longleftrightarrow> key a < (key b :: int)"
  shows "\<exists>s'. sort_disk cmp p q s = Some s' \<and> represents s' (f(p := [], q := sort_key key (f p)))"
proof -
  have e: "s_lists s q = \<lparr>l_head = None, l_tail = None\<rparr>"
    using represents_lists [OF assms(1), of q] assms(3) by (simp add: holds_list_def)
  then have "(s_lists s)(q := \<lparr>l_head = None, l_tail = None\<rparr>) = s_lists s" by (simp add: fun_upd_idem)
  then have "set_tail q None (set_head q None s) = s" by (simp add: store_defs e)
  with sort_loop_represents [OF assms(1,2) refl, of cmp] show ?thesis
    by (simp add: sort_disk_def assms(3) fold_place [of cmp key, OF assms(4)])
qed

theorem sort_disk_stable_witness:
  "\<exists>s'. sort_disk (\<lambda>a b. (a mod 2 :: int) - b mod 2) (0 :: nat) 1
     (snd (run_ops (do_op enqueue_disk headqueue_disk remove_disk dequeue_disk) [Enqueue 0 5, Enqueue 0 4, Enqueue 0 3]
        \<lparr>s_links = \<lambda>_. \<lparr>prev_of = None, next_of = None\<rparr>, s_lists = \<lambda>_. \<lparr>l_head = None, l_tail = None\<rparr>\<rparr>)) = Some s' \<and>
     represents s' ((\<lambda>_. [])(1 := [4, 5, 3]))"
proof -
  let ?s = "\<lparr>s_links = \<lambda>_ :: int. \<lparr>prev_of = None, next_of = None\<rparr>, s_lists = \<lambda>_ :: nat. \<lparr>l_head = None, l_tail = None\<rparr>\<rparr>"
  let ?as = "[Enqueue 0 5, Enqueue 0 4, Enqueue 0 3]"
  have "represents ?s (\<lambda>_. [])" by (simp add: represents_def holds_list_def)
  from queues.run_refines [OF this, of ?as]
  have "represents (snd (run_ops (do_op enqueue_disk headqueue_disk remove_disk dequeue_disk) ?as ?s)) ((\<lambda>_. [])(0 := [5, 4, 3]))"
    by simp
  moreover have "(\<lambda>_ :: nat. [])(0 := [5, 4, 3], 0 := [], 1 := [4, 5, 3 :: int]) = (\<lambda>_. [])(1 := [4, 5, 3])" by auto
  ultimately show ?thesis
    using sort_disk_stable [of _ "(\<lambda>_ :: nat. [])(0 := [5, 4, 3])" 0 1 "\<lambda>a b. a mod 2 - b mod 2" "\<lambda>a. a mod 2"]
    by (simp del: One_nat_def)
qed

text \<open>Sorting a queue into itself loses it: the head that the loop would take from is the one just cleared.\<close>

lemma sort_disk_in_place: "sort_disk cmp q q s = Some (set_tail q None (set_head q None s))"
  by (simp add: sort_disk_def sort_loop.simps dequeue_disk_def store_defs)

end
