(* ===== verification/Ledger.thy ===== *)
theory Ledger
  imports Disklist
begin

text \<open>
  The books of the driver, as an abstract state: which disks are being dumped, by which dumper, on which taper,
  what they take of their host and interface, and where the others wait. The invariant of the books is
  stated here, with the four transactions the handlers make: a dump starts, a dump ends, a dump goes to
  a taper, a taper gives it back.
\<close>

section \<open>The ledger\<close>

datatype queue_name = Waitq | Runq | Directq | Tapeq | Roomq

record ledger =
  l_run :: "nat \<Rightarrow> bool"              \<comment> \<open>disks: in progress\<close>
  l_kps :: "nat \<Rightarrow> nat"
  l_host :: "nat \<Rightarrow> nat"
  l_spindle :: "nat \<Rightarrow> int"
  l_dumper :: "nat \<Rightarrow> nat option"
  l_taper :: "nat \<Rightarrow> nat option"
  l_count :: "nat \<Rightarrow> int"             \<comment> \<open>hosts: dumps in progress\<close>
  l_max :: "nat \<Rightarrow> int"
  l_netif :: "nat \<Rightarrow> nat"
  l_disks :: "nat \<Rightarrow> nat list"
  l_cur :: "nat \<Rightarrow> nat"               \<comment> \<open>interfaces\<close>
  l_link :: "nat option list"          \<comment> \<open>dumpers: their disk\<close>
  l_taken :: "bool list"               \<comment> \<open>busy or down\<close>
  l_chunk :: "bool list"
  l_pending :: "bool list"             \<comment> \<open>the chunker has not given its result\<close>
  l_tape :: "(nat option \<times> nat option) list"  \<comment> \<open>tapers: their disk and dumper\<close>
  l_queue :: "queue_name \<Rightarrow> nat list"

text \<open>The disks that wait for a dumper or a taper.\<close>

definition waiting :: "(queue_name \<Rightarrow> nat list) \<Rightarrow> nat list" where
  "waiting q = q Runq @ q Directq @ q Tapeq"

definition running :: "ledger \<Rightarrow> nat set" where
  "running L = {dp. l_run L dp}"

definition kps_ok :: "ledger \<Rightarrow> bool" where
  "kps_ok L \<longleftrightarrow> (\<forall>n. l_cur L n = (\<Sum>dp \<in> {dp \<in> running L. l_netif L (l_host L dp) = n}. l_kps L dp))"

definition count_ok :: "ledger \<Rightarrow> bool" where
  "count_ok L \<longleftrightarrow> (\<forall>h. l_count L h = int (card {dp \<in> running L. l_host L dp = h}) \<and>
     int (card {dp \<in> running L. l_host L dp = h}) \<le> max 0 (l_max L h))"

definition link_ok :: "ledger \<Rightarrow> bool" where
  "link_ok L \<longleftrightarrow> length (l_taken L) = length (l_link L) \<and> length (l_chunk L) = length (l_link L) \<and>
     length (l_pending L) = length (l_link L) \<and>
     (\<forall>dp \<in> running L. \<exists>i < length (l_link L). l_dumper L dp = Some i \<and> l_link L ! i = Some dp \<and> l_taken L ! i)"

definition spindle_ok :: "ledger \<Rightarrow> bool" where
  "spindle_ok L \<longleftrightarrow>
     (\<forall>dp \<in> running L. \<forall>e \<in> running L. l_host L dp = l_host L e \<and> l_spindle L dp = l_spindle L e \<and> l_spindle L dp \<noteq> - 1 \<longrightarrow> dp = e)"

definition place_ok :: "ledger \<Rightarrow> bool" where
  "place_ok L \<longleftrightarrow> distinct (waiting (l_queue L)) \<and> (\<forall>dp \<in> set (waiting (l_queue L)). \<not> l_run L dp) \<and>
     (\<forall>dp. l_run L dp \<or> dp \<in> set (waiting (l_queue L)) \<or> (\<exists>j. (Some dp, j) \<in> set (l_tape L)) \<longrightarrow> dp \<in> set (l_disks L (l_host L dp)))"

definition room_ok :: "ledger \<Rightarrow> bool" where
  "room_ok L \<longleftrightarrow> (\<forall>dp \<in> set (l_queue L Roomq). l_run L dp \<and>
     (\<exists>i < length (l_link L). l_dumper L dp = Some i \<and> l_chunk L ! i \<and> l_pending L ! i))"

definition tape_ok :: "ledger \<Rightarrow> bool" where
  "tape_ok L \<longleftrightarrow> (\<forall>ti < length (l_tape L). \<forall>dp. fst (l_tape L ! ti) = Some dp \<longrightarrow> l_taper L dp = Some ti \<and>
     (case snd (l_tape L ! ti) of
        None \<Rightarrow> \<not> l_run L dp \<and> dp \<notin> set (waiting (l_queue L))
      | Some j \<Rightarrow> l_run L dp \<and> l_dumper L dp = Some j \<and> j < length (l_chunk L) \<and> \<not> l_chunk L ! j))"

definition books_ok :: "ledger \<Rightarrow> bool" where
  "books_ok L \<longleftrightarrow> finite (running L) \<and> kps_ok L \<and> count_ok L \<and> link_ok L \<and> spindle_ok L \<and> place_ok L \<and> room_ok L \<and> tape_ok L"

lemmas books_defs = kps_ok_def count_ok_def link_ok_def spindle_ok_def place_ok_def room_ok_def tape_ok_def

section \<open>Transactions\<close>

lemma distinct_submset:
  assumes "mset xs \<subseteq># mset ys" and "distinct ys"
  shows "distinct xs"
proof -
  have "count (mset xs) a = (if a \<in> set xs then 1 else 0)" for a
  proof -
    have "count (mset xs) a \<le> count (mset ys) a" using assms(1) by (rule mset_subset_eq_count)
    also have "\<dots> \<le> 1" using assms(2) unfolding distinct_count_atmost_1 by simp
    finally have "count (mset xs) a \<le> 1" .
    show ?thesis
    proof (cases "a \<in> set xs")
      case True
      then have "0 < count (mset xs) a" by (simp only: count_greater_zero_iff set_mset_mset)
      with \<open>count (mset xs) a \<le> 1\<close> have "count (mset xs) a = 1" by linarith
      then show ?thesis using True by simp
    qed (simp add: count_eq_zero_iff)
  qed
  then show ?thesis by (simp add: distinct_count_atmost_1)
qed

lemma submset_set: "mset xs \<subseteq># mset ys \<Longrightarrow> x \<in> set xs \<Longrightarrow> x \<in> set ys"
  by (metis mset_subset_eqD set_mset_mset)

text \<open>What most operations keep.\<close>

definition calm :: "ledger \<Rightarrow> ledger \<Rightarrow> bool" where
  "calm L L' \<longleftrightarrow> l_run L' = l_run L \<and> l_host L' = l_host L \<and> l_spindle L' = l_spindle L \<and> l_dumper L' = l_dumper L \<and>
     l_count L' = l_count L \<and> l_max L' = l_max L \<and> l_netif L' = l_netif L \<and> l_disks L' = l_disks L \<and> l_cur L' = l_cur L \<and>
     l_link L' = l_link L \<and> l_taken L' = l_taken L \<and> l_chunk L' = l_chunk L \<and> l_pending L' = l_pending L \<and>
     (\<forall>dp. l_run L dp \<longrightarrow> l_kps L' dp = l_kps L dp)"

lemma calm_refl [simp]: "calm L L"
  by (simp add: calm_def)

lemma calm_trans [trans]: "calm L L1 \<Longrightarrow> calm L1 L2 \<Longrightarrow> calm L L2"
  by (simp add: calm_def)

lemma calm_kps:
  assumes "calm L L'" and "kps_ok L" shows "kps_ok L'"
proof -
  have "(\<Sum>dp \<in> {dp \<in> running L'. l_netif L' (l_host L' dp) = n}. l_kps L' dp) =
      (\<Sum>dp \<in> {dp \<in> running L. l_netif L (l_host L dp) = n}. l_kps L dp)" for n
    using assms(1) by (intro sum.cong) (auto simp: calm_def running_def)
  then show ?thesis using assms by (simp add: kps_ok_def calm_def)
qed

lemma calm_running: "calm L L' \<Longrightarrow> running L' = running L"
  by (simp add: running_def calm_def)

lemma calm_counts: "calm L L' \<Longrightarrow> count_ok L \<Longrightarrow> count_ok L'"
  using calm_running [of L L'] by (simp add: count_ok_def calm_def)

lemma calm_links: "calm L L' \<Longrightarrow> link_ok L \<Longrightarrow> link_ok L'"
  using calm_running [of L L'] by (simp add: link_ok_def calm_def)

lemma calm_spindles: "calm L L' \<Longrightarrow> spindle_ok L \<Longrightarrow> spindle_ok L'"
  using calm_running [of L L'] by (simp add: spindle_ok_def calm_def)

lemma place_shrinks:
  assumes "place_ok L" and "calm L L'" and "mset (waiting (l_queue L')) \<subseteq># mset (waiting (l_queue L))" and "l_tape L' = l_tape L"
  shows "place_ok L'"
  using assms(1,2,4) distinct_submset [OF assms(3)] submset_set [OF assms(3)] unfolding place_ok_def calm_def by metis

text \<open>Queues shrink, nothing else changes.\<close>

lemma books_calm:
  assumes ok: "books_ok L" and c: "calm L L'"
    and q: "mset (waiting (l_queue L')) \<subseteq># mset (waiting (l_queue L))" "set (l_queue L' Roomq) \<subseteq> set (l_queue L Roomq)"
    and t: "l_tape L' = l_tape L" "l_taper L' = l_taper L"
  shows "books_ok L'"
proof -
  have "room_ok L'" using ok c q(2) unfolding books_ok_def room_ok_def calm_def by (metis subsetD)
  moreover have "tape_ok L'"
    using ok c t submset_set [OF q(1)] unfolding books_ok_def tape_ok_def calm_def by (auto split: option.splits)
  moreover have "place_ok L'" using ok by (intro place_shrinks [OF _ c q(1) t(1)]) (simp add: books_ok_def)
  ultimately show ?thesis
    using ok calm_kps [OF c] calm_counts [OF c] calm_links [OF c] calm_spindles [OF c] calm_running [OF c]
    by (simp add: books_ok_def)
qed

text \<open>A dump starts on dumper \<open>i\<close>.\<close>

lemma sum_insert_running:
  assumes "finite (running L)" and "\<not> l_run L dp" and "l_run L' = (l_run L)(dp := True)"
  shows "{e \<in> running L'. P e} = (if P dp then insert dp {e \<in> running L. P e} else {e \<in> running L. P e})"
    and "dp \<notin> {e \<in> running L. P e}" and "finite {e \<in> running L. P e}"
  using assms by (auto simp: running_def)

lemma sum_remove_running:
  assumes "l_run L dp" and "l_run L' = (l_run L)(dp := False)"
  shows "{e \<in> running L. P e} = (if P dp then insert dp {e \<in> running L'. P e} else {e \<in> running L'. P e})"
    and "dp \<notin> {e \<in> running L'. P e}"
  using assms by (auto simp: running_def)

definition dump_starts :: "ledger \<Rightarrow> nat \<Rightarrow> nat \<Rightarrow> ledger \<Rightarrow> bool" where
  "dump_starts L dp i L' \<longleftrightarrow>
     dp \<in> set (waiting (l_queue L)) \<and> i < length (l_link L) \<and> \<not> l_taken L ! i \<and>
     l_count L (l_host L dp) < l_max L (l_host L dp) \<and>
     (l_spindle L dp = - 1 \<or> (\<forall>e \<in> set (l_disks L (l_host L dp)). l_run L e \<longrightarrow> l_spindle L e \<noteq> l_spindle L dp)) \<and>
     l_kps L' = l_kps L \<and> l_host L' = l_host L \<and> l_spindle L' = l_spindle L \<and> l_max L' = l_max L \<and>
     l_netif L' = l_netif L \<and> l_disks L' = l_disks L \<and>
     l_run L' = (l_run L)(dp := True) \<and> l_dumper L' = (l_dumper L)(dp := Some i) \<and>
     l_count L' = (l_count L)(l_host L dp := l_count L (l_host L dp) + 1) \<and>
     l_cur L' = (l_cur L)(l_netif L (l_host L dp) := l_cur L (l_netif L (l_host L dp)) + l_kps L dp) \<and>
     l_link L' = (l_link L)[i := Some dp] \<and> l_taken L' = (l_taken L)[i := True] \<and>
     mset (waiting (l_queue L')) = mset (waiting (l_queue L)) - {#dp#} \<and> l_queue L' Roomq = l_queue L Roomq"

lemma books_parts:
  assumes "books_ok L"
  shows "finite (running L)" "kps_ok L" "count_ok L" "link_ok L" "spindle_ok L" "place_ok L" "room_ok L" "tape_ok L"
  using assms by (simp_all add: books_ok_def)

lemma waiting_idle: "books_ok L \<Longrightarrow> dp \<in> set (waiting (l_queue L)) \<Longrightarrow> \<not> l_run L dp"
  by (simp add: books_ok_def place_ok_def)

lemma running_known: "books_ok L \<Longrightarrow> l_run L e \<Longrightarrow> e \<in> set (l_disks L (l_host L e))"
  by (simp add: books_ok_def place_ok_def)

lemma taken_link: "books_ok L \<Longrightarrow> l_run L e \<Longrightarrow> \<not> l_taken L ! i \<Longrightarrow> l_dumper L e \<noteq> Some i"
  by (auto simp: books_ok_def link_ok_def running_def)

lemma starts_counts:
  assumes ok: "books_ok L" and s: "dump_starts L dp i L'"
  shows "finite (running L')" "kps_ok L'" "count_ok L'"
proof -
  have idle: "\<not> l_run L dp" using waiting_idle ok s by (simp add: dump_starts_def)
  have run: "l_run L' = (l_run L)(dp := True)" using s by (simp add: dump_starts_def)
  note ins = sum_insert_running [OF books_parts(1) [OF ok] idle run]
  show "finite (running L')" using ins(1) [of "\<lambda>_. True"] books_parts(1) [OF ok] by simp
  have "(\<Sum>e \<in> {e \<in> running L'. l_netif L' (l_host L' e) = n}. l_kps L' e) = l_cur L' n" for n
  proof -
    let ?P = "\<lambda>e. l_netif L (l_host L e) = n"
    have "l_cur L n = (\<Sum>e \<in> {e \<in> running L. ?P e}. l_kps L e)" using books_parts(2) [OF ok] by (simp add: kps_ok_def)
    then show ?thesis using s ins(1) [of ?P] sum.insert [OF ins(3) [of ?P] ins(2) [of ?P], of "l_kps L"]
      by (cases "?P dp") (auto simp: dump_starts_def)
  qed
  then show "kps_ok L'" by (simp add: kps_ok_def)
  have "l_count L' h = int (card {e \<in> running L'. l_host L' e = h}) \<and> int (card {e \<in> running L'. l_host L' e = h}) \<le> max 0 (l_max L' h)" for h
  proof -
    let ?P = "\<lambda>e. l_host L e = h"
    have "l_count L h = int (card {e \<in> running L. ?P e})" "int (card {e \<in> running L. ?P e}) \<le> max 0 (l_max L h)"
      using books_parts(3) [OF ok] by (simp_all add: count_ok_def)
    then show ?thesis
      using s ins(1) [of ?P] card_insert_disjoint [OF ins(3) [of ?P] ins(2) [of ?P]] by (auto simp: dump_starts_def)
  qed
  then show "count_ok L'" by (simp add: count_ok_def)
qed

lemma starts_spindle:
  assumes ok: "books_ok L" and s: "dump_starts L dp i L'"
  shows "spindle_ok L'"
proof -
  have sp: "l_spindle L e \<noteq> l_spindle L dp" if "l_run L e" "l_host L e = l_host L dp" "l_spindle L dp \<noteq> - 1" for e
    using running_known [OF ok that(1)] that s by (simp add: dump_starts_def)
  show ?thesis unfolding spindle_ok_def
  proof (intro ballI impI)
    fix e e'
    assume e: "e \<in> running L'" "e' \<in> running L'"
      and eq: "l_host L' e = l_host L' e' \<and> l_spindle L' e = l_spindle L' e' \<and> l_spindle L' e \<noteq> - 1"
    have cases: "e = dp \<or> l_run L e" "e' = dp \<or> l_run L e'" using e s by (auto simp: running_def dump_starts_def split: if_splits)
    have eq: "l_host L e = l_host L e'" "l_spindle L e = l_spindle L e'" "l_spindle L e \<noteq> - 1"
      using eq s by (simp_all add: dump_starts_def)
    show "e = e'"
      using cases eq sp [of e] sp [of e'] books_parts(5) [OF ok] unfolding spindle_ok_def running_def by auto
  qed
qed

lemma starts_waiting:
  assumes ok: "books_ok L" and s: "dump_starts L dp i L'"
  shows "set (waiting (l_queue L')) = set (waiting (l_queue L)) - {dp}" "distinct (waiting (l_queue L'))"
proof -
  have d: "distinct (waiting (l_queue L))" using books_parts(6) [OF ok] by (simp add: place_ok_def)
  have m: "mset (waiting (l_queue L')) = mset (remove1 dp (waiting (l_queue L)))" using s by (simp add: dump_starts_def)
  show "set (waiting (l_queue L')) = set (waiting (l_queue L)) - {dp}"
    using mset_eq_setD [OF m] set_remove1_eq [OF d] by simp
  show "distinct (waiting (l_queue L'))" using mset_eq_imp_distinct_iff [OF m] distinct_remove1 [OF d] by simp
qed

lemma starts_place:
  assumes ok: "books_ok L" and s: "dump_starts L dp i L'"
    and t: "\<And>e j. (Some e, j) \<in> set (l_tape L') \<Longrightarrow> e = dp \<or> (Some e, j) \<in> set (l_tape L)"
  shows "place_ok L'"
proof -
  have "\<forall>e. l_run L' e \<or> e \<in> set (waiting (l_queue L')) \<or> (\<exists>j. (Some e, j) \<in> set (l_tape L')) \<longrightarrow> e \<in> set (l_disks L (l_host L e))"
    using books_parts(6) [OF ok] s t unfolding place_ok_def dump_starts_def by (metis fun_upd_apply starts_waiting(1) [OF ok s] DiffD1)
  moreover have "\<forall>e \<in> set (waiting (l_queue L')). \<not> l_run L' e"
    using books_parts(6) [OF ok] s starts_waiting(1) [OF ok s] by (auto simp: place_ok_def dump_starts_def)
  ultimately show ?thesis using starts_waiting(2) [OF ok s] s by (simp add: place_ok_def dump_starts_def)
qed

lemma starts_link:
  assumes ok: "books_ok L" and s: "dump_starts L dp i L'"
    and len: "length (l_chunk L') = length (l_chunk L)" "length (l_pending L') = length (l_pending L)"
  shows "link_ok L'"
proof -
  have "\<exists>j < length (l_link L'). l_dumper L' e = Some j \<and> l_link L' ! j = Some e \<and> l_taken L' ! j" if "e \<in> running L'" for e
  proof (cases "e = dp")
    case True
    then show ?thesis using s books_parts(4) [OF ok] by (simp add: dump_starts_def link_ok_def)
  next
    case False
    then have e: "e \<in> running L" "l_run L e" using that s by (simp_all add: running_def dump_starts_def)
    with books_parts(4) [OF ok] obtain j where "j < length (l_link L)" "l_dumper L e = Some j" "l_link L ! j = Some e" "l_taken L ! j"
      unfolding link_ok_def by blast
    moreover from this have "j \<noteq> i" using taken_link [OF ok e(2), of i] s by (auto simp: dump_starts_def)
    ultimately show ?thesis using s False by (simp add: dump_starts_def)
  qed
  then show ?thesis using books_parts(4) [OF ok] s len by (simp add: link_ok_def dump_starts_def)
qed

lemma starts_room:
  assumes ok: "books_ok L" and s: "dump_starts L dp i L'"
    and "\<And>j. j \<noteq> i \<Longrightarrow> l_chunk L' ! j = l_chunk L ! j" "\<And>j. j \<noteq> i \<Longrightarrow> l_pending L' ! j = l_pending L ! j"
  shows "room_ok L'"
proof -
  have "l_run L' e \<and> (\<exists>j < length (l_link L'). l_dumper L' e = Some j \<and> l_chunk L' ! j \<and> l_pending L' ! j)"
    if e: "e \<in> set (l_queue L Roomq)" for e
  proof -
    from books_parts(7) [OF ok] e obtain j where
      j: "l_run L e" "j < length (l_link L)" "l_dumper L e = Some j" "l_chunk L ! j" "l_pending L ! j"
      unfolding room_ok_def by blast
    then have "j \<noteq> i" using taken_link [OF ok j(1), of i] s by (auto simp: dump_starts_def)
    moreover have "e \<noteq> dp" using j(1) waiting_idle [OF ok] s by (auto simp: dump_starts_def)
    ultimately show ?thesis using j assms s by (simp add: dump_starts_def)
  qed
  then show ?thesis using s by (simp add: room_ok_def dump_starts_def)
qed

text \<open>What an entry of the taper table must satisfy.\<close>

definition entry_ok :: "ledger \<Rightarrow> nat \<Rightarrow> nat option \<times> nat option \<Rightarrow> bool" where
  "entry_ok L ti x \<longleftrightarrow> (\<forall>dp. fst x = Some dp \<longrightarrow> l_taper L dp = Some ti \<and>
     (case snd x of
        None \<Rightarrow> \<not> l_run L dp \<and> dp \<notin> set (waiting (l_queue L))
      | Some j \<Rightarrow> l_run L dp \<and> l_dumper L dp = Some j \<and> j < length (l_chunk L) \<and> \<not> l_chunk L ! j))"

lemma tape_ok_entries: "tape_ok L \<longleftrightarrow> (\<forall>ti < length (l_tape L). entry_ok L ti (l_tape L ! ti))"
  by (simp add: tape_ok_def entry_ok_def)

lemma entry_ok_empty [simp]: "entry_ok L ti (None, j)"
  by (simp add: entry_ok_def)

lemma starts_entry:
  assumes ok: "books_ok L" and s: "dump_starts L dp i L'" and e: "entry_ok L ti x"
    and t: "\<And>e. e \<noteq> dp \<Longrightarrow> l_taper L' e = l_taper L e"
    and c: "length (l_chunk L') = length (l_chunk L)" "\<And>j. j \<noteq> i \<Longrightarrow> l_chunk L' ! j = l_chunk L ! j"
  shows "entry_ok L' ti x"
  unfolding entry_ok_def
proof (intro allI impI)
  fix e assume f: "fst x = Some e"
  with e have old: "l_taper L e = Some ti"
    "case snd x of None \<Rightarrow> \<not> l_run L e \<and> e \<notin> set (waiting (l_queue L))
     | Some j \<Rightarrow> l_run L e \<and> l_dumper L e = Some j \<and> j < length (l_chunk L) \<and> \<not> l_chunk L ! j" by (simp_all add: entry_ok_def)
  have dp: "dp \<in> set (waiting (l_queue L))" "\<not> l_run L dp" "\<not> l_taken L ! i"
    using s waiting_idle [OF ok] by (auto simp: dump_starts_def)
  then have ne: "e \<noteq> dp" using old by (auto split: option.splits)
  show "l_taper L' e = Some ti \<and>
     (case snd x of None \<Rightarrow> \<not> l_run L' e \<and> e \<notin> set (waiting (l_queue L'))
      | Some j \<Rightarrow> l_run L' e \<and> l_dumper L' e = Some j \<and> j < length (l_chunk L') \<and> \<not> l_chunk L' ! j)"
  proof (cases "snd x")
    case None
    then show ?thesis using old ne s t starts_waiting(1) [OF ok s] by (simp add: dump_starts_def)
  next
    case (Some j)
    then have "j \<noteq> i" using old taken_link [OF ok _ dp(3), of e] by auto
    then show ?thesis using Some old ne s t c by (simp add: dump_starts_def)
  qed
qed

lemma books_start_disk:
  assumes ok: "books_ok L" and s: "dump_starts L dp i L'"
    and "l_tape L' = l_tape L" "l_taper L' = l_taper L" "l_chunk L' = (l_chunk L)[i := True]" "l_pending L' = (l_pending L)[i := True]"
  shows "books_ok L'"
  unfolding books_ok_def tape_ok_entries
  using assms starts_counts [OF ok s] starts_spindle [OF ok s] starts_place [OF ok s] starts_link [OF ok s] starts_room [OF ok s]
    starts_entry [OF ok s] books_parts(8) [OF ok] by (simp add: tape_ok_entries)

lemma books_start_tape:
  assumes ok: "books_ok L" and s: "dump_starts L dp i L'" and ti: "ti < length (l_tape L)"
    and t: "l_tape L' = (l_tape L)[ti := (Some dp, Some i)]" "l_taper L' = (l_taper L)(dp := Some ti)"
      "l_chunk L' = (l_chunk L)[i := False]" "l_pending L' = l_pending L"
  shows "books_ok L'"
proof -
  have "i < length (l_chunk L)" using s books_parts(4) [OF ok] by (simp add: dump_starts_def link_ok_def)
  then have new: "entry_ok L' ti (Some dp, Some i)" using s t by (simp add: entry_ok_def dump_starts_def)
  have "entry_ok L' tj (l_tape L ! tj)" if "tj < length (l_tape L)" for tj
    using starts_entry [OF ok s] books_parts(8) [OF ok] that t by (simp add: tape_ok_entries)
  with new have "entry_ok L' tj ((l_tape L)[ti := (Some dp, Some i)] ! tj)" if "tj < length (l_tape L)" for tj
    using that by (cases "tj = ti") simp_all
  then have "tape_ok L'" unfolding tape_ok_entries by (simp add: t)
  moreover have "place_ok L'"
  proof (rule starts_place [OF ok s])
    fix e j assume "(Some e, j) \<in> set (l_tape L')"
    then show "e = dp \<or> (Some e, j) \<in> set (l_tape L)"
      using set_update_subset_insert [of "l_tape L" ti "(Some dp, Some i)"] by (auto simp: t)
  qed
  ultimately show ?thesis
    unfolding books_ok_def
    using starts_counts [OF ok s] starts_spindle [OF ok s] starts_link [OF ok s] starts_room [OF ok s] t by simp
qed

text \<open>A dump ends on dumper \<open>i\<close>; it may go back to a queue, and leaves its taper.\<close>

definition dump_ends :: "ledger \<Rightarrow> nat \<Rightarrow> nat \<Rightarrow> ledger \<Rightarrow> bool" where
  "dump_ends L dp i L' \<longleftrightarrow>
     l_run L dp \<and> dp \<notin> set (l_queue L Roomq) \<and> l_dumper L dp = Some i \<and>
     l_kps L' = l_kps L \<and> l_host L' = l_host L \<and> l_spindle L' = l_spindle L \<and> l_max L' = l_max L \<and>
     l_netif L' = l_netif L \<and> l_disks L' = l_disks L \<and> l_chunk L' = l_chunk L \<and>
     l_run L' = (l_run L)(dp := False) \<and> (\<forall>e. e \<noteq> dp \<longrightarrow> l_dumper L' e = l_dumper L e \<and> l_taper L' e = l_taper L e) \<and>
     l_count L' = (l_count L)(l_host L dp := l_count L (l_host L dp) - 1) \<and>
     l_cur L' = (l_cur L)(l_netif L (l_host L dp) := l_cur L (l_netif L (l_host L dp)) - l_kps L dp) \<and>
     length (l_link L') = length (l_link L) \<and> length (l_taken L') = length (l_taken L) \<and> length (l_pending L') = length (l_pending L) \<and>
     (\<forall>j. j \<noteq> i \<longrightarrow> l_link L' ! j = l_link L ! j \<and> l_taken L' ! j = l_taken L ! j \<and> l_pending L' ! j = l_pending L ! j) \<and>
     mset (waiting (l_queue L')) \<subseteq># add_mset dp (mset (waiting (l_queue L))) \<and> l_queue L' Roomq = l_queue L Roomq \<and>
     length (l_tape L') = length (l_tape L) \<and>
     (\<forall>ti < length (l_tape L). fst (l_tape L' ! ti) = None \<or> (l_tape L' ! ti = l_tape L ! ti \<and> fst (l_tape L ! ti) \<noteq> Some dp))"

lemma same_dumper: "books_ok L \<Longrightarrow> l_run L dp \<Longrightarrow> l_run L e \<Longrightarrow> l_dumper L e = l_dumper L dp \<Longrightarrow> e = dp"
  unfolding books_ok_def link_ok_def running_def by (metis mem_Collect_eq option.inject)

lemma kps_enough:
  assumes ok: "books_ok L" and run: "l_run L dp"
  shows "l_kps L dp \<le> l_cur L (l_netif L (l_host L dp))"
proof -
  let ?R = "{e \<in> running L. l_netif L (l_host L e) = l_netif L (l_host L dp)}"
  have "l_kps L dp \<le> sum (l_kps L) ?R" using books_parts(1) [OF ok] run by (intro member_le_sum) (auto simp: running_def)
  then show ?thesis using books_parts(2) [OF ok] by (simp add: kps_ok_def)
qed

lemma ends_counts:
  assumes ok: "books_ok L" and s: "dump_ends L dp i L'"
  shows "finite (running L')" "kps_ok L'" "count_ok L'"
proof -
  have run: "l_run L dp" "l_run L' = (l_run L)(dp := False)" using s by (simp_all add: dump_ends_def)
  note del = sum_remove_running [OF run]
  have "running L' \<subseteq> running L" using run by (auto simp: running_def)
  then show fin: "finite (running L')" using books_parts(1) [OF ok] finite_subset by blast
  then have fins: "finite {e \<in> running L'. P e}" for P by simp
  have "(\<Sum>e \<in> {e \<in> running L'. l_netif L' (l_host L' e) = n}. l_kps L' e) = l_cur L' n" for n
  proof -
    let ?P = "\<lambda>e. l_netif L (l_host L e) = n"
    have "l_cur L n = (\<Sum>e \<in> {e \<in> running L. ?P e}. l_kps L e)" using books_parts(2) [OF ok] by (simp add: kps_ok_def)
    then show ?thesis using s del(1) [of ?P] sum.insert [OF fins [of ?P] del(2) [of ?P], of "l_kps L"]
      by (cases "?P dp") (auto simp: dump_ends_def)
  qed
  then show "kps_ok L'" by (simp add: kps_ok_def)
  have "l_count L' h = int (card {e \<in> running L'. l_host L' e = h}) \<and> int (card {e \<in> running L'. l_host L' e = h}) \<le> max 0 (l_max L' h)" for h
  proof -
    let ?P = "\<lambda>e. l_host L e = h"
    have "l_count L h = int (card {e \<in> running L. ?P e})" "int (card {e \<in> running L. ?P e}) \<le> max 0 (l_max L h)"
      using books_parts(3) [OF ok] by (simp_all add: count_ok_def)
    then show ?thesis
      using s del(1) [of ?P] card_insert_disjoint [OF fins [of ?P] del(2) [of ?P]] by (cases "?P dp") (auto simp: dump_ends_def)
  qed
  then show "count_ok L'" by (simp add: count_ok_def)
qed

lemma ends_waiting:
  assumes ok: "books_ok L" and s: "dump_ends L dp i L'"
  shows "set (waiting (l_queue L')) \<subseteq> insert dp (set (waiting (l_queue L)))" "distinct (waiting (l_queue L'))"
proof -
  have m: "mset (waiting (l_queue L')) \<subseteq># mset (dp # waiting (l_queue L))" using s by (simp add: dump_ends_def)
  have "distinct (dp # waiting (l_queue L))"
    using books_parts(6) [OF ok] waiting_idle [OF ok, of dp] s by (auto simp: place_ok_def dump_ends_def)
  with distinct_submset [OF m] show "distinct (waiting (l_queue L'))" by blast
  show "set (waiting (l_queue L')) \<subseteq> insert dp (set (waiting (l_queue L)))" using submset_set [OF m] by auto
qed

lemma ends_entries:
  assumes ok: "books_ok L" and s: "dump_ends L dp i L'" and ti: "ti < length (l_tape L)"
  shows "entry_ok L' ti (l_tape L' ! ti)"
proof (cases "fst (l_tape L' ! ti)")
  case None
  then show ?thesis by (simp add: entry_ok_def)
next
  case (Some e)
  then have same: "l_tape L' ! ti = l_tape L ! ti" "e \<noteq> dp" using s ti by (auto simp: dump_ends_def)
  have "entry_ok L ti (l_tape L ! ti)" using books_parts(8) [OF ok] ti by (simp add: tape_ok_entries)
  then show ?thesis
    using s Some same ends_waiting(1) [OF ok s] unfolding entry_ok_def dump_ends_def by (auto split: option.splits)
qed

lemma dump_endsD:
  assumes "dump_ends L dp i L'"
  shows "l_run L dp" "l_run L' = (l_run L)(dp := False)" "l_disks L' = l_disks L" "l_host L' = l_host L"
    "length (l_tape L') = length (l_tape L)"
    "\<And>ti. ti < length (l_tape L) \<Longrightarrow> fst (l_tape L' ! ti) = None \<or> l_tape L' ! ti = l_tape L ! ti"
    "l_dumper L dp = Some i" "dp \<notin> set (l_queue L Roomq)" "l_spindle L' = l_spindle L" "l_chunk L' = l_chunk L"
    "\<And>e. e \<noteq> dp \<Longrightarrow> l_dumper L' e = l_dumper L e" "l_queue L' Roomq = l_queue L Roomq"
    "length (l_link L') = length (l_link L)"
    "\<And>j. j \<noteq> i \<Longrightarrow> l_link L' ! j = l_link L ! j" "\<And>j. j \<noteq> i \<Longrightarrow> l_taken L' ! j = l_taken L ! j"
    "\<And>j. j \<noteq> i \<Longrightarrow> l_pending L' ! j = l_pending L ! j"
    "length (l_taken L') = length (l_taken L)" "length (l_pending L') = length (l_pending L)"
proof -
  have e: "\<forall>e. e \<noteq> dp \<longrightarrow> l_dumper L' e = l_dumper L e \<and> l_taper L' e = l_taper L e"
    using assms unfolding dump_ends_def by (elim conjE)
  have j: "\<forall>j. j \<noteq> i \<longrightarrow> l_link L' ! j = l_link L ! j \<and> l_taken L' ! j = l_taken L ! j \<and> l_pending L' ! j = l_pending L ! j"
    using assms unfolding dump_ends_def by (elim conjE)
  have t: "\<forall>ti < length (l_tape L). fst (l_tape L' ! ti) = None \<or> (l_tape L' ! ti = l_tape L ! ti \<and> fst (l_tape L ! ti) \<noteq> Some dp)"
    using assms unfolding dump_ends_def by (elim conjE)
  show "\<And>e. e \<noteq> dp \<Longrightarrow> l_dumper L' e = l_dumper L e" using e by simp
  show "\<And>j. j \<noteq> i \<Longrightarrow> l_link L' ! j = l_link L ! j" "\<And>j. j \<noteq> i \<Longrightarrow> l_taken L' ! j = l_taken L ! j"
    "\<And>j. j \<noteq> i \<Longrightarrow> l_pending L' ! j = l_pending L ! j" using j by simp_all
  show "\<And>ti. ti < length (l_tape L) \<Longrightarrow> fst (l_tape L' ! ti) = None \<or> l_tape L' ! ti = l_tape L ! ti" using t by blast
qed (insert assms, unfold dump_ends_def, (elim conjE, assumption)+)

lemma ends_place:
  assumes ok: "books_ok L" and s: "dump_ends L dp i L'"
  shows "place_ok L'"
proof -
  have tape: "(Some e, j) \<in> set (l_tape L)" if m: "(Some e, j) \<in> set (l_tape L')" for e j
  proof -
    from m obtain ti where "ti < length (l_tape L')" "l_tape L' ! ti = (Some e, j)" by (auto simp: in_set_conv_nth)
    then have "ti < length (l_tape L)" "l_tape L ! ti = (Some e, j)" using dump_endsD(5,6) [OF s] by fastforce+
    then show ?thesis by (metis nth_mem)
  qed
  have known: "dp \<in> set (l_disks L (l_host L dp))" using running_known [OF ok] s by (simp add: dump_ends_def)
  have "e \<in> set (l_disks L (l_host L e))"
    if "l_run L' e \<or> e \<in> set (waiting (l_queue L')) \<or> (\<exists>j. (Some e, j) \<in> set (l_tape L'))" for e
  proof (cases "e = dp")
    case False
    then have "l_run L e \<or> e \<in> set (waiting (l_queue L)) \<or> (\<exists>j. (Some e, j) \<in> set (l_tape L))"
      using that tape ends_waiting(1) [OF ok s] unfolding dump_endsD(2) [OF s] by auto
    then show ?thesis using books_parts(6) [OF ok] unfolding place_ok_def by blast
  qed (use known in simp)
  moreover have "\<not> l_run L' e" if "e \<in> set (waiting (l_queue L'))" for e
    using that ends_waiting(1) [OF ok s] waiting_idle [OF ok, of e] unfolding dump_endsD(2) [OF s] by auto
  ultimately show ?thesis using ends_waiting(2) [OF ok s] dump_endsD(3,4) [OF s] by (simp add: place_ok_def)
qed

lemma books_end:
  assumes ok: "books_ok L" and s: "dump_ends L dp i L'"
  shows "books_ok L'"
proof -
  note D = dump_endsD [OF s]
  have run: "l_run L e" "e \<noteq> dp" if "e \<in> running L'" for e
    using that D(2) by (simp_all add: running_def split: if_splits)
  have other: "l_dumper L e \<noteq> Some i" if "l_run L e" "e \<noteq> dp" for e
    using same_dumper [OF ok D(1) that(1)] that(2) D(7) by auto
  have "spindle_ok L'" unfolding spindle_ok_def D(4) D(9)
  proof (intro ballI impI)
    fix e f assume "e \<in> running L'" "f \<in> running L'"
      and "l_host L e = l_host L f \<and> l_spindle L e = l_spindle L f \<and> l_spindle L e \<noteq> - 1"
    then show "e = f" using books_parts(5) [OF ok] run(1) by (simp add: spindle_ok_def running_def)
  qed
  moreover have "link_ok L'"
  proof -
    have "\<exists>j < length (l_link L'). l_dumper L' e = Some j \<and> l_link L' ! j = Some e \<and> l_taken L' ! j" if e: "e \<in> running L'" for e
    proof -
      have "e \<in> running L" using run(1) [OF e] by (simp add: running_def)
      with books_parts(4) [OF ok] obtain j where
        j: "j < length (l_link L)" "l_dumper L e = Some j" "l_link L ! j = Some e" "l_taken L ! j"
        unfolding link_ok_def by blast
      moreover from this have "j \<noteq> i" using other [OF run [OF e]] by auto
      ultimately show ?thesis using D(11) [OF run(2) [OF e]] D(13-15) by auto
    qed
    then show ?thesis using books_parts(4) [OF ok] D(10,13,17,18) by (simp add: link_ok_def)
  qed
  moreover have "room_ok L'"
  proof -
    have "l_run L' e \<and> (\<exists>j < length (l_link L'). l_dumper L' e = Some j \<and> l_chunk L' ! j \<and> l_pending L' ! j)"
      if e: "e \<in> set (l_queue L Roomq)" for e
    proof -
      have ne: "e \<noteq> dp" using e D(8) by auto
      from books_parts(7) [OF ok] e obtain j where
        j: "l_run L e" "j < length (l_link L)" "l_dumper L e = Some j" "l_chunk L ! j" "l_pending L ! j"
        unfolding room_ok_def by blast
      moreover from this have "j \<noteq> i" using other [OF j(1) ne] by auto
      ultimately show ?thesis using ne D(2) D(11) [OF ne] D(10,13) D(16) by auto
    qed
    then show ?thesis using D(12) by (simp add: room_ok_def)
  qed
  moreover have "tape_ok L'" using ends_entries [OF ok s] D(5) by (simp add: tape_ok_entries)
  ultimately show ?thesis
    using ends_counts [OF ok s] ends_place [OF ok s] by (simp add: books_ok_def)
qed

text \<open>A dump leaves the tape queue for a taper, and comes back from one.\<close>

lemma books_to_tape:
  assumes ok: "books_ok L" and c: "calm L L'" and dp: "dp \<in> set (l_queue L Tapeq)" and ti: "ti < length (l_tape L)"
    and t: "l_tape L' = (l_tape L)[ti := (Some dp, None)]" "l_taper L' = (l_taper L)(dp := Some ti)"
    and q: "l_queue L' = (l_queue L)(Tapeq := remove1 dp (l_queue L Tapeq))"
  shows "books_ok L'"
proof -
  have d: "distinct (waiting (l_queue L))" and w: "dp \<in> set (waiting (l_queue L))"
    using books_parts(6) [OF ok] dp by (simp_all add: place_ok_def waiting_def)
  have sw: "set (waiting (l_queue L')) = set (waiting (l_queue L)) - {dp}" and dw: "distinct (waiting (l_queue L'))"
    using d dp by (auto simp: q waiting_def)
  have known: "dp \<in> set (l_disks L (l_host L dp))" using books_parts(6) [OF ok] w by (simp add: place_ok_def)
  have "entry_ok L' tj (l_tape L' ! tj)" if "tj < length (l_tape L)" for tj
  proof (cases "tj = ti")
    case True
    then show ?thesis using ti sw waiting_idle [OF ok w] c by (simp add: t entry_ok_def calm_def)
  next
    case False
    have "entry_ok L tj (l_tape L ! tj)" using books_parts(8) [OF ok] that by (simp add: tape_ok_entries)
    then show ?thesis
      using False w waiting_idle [OF ok w] c sw unfolding entry_ok_def calm_def by (auto simp: t split: option.splits)
  qed
  then have "tape_ok L'" by (simp add: tape_ok_entries t)
  moreover have "place_ok L'"
  proof -
    have "(Some e, j) \<in> set (l_tape L') \<Longrightarrow> e = dp \<or> (Some e, j) \<in> set (l_tape L)" for e j
      using set_update_subset_insert [of "l_tape L" ti "(Some dp, None)"] by (auto simp: t)
    then show ?thesis
      using books_parts(6) [OF ok] c dw sw known unfolding place_ok_def calm_def by (metis DiffD1)
  qed
  moreover have "room_ok L'" using books_parts(7) [OF ok] c by (simp add: room_ok_def q calm_def)
  ultimately show ?thesis
    using books_parts [OF ok] calm_kps [OF c] calm_counts [OF c] calm_links [OF c] calm_spindles [OF c] calm_running [OF c]
    by (simp add: books_ok_def)
qed

lemma books_from_tape:
  assumes ok: "books_ok L" and c: "calm L L'" and ti: "ti < length (l_tape L)" "fst (l_tape L ! ti) = Some dp" "snd (l_tape L ! ti) = None"
    and t: "l_tape L' = (l_tape L)[ti := (None, x)]" "l_taper L' = l_taper L"
    and q: "mset (waiting (l_queue L')) \<subseteq># add_mset dp (mset (waiting (l_queue L)))" "l_queue L' Roomq = l_queue L Roomq"
  shows "books_ok L'"
proof -
  have e: "entry_ok L ti (l_tape L ! ti)" using books_parts(8) [OF ok] ti(1) by (simp add: tape_ok_entries)
  then have dp: "l_taper L dp = Some ti" "\<not> l_run L dp" "dp \<notin> set (waiting (l_queue L))" using ti by (simp_all add: entry_ok_def)
  have m: "mset (waiting (l_queue L')) \<subseteq># mset (dp # waiting (l_queue L))" using q by simp
  have dw: "distinct (waiting (l_queue L'))"
    using distinct_submset [OF m] books_parts(6) [OF ok] dp by (simp add: place_ok_def)
  have sw: "set (waiting (l_queue L')) \<subseteq> insert dp (set (waiting (l_queue L)))" using submset_set [OF m] by auto
  have "(Some dp, None) \<in> set (l_tape L)" using ti by (metis nth_mem prod.collapse)
  then have known: "dp \<in> set (l_disks L (l_host L dp))" using books_parts(6) [OF ok] by (auto simp: place_ok_def)
  have "entry_ok L' tj (l_tape L' ! tj)" if "tj < length (l_tape L)" for tj
  proof (cases "tj = ti")
    case False
    have "entry_ok L tj (l_tape L ! tj)" using books_parts(8) [OF ok] that by (simp add: tape_ok_entries)
    then show ?thesis
      using False c sw dp unfolding entry_ok_def calm_def by (auto simp: t split: option.splits)
  qed (use ti in \<open>simp add: t\<close>)
  then have "tape_ok L'" by (simp add: tape_ok_entries t)
  moreover have "place_ok L'"
  proof -
    have "(Some e, j) \<in> set (l_tape L') \<Longrightarrow> (Some e, j) \<in> set (l_tape L)" for e j
      using set_update_subset_insert [of "l_tape L" ti "(None, x)"] by (auto simp: t)
    moreover have "\<not> l_run L e" if "e \<in> set (waiting (l_queue L'))" for e
      using that sw dp waiting_idle [OF ok, of e] by auto
    ultimately show ?thesis
      using books_parts(6) [OF ok] c dw sw known unfolding place_ok_def calm_def by (metis insertE subsetD)
  qed
  moreover have "room_ok L'" using books_parts(7) [OF ok] c q by (simp add: room_ok_def calm_def)
  ultimately show ?thesis
    using books_parts [OF ok] calm_kps [OF c] calm_counts [OF c] calm_links [OF c] calm_spindles [OF c] calm_running [OF c]
    by (simp add: books_ok_def)
qed

lemma books_free_tape:
  assumes ok: "books_ok L" and c: "calm L L'" and t: "l_tape L' = (l_tape L)[ti := (None, x)]" "l_taper L' = l_taper L"
    and q: "l_queue L' = l_queue L"
  shows "books_ok L'"
proof -
  have "entry_ok L' tj (l_tape L' ! tj)" if "tj < length (l_tape L)" for tj
  proof -
    have "entry_ok L tj (l_tape L ! tj)" using books_parts(8) [OF ok] that by (simp add: tape_ok_entries)
    then have "entry_ok L' tj (l_tape L ! tj)"
      using c unfolding entry_ok_def calm_def t(2) q by (auto split: option.splits)
    then show ?thesis using that by (cases "tj = ti") (simp_all add: t)
  qed
  then have "tape_ok L'" by (simp add: tape_ok_entries t)
  moreover have "place_ok L'"
  proof -
    have "(Some e, j) \<in> set (l_tape L') \<Longrightarrow> (Some e, j) \<in> set (l_tape L)" for e j
      using set_update_subset_insert [of "l_tape L" ti "(None, x)"] by (auto simp: t)
    then show ?thesis using books_parts(6) [OF ok] c unfolding place_ok_def calm_def q by metis
  qed
  moreover have "room_ok L'" using books_parts(7) [OF ok] c q by (simp add: room_ok_def calm_def)
  ultimately show ?thesis
    using books_parts [OF ok] calm_kps [OF c] calm_counts [OF c] calm_links [OF c] calm_spindles [OF c] calm_running [OF c]
    by (simp add: books_ok_def)
qed

lemma tape_ok_same:
  assumes "l_tape L' = l_tape L" "l_taper L' = l_taper L" "l_run L' = l_run L" "l_dumper L' = l_dumper L" "l_chunk L' = l_chunk L"
    and "waiting (l_queue L') = waiting (l_queue L)"
  shows "tape_ok L' \<longleftrightarrow> tape_ok L"
  by (simp only: tape_ok_def assms)

text \<open>A dump waits for room; a chunker gives its result.\<close>

lemma books_wait:
  assumes ok: "books_ok L" and dp: "l_run L dp" "l_dumper L dp = Some i" "i < length (l_link L)" "l_chunk L ! i" "l_pending L ! i"
    and L': "L' = L\<lparr>l_queue := (l_queue L)(Roomq := l_queue L Roomq @ [dp])\<rparr>"
  shows "books_ok L'"
proof -
  have w: "waiting (l_queue L') = waiting (l_queue L)" by (simp add: L' waiting_def)
  have c: "calm L L'" by (simp add: L' calm_def)
  have "place_ok L'" using books_parts(6) [OF ok] by (intro place_shrinks [OF _ c]) (simp_all add: w, simp add: L')
  moreover have "tape_ok L'" using books_parts(8) [OF ok] tape_ok_same [OF _ _ _ _ _ w] by (simp add: L')
  moreover have "room_ok L'" using books_parts(7) [OF ok] dp by (auto simp: room_ok_def L')
  ultimately show ?thesis
    using books_parts [OF ok] calm_kps [OF c] calm_counts [OF c] calm_links [OF c] calm_spindles [OF c] calm_running [OF c]
    by (simp add: books_ok_def)
qed

lemma books_answer:
  assumes ok: "books_ok L" and i: "\<forall>dp \<in> set (l_queue L Roomq). l_dumper L dp \<noteq> Some i"
    and L': "L' = L\<lparr>l_pending := (l_pending L)[i := b]\<rparr>"
  shows "books_ok L'"
proof -
  have "room_ok L'" using books_parts(7) [OF ok] i unfolding room_ok_def L' by (fastforce simp: nth_list_update)
  moreover have "tape_ok L'" using books_parts(8) [OF ok] by (subst tape_ok_same [of _ L]) (simp_all add: L')
  ultimately show ?thesis
    using ok by (simp add: L' books_ok_def kps_ok_def count_ok_def link_ok_def spindle_ok_def place_ok_def running_def)
qed

end
