(* ===== verification/Driver.thy ===== *)
theory Driver
  imports Holding_Space Ledger
begin

text \<open>
  The driver (\<open>server-src/driver.c\<close>): it starts dumps on idle dumpers, follows the messages of the
  dumpers, chunkers and tapers, and moves every disk from queue to queue until it is on tape.
  Dumpers, chunkers and tapers are places in their tables; the queues are the lists that \<open>Disklist\<close>
  shows the links to implement. A \<open>sched_t\<close> is part of its disk. Log lines, scripts, the info database
  and serial numbers do not change what is modelled; the files on the holding disks, the clock and the
  answer of a chunker to \<open>PORT-WRITE\<close> are the environment of a step.
\<close>

section \<open>State\<close>

datatype cmd =
    BOGUS | QUIT | QUITTING | DONE | PARTIAL | START | FILE_DUMP | PORT_DUMP | CONTINUE | ABORT | FAILED
  | TRYAGAIN | NO_ROOM | RQ_MORE_DISK | ABORT_FINISHED | BAD_COMMAND | START_TAPER | FILE_WRITE | NEW_TAPE
  | NO_NEW_TAPE | PARTDONE | PORT_WRITE | DUMPER_STATUS | PORT | TAPE_ERROR | TAPER_OK | REQUEST_NEW_TAPE
  | DIRECTTCP_PORT | TAKE_SCRIBE_FROM | START_SCAN | CLOSE_VOLUME | LAST_TOK

text \<open>A disk with its schedule.\<close>

record dle = space_sched +
  d_host :: nat
  d_name :: string
  d_spindle :: int
  d_start_t :: int
  d_priority :: int
  d_to_holdingdisk :: holding
  d_inprogress :: bool
  d_splitsize :: int
  d_scheduled :: bool        \<comment> \<open>\<open>up\<close>, the schedule, is not \<open>NULL\<close>\<close>
  d_level :: int
  d_degr_level :: int
  d_est_nsize :: int
  d_est_csize :: int
  d_est_size :: int
  d_est_time :: nat
  d_est_kps :: nat
  d_degr_nsize :: int
  d_degr_csize :: int
  d_degr_time :: nat
  d_degr_kps :: nat
  d_origsize :: int
  d_dumpsize :: int
  d_dumptime :: int
  d_destname :: "string option"
  d_dumper :: "nat option"
  d_taper :: "nat option"
  d_timestamp :: int
  d_datestamp :: string
  d_activehd :: int
  d_no_space :: bool
  d_dump_attempted :: int
  d_taper_attempted :: int

record host =
  h_name :: string
  h_disks :: "nat list"
  h_inprogress :: int
  h_maxdumps :: int
  h_start_t :: int
  h_netif :: nat

record netif =
  n_maxusage :: nat
  n_curusage :: nat

record dumper =
  dm_busy :: bool
  dm_down :: bool
  dm_result :: cmd
  dm_listening :: bool       \<comment> \<open>\<open>ev_read\<close> is registered\<close>
  dm_dp :: "nat option"
  dm_chunker :: bool         \<comment> \<open>the pointer to the chunker with the same index is not \<open>NULL\<close>\<close>

record chunker =
  ch_down :: bool
  ch_open :: bool            \<comment> \<open>the descriptor is open\<close>
  ch_listening :: bool
  ch_result :: cmd
  ch_sendresult :: bool
  ch_dumper :: "nat option"

datatype taper_flag =
    STATE_INIT | STATE_RESERVATION | STATE_IDLE | STATE_DUMP_TO_TAPE | STATE_FILE_TO_TAPE | STATE_TAPE_REQUESTED
  | STATE_WAIT_FOR_TAPE | STATE_WAIT_NEW_TAPE | STATE_TAPE_STARTED | STATE_DONE

text \<open>The bit set \<open>state\<close> of a taper is a set of flags; \<open>TAPER_STATE_DEFAULT\<close> is the empty one.\<close>

record taper =
  tp_name :: string
  tp_sendresult :: bool
  tp_input_error :: "string option"
  tp_tape_error :: "string option"
  tp_result :: cmd
  tp_dumper :: "nat option"
  tp_disk :: "nat option"
  tp_first_label :: "string option"
  tp_first_fileno :: int
  tp_state :: "taper_flag set"
  tp_left :: int
  tp_written :: int
  tp_nb_dle :: int

datatype taperalgo =
  ALGO_FIRST | ALGO_FIRSTFIT | ALGO_LARGEST | ALGO_LARGESTFIT | ALGO_SMALLEST | ALGO_SMALLESTFIT | ALGO_LAST | ALGO_LASTFIT

record config =
  conf_dumporder :: string
  conf_runtapes :: int
  conf_max_dle_by_volume :: int
  conf_taperalgo :: taperalgo
  flush_threshold_dumped :: int
  flush_threshold_scheduled :: int
  taperflush :: int
  tape_length :: int
  reserved_space :: int
  total_disksize :: int
  hd_driver_timestamp :: string
  driver_timestamp :: string

datatype sent =
    To_dumper nat cmd "nat option"
  | To_chunker nat cmd "nat option"
  | To_taper cmd "nat option"

datatype idle = NOT_IDLE | IDLE_NO_DUMPERS | IDLE_START_WAIT | IDLE_NO_HOLD | IDLE_CLIENT_CONSTRAINED
  | IDLE_NO_BANDWIDTH | IDLE_NO_DISKSPACE

record driver =
  conf :: config
  disks :: "nat \<Rightarrow> dle"
  hosts :: "nat \<Rightarrow> host"
  netifs :: "nat \<Rightarrow> netif"
  holdallocs :: "holdalloc list"
  dumpers :: "dumper list"
  chunkers :: "chunker list"
  tapers :: "taper list"
  queues :: "queue_name \<Rightarrow> nat list"
  pending_aborts :: int
  degraded_mode :: bool
  need_degraded :: bool
  schedule_done :: bool
  force_flush :: bool
  taper_started :: bool
  taper_listening :: bool
  taper_nb_wait_reply :: int
  taper_nb_scan_volume :: int
  nb_sent_new_tape :: int
  last_started_taper :: "nat option"
  current_tape :: int
  sleep_time :: int
  idle_reason :: idle
  dumpers_ev_time :: "int option"
  sent_cmds :: "sent list"

text \<open>What a step asks of the world.\<close>

record world =
  w_now :: int
  w_port_ok :: "nat \<Rightarrow> bool"           \<comment> \<open>the chunker of this dumper answers \<open>PORT\<close>\<close>
  w_file_size :: "string \<Rightarrow> int"      \<comment> \<open>\<open>holding_file_size\<close>, in kilobytes\<close>

section \<open>Small steps\<close>

text \<open>A sequence of statements, each a function of the state; the first failure ends it.\<close>

definition steps :: "('s \<Rightarrow> fault + 's) list \<Rightarrow> 's \<Rightarrow> fault + 's" where
  "steps fs st = foldl bind_r (Inr st) fs"

definition pure :: "('s \<Rightarrow> 's) \<Rightarrow> 's \<Rightarrow> fault + 's" where
  "pure f st = Inr (f st)"

definition only_if :: "bool \<Rightarrow> ('s \<Rightarrow> fault + 's) \<Rightarrow> 's \<Rightarrow> fault + 's" where
  "only_if b f st = (if b then f st else Inr st)"

definition require :: "('s \<Rightarrow> bool) \<Rightarrow> 's \<Rightarrow> fault + 's" where
  "require P st = (if P st then Inr st else Inl Assertion_failed)"

definition upd_disk :: "nat \<Rightarrow> (dle \<Rightarrow> dle) \<Rightarrow> driver \<Rightarrow> driver" where
  "upd_disk dp f st = st\<lparr>disks := (disks st)(dp := f (disks st dp))\<rparr>"

definition upd_host :: "nat \<Rightarrow> (host \<Rightarrow> host) \<Rightarrow> driver \<Rightarrow> driver" where
  "upd_host h f st = st\<lparr>hosts := (hosts st)(h := f (hosts st h))\<rparr>"

definition upd_netif :: "nat \<Rightarrow> (netif \<Rightarrow> netif) \<Rightarrow> driver \<Rightarrow> driver" where
  "upd_netif n f st = st\<lparr>netifs := (netifs st)(n := f (netifs st n))\<rparr>"

definition upd_dumper :: "nat \<Rightarrow> (dumper \<Rightarrow> dumper) \<Rightarrow> driver \<Rightarrow> driver" where
  "upd_dumper i f st = st\<lparr>dumpers := (dumpers st)[i := f (dumpers st ! i)]\<rparr>"

definition upd_chunker :: "nat \<Rightarrow> (chunker \<Rightarrow> chunker) \<Rightarrow> driver \<Rightarrow> driver" where
  "upd_chunker i f st = st\<lparr>chunkers := (chunkers st)[i := f (chunkers st ! i)]\<rparr>"

definition upd_taper :: "nat \<Rightarrow> (taper \<Rightarrow> taper) \<Rightarrow> driver \<Rightarrow> driver" where
  "upd_taper t f st = st\<lparr>tapers := (tapers st)[t := f (tapers st ! t)]\<rparr>"

definition enqueue :: "queue_name \<Rightarrow> nat \<Rightarrow> driver \<Rightarrow> driver" where
  "enqueue q dp st = st\<lparr>queues := (queues st)(q := queues st q @ [dp])\<rparr>"

definition headqueue :: "queue_name \<Rightarrow> nat \<Rightarrow> driver \<Rightarrow> driver" where
  "headqueue q dp st = st\<lparr>queues := (queues st)(q := dp # queues st q)\<rparr>"

definition unqueue :: "queue_name \<Rightarrow> nat \<Rightarrow> driver \<Rightarrow> driver" where
  "unqueue q dp st = st\<lparr>queues := (queues st)(q := remove1 dp (queues st q))\<rparr>"

definition send :: "sent \<Rightarrow> driver \<Rightarrow> driver" where
  "send s st = st\<lparr>sent_cmds := sent_cmds st @ [s]\<rparr>"

definition host_of :: "driver \<Rightarrow> nat \<Rightarrow> host" where
  "host_of st dp = hosts st (d_host (disks st dp))"

text \<open>The holding-disk operations on a disk of the state.\<close>

definition dle_name :: "driver \<Rightarrow> nat \<Rightarrow> holdalloc \<Rightarrow> string" where
  "dle_name st dp =
     hold_name (hd_driver_timestamp (conf st)) (h_name (host_of st dp)) (d_name (disks st dp))
       (let l = d_level (disks st dp) in if l < 0 then CHR ''-'' # show_nat (nat (- l)) else show_nat (nat l))"

definition assign_space :: "assignedhd list \<Rightarrow> nat \<Rightarrow> driver \<Rightarrow> fault + driver" where
  \<comment> \<open>\<open>sched(dp)->activehd = assign_holdingdisk(h, dp)\<close>\<close>
  "assign_space h dp st =
     map_r (\<lambda>(l, has, d). st\<lparr>holdallocs := has, disks := (disks st)(dp := d\<lparr>d_activehd := int l\<rparr>)\<rparr>)
       (assign_holdingdisk (dle_name st dp) h (holdallocs st) (disks st dp))"

definition adjust_space :: "nat \<Rightarrow> driver \<Rightarrow> fault + driver" where
  "adjust_space dp st =
     map_r (\<lambda>(has, d). st\<lparr>holdallocs := has, disks := (disks st)(dp := d)\<rparr>) (adjust_diskspace (holdallocs st) (disks st dp))"

definition delete_space :: "nat \<Rightarrow> driver \<Rightarrow> fault + driver" where
  "delete_space dp st =
     map_r (\<lambda>(name, has, d). st\<lparr>holdallocs := has, disks := (disks st)(dp := d)\<rparr>)
       (delete_diskspace (holdallocs st) (disks st dp))"

definition upd_active :: "nat \<Rightarrow> (assignedhd \<Rightarrow> assignedhd) \<Rightarrow> (holdalloc \<Rightarrow> holdalloc) \<Rightarrow> driver \<Rightarrow> fault + driver" where
  \<comment> \<open>changes \<open>h[activehd]\<close> and the holding disk it is on\<close>
  "upd_active dp f g st =
     (let d = disks st dp; k = nat (d_activehd d) in
      case s_holdp d of
        None \<Rightarrow> Inl Out_of_bounds
      | Some h \<Rightarrow>
          if d_activehd d < 0 \<or> length h \<le> k then Inl Out_of_bounds
          else
            let j = hd_disk (h ! k) in
            Inr (upd_disk dp (\<lambda>d. d\<lparr>s_holdp := Some (h[k := f (h ! k)])\<rparr>)
                  (st\<lparr>holdallocs := (holdallocs st)[j := g (holdallocs st ! j)]\<rparr>)))"

section \<open>Commands\<close>

text \<open>
  \<open>chunker_cmd\<close>: a chunker told to write counts as one more dumper on its holding disk; a command to a
  closed descriptor is lost.
\<close>

definition chunker_cmd :: "nat \<Rightarrow> cmd \<Rightarrow> nat option \<Rightarrow> driver \<Rightarrow> fault + driver" where
  "chunker_cmd i c dp st =
     (let deliver = pure (\<lambda>st.
            if ch_open (chunkers st ! i) then
              (if c = QUIT then upd_chunker i (\<lambda>ch. ch\<lparr>ch_open := False\<rparr>) else (\<lambda>st. st)) (send (To_chunker i c dp) st)
            else st);
          holding = (case dp of None \<Rightarrow> False | Some d \<Rightarrow> s_holdp (disks st d) \<noteq> None) in
      if c = PORT_WRITE \<or> c = CONTINUE then
        (if holding then
           bind_r (upd_active (the dp) (\<lambda>a. a) (\<lambda>ha. ha\<lparr>allocated_dumpers := allocated_dumpers ha + 1\<rparr>) st) deliver
         else if c = PORT_WRITE then Inl Assertion_failed
         else deliver st)
      else if c \<in> {START, QUIT, ABORT, DONE, FAILED} then deliver st
      else Inl Assertion_failed)"

definition dumper_cmd :: "nat \<Rightarrow> cmd \<Rightarrow> nat option \<Rightarrow> driver \<Rightarrow> fault + driver" where
  "dumper_cmd i c dp st =
     (if c \<in> {START, QUIT, ABORT} \<or> c = PORT_DUMP \<and> dp \<noteq> None then
        Inr (if dm_down (dumpers st ! i) then st else send (To_dumper i c dp) st)
      else Inl Assertion_failed)"

text \<open>The commands about a disk name the taper it is assigned to.\<close>

definition taper_cmd :: "cmd \<Rightarrow> nat option \<Rightarrow> driver \<Rightarrow> fault + driver" where
  "taper_cmd c dp st =
     (if c \<in> {FILE_WRITE, PORT_WRITE, DONE, FAILED, NO_NEW_TAPE, NEW_TAPE, START_SCAN, TAKE_SCRIBE_FROM, CLOSE_VOLUME} then
        (case dp of
           None \<Rightarrow> Inl Out_of_bounds
         | Some d \<Rightarrow>
             if d_scheduled (disks st d) \<and> d_taper (disks st d) \<noteq> None then Inr (send (To_taper c dp) st)
             else Inl Out_of_bounds)
      else if c = START_TAPER \<or> c = QUIT then Inr (send (To_taper c dp) st)
      else Inl Assertion_failed)"

section \<open>Bandwidth\<close>

definition free_kps :: "netif \<Rightarrow> nat" where
  "free_kps ip = (if n_maxusage ip \<ge> n_curusage ip then n_maxusage ip - n_curusage ip else 0)"

definition allocate_bandwidth :: "nat \<Rightarrow> nat \<Rightarrow> driver \<Rightarrow> driver" where
  "allocate_bandwidth ip kps st = upd_netif ip (\<lambda>n. n\<lparr>n_curusage := n_curusage n + kps\<rparr>) st"

definition deallocate_bandwidth :: "nat \<Rightarrow> nat \<Rightarrow> driver \<Rightarrow> fault + driver" where
  "deallocate_bandwidth ip kps st =
     (if kps \<le> n_curusage (netifs st ip) then Inr (upd_netif ip (\<lambda>n. n\<lparr>n_curusage := n_curusage n - kps\<rparr>) st)
      else Inl Assertion_failed)"

section \<open>Choosing a dump\<close>

definition client_constrained :: "driver \<Rightarrow> nat \<Rightarrow> bool" where
  "client_constrained st dp =
     (let h = host_of st dp; s = d_spindle (disks st dp) in
      if h_inprogress h \<ge> h_maxdumps h then True
      else if s = - 1 then False
      else list_ex (\<lambda>dp2. d_inprogress (disks st dp2) \<and> d_spindle (disks st dp2) = s) (h_disks h))"

definition no_taper_flushing :: "driver \<Rightarrow> bool" where
  "no_taper_flushing st = list_all (\<lambda>t. STATE_FILE_TO_TAPE \<notin> tp_state t) (tapers st)"

definition active_dumper :: "driver \<Rightarrow> nat" where
  "active_dumper st = length (filter dm_busy (dumpers st))"


text \<open>What the search of one dumper has found so far.\<close>

record pick =
  k_idle :: idle
  k_delayed :: "nat option"
  k_disk :: "nat option"
  k_holdp :: "assignedhd list option"

fun idle_rank :: "idle \<Rightarrow> nat" where
  "idle_rank NOT_IDLE = 0"
| "idle_rank IDLE_NO_DUMPERS = 1"
| "idle_rank IDLE_START_WAIT = 2"
| "idle_rank IDLE_NO_HOLD = 3"
| "idle_rank IDLE_CLIENT_CONSTRAINED = 4"
| "idle_rank IDLE_NO_BANDWIDTH = 5"
| "idle_rank IDLE_NO_DISKSPACE = 6"

definition max_idle :: "idle \<Rightarrow> idle \<Rightarrow> idle" where
  "max_idle a b = (if idle_rank a > idle_rank b then a else b)"

definition better :: "char \<Rightarrow> dle \<Rightarrow> dle \<Rightarrow> bool" where
  "better dumptype d e =
     (if dumptype = CHR ''S'' then d_est_size d > d_est_size e
      else if dumptype = CHR ''t'' then d_est_time d < d_est_time e
      else if dumptype = CHR ''T'' then d_est_time d > d_est_time e
      else if dumptype = CHR ''b'' then d_est_kps d < d_est_kps e
      else if dumptype = CHR ''B'' then d_est_kps d > d_est_kps e
      else d_est_size d < d_est_size e)"

text \<open>A dump that has to wait until \<open>t\<close>.\<close>

definition delay :: "nat \<Rightarrow> int \<Rightarrow> driver \<times> pick \<Rightarrow> driver \<times> pick" where
  "delay dp t sk =
     (case sk of (st, k) \<Rightarrow>
        let k = k\<lparr>k_idle := max_idle (k_idle k) IDLE_START_WAIT\<rparr> in
        if k_delayed k = None \<or> sleep_time st > t then (st\<lparr>sleep_time := t\<rparr>, k\<lparr>k_delayed := Some dp\<rparr>) else (st, k))"

definition waits_for :: "idle \<Rightarrow> driver \<times> pick \<Rightarrow> driver \<times> pick" where
  "waits_for why = apsnd (\<lambda>k. k\<lparr>k_idle := max_idle (k_idle k) why\<rparr>)"

text \<open>A dump that can run: it replaces the one picked before if it comes first in the dump order.\<close>

definition accept_dump :: "char \<Rightarrow> nat \<Rightarrow> assignedhd list option \<Rightarrow> driver \<times> pick \<Rightarrow> driver \<times> pick" where
  "accept_dump dumptype dp holdp sk =
     (case sk of (st, k) \<Rightarrow>
        (case k_disk k of
           None \<Rightarrow> (st, k\<lparr>k_disk := Some dp, k_holdp := holdp\<rparr>)
         | Some e \<Rightarrow>
             if better dumptype (disks st dp) (disks st e) \<and>
               (\<not> degraded_mode st \<or> d_priority (disks st dp) \<ge> d_priority (disks st e))
             then (st, k\<lparr>k_disk := Some dp, k_holdp := holdp\<rparr>)
             else (st, k)))"

text \<open>A dump the holding disks have no room for may go to tape directly when nothing else can free space.\<close>

definition no_room_for :: "nat \<Rightarrow> queue_name \<Rightarrow> nat \<Rightarrow> driver \<Rightarrow> driver" where
  "no_room_for dp rq dumper_to_holding st =
     (if queues st Tapeq = [] \<and> dumper_to_holding = 0 \<and> rq \<noteq> Directq \<and> no_taper_flushing st then
        let st = unqueue rq dp st;
            st = (if d_to_holdingdisk (disks st dp) \<noteq> HOLD_REQUIRED
                  then upd_disk dp (\<lambda>d. d\<lparr>d_to_holdingdisk := HOLD_NEVER\<rparr>) (enqueue Directq dp st) else st) in
        if queues st rq = [] \<and> active_dumper st = 0 then st\<lparr>force_flush := True\<rparr> else st
      else st)"

definition allow_dump_dle ::
  "int \<Rightarrow> bool \<Rightarrow> char \<Rightarrow> queue_name \<Rightarrow> nat \<Rightarrow> int \<Rightarrow> nat \<Rightarrow> driver \<times> pick \<Rightarrow> driver \<times> pick" where
  "allow_dump_dle now to_taper dumptype rq dumper_to_holding extra_tapes_size dp sk =
     (let st = fst sk; d = disks st dp; h = host_of st dp; net = netifs st (h_netif h);
          holdp = (if to_taper then None else find_diskspace (holdallocs st) (d_est_size d) None) in
      if h_start_t h > now then delay dp (h_start_t h) sk
      else if d_start_t d > now then delay dp (d_start_t d) sk
      else if n_curusage net > 0 \<and> d_est_kps d > free_kps net then waits_for IDLE_NO_BANDWIDTH sk
      else if \<not> to_taper \<and> d_no_space d then waits_for IDLE_NO_DISKSPACE sk
      else if \<not> to_taper \<and> d_to_holdingdisk d = HOLD_NEVER then waits_for IDLE_NO_HOLD sk
      else if extra_tapes_size \<noteq> 0 \<and> d_est_size d > extra_tapes_size then waits_for IDLE_NO_DISKSPACE sk
      else if \<not> to_taper \<and> holdp = None then
        apfst (no_room_for dp rq dumper_to_holding) (waits_for IDLE_NO_DISKSPACE sk)
      else if client_constrained st dp then waits_for IDLE_CLIENT_CONSTRAINED sk
      else accept_dump dumptype dp holdp sk)"

section \<open>Tapes\<close>

definition idle_taper :: "driver \<Rightarrow> nat option" where
  "idle_taper st =
     (let free = (\<lambda>flag t. let s = tp_state (tapers st ! t) in
            STATE_IDLE \<in> s \<and> flag \<in> s \<and> STATE_DONE \<notin> s \<and> STATE_FILE_TO_TAPE \<notin> s) in
      case List.find (free STATE_TAPE_STARTED) [0 ..< length (tapers st)] of
        Some t \<Rightarrow> Some t
      | None \<Rightarrow> List.find (free STATE_RESERVATION) [0 ..< length (tapers st)])"

datatype tape_act = SCAN | TAKE_NEW_TAPE | NO_TAPE | START_A_FLUSH | START_A_FLUSH_FIT | MOVE

text \<open>The sums of \<open>tape_action\<close> over the tapers that write or wait.\<close>

record tape_sums =
  z_tapeq_size :: int
  z_dle_free :: int
  z_new_data :: int
  z_next_tape :: int
  z_free :: int
  z_lost :: int

definition add_taper :: "driver \<Rightarrow> taper \<Rightarrow> tape_sums \<Rightarrow> tape_sums" where
  "add_taper st t z =
     (let started = STATE_TAPE_STARTED \<in> tp_state t;
          max_dle = conf_max_dle_by_volume (conf st);
          z = (if started then
                 z\<lparr>z_tapeq_size := z_tapeq_size z - tp_left t, z_dle_free := z_dle_free z + (max_dle - tp_nb_dle t)\<rparr>
               else z) in
      case tp_disk t of
        None \<Rightarrow> z
      | Some dp \<Rightarrow>
          let t_size = (if tp_dumper t \<noteq> None then d_est_size (disks st dp) else s_act_size (disks st dp));
              to_go = t_size - tp_written t;
              z = (if to_go > tp_left t then
                     let z = z\<lparr>z_next_tape := z_next_tape z + (to_go - tp_left t), z_lost := z_lost z + (tp_written t + tp_left t)\<rparr> in
                     if started then z\<lparr>z_dle_free := z_dle_free z - ((max_dle - tp_nb_dle t) + 1)\<rparr>
                     else z\<lparr>z_dle_free := z_dle_free z - 2, z_new_data := z_new_data z + t_size\<rparr>
                   else
                     let z = (if started then z else z\<lparr>z_dle_free := z_dle_free z - 1, z_new_data := z_new_data z + t_size\<rparr>) in
                     z\<lparr>z_free := z_free z + (tp_left t - to_go)\<rparr>) in
          z\<lparr>z_tapeq_size := z_tapeq_size z + to_go\<rparr>)"

definition tape_action :: "driver \<Rightarrow> nat \<Rightarrow> tape_act list" where
  "tape_action st ti =
     (let c = conf st; t = tapers st ! ti; s = tp_state t;
          est = (\<lambda>ds. sum_list (map (\<lambda>dp. d_est_size (disks st dp)) ds));
          act = (\<lambda>ds. sum_list (map (\<lambda>dp. s_act_size (disks st dp)) ds));
          dumpers_size = est (List.map_filter
            (\<lambda>dm. if dm_busy dm \<and> d_taper (disks st (the (dm_dp dm))) = None then dm_dp dm else None) (dumpers st));
          runq_size = est (queues st Runq);
          directq_size = est (queues st Directq);
          flushing = length (filter (\<lambda>t. STATE_FILE_TO_TAPE \<in> tp_state t \<or> STATE_DUMP_TO_TAPE \<in> tp_state t) (tapers st));
          z = fold (add_taper st) (tapers st)
            \<lparr>z_tapeq_size = directq_size + act (queues st Tapeq), z_dle_free = 0, z_new_data = 0, z_next_tape = 0, z_free = 0, z_lost = 0\<rparr>;
          new_dle = int (length (queues st Tapeq)) - z_dle_free z;
          new_data =
            (if new_dle > 0 then
               (if taperflush c = 0 \<and> flush_threshold_dumped c = 0 \<and> flush_threshold_scheduled c = 0 then z_new_data z + 1
                else z_new_data z + act (take (nat new_dle) (queues st Tapeq)))
             else z_new_data z);
          tapeq_size = (if new_dle > 0 \<and> z_tapeq_size z < new_data then new_data else z_tapeq_size z);
          lost_next_tape = tape_length c + z_free z - z_next_tape z - runq_size - directq_size - tapeq_size;
          sched_size = runq_size + directq_size + tapeq_size + dumpers_size;
          to_disk_terminated = (schedule_done st \<and> dumpers_size + runq_size + directq_size = 0);
          active = nb_sent_new_tape st + int (length (filter (\<lambda>t. STATE_TAPE_STARTED \<in> tp_state t) (tapers st)));
          taperflush_criteria = (taperflush c < tapeq_size \<and> (force_flush st \<or> to_disk_terminated));
          flush_criteria = ((flush_threshold_dumped c < tapeq_size \<and> flush_threshold_scheduled c < sched_size) \<or> taperflush_criteria);
          starved = (queues st Roomq \<noteq> [] \<or> idle_reason st = IDLE_NO_DISKSPACE);
          for_tape =
            (if STATE_TAPE_REQUESTED \<in> s then
               (if current_tape st \<ge> conf_runtapes c \<and> taper_nb_scan_volume st = 0 \<and> active = 0 then [NO_TAPE]
                else if current_tape st < conf_runtapes c \<and> taper_nb_scan_volume st = 0 \<and>
                  (flush_criteria \<or> z_lost z > lost_next_tape \<or> active = 0) \<and>
                  (last_started_taper st = None \<or> last_started_taper st = Some ti) then [SCAN]
                else [MOVE])
             else if STATE_WAIT_FOR_TAPE \<in> s \<and>
               (STATE_DUMP_TO_TAPE \<in> s \<or> queues st Directq \<noteq> [] \<or> starved \<or> flush_criteria \<or> z_lost z > lost_next_tape)
             then [TAKE_NEW_TAPE]
             else if STATE_WAIT_FOR_TAPE \<in> s \<and> taperflush c \<ge> tapeq_size \<and> (force_flush st \<or> to_disk_terminated) \<and>
               active \<le> 0 \<and> (current_tape st \<ge> conf_runtapes c \<or> dumpers_size \<le> 0)
             then [NO_TAPE]
             else []);
          for_flush =
            (if STATE_IDLE \<in> s \<and> \<not> degraded_mode st \<and> (queues st Tapeq \<noteq> [] \<or> queues st Directq \<noteq> []) \<and>
               (STATE_TAPE_STARTED \<in> s \<or> starved \<or> flush_criteria)
             then (if flushing = 0 then [START_A_FLUSH] else [START_A_FLUSH_FIT]) else []) in
      for_tape @ for_flush)"

end
