(* ===== verification/Driver_Steps.thy ===== *)
theory Driver_Steps
  imports Driver
begin

text \<open>
  The operations of the driver that move disks: going into degraded mode, giving a dump to a taper,
  starting dumps, waking dumps that wait for room, and the handlers of the messages (\<open>server-src/driver.c\<close>).
\<close>

section \<open>Degraded mode\<close>

text \<open>Without tapes, full dumps beyond the reserved space become incremental ones or fail.\<close>

definition degrade :: "dle \<Rightarrow> dle" where
  "degrade d = d\<lparr>d_level := d_degr_level d, d_est_nsize := d_degr_nsize d, d_est_csize := d_degr_csize d,
     d_est_time := d_degr_time d, d_est_kps := d_degr_kps d\<rparr>"

fun degrade_queue :: "nat list \<Rightarrow> int \<Rightarrow> driver \<Rightarrow> nat list \<times> driver" where
  "degrade_queue [] est_full_size st = ([], st)"
| "degrade_queue (dp # dps) est_full_size st =
     (let d = disks st dp in
      if d_level d \<noteq> 0 then apfst ((#) dp) (degrade_queue dps est_full_size st)
      else if reserved_space (conf st) + est_full_size + d_est_size d \<le> total_disksize (conf st) then
        apfst ((#) dp) (degrade_queue dps (est_full_size + d_est_size d) st)
      else if d_degr_level d \<noteq> - 1 then apfst ((#) dp) (degrade_queue dps est_full_size (upd_disk dp degrade st))
      else degrade_queue dps est_full_size st)"

definition start_degraded_mode :: "driver \<Rightarrow> driver" where
  "start_degraded_mode st =
     (if \<not> need_degraded st \<and> \<not> list_all (\<lambda>t. STATE_DONE \<in> tp_state t) (tapers st) then st
      else
        let st = st\<lparr>need_degraded := True\<rparr> in
        if \<not> schedule_done st \<or> degraded_mode st then st
        else
          case degrade_queue (queues st Runq) 0 st of (newq, st) \<Rightarrow>
            st\<lparr>queues := (queues st)(Runq := newq), degraded_mode := True\<rparr>)"

section \<open>A dump for a taper\<close>

fun strcmp_le :: "string \<Rightarrow> string \<Rightarrow> bool" where
  "strcmp_le [] t \<longleftrightarrow> True"
| "strcmp_le (c # cs) [] \<longleftrightarrow> False"
| "strcmp_le (c # cs) (e # es) \<longleftrightarrow> (of_char c :: nat) < of_char e \<or> c = e \<and> strcmp_le cs es"

text \<open>
  The loops of \<open>startaflush_tape\<close> over the tape queue: the last disk in the order of the loop that is eligible
  and beats the one chosen before, starting from \<open>dp\<close>.
\<close>

definition scan_queue :: "(nat \<Rightarrow> bool) \<Rightarrow> (nat \<Rightarrow> nat \<Rightarrow> bool) \<Rightarrow> nat option \<Rightarrow> nat list \<Rightarrow> nat option" where
  "scan_queue eligible beats dp fits =
     foldl (\<lambda>dp fit. if eligible fit \<and> (case dp of None \<Rightarrow> True | Some d \<Rightarrow> beats fit d) then Some fit else dp) dp fits"

definition pick_for_taper :: "taperalgo \<Rightarrow> (nat \<Rightarrow> dle) \<Rightarrow> nat list \<Rightarrow> int \<Rightarrow> int \<Rightarrow> nat option" where
  "pick_for_taper algo ds q extra_tapes_size taper_left =
     (let old = (\<lambda>dp. strcmp_le (d_datestamp (ds dp)) (d_datestamp (ds (hd q))));
          fits = (\<lambda>dp. s_act_size (ds dp) \<le> (if d_splitsize (ds dp) \<noteq> 0 then extra_tapes_size else taper_left) \<and> old dp);
          larger = (\<lambda>dp e. s_act_size (ds dp) > s_act_size (ds e));
          smaller = (\<lambda>dp e. s_act_size (ds dp) < s_act_size (ds e)) in
      case algo of
        ALGO_FIRST \<Rightarrow> Some (hd q)
      | ALGO_FIRSTFIT \<Rightarrow> List.find fits q
      | ALGO_LARGEST \<Rightarrow> scan_queue old larger (Some (hd q)) q
      | ALGO_LARGESTFIT \<Rightarrow> scan_queue fits larger None q
      | ALGO_SMALLEST \<Rightarrow> scan_queue old smaller (Some (hd q)) q
      | ALGO_SMALLESTFIT \<Rightarrow> scan_queue fits smaller (Some (hd q)) q
      | ALGO_LAST \<Rightarrow> Some (last q)
      | ALGO_LASTFIT \<Rightarrow> scan_queue fits smaller None (rev q))"

definition fit_algo :: "taperalgo \<Rightarrow> taperalgo" where
  "fit_algo algo =
     (case algo of ALGO_FIRST \<Rightarrow> ALGO_FIRSTFIT | ALGO_LARGEST \<Rightarrow> ALGO_LARGESTFIT | ALGO_SMALLEST \<Rightarrow> ALGO_SMALLESTFIT
      | ALGO_LAST \<Rightarrow> ALGO_LASTFIT | a \<Rightarrow> a)"

text \<open>What is left on the tapes, and the tapes to come, less what the tapers still have to write.\<close>

definition extra_tapes :: "driver \<Rightarrow> (dle \<Rightarrow> int) \<Rightarrow> int" where
  "extra_tapes st size_of =
     foldl (\<lambda>x t.
         let x = (if STATE_TAPE_STARTED \<in> tp_state t then x + tp_left t else x) in
         case tp_disk t of None \<Rightarrow> x | Some dp \<Rightarrow> x - (size_of (disks st dp) - tp_written t))
       (tape_length (conf st) * (conf_runtapes (conf st) - current_tape st)) (tapers st)"

definition listen_to_taper :: "driver \<Rightarrow> driver" where
  "listen_to_taper st = (if taper_nb_wait_reply st = 0 then st\<lparr>taper_listening := True\<rparr> else st)"

definition start_file_write :: "nat \<Rightarrow> nat \<Rightarrow> driver \<Rightarrow> fault + driver" where
  "start_file_write ti dp =
     steps
       [pure (unqueue Tapeq dp),
        pure (upd_taper ti (\<lambda>t. t\<lparr>tp_disk := Some dp, tp_dumper := None, tp_input_error := None, tp_tape_error := None,
          tp_result := LAST_TOK, tp_sendresult := False, tp_first_label := None, tp_written := 0,
          tp_state := insert STATE_FILE_TO_TAPE (tp_state t - {STATE_IDLE})\<rparr>)),
        pure listen_to_taper,
        pure (\<lambda>st. st\<lparr>taper_nb_wait_reply := taper_nb_wait_reply st + 1\<rparr>),
        pure (upd_taper ti (\<lambda>t. t\<lparr>tp_nb_dle := tp_nb_dle t + 1\<rparr>)),
        pure (upd_disk dp (\<lambda>d. d\<lparr>d_taper := Some ti\<rparr>)),
        taper_cmd FILE_WRITE (Some dp)]"

text \<open>\<open>sched(tapeq.head)\<close> is read before the queue is searched: the queue is not empty here.\<close>

definition flush_one :: "nat \<Rightarrow> tape_act list \<Rightarrow> driver \<Rightarrow> fault + driver" where
  "flush_one ti acts st =
     (let t = tapers st ! ti; q = queues st Tapeq; ds = disks st;
          fit = START_A_FLUSH_FIT \<in> set acts;
          extra_tapes_size = extra_tapes st s_act_size;
          taper_left = (if STATE_TAPE_STARTED \<in> tp_state t then tp_left t else tape_length (conf st));
          algo = (if fit then fit_algo (conf_taperalgo (conf st)) else conf_taperalgo (conf st)) in
      if \<not> degraded_mode st \<and> STATE_IDLE \<in> tp_state t \<and> q \<noteq> [] \<and> (START_A_FLUSH \<in> set acts \<or> fit) then
        (case pick_for_taper algo ds q extra_tapes_size taper_left of
           Some dp \<Rightarrow> start_file_write ti dp st
         | None \<Rightarrow>
             if fit then Inr st
             else (case pick_for_taper ALGO_SMALLEST ds q extra_tapes_size taper_left of
                     Some dp \<Rightarrow> start_file_write ti dp st
                   | None \<Rightarrow> Inr st))
      else Inr st)"

definition act_on_tape :: "nat \<Rightarrow> tape_act list \<Rightarrow> driver \<Rightarrow> fault + driver" where
  "act_on_tape ti acts st =
     (let set_state = (\<lambda>f. pure (upd_taper ti (\<lambda>t. t\<lparr>tp_state := f (tp_state t)\<rparr>)));
          cmd = (\<lambda>c st. taper_cmd c (tp_disk (tapers st ! ti)) st) in
      if SCAN \<in> set acts then
        steps [set_state (\<lambda>s. insert STATE_WAIT_FOR_TAPE (s - {STATE_TAPE_REQUESTED})),
          pure (\<lambda>st. st\<lparr>taper_nb_scan_volume := taper_nb_scan_volume st + 1\<rparr>), cmd START_SCAN] st
      else if TAKE_NEW_TAPE \<in> set acts then
        steps [set_state (\<lambda>s. insert STATE_WAIT_NEW_TAPE (s - {STATE_WAIT_FOR_TAPE})),
          pure (\<lambda>st. st\<lparr>nb_sent_new_tape := nb_sent_new_tape st + 1\<rparr>), cmd NEW_TAPE] st
      else if NO_TAPE \<in> set acts then
        steps [set_state (\<lambda>s. s - {STATE_WAIT_FOR_TAPE}), cmd NO_NEW_TAPE, set_state (insert STATE_DONE),
          pure start_degraded_mode] st
      else if MOVE \<in> set acts then
        (case idle_taper st of
           None \<Rightarrow> Inr st
         | Some t1 \<Rightarrow>
             steps [set_state (\<lambda>s. s - {STATE_TAPE_REQUESTED, STATE_WAIT_FOR_TAPE}), cmd TAKE_SCRIBE_FROM,
               pure (upd_taper t1 (\<lambda>t. t\<lparr>tp_state := {}\<rparr>)), set_state (insert STATE_TAPE_STARTED),
               pure (\<lambda>st. upd_taper ti (\<lambda>t. t\<lparr>tp_left := tp_left (tapers st ! t1), tp_nb_dle := tp_nb_dle t + 1\<rparr>) st),
               pure (\<lambda>st. if last_started_taper st = Some t1 then st\<lparr>last_started_taper := Some ti\<rparr> else st)] st)
      else Inr st)"

definition startaflush_tape :: "nat \<Rightarrow> driver \<Rightarrow> fault + driver" where
  "startaflush_tape ti st =
     (let acts = tape_action st ti in steps [act_on_tape ti acts, flush_one ti acts] st)"

text \<open>The table of tapers has one entry more than there are tapers, all zero: the loops pass over it.\<close>

definition startaflush_in :: "taper_flag \<Rightarrow> driver \<Rightarrow> fault + driver" where
  "startaflush_in flag st =
     steps (map (\<lambda>ti st. if STATE_DONE \<notin> tp_state (tapers st ! ti) \<and> flag \<in> tp_state (tapers st ! ti) then startaflush_tape ti st
         else Inr st) [0 ..< length (tapers st)]) st"

definition startaflush :: "driver \<Rightarrow> fault + driver" where
  "startaflush =
     steps [startaflush_in STATE_WAIT_FOR_TAPE, startaflush_in STATE_TAPE_REQUESTED, startaflush_in STATE_INIT,
       startaflush_in STATE_IDLE]"

section \<open>Starting dumps\<close>

definition dumptype_of :: "driver \<Rightarrow> nat \<Rightarrow> char" where
  "dumptype_of st i =
     (let order = conf_dumporder (conf st) in
      if length order > i then order ! i else if i < 3 then CHR ''t'' else CHR ''T'')"

definition clear_sizes :: "dle \<Rightarrow> dle" where
  "clear_sizes d = d\<lparr>d_origsize := - 1, d_dumpsize := - 1, d_dumptime := 0\<rparr>"

text \<open>The disk is taken: its host is busy, its bandwidth allocated, the dumper linked to it.\<close>

definition claim_disk :: "int \<Rightarrow> nat \<Rightarrow> nat \<Rightarrow> nat option \<Rightarrow> driver \<Rightarrow> driver" where
  "claim_disk now i dp ti st =
     (let h = d_host (disks st dp);
          st = upd_host h (\<lambda>h. h\<lparr>h_inprogress := h_inprogress h + 1\<rparr>) st;
          st = upd_disk dp (\<lambda>d. d\<lparr>d_inprogress := True, d_dumper := Some i, d_timestamp := now,
                 d_taper := (case ti of None \<Rightarrow> d_taper d | Some t \<Rightarrow> Some t)\<rparr>) st in
      upd_dumper i (\<lambda>m. m\<lparr>dm_busy := True, dm_dp := Some dp\<rparr>) st)"

definition set_destname :: "nat \<Rightarrow> driver \<Rightarrow> fault + driver" where
  "set_destname dp st =
     (case s_holdp (disks st dp) of
        Some (a # _) \<Rightarrow> Inr (upd_disk dp (\<lambda>d. d\<lparr>d_destname := hd_destname a\<rparr>) st)
      | _ \<Rightarrow> Inl Out_of_bounds)"

text \<open>
  A dump to the holding disk: the disk is taken and the chunker asked for a port. If it gives none, all
  that was taken is given back, and the disk may be tried once more.
\<close>

definition take_for_dump :: "world \<Rightarrow> nat \<Rightarrow> nat \<Rightarrow> assignedhd list \<Rightarrow> nat \<Rightarrow> (driver \<Rightarrow> fault + driver) list" where
  "take_for_dump w i dp holdp ip =
     [pure (upd_disk dp (\<lambda>d. d\<lparr>s_act_size := 0\<rparr>)),
      pure (\<lambda>st. allocate_bandwidth ip (d_est_kps (disks st dp)) st),
      assign_space holdp dp,
      set_destname dp,
      pure (claim_disk (w_now w) i dp None),
      pure (unqueue Runq dp),
      pure (upd_disk dp clear_sizes),
      pure (upd_dumper i (\<lambda>m. m\<lparr>dm_chunker := True, dm_result := LAST_TOK\<rparr>)),
      pure (upd_chunker i (\<lambda>c. c\<lparr>ch_result := LAST_TOK, ch_sendresult := False, ch_down := False, ch_open := True,
        ch_listening := False\<rparr>)),
      chunker_cmd i START None,
      pure (upd_chunker i (\<lambda>c. c\<lparr>ch_dumper := Some i\<rparr>)),
      chunker_cmd i PORT_WRITE (Some dp)]"

definition give_back :: "nat \<Rightarrow> nat \<Rightarrow> nat \<Rightarrow> nat \<Rightarrow> (driver \<Rightarrow> fault + driver) list" where
  "give_back i dp ip h =
     [\<lambda>st. deallocate_bandwidth ip (d_est_kps (disks st dp)) st,
      upd_active dp (\<lambda>a. a\<lparr>hd_used := 0\<rparr>) (\<lambda>ha. ha\<lparr>allocated_dumpers := allocated_dumpers ha - 1\<rparr>),
      adjust_space dp,
      delete_space dp,
      pure (upd_host h (\<lambda>h. h\<lparr>h_inprogress := h_inprogress h - 1\<rparr>)),
      pure (upd_disk dp (\<lambda>d. d\<lparr>d_inprogress := False, d_dumper := None\<rparr>)),
      pure (upd_dumper i (\<lambda>m. m\<lparr>dm_busy := False, dm_dp := None\<rparr>)),
      pure (upd_disk dp (\<lambda>d. d\<lparr>d_dump_attempted := d_dump_attempted d + 1\<rparr>)),
      pure (\<lambda>st. if d_dump_attempted (disks st dp) < 2 then enqueue Runq dp st else st)]"

definition start_on_disk :: "world \<Rightarrow> nat \<Rightarrow> nat \<Rightarrow> assignedhd list \<Rightarrow> driver \<Rightarrow> fault + driver" where
  "start_on_disk w i dp holdp st =
     (let ip = h_netif (host_of st dp); h = d_host (disks st dp) in
      steps
       (take_for_dump w i dp holdp ip @
        (if w_port_ok w i then
           [pure (upd_dumper i (\<lambda>m. m\<lparr>dm_listening := True\<rparr>)),
            pure (upd_chunker i (\<lambda>c. c\<lparr>ch_listening := True\<rparr>)),
            dumper_cmd i PORT_DUMP (Some dp)]
         else give_back i dp ip h) @
        [pure (upd_host h (\<lambda>h. h\<lparr>h_start_t := w_now w + 5\<rparr>)),
         pure (\<lambda>st. if queues st Runq = [] \<and> active_dumper st = 0 then st\<lparr>force_flush := True\<rparr> else st)]) st)"

definition start_on_tape :: "world \<Rightarrow> nat \<Rightarrow> nat \<Rightarrow> nat \<Rightarrow> driver \<Rightarrow> fault + driver" where
  "start_on_tape w i dp ti st =
     (let ip = h_netif (host_of st dp); h = d_host (disks st dp) in
      steps
       [pure (upd_disk dp (\<lambda>d. d\<lparr>s_act_size := 0\<rparr>)),
        pure (\<lambda>st. allocate_bandwidth ip (d_est_kps (disks st dp)) st),
        pure (claim_disk (w_now w) i dp (Some ti)),
        pure (upd_dumper i (\<lambda>m. m\<lparr>dm_chunker := False\<rparr>)),
        pure (unqueue Directq dp),
        pure (upd_disk dp clear_sizes),
        pure (upd_dumper i (\<lambda>m. m\<lparr>dm_result := LAST_TOK\<rparr>)),
        pure (upd_taper ti (\<lambda>t. t\<lparr>tp_result := LAST_TOK, tp_input_error := None, tp_tape_error := None, tp_disk := Some dp,
          tp_first_label := None, tp_written := 0, tp_dumper := Some i,
          tp_state := insert STATE_DUMP_TO_TAPE (tp_state t) - {STATE_IDLE}, tp_nb_dle := tp_nb_dle t + 1\<rparr>)),
        pure listen_to_taper,
        pure (\<lambda>st. st\<lparr>taper_nb_wait_reply := taper_nb_wait_reply st + 1\<rparr>),
        taper_cmd PORT_WRITE (Some dp),
        pure (upd_host h (\<lambda>h. h\<lparr>h_start_t := w_now w + 5\<rparr>))] st)"

text \<open>The search of one dumper: first the dumps for an idle taper, then the run queue.\<close>

definition search_direct :: "world \<Rightarrow> nat \<Rightarrow> nat \<Rightarrow> driver \<times> pick \<Rightarrow> (driver \<times> pick) \<times> nat option" where
  "search_direct w i dumper_to_holding sk =
     (let st = fst sk in
      case (if queues st Directq = [] then None else idle_taper st) of
        None \<Rightarrow> (sk, None)
      | Some ti \<Rightarrow>
          let acts = tape_action st ti in
          if START_A_FLUSH \<in> set acts \<or> START_A_FLUSH_FIT \<in> set acts then
            let extra = (if START_A_FLUSH_FIT \<in> set acts then extra_tapes st d_est_size else 0);
                sk = fold (allow_dump_dle (w_now w) True (dumptype_of st i) Directq dumper_to_holding extra) (queues st Directq) sk in
            (sk, if k_disk (snd sk) = None then None else Some ti)
          else (sk, None))"

definition search_dump :: "world \<Rightarrow> nat \<Rightarrow> nat \<Rightarrow> driver \<Rightarrow> (driver \<times> pick) \<times> nat option" where
  "search_dump w i dumper_to_holding st =
     (case search_direct w i dumper_to_holding
             (st, \<lparr>k_idle = NOT_IDLE, k_delayed = None, k_disk = None, k_holdp = None\<rparr>) of
        (sk, Some ti) \<Rightarrow> (sk, Some ti)
      | (sk, None) \<Rightarrow>
          (fold (allow_dump_dle (w_now w) False (dumptype_of st i) Runq dumper_to_holding 0) (queues (fst sk) Runq) sk, None))"

text \<open>One dumper of the loop of \<open>start_some_dumps\<close>; the flag says that the function returned.\<close>

definition try_dumper :: "world \<Rightarrow> nat \<Rightarrow> nat \<Rightarrow> driver \<Rightarrow> fault + bool \<times> driver" where
  "try_dumper w dumper_to_holding i st =
     (if dm_busy (dumpers st ! i) \<or> dm_down (dumpers st ! i) then Inr (False, st)
      else
        let st = upd_dumper i (\<lambda>m. m\<lparr>dm_listening := False\<rparr>) st in
        case search_dump w i dumper_to_holding st of ((st, k), ti) \<Rightarrow>
          let st = st\<lparr>idle_reason := max_idle (idle_reason st) (k_idle k)\<rparr> in
          bind_r (only_if (k_disk k = None \<and> idle_reason st = IDLE_NO_DISKSPACE) startaflush st) (\<lambda>st.
            case k_disk k of
              None \<Rightarrow>
                if k_delayed k \<noteq> None then
                  if sleep_time st > w_now w then
                    let sleep = sleep_time st - w_now w in
                    Inr (True, st\<lparr>sleep_time := sleep, dumpers_ev_time := Some sleep\<rparr>)
                  else Inl Assertion_failed
                else Inr (False, st)
            | Some dp \<Rightarrow>
                (case ti of
                   None \<Rightarrow>
                     (case k_holdp k of
                        None \<Rightarrow> Inl Out_of_bounds
                      | Some holdp \<Rightarrow> map_r (Pair False) (start_on_disk w i dp holdp st))
                 | Some t \<Rightarrow> map_r (Pair False) (start_on_tape w i dp t st))))"

fun try_dumpers :: "world \<Rightarrow> nat \<Rightarrow> nat list \<Rightarrow> driver \<Rightarrow> fault + driver" where
  "try_dumpers w dumper_to_holding [] st = Inr st"
| "try_dumpers w dumper_to_holding (i # is) st =
     bind_r (try_dumper w dumper_to_holding i st) (\<lambda>(stop, st).
       if stop then Inr st else try_dumpers w dumper_to_holding is st)"

definition start_some_dumps :: "world \<Rightarrow> driver \<Rightarrow> fault + driver" where
  "start_some_dumps w st =
     (if \<not> taper_started st then Inr st
      else
        let dumper_to_holding = length (filter
              (\<lambda>m. dm_busy m \<and> d_to_holdingdisk (disks st (the (dm_dp m))) \<noteq> HOLD_NEVER) (dumpers st)) in
        try_dumpers w dumper_to_holding [0 ..< length (dumpers st)]
          (st\<lparr>idle_reason := IDLE_NO_DUMPERS, sleep_time := 0, dumpers_ev_time := None\<rparr>))"

definition handle_dumpers_time :: "world \<Rightarrow> driver \<Rightarrow> fault + driver" where
  "handle_dumpers_time w st = start_some_dumps w (st\<lparr>dumpers_ev_time := None\<rparr>)"

end
