(* ===== verification/Driver_Handlers.thy ===== *)
theory Driver_Handlers
  imports Driver_Steps
begin

text \<open>
  The handlers of the driver (\<open>server-src/driver.c\<close>): what a message of a dumper, a chunker or the taper does.
  A handler reads one message a step. The serial number of a message is taken to be the one of the disk the
  driver has for it; the code ends the program otherwise.
\<close>

section \<open>Waiting for room\<close>

text \<open>The last reservation of a dump: \<open>h[i]\<close> with \<open>h[i+1]\<close> the end of the list.\<close>

definition last_hold :: "dle \<Rightarrow> assignedhd option" where
  "last_hold d = (case s_holdp d of None \<Rightarrow> None | Some h \<Rightarrow> if h = [] then None else Some (last h))"

definition dumper_of :: "nat \<Rightarrow> driver \<Rightarrow> nat option" where
  "dumper_of dp st = List.find (\<lambda>i. dm_dp (dumpers st ! i) = Some dp) [0 ..< length (dumpers st)]"

definition grant_room :: "nat \<Rightarrow> driver \<Rightarrow> fault + driver" where
  "grant_room dp st =
     (let d = disks st dp in
      case last_hold d of
        None \<Rightarrow> Inl Out_of_bounds
      | Some pref \<Rightarrow>
          (case find_diskspace (holdallocs st) (d_est_size d - s_act_size d) (Some pref) of
             None \<Rightarrow> Inr st
           | Some h \<Rightarrow>
               (case dumper_of dp st of
                  None \<Rightarrow> Inl Assertion_failed
                | Some i \<Rightarrow>
                    if dm_chunker (dumpers st ! i) then
                      steps [assign_space h dp, chunker_cmd i CONTINUE (Some dp), pure (unqueue Roomq dp)] st
                    else Inl Out_of_bounds)))"

text \<open>
  If nothing moves any more, the smallest dump that waits is aborted and tried again straight to tape.
  Returns the numbers of busy dumpers and of those with a chunker that do not wait, and that dump.
\<close>

definition stuck_dumpers :: "driver \<Rightarrow> nat \<times> nat \<times> nat option" where
  "stuck_dumpers st =
     fold (\<lambda>m (busy, active, dp).
         if \<not> dm_busy m then (busy, active, dp)
         else
           let d = the (dm_dp m) in
           if d \<notin> set (queues st Roomq) then (busy + 1, if dm_chunker m then active + 1 else active, dp)
           else if (case dp of None \<Rightarrow> True | Some e \<Rightarrow> d_est_size (disks st e) > d_est_size (disks st d))
             then (busy + 1, active, Some d)
           else (busy + 1, active, dp))
       (dumpers st) (0, 0, None)"

definition abort_stuck :: "driver \<Rightarrow> fault + driver" where
  "abort_stuck st =
     (case stuck_dumpers st of
        (busy, active, Some dp) \<Rightarrow>
          if active = 0 \<and> busy > 0 \<and> ((no_taper_flushing st \<and> queues st Tapeq = []) \<or> degraded_mode st) \<and> pending_aborts st = 0 then
            (case d_dumper (disks st dp) of
               None \<Rightarrow> Inl Out_of_bounds
             | Some i \<Rightarrow>
                 steps [pure (upd_disk dp (\<lambda>d. d\<lparr>d_no_space := True\<rparr>)), pure (unqueue Roomq dp),
                   (\<lambda>st. if dm_chunker (dumpers st ! i) then chunker_cmd i ABORT None st else Inl Out_of_bounds),
                   dumper_cmd i ABORT None, pure (\<lambda>st. st\<lparr>pending_aborts := pending_aborts st + 1\<rparr>)] st)
          else Inr st
      | _ \<Rightarrow> Inr st)"

definition continue_port_dumps :: "driver \<Rightarrow> fault + driver" where
  "continue_port_dumps st = steps (map grant_room (queues st Roomq) @ [abort_stuck]) st"

section \<open>The end of a dump\<close>

text \<open>A failed dump is tried once more, a dump with data waits for the taper.\<close>

definition requeue_dump :: "bool \<Rightarrow> int \<Rightarrow> nat \<Rightarrow> driver \<Rightarrow> fault + driver" where
  "requeue_dump failed sz dp st =
     (if failed \<and> d_dump_attempted (disks st dp) \<le> 1 then
        bind_r (delete_space dp st) (pure (enqueue (if d_no_space (disks st dp) then Directq else Runq) dp))
      else if sz > DISK_BLOCK_KB then Inr (enqueue Tapeq dp st)
      else delete_space dp st)"

definition dumper_chunker_result :: "world \<Rightarrow> nat \<Rightarrow> driver \<Rightarrow> fault + driver" where
  "dumper_chunker_result w dp st =
     (case (d_dumper (disks st dp), s_holdp (disks st dp), d_destname (disks st dp)) of
        (Some i, Some h, Some destname) \<Rightarrow>
          let failed = (dm_result (dumpers st ! i) \<noteq> DONE \<or> ch_result (chunkers st ! i) \<noteq> DONE);
              before = sum_list (map hd_used (take (nat (d_activehd (disks st dp))) h));
              sz = w_file_size w destname;
              host = d_host (disks st dp) in
          steps
           [\<lambda>st. deallocate_bandwidth (h_netif (host_of st dp)) (d_est_kps (disks st dp)) st,
            upd_active dp (\<lambda>a. a\<lparr>hd_used := sz - before\<rparr>) (\<lambda>ha. ha\<lparr>allocated_dumpers := allocated_dumpers ha - 1\<rparr>),
            adjust_space dp,
            pure (upd_disk dp (\<lambda>d. d\<lparr>d_dump_attempted := d_dump_attempted d + 1\<rparr>)),
            requeue_dump failed sz dp,
            pure (upd_dumper i (\<lambda>m. m\<lparr>dm_busy := False\<rparr>)),
            pure (upd_host host (\<lambda>h. h\<lparr>h_inprogress := h_inprogress h - 1\<rparr>)),
            pure (upd_disk dp (\<lambda>d. d\<lparr>d_inprogress := False\<rparr>)),
            pure (upd_chunker i (\<lambda>c. c\<lparr>ch_open := False, ch_down := True\<rparr>)),
            pure (\<lambda>st. if ch_result (chunkers st ! i) = ABORT_FINISHED then st\<lparr>pending_aborts := pending_aborts st - 1\<rparr> else st),
            continue_port_dumps,
            start_some_dumps w,
            startaflush] st
      | _ \<Rightarrow> Inl Out_of_bounds)"

text \<open>A reply of the taper less: when none is due, the driver stops listening.\<close>

definition taper_replied :: "driver \<Rightarrow> driver" where
  "taper_replied st =
     (let st = st\<lparr>taper_nb_wait_reply := taper_nb_wait_reply st - 1\<rparr> in
      if taper_nb_wait_reply st = 0 then st\<lparr>taper_listening := False\<rparr> else st)"

definition retry_direct :: "bool \<Rightarrow> nat \<Rightarrow> driver \<Rightarrow> driver" where
  "retry_direct failed dp st =
     (if failed \<and> d_dump_attempted (disks st dp) \<le> 1 \<and> d_taper_attempted (disks st dp) \<le> 1 then enqueue Directq dp st else st)"

definition dumper_taper_result :: "world \<Rightarrow> nat \<Rightarrow> driver \<Rightarrow> fault + driver" where
  "dumper_taper_result w dp st =
     (case (d_dumper (disks st dp), d_taper (disks st dp)) of
        (Some i, Some ti) \<Rightarrow>
          let failed = (dm_result (dumpers st ! i) \<noteq> DONE \<or> tp_result (tapers st ! ti) \<noteq> DONE);
              host = d_host (disks st dp) in
          steps
           [pure (upd_disk dp (\<lambda>d. d\<lparr>d_dump_attempted := d_dump_attempted d + 1, d_taper_attempted := d_taper_attempted d + 1\<rparr>)),
            pure (retry_direct failed dp),
            pure (upd_dumper i (\<lambda>m. m\<lparr>dm_listening := False\<rparr>)),
            pure taper_replied,
            pure (upd_taper ti (\<lambda>t. t\<lparr>tp_state := insert STATE_IDLE (tp_state t - {STATE_DUMP_TO_TAPE}),
              tp_input_error := None, tp_tape_error := None\<rparr>)),
            pure (upd_dumper i (\<lambda>m. m\<lparr>dm_busy := False\<rparr>)),
            pure (upd_host host (\<lambda>h. h\<lparr>h_inprogress := h_inprogress h - 1\<rparr>)),
            pure (upd_disk dp (\<lambda>d. d\<lparr>d_inprogress := False\<rparr>)),
            (\<lambda>st. deallocate_bandwidth (h_netif (host_of st dp)) (d_est_kps (disks st dp)) st),
            pure (upd_taper ti (\<lambda>t. t\<lparr>tp_dumper := None, tp_disk := None\<rparr>)),
            pure (upd_disk dp (\<lambda>d. d\<lparr>d_dumper := None, d_taper := None\<rparr>)),
            start_some_dumps w] st
      | _ \<Rightarrow> Inl Out_of_bounds)"

definition forget_sched :: "dle \<Rightarrow> dle" where
  "forget_sched d = d\<lparr>d_scheduled := False\<rparr>"

text \<open>
  A holding file that cannot be read is dumped again, straight to tape; one the tape failed on is
  written again, once; one that is on tape is deleted.
\<close>

definition after_taper :: "taper \<Rightarrow> nat \<Rightarrow> driver \<Rightarrow> fault + driver" where
  "after_taper t dp st =
     (let d = disks st dp in
      if tp_input_error t \<noteq> None then
        (if d_datestamp d = driver_timestamp (conf st) \<and> d_taper_attempted d < 2 \<and> d_to_holdingdisk d \<noteq> HOLD_REQUIRED then
           Inr (headqueue Directq dp
             (upd_disk dp (\<lambda>d. d\<lparr>d_to_holdingdisk := HOLD_NEVER, d_dump_attempted := d_dump_attempted d - 1\<rparr>) st))
         else Inr (upd_disk dp forget_sched st))
      else if tp_tape_error t \<noteq> None then
        (if d_taper_attempted d \<ge> 2 then Inr (upd_disk dp forget_sched st) else Inr (headqueue Tapeq dp st))
      else if tp_result t \<noteq> DONE then Inr st
      else bind_r (delete_space dp st) (pure (upd_disk dp forget_sched)))"

definition file_taper_result :: "world \<Rightarrow> nat \<Rightarrow> driver \<Rightarrow> fault + driver" where
  "file_taper_result w dp st =
     (case d_taper (disks st dp) of
        None \<Rightarrow> Inl Out_of_bounds
      | Some ti \<Rightarrow>
          steps
           [pure (upd_disk dp (\<lambda>d. d\<lparr>d_taper_attempted := d_taper_attempted d + 1\<rparr>)),
            after_taper (tapers st ! ti) dp,
            pure (upd_taper ti (\<lambda>t. t\<lparr>tp_state := insert STATE_IDLE (tp_state t - {STATE_FILE_TO_TAPE}),
              tp_input_error := None, tp_tape_error := None, tp_disk := None\<rparr>)),
            pure taper_replied,
            continue_port_dumps,
            start_some_dumps w,
            startaflush] st)"

section \<open>Messages of a dumper\<close>

datatype dumper_msg = D_DONE int int | D_TRYAGAIN | D_FAILED | D_ABORT_FINISHED | D_BOGUS | D_OTHER

definition take_dumper_msg :: "nat \<Rightarrow> nat \<Rightarrow> dumper_msg \<Rightarrow> driver \<Rightarrow> fault + driver" where
  "take_dumper_msg i dp msg st =
     (let result = (\<lambda>c. upd_dumper i (\<lambda>m. m\<lparr>dm_result := c\<rparr>)) in
      case msg of
        D_DONE origsize dumptime \<Rightarrow>
          Inr (result DONE (upd_disk dp (\<lambda>d. d\<lparr>d_origsize := origsize, d_dumptime := dumptime\<rparr>) st))
      | D_TRYAGAIN \<Rightarrow> Inr (result TRYAGAIN st)
      | D_FAILED \<Rightarrow> Inr (result FAILED st)
      | D_ABORT_FINISHED \<Rightarrow> if pending_aborts st = 0 then Inl Assertion_failed else Inr (result ABORT_FINISHED st)
      | D_BOGUS \<Rightarrow>
          Inr (upd_dumper i (\<lambda>m. m\<lparr>dm_listening := False, dm_busy := False, dm_down := True, dm_result := BOGUS\<rparr>) st)
      | D_OTHER \<Rightarrow> Inl Assertion_failed)"

definition handle_dumper_result :: "world \<Rightarrow> nat \<Rightarrow> dumper_msg \<Rightarrow> driver \<Rightarrow> fault + driver" where
  "handle_dumper_result w i msg st =
     (case dm_dp (dumpers st ! i) of
        None \<Rightarrow> Inl Assertion_failed
      | Some dp \<Rightarrow>
          if \<not> d_scheduled (disks st dp) then Inl Assertion_failed
          else bind_r (take_dumper_msg i dp msg st) (\<lambda>st.
            let ok = (case msg of D_DONE _ _ \<Rightarrow> True | _ \<Rightarrow> False);
                answer = (if ok then DONE else FAILED) in
            if dm_chunker (dumpers st ! i) then
              bind_r
                (if ch_sendresult (chunkers st ! i) then
                   bind_r (chunker_cmd i answer (Some dp) st) (pure (upd_chunker i (\<lambda>c. c\<lparr>ch_sendresult := False\<rparr>)))
                 else Inr st) (\<lambda>st.
                if dm_result (dumpers st ! i) \<noteq> LAST_TOK \<and> ch_result (chunkers st ! i) \<noteq> LAST_TOK
                then dumper_chunker_result w dp st else Inr st)
            else
              bind_r (taper_cmd answer (Some dp) st) (\<lambda>st.
                (case d_taper (disks st dp) of
                   None \<Rightarrow> Inl Out_of_bounds
                 | Some ti \<Rightarrow>
                     let st = upd_taper ti (\<lambda>t. t\<lparr>tp_sendresult := False\<rparr>) st in
                     if tp_dumper (tapers st ! ti) \<noteq> None \<and> tp_result (tapers st ! ti) \<noteq> LAST_TOK
                     then dumper_taper_result w dp st else Inr st))))"

section \<open>Messages of a chunker\<close>

datatype chunker_msg =
    C_PARTIAL int | C_DONE int | C_TRYAGAIN | C_FAILED | C_DUMPER_STATUS | C_NO_ROOM int | C_RQ_MORE_DISK
  | C_ABORT_FINISHED | C_BOGUS | C_OTHER

text \<open>The estimate of a dump that has outgrown it: five per cent more, at least two blocks.\<close>

definition outgrow :: "dle \<Rightarrow> dle" where
  "outgrow d =
     (let act = d_est_size d;
          est = am_round ((act sdiv 20) * 21) DISK_BLOCK_KB in
      d\<lparr>s_act_size := act, d_est_size := (if est < act + 2 * DISK_BLOCK_KB then est + 2 * DISK_BLOCK_KB else est)\<rparr>)"

definition request_more :: "nat \<Rightarrow> nat \<Rightarrow> driver \<Rightarrow> fault + driver" where
  "request_more i dp st =
     bind_r (upd_active dp (\<lambda>a. a\<lparr>hd_used := hd_reserved a\<rparr>)
               (\<lambda>ha. ha\<lparr>allocated_dumpers := allocated_dumpers ha - 1\<rparr>) st) (\<lambda>st.
       let d = disks st dp; h = the (s_holdp d); k = nat (d_activehd d) in
       if k + 1 < length h then
         bind_r (pure (upd_disk dp (\<lambda>d. d\<lparr>d_activehd := d_activehd d + 1\<rparr>)) st) (chunker_cmd i CONTINUE (Some dp))
       else
         let st = upd_disk dp outgrow st; d = disks st dp in
         (case find_diskspace (holdallocs st) (d_est_size d - s_act_size d) (Some (h ! k)) of
            None \<Rightarrow> steps [pure (enqueue Roomq dp), continue_port_dumps, startaflush] st
          | Some h \<Rightarrow> steps [assign_space h dp, chunker_cmd i CONTINUE (Some dp)] st))"

text \<open>\<open>h\<close> and \<open>activehd\<close> of the code: the reservations, and that the current one exists.\<close>

definition holds_space :: "dle \<Rightarrow> bool" where
  "holds_space d \<longleftrightarrow> s_holdp d \<noteq> None \<and> d_activehd d \<ge> 0"

definition take_chunker_msg :: "nat \<Rightarrow> nat \<Rightarrow> chunker_msg \<Rightarrow> driver \<Rightarrow> fault + driver" where
  "take_chunker_msg i dp msg st =
     (let final = (\<lambda>c. upd_chunker i (\<lambda>ch. ch\<lparr>ch_listening := False, ch_result := c\<rparr>));
          quit = chunker_cmd i QUIT None;
          space = holds_space (disks st dp) in
      case msg of
        C_PARTIAL sz \<Rightarrow> quit (final PARTIAL (upd_disk dp (\<lambda>d. d\<lparr>d_dumpsize := sz\<rparr>) st))
      | C_DONE sz \<Rightarrow> quit (final DONE (upd_disk dp (\<lambda>d. d\<lparr>d_dumpsize := sz\<rparr>) st))
      | C_TRYAGAIN \<Rightarrow> quit (final TRYAGAIN st)
      | C_FAILED \<Rightarrow> quit (final FAILED st)
      | C_DUMPER_STATUS \<Rightarrow>
          if dm_result (dumpers st ! i) = LAST_TOK then Inr (upd_chunker i (\<lambda>ch. ch\<lparr>ch_sendresult := True\<rparr>) st)
          else chunker_cmd i (if dm_result (dumpers st ! i) = DONE then DONE else FAILED) (Some dp) st
      | C_NO_ROOM missing \<Rightarrow>
          if space then
            upd_active dp (\<lambda>a. a\<lparr>hd_used := hd_used a - missing, hd_reserved := hd_reserved a - missing\<rparr>)
              (\<lambda>ha. ha\<lparr>allocated_space := allocated_space ha - missing, disksize := disksize ha - missing\<rparr>) st
          else Inl Assertion_failed
      | C_RQ_MORE_DISK \<Rightarrow> if space then request_more i dp st else Inl Assertion_failed
      | C_ABORT_FINISHED \<Rightarrow> Inr (final ABORT_FINISHED st)
      | C_BOGUS \<Rightarrow> if space then Inr (final BOGUS st) else Inl Assertion_failed
      | C_OTHER \<Rightarrow> Inl Assertion_failed)"

definition handle_chunker_result :: "world \<Rightarrow> nat \<Rightarrow> chunker_msg \<Rightarrow> driver \<Rightarrow> fault + driver" where
  "handle_chunker_result w i msg st =
     (case ch_dumper (chunkers st ! i) of
        None \<Rightarrow> Inl Assertion_failed
      | Some j \<Rightarrow>
          (case dm_dp (dumpers st ! j) of
             None \<Rightarrow> Inl Assertion_failed
           | Some dp \<Rightarrow>
               if \<not> d_scheduled (disks st dp) \<or> d_destname (disks st dp) = None then Inl Assertion_failed
               else bind_r (take_chunker_msg i dp msg st) (\<lambda>st.
                 if ch_result (chunkers st ! i) \<noteq> LAST_TOK \<and> dm_result (dumpers st ! j) \<noteq> LAST_TOK
                 then dumper_chunker_result w dp st else Inr st)))"

section \<open>Messages of the taper\<close>

datatype taper_msg =
    T_TAPER_OK string
  | T_RESULT cmd nat string string string string "int option"  \<comment> \<open>\<open>FAILED\<close>, \<open>PARTIAL\<close> or \<open>DONE\<close>; how input and tape were; errors; size\<close>
  | T_PARTDONE nat string int int int                          \<comment> \<open>label, file number, kilobytes, size of the part\<close>
  | T_REQUEST_NEW_TAPE nat | T_NEW_TAPE nat | T_NO_NEW_TAPE nat | T_DUMPER_STATUS nat
  | T_TAPE_ERROR string string | T_PORT nat | T_BOGUS | T_OTHER

definition taper_from_name :: "string \<Rightarrow> driver \<Rightarrow> nat option" where
  "taper_from_name name st = List.find (\<lambda>ti. tp_name (tapers st ! ti) = name) [0 ..< length (tapers st)]"

text \<open>The taper of a message about a disk; it must be busy with that disk.\<close>

definition taper_of :: "nat \<Rightarrow> driver \<Rightarrow> fault + nat" where
  "taper_of dp st =
     (case d_taper (disks st dp) of
        None \<Rightarrow> Inl Out_of_bounds
      | Some ti \<Rightarrow>
          if length (tapers st) \<le> ti then Inl Out_of_bounds
          else if tp_disk (tapers st ! ti) = Some dp then Inr ti else Inl Assertion_failed)"

definition on_taper :: "nat \<Rightarrow> (nat \<Rightarrow> driver \<Rightarrow> fault + driver) \<Rightarrow> driver \<Rightarrow> fault + nat option \<times> driver" where
  "on_taper dp f st = bind_r (taper_of dp st) (\<lambda>ti. map_r (Pair (Some ti)) (f ti st))"

definition taper_result :: "cmd \<Rightarrow> nat \<Rightarrow> string \<Rightarrow> string \<Rightarrow> string \<Rightarrow> string \<Rightarrow> int option \<Rightarrow> nat \<Rightarrow> driver \<Rightarrow> driver" where
  "taper_result c dp input tape input_err tape_err sz ti st =
     (let fail = (\<lambda>f. upd_taper ti (\<lambda>t. (f t)\<lparr>tp_result := FAILED\<rparr>));
          off_tape = (\<lambda>t. t\<lparr>tp_state := tp_state t - {STATE_TAPE_STARTED}\<rparr>) in
      if input = ''INPUT-ERROR'' then fail (\<lambda>t. t\<lparr>tp_input_error := Some input_err\<rparr>) st
      else if input \<noteq> ''INPUT-GOOD'' then fail (\<lambda>t. t\<lparr>tp_tape_error := Some ''Taper protocol error''\<rparr>) st
      else if tape = ''TAPE-ERROR'' \<or> tape = ''TAPE-CONFIG'' then
        fail (\<lambda>t. (off_tape t)\<lparr>tp_tape_error := Some tape_err\<rparr>) st
      else if tape \<noteq> ''TAPE-GOOD'' then fail (\<lambda>t. (off_tape t)\<lparr>tp_tape_error := Some ''Taper protocol error''\<rparr>) st
      else upd_taper ti (\<lambda>t. t\<lparr>tp_result := c\<rparr>)
        (case sz of None \<Rightarrow> st | Some n \<Rightarrow> upd_disk dp (\<lambda>d. d\<lparr>d_dumpsize := n\<rparr>) st))"

text \<open>A new worker is started on the first taper that has not been used.\<close>

definition start_worker :: "driver \<Rightarrow> fault + driver" where
  "start_worker st =
     (case (if need_degraded st then None else List.find (\<lambda>ti. tp_state (tapers st ! ti) = {}) [0 ..< length (tapers st)]) of
        None \<Rightarrow> Inr st
      | Some ti \<Rightarrow>
          steps [pure (upd_taper ti (\<lambda>t. t\<lparr>tp_state := {STATE_INIT}\<rparr>)), pure listen_to_taper,
            pure (\<lambda>st. st\<lparr>taper_nb_wait_reply := taper_nb_wait_reply st + 1, taper_nb_scan_volume := taper_nb_scan_volume st + 1\<rparr>),
            taper_cmd START_TAPER None] st)"

definition stop_listening :: "driver \<Rightarrow> driver" where
  "stop_listening st = st\<lparr>taper_listening := False\<rparr>"

text \<open>What a taper's result means for its dump.\<close>

definition taper_done :: "world \<Rightarrow> nat \<Rightarrow> driver \<Rightarrow> fault + driver" where
  "taper_done w ti st =
     (case tp_disk (tapers st ! ti) of
        None \<Rightarrow> Inr st
      | Some dp \<Rightarrow>
          (case tp_dumper (tapers st ! ti) of
             Some j \<Rightarrow> if dm_result (dumpers st ! j) \<noteq> LAST_TOK then dumper_taper_result w dp st else Inr st
           | None \<Rightarrow> file_taper_result w dp st))"

definition taper_died :: "world \<Rightarrow> driver \<Rightarrow> fault + driver" where
  "taper_died w st =
     steps
      ([pure (\<lambda>st. st\<lparr>taper_started := True\<rparr>)] @
       map (\<lambda>ti st.
           if tp_disk (tapers st ! ti) \<noteq> None then
             taper_done w ti (upd_taper ti (\<lambda>t. t\<lparr>tp_tape_error := Some ''BOGUS'', tp_result := BOGUS\<rparr>) st)
           else Inr st) [0 ..< length (tapers st)] @
       [pure (\<lambda>st. if taper_listening st then st\<lparr>taper_listening := False, taper_nb_wait_reply := 0\<rparr> else st),
        pure (\<lambda>st. start_degraded_mode (st\<lparr>need_degraded := True\<rparr>)),
        pure (\<lambda>st. st\<lparr>queues := (queues st)(Tapeq := [])\<rparr>)]) st"

text \<open>Each message in turn; those that name a disk are about the taper that disk is assigned to.\<close>

definition taper_ok :: "world \<Rightarrow> nat \<Rightarrow> driver \<Rightarrow> fault + driver" where
  "taper_ok w ti =
     steps
       [pure (\<lambda>st. st\<lparr>taper_started := True\<rparr>),
        pure (upd_taper ti (\<lambda>t. t\<lparr>tp_left := 0, tp_nb_dle := 0, tp_disk := None, tp_dumper := None,
          tp_state := tp_state t - {STATE_INIT} \<union> {STATE_RESERVATION, STATE_IDLE}, tp_first_label := None\<rparr>)),
        pure (\<lambda>st. st\<lparr>taper_nb_scan_volume := taper_nb_scan_volume st - 1, last_started_taper := Some ti\<rparr>),
        pure taper_replied, start_some_dumps w, startaflush]"

definition taper_partdone :: "nat \<Rightarrow> string \<Rightarrow> int \<Rightarrow> int \<Rightarrow> int \<Rightarrow> nat \<Rightarrow> driver \<Rightarrow> fault + driver" where
  "taper_partdone dp label fileno kbytes partsize ti =
     steps
       [pure (upd_taper ti (\<lambda>t. if tp_first_label t = None then t\<lparr>tp_first_label := Some label, tp_first_fileno := fileno\<rparr> else t)),
        pure (upd_taper ti (\<lambda>t. t\<lparr>tp_written := tp_written t + kbytes\<rparr>)),
        pure (\<lambda>st. if tp_written (tapers st ! ti) > s_act_size (disks st dp)
                then upd_disk dp (\<lambda>d. d\<lparr>s_act_size := tp_written (tapers st ! ti)\<rparr>) st else st),
        pure (upd_taper ti (\<lambda>t. t\<lparr>tp_left := tp_left t - partsize\<rparr>))]"

definition taper_request_new_tape :: "world \<Rightarrow> nat \<Rightarrow> driver \<Rightarrow> fault + driver" where
  "taper_request_new_tape w ti st =
     (if STATE_DONE \<in> tp_state (tapers st ! ti) then taper_cmd NO_NEW_TAPE (tp_disk (tapers st ! ti)) st
      else steps
        [pure (upd_taper ti (\<lambda>t. t\<lparr>tp_state := insert STATE_TAPE_REQUESTED (tp_state t - {STATE_TAPE_STARTED})\<rparr>)),
         start_some_dumps w, startaflush] st)"

definition taper_new_tape :: "nat \<Rightarrow> driver \<Rightarrow> fault + driver" where
  "taper_new_tape ti =
     steps
       [pure (\<lambda>st. st\<lparr>nb_sent_new_tape := nb_sent_new_tape st - 1, taper_nb_scan_volume := taper_nb_scan_volume st - 1,
          current_tape := current_tape st + 1, last_started_taper := None\<rparr>),
        pure (\<lambda>st. upd_taper ti (\<lambda>t. t\<lparr>tp_nb_dle := 1, tp_left := tape_length (conf st),
          tp_state := insert STATE_TAPE_STARTED (tp_state t - {STATE_WAIT_NEW_TAPE})\<rparr>) st),
        start_worker]"

definition taper_no_new_tape :: "nat \<Rightarrow> driver \<Rightarrow> fault + driver" where
  "taper_no_new_tape ti =
     steps
       [pure (\<lambda>st. st\<lparr>nb_sent_new_tape := nb_sent_new_tape st - 1, taper_nb_scan_volume := taper_nb_scan_volume st - 1\<rparr>),
        pure (upd_taper ti (\<lambda>t. t\<lparr>tp_state := insert STATE_DONE (tp_state t)\<rparr>)),
        pure (\<lambda>st. start_degraded_mode (st\<lparr>last_started_taper := None\<rparr>))]"

definition taper_dumper_status :: "nat \<Rightarrow> nat \<Rightarrow> driver \<Rightarrow> fault + driver" where
  "taper_dumper_status dp ti st =
     (case tp_dumper (tapers st ! ti) of
        None \<Rightarrow> Inl Out_of_bounds
      | Some j \<Rightarrow>
          if dm_result (dumpers st ! j) = LAST_TOK then Inr (upd_taper ti (\<lambda>t. t\<lparr>tp_sendresult := True\<rparr>) st)
          else taper_cmd (if dm_result (dumpers st ! j) = DONE then DONE else FAILED) (Some dp) st)"

definition taper_tape_error :: "world \<Rightarrow> string \<Rightarrow> string \<Rightarrow> driver \<Rightarrow> fault + nat option \<times> driver" where
  "taper_tape_error w name err st =
     (let finish = (\<lambda>st.
          let st = (if taper_nb_wait_reply st = 0 then stop_listening (st\<lparr>need_degraded := True\<rparr>) else st) in
          start_some_dumps w (start_degraded_mode st)) in
      if name = ''SETUP'' then
        map_r (Pair None) (finish (st\<lparr>taper_started := True, taper_nb_wait_reply := 0, taper_nb_scan_volume := 0, need_degraded := True\<rparr>))
      else
        (case taper_from_name name st of
           None \<Rightarrow> Inl Assertion_failed
         | Some ti \<Rightarrow>
             map_r (Pair (Some ti)) (finish (upd_taper ti (\<lambda>t. t\<lparr>tp_state := {STATE_DONE}, tp_tape_error := Some err\<rparr>)
               (st\<lparr>taper_started := True, taper_nb_wait_reply := taper_nb_wait_reply st - 1,
                   taper_nb_scan_volume := taper_nb_scan_volume st - 1\<rparr>)))))"

definition taper_port :: "world \<Rightarrow> nat \<Rightarrow> nat \<Rightarrow> driver \<Rightarrow> fault + driver" where
  "taper_port w dp ti st =
     (case d_dumper (disks st dp) of
        None \<Rightarrow> Inl Out_of_bounds
      | Some j \<Rightarrow>
          steps
           [pure (upd_taper ti (\<lambda>t. t\<lparr>tp_input_error := None, tp_tape_error := None, tp_first_label := None,
              tp_written := 0, tp_state := insert STATE_DUMP_TO_TAPE (tp_state t)\<rparr>)),
            dumper_cmd j PORT_DUMP (Some dp),
            pure (upd_host (d_host (disks st dp)) (\<lambda>h. h\<lparr>h_start_t := w_now w + 5\<rparr>)),
            pure (upd_dumper j (\<lambda>m. m\<lparr>dm_listening := True\<rparr>))] st)"

text \<open>What a message does, and the taper it is about.\<close>

definition take_taper_msg :: "world \<Rightarrow> taper_msg \<Rightarrow> driver \<Rightarrow> fault + nat option \<times> driver" where
  "take_taper_msg w msg st =
     (case msg of
        T_TAPER_OK name \<Rightarrow>
          (case taper_from_name name st of
             None \<Rightarrow> Inl Assertion_failed
           | Some ti \<Rightarrow> map_r (Pair (Some ti)) (taper_ok w ti st))
      | T_RESULT c dp input tape input_err tape_err sz \<Rightarrow>
          on_taper dp (\<lambda>ti. pure (taper_result c dp input tape input_err tape_err sz ti)) st
      | T_PARTDONE dp label fileno kbytes partsize \<Rightarrow> on_taper dp (taper_partdone dp label fileno kbytes partsize) st
      | T_REQUEST_NEW_TAPE dp \<Rightarrow> on_taper dp (taper_request_new_tape w) st
      | T_NEW_TAPE dp \<Rightarrow> on_taper dp taper_new_tape st
      | T_NO_NEW_TAPE dp \<Rightarrow> on_taper dp taper_no_new_tape st
      | T_DUMPER_STATUS dp \<Rightarrow> on_taper dp (taper_dumper_status dp) st
      | T_TAPE_ERROR name err \<Rightarrow> taper_tape_error w name err st
      | T_PORT dp \<Rightarrow> on_taper dp (taper_port w dp) st
      | T_BOGUS \<Rightarrow> map_r (Pair None) (taper_died w st)
      | T_OTHER \<Rightarrow> Inl Assertion_failed)"

definition handle_taper_result :: "world \<Rightarrow> taper_msg \<Rightarrow> driver \<Rightarrow> fault + driver" where
  "handle_taper_result w msg st =
     bind_r (take_taper_msg w msg st) (\<lambda>(about, st).
       bind_r
         (case about of
            None \<Rightarrow> Inr st
          | Some ti \<Rightarrow>
              (case tp_disk (tapers st ! ti) of
                 None \<Rightarrow> Inr st
               | Some dp \<Rightarrow>
                   if tp_result (tapers st ! ti) = LAST_TOK then Inr st
                   else bind_r
                     (only_if (tp_nb_dle (tapers st ! ti) \<ge> conf_max_dle_by_volume (conf st)) (taper_cmd CLOSE_VOLUME (Some dp)) st)
                     (taper_done w ti)))
         (steps [start_some_dumps w, startaflush]))"

end
