(* ===== verification/Driver_Books.thy ===== *)
theory Driver_Books
  imports Driver_Handlers
begin

text \<open>
  The driver keeps its books: \<open>ledger_of\<close> reads the abstract ledger of \<open>Ledger\<close> off a state of the
  driver, every operation of the driver is one of the transactions of the ledger or a sequence of them, and
  so the books are right in every state a run of the driver can reach, as long as only processes that
  work on a dump send messages.
\<close>

section \<open>The ledger of a state\<close>

definition ledger_of :: "driver \<Rightarrow> ledger" where
  "ledger_of st =
     \<lparr>l_run = d_inprogress \<circ> disks st, l_kps = d_est_kps \<circ> disks st, l_host = d_host \<circ> disks st,
      l_spindle = d_spindle \<circ> disks st, l_dumper = d_dumper \<circ> disks st, l_taper = d_taper \<circ> disks st,
      l_count = h_inprogress \<circ> hosts st, l_max = h_maxdumps \<circ> hosts st, l_netif = h_netif \<circ> hosts st,
      l_disks = h_disks \<circ> hosts st, l_cur = n_curusage \<circ> netifs st,
      l_link = map dm_dp (dumpers st), l_taken = map (\<lambda>m. dm_busy m \<or> dm_down m) (dumpers st),
      l_chunk = map dm_chunker (dumpers st), l_pending = map (\<lambda>c. ch_result c = LAST_TOK) (chunkers st),
      l_tape = map (\<lambda>t. (tp_disk t, tp_dumper t)) (tapers st), l_queue = queues st\<rparr>"

lemma ledger_of_sel:
  "l_run (ledger_of st) = d_inprogress \<circ> disks st" "l_kps (ledger_of st) = d_est_kps \<circ> disks st"
  "l_host (ledger_of st) = d_host \<circ> disks st" "l_spindle (ledger_of st) = d_spindle \<circ> disks st"
  "l_dumper (ledger_of st) = d_dumper \<circ> disks st" "l_taper (ledger_of st) = d_taper \<circ> disks st"
  "l_count (ledger_of st) = h_inprogress \<circ> hosts st" "l_max (ledger_of st) = h_maxdumps \<circ> hosts st"
  "l_netif (ledger_of st) = h_netif \<circ> hosts st" "l_disks (ledger_of st) = h_disks \<circ> hosts st"
  "l_cur (ledger_of st) = n_curusage \<circ> netifs st" "l_link (ledger_of st) = map dm_dp (dumpers st)"
  "l_taken (ledger_of st) = map (\<lambda>m. dm_busy m \<or> dm_down m) (dumpers st)"
  "l_chunk (ledger_of st) = map dm_chunker (dumpers st)"
  "l_pending (ledger_of st) = map (\<lambda>c. ch_result c = LAST_TOK) (chunkers st)"
  "l_tape (ledger_of st) = map (\<lambda>t. (tp_disk t, tp_dumper t)) (tapers st)" "l_queue (ledger_of st) = queues st"
  by (simp_all add: ledger_of_def)

lemma comp_upd_same: "g x = g (f y) \<Longrightarrow> g \<circ> f(y := x) = g \<circ> f"
  by (auto simp: fun_eq_iff)

lemma map_upd_same: "g x = g (xs ! i) \<Longrightarrow> map g (xs[i := x]) = map g xs"
  by (cases "i < length xs") (simp_all add: map_update list_update_same_conv list_update_beyond)

text \<open>What an update of one object does to the ledger.\<close>

definition quiet_disk :: "(dle \<Rightarrow> dle) \<Rightarrow> bool" where
  "quiet_disk f \<longleftrightarrow> (\<forall>d. d_inprogress (f d) = d_inprogress d \<and> d_est_kps (f d) = d_est_kps d \<and> d_host (f d) = d_host d \<and>
     d_spindle (f d) = d_spindle d \<and> d_dumper (f d) = d_dumper d \<and> d_taper (f d) = d_taper d)"

lemma ledger_quiet_disk: "quiet_disk f \<Longrightarrow> ledger_of (upd_disk dp f st) = ledger_of st"
  by (simp add: quiet_disk_def ledger_of_def upd_disk_def comp_upd_same)

lemma ledger_host:
  "(\<And>h. h_maxdumps (f h) = h_maxdumps h \<and> h_netif (f h) = h_netif h \<and> h_disks (f h) = h_disks h) \<Longrightarrow>
     ledger_of (upd_host h f st) = (ledger_of st)\<lparr>l_count := (l_count (ledger_of st))(h := h_inprogress (f (hosts st h)))\<rparr>"
  by (simp add: ledger_of_def upd_host_def comp_upd_same) (simp add: fun_upd_comp)

lemma ledger_netif:
  "ledger_of (upd_netif n f st) = (ledger_of st)\<lparr>l_cur := (l_cur (ledger_of st))(n := n_curusage (f (netifs st n)))\<rparr>"
  by (simp add: ledger_of_def upd_netif_def fun_upd_comp)

lemma ledger_dumper:
  "ledger_of (upd_dumper i f st) = (ledger_of st)\<lparr>
     l_link := (l_link (ledger_of st))[i := dm_dp (f (dumpers st ! i))],
     l_taken := (l_taken (ledger_of st))[i := dm_busy (f (dumpers st ! i)) \<or> dm_down (f (dumpers st ! i))],
     l_chunk := (l_chunk (ledger_of st))[i := dm_chunker (f (dumpers st ! i))]\<rparr>"
  by (simp add: ledger_of_def upd_dumper_def map_update)

lemma ledger_chunker:
  "ledger_of (upd_chunker i f st) = (ledger_of st)\<lparr>
     l_pending := (l_pending (ledger_of st))[i := ch_result (f (chunkers st ! i)) = LAST_TOK]\<rparr>"
  by (simp add: ledger_of_def upd_chunker_def map_update)

lemma ledger_taper:
  "ledger_of (upd_taper ti f st) = (ledger_of st)\<lparr>
     l_tape := (l_tape (ledger_of st))[ti := (tp_disk (f (tapers st ! ti)), tp_dumper (f (tapers st ! ti)))]\<rparr>"
  by (simp add: ledger_of_def upd_taper_def map_update)

lemma ledger_taper_set:
  assumes "\<forall>t. tp_disk (f t) = tp_disk (f undefined) \<and> tp_dumper (f t) = tp_dumper (f undefined)"
  shows "ledger_of (upd_taper ti f st) = (ledger_of st)\<lparr>
     l_tape := (l_tape (ledger_of st))[ti := (tp_disk (f undefined), tp_dumper (f undefined))]\<rparr>"
proof -
  have "tp_disk (f (tapers st ! ti)) = tp_disk (f undefined)" "tp_dumper (f (tapers st ! ti)) = tp_dumper (f undefined)"
    using assms by blast+
  then show ?thesis by (simp only: ledger_taper)
qed

definition quiet_dumper :: "(dumper \<Rightarrow> dumper) \<Rightarrow> bool" where
  "quiet_dumper f \<longleftrightarrow> (\<forall>m. dm_dp (f m) = dm_dp m \<and> (dm_busy (f m) \<or> dm_down (f m)) = (dm_busy m \<or> dm_down m) \<and> dm_chunker (f m) = dm_chunker m)"

lemma ledger_quiet_dumper: "quiet_dumper f \<Longrightarrow> ledger_of (upd_dumper i f st) = ledger_of st"
  by (simp add: quiet_dumper_def ledger_of_def upd_dumper_def map_upd_same)

definition quiet_chunker :: "(chunker \<Rightarrow> chunker) \<Rightarrow> bool" where
  "quiet_chunker f \<longleftrightarrow> (\<forall>c. ch_result (f c) = ch_result c)"

lemma ledger_quiet_chunker: "quiet_chunker f \<Longrightarrow> ledger_of (upd_chunker i f st) = ledger_of st"
  by (simp add: quiet_chunker_def ledger_of_def upd_chunker_def map_upd_same)

definition quiet_taper :: "(taper \<Rightarrow> taper) \<Rightarrow> bool" where
  "quiet_taper f \<longleftrightarrow> (\<forall>t. tp_disk (f t) = tp_disk t \<and> tp_dumper (f t) = tp_dumper t)"

lemma ledger_quiet_taper: "quiet_taper f \<Longrightarrow> ledger_of (upd_taper i f st) = ledger_of st"
  by (simp add: quiet_taper_def ledger_of_def upd_taper_def map_upd_same)

definition quiet_host :: "(host \<Rightarrow> host) \<Rightarrow> bool" where
  "quiet_host f \<longleftrightarrow> (\<forall>h. h_inprogress (f h) = h_inprogress h \<and> h_maxdumps (f h) = h_maxdumps h \<and> h_netif (f h) = h_netif h \<and>
     h_disks (f h) = h_disks h)"

lemma ledger_quiet_host: "quiet_host f \<Longrightarrow> ledger_of (upd_host h f st) = ledger_of st"
  by (simp add: quiet_host_def ledger_of_def upd_host_def comp_upd_same)

lemmas quiet_defs = quiet_disk_def quiet_dumper_def quiet_chunker_def quiet_taper_def quiet_host_def
lemmas ledger_quiet = ledger_quiet_disk ledger_quiet_dumper ledger_quiet_chunker ledger_quiet_taper ledger_quiet_host

lemma ledger_queues:
  "ledger_of (enqueue q dp st) = (ledger_of st)\<lparr>l_queue := (queues st)(q := queues st q @ [dp])\<rparr>"
  "ledger_of (headqueue q dp st) = (ledger_of st)\<lparr>l_queue := (queues st)(q := dp # queues st q)\<rparr>"
  "ledger_of (unqueue q dp st) = (ledger_of st)\<lparr>l_queue := (queues st)(q := remove1 dp (queues st q))\<rparr>"
  by (simp_all add: ledger_of_def enqueue_def headqueue_def unqueue_def)

lemma ledger_scalars [simp]:
  "ledger_of (st\<lparr>pending_aborts := n\<rparr>) = ledger_of st" "ledger_of (st\<lparr>degraded_mode := b\<rparr>) = ledger_of st"
  "ledger_of (st\<lparr>need_degraded := b\<rparr>) = ledger_of st" "ledger_of (st\<lparr>force_flush := b\<rparr>) = ledger_of st"
  "ledger_of (st\<lparr>taper_started := b\<rparr>) = ledger_of st" "ledger_of (st\<lparr>taper_listening := b\<rparr>) = ledger_of st"
  "ledger_of (st\<lparr>taper_nb_wait_reply := n\<rparr>) = ledger_of st" "ledger_of (st\<lparr>taper_nb_scan_volume := n\<rparr>) = ledger_of st"
  "ledger_of (st\<lparr>nb_sent_new_tape := n\<rparr>) = ledger_of st" "ledger_of (st\<lparr>last_started_taper := t\<rparr>) = ledger_of st"
  "ledger_of (st\<lparr>current_tape := n\<rparr>) = ledger_of st" "ledger_of (st\<lparr>sleep_time := n\<rparr>) = ledger_of st"
  "ledger_of (st\<lparr>idle_reason := r\<rparr>) = ledger_of st" "ledger_of (st\<lparr>dumpers_ev_time := e\<rparr>) = ledger_of st"
  "ledger_of (st\<lparr>sent_cmds := c\<rparr>) = ledger_of st" "ledger_of (st\<lparr>holdallocs := has\<rparr>) = ledger_of st"
  "ledger_of (send s st) = ledger_of st"
  by (simp_all add: ledger_of_def send_def)

section \<open>Sequences of statements\<close>

lemma bind_r_Inr [simp]: "bind_r r Inr = r"
  by (cases r) simp_all

lemma steps_simps: "steps [] = Inr" "steps (f # fs) st = bind_r (f st) (steps fs)"
proof -
  have fail: "foldl bind_r (Inl e) fs = Inl e" for e :: fault and fs :: "('s \<Rightarrow> fault + 's) list"
    by (induction fs) simp_all
  show "steps [] = (Inr :: 's \<Rightarrow> fault + 's)"  by (simp add: steps_def fun_eq_iff)
  show "steps (f # fs) st = bind_r (f st) (steps fs)"
    by (cases "f st") (simp_all add: steps_def fail)
qed

lemma steps_append: "steps (fs @ gs) st = bind_r (steps fs st) (steps gs)"
proof (induction fs arbitrary: st)
  case (Cons f fs)
  then show ?case by (cases "f st") (simp_all add: steps_simps)
qed (simp add: steps_simps)

lemma steps_keep:
  assumes "steps fs st = Inr st'" and "\<And>f s s'. f \<in> set fs \<Longrightarrow> f s = Inr s' \<Longrightarrow> P s \<Longrightarrow> P s'" and "P st"
  shows "P st'"
  using assms
proof (induction fs arbitrary: st)
  case (Cons f fs)
  then obtain s where s: "f st = Inr s" "steps fs s = Inr st'" by (auto simp: bind_r_eq_Inr_iff steps_simps)
  show ?case
  proof (rule Cons.IH)
    show "steps fs s = Inr st'" by (rule s(2))
    show "P s" using Cons.prems(2) [of f st s] s(1) Cons.prems(3) by simp
    show "\<And>g u u'. g \<in> set fs \<Longrightarrow> g u = Inr u' \<Longrightarrow> P u \<Longrightarrow> P u'" using Cons.prems(2) by (metis list.set_intros(2))
  qed
qed (simp add: steps_simps)

lemma pure_simp [simp]: "pure f st = Inr (f st)"
  by (simp add: pure_def)

lemma only_if_Inr: "only_if b f st = Inr st' \<longleftrightarrow> (if b then f st = Inr st' else st' = st)"
  by (auto simp: only_if_def)

text \<open>The operations on the holding disks and the commands leave the ledger as it is.\<close>

lemma assign_keeps:
  assumes "assign_holdingdisk nm h has d = Inr (l, has', d')"
  shows "\<exists>x. d' = s_holdp_update x d"
proof (cases "s_holdp d")
  case None
  then show ?thesis using assms by (auto simp: assign_holdingdisk_def Let_def)
next
  case (Some old)
  then show ?thesis
    using assms by (cases h) (auto simp: assign_holdingdisk_def Let_def split: if_splits)
qed

lemma ledger_assign: "assign_space h dp st = Inr st' \<Longrightarrow> ledger_of st' = ledger_of st"
  by (auto simp: assign_space_def map_r_eq_Inr_iff ledger_of_def dest!: assign_keeps intro!: comp_upd_same)

lemma ledger_adjust: "adjust_space dp st = Inr st' \<Longrightarrow> ledger_of st' = ledger_of st"
  by (auto simp: adjust_space_def map_r_eq_Inr_iff adjust_diskspace_def ledger_of_def
      split: option.splits intro!: comp_upd_same)

lemma ledger_delete: "delete_space dp st = Inr st' \<Longrightarrow> ledger_of st' = ledger_of st"
  by (auto simp: delete_space_def map_r_eq_Inr_iff delete_diskspace_def ledger_of_def
      split: option.splits list.splits intro!: comp_upd_same)

lemma ledger_active: "upd_active dp f g st = Inr st' \<Longrightarrow> ledger_of st' = ledger_of st"
  by (auto simp: upd_active_def Let_def ledger_quiet quiet_defs split: option.splits if_splits)

lemma ledger_chunker_cmd: "chunker_cmd i c dp st = Inr st' \<Longrightarrow> ledger_of st' = ledger_of st"
  by (auto simp: chunker_cmd_def Let_def bind_r_eq_Inr_iff ledger_quiet quiet_defs
      split: if_splits dest!: ledger_active)

lemma ledger_dumper_cmd: "dumper_cmd i c dp st = Inr st' \<Longrightarrow> ledger_of st' = ledger_of st"
  by (auto simp: dumper_cmd_def split: if_splits)

lemma ledger_taper_cmd: "taper_cmd c dp st = Inr st' \<Longrightarrow> ledger_of st' = ledger_of st"
  by (auto simp: taper_cmd_def split: if_splits option.splits)

lemmas ledger_ops = ledger_assign ledger_adjust ledger_delete ledger_active ledger_chunker_cmd ledger_dumper_cmd ledger_taper_cmd

section \<open>The transactions, as updates of the ledger\<close>

text \<open>What an operation does is said in terms of the ledger alone, so that a sequence of operations is a chain of updates.\<close>

lemma ledger_allocate:
  "ledger_of (allocate_bandwidth n kps st) =
     (ledger_of st)\<lparr>l_cur := (l_cur (ledger_of st))(n := l_cur (ledger_of st) n + kps)\<rparr>"
  by (simp add: allocate_bandwidth_def ledger_netif) (simp add: ledger_of_sel)

lemma ledger_deallocate:
  assumes "deallocate_bandwidth n kps st = Inr st'"
  shows "ledger_of st' = (ledger_of st)\<lparr>l_cur := (l_cur (ledger_of st))(n := l_cur (ledger_of st) n - kps)\<rparr>"
  using assms by (auto simp: deallocate_bandwidth_def ledger_netif ledger_of_sel split: if_splits)

lemma ledger_claim:
  "ledger_of (claim_disk now i dp ti st) = (ledger_of st)\<lparr>
     l_run := (l_run (ledger_of st))(dp := True), l_dumper := (l_dumper (ledger_of st))(dp := Some i),
     l_taper := (case ti of None \<Rightarrow> l_taper (ledger_of st) | Some t \<Rightarrow> (l_taper (ledger_of st))(dp := Some t)),
     l_count := (l_count (ledger_of st))(l_host (ledger_of st) dp := l_count (ledger_of st) (l_host (ledger_of st) dp) + 1),
     l_link := (l_link (ledger_of st))[i := Some dp], l_taken := (l_taken (ledger_of st))[i := True]\<rparr>"
  by (cases ti) (simp_all add: claim_disk_def Let_def ledger_of_def upd_host_def upd_disk_def upd_dumper_def comp_upd_same map_upd_same,
    simp_all add: fun_upd_comp map_update)

lemma ledger_host_count:
  "ledger_of (upd_host h (\<lambda>h. h\<lparr>h_inprogress := h_inprogress h - 1\<rparr>) st) =
     (ledger_of st)\<lparr>l_count := (l_count (ledger_of st))(h := l_count (ledger_of st) h - 1)\<rparr>"
  by (simp add: ledger_host) (simp add: ledger_of_sel)

lemma ledger_disk_done:
  "ledger_of (upd_disk dp (\<lambda>d. d\<lparr>d_inprogress := False\<rparr>) st) =
     (ledger_of st)\<lparr>l_run := (l_run (ledger_of st))(dp := False)\<rparr>"
  "ledger_of (upd_disk dp (\<lambda>d. d\<lparr>d_inprogress := False, d_dumper := None\<rparr>) st) =
     (ledger_of st)\<lparr>l_run := (l_run (ledger_of st))(dp := False), l_dumper := (l_dumper (ledger_of st))(dp := None)\<rparr>"
  "ledger_of (upd_disk dp (\<lambda>d. d\<lparr>d_dumper := None, d_taper := None\<rparr>) st) =
     (ledger_of st)\<lparr>l_dumper := (l_dumper (ledger_of st))(dp := None), l_taper := (l_taper (ledger_of st))(dp := None)\<rparr>"
  "ledger_of (upd_disk dp (\<lambda>d. d\<lparr>d_taper := t\<rparr>) st) = (ledger_of st)\<lparr>l_taper := (l_taper (ledger_of st))(dp := t)\<rparr>"
  by (simp_all add: ledger_of_def upd_disk_def comp_upd_same, simp_all add: fun_upd_comp)

lemma ledger_queue_steps:
  "ledger_of (enqueue q dp st) = (ledger_of st)\<lparr>l_queue := (l_queue (ledger_of st))(q := l_queue (ledger_of st) q @ [dp])\<rparr>"
  "ledger_of (headqueue q dp st) = (ledger_of st)\<lparr>l_queue := (l_queue (ledger_of st))(q := dp # l_queue (ledger_of st) q)\<rparr>"
  "ledger_of (unqueue q dp st) = (ledger_of st)\<lparr>l_queue := (l_queue (ledger_of st))(q := remove1 dp (l_queue (ledger_of st) q))\<rparr>"
  by (simp_all add: ledger_queues ledger_of_sel)

lemma ledger_clear [simp]: "ledger_of (upd_disk dp clear_sizes st) = ledger_of st"
  by (simp add: ledger_quiet quiet_defs clear_sizes_def)

lemma ledger_listen_taper [simp]: "ledger_of (listen_to_taper st) = ledger_of st"
  by (simp add: listen_to_taper_def)

lemma ledger_replied [simp]: "ledger_of (taper_replied st) = ledger_of st"
  by (simp add: taper_replied_def Let_def)

lemma ledger_fresh_chunker:
  "ledger_of (upd_chunker i (\<lambda>c. c\<lparr>ch_result := LAST_TOK, ch_sendresult := False, ch_down := False, ch_open := True,
     ch_listening := False\<rparr>) st) = (ledger_of st)\<lparr>l_pending := (l_pending (ledger_of st))[i := True]\<rparr>"
  by (simp add: ledger_chunker)

lemma ledger_dumper_chunker:
  "ledger_of (upd_dumper i (\<lambda>m. m\<lparr>dm_chunker := b, dm_result := c\<rparr>) st) = (ledger_of st)\<lparr>l_chunk := (l_chunk (ledger_of st))[i := b]\<rparr>"
  "ledger_of (upd_dumper i (\<lambda>m. m\<lparr>dm_chunker := b\<rparr>) st) = (ledger_of st)\<lparr>l_chunk := (l_chunk (ledger_of st))[i := b]\<rparr>"
  by (simp_all add: ledger_of_def upd_dumper_def map_upd_same, simp_all add: map_update)

end
