(* ===== verification/Driver_Keeps.thy ===== *)
theory Driver_Keeps
  imports Driver_Books
begin

text \<open>
  Every operation of the driver keeps its books: degraded mode, giving dumps to tapers, waking dumps that
  wait for room, starting dumps, and the ends of dumps.
\<close>

definition books :: "driver \<Rightarrow> bool" where
  "books st \<longleftrightarrow> books_ok (ledger_of st)"

lemma books_same: "ledger_of st' = ledger_of st \<Longrightarrow> books st \<Longrightarrow> books st'"
  by (simp add: books_def)

lemma submset_add: "A \<subseteq># B \<Longrightarrow> A \<subseteq># add_mset x B"
  by (auto simp: subseteq_mset_def intro: le_SucI)

section \<open>Degraded mode\<close>

lemma degrade_queue_calm:
  assumes "degrade_queue q n st = (newq, st')" and "\<forall>dp \<in> set q. \<not> d_inprogress (disks st dp)"
  shows "calm (ledger_of st) (ledger_of st') \<and> l_taper (ledger_of st') = l_taper (ledger_of st) \<and>
    l_tape (ledger_of st') = l_tape (ledger_of st) \<and> queues st' = queues st \<and> mset newq \<subseteq># mset q"
  using assms
proof (induction q n st arbitrary: newq st' rule: degrade_queue.induct)
  case (2 dp dps n st)
  have idle: "\<not> d_inprogress (disks st dp)" "\<forall>e \<in> set dps. \<not> d_inprogress (disks st e)" using 2(6) by simp_all
  let ?st = "upd_disk dp degrade st"
  have idle': "\<forall>e \<in> set dps. \<not> d_inprogress (disks ?st e)" using idle by (simp add: upd_disk_def degrade_def)
  have deg: "calm (ledger_of st) (ledger_of ?st)" "l_taper (ledger_of ?st) = l_taper (ledger_of st)"
    "l_tape (ledger_of ?st) = l_tape (ledger_of st)" "queues ?st = queues st"
    using idle(1) by (auto simp: calm_def ledger_of_sel upd_disk_def degrade_def comp_upd_same)
  consider (keep) m q' where "degrade_queue dps m st = (q', st')" "newq = dp # q'" "mset q' \<subseteq># mset dps \<Longrightarrow> mset newq \<subseteq># mset (dp # dps)"
      "calm (ledger_of st) (ledger_of st') \<and> l_taper (ledger_of st') = l_taper (ledger_of st) \<and>
        l_tape (ledger_of st') = l_tape (ledger_of st) \<and> queues st' = queues st \<and> mset q' \<subseteq># mset dps"
    | (low) q' where "newq = dp # q'"
      "calm (ledger_of ?st) (ledger_of st') \<and> l_taper (ledger_of st') = l_taper (ledger_of ?st) \<and>
        l_tape (ledger_of st') = l_tape (ledger_of ?st) \<and> queues st' = queues ?st \<and> mset q' \<subseteq># mset dps"
    | (fail) "calm (ledger_of st) (ledger_of st') \<and> l_taper (ledger_of st') = l_taper (ledger_of st) \<and>
        l_tape (ledger_of st') = l_tape (ledger_of st) \<and> queues st' = queues st \<and> mset newq \<subseteq># mset dps"
    using 2 idle(2) idle' by (simp add: Let_def apfst_def map_prod_def split: if_splits prod.splits) blast+
  then show ?case
  proof cases
    case low
    then show ?thesis using deg calm_trans [OF deg(1)] by simp
  next
    case fail
    then show ?thesis using submset_add [of "mset newq" "mset dps" dp] by simp
  qed simp
qed simp

lemma waiting_mset: "mset (waiting q) = mset (q Runq) + mset (q Directq) + mset (q Tapeq)"
  by (simp add: waiting_def)

lemma books_degraded: "books st \<Longrightarrow> books (start_degraded_mode st)"
proof -
  assume ok: "books st"
  let ?s = "st\<lparr>need_degraded := True\<rparr>"
  obtain newq st' where d: "degrade_queue (queues ?s Runq) 0 ?s = (newq, st')" by fastforce
  have ok': "books_ok (ledger_of ?s)" using ok by (simp add: books_def)
  have idle: "\<forall>dp \<in> set (queues ?s Runq). \<not> d_inprogress (disks ?s dp)"
    using waiting_idle [OF ok'] by (simp add: waiting_def ledger_of_sel)
  note c = degrade_queue_calm [OF d idle]
  let ?r = "st'\<lparr>queues := (queues st')(Runq := newq), degraded_mode := True\<rparr>"
  have "ledger_of ?r = (ledger_of st')\<lparr>l_queue := (queues st')(Runq := newq)\<rparr>" by (simp add: ledger_of_def)
  then have "books ?r" unfolding books_def using c
    by (intro books_calm [OF ok', of "ledger_of ?r"]) (simp_all add: calm_def ledger_of_sel waiting_mset)
  then show ?thesis using ok d by (auto simp: start_degraded_mode_def Let_def books_def)
qed

lemma degraded_tapers [simp]: "length (tapers (start_degraded_mode st)) = length (tapers st)"
proof -
  have "tapers (snd (degrade_queue q n s)) = tapers s" for q n s
    by (induction q n s rule: degrade_queue.induct) (simp_all add: Let_def upd_disk_def)
  then show ?thesis by (simp add: start_degraded_mode_def Let_def split_beta)
qed

section \<open>Dumps for the tapers\<close>

text \<open>The number of tapers and dumpers does not change; it is kept with the books.\<close>

definition keeps :: "driver \<Rightarrow> driver \<Rightarrow> bool" where
  "keeps st st' \<longleftrightarrow> books st' \<and> length (tapers st') = length (tapers st) \<and> length (dumpers st') = length (dumpers st)"

lemma keeps_books: "keeps st st' \<Longrightarrow> books st'"
  by (simp add: keeps_def)

lemma keeps_refl: "books st \<Longrightarrow> keeps st st"
  by (simp add: keeps_def)

lemma keeps_trans: "keeps st s \<Longrightarrow> keeps s t \<Longrightarrow> keeps st t"
  by (simp add: keeps_def)

lemma sizes_of_ledger:
  "length (tapers st) = length (l_tape (ledger_of st))" "length (dumpers st) = length (l_link (ledger_of st))"
  by (simp_all add: ledger_of_sel)

lemma ledger_sizes:
  assumes "ledger_of st' = ledger_of st"
  shows "length (tapers st') = length (tapers st)" "length (dumpers st') = length (dumpers st)"
  using assms by (simp_all add: sizes_of_ledger)

lemma keeps_same: "ledger_of st' = ledger_of st \<Longrightarrow> books st \<Longrightarrow> keeps st st'"
  unfolding keeps_def using ledger_sizes books_same by blast

lemma keepsI:
  assumes "books_ok (ledger_of st')" and "length (l_tape (ledger_of st')) = length (l_tape (ledger_of st))"
    and "length (l_link (ledger_of st')) = length (l_link (ledger_of st))"
  shows "keeps st st'"
  unfolding keeps_def books_def sizes_of_ledger using assms by blast

text \<open>Statements that do not touch the ledger, and statements that keep the books.\<close>

definition quietly :: "(driver \<Rightarrow> fault + driver) \<Rightarrow> bool" where
  "quietly f \<longleftrightarrow> (\<forall>s s'. f s = Inr s' \<longrightarrow> ledger_of s' = ledger_of s)"

definition keeper :: "(driver \<Rightarrow> fault + driver) \<Rightarrow> bool" where
  "keeper f \<longleftrightarrow> (\<forall>s s'. books s \<longrightarrow> f s = Inr s' \<longrightarrow> keeps s s')"

lemma quietly_keeper: "quietly f \<Longrightarrow> keeper f"
  by (simp add: quietly_def keeper_def keeps_same)

lemma keeperD: "keeper f \<Longrightarrow> f s = Inr s' \<Longrightarrow> books s \<Longrightarrow> keeps s s'"
  by (simp add: keeper_def)

lemma quietly_pure [simp]: "(\<And>s. ledger_of (g s) = ledger_of s) \<Longrightarrow> quietly (pure g)"
  by (simp add: quietly_def)

lemma quietly_ops [simp]:
  "quietly (assign_space h dp)" "quietly (adjust_space dp)" "quietly (delete_space dp)" "quietly (upd_active dp f g)"
  "quietly (chunker_cmd i c d)" "quietly (dumper_cmd i c d)" "quietly (taper_cmd c d)"
  by (auto simp: quietly_def dest: ledger_ops)

lemma quietly_steps [simp]:
  assumes "list_all quietly fs" shows "quietly (steps fs)"
  unfolding quietly_def
proof (intro allI impI)
  fix s s' assume "steps fs s = Inr s'"
  then show "ledger_of s' = ledger_of s"
  proof (rule steps_keep)
    fix f u u' assume "f \<in> set fs" "f u = Inr u'" "ledger_of u = ledger_of s"
    moreover from this assms have "ledger_of u' = ledger_of u" unfolding list_all_iff quietly_def by blast
    ultimately show "ledger_of u' = ledger_of s" by simp
  qed simp
qed

lemma keeper_pure: "(\<And>s. books s \<Longrightarrow> keeps s (g s)) \<Longrightarrow> keeper (pure g)"
  by (simp add: keeper_def)

lemma keeper_Inr [simp]: "keeper Inr"
  by (simp add: keeper_def keeps_refl)

lemma keeper_steps:
  assumes "list_all keeper fs" shows "keeper (steps fs)"
  unfolding keeper_def
proof (intro allI impI)
  fix s s' assume s: "books s" "steps fs s = Inr s'"
  from s(2) show "keeps s s'"
  proof (rule steps_keep)
    fix f u u' assume f: "f \<in> set fs" "f u = Inr u'" "keeps s u"
    with assms have "keeps u u'" unfolding list_all_iff keeper_def using keeps_books by blast
    with f(3) show "keeps s u'" by (rule keeps_trans)
  qed (rule keeps_refl [OF s(1)])
qed

lemma keeperI: "(\<And>s s'. books s \<Longrightarrow> f s = Inr s' \<Longrightarrow> keeps s s') \<Longrightarrow> keeper f"
  by (simp add: keeper_def)

lemma steps_keeps: "steps fs s = Inr s' \<Longrightarrow> books s \<Longrightarrow> list_all keeper fs \<Longrightarrow> keeps s s'"
  using keeper_steps by (simp add: keeper_def)

lemma keeper_degraded: "keeper (pure start_degraded_mode)"
proof (rule keeper_pure)
  have "dumpers (snd (degrade_queue q n s)) = dumpers s" for q n s
    by (induction q n s rule: degrade_queue.induct) (simp_all add: Let_def upd_disk_def)
  then have "dumpers (start_degraded_mode st) = dumpers st" for st by (simp add: start_degraded_mode_def Let_def split_beta)
  then show "books st \<Longrightarrow> keeps st (start_degraded_mode st)" for st by (simp add: keeps_def books_degraded)
qed

lemma scan_queue_mem:
  assumes "scan_queue P R d q = Some x" and "\<And>y. d = Some y \<Longrightarrow> y \<in> A" and "set q \<subseteq> A"
  shows "x \<in> A"
  using assms
proof (induction q arbitrary: d)
  case (Cons a q)
  then show ?case
    by (auto simp: scan_queue_def split: if_splits option.splits)
qed (simp add: scan_queue_def)

lemma find_mem: "List.find P xs = Some x \<Longrightarrow> x \<in> set xs \<and> P x"
  by (auto simp: find_Some_iff)

lemma pick_for_taper_mem: "q \<noteq> [] \<Longrightarrow> pick_for_taper algo ds q x y = Some dp \<Longrightarrow> dp \<in> set q"
  by (cases algo) (auto simp: pick_for_taper_def Let_def dest!: find_mem dest: scan_queue_mem [where A = "set q"])

lemma start_file_write_keeps:
  assumes "start_file_write ti dp st = Inr st'" and "books st" and "dp \<in> set (queues st Tapeq)" and "ti < length (tapers st)"
  shows "keeps st st'"
proof -
  let ?L = "ledger_of st"
  have "ledger_of st' = ?L\<lparr>l_queue := (l_queue ?L)(Tapeq := remove1 dp (l_queue ?L Tapeq)),
      l_tape := (l_tape ?L)[ti := (Some dp, None)], l_taper := (l_taper ?L)(dp := Some ti)\<rparr>"
    using assms(1) by (auto simp: start_file_write_def steps_simps ledger_queue_steps ledger_taper_set ledger_quiet ledger_disk_done
        ledger_netif quiet_defs dest!: ledger_taper_cmd)
  note L = this
  have ok: "books_ok ?L" "dp \<in> set (l_queue ?L Tapeq)" "ti < length (l_tape ?L)"
    using assms(2-4) by (simp_all add: books_def ledger_of_sel)
  show ?thesis
    by (rule keepsI, rule books_to_tape [OF ok(1) _ ok(2,3)]) (simp_all add: L calm_def)
qed

lemma flush_one_keeps:
  assumes "flush_one ti acts st = Inr st'" and "books st" and "ti < length (tapers st)"
  shows "keeps st st'"
  using assms start_file_write_keeps [of ti _ st st'] pick_for_taper_mem [of "queues st Tapeq"] keeps_refl [of st]
  by (auto simp: flush_one_def Let_def split: if_splits option.splits)

lemma ledger_tape_state [simp]: "ledger_of (upd_taper i (\<lambda>t. t\<lparr>tp_state := f (tp_state t)\<rparr>) s) = ledger_of s"
  by (simp add: ledger_quiet quiet_defs)

lemma quietly_at: "(\<And>s. quietly (f s)) \<Longrightarrow> quietly (\<lambda>st. f st st)"
  by (simp add: quietly_def)

lemma quietly_taper_cmd [simp]: "quietly (\<lambda>st. taper_cmd c (g st) st)"
  by (rule quietly_at) simp

lemma act_on_tape_keeper: "keeper (act_on_tape ti acts)"
  by (rule keeperI, unfold act_on_tape_def Let_def)
    (auto elim!: steps_keeps simp: quietly_keeper keeper_degraded keeps_refl ledger_quiet quiet_defs split: if_splits option.splits)

lemma flush_keeper: "ti < n \<Longrightarrow> keeper (\<lambda>st. if length (tapers st) = n then flush_one ti acts st else Inr st)"
  by (rule keeperI) (auto intro: flush_one_keeps keeps_refl split: if_splits)

lemma startaflush_tape_keeps:
  assumes "startaflush_tape ti st = Inr st'" and "books st" and "ti < length (tapers st)"
  shows "keeps st st'"
proof -
  from assms(1) obtain s where s: "act_on_tape ti (tape_action st ti) st = Inr s" "flush_one ti (tape_action st ti) s = Inr st'"
    by (auto simp: startaflush_tape_def Let_def steps_simps bind_r_eq_Inr_iff)
  have "keeps st s" by (rule keeperD [OF act_on_tape_keeper s(1) assms(2)])
  moreover from this have "keeps s st'" using flush_one_keeps [OF s(2)] assms(3) by (simp add: keeps_def)
  ultimately show ?thesis by (rule keeps_trans)
qed

lemma startaflush_keeper: "keeper startaflush"
proof -
  have "keeps st st'" if st: "books st" "startaflush_in flag st = Inr st'" for flag st st'
  proof (rule steps_keep [OF st(2) [unfolded startaflush_in_def], where P = "keeps st"])
    fix f s s' assume f: "f \<in> set (map (\<lambda>ti st. if STATE_DONE \<notin> tp_state (tapers st ! ti) \<and> flag \<in> tp_state (tapers st ! ti)
        then startaflush_tape ti st else Inr st) [0 ..< length (tapers st)])" "f s = Inr s'" "keeps st s"
    then show "keeps st s'"
      using startaflush_tape_keeps [of _ s s'] keeps_trans [OF f(3)] by (auto simp: keeps_def split: if_splits)
  qed (rule keeps_refl [OF st(1)])
  then have "keeper (startaflush_in flag)" for flag by (simp add: keeper_def)
  then show ?thesis by (simp add: startaflush_def keeper_steps)
qed

section \<open>Dumps that wait for room\<close>

lemma books_fewer:
  assumes "books st" and "ledger_of st' = (ledger_of st)\<lparr>l_queue := q\<rparr>"
    and "mset (waiting q) \<subseteq># mset (waiting (queues st))" and "set (q Roomq) \<subseteq> set (queues st Roomq)"
  shows "keeps st st'"
proof (rule keepsI)
  show "books_ok (ledger_of st')"
    by (rule books_calm [where L = "ledger_of st"]) (use assms in \<open>simp_all add: books_def calm_def\<close>, simp_all add: ledger_of_sel)
qed (simp_all add: assms(2))

lemma unqueue_keeper: "keeper (pure (unqueue q dp))"
proof (rule keeper_pure)
  fix s assume "books s"
  then show "keeps s (unqueue q dp s)"
  proof (rule books_fewer)
    show "ledger_of (unqueue q dp s) = (ledger_of s)\<lparr>l_queue := (queues s)(q := remove1 dp (queues s q))\<rparr>" by (rule ledger_queues(3))
    have "mset (remove1 dp xs) \<subseteq># mset xs" for xs by simp
    then show "mset (waiting ((queues s)(q := remove1 dp (queues s q)))) \<subseteq># mset (waiting (queues s))"
      by (cases q) (simp_all add: waiting_mset subset_mset.add_mono)
    show "set (((queues s)(q := remove1 dp (queues s q))) Roomq) \<subseteq> set (queues s Roomq)"
      using set_remove1_subset [of dp "queues s Roomq"] by auto
  qed
qed

lemma grant_room_keeper: "keeper (grant_room dp)"
  by (rule keeperI, unfold grant_room_def Let_def)
    (auto elim!: steps_keeps simp: quietly_keeper unqueue_keeper keeps_refl split: if_splits option.splits)

lemma abort_stuck_keeper: "keeper abort_stuck"
proof (rule keeperI)
  fix s s' assume s: "books s" "abort_stuck s = Inr s'"
  have abort: "quietly (\<lambda>st. if dm_chunker (dumpers st ! i) then chunker_cmd i ABORT None st else Inl Out_of_bounds)" for i
    using quietly_ops(5) [of i ABORT None] by (simp add: quietly_def)
  show "keeps s s'"
    using s unfolding abort_stuck_def
    by (auto elim!: steps_keeps simp: quietly_keeper unqueue_keeper keeps_refl abort ledger_quiet quiet_defs
        split: if_splits option.splits prod.splits)
qed

lemma continue_port_dumps_keeper: "keeper continue_port_dumps"
  by (rule keeperI, unfold continue_port_dumps_def)
    (auto elim!: steps_keeps simp: grant_room_keeper abort_stuck_keeper list_all_iff)

end
