(* ===== verification/Driver_Starts.thy ===== *)
theory Driver_Starts
  imports Driver_Keeps
begin

text \<open>
  Starting dumps keeps the books: the search finds a disk that may run, and taking it, with or without an
  answer of its chunker, is a transaction of the ledger.
\<close>

section \<open>Starting one dump\<close>

text \<open>What must be true of a disk for it to be started on dumper \<open>i\<close>.\<close>

definition may_start :: "driver \<Rightarrow> nat \<Rightarrow> nat \<Rightarrow> bool" where
  "may_start st dp i \<longleftrightarrow> i < length (dumpers st) \<and> \<not> dm_busy (dumpers st ! i) \<and> \<not> dm_down (dumpers st ! i) \<and> \<not> client_constrained st dp"

lemma may_start_ledger:
  assumes "may_start st dp i"
  shows "i < length (l_link (ledger_of st))" "\<not> l_taken (ledger_of st) ! i"
    "l_count (ledger_of st) (l_host (ledger_of st) dp) < l_max (ledger_of st) (l_host (ledger_of st) dp)"
    "l_spindle (ledger_of st) dp = - 1 \<or> (\<forall>e \<in> set (l_disks (ledger_of st) (l_host (ledger_of st) dp)).
       l_run (ledger_of st) e \<longrightarrow> l_spindle (ledger_of st) e \<noteq> l_spindle (ledger_of st) dp)"
  using assms
  by (auto simp: may_start_def ledger_of_sel client_constrained_def host_of_def Let_def list_ex_iff split: if_splits)

lemma ledger_destname: "set_destname dp st = Inr st' \<Longrightarrow> ledger_of st' = ledger_of st"
  by (auto simp: set_destname_def ledger_quiet quiet_defs split: option.splits list.splits)

lemma take_for_dump_ledger:
  assumes "steps (take_for_dump w i dp holdp (h_netif (host_of st dp))) st = Inr st'" and "dp \<in> set (queues st Runq)" and "may_start st dp i"
    and ok: "books st"
  shows "dump_starts (ledger_of st) dp i (ledger_of st') \<and> l_tape (ledger_of st') = l_tape (ledger_of st) \<and>
    l_taper (ledger_of st') = l_taper (ledger_of st) \<and> l_chunk (ledger_of st') = (l_chunk (ledger_of st))[i := True] \<and>
    l_pending (ledger_of st') = (l_pending (ledger_of st))[i := True]"
proof -
  let ?L = "ledger_of st"
  have n: "h_netif (host_of st dp) = l_netif ?L (l_host ?L dp)" by (simp add: ledger_of_sel host_of_def)
  have kps: "d_est_kps (disks s dp) = l_kps (ledger_of s) dp" for s by (simp add: ledger_of_sel)
  have "ledger_of st' = ?L\<lparr>l_cur := (l_cur ?L)(l_netif ?L (l_host ?L dp) := l_cur ?L (l_netif ?L (l_host ?L dp)) + l_kps ?L dp),
      l_run := (l_run ?L)(dp := True), l_dumper := (l_dumper ?L)(dp := Some i),
      l_count := (l_count ?L)(l_host ?L dp := l_count ?L (l_host ?L dp) + 1),
      l_link := (l_link ?L)[i := Some dp], l_taken := (l_taken ?L)[i := True],
      l_queue := (l_queue ?L)(Runq := remove1 dp (l_queue ?L Runq)), l_chunk := (l_chunk ?L)[i := True],
      l_pending := (l_pending ?L)[i := True]\<rparr>"
    using assms(1)
    by (auto simp: take_for_dump_def steps_simps bind_r_eq_Inr_iff ledger_queue_steps ledger_quiet quiet_defs n kps ledger_allocate
        ledger_claim ledger_dumper_chunker ledger_fresh_chunker
        dest!: ledger_assign ledger_chunker_cmd ledger_destname)
  note L = this
  have w: "dp \<in> set (waiting (l_queue ?L))" using assms(2) by (simp add: waiting_def ledger_of_sel)
  have q: "mset (waiting ((l_queue ?L)(Runq := remove1 dp (l_queue ?L Runq)))) = mset (waiting (l_queue ?L)) - {#dp#}"
    using assms(2) by (simp add: waiting_mset ledger_of_sel)
  show ?thesis unfolding dump_starts_def
    using may_start_ledger [OF assms(3)] w q by (simp add: L)
qed

lemma take_for_dump_books:
  assumes "steps (take_for_dump w i dp holdp (h_netif (host_of st dp))) st = Inr st'" and "dp \<in> set (queues st Runq)"
    and "may_start st dp i" and "books st"
  shows "keeps st st'"
proof (rule keepsI)
  note t = take_for_dump_ledger [OF assms]
  show "books_ok (ledger_of st')" using assms(4) t by (auto simp: books_def intro: books_start_disk)
  show "length (l_tape (ledger_of st')) = length (l_tape (ledger_of st))" using t by simp
  show "length (l_link (ledger_of st')) = length (l_link (ledger_of st))" using t by (simp add: dump_starts_def)
qed

lemma dump_ends_keeps:
  assumes "dump_ends (ledger_of st) dp i (ledger_of st')" and "books st"
  shows "keeps st st'"
  by (rule keepsI) (use assms books_end in \<open>auto simp: books_def dump_ends_def\<close>)

text \<open>A dump with a chunker is on no taper.\<close>

lemma chunk_not_on_tape:
  assumes "books_ok L" and "l_run L dp" "l_dumper L dp = Some i" "l_chunk L ! i" and "ti < length (l_tape L)"
  shows "fst (l_tape L ! ti) \<noteq> Some dp"
proof
  assume f: "fst (l_tape L ! ti) = Some dp"
  have "entry_ok L ti (l_tape L ! ti)" using books_parts(8) [OF assms(1)] assms(5) by (simp add: tape_ok_entries)
  then show False using f assms by (auto simp: entry_ok_def split: option.splits)
qed

text \<open>The updates that end a dump with a chunker.\<close>

lemma dump_ends_chunk:
  assumes ok: "books_ok L" and run: "l_run L dp" "l_dumper L dp = Some i" "l_chunk L ! i" "dp \<notin> set (l_queue L Roomq)"
    and L': "L' = L\<lparr>l_cur := (l_cur L)(l_netif L (l_host L dp) := l_cur L (l_netif L (l_host L dp)) - l_kps L dp),
      l_count := (l_count L)(l_host L dp := l_count L (l_host L dp) - 1),
      l_run := (l_run L)(dp := False), l_dumper := dm, l_link := (l_link L)[i := k], l_taken := (l_taken L)[i := b],
      l_queue := q\<rparr>"
    and dm: "dm = l_dumper L \<or> dm = (l_dumper L)(dp := None)"
    and q: "mset (waiting q) \<subseteq># add_mset dp (mset (waiting (l_queue L)))" "q Roomq = l_queue L Roomq"
  shows "dump_ends L dp i L'"
  unfolding dump_ends_def using run dm q chunk_not_on_tape [OF ok run(1-3)] by (auto simp: L')

lemma ledger_dumper_free:
  "ledger_of (upd_dumper i (\<lambda>m. m\<lparr>dm_busy := False, dm_dp := None\<rparr>) st) = (ledger_of st)\<lparr>
     l_link := (l_link (ledger_of st))[i := None], l_taken := (l_taken (ledger_of st))[i := dm_down (dumpers st ! i)]\<rparr>"
  "ledger_of (upd_dumper i (\<lambda>m. m\<lparr>dm_busy := False\<rparr>) st) = (ledger_of st)\<lparr>
     l_taken := (l_taken (ledger_of st))[i := dm_down (dumpers st ! i)]\<rparr>"
  by (simp_all add: ledger_of_def upd_dumper_def map_upd_same, simp_all add: map_update)

lemma ledger_same_queue: "L = L\<lparr>l_queue := l_queue L\<rparr>"
  by (cases L) simp

lemma give_back_keeps:
  assumes "steps (give_back i dp (h_netif (host_of st dp)) (d_host (disks st dp))) st = Inr st'" and "books st"
    and run: "d_inprogress (disks st dp)" "d_dumper (disks st dp) = Some i" "l_chunk (ledger_of st) ! i" "dp \<notin> set (queues st Roomq)"
  shows "keeps st st'"
proof (rule dump_ends_keeps [OF _ assms(2)])
  let ?L = "ledger_of st"
  have n: "h_netif (host_of st dp) = l_netif ?L (l_host ?L dp)" "d_host (disks st dp) = l_host ?L dp" by (simp_all add: ledger_of_sel host_of_def)
  have kps: "d_est_kps (disks s dp) = l_kps (ledger_of s) dp" for s by (simp add: ledger_of_sel)
  let ?given = "give_back i dp (h_netif (host_of st dp)) (d_host (disks st dp))"
  obtain front where front: "front = butlast ?given"
    "?given = front @ [pure (\<lambda>st. if d_dump_attempted (disks st dp) < 2 then enqueue Runq dp st else st)]"
    by (simp add: give_back_def)
  obtain s where s: "steps front st = Inr s" "st' = enqueue Runq dp s \<or> st' = s"
    using assms(1) unfolding front(2) by (auto simp: steps_append steps_simps bind_r_eq_Inr_iff split: if_splits)
  have "\<exists>b. ledger_of s = ?L\<lparr>l_cur := (l_cur ?L)(l_netif ?L (l_host ?L dp) := l_cur ?L (l_netif ?L (l_host ?L dp)) - l_kps ?L dp),
      l_count := (l_count ?L)(l_host ?L dp := l_count ?L (l_host ?L dp) - 1),
      l_run := (l_run ?L)(dp := False), l_dumper := (l_dumper ?L)(dp := None),
      l_link := (l_link ?L)[i := None], l_taken := (l_taken ?L)[i := b]\<rparr>"
    using s(1) unfolding front(1)
    by (auto simp: give_back_def steps_simps bind_r_eq_Inr_iff ledger_quiet quiet_defs n kps
        ledger_host_count ledger_disk_done ledger_dumper_free
        dest!: ledger_deallocate ledger_active ledger_adjust ledger_delete)
  then obtain b where Ls: "ledger_of s = ?L\<lparr>l_cur := (l_cur ?L)(l_netif ?L (l_host ?L dp) := l_cur ?L (l_netif ?L (l_host ?L dp)) - l_kps ?L dp),
      l_count := (l_count ?L)(l_host ?L dp := l_count ?L (l_host ?L dp) - 1),
      l_run := (l_run ?L)(dp := False), l_dumper := (l_dumper ?L)(dp := None),
      l_link := (l_link ?L)[i := None], l_taken := (l_taken ?L)[i := b]\<rparr>" by blast
  have lq: "l_queue (ledger_of s) = l_queue ?L" unfolding Ls by simp
  have "\<exists>q. ledger_of st' = (ledger_of s)\<lparr>l_queue := q\<rparr> \<and> (q = l_queue ?L \<or> q = (l_queue ?L)(Runq := l_queue ?L Runq @ [dp]))"
    using s(2) ledger_queue_steps(1) [of Runq dp s] ledger_same_queue [of "ledger_of s"] unfolding lq by blast
  then obtain q where st': "ledger_of st' = (ledger_of s)\<lparr>l_queue := q\<rparr>"
    and q: "q = l_queue ?L \<or> q = (l_queue ?L)(Runq := l_queue ?L Runq @ [dp])" by blast
  have L: "ledger_of st' = ?L\<lparr>l_cur := (l_cur ?L)(l_netif ?L (l_host ?L dp) := l_cur ?L (l_netif ?L (l_host ?L dp)) - l_kps ?L dp),
      l_count := (l_count ?L)(l_host ?L dp := l_count ?L (l_host ?L dp) - 1),
      l_run := (l_run ?L)(dp := False), l_dumper := (l_dumper ?L)(dp := None),
      l_link := (l_link ?L)[i := None], l_taken := (l_taken ?L)[i := b], l_queue := q\<rparr>"
    unfolding st' Ls by simp
  have ok: "books_ok ?L" "l_run ?L dp" "l_dumper ?L dp = Some i" "dp \<notin> set (l_queue ?L Roomq)"
    using assms(2) run by (simp_all add: books_def ledger_of_sel)
  show "dump_ends ?L dp i (ledger_of st')"
    by (rule dump_ends_chunk [OF ok(1,2,3) run(3) ok(4) L]) (use q in \<open>auto simp: waiting_mset intro: submset_add\<close>)
qed

lemma host_of_ledger: "h_netif (host_of st dp) = l_netif (ledger_of st) (l_host (ledger_of st) dp)"
  "d_host (disks st dp) = l_host (ledger_of st) dp"
  by (simp_all add: ledger_of_sel host_of_def)

lemma start_on_disk_keeps:
  assumes "start_on_disk w i dp holdp st = Inr st'" and dp: "dp \<in> set (queues st Runq)" "may_start st dp i" and ok: "books st"
  shows "keeps st st'"
proof -
  let ?ip = "h_netif (host_of st dp)" and ?h = "d_host (disks st dp)"
  let ?B = "if w_port_ok w i then
           [pure (upd_dumper i (\<lambda>m. m\<lparr>dm_listening := True\<rparr>)),
            pure (upd_chunker i (\<lambda>c. c\<lparr>ch_listening := True\<rparr>)),
            dumper_cmd i PORT_DUMP (Some dp)]
         else give_back i dp ?ip ?h"
  let ?D = "[pure (upd_host ?h (\<lambda>h. h\<lparr>h_start_t := w_now w + 5\<rparr>)),
         pure (\<lambda>st. if queues st Runq = [] \<and> active_dumper st = 0 then st\<lparr>force_flush := True\<rparr> else st)]"
  obtain s1 s2 where s1: "steps (take_for_dump w i dp holdp ?ip) st = Inr s1" and s2: "steps ?B s1 = Inr s2" and s3: "steps ?D s2 = Inr st'"
    using assms(1) unfolding start_on_disk_def Let_def steps_append by (auto simp: bind_r_eq_Inr_iff)
  have k1: "keeps st s1" by (rule take_for_dump_books [OF s1 dp ok])
  note t = take_for_dump_ledger [OF s1 dp ok]
  have "keeps s1 s2"
  proof (cases "w_port_ok w i")
    case True
    then show ?thesis using s2 by (auto intro!: steps_keeps [OF _ keeps_books [OF k1]] quietly_keeper simp: ledger_quiet quiet_defs)
  next
    case False
    have n: "?ip = h_netif (host_of s1 dp)" "?h = d_host (disks s1 dp)" using t by (simp_all add: host_of_ledger dump_starts_def)
    have i: "i < length (l_chunk (ledger_of st))" using dp(2) by (simp add: may_start_def ledger_of_sel)
    have "l_queue (ledger_of s1) Roomq = l_queue (ledger_of st) Roomq" using t by (simp add: dump_starts_def)
    moreover have "dp \<notin> set (l_queue (ledger_of st) Roomq)"
      using books_parts(7) [of "ledger_of st"] waiting_idle [of "ledger_of st" dp] ok dp(1)
      by (auto simp: room_ok_def books_def waiting_def ledger_of_sel)
    ultimately have room: "dp \<notin> set (queues s1 Roomq)" by (simp add: ledger_of_sel)
    have run: "d_inprogress (disks s1 dp)" "d_dumper (disks s1 dp) = Some i" "l_chunk (ledger_of s1) ! i"
      using t i by (auto simp: dump_starts_def ledger_of_sel dest: fun_cong [of _ _ dp])
    show ?thesis using s2 False give_back_keeps [OF _ keeps_books [OF k1] run room] unfolding n by simp
  qed
  moreover from this have "keeps s2 st'" using s3
    by (auto intro!: steps_keeps [OF s3] quietly_keeper simp: ledger_quiet quiet_defs dest: keeps_books)
  ultimately show ?thesis using k1 keeps_trans by blast
qed

lemma start_on_tape_keeps:
  assumes "start_on_tape w i dp ti st = Inr st'" and dp: "dp \<in> set (queues st Directq)" "may_start st dp i" and ti: "ti < length (tapers st)"
    and ok: "books st"
  shows "keeps st st'"
proof -
  let ?L = "ledger_of st"
  have n: "h_netif (host_of st dp) = l_netif ?L (l_host ?L dp)" "d_host (disks st dp) = l_host ?L dp" by (simp_all add: ledger_of_sel host_of_def)
  have kps: "d_est_kps (disks s dp) = l_kps (ledger_of s) dp" for s by (simp add: ledger_of_sel)
  have L: "ledger_of st' = ?L\<lparr>l_cur := (l_cur ?L)(l_netif ?L (l_host ?L dp) := l_cur ?L (l_netif ?L (l_host ?L dp)) + l_kps ?L dp),
      l_run := (l_run ?L)(dp := True), l_dumper := (l_dumper ?L)(dp := Some i), l_taper := (l_taper ?L)(dp := Some ti),
      l_count := (l_count ?L)(l_host ?L dp := l_count ?L (l_host ?L dp) + 1),
      l_link := (l_link ?L)[i := Some dp], l_taken := (l_taken ?L)[i := True],
      l_queue := (l_queue ?L)(Directq := remove1 dp (l_queue ?L Directq)), l_chunk := (l_chunk ?L)[i := False],
      l_tape := (l_tape ?L)[ti := (Some dp, Some i)]\<rparr>"
    using assms(1)
    by (auto simp: start_on_tape_def Let_def steps_simps bind_r_eq_Inr_iff ledger_queue_steps ledger_quiet quiet_defs n kps ledger_allocate
        ledger_claim ledger_dumper_chunker ledger_taper_set dest!: ledger_taper_cmd)
  have w: "dp \<in> set (waiting (l_queue ?L))" using dp by (simp add: waiting_def ledger_of_sel)
  have q: "mset (waiting ((l_queue ?L)(Directq := remove1 dp (l_queue ?L Directq)))) = mset (waiting (l_queue ?L)) - {#dp#}"
    using dp by (simp add: waiting_mset ledger_of_sel)
  have st: "dump_starts ?L dp i (ledger_of st')"
    unfolding dump_starts_def using may_start_ledger [OF dp(2)] w q by (simp add: L)
  show ?thesis
  proof (rule keepsI)
    show "books_ok (ledger_of st')"
      by (rule books_start_tape [OF _ st, where ti = ti]) (use ok ti in \<open>simp_all add: L books_def sizes_of_ledger\<close>)
  qed (simp_all add: L)
qed

section \<open>The search\<close>

lemma client_constrained_ledger:
  "client_constrained st dp \<longleftrightarrow>
     (let L = ledger_of st; h = l_host L dp in
      l_max L h \<le> l_count L h \<or>
      (l_spindle L dp \<noteq> - 1 \<and> list_ex (\<lambda>e. l_run L e \<and> l_spindle L e = l_spindle L dp) (l_disks L h)))"
  by (auto simp: client_constrained_def Let_def host_of_def ledger_of_sel)

text \<open>What the search keeps: \<open>ds\<close> are the disks of the queue still to be looked at.\<close>

definition search_ok :: "driver \<Rightarrow> queue_name \<Rightarrow> nat list \<Rightarrow> driver \<times> pick \<Rightarrow> bool" where
  "search_ok st0 q ds sk \<longleftrightarrow>
     books (fst sk) \<and> dumpers (fst sk) = dumpers st0 \<and> tapers (fst sk) = tapers st0 \<and>
     distinct ds \<and> set ds \<subseteq> set (queues (fst sk) q) \<and>
     (\<forall>e. k_disk (snd sk) = Some e \<longrightarrow> e \<in> set (queues (fst sk) q) \<and> e \<notin> set ds \<and> \<not> client_constrained (fst sk) e)"

lemma search_ok_quiet:
  assumes "search_ok st0 q (dp # ds) sk" and "ledger_of (fst sk') = ledger_of (fst sk)" and "dumpers (fst sk') = dumpers (fst sk)"
    and "tapers (fst sk') = tapers (fst sk)" and "k_disk (snd sk') = k_disk (snd sk)"
  shows "search_ok st0 q ds sk'"
proof -
  have "queues (fst sk') = queues (fst sk)" using arg_cong [OF assms(2), of l_queue] by (simp add: ledger_of_sel)
  moreover have "client_constrained (fst sk') e = client_constrained (fst sk) e" for e
    unfolding client_constrained_ledger assms(2) ..
  moreover have "books (fst sk')" using assms(1,2) by (simp add: search_ok_def books_def)
  ultimately show ?thesis using assms unfolding search_ok_def by auto
qed

lemma search_ok_delay: "search_ok st0 q (dp # ds) sk \<Longrightarrow> search_ok st0 q ds (delay e t sk)"
  by (erule search_ok_quiet) (auto simp: delay_def Let_def split: prod.splits)

lemma search_ok_waits: "search_ok st0 q (dp # ds) sk \<Longrightarrow> search_ok st0 q ds (waits_for r sk)"
  by (erule search_ok_quiet) (auto simp: waits_for_def)

lemma search_ok_accept:
  assumes "search_ok st0 q (dp # ds) sk" and "\<not> client_constrained (fst sk) dp"
  shows "search_ok st0 q ds (accept_dump c dp h sk)"
  using assms by (auto simp: search_ok_def accept_dump_def split: prod.splits option.splits)

lemma no_room_for_ledger:
  "ledger_of (no_room_for dp q n st) = (ledger_of st)\<lparr>l_queue := queues (no_room_for dp q n st)\<rparr>"
  "dumpers (no_room_for dp q n st) = dumpers st" "tapers (no_room_for dp q n st) = tapers st"
  by (simp_all add: no_room_for_def Let_def ledger_quiet quiet_defs ledger_of_def unqueue_def upd_disk_def enqueue_def comp_upd_same)

lemma no_room_for_queues:
  "queues (no_room_for dp q n st) = queues st \<or>
   q \<noteq> Directq \<and> (queues (no_room_for dp q n st) = (queues st)(q := remove1 dp (queues st q)) \<or>
     queues (no_room_for dp q n st) = (queues st)(q := remove1 dp (queues st q), Directq := queues st Directq @ [dp]))"
  by (auto simp: no_room_for_def Let_def unqueue_def upd_disk_def enqueue_def)

lemma search_ok_no_room:
  assumes "search_ok st0 q (dp # ds) (st, k)" and q: "q = Runq \<or> q = Directq"
  shows "search_ok st0 q ds (no_room_for dp q n st, k)"
proof -
  let ?st = "no_room_for dp q n st"
  have dp: "dp \<in> set (queues st q)" "dp \<notin> set ds" and ds: "set ds \<subseteq> set (queues st q)" "distinct ds"
    and k: "\<forall>e. k_disk k = Some e \<longrightarrow> e \<in> set (queues st q) \<and> e \<notin> set (dp # ds) \<and> \<not> client_constrained st e"
    and ok: "books st" "dumpers st = dumpers st0" "tapers st = tapers st0"
    using assms(1) by (auto simp: search_ok_def)
  have others: "e \<in> set (queues ?st q)" if "e \<in> set (queues st q)" "e \<noteq> dp" for e
    using that q no_room_for_queues [of dp q n st] by (auto simp: in_set_remove1)
  have cc: "client_constrained ?st e = client_constrained st e" for e
    unfolding client_constrained_ledger no_room_for_ledger(1) [of dp q n st] by (simp add: Let_def)
  have "mset (waiting (queues ?st)) \<subseteq># mset (waiting (queues st))" "set (queues ?st Roomq) \<subseteq> set (queues st Roomq)"
    using no_room_for_queues [of dp q n st] dp(1) q by (auto simp: waiting_mset diff_union_swap2)
  then have "keeps st ?st" by (rule books_fewer [OF ok(1) no_room_for_ledger(1)])
  then have "books ?st" by (rule keeps_books)
  then show ?thesis
    unfolding search_ok_def using ok ds dp(2) k cc others by (simp add: no_room_for_ledger(2,3)) blast
qed

lemma allow_dump_dle_ok:
  assumes "search_ok st0 q (dp # ds) sk" and q: "q = Runq \<or> q = Directq"
  shows "search_ok st0 q ds (allow_dump_dle now tape c q n x dp sk)"
proof -
  obtain st k where sk: "sk = (st, k)" by fastforce
  have "search_ok st0 q ds (apfst (no_room_for dp q n) (waits_for r sk))" for r
  proof -
    have "search_ok st0 q (dp # ds) (waits_for r sk)" using assms(1) by (simp add: search_ok_def waits_for_def)
    then show ?thesis using search_ok_no_room [OF _ q] by (cases "waits_for r sk") auto
  qed
  then show ?thesis
    using search_ok_delay [OF assms(1)] search_ok_waits [OF assms(1)] search_ok_accept [OF assms(1)]
    by (simp add: allow_dump_dle_def Let_def)
qed

lemma search_fold_ok:
  "search_ok st0 q ds sk \<Longrightarrow> q = Runq \<or> q = Directq \<Longrightarrow>
     search_ok st0 q [] (fold (allow_dump_dle now tape c q n x) ds sk)"
proof (induction ds arbitrary: sk)
  case (Cons dp ds)
  then show ?case using Cons.IH [OF allow_dump_dle_ok [OF Cons.prems(1)]] by simp
qed simp

lemma search_start:
  assumes "books st" and "dumpers st = dumpers st0" and "tapers st = tapers st0" and "k_disk k = None" and "q = Runq \<or> q = Directq"
  shows "search_ok st0 q (queues st q) (st, k)"
proof -
  have "distinct (waiting (queues st))" using assms(1) by (simp add: books_def books_ok_def place_ok_def ledger_of_sel)
  then show ?thesis using assms by (auto simp: search_ok_def waiting_def)
qed

lemma idle_taper_bound: "idle_taper st = Some ti \<Longrightarrow> ti < length (tapers st)"
  by (auto simp: idle_taper_def Let_def split: option.splits dest!: find_mem)

lemma search_direct_ok:
  assumes "books st" and "k_disk k = None" and "search_direct w i n (st, k) = (sk', t)"
  shows "books (fst sk') \<and> dumpers (fst sk') = dumpers st \<and> tapers (fst sk') = tapers st \<and>
    (case t of None \<Rightarrow> k_disk (snd sk') = None
     | Some ti \<Rightarrow> ti < length (tapers st) \<and> (\<exists>dp. k_disk (snd sk') = Some dp \<and> dp \<in> set (queues (fst sk') Directq) \<and> \<not> client_constrained (fst sk') dp))"
proof (cases "if queues st Directq = [] then None else idle_taper st")
  case None
  then show ?thesis using assms by (auto simp: search_direct_def)
next
  case (Some ti)
  then have ti: "ti < length (tapers st)" by (auto split: if_splits dest: idle_taper_bound)
  have ok: "search_ok st Directq [] (fold (allow_dump_dle (w_now w) True c Directq n x) (queues st Directq) (st, k))" for c x
    by (rule search_fold_ok [OF search_start]) (simp_all add: assms)
  show ?thesis
  proof (cases "START_A_FLUSH \<in> set (tape_action st ti) \<or> START_A_FLUSH_FIT \<in> set (tape_action st ti)")
    case True
    let ?x = "if START_A_FLUSH_FIT \<in> set (tape_action st ti) then extra_tapes st d_est_size else 0"
    let ?f = "fold (allow_dump_dle (w_now w) True (dumptype_of st i) Directq n ?x) (queues st Directq) (st, k)"
    have "sk' = ?f" "t = (if k_disk (snd ?f) = None then None else Some ti)"
      using assms(3) Some True by (auto simp: search_direct_def Let_def)
    then show ?thesis using ok [of "dumptype_of st i" ?x] ti by (auto simp: search_ok_def)
  next
    case False
    then show ?thesis using assms Some by (auto simp: search_direct_def Let_def)
  qed
qed

lemma search_dump_ok:
  assumes "books st" and "search_dump w i n st = ((st', k), t)"
  shows "books st' \<and> dumpers st' = dumpers st \<and> tapers st' = tapers st \<and>
    (\<forall>dp. k_disk k = Some dp \<longrightarrow> \<not> client_constrained st' dp \<and>
       (case t of None \<Rightarrow> dp \<in> set (queues st' Runq) | Some ti \<Rightarrow> ti < length (tapers st) \<and> dp \<in> set (queues st' Directq)))"
proof -
  let ?k = "\<lparr>k_idle = NOT_IDLE, k_delayed = None, k_disk = None, k_holdp = None\<rparr>"
  obtain sk ti where d: "search_direct w i n (st, ?k) = (sk, ti)" by fastforce
  note ok = search_direct_ok [OF assms(1) _ d]
  show ?thesis
  proof (cases ti)
    case None
    let ?f = "fold (allow_dump_dle (w_now w) False (dumptype_of st i) Runq n 0) (queues (fst sk) Runq) sk"
    have "search_ok st Runq [] ?f"
      using ok None by (cases sk) (auto intro!: search_fold_ok search_start)
    then show ?thesis using assms(2) d None by (auto simp: search_dump_def search_ok_def)
  next
    case (Some j)
    then show ?thesis using assms(2) d ok by (auto simp: search_dump_def)
  qed
qed

lemma try_dumper_keeps:
  assumes "try_dumper w n i st = Inr (stop, st')" and "books st" and "i < length (dumpers st)"
  shows "keeps st st'"
proof (cases "dm_busy (dumpers st ! i) \<or> dm_down (dumpers st ! i)")
  case True
  then show ?thesis using assms by (auto simp: try_dumper_def intro: keeps_refl)
next
  case False
  let ?st = "upd_dumper i (\<lambda>m. m\<lparr>dm_listening := False\<rparr>) st"
  have l: "ledger_of ?st = ledger_of st" by (simp add: ledger_quiet quiet_defs)
  have k0: "keeps st ?st" by (rule keeps_same [OF l assms(2)])
  obtain s k t where s: "search_dump w i n ?st = ((s, k), t)" by (metis prod.exhaust)
  note ok = search_dump_ok [OF keeps_books [OF k0] s]
  let ?s = "s\<lparr>idle_reason := max_idle (idle_reason s) (k_idle k)\<rparr>"
  have k1: "keeps st ?s" using ok k0 by (auto simp: keeps_def books_def)
  have free: "\<not> dm_busy (dumpers ?s ! i)" "\<not> dm_down (dumpers ?s ! i)" "i < length (dumpers ?s)"
    using False ok assms(3) by (auto simp: upd_dumper_def)
  from assms(1) obtain u where u: "only_if (k_disk k = None \<and> idle_reason ?s = IDLE_NO_DISKSPACE) startaflush ?s = Inr u"
    and rest: "(case k_disk k of
              None \<Rightarrow>
                if k_delayed k \<noteq> None then
                  if sleep_time u > w_now w then
                    let sleep = sleep_time u - w_now w in
                    Inr (True, u\<lparr>sleep_time := sleep, dumpers_ev_time := Some sleep\<rparr>)
                  else Inl Assertion_failed
                else Inr (False, u)
            | Some dp \<Rightarrow>
                (case t of
                   None \<Rightarrow>
                     (case k_holdp k of
                        None \<Rightarrow> Inl Out_of_bounds
                      | Some holdp \<Rightarrow> map_r (Pair False) (start_on_disk w i dp holdp u))
                 | Some t \<Rightarrow> map_r (Pair False) (start_on_tape w i dp t u))) = Inr (stop, st')"
    using False s by (auto simp: try_dumper_def Let_def bind_r_eq_Inr_iff)
  have k2: "keeps ?s u" using u keeperD [OF startaflush_keeper _ keeps_books [OF k1]] keeps_refl [OF keeps_books [OF k1]]
    by (auto simp: only_if_Inr split: if_splits)
  have "keeps u st'"
  proof (cases "k_disk k")
    case None
    then show ?thesis using rest keeps_books [OF k2]
      by (auto simp: Let_def intro: keeps_same split: if_splits)
  next
    case (Some dp)
    then have us: "u = ?s" using u by (simp add: only_if_Inr)
    have cc: "client_constrained ?s dp = client_constrained s dp" unfolding client_constrained_ledger by simp
    have dp: "may_start u dp i" using ok Some free unfolding us may_start_def cc by blast
    have b: "books u" by (rule keeps_books [OF k2])
    show ?thesis
    proof (cases t)
      case None
      then have "dp \<in> set (queues u Runq)" using ok Some us by simp
      then show ?thesis using rest Some None start_on_disk_keeps [OF _ _ dp b] by (auto simp: map_r_eq_Inr_iff split: option.splits)
    next
      case (Some ti)
      then have "dp \<in> set (queues u Directq)" "ti < length (tapers u)" using ok \<open>k_disk k = Some dp\<close> us by (auto simp: upd_dumper_def)
      then show ?thesis using rest Some \<open>k_disk k = Some dp\<close> start_on_tape_keeps [OF _ _ dp _ b] by (auto simp: map_r_eq_Inr_iff)
    qed
  qed
  then show ?thesis using k1 k2 keeps_trans by blast
qed

lemma try_dumpers_keeps:
  "try_dumpers w n is st = Inr st' \<Longrightarrow> books st \<Longrightarrow> \<forall>i \<in> set is. i < length (dumpers st) \<Longrightarrow> keeps st st'"
proof (induction "is" arbitrary: st)
  case (Cons i "is")
  from Cons.prems(1) obtain stop s where s: "try_dumper w n i st = Inr (stop, s)" "stop \<and> s = st' \<or> try_dumpers w n is s = Inr st'"
    by (auto simp: bind_r_eq_Inr_iff split: if_splits)
  have k: "keeps st s" using try_dumper_keeps [OF s(1)] Cons.prems by simp
  then have "keeps s st'" if "try_dumpers w n is s = Inr st'"
    using Cons.IH [OF that] Cons.prems by (auto simp: keeps_def)
  then show ?case using s(2) k keeps_trans by blast
qed (simp add: keeps_refl)

lemma start_some_dumps_keeper: "keeper (start_some_dumps w)"
proof (rule keeperI)
  fix s s' assume s: "books s" "start_some_dumps w s = Inr s'"
  let ?s = "s\<lparr>idle_reason := IDLE_NO_DUMPERS, sleep_time := 0, dumpers_ev_time := None\<rparr>"
  have k: "keeps s ?s" by (rule keeps_same [OF _ s(1)]) simp
  have d: "dumpers ?s = dumpers s" by simp
  show "keeps s s'"
  proof (cases "taper_started s")
    case True
    then have t: "try_dumpers w (length (filter (\<lambda>m. dm_busy m \<and> d_to_holdingdisk (disks s (the (dm_dp m))) \<noteq> HOLD_NEVER) (dumpers s)))
        [0 ..< length (dumpers s)] ?s = Inr s'" using s(2) by (simp add: start_some_dumps_def Let_def)
    have "keeps ?s s'" by (rule try_dumpers_keeps [OF t keeps_books [OF k]]) simp
    then show ?thesis by (rule keeps_trans [OF k])
  next
    case False
    then show ?thesis using s keeps_refl by (simp add: start_some_dumps_def)
  qed
qed

end
