(* ===== verification/Driver_Ends.thy ===== *)
theory Driver_Ends
  imports Driver_Starts
begin

text \<open>
  The ends of dumps and the handlers of the messages keep the books of the driver.
\<close>

section \<open>The end of a dump on the holding disk\<close>

text \<open>An end puts the disk on one of the queues it may wait in, or on none.\<close>

definition back_in_queue :: "nat \<Rightarrow> ledger \<Rightarrow> (queue_name \<Rightarrow> nat list) \<Rightarrow> bool" where
  "back_in_queue dp L q \<longleftrightarrow> mset (waiting q) \<subseteq># add_mset dp (mset (waiting (l_queue L))) \<and> q Roomq = l_queue L Roomq"

lemma back_in_queue_simps [simp]:
  "back_in_queue dp L (l_queue L)"
  "back_in_queue dp L ((l_queue L)(Directq := l_queue L Directq @ [dp]))"
  "back_in_queue dp L ((l_queue L)(Runq := l_queue L Runq @ [dp]))"
  "back_in_queue dp L ((l_queue L)(Tapeq := l_queue L Tapeq @ [dp]))"
  "back_in_queue dp L ((l_queue L)(Directq := dp # l_queue L Directq))"
  "back_in_queue dp L ((l_queue L)(Tapeq := dp # l_queue L Tapeq))"
  by (simp_all add: back_in_queue_def waiting_mset submset_add)

lemma requeue_ledger:
  assumes "requeue_dump failed sz dp st = Inr st'"
  shows "\<exists>q. ledger_of st' = (ledger_of st)\<lparr>l_queue := q\<rparr> \<and> back_in_queue dp (ledger_of st) q"
proof -
  have "ledger_of st' = ledger_of st \<or> (\<exists>q. ledger_of st' = ledger_of (enqueue q dp st) \<and> q \<in> {Directq, Runq, Tapeq})"
    using assms by (auto simp: requeue_dump_def bind_r_eq_Inr_iff ledger_queue_steps split: if_splits dest!: ledger_delete)
  then show ?thesis
  proof
    assume "ledger_of st' = ledger_of st"
    then show ?thesis using ledger_same_queue [of "ledger_of st"] back_in_queue_simps(1) [of dp "ledger_of st"] by metis
  qed (auto simp: ledger_queue_steps)
qed

lemma dump_ends_here:
  assumes ok: "books_ok L" and run: "l_run L dp" "l_dumper L dp = Some i" "l_chunk L ! i" "dp \<notin> set (l_queue L Roomq)"
    and L': "L' = L\<lparr>l_cur := (l_cur L)(l_netif L (l_host L dp) := l_cur L (l_netif L (l_host L dp)) - l_kps L dp),
      l_queue := q, l_taken := (l_taken L)[i := b],
      l_count := (l_count L)(l_host L dp := l_count L (l_host L dp) - 1), l_run := (l_run L)(dp := False)\<rparr>"
    and q: "back_in_queue dp L q"
  shows "dump_ends L dp i L'"
  unfolding dump_ends_def using run q chunk_not_on_tape [OF ok run(1-3)] by (auto simp: L' back_in_queue_def)

lemma dumper_chunker_keeps:
  assumes "dumper_chunker_result w dp st = Inr st'" and ok: "books st"
    and run: "d_inprogress (disks st dp)" "d_dumper (disks st dp) = Some i" "l_chunk (ledger_of st) ! i" "dp \<notin> set (queues st Roomq)"
  shows "keeps st st'"
proof -
  let ?L = "ledger_of st"
  have n: "h_netif (host_of s dp) = l_netif (ledger_of s) (l_host (ledger_of s) dp)" "d_host (disks s dp) = l_host (ledger_of s) dp" for s
    by (simp_all add: ledger_of_sel host_of_def)
  have kps: "d_est_kps (disks s dp) = l_kps (ledger_of s) dp" for s by (simp add: ledger_of_sel)
  let ?A = "\<lambda>f g. [\<lambda>st. deallocate_bandwidth (h_netif (host_of st dp)) (d_est_kps (disks st dp)) st, upd_active dp f g, adjust_space dp,
        pure (upd_disk dp (\<lambda>d. d\<lparr>d_dump_attempted := d_dump_attempted d + 1\<rparr>))]"
  let ?B = "[pure (upd_dumper i (\<lambda>m. m\<lparr>dm_busy := False\<rparr>)),
            pure (upd_host (d_host (disks st dp)) (\<lambda>h. h\<lparr>h_inprogress := h_inprogress h - 1\<rparr>)),
            pure (upd_disk dp (\<lambda>d. d\<lparr>d_inprogress := False\<rparr>)),
            pure (upd_chunker i (\<lambda>c. c\<lparr>ch_open := False, ch_down := True\<rparr>)),
            pure (\<lambda>st. if ch_result (chunkers st ! i) = ABORT_FINISHED then st\<lparr>pending_aborts := pending_aborts st - 1\<rparr> else st)]"
  let ?C = "[continue_port_dumps, start_some_dumps w, startaflush]"
  obtain x y where "s_holdp (disks st dp) = Some x" "d_destname (disks st dp) = Some y"
    using assms(1) run(2) by (auto simp: dumper_chunker_result_def split: option.splits)
  then have "\<exists>f g failed sz. dumper_chunker_result w dp st = steps (?A f g @ [requeue_dump failed sz dp] @ ?B @ ?C) st"
    unfolding dumper_chunker_result_def run(2) by (simp only: prod.case option.case Let_def append.simps) (intro exI, rule refl)
  then obtain f g failed sz where D: "steps (?A f g @ [requeue_dump failed sz dp] @ ?B @ ?C) st = Inr st'" using assms(1) by auto
  from D obtain s1 s2 s3 where s1: "steps (?A f g) st = Inr s1" and s2: "requeue_dump failed sz dp s1 = Inr s2"
    and s3: "steps ?B s2 = Inr s3" and s4: "steps ?C s3 = Inr st'"
    unfolding steps_append steps_simps(2) [of "requeue_dump failed sz dp"] steps_simps(1) bind_r_Inr bind_r_eq_Inr_iff by blast
  have L1: "ledger_of s1 = ?L\<lparr>l_cur := (l_cur ?L)(l_netif ?L (l_host ?L dp) := l_cur ?L (l_netif ?L (l_host ?L dp)) - l_kps ?L dp)\<rparr>"
    using s1 by (auto simp: steps_simps bind_r_eq_Inr_iff ledger_quiet quiet_defs n kps dest!: ledger_deallocate ledger_active ledger_adjust)
  obtain q where L2: "ledger_of s2 = (ledger_of s1)\<lparr>l_queue := q\<rparr>" and q: "back_in_queue dp (ledger_of s1) q"
    using requeue_ledger [OF s2] by blast
  have "\<exists>b. ledger_of s3 = ?L\<lparr>l_cur := (l_cur ?L)(l_netif ?L (l_host ?L dp) := l_cur ?L (l_netif ?L (l_host ?L dp)) - l_kps ?L dp),
      l_queue := q, l_taken := (l_taken ?L)[i := b],
      l_count := (l_count ?L)(l_host ?L dp := l_count ?L (l_host ?L dp) - 1), l_run := (l_run ?L)(dp := False)\<rparr>"
    using s3 by (auto simp: steps_simps ledger_quiet quiet_defs n ledger_host_count ledger_disk_done ledger_dumper_free L2 L1 if_distrib [of ledger_of])
  then obtain b where L3: "ledger_of s3 = ?L\<lparr>l_cur := (l_cur ?L)(l_netif ?L (l_host ?L dp) := l_cur ?L (l_netif ?L (l_host ?L dp)) - l_kps ?L dp),
      l_queue := q, l_taken := (l_taken ?L)[i := b],
      l_count := (l_count ?L)(l_host ?L dp := l_count ?L (l_host ?L dp) - 1), l_run := (l_run ?L)(dp := False)\<rparr>" by blast
  have L: "books_ok ?L" "l_run ?L dp" "l_dumper ?L dp = Some i" "dp \<notin> set (l_queue ?L Roomq)"
    using ok run by (simp_all add: books_def ledger_of_sel)
  have "dump_ends ?L dp i (ledger_of s3)"
    by (rule dump_ends_here [OF L(1,2,3) run(3) L(4) L3]) (use q in \<open>simp add: back_in_queue_def L1\<close>)
  then have k: "keeps st s3" by (rule dump_ends_keeps [OF _ ok])
  have "keeps s3 st'"
    by (rule steps_keeps [OF s4 keeps_books [OF k]]) (simp add: continue_port_dumps_keeper start_some_dumps_keeper startaflush_keeper)
  with k show ?thesis by (rule keeps_trans)
qed

section \<open>The end of a dump to tape\<close>

lemma retry_direct_ledger:
  "\<exists>q. ledger_of (retry_direct failed dp st) = (ledger_of st)\<lparr>l_queue := q\<rparr> \<and> back_in_queue dp (ledger_of st) q"
  using ledger_same_queue [of "ledger_of st"] back_in_queue_simps(1,2) [where dp = dp and L = "ledger_of st"] ledger_queue_steps(1) [of Directq dp st]
  by (metis retry_direct_def)

lemma dump_ends_taper:
  assumes ok: "books_ok L" and run: "l_run L dp" "l_dumper L dp = Some i" "\<not> l_chunk L ! i" "l_taper L dp = Some ti"
    and L': "L' = L\<lparr>l_queue := q, l_taken := (l_taken L)[i := b],
      l_count := (l_count L)(l_host L dp := l_count L (l_host L dp) - 1), l_run := (l_run L)(dp := False),
      l_cur := (l_cur L)(l_netif L (l_host L dp) := l_cur L (l_netif L (l_host L dp)) - l_kps L dp),
      l_tape := (l_tape L)[ti := (None, None)], l_dumper := (l_dumper L)(dp := None), l_taper := (l_taper L)(dp := None)\<rparr>"
    and q: "back_in_queue dp L q"
  shows "dump_ends L dp i L'"
proof -
  have room: "dp \<notin> set (l_queue L Roomq)" using books_parts(7) [OF ok] run by (auto simp: room_ok_def)
  have tape: "fst (l_tape L ! tj) \<noteq> Some dp" if "tj < length (l_tape L)" "tj \<noteq> ti" for tj
  proof
    assume f: "fst (l_tape L ! tj) = Some dp"
    have "entry_ok L tj (l_tape L ! tj)" using books_parts(8) [OF ok] that by (simp add: tape_ok_entries)
    then show False using f run(4) that(2) by (simp add: entry_ok_def)
  qed
  have "fst (l_tape L' ! tj) = None \<or> (l_tape L' ! tj = l_tape L ! tj \<and> fst (l_tape L ! tj) \<noteq> Some dp)" if "tj < length (l_tape L)" for tj
    using tape [OF that] that by (cases "tj = ti") (simp_all add: L')
  then show ?thesis
    unfolding dump_ends_def using run q room by (simp add: L' back_in_queue_def)
qed

lemma dumper_taper_keeps:
  assumes "dumper_taper_result w dp st = Inr st'" and ok: "books st"
    and run: "d_inprogress (disks st dp)" "d_dumper (disks st dp) = Some i" "\<not> l_chunk (ledger_of st) ! i"
  shows "keeps st st'"
proof -
  let ?L = "ledger_of st"
  obtain ti where ti: "d_taper (disks st dp) = Some ti"
    using assms(1) run(2) by (auto simp: dumper_taper_result_def split: option.splits)
  have n: "h_netif (host_of s dp) = l_netif (ledger_of s) (l_host (ledger_of s) dp)" "d_host (disks s dp) = l_host (ledger_of s) dp" for s
    by (simp_all add: ledger_of_sel host_of_def)
  have kps: "d_est_kps (disks s dp) = l_kps (ledger_of s) dp" for s by (simp add: ledger_of_sel)
  let ?A = "upd_disk dp (\<lambda>d. d\<lparr>d_dump_attempted := d_dump_attempted d + 1, d_taper_attempted := d_taper_attempted d + 1\<rparr>)"
  let ?B = "[pure (upd_dumper i (\<lambda>m. m\<lparr>dm_listening := False\<rparr>)),
            pure taper_replied,
            pure (upd_taper ti (\<lambda>t. t\<lparr>tp_state := insert STATE_IDLE (tp_state t - {STATE_DUMP_TO_TAPE}),
              tp_input_error := None, tp_tape_error := None\<rparr>)),
            pure (upd_dumper i (\<lambda>m. m\<lparr>dm_busy := False\<rparr>)),
            pure (upd_host (d_host (disks st dp)) (\<lambda>h. h\<lparr>h_inprogress := h_inprogress h - 1\<rparr>)),
            pure (upd_disk dp (\<lambda>d. d\<lparr>d_inprogress := False\<rparr>)),
            (\<lambda>st. deallocate_bandwidth (h_netif (host_of st dp)) (d_est_kps (disks st dp)) st),
            pure (upd_taper ti (\<lambda>t. t\<lparr>tp_dumper := None, tp_disk := None\<rparr>)),
            pure (upd_disk dp (\<lambda>d. d\<lparr>d_dumper := None, d_taper := None\<rparr>))]"
  have "\<exists>failed. dumper_taper_result w dp st = steps ([pure ?A, pure (retry_direct failed dp)] @ ?B @ [start_some_dumps w]) st"
    unfolding dumper_taper_result_def run(2) ti by (simp only: prod.case option.case Let_def append.simps) (intro exI, rule refl)
  then obtain failed where D: "steps ([pure ?A, pure (retry_direct failed dp)] @ ?B @ [start_some_dumps w]) st = Inr st'" using assms(1) by auto
  let ?s1 = "retry_direct failed dp (?A st)"
  from D obtain s2 where s2: "steps ?B ?s1 = Inr s2" and s3: "start_some_dumps w s2 = Inr st'"
    unfolding steps_append steps_simps(1) steps_simps(2) [of "pure _" "_"] steps_simps(2) [of "start_some_dumps w"] pure_simp bind_r_simps bind_r_Inr bind_r_eq_Inr_iff
    by (auto simp: bind_r_eq_Inr_iff steps_simps)
  obtain q where L1: "ledger_of ?s1 = ?L\<lparr>l_queue := q\<rparr>" and q: "back_in_queue dp ?L q"
    using retry_direct_ledger [of failed dp "?A st"] by (auto simp: ledger_quiet quiet_defs)
  have "\<exists>b. ledger_of s2 = ?L\<lparr>l_queue := q, l_taken := (l_taken ?L)[i := b],
      l_count := (l_count ?L)(l_host ?L dp := l_count ?L (l_host ?L dp) - 1), l_run := (l_run ?L)(dp := False),
      l_cur := (l_cur ?L)(l_netif ?L (l_host ?L dp) := l_cur ?L (l_netif ?L (l_host ?L dp)) - l_kps ?L dp),
      l_tape := (l_tape ?L)[ti := (None, None)], l_dumper := (l_dumper ?L)(dp := None), l_taper := (l_taper ?L)(dp := None)\<rparr>"
    using s2 by (auto simp: steps_simps bind_r_eq_Inr_iff ledger_quiet quiet_defs n kps ledger_host_count ledger_disk_done ledger_dumper_free
        ledger_taper_set L1 dest!: ledger_deallocate)
  then obtain b where L2: "ledger_of s2 = ?L\<lparr>l_queue := q, l_taken := (l_taken ?L)[i := b],
      l_count := (l_count ?L)(l_host ?L dp := l_count ?L (l_host ?L dp) - 1), l_run := (l_run ?L)(dp := False),
      l_cur := (l_cur ?L)(l_netif ?L (l_host ?L dp) := l_cur ?L (l_netif ?L (l_host ?L dp)) - l_kps ?L dp),
      l_tape := (l_tape ?L)[ti := (None, None)], l_dumper := (l_dumper ?L)(dp := None), l_taper := (l_taper ?L)(dp := None)\<rparr>" by blast
  have L: "books_ok ?L" "l_run ?L dp" "l_dumper ?L dp = Some i" "l_taper ?L dp = Some ti"
    using ok run ti by (simp_all add: books_def ledger_of_sel)
  have "dump_ends ?L dp i (ledger_of s2)"
    by (rule dump_ends_taper [OF L(1,2,3) run(3) L(4) L2 q])
  then have k: "keeps st s2" by (rule dump_ends_keeps [OF _ ok])
  have "keeps s2 st'" by (rule keeperD [OF start_some_dumps_keeper s3 keeps_books [OF k]])
  with k show ?thesis by (rule keeps_trans)
qed

section \<open>A holding file is written\<close>

lemma after_taper_ledger:
  assumes "after_taper t dp st = Inr st'"
  shows "\<exists>q. ledger_of st' = (ledger_of st)\<lparr>l_queue := q\<rparr> \<and> back_in_queue dp (ledger_of st) q"
proof -
  have "ledger_of st' = ledger_of st \<or> (\<exists>q. ledger_of st' = ledger_of (headqueue q dp st) \<and> q \<in> {Directq, Tapeq})"
    using assms by (auto simp: after_taper_def Let_def bind_r_eq_Inr_iff ledger_queue_steps ledger_quiet quiet_defs forget_sched_def
        split: if_splits dest!: ledger_delete)
  then show ?thesis
  proof
    assume "ledger_of st' = ledger_of st"
    then show ?thesis using ledger_same_queue [of "ledger_of st"] back_in_queue_simps(1) [of dp "ledger_of st"] by metis
  qed (auto simp: ledger_queue_steps)
qed

lemma file_taper_keeps:
  assumes "file_taper_result w dp st = Inr st'" and ok: "books st" and ti: "ti < length (tapers st)"
    and t: "tp_disk (tapers st ! ti) = Some dp" "tp_dumper (tapers st ! ti) = None"
  shows "keeps st st'"
proof -
  let ?L = "ledger_of st"
  have L: "books_ok ?L" "ti < length (l_tape ?L)" "l_tape ?L ! ti = (Some dp, None)"
    using ok ti t by (simp_all add: books_def ledger_of_sel)
  then have "l_taper ?L dp = Some ti" using books_parts(8) [OF L(1)] by (simp add: tape_ok_def)
  then have taper: "d_taper (disks st dp) = Some ti" by (simp add: ledger_of_sel)
  let ?A = "upd_disk dp (\<lambda>d. d\<lparr>d_taper_attempted := d_taper_attempted d + 1\<rparr>)"
  let ?B = "\<lambda>s. taper_replied (upd_taper ti (\<lambda>t. t\<lparr>tp_state := insert STATE_IDLE (tp_state t - {STATE_FILE_TO_TAPE}),
              tp_input_error := None, tp_tape_error := None, tp_disk := None\<rparr>) s)"
  from assms(1) obtain s1 where s1: "after_taper (tapers st ! ti) dp (?A st) = Inr s1"
    and s2: "steps [continue_port_dumps, start_some_dumps w, startaflush] (?B s1) = Inr st'"
    by (auto simp: file_taper_result_def taper steps_simps bind_r_eq_Inr_iff)
  obtain q where L1: "ledger_of s1 = ?L\<lparr>l_queue := q\<rparr>" and q: "back_in_queue dp ?L q"
    using after_taper_ledger [OF s1] by (auto simp: ledger_quiet quiet_defs)
  obtain u where u: "u = ?B s1" by simp
  have L2: "ledger_of u = ?L\<lparr>l_queue := q, l_tape := (l_tape ?L)[ti := (None, tp_dumper (tapers s1 ! ti))]\<rparr>"
    by (simp add: u ledger_taper L1)
  have "keeps st u"
  proof (rule keepsI)
    show "books_ok (ledger_of u)"
      by (rule books_from_tape [OF L(1) _ L(2), where dp = dp]) (use L q in \<open>simp_all add: L2 calm_def back_in_queue_def\<close>)
  qed (simp_all add: L2)
  moreover from this have "keeps u st'"
    by (intro steps_keeps [OF s2 [folded u] keeps_books]) (simp_all add: continue_port_dumps_keeper start_some_dumps_keeper startaflush_keeper)
  ultimately show ?thesis by (rule keeps_trans)
qed

end
