(* ===== verification/Driver_Runs.thy ===== *)
theory Driver_Runs
  imports Driver_Ends
begin

text \<open>
  The handlers of the messages keep the books of the driver, and with them every run of the driver.
\<close>

section \<open>Messages of the dumpers\<close>

text \<open>A dumper, or a chunker, that works on a dump.\<close>

definition dumper_at_work :: "driver \<Rightarrow> nat \<Rightarrow> nat \<Rightarrow> bool" where
  "dumper_at_work st i dp \<longleftrightarrow> dm_dp (dumpers st ! i) = Some dp \<and> d_inprogress (disks st dp) \<and> d_dumper (disks st dp) = Some i"

definition chunker_at_work :: "driver \<Rightarrow> nat \<Rightarrow> nat \<Rightarrow> bool" where
  "chunker_at_work st i dp \<longleftrightarrow> dumper_at_work st i dp \<and> dm_chunker (dumpers st ! i) \<and> ch_dumper (chunkers st ! i) = Some i \<and>
     ch_result (chunkers st ! i) = LAST_TOK"

lemma at_work_ledger:
  assumes "dumper_at_work st i dp" and "books st"
  shows "l_run (ledger_of st) dp" "l_dumper (ledger_of st) dp = Some i" "i < length (dumpers st)" "i < length (chunkers st)"
    "dm_busy (dumpers st ! i) \<or> dm_down (dumpers st ! i)"
proof -
  show r: "l_run (ledger_of st) dp" and d: "l_dumper (ledger_of st) dp = Some i"
    using assms by (simp_all add: dumper_at_work_def ledger_of_sel)
  have "link_ok (ledger_of st)" using assms by (simp add: books_def books_ok_def)
  then show "i < length (dumpers st)" "i < length (chunkers st)" "dm_busy (dumpers st ! i) \<or> dm_down (dumpers st ! i)"
    using r d by (auto simp: link_ok_def running_def ledger_of_sel dest!: spec [of _ dp])
qed

lemma take_dumper_msg_ledger:
  assumes "take_dumper_msg i dp msg st = Inr st'" and "dumper_at_work st i dp" and "books st"
  shows "ledger_of st' = ledger_of st"
proof -
  have down: "ledger_of (upd_dumper i (\<lambda>m. m\<lparr>dm_listening := False, dm_busy := False, dm_down := True, dm_result := BOGUS\<rparr>) st) = ledger_of st"
    using at_work_ledger(5) [OF assms(2,3)] by (simp add: ledger_of_def upd_dumper_def map_upd_same)
  show ?thesis
    using assms(1) by (cases msg) (auto simp: take_dumper_msg_def Let_def down ledger_quiet quiet_defs split: if_splits)
qed

text \<open>Books and a dump at work, after statements that do not touch the ledger.\<close>

definition dump_of :: "driver \<Rightarrow> nat \<Rightarrow> nat \<Rightarrow> bool" where
  "dump_of st i dp \<longleftrightarrow> books st \<and> l_run (ledger_of st) dp \<and> l_dumper (ledger_of st) dp = Some i"

lemma dump_of_same: "ledger_of st' = ledger_of st \<Longrightarrow> dump_of st i dp \<Longrightarrow> dump_of st' i dp"
  by (simp add: dump_of_def books_def)

lemma result_given:
  assumes "dump_of st i dp" and "ch_result (chunkers st ! i) \<noteq> LAST_TOK"
  shows "dp \<notin> set (queues st Roomq)"
proof
  assume "dp \<in> set (queues st Roomq)"
  then obtain j where "j < length (dumpers st)" "d_dumper (disks st dp) = Some j" "l_pending (ledger_of st) ! j"
    using assms(1) by (auto simp: dump_of_def books_def books_ok_def room_ok_def ledger_of_sel)
  moreover have "length (chunkers st) = length (dumpers st)"
    using assms(1) by (auto simp: dump_of_def books_def books_ok_def link_ok_def ledger_of_sel)
  ultimately show False using assms by (auto simp: dump_of_def ledger_of_sel)
qed

lemma dumper_chunker_dump:
  assumes "dumper_chunker_result w dp st = Inr st'" and "dump_of st i dp" and "l_chunk (ledger_of st) ! i" and "ch_result (chunkers st ! i) \<noteq> LAST_TOK"
  shows "keeps st st'"
  by (rule dumper_chunker_keeps [OF assms(1), where i = i])
    (use assms result_given [OF assms(2,4)] in \<open>simp_all add: dump_of_def\<close>, simp_all add: ledger_of_sel)

lemma handle_dumper_result_keeps:
  assumes "handle_dumper_result w i msg st = Inr st'" and ok: "books st" and work: "dumper_at_work st i dp"
  shows "keeps st st'"
proof -
  note dp = work [unfolded dumper_at_work_def]
  let ?answer = "if (case msg of D_DONE _ _ \<Rightarrow> True | _ \<Rightarrow> False) then DONE else FAILED"
  from assms(1) dp obtain s1 where s1: "take_dumper_msg i dp msg st = Inr s1"
    and rest: "(if dm_chunker (dumpers s1 ! i) then
              bind_r
                (if ch_sendresult (chunkers s1 ! i) then
                   bind_r (chunker_cmd i ?answer (Some dp) s1) (pure (upd_chunker i (\<lambda>c. c\<lparr>ch_sendresult := False\<rparr>)))
                 else Inr s1) (\<lambda>st.
                if dm_result (dumpers st ! i) \<noteq> LAST_TOK \<and> ch_result (chunkers st ! i) \<noteq> LAST_TOK
                then dumper_chunker_result w dp st else Inr st)
            else
              bind_r (taper_cmd ?answer (Some dp) s1) (\<lambda>st.
                (case d_taper (disks st dp) of
                   None \<Rightarrow> Inl Out_of_bounds
                 | Some ti \<Rightarrow>
                     let st = upd_taper ti (\<lambda>t. t\<lparr>tp_sendresult := False\<rparr>) st in
                     if tp_dumper (tapers st ! ti) \<noteq> None \<and> tp_result (tapers st ! ti) \<noteq> LAST_TOK
                     then dumper_taper_result w dp st else Inr st))) = Inr st'"
    by (auto simp: handle_dumper_result_def Let_def bind_r_eq_Inr_iff split: if_splits)
  have l1: "ledger_of s1 = ledger_of st" by (rule take_dumper_msg_ledger [OF s1 work ok])
  have chunk: "l_chunk (ledger_of s1) ! i = dm_chunker (dumpers s1 ! i)"
    using at_work_ledger(3) [OF work ok] ledger_sizes(2) [OF l1] by (simp add: ledger_of_sel)
  have d: "dump_of s1 i dp" using dp ok by (simp add: dump_of_def l1 books_def) (simp add: ledger_of_sel)
  have same: "keeps st s" if "ledger_of s = ledger_of s1" for s using that l1 keeps_same ok by simp
  show ?thesis
  proof (cases "dm_chunker (dumpers s1 ! i)")
    case True
    with rest obtain s2 where
      s2: "(if ch_sendresult (chunkers s1 ! i) then
             bind_r (chunker_cmd i ?answer (Some dp) s1) (pure (upd_chunker i (\<lambda>c. c\<lparr>ch_sendresult := False\<rparr>)))
           else Inr s1) = Inr s2"
      and s3: "(if dm_result (dumpers s2 ! i) \<noteq> LAST_TOK \<and> ch_result (chunkers s2 ! i) \<noteq> LAST_TOK
                then dumper_chunker_result w dp s2 else Inr s2) = Inr st'"
      by (auto simp: bind_r_eq_Inr_iff)
    have l2: "ledger_of s2 = ledger_of s1"
      using s2 by (auto simp: bind_r_eq_Inr_iff ledger_quiet quiet_defs split: if_splits dest!: ledger_chunker_cmd)
    then have k: "keeps st s2" by (rule same)
    have "keeps s2 st'" using s3 dumper_chunker_dump [OF _ dump_of_same [OF l2 d]] chunk True l2 keeps_refl [OF keeps_books [OF k]]
      by (auto split: if_splits)
    then show ?thesis using keeps_trans [OF k] by blast
  next
    case False
    with rest obtain s2 ti where
      s2: "taper_cmd ?answer (Some dp) s1 = Inr s2"
      and s3: "(let st = upd_taper ti (\<lambda>t. t\<lparr>tp_sendresult := False\<rparr>) s2 in
                if tp_dumper (tapers st ! ti) \<noteq> None \<and> tp_result (tapers st ! ti) \<noteq> LAST_TOK
                then dumper_taper_result w dp st else Inr st) = Inr st'"
      by (auto simp: bind_r_eq_Inr_iff split: option.splits)
    let ?s = "upd_taper ti (\<lambda>t. t\<lparr>tp_sendresult := False\<rparr>) s2"
    have l2: "ledger_of ?s = ledger_of s1" using ledger_taper_cmd [OF s2] by (simp add: ledger_quiet quiet_defs)
    then have k: "keeps st ?s" by (rule same)
    have d2: "dump_of ?s i dp" by (rule dump_of_same [OF l2 d])
    have "\<not> l_chunk (ledger_of ?s) ! i" unfolding l2 chunk using False by simp
    then have "keeps ?s st'" if "dumper_taper_result w dp ?s = Inr st'"
      using d2 that by (intro dumper_taper_keeps [where i = i]) (auto simp: dump_of_def ledger_of_sel)
    then have "keeps ?s st'" using s3 keeps_refl [OF keeps_books [OF k]] by (auto simp: Let_def split: if_splits)
    then show ?thesis using keeps_trans [OF k] by blast
  qed
qed

section \<open>Messages of the chunkers\<close>

text \<open>What wakes waiting dumps or feeds tapers does not touch the results of the chunkers.\<close>

definition no_results :: "(driver \<Rightarrow> fault + driver) \<Rightarrow> bool" where
  "no_results f \<longleftrightarrow> (\<forall>s s'. f s = Inr s' \<longrightarrow> l_pending (ledger_of s') = l_pending (ledger_of s))"

lemma no_resultsD: "no_results f \<Longrightarrow> f s = Inr s' \<Longrightarrow> l_pending (ledger_of s') = l_pending (ledger_of s)"
  unfolding no_results_def by blast

lemma quietly_no_results: "quietly f \<Longrightarrow> no_results f"
  unfolding no_results_def quietly_def by metis

lemma no_results_pure: "(\<And>s. l_pending (ledger_of (g s)) = l_pending (ledger_of s)) \<Longrightarrow> no_results (pure g)"
  by (simp add: no_results_def)

lemma steps_no_results:
  assumes "steps fs s = Inr s'" and "list_all no_results fs"
  shows "l_pending (ledger_of s') = l_pending (ledger_of s)"
  using assms(1)
proof (rule steps_keep)
  fix f u u' assume "f \<in> set fs" "f u = Inr u'" "l_pending (ledger_of u) = l_pending (ledger_of s)"
  moreover from this assms(2) have "l_pending (ledger_of u') = l_pending (ledger_of u)" unfolding list_all_iff no_results_def by blast
  ultimately show "l_pending (ledger_of u') = l_pending (ledger_of s)" by simp
qed simp

lemma no_results_unqueue [simp]: "no_results (pure (unqueue q dp))"
  by (rule no_results_pure) (simp add: ledger_queue_steps)

lemma no_results_degraded [simp]: "no_results (pure start_degraded_mode)"
proof (rule no_results_pure)
  have "chunkers (snd (degrade_queue q n s)) = chunkers s" for q n s
    by (induction q n s rule: degrade_queue.induct) (simp_all add: Let_def upd_disk_def)
  then have "chunkers (start_degraded_mode s) = chunkers s" for s by (simp add: start_degraded_mode_def Let_def split_beta)
  then show "l_pending (ledger_of (start_degraded_mode s)) = l_pending (ledger_of s)" for s by (simp add: ledger_of_sel)
qed

lemma no_results_flush: "flush_one ti acts s = Inr s' \<Longrightarrow> l_pending (ledger_of s') = l_pending (ledger_of s)"
proof -
  have "start_file_write ti dp s = Inr s' \<Longrightarrow> l_pending (ledger_of s') = l_pending (ledger_of s)" for dp
    unfolding start_file_write_def
    by (erule steps_no_results) (simp add: quietly_no_results no_results_pure ledger_taper ledger_disk_done)
  then show "flush_one ti acts s = Inr s' \<Longrightarrow> l_pending (ledger_of s') = l_pending (ledger_of s)"
    by (auto simp: flush_one_def Let_def split: if_splits option.splits)
qed

lemma no_results_act: "act_on_tape ti acts s = Inr s' \<Longrightarrow> l_pending (ledger_of s') = l_pending (ledger_of s)"
  unfolding act_on_tape_def Let_def
  by (auto dest!: steps_no_results simp: quietly_no_results no_results_pure ledger_quiet quiet_defs split: if_splits option.splits)

lemma no_results_startaflush: "no_results startaflush"
proof -
  have "startaflush_tape ti s = Inr s' \<Longrightarrow> l_pending (ledger_of s') = l_pending (ledger_of s)" for ti s s'
    by (auto simp: startaflush_tape_def Let_def steps_simps bind_r_eq_Inr_iff dest!: no_results_act no_results_flush)
  then have "startaflush_in flag s = Inr s' \<Longrightarrow> l_pending (ledger_of s') = l_pending (ledger_of s)" for flag s s'
    unfolding startaflush_in_def by (erule_tac steps_no_results) (auto simp: list_all_iff no_results_def split: if_splits)
  then have "no_results (startaflush_in flag)" for flag by (simp add: no_results_def)
  then show ?thesis unfolding startaflush_def no_results_def [of "steps _"] by (auto dest!: steps_no_results)
qed

lemma no_results_continue: "no_results continue_port_dumps"
proof -
  have "no_results (grant_room dp)" for dp
    by (auto simp: no_results_def [of "grant_room dp"] grant_room_def Let_def quietly_no_results dest!: steps_no_results split: if_splits option.splits)
  moreover have "no_results abort_stuck"
  proof -
    have a: "no_results (\<lambda>st. if dm_chunker (dumpers st ! i) then chunker_cmd i ABORT None st else Inl Out_of_bounds)" for i
      by (auto simp: no_results_def dest!: ledger_chunker_cmd)
    show ?thesis
      by (auto simp: no_results_def [of abort_stuck] abort_stuck_def quietly_no_results no_results_pure a ledger_quiet quiet_defs
          dest!: steps_no_results split: if_splits option.splits prod.splits)
  qed
  ultimately show ?thesis
    by (auto simp: no_results_def [of continue_port_dumps] continue_port_dumps_def list_all_iff dest!: steps_no_results)
qed

lemma final_ledger:
  assumes "c \<noteq> LAST_TOK"
  shows "ledger_of (upd_chunker i (\<lambda>ch. ch\<lparr>ch_listening := False, ch_result := c\<rparr>) st) =
     (ledger_of st)\<lparr>l_pending := (l_pending (ledger_of st))[i := False]\<rparr>"
  using assms by (simp add: ledger_chunker)

lemma answer_dump:
  assumes "dump_of st i dp" and "dp \<notin> set (queues st Roomq)" and "ledger_of s = (ledger_of st)\<lparr>l_pending := (l_pending (ledger_of st))[i := False]\<rparr>"
  shows "dump_of s i dp \<and> keeps st s"
proof -
  have d: "books_ok (ledger_of st)" "l_run (ledger_of st) dp" "l_dumper (ledger_of st) dp = Some i"
    using assms(1) by (simp_all add: dump_of_def books_def)
  have "\<forall>e \<in> set (l_queue (ledger_of st) Roomq). l_dumper (ledger_of st) e \<noteq> Some i"
  proof
    fix e assume e: "e \<in> set (l_queue (ledger_of st) Roomq)"
    then have "l_run (ledger_of st) e" using books_parts(7) [OF d(1)] by (simp add: room_ok_def)
    moreover have "e \<noteq> dp" using e assms(2) by (auto simp: ledger_of_sel)
    ultimately show "l_dumper (ledger_of st) e \<noteq> Some i" using same_dumper [OF d(1,2)] d(3) by metis
  qed
  then have "books_ok (ledger_of s)" by (rule books_answer [OF d(1) _ assms(3)])
  then show ?thesis using d assms(3) by (auto simp: dump_of_def books_def intro: keepsI)
qed

text \<open>The messages that end the work of a chunker.\<close>

fun final_msg :: "chunker_msg \<Rightarrow> bool" where
  "final_msg (C_PARTIAL sz) = True"
| "final_msg (C_DONE sz) = True"
| "final_msg C_TRYAGAIN = True"
| "final_msg C_FAILED = True"
| "final_msg C_ABORT_FINISHED = True"
| "final_msg C_BOGUS = True"
| "final_msg _ = False"

lemma final_msg_ledger:
  assumes "take_chunker_msg i dp msg st = Inr st'" and "final_msg msg"
  shows "ledger_of st' = (ledger_of st)\<lparr>l_pending := (l_pending (ledger_of st))[i := False]\<rparr>"
  using assms
  by (cases msg) (auto simp: take_chunker_msg_def Let_def final_ledger ledger_quiet quiet_defs split: if_splits dest!: ledger_chunker_cmd)

lemma request_more_keeps:
  assumes "request_more i dp st = Inr st'" and d: "dump_of st i dp" and i: "i < length (l_link (ledger_of st))" "l_chunk (ledger_of st) ! i" "l_pending (ledger_of st) ! i"
  shows "keeps st st' \<and> l_pending (ledger_of st') = l_pending (ledger_of st)"
proof -
  from assms(1) obtain f g s1 where s1: "upd_active dp f g st = Inr s1"
    and rest: "(let d = disks s1 dp; h = the (s_holdp d); k = nat (d_activehd d) in
       if k + 1 < length h then
         bind_r (pure (upd_disk dp (\<lambda>d. d\<lparr>d_activehd := d_activehd d + 1\<rparr>)) s1) (chunker_cmd i CONTINUE (Some dp))
       else
         let st = upd_disk dp outgrow s1; d = disks st dp in
         (case find_diskspace (holdallocs st) (d_est_size d - s_act_size d) (Some (h ! k)) of
            None \<Rightarrow> steps [pure (enqueue Roomq dp), continue_port_dumps, startaflush] st
          | Some h \<Rightarrow> steps [assign_space h dp, chunker_cmd i CONTINUE (Some dp)] st)) = Inr st'"
    by (auto simp: request_more_def bind_r_eq_Inr_iff)
  have l1: "ledger_of s = ledger_of st" if "upd_active dp f g st = Inr s" for f g s by (rule ledger_active [OF that])
  have out: "ledger_of (upd_disk dp outgrow s) = ledger_of s" for s by (simp add: ledger_quiet quiet_defs outgrow_def Let_def)
  have ok: "books st" using d by (simp add: dump_of_def)
  have quiet: "steps [assign_space h dp, chunker_cmd i CONTINUE (Some dp)] s = Inr s' \<Longrightarrow> ledger_of s' = ledger_of s" for h s s'
    by (auto simp: steps_simps bind_r_eq_Inr_iff dest!: ledger_assign ledger_chunker_cmd)
  let ?u = "upd_disk dp outgrow s1"
  have nxt: "ledger_of (upd_disk dp (\<lambda>d. d\<lparr>d_activehd := d_activehd d + 1\<rparr>) s1) = ledger_of s1" by (simp add: ledger_quiet quiet_defs)
  note r = rest [unfolded Let_def]
  have "ledger_of st' = ledger_of st \<or>
      (\<exists>s. ledger_of s = ledger_of st \<and> steps [pure (enqueue Roomq dp), continue_port_dumps, startaflush] s = Inr st')"
    using r nxt out [of s1] l1 [OF s1] quiet ledger_chunker_cmd by (auto split: if_splits option.splits)
  then consider "ledger_of st' = ledger_of st"
    | s where "ledger_of s = ledger_of st" "steps [pure (enqueue Roomq dp), continue_port_dumps, startaflush] s = Inr st'" by blast
  then show ?thesis
  proof cases
    case 1
    then show ?thesis using keeps_same [OF _ ok] by simp
  next
    case (2 s)
    let ?s = "enqueue Roomq dp s"
    have q: "ledger_of ?s = (ledger_of st)\<lparr>l_queue := (l_queue (ledger_of st))(Roomq := l_queue (ledger_of st) Roomq @ [dp])\<rparr>"
      by (simp add: ledger_queue_steps 2(1))
    have "books_ok (ledger_of ?s)"
      by (rule books_wait [OF _ _ _ i q]) (use d in \<open>simp_all add: dump_of_def books_def\<close>)
    then have k: "keeps st ?s" by (rule keepsI) (simp_all add: q)
    have rest: "steps [continue_port_dumps, startaflush] ?s = Inr st'" using 2(2) by (simp add: steps_simps)
    have "keeps ?s st'"
      by (rule steps_keeps [OF rest keeps_books [OF k]]) (simp add: continue_port_dumps_keeper startaflush_keeper)
    moreover have "l_pending (ledger_of st') = l_pending (ledger_of ?s)"
      by (rule steps_no_results [OF rest]) (simp add: no_results_continue no_results_startaflush)
    ultimately show ?thesis using keeps_trans [OF k] q by simp
  qed
qed

lemma other_msg_keeps:
  assumes "take_chunker_msg i dp msg st = Inr st'" and "\<not> final_msg msg" and d: "dump_of st i dp"
    and i: "i < length (l_link (ledger_of st))" "l_chunk (ledger_of st) ! i" "l_pending (ledger_of st) ! i"
  shows "keeps st st' \<and> l_pending (ledger_of st') = l_pending (ledger_of st)"
proof (cases "msg = C_RQ_MORE_DISK")
  case True
  then show ?thesis using assms(1) request_more_keeps [OF _ d i] by (simp add: take_chunker_msg_def Let_def split: if_splits)
next
  case False
  then have "ledger_of st' = ledger_of st"
    using assms(1,2) by (cases msg) (auto simp: take_chunker_msg_def Let_def ledger_quiet quiet_defs split: if_splits
        dest!: ledger_chunker_cmd ledger_active)
  then show ?thesis using keeps_same d by (simp add: dump_of_def)
qed

lemma handle_chunker_result_keeps:
  assumes "handle_chunker_result w i msg st = Inr st'" and ok: "books st" and work: "chunker_at_work st i dp"
    and room: "final_msg msg \<longrightarrow> dp \<notin> set (queues st Roomq)"
  shows "keeps st st'"
proof -
  have dw: "dumper_at_work st i dp" and ch: "dm_chunker (dumpers st ! i)" "ch_dumper (chunkers st ! i) = Some i" "ch_result (chunkers st ! i) = LAST_TOK"
    using work by (simp_all add: chunker_at_work_def)
  note w = at_work_ledger [OF dw ok]
  have d: "dump_of st i dp" using w ok by (simp add: dump_of_def)
  have i: "i < length (l_link (ledger_of st))" "l_chunk (ledger_of st) ! i" "l_pending (ledger_of st) ! i"
    using w ch by (simp_all add: ledger_of_sel)
  from assms(1) ch(2) dw obtain s where s: "take_chunker_msg i dp msg st = Inr s"
    and rest: "(if ch_result (chunkers s ! i) \<noteq> LAST_TOK \<and> dm_result (dumpers s ! i) \<noteq> LAST_TOK
                 then dumper_chunker_result w dp s else Inr s) = Inr st'"
    by (auto simp: handle_chunker_result_def dumper_at_work_def bind_r_eq_Inr_iff split: if_splits)
  show ?thesis
  proof (cases "final_msg msg")
    case True
    have l: "ledger_of s = (ledger_of st)\<lparr>l_pending := (l_pending (ledger_of st))[i := False]\<rparr>"
      by (rule final_msg_ledger [OF s True])
    have a: "dump_of s i dp \<and> keeps st s" by (rule answer_dump [OF d _ l]) (use room True in blast)
    have "keeps s st'"
      using rest dumper_chunker_dump [of w dp s st' i] a i(2) keeps_refl keeps_books [of st s] by (auto simp: l split: if_splits)
    then show ?thesis using a keeps_trans by blast
  next
    case False
    note o = other_msg_keeps [OF s False d i]
    have m: "map (\<lambda>c. ch_result c = LAST_TOK) (chunkers s) = map (\<lambda>c. ch_result c = LAST_TOK) (chunkers st)"
      using o by (simp add: ledger_of_sel)
    have "ch_result (chunkers s ! i) = LAST_TOK"
      using arg_cong [OF m, of "\<lambda>xs. xs ! i"] map_eq_imp_length_eq [OF m] w(4) ch(3) by simp
    then show ?thesis using rest o by simp
  qed
qed

section \<open>Messages of the tapers\<close>

lemma taper_done_keeps:
  assumes "taper_done w ti st = Inr st'" and ok: "books st" and ti: "ti < length (tapers st)"
  shows "keeps st st'"
proof (cases "tp_disk (tapers st ! ti)")
  case None
  then show ?thesis using assms keeps_refl by (simp add: taper_done_def)
next
  case (Some dp)
  show ?thesis
  proof (cases "tp_dumper (tapers st ! ti)")
    case None
    then show ?thesis using assms Some file_taper_keeps [OF _ ok ti Some None] by (simp add: taper_done_def)
  next
    case dumper: (Some j)
    have "l_tape (ledger_of st) ! ti = (Some dp, Some j)" "ti < length (l_tape (ledger_of st))" using Some dumper ti by (simp_all add: ledger_of_sel)
    then have "entry_ok (ledger_of st) ti (Some dp, Some j)"
      using ok by (auto simp: books_def books_ok_def tape_ok_entries dest!: spec [of _ ti])
    then have "l_run (ledger_of st) dp \<and> l_dumper (ledger_of st) dp = Some j \<and> \<not> l_chunk (ledger_of st) ! j"
      by (simp add: entry_ok_def)
    then have "d_inprogress (disks st dp)" "d_dumper (disks st dp) = Some j" "\<not> l_chunk (ledger_of st) ! j" by (simp_all add: ledger_of_sel)
    then show ?thesis
      using assms(1) Some dumper dumper_taper_keeps [OF _ ok] keeps_refl [OF ok] by (auto simp: taper_done_def split: if_splits)
  qed
qed

lemma start_worker_quiet: "quietly start_worker"
  unfolding quietly_def
proof (intro allI impI)
  fix s s' assume s: "start_worker s = Inr s'"
  show "ledger_of s' = ledger_of s"
  proof (cases "if need_degraded s then None else List.find (\<lambda>ti. tp_state (tapers s ! ti) = {}) [0 ..< length (tapers s)]")
    case None
    then show ?thesis using s by (simp add: start_worker_def)
  next
    case (Some ti)
    then show ?thesis using s by (auto simp: start_worker_def steps_simps ledger_quiet quiet_defs dest!: ledger_taper_cmd)
  qed
qed

lemma taper_died_keeps:
  assumes "taper_died w st = Inr st'" and ok: "books st"
  shows "keeps st st'"
proof -
  let ?finish = "[pure (\<lambda>st. if taper_listening st then st\<lparr>taper_listening := False, taper_nb_wait_reply := 0\<rparr> else st),
        pure (\<lambda>st. start_degraded_mode (st\<lparr>need_degraded := True\<rparr>)),
        pure (\<lambda>st. st\<lparr>queues := (queues st)(Tapeq := [])\<rparr>)]"
  let ?mid = "map (\<lambda>ti st.
           if tp_disk (tapers st ! ti) \<noteq> None then
             taper_done w ti (upd_taper ti (\<lambda>t. t\<lparr>tp_tape_error := Some ''BOGUS'', tp_result := BOGUS\<rparr>) st)
           else Inr st) [0 ..< length (tapers st)]"
  obtain s1 where s1: "steps ?mid (st\<lparr>taper_started := True\<rparr>) = Inr s1" and s2: "steps ?finish s1 = Inr st'"
    using assms(1) by (auto simp: taper_died_def steps_append steps_simps(2) [of "pure (\<lambda>st. st\<lparr>taper_started := True\<rparr>)"]
        steps_simps(1) bind_r_eq_Inr_iff)
  have "keeps st s1" using s1
  proof (rule steps_keep)
    fix f s s' assume f: "f \<in> set ?mid" "f s = Inr s'" "keeps st s"
    then obtain ti where ti: "ti < length (tapers s)"
      "s' = s \<or> taper_done w ti (upd_taper ti (\<lambda>t. t\<lparr>tp_tape_error := Some ''BOGUS'', tp_result := BOGUS\<rparr>) s) = Inr s'"
      by (auto simp: keeps_def split: if_splits)
    let ?s = "upd_taper ti (\<lambda>t. t\<lparr>tp_tape_error := Some ''BOGUS'', tp_result := BOGUS\<rparr>) s"
    have k: "keeps s ?s" by (rule keeps_same [OF _ keeps_books [OF f(3)]]) (simp add: ledger_quiet quiet_defs)
    have "keeps ?s s'" if "taper_done w ti ?s = Inr s'"
      by (rule taper_done_keeps [OF that keeps_books [OF k]]) (use ti in \<open>simp add: upd_taper_def\<close>)
    then have "keeps s s'" using ti(2) keeps_refl [OF keeps_books [OF f(3)]] keeps_trans [OF k] by blast
    with f(3) show "keeps st s'" by (rule keeps_trans)
  qed (rule keeps_same [OF _ ok], simp)
  moreover have "keeper (pure (\<lambda>st. st\<lparr>queues := (queues st)(Tapeq := [])\<rparr>))"
  proof (rule keeper_pure)
    fix s assume "books s"
    then show "keeps s (s\<lparr>queues := (queues s)(Tapeq := [])\<rparr>)"
      by (rule books_fewer [where q = "(queues s)(Tapeq := [])"]) (simp_all add: ledger_of_def waiting_mset)
  qed
  moreover have "keeper (pure (\<lambda>st. start_degraded_mode (st\<lparr>need_degraded := True\<rparr>)))"
  proof (rule keeper_pure)
    fix s assume "books s"
    then have "keeps s (s\<lparr>need_degraded := True\<rparr>)" by (intro keeps_same) simp_all
    moreover from this have "keeps (s\<lparr>need_degraded := True\<rparr>) (start_degraded_mode (s\<lparr>need_degraded := True\<rparr>))"
      using keeper_degraded keeps_books by (simp add: keeper_def)
    ultimately show "keeps s (start_degraded_mode (s\<lparr>need_degraded := True\<rparr>))" by (rule keeps_trans)
  qed
  ultimately have "keeps s1 st'"
    by (intro steps_keeps [OF s2]) (simp_all add: quietly_keeper keeps_books)
  with \<open>keeps st s1\<close> show ?thesis by (rule keeps_trans)
qed

lemma on_taper_keeps:
  assumes "on_taper dp f st = Inr (about, st')" and ok: "books st" and f: "\<And>ti. keeper (f ti)"
  shows "keeps st st' \<and> (\<forall>ti. about = Some ti \<longrightarrow> ti < length (tapers st))"
  using assms keeperD [OF f _ ok]
  by (auto simp: on_taper_def bind_r_eq_Inr_iff map_r_eq_Inr_iff taper_of_def split: option.splits if_splits)

lemma taper_ok_keeps:
  assumes "taper_ok w ti st = Inr st'" and ok: "books st"
  shows "keeps st st'"
proof -
  obtain u where u: "u = upd_taper ti (\<lambda>t. t\<lparr>tp_left := 0, tp_nb_dle := 0, tp_disk := None, tp_dumper := None,
          tp_state := tp_state t - {STATE_INIT} \<union> {STATE_RESERVATION, STATE_IDLE}, tp_first_label := None\<rparr>) (st\<lparr>taper_started := True\<rparr>)"
    by simp
  have L: "ledger_of u = (ledger_of st)\<lparr>l_tape := (l_tape (ledger_of st))[ti := (None, None)]\<rparr>"
    unfolding u by (simp add: ledger_taper_set)
  have k: "keeps st u"
  proof (rule keepsI)
    show "books_ok (ledger_of u)"
      by (rule books_free_tape [where L = "ledger_of st"]) (use ok in \<open>simp_all add: books_def L calm_def\<close>)
  qed (simp_all add: L)
  have rest: "steps [pure (\<lambda>st. st\<lparr>taper_nb_scan_volume := taper_nb_scan_volume st - 1, last_started_taper := Some ti\<rparr>),
        pure taper_replied, start_some_dumps w, startaflush] u = Inr st'"
    using assms(1) by (simp add: taper_ok_def steps_simps(2) [of "pure _" "_"] u steps_simps(1))
  have "keeps u st'"
    by (rule steps_keeps [OF rest keeps_books [OF k]]) (simp add: quietly_keeper start_some_dumps_keeper startaflush_keeper)
  with k show ?thesis by (rule keeps_trans)
qed

lemma tape_error_keeps:
  assumes "taper_tape_error w name err st = Inr (about, st')" and ok: "books st"
  shows "keeps st st' \<and> (\<forall>ti. about = Some ti \<longrightarrow> ti < length (tapers st))"
proof -
  let ?fin = "\<lambda>s. start_some_dumps w (start_degraded_mode
      (if taper_nb_wait_reply s = 0 then stop_listening (s\<lparr>need_degraded := True\<rparr>) else s))"
  have fin: "keeps st s'" if s: "?fin s = Inr s'" "ledger_of s = ledger_of st" for s s'
  proof -
    let ?s = "if taper_nb_wait_reply s = 0 then stop_listening (s\<lparr>need_degraded := True\<rparr>) else s"
    have "keeps st ?s" by (rule keeps_same [OF _ ok]) (simp add: s(2) stop_listening_def)
    moreover from this have "keeps ?s (start_degraded_mode ?s)"
      using keeper_degraded keeps_books by (simp only: keeper_def pure_simp)
    moreover from this have "keeps (start_degraded_mode ?s) s'" by (rule keeperD [OF start_some_dumps_keeper s(1) keeps_books])
    ultimately show ?thesis using keeps_trans by blast
  qed
  show ?thesis
  proof (cases "name = ''SETUP''")
    case True
    with assms(1) have a: "about = None" and "?fin (st\<lparr>taper_started := True, taper_nb_wait_reply := 0, taper_nb_scan_volume := 0, need_degraded := True\<rparr>) = Inr st'"
      by (auto simp: taper_tape_error_def Let_def map_r_eq_Inr_iff)
    from fin [OF this(2)] a show ?thesis by simp
  next
    case False
    with assms(1) obtain ti where ti: "taper_from_name name st = Some ti" "about = Some ti"
      "?fin (upd_taper ti (\<lambda>t. t\<lparr>tp_state := {STATE_DONE}, tp_tape_error := Some err\<rparr>)
               (st\<lparr>taper_started := True, taper_nb_wait_reply := taper_nb_wait_reply st - 1,
                   taper_nb_scan_volume := taper_nb_scan_volume st - 1\<rparr>)) = Inr st'"
      by (auto simp: taper_tape_error_def Let_def map_r_eq_Inr_iff split: option.splits)
    have "keeps st st'" by (rule fin [OF ti(3)]) (simp add: ledger_quiet quiet_defs)
    then show ?thesis using ti by (auto simp: taper_from_name_def dest: find_mem)
  qed
qed

lemma quiet_reads:
  "quietly (taper_dumper_status dp ti)" "quietly (taper_partdone dp label fileno kb sz ti)" "quietly (taper_port w dp ti)"
  "quietly (pure (taper_result c dp inp tape ie te z ti))"
proof -
  show "quietly (taper_dumper_status dp ti)"
    by (auto simp: quietly_def taper_dumper_status_def ledger_quiet quiet_defs split: option.splits if_splits dest!: ledger_taper_cmd)
  show "quietly (taper_partdone dp label fileno kb sz ti)"
    by (auto simp: quietly_def taper_partdone_def steps_simps ledger_quiet quiet_defs)
  show "quietly (taper_port w dp ti)"
    by (auto simp: quietly_def taper_port_def steps_simps bind_r_eq_Inr_iff ledger_quiet quiet_defs split: option.splits dest!: ledger_dumper_cmd)
  show "quietly (pure (taper_result c dp inp tape ie te z ti))"
    by (auto simp: quietly_def taper_result_def Let_def ledger_quiet quiet_defs split: option.splits)
qed

lemma new_tape_keepers:
  "keeper (taper_new_tape ti)" "keeper (taper_no_new_tape ti)" "keeper (taper_request_new_tape w ti)"
proof -
  show "keeper (taper_new_tape ti)"
    unfolding taper_new_tape_def by (rule keeper_steps) (simp add: quietly_keeper start_worker_quiet ledger_quiet quiet_defs)
  have "keeper (pure (\<lambda>st. start_degraded_mode (st\<lparr>last_started_taper := None\<rparr>)))"
  proof (rule keeper_pure)
    fix s assume "books s"
    then have "keeps s (s\<lparr>last_started_taper := None\<rparr>)" by (intro keeps_same) simp_all
    moreover from this have "keeps (s\<lparr>last_started_taper := None\<rparr>) (start_degraded_mode (s\<lparr>last_started_taper := None\<rparr>))"
      using keeper_degraded keeps_books by (simp add: keeper_def)
    ultimately show "keeps s (start_degraded_mode (s\<lparr>last_started_taper := None\<rparr>))" by (rule keeps_trans)
  qed
  then show "keeper (taper_no_new_tape ti)"
    unfolding taper_no_new_tape_def by (intro keeper_steps) (simp add: quietly_keeper ledger_quiet quiet_defs)
  show "keeper (taper_request_new_tape w ti)"
    by (rule keeperI, unfold taper_request_new_tape_def)
      (auto elim!: steps_keeps simp: quietly_keeper start_some_dumps_keeper startaflush_keeper ledger_quiet quiet_defs
        intro: keeps_same split: if_splits dest!: ledger_taper_cmd)
qed

lemma take_taper_msg_keeps:
  assumes "take_taper_msg w msg st = Inr (about, st')" and ok: "books st"
  shows "keeps st st' \<and> (\<forall>ti. about = Some ti \<longrightarrow> ti < length (tapers st))"
proof (cases msg)
  case (T_TAPER_OK name)
  with assms(1) obtain ti where "taper_from_name name st = Some ti" "about = Some ti" "taper_ok w ti st = Inr st'"
    by (auto simp: take_taper_msg_def map_r_eq_Inr_iff split: option.splits)
  then show ?thesis using taper_ok_keeps [OF _ ok] by (auto simp: taper_from_name_def dest: find_mem)
next
  case T_BOGUS
  then show ?thesis using assms(1) taper_died_keeps [OF _ ok] by (auto simp: take_taper_msg_def map_r_eq_Inr_iff)
next
  case (T_TAPE_ERROR name err)
  then show ?thesis using assms(1) tape_error_keeps [OF _ ok] by (simp add: take_taper_msg_def)
qed (use assms(1) in \<open>auto simp: take_taper_msg_def dest!: on_taper_keeps [OF _ ok] simp: new_tape_keepers quiet_reads quietly_keeper\<close>)

lemma handle_taper_result_keeps:
  assumes "handle_taper_result w msg st = Inr st'" and ok: "books st"
  shows "keeps st st'"
proof -
  from assms(1) obtain about s1 s2 where s1: "take_taper_msg w msg st = Inr (about, s1)"
    and s2: "(case about of
            None \<Rightarrow> Inr s1
          | Some ti \<Rightarrow>
              (case tp_disk (tapers s1 ! ti) of
                 None \<Rightarrow> Inr s1
               | Some dp \<Rightarrow>
                   if tp_result (tapers s1 ! ti) = LAST_TOK then Inr s1
                   else bind_r
                     (only_if (tp_nb_dle (tapers s1 ! ti) \<ge> conf_max_dle_by_volume (conf s1)) (taper_cmd CLOSE_VOLUME (Some dp)) s1)
                     (taper_done w ti))) = Inr s2"
    and s3: "steps [start_some_dumps w, startaflush] s2 = Inr st'"
    by (auto simp: handle_taper_result_def bind_r_eq_Inr_iff)
  note k = take_taper_msg_keeps [OF s1 ok]
  have "keeps s1 s2"
  proof (cases "s2 = s1")
    case True
    then show ?thesis using k keeps_refl keeps_books by blast
  next
    case False
    with s2 obtain ti dp u where u: "about = Some ti"
      "only_if (tp_nb_dle (tapers s1 ! ti) \<ge> conf_max_dle_by_volume (conf s1)) (taper_cmd CLOSE_VOLUME (Some dp)) s1 = Inr u"
      "taper_done w ti u = Inr s2"
      by (auto simp: bind_r_eq_Inr_iff split: option.splits if_splits)
    have "ledger_of u = ledger_of s1" using u(2) by (auto simp: only_if_Inr split: if_splits dest!: ledger_taper_cmd)
    then have ku: "keeps s1 u" using k keeps_books keeps_same by blast
    have "ti < length (tapers u)" using k ku u(1) by (simp add: keeps_def)
    then have "keeps u s2" by (rule taper_done_keeps [OF u(3) keeps_books [OF ku]])
    with ku show ?thesis by (rule keeps_trans)
  qed
  then have k2: "keeps st s2" using k keeps_trans by blast
  have "keeps s2 st'" by (rule steps_keeps [OF s3 keeps_books [OF k2]]) (simp add: start_some_dumps_keeper startaflush_keeper)
  with k2 show ?thesis by (rule keeps_trans)
qed

end
