(* ===== verification/Driver_Correct.thy ===== *)
theory Driver_Correct
  imports Driver_Runs
begin

text \<open>
  The runs of the driver, and what its books say about them: the bandwidth counted against an interface is
  what the running dumps take, a host runs no more dumps than it may, no two dumps share a spindle, and a
  disk is in one place.
\<close>

section \<open>Runs\<close>

datatype event = Ev_time | Ev_dumper nat dumper_msg | Ev_chunker nat chunker_msg | Ev_taper taper_msg

text \<open>
  One event. A dumper and a chunker send messages while they work on a dump, a chunker until it has given
  its result, which it does not do while its dump waits for room; the taper may send anything.
\<close>

inductive driver_step :: "driver \<Rightarrow> world \<times> event \<Rightarrow> driver \<Rightarrow> bool" where
  time: "handle_dumpers_time w st = Inr st' \<Longrightarrow> driver_step st (w, Ev_time) st'"
| dumper: "dumper_at_work st i dp \<Longrightarrow> handle_dumper_result w i msg st = Inr st' \<Longrightarrow> driver_step st (w, Ev_dumper i msg) st'"
| chunker: "chunker_at_work st i dp \<Longrightarrow> (final_msg msg \<longrightarrow> dp \<notin> set (queues st Roomq)) \<Longrightarrow>
    handle_chunker_result w i msg st = Inr st' \<Longrightarrow> driver_step st (w, Ev_chunker i msg) st'"
| taper: "handle_taper_result w msg st = Inr st' \<Longrightarrow> driver_step st (w, Ev_taper msg) st'"

inductive_cases driver_stepE: "driver_step st (w, e) st'"

text \<open>Before anything runs: the schedule has been read, and the dumps to flush are in the tape queue.\<close>

definition driver_start :: "driver \<Rightarrow> bool" where
  "driver_start st \<longleftrightarrow>
     length (chunkers st) = length (dumpers st) \<and> (\<forall>dp. \<not> d_inprogress (disks st dp)) \<and> (\<forall>h. h_inprogress (hosts st h) = 0) \<and>
     (\<forall>n. n_curusage (netifs st n) = 0) \<and> queues st Roomq = [] \<and> (\<forall>t \<in> set (tapers st). tp_disk t = None) \<and>
     distinct (waiting (queues st)) \<and> (\<forall>dp \<in> set (waiting (queues st)). dp \<in> set (h_disks (host_of st dp)))"

lemma driver_start_books: "driver_start st \<Longrightarrow> books st"
proof -
  assume s: "driver_start st"
  have idle: "running (ledger_of st) = {}" using s by (simp add: driver_start_def running_def ledger_of_sel)
  have tape: "(Some e, j) \<notin> set (l_tape (ledger_of st))" for e j
    using s by (auto simp: driver_start_def ledger_of_sel)
  have "kps_ok (ledger_of st)" "count_ok (ledger_of st)" "link_ok (ledger_of st)" "spindle_ok (ledger_of st)" "room_ok (ledger_of st)"
    using s by (simp_all add: kps_ok_def count_ok_def link_ok_def spindle_ok_def room_ok_def idle, simp_all add: driver_start_def ledger_of_sel)
  moreover have "place_ok (ledger_of st)"
    using s tape unfolding place_ok_def by (auto simp: driver_start_def ledger_of_sel host_of_def)
  moreover have "tape_ok (ledger_of st)" using s nth_mem by (fastforce simp: tape_ok_def driver_start_def ledger_of_sel)
  ultimately show ?thesis by (simp add: books_def books_ok_def idle)
qed

interpretation driver_books: guarded_system driver_start driver_step books
proof
  show "books st" if "driver_start st" for st using that by (rule driver_start_books)
  show "books st'" if ok: "books st" and step: "driver_step st e st'" for st e st'
    using step
  proof cases
    case (time w)
    have "books (st\<lparr>dumpers_ev_time := None\<rparr>)" using ok by (simp add: books_def)
    then show ?thesis
      using time(2) keeps_books [OF keeperD [OF start_some_dumps_keeper]] unfolding handle_dumpers_time_def by blast
  next
    case (dumper i dp w msg)
    then show ?thesis using handle_dumper_result_keeps [OF _ ok] keeps_books by blast
  next
    case (chunker i dp msg w)
    then show ?thesis using handle_chunker_result_keeps [OF _ ok] keeps_books by blast
  next
    case (taper w msg)
    then show ?thesis using handle_taper_result_keeps [OF _ ok] keeps_books by blast
  qed
qed

text \<open>Runs can be executed.\<close>

definition try_event :: "world \<times> event \<Rightarrow> driver \<Rightarrow> driver option" where
  "try_event we st =
     (let result = (\<lambda>b r. case r of Inl _ \<Rightarrow> None | Inr st' \<Rightarrow> if b then Some st' else None) in
      case we of
        (w, Ev_time) \<Rightarrow> result True (handle_dumpers_time w st)
      | (w, Ev_dumper i msg) \<Rightarrow> result (case dm_dp (dumpers st ! i) of None \<Rightarrow> False | Some dp \<Rightarrow> dumper_at_work st i dp) (handle_dumper_result w i msg st)
      | (w, Ev_chunker i msg) \<Rightarrow>
          result (case dm_dp (dumpers st ! i) of None \<Rightarrow> False | Some dp \<Rightarrow> chunker_at_work st i dp \<and> dp \<notin> set (queues st Roomq))
            (handle_chunker_result w i msg st)
      | (w, Ev_taper msg) \<Rightarrow> result True (handle_taper_result w msg st))"

fun run_events :: "(world \<times> event) list \<Rightarrow> driver \<Rightarrow> driver option" where
  "run_events [] st = Some st"
| "run_events (we # es) st = Option.bind (try_event we st) (run_events es)"

lemma try_event_step: "try_event we st = Some st' \<Longrightarrow> driver_step st we st'"
  by (auto simp: try_event_def Let_def split: prod.splits event.splits sum.splits option.splits if_splits intro: driver_step.intros)

lemma run_events_run: "run_events es st = Some st' \<Longrightarrow> run_steps driver_step st es st'"
proof (induction es arbitrary: st)
  case Nil
  then show ?case by simp
next
  case (Cons we es)
  then show ?case by (auto simp: bind_eq_Some_conv intro: run_cons try_event_step)
qed

section \<open>A small configuration\<close>

text \<open>Two disks of one host, which may run one dump at a time; two dumpers, one holding disk, no taper yet.\<close>

definition small_dle :: "string \<Rightarrow> dle" where
  "small_dle name = \<lparr>s_holdp = None, s_act_size = 0, d_host = 0, d_name = name, d_spindle = - 1, d_start_t = 0, d_priority = 1,
     d_to_holdingdisk = HOLD_AUTO, d_inprogress = False, d_splitsize = 0, d_scheduled = True, d_level = 0, d_degr_level = - 1,
     d_est_nsize = 100, d_est_csize = 100, d_est_size = 100, d_est_time = 10, d_est_kps = 10, d_degr_nsize = 0, d_degr_csize = 0,
     d_degr_time = 0, d_degr_kps = 0, d_origsize = - 1, d_dumpsize = - 1, d_dumptime = 0, d_destname = None, d_dumper = None,
     d_taper = None, d_timestamp = 0, d_datestamp = ''1'', d_activehd = 0, d_no_space = False, d_dump_attempted = 0, d_taper_attempted = 0\<rparr>"

definition small_driver :: driver where
  "small_driver = \<lparr>
     conf = \<lparr>conf_dumporder = ''t'', conf_runtapes = 1, conf_max_dle_by_volume = 1000, conf_taperalgo = ALGO_FIRST,
       flush_threshold_dumped = 0, flush_threshold_scheduled = 0, taperflush = 0, tape_length = 1000, reserved_space = 0,
       total_disksize = 1000, hd_driver_timestamp = ''1'', driver_timestamp = ''1''\<rparr>,
     disks = (\<lambda>dp. if dp = 0 then small_dle ''a'' else small_dle ''b''),
     hosts = (\<lambda>_. \<lparr>h_name = ''h'', h_disks = [0, 1], h_inprogress = 0, h_maxdumps = 1, h_start_t = 0, h_netif = 0\<rparr>),
     netifs = (\<lambda>_. \<lparr>n_maxusage = 15, n_curusage = 0\<rparr>),
     holdallocs = [\<lparr>ha_chunksize = 1024, ha_diskdir = ''/hold'', disksize = 1000, allocated_dumpers = 0, allocated_space = 0\<rparr>],
     dumpers = replicate 2 \<lparr>dm_busy = False, dm_down = False, dm_result = LAST_TOK, dm_listening = False, dm_dp = None, dm_chunker = False\<rparr>,
     chunkers = replicate 2 \<lparr>ch_down = True, ch_open = False, ch_listening = False, ch_result = LAST_TOK, ch_sendresult = False, ch_dumper = None\<rparr>,
     tapers = [], queues = (\<lambda>q. if q = Runq then [0, 1] else []), pending_aborts = 0, degraded_mode = False, need_degraded = False,
     schedule_done = True, force_flush = False, taper_started = True, taper_listening = False, taper_nb_wait_reply = 0,
     taper_nb_scan_volume = 0, nb_sent_new_tape = 0, last_started_taper = None, current_tape = 0, sleep_time = 0,
     idle_reason = NOT_IDLE, dumpers_ev_time = None, sent_cmds = []\<rparr>"

definition small_world :: world where
  "small_world = \<lparr>w_now = 100, w_port_ok = (\<lambda>_. True), w_file_size = (\<lambda>_. 96)\<rparr>"

text \<open>The first dump starts and ends: its dumper, then its chunker, says so. Host and time let the second one start.\<close>

definition small_events :: "(world \<times> event) list" where
  "small_events =
     [(small_world, Ev_time), (small_world\<lparr>w_now := 200\<rparr>, Ev_dumper 0 (D_DONE 200 5)), (small_world\<lparr>w_now := 200\<rparr>, Ev_chunker 0 (C_DONE 96))]"

definition outcome :: "(world \<times> event) list \<Rightarrow> driver \<Rightarrow> driver" where
  "outcome es st = (case run_events es st of None \<Rightarrow> st | Some st' \<Rightarrow> st')"

definition small_second :: driver where
  "small_second = outcome small_events small_driver"

text \<open>What the events lead to, computed once.\<close>

lemma small_result:
  "case run_events small_events small_driver of
     None \<Rightarrow> False
   | Some st \<Rightarrow> n_curusage (netifs st 0) = 10 \<and> h_inprogress (hosts st 0) = 1 \<and> queues st Tapeq = [0] \<and>
       d_inprogress (disks st 1) \<and> \<not> d_inprogress (disks st 0) \<and> queues st Runq = [] \<and>
       h_netif (host_of st 1) = 0 \<and> d_est_kps (disks st 1) = 10"
  by code_simp

lemma small_run: "run_steps driver_step small_driver small_events small_second"
  using small_result run_events_run by (auto simp: small_second_def outcome_def split: option.splits)

lemma small_values:
  "n_curusage (netifs small_second 0) = 10" "h_inprogress (hosts small_second 0) = 1" "queues small_second Tapeq = [0]"
  "d_inprogress (disks small_second 1)" "\<not> d_inprogress (disks small_second 0)" "queues small_second Runq = []"
  "h_netif (host_of small_second 1) = 0" "d_est_kps (disks small_second 1) = 10"
  using small_result by (auto simp: small_second_def outcome_def split: option.splits)

lemma small_start: "driver_start small_driver"
  by (auto simp: driver_start_def small_driver_def small_dle_def host_of_def waiting_def)

section \<open>The properties\<close>

text \<open>C23: in every state a run of the driver reaches, the bandwidth counted against an interface is the sum of what the
  running dumps of its hosts were estimated to take, a host counts as many dumps as are running on it and
  no more than its limit, and no two running dumps of a host use the same spindle. The processes send
  messages only while they work on a dump, and a chunker gives no result while its dump waits for room.\<close>

theorem driver_keeps_books:
  assumes "driver_start st" and "run_steps driver_step st es st'"
  shows "finite {dp. d_inprogress (disks st' dp)} \<and>
    (\<forall>n. n_curusage (netifs st' n) =
       (\<Sum>dp \<in> {dp. d_inprogress (disks st' dp) \<and> h_netif (host_of st' dp) = n}. d_est_kps (disks st' dp))) \<and>
    (\<forall>h. h_inprogress (hosts st' h) = int (card {dp. d_inprogress (disks st' dp) \<and> d_host (disks st' dp) = h}) \<and>
       h_inprogress (hosts st' h) \<le> max 0 (h_maxdumps (hosts st' h))) \<and>
    (\<forall>dp e. d_inprogress (disks st' dp) \<longrightarrow> d_inprogress (disks st' e) \<longrightarrow> d_host (disks st' dp) = d_host (disks st' e) \<longrightarrow>
       d_spindle (disks st' dp) = d_spindle (disks st' e) \<longrightarrow> d_spindle (disks st' dp) \<noteq> - 1 \<longrightarrow> dp = e)"
proof -
  have ok: "books_ok (ledger_of st')" using driver_books.inv_reachable [OF assms] by (simp add: books_def)
  show ?thesis
    using books_parts(1,2,3,5) [OF ok]
    by (auto simp: kps_ok_def count_ok_def spindle_ok_def running_def ledger_of_sel host_of_def)
qed

theorem driver_keeps_books_witness:
  "n_curusage (netifs small_second 0) =
     (\<Sum>dp \<in> {dp. d_inprogress (disks small_second dp) \<and> h_netif (host_of small_second dp) = 0}. d_est_kps (disks small_second dp)) \<and>
   n_curusage (netifs small_second 0) = 10 \<and> h_inprogress (hosts small_second 0) = 1"
  using driver_keeps_books [OF small_start small_run] small_values(1,2) by blast

text \<open>C24: in every state a run of the driver reaches, a disk is in at most one of the run queue, the direct queue and
  the tape queue, and there at most once; while it waits there no dumper works on it and no taper has it;
  and no two tapers have the same disk.\<close>

theorem driver_disk_in_one_place:
  assumes "driver_start st" and "run_steps driver_step st es st'"
  shows "distinct (queues st' Runq @ queues st' Directq @ queues st' Tapeq) \<and>
    (\<forall>dp \<in> set (queues st' Runq @ queues st' Directq @ queues st' Tapeq).
       \<not> d_inprogress (disks st' dp) \<and> (\<forall>ti < length (tapers st'). tp_disk (tapers st' ! ti) \<noteq> Some dp)) \<and>
    (\<forall>ti < length (tapers st'). \<forall>tj < length (tapers st'). \<forall>dp.
       tp_disk (tapers st' ! ti) = Some dp \<longrightarrow> tp_disk (tapers st' ! tj) = Some dp \<longrightarrow> ti = tj)"
proof -
  let ?L = "ledger_of st'"
  have ok: "books_ok ?L" using driver_books.inv_reachable [OF assms] by (simp add: books_def)
  have entry: "entry_ok ?L ti (Some dp, tp_dumper (tapers st' ! ti))" if "ti < length (tapers st')" "tp_disk (tapers st' ! ti) = Some dp" for ti dp
    using books_parts(8) [OF ok] that by (auto simp: tape_ok_entries sizes_of_ledger [symmetric] dest!: spec [of _ ti]) (simp add: ledger_of_sel)
  have idle: "\<not> l_run ?L dp" if "dp \<in> set (waiting (l_queue ?L))" for dp using waiting_idle [OF ok that] .
  have "tp_disk (tapers st' ! ti) \<noteq> Some dp" if dp: "dp \<in> set (waiting (l_queue ?L))" and ti: "ti < length (tapers st')" for dp ti
  proof
    assume "tp_disk (tapers st' ! ti) = Some dp"
    from entry [OF ti this] show False using idle [OF dp] dp by (auto simp: entry_ok_def split: option.splits)
  qed
  moreover have "ti = tj" if "ti < length (tapers st')" "tj < length (tapers st')" "tp_disk (tapers st' ! ti) = Some dp" "tp_disk (tapers st' ! tj) = Some dp" for ti tj dp
    using entry [OF that(1,3)] entry [OF that(2,4)] by (simp add: entry_ok_def)
  moreover have "distinct (waiting (l_queue ?L))" using books_parts(6) [OF ok] by (simp add: place_ok_def)
  ultimately show ?thesis using idle unfolding waiting_def by (auto simp: ledger_of_sel)
qed

theorem driver_disk_in_one_place_witness:
  "\<not> d_inprogress (disks small_second 0) \<and> queues small_second Tapeq = [0] \<and> d_inprogress (disks small_second 1)"
  using driver_disk_in_one_place [OF small_start small_run] small_values by auto

text \<open>The assertion of \<open>deallocate_bandwidth\<close> cannot fail at the end of a running dump: in every state a run of the
  driver reaches, what a running dump was estimated to take is still counted against its interface.\<close>

theorem driver_bandwidth_returned:
  assumes "driver_start st" and "run_steps driver_step st es st'" and "d_inprogress (disks st' dp)"
  shows "deallocate_bandwidth (h_netif (host_of st' dp)) (d_est_kps (disks st' dp)) st' =
    Inr (upd_netif (h_netif (host_of st' dp)) (\<lambda>n. n\<lparr>n_curusage := n_curusage n - d_est_kps (disks st' dp)\<rparr>) st')"
proof -
  have ok: "books_ok (ledger_of st')" using driver_books.inv_reachable [OF assms(1,2)] by (simp add: books_def)
  have "l_run (ledger_of st') dp" using assms(3) by (simp add: ledger_of_sel)
  from kps_enough [OF ok this] show ?thesis by (simp add: deallocate_bandwidth_def ledger_of_sel host_of_def)
qed

theorem driver_bandwidth_returned_witness:
  "\<exists>st. deallocate_bandwidth 0 10 small_second = Inr st \<and> n_curusage (netifs st 0) = 0"
  using driver_bandwidth_returned [OF small_start small_run small_values(4)] by (simp add: upd_netif_def small_values del: One_nat_def)

section \<open>The death of an idle dumper\<close>

text \<open>C40: the driver still holds the disk of a dumper's last dump when that dumper dies idle, and ends that dump a second
  time: if the bandwidth of the dump is no longer counted, the assertion of \<open>deallocate_bandwidth\<close> stops the
  driver. The state of the witness is reached with a dump that has to wait, which keeps \<open>start_some_dumps\<close>
  from releasing the dumper's event.\<close>

theorem idle_dumper_death_aborts:
  assumes "dm_dp (dumpers st ! i) = Some dp" and "dm_chunker (dumpers st ! i)" and "i < length (dumpers st)"
    and "d_scheduled (disks st dp)" and "d_dumper (disks st dp) = Some i"
    and "\<not> ch_sendresult (chunkers st ! i)" and "ch_result (chunkers st ! i) \<noteq> LAST_TOK"
    and "s_holdp (disks st dp) \<noteq> None" and "d_destname (disks st dp) \<noteq> None"
    and "n_curusage (netifs st (h_netif (host_of st dp))) < d_est_kps (disks st dp)"
  shows "handle_dumper_result w i D_BOGUS st = Inl Assertion_failed"
proof -
  let ?s = "upd_dumper i (\<lambda>m. m\<lparr>dm_listening := False, dm_busy := False, dm_down := True, dm_result := BOGUS\<rparr>) st"
  have "chunkers ?s = chunkers st" "disks ?s = disks st" "hosts ?s = hosts st" "netifs ?s = netifs st"
    "dm_chunker (dumpers ?s ! i)" "dm_result (dumpers ?s ! i) = BOGUS"
    using assms(2,3) by (simp_all add: upd_dumper_def)
  moreover have "dumper_chunker_result w dp ?s = Inl Assertion_failed"
    using assms(5,8-10) calculation
    by (auto simp: dumper_chunker_result_def Let_def steps_simps deallocate_bandwidth_def host_of_def)
  ultimately show ?thesis using assms(1,4,6,7)
    by (simp add: handle_dumper_result_def take_dumper_msg_def Let_def)
qed

text \<open>Three disks, two of which run together while the third has to wait until later.\<close>

definition waiting_driver :: driver where
  "waiting_driver = small_driver\<lparr>
     disks := (\<lambda>dp. if dp = 2 then (small_dle ''c'')\<lparr>d_start_t := 10000\<rparr> else small_dle ''a''),
     hosts := (\<lambda>_. \<lparr>h_name = ''h'', h_disks = [0, 1, 2], h_inprogress = 0, h_maxdumps = 2, h_start_t = 0, h_netif = 0\<rparr>),
     netifs := (\<lambda>_. \<lparr>n_maxusage = 100, n_curusage = 0\<rparr>), queues := (\<lambda>q. if q = Runq then [0, 1, 2] else [])\<rparr>"

definition waiting_events :: "(world \<times> event) list" where
  "waiting_events =
     (let later = small_world\<lparr>w_now := 300\<rparr> in
      [(small_world, Ev_time), (small_world\<lparr>w_now := 200\<rparr>, Ev_time), (later, Ev_dumper 0 (D_DONE 200 5)), (later, Ev_chunker 0 (C_DONE 96)),
       (later, Ev_dumper 1 (D_DONE 200 5)), (later, Ev_chunker 1 (C_DONE 96))])"

lemma waiting_result:
  "case run_events waiting_events waiting_driver of
     None \<Rightarrow> False
   | Some st \<Rightarrow> \<not> dm_busy (dumpers st ! 1) \<and> dm_listening (dumpers st ! 1) \<and>
       dm_dp (dumpers st ! 1) = Some 1 \<and> dm_chunker (dumpers st ! 1) \<and> length (dumpers st) = 2 \<and> d_scheduled (disks st 1) \<and>
       d_dumper (disks st 1) = Some 1 \<and> \<not> ch_sendresult (chunkers st ! 1) \<and> ch_result (chunkers st ! 1) = DONE \<and>
       s_holdp (disks st 1) \<noteq> None \<and> d_destname (disks st 1) \<noteq> None \<and>
       n_curusage (netifs st (h_netif (host_of st 1))) = 0 \<and> d_est_kps (disks st 1) = 10"
  by code_simp

theorem idle_dumper_death_aborts_witness:
  "\<exists>st. run_steps driver_step waiting_driver waiting_events st \<and> \<not> dm_busy (dumpers st ! 1) \<and> dm_listening (dumpers st ! 1) \<and>
     handle_dumper_result small_world 1 D_BOGUS st = Inl Assertion_failed"
proof -
  obtain st where st: "run_events waiting_events waiting_driver = Some st" using waiting_result by (auto split: option.splits)
  note r = waiting_result [unfolded st option.case]
  have "handle_dumper_result small_world 1 D_BOGUS st = Inl Assertion_failed"
    by (rule idle_dumper_death_aborts [where dp = 1]) (simp_all add: r del: One_nat_def)
  then show ?thesis using run_events_run [OF st] r by blast
qed

end
