(* ===== verification/Driver_Choice.thy ===== *)
theory Driver_Choice
  imports Driver_Correct
begin

text \<open>
  Which dump of the tape queue a taper is given (\<open>startaflush_tape\<close> in \<open>server-src/driver.c\<close>), for the algorithms that
  only take a dump that fits.
\<close>

text \<open>A dump that fits on what is left, and is not newer than the first one.\<close>

definition fits_taper :: "(nat \<Rightarrow> dle) \<Rightarrow> nat list \<Rightarrow> int \<Rightarrow> int \<Rightarrow> nat \<Rightarrow> bool" where
  "fits_taper ds q extra left dp \<longleftrightarrow>
     s_act_size (ds dp) \<le> (if d_splitsize (ds dp) \<noteq> 0 then extra else left) \<and>
     strcmp_le (d_datestamp (ds dp)) (d_datestamp (ds (hd q)))"

lemma scan_queue_snoc:
  "scan_queue P R d (q @ [x]) =
     (let b = scan_queue P R d q in if P x \<and> (case b of None \<Rightarrow> True | Some y \<Rightarrow> R x y) then Some x else b)"
  by (simp add: scan_queue_def Let_def)

lemma scan_queue_none: "\<forall>x \<in> set q. \<not> P x \<Longrightarrow> scan_queue P R d q = d"
  by (induction q rule: rev_induct) (simp_all add: scan_queue_snoc Let_def, simp add: scan_queue_def)

lemma scan_queue_best:
  fixes key :: "nat \<Rightarrow> int"
  shows "case scan_queue P (\<lambda>x y. key x > key y) None q of
     None \<Rightarrow> \<forall>x \<in> set q. \<not> P x
   | Some y \<Rightarrow> y \<in> set q \<and> P y \<and> (\<forall>x \<in> set q. P x \<longrightarrow> key x \<le> key y)"
proof (induction q rule: rev_induct)
  case (snoc x q)
  then show ?case by (auto simp: scan_queue_snoc Let_def split: option.splits)
qed (simp add: scan_queue_def)

lemma scan_queue_from:
  fixes key :: "nat \<Rightarrow> int"
  shows "case scan_queue P (\<lambda>x y. key x > key y) (Some h) q of
     None \<Rightarrow> False
   | Some y \<Rightarrow> (y = h \<or> y \<in> set q \<and> P y \<and> key y > key h) \<and> (\<forall>x \<in> set q. P x \<longrightarrow> key x \<le> key y)"
proof (induction q rule: rev_induct)
  case (snoc x q)
  then show ?case by (auto simp: scan_queue_snoc Let_def split: option.splits)
qed (simp add: scan_queue_def)

text \<open>C38: the choice of the next dump for a taper. The largest that fits is a dump that fits and no dump that fits is
  larger, and there is none only if nothing fits. The other two are not what their names say: the last that
  fits is a smallest one that fits, and the smallest that fits starts from the first dump of the queue, so
  that it is the first dump, fitting or not, unless a dump that fits is smaller.\<close>

theorem taper_fit_choice:
  assumes "q \<noteq> []"
  shows "(case pick_for_taper ALGO_LARGESTFIT ds q extra left of
       None \<Rightarrow> \<forall>e \<in> set q. \<not> fits_taper ds q extra left e
     | Some dp \<Rightarrow> dp \<in> set q \<and> fits_taper ds q extra left dp \<and>
         (\<forall>e \<in> set q. fits_taper ds q extra left e \<longrightarrow> s_act_size (ds e) \<le> s_act_size (ds dp))) \<and>
    (case pick_for_taper ALGO_LASTFIT ds q extra left of
       None \<Rightarrow> \<forall>e \<in> set q. \<not> fits_taper ds q extra left e
     | Some dp \<Rightarrow> dp \<in> set q \<and> fits_taper ds q extra left dp \<and>
         (\<forall>e \<in> set q. fits_taper ds q extra left e \<longrightarrow> s_act_size (ds dp) \<le> s_act_size (ds e))) \<and>
    (\<exists>dp. pick_for_taper ALGO_SMALLESTFIT ds q extra left = Some dp \<and> dp \<in> set q \<and>
       (dp = hd q \<or> fits_taper ds q extra left dp \<and> s_act_size (ds dp) < s_act_size (ds (hd q))) \<and>
       (\<forall>e \<in> set q. fits_taper ds q extra left e \<longrightarrow> s_act_size (ds dp) \<le> s_act_size (ds e)))"
proof -
  let ?f = "fits_taper ds q extra left" and ?s = "\<lambda>dp. s_act_size (ds dp)"
  have f: "(\<lambda>dp. s_act_size (ds dp) \<le> (if d_splitsize (ds dp) \<noteq> 0 then extra else left) \<and>
      strcmp_le (d_datestamp (ds dp)) (d_datestamp (ds (hd q)))) = ?f"
    by (simp add: fits_taper_def fun_eq_iff)
  have l: "pick_for_taper ALGO_LARGESTFIT ds q extra left = scan_queue ?f (\<lambda>x y. ?s x > ?s y) None q"
    "pick_for_taper ALGO_LASTFIT ds q extra left = scan_queue ?f (\<lambda>x y. - ?s x > - ?s y) None (rev q)"
    "pick_for_taper ALGO_SMALLESTFIT ds q extra left = scan_queue ?f (\<lambda>x y. - ?s x > - ?s y) (Some (hd q)) q"
    unfolding pick_for_taper_def Let_def f by simp_all
  show ?thesis unfolding l
    using scan_queue_best [where P = ?f and key = ?s and q = q] scan_queue_best [where P = ?f and key = "\<lambda>x. - ?s x" and q = "rev q"]
      scan_queue_from [where P = ?f and key = "\<lambda>x. - ?s x" and h = "hd q" and q = q] hd_in_set [OF assms]
    by (auto split: option.splits)
qed

definition sized :: "nat \<Rightarrow> dle" where
  "sized n = (small_dle ''a'')\<lparr>s_act_size := int n\<rparr>"

theorem taper_fit_choice_witness:
  "pick_for_taper ALGO_SMALLESTFIT sized [70, 60] 0 50 = Some 70 \<and>
   (case pick_for_taper ALGO_LASTFIT sized [30, 20, 40] 0 35 of None \<Rightarrow> False | Some dp \<Rightarrow> dp \<in> {30, 20, 40} \<and> dp \<le> 20)"
proof -
  have fits: "fits_taper sized [70, 60] 0 50 n \<longleftrightarrow> n \<le> 50" "fits_taper sized [30, 20, 40] 0 35 n \<longleftrightarrow> n \<le> 35" for n
    by (auto simp: fits_taper_def sized_def small_dle_def)
  show ?thesis
    using taper_fit_choice [of "[70, 60]" sized 0 50] taper_fit_choice [of "[30, 20, 40]" sized 0 35]
    by (auto simp: fits sized_def split: option.splits)
qed

end
