(* ===== verification/Tapefile.thy ===== *)
theory Tapefile
  imports Lines Tapelist "HOL-Library.Char_ord" "HOL-Library.List_Lexorder" "HOL-Library.Signed_Division"
begin

text \<open>
  The list of tapes (\<open>server-src/tapefile.c\<close>): newest first, with the position of each tape, kept in a text
  file. A pointer to a tape is its index in the list; the doubly linked list is walked by \<open>next\<close> from the
  front and by \<open>prev\<close> from a tape, and is a HOL list here. Parameters: the label pattern (\<open>match\<close>, a regular
  expression of the C library), \<open>mktime\<close> and the clock. What is proved: the positions are 1, 2, and so on after
  every operation; a written list is read back, sorted; which tape is chosen for reuse.
\<close>

record tape_t =
  tp_position :: int
  tp_datestamp :: string
  tp_reuse :: bool
  tp_label :: string
  tp_barcode :: "string option"
  tp_meta :: "string option"
  tp_blocksize :: "64 word"
  tp_comment :: "string option"

section \<open>Reading and writing\<close>

definition option_field :: "string \<Rightarrow> string \<Rightarrow> string option \<times> string" where
  \<comment> \<open>one of the fields \<open>BARCODE:\<close>, \<open>META:\<close>, \<open>BLOCKSIZE:\<close>\<close>
  "option_field key s =
     (if strncmp_const s key then (case cut_field s of (word, s) \<Rightarrow> (Some (drop (length key) word), s)) else (None, s))"

definition parse_tapeline :: "string \<Rightarrow> fault + tape_t option" where
  "parse_tapeline line =
     (let s = skip_whitespace line in
      if s = [] then Inr None
      else
        let (datestamp, s) = cut_field s;
            (label, s) = cut_field s;
            reuse = True;
            (reuse, s) = (if strncmp_const s ''reuse'' then (True, snd (cut_field s)) else (reuse, s));
            (reuse, s) = (if strncmp_const s ''no-reuse'' then (False, snd (cut_field s)) else (reuse, s));
            (barcode, s) = option_field ''BARCODE:'' s;
            (meta, s) = option_field ''META:'' s;
            (blocksize, s) = option_field ''BLOCKSIZE:'' s;
            tp = \<lparr>tp_position = 0, tp_datestamp = datestamp, tp_reuse = reuse, tp_label = label, tp_barcode = barcode,
                  tp_meta = meta, tp_blocksize = (case blocksize of None \<Rightarrow> 0 | Some n \<Rightarrow> word_of_int (OFF_T_ATOI n)),
                  tp_comment = None\<rparr> in
        if s = [] then Inr (Some tp)
        else if hd s = CHR ''#'' then Inr (Some (tp\<lparr>tp_comment := Some (drop 1 s)\<rparr>))
        else Inl Assertion_failed)"

text \<open>\<open>insert\<close>: in reversed order of the datestamps, after those that are equal. \<open>strcmp\<close> is the order of lists.\<close>

fun insert_tape :: "tape_t \<Rightarrow> tape_t list \<Rightarrow> tape_t list" where
  "insert_tape tp [] = [tp]"
| "insert_tape tp (cur # tps) =
     (if tp_datestamp tp \<le> tp_datestamp cur then cur # insert_tape tp tps else tp # cur # tps)"

fun read_lines :: "string list \<Rightarrow> tape_t list \<Rightarrow> fault + tape_t list" where
  "read_lines [] tape_list = Inr tape_list"
| "read_lines (line # lines) tape_list =
     (if line = [] then read_lines lines tape_list
      else bind_r (parse_tapeline line)
        (\<lambda>tp. read_lines lines (case tp of None \<Rightarrow> tape_list | Some tp \<Rightarrow> insert_tape tp tape_list)))"

fun number_from :: "int \<Rightarrow> tape_t list \<Rightarrow> tape_t list" where
  "number_from pos [] = []"
| "number_from pos (tp # tps) = tp\<lparr>tp_position := pos\<rparr> # number_from (pos + 1) tps"

text \<open>What \<open>fopen\<close> finds; the result of reading is the return value and the list.\<close>

datatype opened = Missing | Unreadable | Contents string

definition read_tapelist :: "opened \<Rightarrow> fault + int \<times> tape_t list" where
  "read_tapelist tapef =
     (case tapef of
        Missing \<Rightarrow> Inr (0, [])
      | Unreadable \<Rightarrow> Inr (1, [])
      | Contents stream \<Rightarrow> map_r (\<lambda>tps. (0, number_from 1 tps)) (read_lines (agets_lines stream) []))"

definition option_text :: "string \<Rightarrow> string option \<Rightarrow> string" where
  "option_text key v = (case v of None \<Rightarrow> [] | Some v \<Rightarrow> CHR '' '' # key @ v)"

text \<open>The part of a tape's line after \<open>reuse\<close> or \<open>no-reuse\<close>, and the line.\<close>

definition tape_line :: "tape_t \<Rightarrow> string" where
  "tape_line tp =
     tp_datestamp tp @ '' '' @ tp_label tp @ (if tp_reuse tp then '' reuse'' else '' no-reuse'') @
     option_text ''BARCODE:'' (tp_barcode tp) @
     option_text ''META:'' (tp_meta tp) @
     option_text ''BLOCKSIZE:'' (if tp_blocksize tp = 0 then None else Some (show_int (sint (tp_blocksize tp)))) @
     option_text ''#'' (tp_comment tp)"

definition write_tapelist :: "tape_t list \<Rightarrow> string" where
  "write_tapelist tape_list = concat (map (\<lambda>tp. tape_line tp @ [CHR 0x0A]) tape_list)"

section \<open>Looking up\<close>

fun first_from :: "(tape_t \<Rightarrow> bool) \<Rightarrow> nat \<Rightarrow> tape_t list \<Rightarrow> nat option" where
  "first_from P i [] = None"
| "first_from P i (tp # tps) = (if P tp then Some i else first_from P (Suc i) tps)"

definition lookup_tapelabel :: "string \<Rightarrow> tape_t list \<Rightarrow> nat option" where
  "lookup_tapelabel label = first_from (\<lambda>tp. label = tp_label tp) 0"

definition lookup_tapepos :: "int \<Rightarrow> tape_t list \<Rightarrow> nat option" where
  "lookup_tapepos pos = first_from (\<lambda>tp. tp_position tp = pos) 0"

definition lookup_tapedate :: "string \<Rightarrow> tape_t list \<Rightarrow> nat option" where
  "lookup_tapedate datestamp = first_from (\<lambda>tp. tp_datestamp tp = datestamp) 0"

definition lookup_nb_tape :: "tape_t list \<Rightarrow> int" where
  "lookup_nb_tape tape_list = fold (\<lambda>tp pos. tp_position tp) tape_list 0"

text \<open>The tapes that may be written again; the array \<open>tpsave\<close> holds the last ones met, the latest in front.\<close>

definition usable_tape :: "(string \<Rightarrow> bool) \<Rightarrow> tape_t \<Rightarrow> bool" where
  "usable_tape matches tp \<longleftrightarrow> tp_reuse tp \<and> tp_datestamp tp \<noteq> ''0'' \<and> matches (tp_label tp)"

fun save_loop :: "(tape_t \<Rightarrow> bool) \<Rightarrow> nat \<Rightarrow> int \<Rightarrow> nat option list \<Rightarrow> tape_t list \<Rightarrow> int \<times> nat option list" where
  "save_loop P i nfound tpsave [] = (nfound, tpsave)"
| "save_loop P i nfound tpsave (tp # tps) =
     (if P tp then save_loop P (Suc i) (nfound + 1) (Some i # butlast tpsave) tps
      else save_loop P (Suc i) nfound tpsave tps)"

definition lookup_last_reusable_tape :: "int \<Rightarrow> (string \<Rightarrow> bool) \<Rightarrow> nat \<Rightarrow> tape_t list \<Rightarrow> nat option" where
  "lookup_last_reusable_tape tapecycle matches skip tape_list =
     (case save_loop (usable_tape matches) 0 0 (replicate (skip + 1) None) tape_list of
        (nfound, tpsave) \<Rightarrow>
          let s = tapecycle - nfound;
              s = (if s < 0 then 0 else s) in
          if nfound < tapecycle - int skip then None else tpsave ! nat (int skip - s))"

text \<open>The walk by \<open>prev\<close> passes the tape itself and those in front of it.\<close>

definition reusable_tape :: "int \<Rightarrow> tape_t list \<Rightarrow> nat option \<Rightarrow> bool" where
  "reusable_tape tapecycle tape_list tp =
     (case tp of
        None \<Rightarrow> False
      | Some i \<Rightarrow>
          if \<not> tp_reuse (tape_list ! i) then False
          else if tp_datestamp (tape_list ! i) = ''0'' then True
          else int (length (filter tp_reuse (take (Suc i) tape_list))) \<ge> tapecycle)"

section \<open>Changing the list\<close>

fun remove_tapelabel :: "string \<Rightarrow> tape_t list \<Rightarrow> tape_t list" where
  "remove_tapelabel label [] = []"
| "remove_tapelabel label (tp # tps) =
     (if label = tp_label tp then map (\<lambda>tp. tp\<lparr>tp_position := tp_position tp - 1\<rparr>) tps
      else tp # remove_tapelabel label tps)"

definition add_tapelabel :: "string \<Rightarrow> string \<Rightarrow> string option \<Rightarrow> tape_t list \<Rightarrow> tape_t list" where
  "add_tapelabel datestamp label comment tape_list =
     map (\<lambda>tp. tp\<lparr>tp_position := tp_position tp + 1\<rparr>)
       (\<lparr>tp_position = 0, tp_datestamp = datestamp, tp_reuse = True, tp_label = label, tp_barcode = None,
         tp_meta = None, tp_blocksize = 0, tp_comment = comment\<rparr> # tape_list)"

section \<open>Runs per cycle\<close>

definition SECS_PER_DAY :: int where "SECS_PER_DAY = 86400"

definition days_diff :: "int \<Rightarrow> int \<Rightarrow> int" where
  "days_diff a b = (b - a + SECS_PER_DAY sdiv 2) sdiv SECS_PER_DAY"

text \<open>The broken-down time given to \<open>mktime\<close> has the date of the stamp and the time of day of now.\<close>

definition stamp2time :: "(int \<Rightarrow> int \<Rightarrow> int \<Rightarrow> int) \<Rightarrow> string \<Rightarrow> int" where
  "stamp2time mktime datestamp =
     (let dateint = OFF_T_ATOI (take 8 datestamp) in
      mktime (dateint sdiv 10000 - 1900) ((dateint smod 10000) sdiv 100 - 1) (dateint smod 100))"

text \<open>The loop over the positions; it returns \<open>ntapes\<close> and \<open>tape_ndays\<close>.\<close>

fun count_tapes :: "(string \<Rightarrow> int) \<Rightarrow> int \<Rightarrow> tape_t list \<Rightarrow> int list \<Rightarrow> int \<times> int \<Rightarrow> int \<times> int" where
  "count_tapes ndays dumpcycle tape_list [] (ntapes, tape_ndays) = (ntapes, tape_ndays)"
| "count_tapes ndays dumpcycle tape_list (i # is) (ntapes, tape_ndays) =
     (case lookup_tapepos i tape_list of
        None \<Rightarrow> (ntapes, tape_ndays)
      | Some tp \<Rightarrow>
          let tape_ndays = ndays (tp_datestamp (tape_list ! tp)) in
          if tape_ndays < dumpcycle then count_tapes ndays dumpcycle tape_list is (ntapes + 1, tape_ndays)
          else (ntapes, tape_ndays))"

definition guess_runs_from_tapelist :: "(int \<Rightarrow> int \<Rightarrow> int \<Rightarrow> int) \<Rightarrow> int \<Rightarrow> int \<Rightarrow> int \<Rightarrow> int \<Rightarrow> tape_t list \<Rightarrow> int" where
  "guess_runs_from_tapelist mktime today dumpcycle conf_runtapes tapecycle tape_list =
     (let runtapes = (if conf_runtapes = 0 then 1 else conf_runtapes);
          (ntapes, tape_ndays) =
            count_tapes (\<lambda>stamp. days_diff (stamp2time mktime stamp) today) dumpcycle tape_list [1..tapecycle - 1] (0, 0);
          ntapes = (if tape_ndays < dumpcycle then
                      if tape_ndays = 0 then dumpcycle * runtapes else (ntapes * dumpcycle) sdiv tape_ndays
                    else if ntapes = 0 then dumpcycle * runtapes else ntapes);
          runs = (ntapes + runtapes - 1) sdiv runtapes in
      if runs \<le> 0 then 1 else runs)"

section \<open>New tapes\<close>

text \<open>\<open>list_new_tapes\<close> walks back by \<open>prev\<close>; the tapes it meets are the reversed front of the list.\<close>

definition walk_back :: "nat option \<Rightarrow> tape_t list \<Rightarrow> tape_t list" where
  "walk_back tp tape_list = (case tp of None \<Rightarrow> [] | Some i \<Rightarrow> rev (take (Suc i) tape_list))"

fun count_new :: "int \<Rightarrow> int \<Rightarrow> tape_t list \<Rightarrow> int" where
  "count_new nb c [] = c"
| "count_new nb c (tp # tps) =
     (if nb > 0 \<and> tp_datestamp tp = ''0'' then
        if tp_reuse tp then count_new (nb - 1) (c + 1) tps else count_new nb c tps
      else c)"

fun more_new :: "int \<Rightarrow> tape_t list \<Rightarrow> string" where
  "more_new c [] = []"
| "more_new c (tp # tps) =
     (if c > 0 \<and> tp_datestamp tp = ''0'' then
        if tp_reuse tp then '', '' @ tp_label tp @ more_new (c - 1) tps else more_new c tps
      else [])"

definition list_new_tapes :: "int \<Rightarrow> tape_t list \<Rightarrow> string option" where
  "list_new_tapes nb tape_list =
     (if nb \<le> 0 then None
      else
        case dropWhile (\<lambda>tp. \<not> tp_reuse tp) (walk_back (lookup_tapepos (lookup_nb_tape tape_list) tape_list) tape_list) of
          [] \<Rightarrow> None
        | last_tape # iter \<Rightarrow>
            if tp_datestamp last_tape \<noteq> ''0'' then None
            else
              let c = count_new nb 0 (last_tape # iter) in
              if c = 1 then Some (''The next new tape already labelled is: '' @ tp_label last_tape @ ''.'')
              else Some (''The next '' @ show_int c @ '' new tapes already labelled are: '' @ tp_label last_tape @
                         more_new (c - 1) iter))"

section \<open>Positions\<close>

fun numbered_from :: "int \<Rightarrow> tape_t list \<Rightarrow> bool" where
  "numbered_from pos [] \<longleftrightarrow> True"
| "numbered_from pos (tp # tps) \<longleftrightarrow> tp_position tp = pos \<and> numbered_from (pos + 1) tps"

datatype tape_change = Add_label string string "string option" | Remove_label string

fun change_list :: "tape_change \<Rightarrow> tape_t list \<Rightarrow> tape_t list" where
  "change_list (Add_label datestamp label comment) tps = add_tapelabel datestamp label comment tps"
| "change_list (Remove_label label) tps = remove_tapelabel label tps"

definition list_read :: "tape_t list \<Rightarrow> bool" where
  "list_read tps \<longleftrightarrow> (\<exists>tapef rc. read_tapelist tapef = Inr (rc, tps))"

lemma numbered_number_from [simp]: "numbered_from pos (number_from pos tps)"
  by (induction tps arbitrary: pos) auto

lemma numbered_up: "numbered_from pos tps \<Longrightarrow> numbered_from (pos + 1) (map (\<lambda>tp. tp\<lparr>tp_position := tp_position tp + 1\<rparr>) tps)"
proof (induction tps arbitrary: pos)
  case (Cons tp tps)
  then show ?case using Cons.IH [of "pos + 1"] by simp
qed simp

lemma numbered_down: "numbered_from (pos + 1) tps \<Longrightarrow> numbered_from pos (map (\<lambda>tp. tp\<lparr>tp_position := tp_position tp - 1\<rparr>) tps)"
  by (induction tps arbitrary: pos) auto

lemma numbered_remove: "numbered_from pos tps \<Longrightarrow> numbered_from pos (remove_tapelabel label tps)"
  by (induction label tps arbitrary: pos rule: remove_tapelabel.induct) (auto intro: numbered_down)

lemma numbered_add: "numbered_from 1 tps \<Longrightarrow> numbered_from 1 (add_tapelabel datestamp label comment tps)"
  using numbered_up [of 1 tps] by (simp add: add_tapelabel_def)

lemma numbered_read: "read_tapelist tapef = Inr (rc, tps) \<Longrightarrow> numbered_from 1 tps"
  by (cases tapef) (auto simp: read_tapelist_def map_r_eq_Inr_iff)

interpretation tape_positions: guarded_system list_read "\<lambda>tps a tps'. tps' = change_list a tps" "numbered_from 1"
proof
  show "numbered_from 1 tps" if "list_read tps" for tps using that numbered_read by (auto simp: list_read_def)
  show "numbered_from 1 t" if "numbered_from 1 s" "t = change_list a s" for s a t
    using that by (cases a) (auto intro: numbered_add numbered_remove)
qed

lemma first_from_numbered:
  "numbered_from p tps \<Longrightarrow>
     first_from (\<lambda>tp. tp_position tp = pos) i tps =
       (if p \<le> pos \<and> pos < p + int (length tps) then Some (i + nat (pos - p)) else None)"
proof (induction tps arbitrary: p i)
  case (Cons tp tps)
  then show ?case by (auto simp: Suc_nat_eq_nat_zadd1 algebra_simps)
qed simp

lemma last_position: "numbered_from p tps \<Longrightarrow> fold (\<lambda>tp pos. tp_position tp) tps q = (if tps = [] then q else p + int (length tps) - 1)"
  by (induction tps arbitrary: p q) auto

section \<open>The tape to write next\<close>

fun hits :: "(tape_t \<Rightarrow> bool) \<Rightarrow> nat \<Rightarrow> tape_t list \<Rightarrow> nat list" where
  "hits P b [] = []"
| "hits P b (tp # tps) = (if P tp then b # hits P (Suc b) tps else hits P (Suc b) tps)"

lemma length_hits [simp]: "length (hits P b tps) = length (filter P tps)"
  by (induction P b tps rule: hits.induct) auto

lemma hits_nth:
  "j < length (filter P tps) \<and> hits P b tps ! j = b + i \<longleftrightarrow>
     i < length tps \<and> P (tps ! i) \<and> length (filter P (take i tps)) = j"
proof (induction tps arbitrary: b i j)
  case (Cons tp tps)
  have ge: "hits P (Suc b) tps ! j \<ge> Suc b" if "j < length (filter P tps)" for j
  proof -
    have "\<forall>x \<in> set (hits P (Suc b) tps). Suc b \<le> x" for b
      by (induction tps arbitrary: b) (auto dest: Suc_leD)
    then show ?thesis using that by simp
  qed
  show ?case
  proof (cases i)
    case 0
    have "hits P (Suc b) tps ! m \<noteq> b" if "m < length (filter P tps)" for m using ge [OF that] by linarith
    then show ?thesis by (cases "P tp"; cases j) (auto simp: 0)
  next
    case (Suc i')
    show ?thesis
    proof (cases "P tp")
      case False
      then show ?thesis using Cons.IH [of j "Suc b" i'] by (simp add: Suc)
    next
      case True
      then show ?thesis using Cons.IH [of "j - 1" "Suc b" i'] by (cases j) (simp_all add: Suc)
    qed
  qed
qed simp

lemma take_butlast_Cons:
  assumes "saved \<noteq> []"
  shows "take (length saved) (xs @ y # butlast saved) = take (length saved) (xs @ y # saved)"
proof -
  have "take m (y # butlast saved) = take m (y # saved)" if "m \<le> length saved" for m
    using that assms by (cases m) (simp_all add: take_butlast)
  then show ?thesis by simp
qed

lemma save_loop_hits:
  "saved \<noteq> [] \<Longrightarrow>
     save_loop P b n saved tps =
       (n + int (length (filter P tps)), take (length saved) (map Some (rev (hits P b tps)) @ saved))"
proof (induction tps arbitrary: b n saved)
  case (Cons tp tps)
  then show ?case
    using Cons.IH [of "Some b # butlast saved"] take_butlast_Cons [OF Cons.prems]
    by (simp del: take_append)
qed simp

lemma last_reusable_hits:
  fixes tapecycle :: int and matches :: "string \<Rightarrow> bool" and tps :: "tape_t list" and skip :: nat
  defines "P \<equiv> usable_tape matches"
  defines "n \<equiv> int (length (filter P tps))"
  defines "k \<equiv> max tapecycle n - 1 - int skip"
  shows "lookup_last_reusable_tape tapecycle matches skip tps =
    (if 0 \<le> k \<and> k < n then Some (hits P 0 tps ! nat k) else None)"
proof -
  let ?h = "hits P 0 tps"
  let ?s = "max 0 (tapecycle - n)"
  have idx: "nat (int m - 1 - int j) = m - Suc j" for m j by linarith
  have nth: "take (Suc skip) (map Some (rev ?h) @ replicate (Suc skip) None) ! j =
    (if int j < n then Some (?h ! nat (n - 1 - int j)) else None)" if "j \<le> skip" for j
  proof (cases "j < length ?h")
    case True
    then have "rev ?h ! j = ?h ! nat (n - 1 - int j)"
      using idx [of "length (filter P tps)"] by (simp add: rev_nth n_def)
    then show ?thesis using True that by (simp add: nth_append n_def)
  next
    case False
    then show ?thesis using that by (simp add: nth_append n_def nth_replicate less_Suc_eq_le del: replicate_Suc)
  qed
  have eq: "lookup_last_reusable_tape tapecycle matches skip tps =
      (if n < tapecycle - int skip then None
       else take (Suc skip) (map Some (rev ?h) @ replicate (Suc skip) None) ! nat (int skip - ?s))"
    by (simp add: lookup_last_reusable_tape_def save_loop_hits P_def n_def Let_def max_def)
  show ?thesis
  proof (cases "n < tapecycle - int skip")
    case True
    then show ?thesis by (simp add: eq k_def)
  next
    case False
    define j where "j = nat (int skip - ?s)"
    have j: "int j = int skip - ?s" "j \<le> skip" using False by (auto simp: j_def)
    then have k: "n - 1 - int j = k" "int j < n \<longleftrightarrow> 0 \<le> k" "k < n" using False by (auto simp: k_def max_def)
    show ?thesis unfolding eq j_def [symmetric] nth [OF j(2)] k using False k(3) by simp
  qed
qed

section \<open>Round trip\<close>

definition tape_writable :: "tape_t \<Rightarrow> bool" where
  "tape_writable tp \<longleftrightarrow>
     is_word (tp_datestamp tp) \<and> tp_datestamp tp \<noteq> [] \<and> is_word (tp_label tp) \<and> tp_label tp \<noteq> [] \<and>
     (case tp_barcode tp of None \<Rightarrow> True | Some w \<Rightarrow> is_word w) \<and>
     (case tp_meta tp of None \<Rightarrow> True | Some w \<Rightarrow> is_word w) \<and> closed_line (tape_line tp)"

definition unplaced :: "tape_t \<Rightarrow> tape_t" where
  "unplaced tp = tp\<lparr>tp_position := 0\<rparr>"

lemma OFF_T_ATOI_show_any: "OFF_T_ATOI (show_int n) = n"
proof (cases "0 \<le> n")
  case False
  then have "show_int n = CHR ''-'' # show_nat (nat (- n))" by (simp add: show_int_def)
  moreover have "\<not> is_blank (CHR ''-'')" by (simp add: is_blank_def)
  ultimately show ?thesis using False by (simp add: OFF_T_ATOI_def)
qed (rule OFF_T_ATOI_show)

lemma is_word_simps [simp]:
  "is_word []" "is_word (c # cs) \<longleftrightarrow> \<not> g_ascii_isspace c \<and> is_word cs" "is_word (v @ w) \<longleftrightarrow> is_word v \<and> is_word w"
  by (auto simp: is_word_def)

lemma digit_not_space: "is_digit c \<Longrightarrow> \<not> g_ascii_isspace c"
  by (auto simp: is_digit_def g_ascii_isspace_def)

lemma is_word_show_int [simp]: "is_word (show_int n)"
proof -
  have "is_word (show_nat m)" for m using show_nat_digits digit_not_space by (auto simp: is_word_def)
  moreover have "\<not> g_ascii_isspace (CHR ''-'')" by (simp add: g_ascii_isspace_def)
  ultimately show ?thesis by (simp add: show_int_def)
qed

text \<open>What follows a field is empty or starts with a space.\<close>

definition tail_ok :: "string \<Rightarrow> bool" where
  "tail_ok t \<longleftrightarrow> t = [] \<or> hd t = CHR '' ''"

lemma cut_field_tail: "is_word w \<Longrightarrow> tail_ok t \<Longrightarrow> cut_field (w @ t) = (w, skip_whitespace t)"
  by (cases t) (auto simp: tail_ok_def cut_field_space cut_field_end)

lemma tail_ok_option [simp]: "tail_ok t \<Longrightarrow> tail_ok (option_text key v @ t)" "tail_ok []" "tail_ok (CHR '' '' # t)"
  by (auto simp: tail_ok_def option_text_def split: option.splits)

lemma skip_option:
  "key \<noteq> [] \<Longrightarrow> \<not> g_ascii_isspace (hd key) \<Longrightarrow>
     skip_whitespace (option_text key v @ t) = (case v of None \<Rightarrow> skip_whitespace t | Some v \<Rightarrow> key @ v @ t)"
  by (cases key) (auto simp: option_text_def split: option.splits)

lemma strncmp_const_append [simp]: "strncmp_const (key @ s) key"
  by (simp add: strncmp_const_def)

lemma strncmp_const_hd: "key \<noteq> [] \<Longrightarrow> s = [] \<or> hd s \<noteq> hd key \<Longrightarrow> \<not> strncmp_const s key"
  by (cases key; cases s) (auto simp: strncmp_const_def)

lemma option_field_present:
  "is_word key \<Longrightarrow> is_word v \<Longrightarrow> tail_ok t \<Longrightarrow> option_field key (key @ v @ t) = (Some v, skip_whitespace t)"
  using cut_field_tail [of "key @ v" t] by (simp add: option_field_def)

lemma option_field_step:
  assumes "is_word key" "key \<noteq> []" "tail_ok t" "case v of None \<Rightarrow> True | Some w \<Rightarrow> is_word w"
    and "\<not> strncmp_const (skip_whitespace t) key"
  shows "option_field key (skip_whitespace (option_text key v @ t)) = (v, skip_whitespace t)"
proof -
  have "\<not> g_ascii_isspace (hd key)" using assms(1,2) by (cases key) auto
  then show ?thesis
    using assms option_field_present [of key _ t] by (auto simp: skip_option option_field_def split: option.splits)
qed

lemma parse_tape_line:
  assumes "tape_writable tp"
  shows "parse_tapeline (tape_line tp) = Inr (Some (unplaced tp))"
proof -
  let ?block = "if tp_blocksize tp = 0 then None else Some (show_int (sint (tp_blocksize tp)))"
  define t1 where "t1 = option_text ''#'' (tp_comment tp)"
  define t2 where "t2 = option_text ''BLOCKSIZE:'' ?block @ t1"
  define t3 where "t3 = option_text ''META:'' (tp_meta tp) @ t2"
  define t4 where "t4 = option_text ''BARCODE:'' (tp_barcode tp) @ t3"
  define t5 where "t5 = (if tp_reuse tp then ''reuse'' else ''no-reuse'') @ t4"
  note tails = t1_def t2_def t3_def t4_def
  have ok: "tail_ok t1" "tail_ok t2" "tail_ok t3" "tail_ok t4"
    using tail_ok_option(1) [of "[]" "''#''"] by (simp_all add: tails)
  have sk: "\<not> g_ascii_isspace (CHR ''B'')" "\<not> g_ascii_isspace (CHR ''M'')" "\<not> g_ascii_isspace (CHR ''n'')" "\<not> g_ascii_isspace (CHR ''r'')"
    by (simp_all add: g_ascii_isspace_def)
  have keys: "is_word ''BARCODE:''" "is_word ''META:''" "is_word ''BLOCKSIZE:''" "is_word ''reuse''" "is_word ''no-reuse''"
    by (simp_all add: is_word_def g_ascii_isspace_def)
  have s1: "skip_whitespace t1 = (case tp_comment tp of None \<Rightarrow> [] | Some c \<Rightarrow> CHR ''#'' # c)"
    by (simp add: t1_def option_text_def split: option.splits)
  have s2: "skip_whitespace t2 = (case ?block of None \<Rightarrow> skip_whitespace t1 | Some v \<Rightarrow> ''BLOCKSIZE:'' @ v @ t1)"
    unfolding t2_def by (rule skip_option) (simp_all add: sk)
  have s3: "skip_whitespace t3 = (case tp_meta tp of None \<Rightarrow> skip_whitespace t2 | Some v \<Rightarrow> ''META:'' @ v @ t2)"
    unfolding t3_def by (rule skip_option) (simp_all add: sk)
  have s4: "skip_whitespace t4 = (case tp_barcode tp of None \<Rightarrow> skip_whitespace t3 | Some v \<Rightarrow> ''BARCODE:'' @ v @ t3)"
    unfolding t4_def by (rule skip_option) (simp_all add: sk)
  have n1: "\<not> strncmp_const (skip_whitespace t1) ''BLOCKSIZE:''" "\<not> strncmp_const (skip_whitespace t1) ''META:''"
      "\<not> strncmp_const (skip_whitespace t1) ''BARCODE:''" "\<not> strncmp_const (skip_whitespace t1) ''no-reuse''"
    by (auto simp: s1 strncmp_const_def split: option.splits)
  have n2: "\<not> strncmp_const (skip_whitespace t2) ''META:''"
      "\<not> strncmp_const (skip_whitespace t2) ''BARCODE:''" "\<not> strncmp_const (skip_whitespace t2) ''no-reuse''"
    using n1 by (auto simp: s2 strncmp_const_def split: option.splits)
  have n3: "\<not> strncmp_const (skip_whitespace t3) ''BARCODE:''" "\<not> strncmp_const (skip_whitespace t3) ''no-reuse''"
    using n2 by (auto simp: s3 strncmp_const_def split: option.splits)
  have n4: "\<not> strncmp_const (skip_whitespace t4) ''no-reuse''"
    using n3 by (auto simp: s4 strncmp_const_def split: option.splits)
  have f1: "option_field ''BARCODE:'' (skip_whitespace t4) = (tp_barcode tp, skip_whitespace t3)"
    unfolding t4_def using keys ok n3 assms by (intro option_field_step) (simp_all add: tape_writable_def)
  have f2: "option_field ''META:'' (skip_whitespace t3) = (tp_meta tp, skip_whitespace t2)"
    unfolding t3_def using keys ok n2 assms by (intro option_field_step) (simp_all add: tape_writable_def)
  have f3: "option_field ''BLOCKSIZE:'' (skip_whitespace t2) = (?block, skip_whitespace t1)"
    unfolding t2_def using keys ok n1 by (intro option_field_step) simp_all
  have r: "cut_field (w @ t4) = (w, skip_whitespace t4)" if "is_word w" for w
    using cut_field_tail [OF that ok(4)] .
  have line: "tape_line tp = tp_datestamp tp @ CHR '' '' # tp_label tp @ CHR '' '' # t5"
    by (simp add: tape_line_def t5_def tails)
  have w: "is_word (tp_datestamp tp)" "tp_datestamp tp \<noteq> []" "is_word (tp_label tp)" "tp_label tp \<noteq> []"
    using assms by (simp_all add: tape_writable_def)
  have p: "skip_whitespace (tape_line tp) = tape_line tp" unfolding line by (rule skip_whitespace_word [OF w(1,2)])
  have c1: "cut_field (tape_line tp) = (tp_datestamp tp, tp_label tp @ CHR '' '' # t5)"
    unfolding line cut_field_space [OF w(1)] skip_whitespace_word [OF w(3,4)] ..
  have s5: "skip_whitespace t5 = t5" by (simp add: t5_def sk)
  have c2: "cut_field (tp_label tp @ CHR '' '' # t5) = (tp_label tp, t5)"
    unfolding cut_field_space [OF w(3)] s5 ..
  have c3: "strncmp_const t5 ''reuse'' = tp_reuse tp" "tp_reuse tp \<Longrightarrow> snd (cut_field t5) = skip_whitespace t4"
      "\<not> tp_reuse tp \<Longrightarrow> strncmp_const t5 ''no-reuse''" "\<not> tp_reuse tp \<Longrightarrow> snd (cut_field t5) = skip_whitespace t4"
    using r [OF keys(4)] r [OF keys(5)] by (simp_all add: t5_def strncmp_const_def)
  have ne: "tape_line tp \<noteq> []" using w(2) by (simp add: line)
  have blk: "(case ?block of None \<Rightarrow> 0 | Some n \<Rightarrow> word_of_int (OFF_T_ATOI n)) = tp_blocksize tp"
    by (simp add: OFF_T_ATOI_show_any)
  show ?thesis
  proof (cases "tp_reuse tp")
    case True
    then show ?thesis
      unfolding parse_tapeline_def
      by (simp only: Let_def p ne c1 c2 c3 prod.case if_True if_False n4 f1 f2 f3 blk)
        (auto simp: s1 unplaced_def split: option.splits)
  next
    case False
    then show ?thesis
      unfolding parse_tapeline_def
      by (simp only: Let_def p ne c1 c2 c3 prod.case if_True if_False n4 f1 f2 f3 blk not_False_eq_True)
        (auto simp: s1 unplaced_def split: option.splits)
  qed
qed

text \<open>Newest first.\<close>

abbreviation newest_first :: "tape_t list \<Rightarrow> bool" where
  "newest_first tps \<equiv> sorted_wrt (\<lambda>a b. tp_datestamp b \<le> tp_datestamp a) tps"

lemma set_insert_tape [simp]: "set (insert_tape tp tps) = insert tp (set tps)"
  by (induction tps) auto

lemma insert_tape_sorted: "newest_first tps \<Longrightarrow> newest_first (insert_tape tp tps)"
  by (induction tps) (auto intro: order_trans less_imp_le)

lemma insert_tape_filter:
  "newest_first tps \<Longrightarrow>
     filter (\<lambda>t. tp_datestamp t = d) (insert_tape tp tps) =
       filter (\<lambda>t. tp_datestamp t = d) tps @ (if tp_datestamp tp = d then [tp] else [])"
proof (induction tps)
  case (Cons cur tps)
  have "filter (\<lambda>t. tp_datestamp t = tp_datestamp tp) tps = []" if "\<not> tp_datestamp tp \<le> tp_datestamp cur"
    using that Cons.prems by (auto simp: filter_empty_conv)
  with Cons show ?case by auto
qed simp

lemma read_lines_insert:
  "\<forall>tp \<in> set tps. tape_writable tp \<Longrightarrow>
     read_lines (map tape_line tps) acc = Inr (fold insert_tape (map unplaced tps) acc)"
proof (induction tps arbitrary: acc)
  case (Cons tp tps)
  moreover from Cons.prems have "tape_line tp \<noteq> []" by (auto simp: tape_writable_def tape_line_def)
  ultimately show ?case by (simp add: parse_tape_line)
qed simp

lemma fold_insert_tape:
  "newest_first acc \<Longrightarrow>
     newest_first (fold insert_tape tps acc) \<and>
     filter (\<lambda>t. tp_datestamp t = d) (fold insert_tape tps acc) = filter (\<lambda>t. tp_datestamp t = d) (acc @ tps)"
proof (induction tps arbitrary: acc)
  case (Cons tp tps)
  then show ?case using Cons.IH [OF insert_tape_sorted [OF Cons.prems, of tp]] insert_tape_filter [OF Cons.prems, of d tp] by simp
qed simp

lemma unplaced_number_from [simp]: "map unplaced (number_from p tps) = map unplaced tps"
  by (induction tps arbitrary: p) (auto simp: unplaced_def)

lemma datestamp_unplaced [simp]: "tp_datestamp (unplaced tp) = tp_datestamp tp" "unplaced (unplaced tp) = unplaced tp"
  by (simp_all add: unplaced_def)

lemma newest_first_cong: "map unplaced tps = map unplaced tps' \<Longrightarrow> newest_first tps \<longleftrightarrow> newest_first tps'"
proof -
  assume eq: "map unplaced tps = map unplaced tps'"
  have "newest_first tps \<longleftrightarrow> newest_first (map unplaced tps)" for tps by (simp add: sorted_wrt_map)
  with eq show ?thesis by metis
qed

lemma filter_unplaced:
  "map unplaced (filter (\<lambda>t. tp_datestamp t = d) tps) = filter (\<lambda>t. tp_datestamp t = d) (map unplaced tps)"
  by (simp add: filter_map o_def)

lemma read_written:
  assumes "\<forall>tp \<in> set tps. tape_writable tp"
  shows "read_tapelist (Contents (write_tapelist tps)) = Inr (0, number_from 1 (fold insert_tape (map unplaced tps) []))"
proof -
  have "agets_lines (write_tapelist tps) = map tape_line tps"
    using agets_lines_closed [of "map tape_line tps"] assms
    by (simp add: write_tapelist_def tape_writable_def o_def)
  with read_lines_insert [OF assms, of "[]"] show ?thesis by (simp add: read_tapelist_def)
qed

text \<open>The reference for reading: the tapes of the lines that are not empty, in their order.\<close>

fun parsed_tapes :: "string list \<Rightarrow> fault + tape_t list" where
  "parsed_tapes [] = Inr []"
| "parsed_tapes (line # lines) =
     (if line = [] then parsed_tapes lines
      else bind_r (parse_tapeline line) (\<lambda>tp. map_r (\<lambda>tps. (case tp of None \<Rightarrow> [] | Some t \<Rightarrow> [t]) @ tps) (parsed_tapes lines)))"

lemma read_lines_parsed: "read_lines lines acc = map_r (\<lambda>tps. fold insert_tape tps acc) (parsed_tapes lines)"
  by (induction lines arbitrary: acc)
    (auto simp: bind_r_def map_r_def fun_eq_iff split: sum.splits option.splits)

lemma mset_fold_insert_tape: "mset (fold insert_tape tps acc) = mset tps + mset acc"
proof -
  have one: "mset (insert_tape tp xs) = add_mset tp (mset xs)" for tp xs by (induction xs) auto
  show ?thesis by (induction tps arbitrary: acc) (simp_all add: one)
qed

lemma insert_tapes_sort: "fold insert_tape tps [] = rev (sort_key tp_datestamp (rev tps))"
proof -
  let ?r = "fold insert_tape tps []"
  have "sort_key tp_datestamp (rev tps) = rev ?r"
  proof (rule properties_for_sort_key)
    show "mset (rev ?r) = mset (rev tps)" by (simp add: mset_fold_insert_tape)
    show "filter (\<lambda>x. tp_datestamp k = tp_datestamp x) (rev ?r) = filter (\<lambda>x. tp_datestamp k = tp_datestamp x) (rev tps)" for k
      using fold_insert_tape [of "[]" tps "tp_datestamp k"] by (simp add: rev_filter [symmetric] eq_commute)
    show "sorted (map tp_datestamp (rev ?r))"
      using fold_insert_tape [of "[]" tps] by (simp add: sorted_map sorted_wrt_rev)
  qed
  then show ?thesis by simp
qed

section \<open>Properties\<close>

text \<open>C35: reading a tape list file line by line, inserting each tape into the list, is parsing all the lines and then
  sorting: a stable sort, newest first, whose result is numbered from 1. A line that cannot be parsed fails both.\<close>

theorem read_tapelist_is_sort:
  "read_tapelist (Contents stream) =
     map_r (\<lambda>tps. (0, number_from 1 (rev (sort_key tp_datestamp (rev tps))))) (parsed_tapes (agets_lines stream))"
  by (simp add: read_tapelist_def read_lines_parsed insert_tapes_sort map_r_def split: sum.splits)

text \<open>C34: a tape list that is written and read back has the same tapes, each with all its fields: newest first
  and numbered from 1, the tapes of one date in the order they had. What a tape may not have is a field with a
  space in it, or a comment that leaves a quote or a backslash open.\<close>

theorem tapelist_file_roundtrip:
  assumes "\<forall>tp \<in> set tps. tape_writable tp"
  shows "\<exists>tps'. read_tapelist (Contents (write_tapelist tps)) = Inr (0, tps') \<and>
    sorted_wrt (\<lambda>a b. tp_datestamp b \<le> tp_datestamp a) tps' \<and> numbered_from 1 tps' \<and>
    (\<forall>d. map unplaced (filter (\<lambda>t. tp_datestamp t = d) tps') = map unplaced (filter (\<lambda>t. tp_datestamp t = d) tps))"
proof (intro exI conjI allI)
  let ?r = "fold insert_tape (map unplaced tps) []"
  show "read_tapelist (Contents (write_tapelist tps)) = Inr (0, number_from 1 ?r)" by (rule read_written [OF assms])
  have r: "newest_first ?r" "filter (\<lambda>t. tp_datestamp t = d) ?r = filter (\<lambda>t. tp_datestamp t = d) (map unplaced tps)" for d
    using fold_insert_tape [of "[]" "map unplaced tps" d] by simp_all
  show "newest_first (number_from 1 ?r)" using newest_first_cong [of "number_from 1 ?r" ?r] r(1) by simp
  show "map unplaced (filter (\<lambda>t. tp_datestamp t = d) (number_from 1 ?r)) = map unplaced (filter (\<lambda>t. tp_datestamp t = d) tps)" for d
    unfolding filter_unplaced unplaced_number_from by (simp add: r(2) flip: filter_unplaced)
qed simp

definition example_tape :: "string \<Rightarrow> string \<Rightarrow> string option \<Rightarrow> tape_t" where
  "example_tape datestamp label comment =
     \<lparr>tp_position = 0, tp_datestamp = datestamp, tp_reuse = True, tp_label = label, tp_barcode = Some ''B1'', tp_meta = None,
      tp_blocksize = 32, tp_comment = comment\<rparr>"

lemma tapelist_file_roundtrip_witness:
  "\<exists>tps'. read_tapelist (Contents (write_tapelist [example_tape ''0'' ''T2'' None, example_tape ''20260101'' ''T1'' (Some ''in use'')])) =
     Inr (0, tps') \<and> sorted_wrt (\<lambda>a b. tp_datestamp b \<le> tp_datestamp a) tps' \<and> numbered_from 1 tps' \<and>
     (\<forall>d. map unplaced (filter (\<lambda>t. tp_datestamp t = d) tps') =
        map unplaced (filter (\<lambda>t. tp_datestamp t = d) [example_tape ''0'' ''T2'' None, example_tape ''20260101'' ''T1'' (Some ''in use'')]))"
proof (rule tapelist_file_roundtrip)
  have "tape_writable (example_tape ''0'' ''T2'' None)" "tape_writable (example_tape ''20260101'' ''T1'' (Some ''in use''))"
    by code_simp+
  then show "\<forall>tp \<in> set [example_tape ''0'' ''T2'' None, example_tape ''20260101'' ''T1'' (Some ''in use'')]. tape_writable tp" by simp
qed

text \<open>The positions stay 1, 2, 3 and so on through every list that was read and any labels added and removed,
  so a position finds its tape and the last position is the number of tapes.\<close>

theorem tape_positions_kept:
  assumes "read_tapelist tapef = Inr (rc, tps)" and "run_steps (\<lambda>tps a tps'. tps' = change_list a tps) tps as tps'"
  shows "numbered_from 1 tps' \<and> (\<forall>i. i < length tps' \<longrightarrow> lookup_tapepos (int i + 1) tps' = Some i) \<and>
    lookup_nb_tape tps' = int (length tps')"
proof -
  have n: "numbered_from 1 tps'"
    using tape_positions.inv_reachable assms unfolding list_read_def by blast
  then show ?thesis
    by (simp add: lookup_tapepos_def lookup_nb_tape_def first_from_numbered [OF n] last_position [OF n])
qed

lemma tape_positions_kept_witness:
  "numbered_from 1 (remove_tapelabel ''T1'' (add_tapelabel ''0'' ''T2'' None (number_from 1 [example_tape ''5'' ''T1'' None])))"
proof -
  have "read_tapelist (Contents (write_tapelist [example_tape ''5'' ''T1'' None])) = Inr (0, (number_from 1 [example_tape ''5'' ''T1'' None]))"
    by code_simp
  moreover have "run_steps (\<lambda>tps a tps'. tps' = change_list a tps) (number_from 1 [example_tape ''5'' ''T1'' None]) [Add_label ''0'' ''T2'' None, Remove_label ''T1'']
      (remove_tapelabel ''T1'' (add_tapelabel ''0'' ''T2'' None (number_from 1 [example_tape ''5'' ''T1'' None])))"
    by (simp add: run_steps_cons_iff)
  ultimately show ?thesis using tape_positions_kept by blast
qed

lemma last_reusable_iff:
  "lookup_last_reusable_tape tapecycle matches skip tps = Some i \<longleftrightarrow>
     i < length tps \<and> usable_tape matches (tps ! i) \<and>
     int (length (filter (usable_tape matches) (take i tps))) =
       max tapecycle (int (length (filter (usable_tape matches) tps))) - 1 - int skip"
proof -
  let ?P = "usable_tape matches"
  let ?n = "int (length (filter ?P tps))" and ?m = "length (filter ?P (take i tps))"
  let ?k = "max tapecycle ?n - 1 - int skip"
  have "lookup_last_reusable_tape tapecycle matches skip tps = Some i \<longleftrightarrow> 0 \<le> ?k \<and> ?k < ?n \<and> hits ?P 0 tps ! nat ?k = i"
    unfolding last_reusable_hits by (auto split: if_splits)
  also have "\<dots> \<longleftrightarrow> 0 \<le> ?k \<and> nat ?k < length (filter ?P tps) \<and> hits ?P 0 tps ! nat ?k = 0 + i" by auto
  also have "\<dots> \<longleftrightarrow> 0 \<le> ?k \<and> i < length tps \<and> ?P (tps ! i) \<and> ?m = nat ?k" using hits_nth [of "nat ?k" ?P tps 0 i] by metis
  also have "\<dots> \<longleftrightarrow> i < length tps \<and> ?P (tps ! i) \<and> int ?m = ?k" by auto
  finally show ?thesis .
qed


lemma last_reusable_is_reusable:
  assumes "lookup_last_reusable_tape tapecycle matches 0 tps = Some i"
  shows "reusable_tape tapecycle tps (Some i)"
proof -
  note i = assms [unfolded last_reusable_iff]
  have "length (filter (usable_tape matches) xs) \<le> length (filter tp_reuse xs)" for xs
    by (induction xs) (auto simp: usable_tape_def)
  then have "length (filter (usable_tape matches) (take (Suc i) tps)) \<le> length (filter tp_reuse (take (Suc i) tps))" .
  then show ?thesis using i by (auto simp: reusable_tape_def usable_tape_def take_Suc_conv_app_nth)
qed

text \<open>A comment with one quote in it takes the next tape's line with it: that tape is lost.\<close>

lemma quote_in_comment_loses_tape:
  "\<exists>c. read_tapelist (Contents (write_tapelist
      [example_tape ''20260102'' ''T2'' (Some [CHR ''5'', CHR 0x22]), example_tape ''20260101'' ''T1'' None])) =
    Inr (0, [(example_tape ''20260102'' ''T2'' (Some c))\<lparr>tp_position := 1\<rparr>])"
  by (rule exI [of _ "[CHR ''5'', CHR 0x22, CHR 0x0A] @ tape_line (example_tape ''20260101'' ''T1'' None) @ [CHR 0x0A]"]) code_simp

text \<open>At least one run per cycle is guessed, also from an empty list.\<close>

lemma guess_runs_positive: "1 \<le> guess_runs_from_tapelist mktime today dumpcycle conf_runtapes tapecycle tps"
  by (auto simp: guess_runs_from_tapelist_def Let_def split: prod.splits)

end
