(* ===== verification/Doubles.thy ===== *)
theory Doubles
  imports Complex_Main "HOL-Library.Log_Nat"
begin

text \<open>
  Double precision arithmetic. A double is the rational it stands for; every C operation is the exact one
  followed by \<open>fl\<close>, rounding to 53 bits with ties to even. The range of the exponent is not limited here
  (the sizes and rates of the program are far from it), and there are no infinities and no NaN.
\<close>

definition pow2 :: "int \<Rightarrow> rat" where
  "pow2 e = (if 0 \<le> e then 2 ^ nat e else 1 / 2 ^ nat (- e))"

text \<open>The exponent of the leading bit of a positive number.\<close>

definition lead :: "rat \<Rightarrow> int" where
  "lead x =
     (let (a, b) = quotient_of x;
          k = bitlen a - bitlen b in
      if pow2 k \<le> x then k else k - 1)"

definition round_even :: "rat \<Rightarrow> int" where
  "round_even q =
     (let f = floor q; r = q - of_int f in
      if r < 1 / 2 then f else if r > 1 / 2 then f + 1 else if even f then f else f + 1)"

definition fl :: "rat \<Rightarrow> rat" where
  "fl x =
     (if x = 0 then 0
      else let e = lead \<bar>x\<bar> - 52 in of_int (round_even (x / pow2 e)) * pow2 e)"

text \<open>The cast to an integer type cuts off the fraction.\<close>

definition trunc :: "rat \<Rightarrow> int" where
  "trunc x = (if x < 0 then - floor (- x) else floor x)"

lemma trunc_of_int [simp]: "trunc (of_int n) = n"
  by (simp add: trunc_def)

lemma fl_0 [simp]: "fl 0 = 0"
  by (simp add: fl_def)

lemma round_even_of_int [simp]: "round_even (of_int n) = n"
  by (simp add: round_even_def)

lemma pow2_pos [simp]: "0 < pow2 e"
  by (simp add: pow2_def)

text \<open>What has at most 53 significant bits is not changed: a multiple of a power of two below \<open>lead - 52\<close>.\<close>

lemma fl_exact: "x = 0 \<or> x / pow2 (lead \<bar>x\<bar> - 52) = of_int n \<Longrightarrow> fl x = x"
proof (cases "x = 0")
  case False
  assume "x = 0 \<or> x / pow2 (lead \<bar>x\<bar> - 52) = of_int n"
  with False have eq: "x / pow2 (lead \<bar>x\<bar> - 52) = of_int n" by simp
  have "pow2 (lead \<bar>x\<bar> - 52) \<noteq> 0" using pow2_pos [of "lead \<bar>x\<bar> - 52"] by linarith
  then have "of_int n * pow2 (lead \<bar>x\<bar> - 52) = x" using eq by (simp add: field_simps)
  then show ?thesis using False by (simp add: fl_def Let_def eq)
qed simp

lemma lead_int: "0 < n \<Longrightarrow> lead (of_int n) = bitlen n - 1"
proof -
  assume n: "0 < n"
  have q: "quotient_of (of_int n) = (n, 1)" by (simp add: quotient_of_int)
  have b: "bitlen (1::int) = 1" by (simp add: bitlen_def floorlog_def)
  have "2 ^ nat (bitlen n - 1) \<le> n" using bitlen_bounds [OF n] by blast
  moreover have "0 \<le> bitlen n - 1" using bitlen_nonneg [of n] n by (metis bitlen_eq_zero_iff diff_ge_0_iff_ge int_one_le_iff_zero_less less_le not_less)
  ultimately have "pow2 (bitlen n - 1) \<le> of_int n"
    by (simp add: pow2_def)
  then show ?thesis by (simp add: lead_def q b)
qed

text \<open>So sums and differences of sizes below \<open>2 ^ 53\<close> are exact.\<close>

lemma fl_small_int: "\<bar>n\<bar> \<le> 2 ^ 53 \<Longrightarrow> fl (of_int n) = of_int n"
proof (cases "n = 0")
  case False
  assume n: "\<bar>n\<bar> \<le> 2 ^ 53"
  from False have pos: "0 < \<bar>n\<bar>" by simp
  have lead: "lead \<bar>of_int n\<bar> = bitlen \<bar>n\<bar> - 1" using lead_int [OF pos] by simp
  show ?thesis
  proof (cases "\<bar>n\<bar> = 2 ^ 53")
    case True
    then have n: "n = 2 ^ 53 \<or> n = - (2 ^ 53)" by linarith
    have "bitlen (2 ^ 53 :: int) = 54" by code_simp
    then have "lead \<bar>of_int n\<bar> - 52 = 1" using lead True by simp
    then have "of_int n / pow2 (lead \<bar>of_int n\<bar> - 52) = (of_int (n div 2) :: rat)" using n by (auto simp: pow2_def)
    then show ?thesis by (intro fl_exact disjI2)
  next
    case False
    then have "\<bar>n\<bar> < 2 ^ 53" using n by linarith
    then have "bitlen \<bar>n\<bar> \<le> 53" using bitlen_le_iff_power [of "\<bar>n\<bar>" 53] by simp
    then have e: "lead \<bar>of_int n\<bar> - 52 \<le> 0" using lead by simp
    define k where "k = nat (52 - lead \<bar>of_int n\<bar>)"
    have "pow2 (lead \<bar>of_int n\<bar> - 52) = 1 / 2 ^ k" using e by (auto simp: pow2_def k_def)
    then have "of_int n / pow2 (lead \<bar>of_int n\<bar> - 52) = (of_int (n * 2 ^ k) :: rat)" by simp
    then show ?thesis by (intro fl_exact disjI2)
  qed
qed simp

lemma fl_test: "fl (1 / 10) = 3602879701896397 / 36028797018963968" "fl (11 / 10) = 2476979795053773 / 2251799813685248"
  by code_simp+

end
