(* ===== verification/Infofile.thy ===== *)
theory Infofile
  imports Tapefile Doubles
begin

text \<open>
  The info database (\<open>server-src/infofile.c\<close>): what is remembered of the dumps of a disk, per level and in
  sum, and the values the planner computes from it. An array indexed by the dump level is a function on
  levels; the code that indexes it checks the level first, or is modelled as a fault where it does not.
\<close>

section \<open>Data\<close>

definition DUMP_LEVELS :: int where "DUMP_LEVELS = 400"
definition AVG_COUNT :: nat where "AVG_COUNT = 3"
definition EPOCH :: int where "EPOCH = 0"

record stats_t =
  st_size :: int
  st_csize :: int
  st_secs :: int
  st_date :: int
  st_filenum :: int
  st_label :: string

record perf_t =
  pf_rate :: "rat list"
  pf_comp :: "rat list"

record history_t =
  hi_level :: int
  hi_size :: int
  hi_csize :: int
  hi_date :: int
  hi_secs :: int

record info_t =
  in_command :: "32 word"
  in_full :: perf_t
  in_incr :: perf_t
  in_inf :: "nat \<Rightarrow> stats_t"
  in_last_level :: int
  in_consecutive_runs :: int
  in_history :: "history_t list"

definition FORCE_FULL :: "32 word" where "FORCE_FULL = 1"
definition FORCE_BUMP :: "32 word" where "FORCE_BUMP = 2"
definition FORCE_NO_BUMP :: "32 word" where "FORCE_NO_BUMP = 4"

unbundle bit_operations_syntax

definition ISSET :: "32 word \<Rightarrow> 32 word \<Rightarrow> bool" where "ISSET v b \<longleftrightarrow> v AND b \<noteq> 0"
definition SET :: "32 word \<Rightarrow> 32 word \<Rightarrow> 32 word" where "SET v b = v OR b"
definition CLR :: "32 word \<Rightarrow> 32 word \<Rightarrow> 32 word" where "CLR v b = v AND NOT b"

definition zero_stats :: stats_t where
  "zero_stats = \<lparr>st_size = 0, st_csize = 0, st_secs = 0, st_date = 0, st_filenum = 0, st_label = []\<rparr>"

definition zero_perf :: perf_t where
  "zero_perf = \<lparr>pf_rate = replicate AVG_COUNT (- 1), pf_comp = replicate AVG_COUNT (- 1)\<rparr>"

definition zero_info :: info_t where
  "zero_info =
     \<lparr>in_command = 0, in_full = zero_perf, in_incr = zero_perf,
      in_inf = (\<lambda>_. zero_stats\<lparr>st_date := - 1\<rparr>), in_last_level = - 1, in_consecutive_runs = - 1,
      in_history = replicate 101 \<lparr>hi_level = - 2, hi_size = 0, hi_csize = 0, hi_date = 0, hi_secs = 0\<rparr>\<rparr>"

section \<open>Averages\<close>

fun perf_loop :: "nat \<Rightarrow> rat list \<Rightarrow> rat \<times> int \<Rightarrow> rat \<times> int" where
  "perf_loop i [] (acc, n) = (acc, n)"
| "perf_loop i (a # as) (acc, n) =
     (if a \<ge> 0 then
        let w = int AVG_COUNT - int i in perf_loop (i + 1) as (fl (acc + fl (a * of_int w)), n + w)
      else perf_loop (i + 1) as (acc, n))"

definition perf_average :: "rat list \<Rightarrow> rat \<Rightarrow> rat" where
  "perf_average a d = (case perf_loop 0 a (0, 0) of (acc, n) \<Rightarrow> if n = 0 then d else fl (acc / of_int n))"

section \<open>Dates\<close>

text \<open>\<open>gmtime\<close> for times from the epoch on: year, month and day of a number of days, and the time of day.\<close>

definition civil_from_days :: "int \<Rightarrow> int \<times> int \<times> int" where
  "civil_from_days days =
     (let z = days + 719468;
          era = z div 146097;
          doe = z mod 146097;
          yoe = (doe - doe div 1460 + doe div 36524 - doe div 146096) div 365;
          doy = doe - (365 * yoe + yoe div 4 - yoe div 100);
          mp = (5 * doy + 2) div 153;
          d = doy - (153 * mp + 2) div 5 + 1;
          m = (if mp < 10 then mp + 3 else mp - 9) in
      (yoe + era * 400 + (if m \<le> 2 then 1 else 0), m, d))"

definition time_text :: "int \<Rightarrow> string" where
  "time_text t =
     (let (y, m, d) = civil_from_days (t div 86400); s = t mod 86400 in
      join_with '':'' (map show_int [y, m, d, s div 3600, s mod 3600 div 60, s mod 60]))"

fun last_date :: "info_t \<Rightarrow> nat \<Rightarrow> int" where
  "last_date info 0 = EPOCH"
| "last_date info (Suc l) = (if st_date (in_inf info l) > last_date info l then st_date (in_inf info l) else last_date info l)"

text \<open>The buffer holds 19 characters.\<close>

definition get_dumpdate :: "info_t \<Rightarrow> int \<Rightarrow> string" where
  "get_dumpdate info lev = take 19 (time_text (last_date info (nat lev)))"

lemma last_date_bounds: "EPOCH \<le> last_date info l" "k < l \<Longrightarrow> st_date (in_inf info k) \<le> last_date info l"
  by (induction l) (auto simp: less_Suc_eq)

lemma last_date_attained: "last_date info l = EPOCH \<or> (\<exists>k<l. last_date info l = st_date (in_inf info k))"
  by (induction l) (auto simp: less_Suc_eq)

lemma time_text_test: "time_text 1767229323 = ''2026:1:1:1:2:3''"
  by code_simp

end
