(* ===== verification/Planner.thy ===== *)
theory Planner
  imports Infofile Disklist
begin

text \<open>
  The planner (\<open>server-src/planner.c\<close>), first part: its data, the estimates it asks for
  (\<open>setup_estimate\<close>) and the estimate of a level (\<open>est_for_level\<close>). A disk is a number; the queues are
  the lists that \<open>Disklist\<close> shows the links to implement. The info database maps a disk to what
  \<open>get_info\<close> returns and to the record it fills in. Sizes are 64-bit integers that do not overflow here, and
  log lines and scripts are left out.
\<close>

section \<open>Data\<close>

definition MAX_LEVELS :: nat where "MAX_LEVELS = 3"

datatype strategy_t = DS_SKIP | DS_STANDARD | DS_NOFULL | DS_NOINC | DS_4 | DS_5 | DS_HANOI | DS_INCRONLY

record one_est_t =
  oe_level :: int
  oe_nsize :: int
  oe_csize :: int
  oe_dumpdate :: "string option"
  oe_guessed :: bool

definition default_one_est :: one_est_t where
  "default_one_est = \<lparr>oe_level = - 1, oe_nsize = - 1, oe_csize = - 1, oe_dumpdate = Some ''INVALID_DATE'', oe_guessed = False\<rparr>"

text \<open>A pointer to an estimate: the shared default, or a place in the array of the disk.\<close>

datatype est_ptr = Default_est | Estimate nat

datatype est_state = DISK_READY | DISK_ACTIVE | DISK_PARTIALY_DONE | DISK_DONE

record est_t =
  es_state :: est_state
  es_dump_priority :: int
  es_dump_est :: est_ptr
  es_degr_est :: est_ptr
  es_estimate :: "one_est_t list"
  es_last_level :: int
  es_last_lev0size :: int
  es_next_level0 :: int
  es_level_days :: int
  es_promote :: int
  es_fullrate :: rat
  es_incrrate :: rat
  es_fullcomp :: rat
  es_incrcomp :: rat
  es_errstr :: "string option"
  es_degr_mesg :: "string option"
  es_info :: info_t

text \<open>A disk with the settings the planner uses; \<open>pd_up\<close> is the generic pointer, its estimate block.\<close>

record pdisk =
  pd_host :: string
  pd_name :: string
  pd_features :: string      \<comment> \<open>the text of the features of its host\<close>
  pd_priority :: int
  pd_allow_split :: bool
  pd_splitsize :: int
  pd_dumpcycle :: int
  pd_maxpromoteday :: int
  pd_bumppercent :: int
  pd_bumpsize :: int
  pd_bumpdays :: int
  pd_bumpmult :: rat
  pd_strategy :: strategy_t
  pd_compress :: bool        \<comment> \<open>not \<open>COMP_NONE\<close>\<close>
  pd_encrypt :: bool         \<comment> \<open>not \<open>ENCRYPT_NONE\<close>\<close>
  pd_comprate :: "rat \<times> rat"
  pd_skip_incr :: bool
  pd_skip_full :: bool
  pd_to_holdingdisk :: holding
  pd_directtcp :: bool
  pd_todo :: bool
  pd_up :: "est_t option"

record pconf =
  pc_runtapes :: int
  pc_dumpcycle :: int
  pc_runs_per_cycle :: int
  pc_tapecycle :: int
  pc_reserve :: int
  pc_tape_length :: int      \<comment> \<open>\<open>tape_length\<close>, all the tapes of a run\<close>
  pc_one_tape :: int         \<comment> \<open>\<open>tapetype_get_length (tape)\<close>\<close>
  pc_blocksize_kb :: int
  pc_tape_mark :: int
  pc_today :: int
  pc_timestamp :: string
  pc_tapelist :: "tape_t list"

record planner =
  pl_conf :: pconf
  pl_disks :: "nat \<Rightarrow> pdisk"
  pl_db :: "nat \<Rightarrow> int \<times> info_t"
  pl_startq :: "nat list"
  pl_schedq :: "nat list"
  pl_total_size :: int
  pl_total_lev0 :: rat
  pl_balanced_size :: rat
  pl_balance_threshold :: rat

section \<open>Estimates\<close>

definition askfor :: "nat \<Rightarrow> int \<Rightarrow> info_t \<Rightarrow> one_est_t list \<Rightarrow> fault + one_est_t list" where
  "askfor seq lev info estimate =
     (if seq \<ge> MAX_LEVELS then Inl Assertion_failed
      else if lev < - 1 \<or> lev \<ge> DUMP_LEVELS then Inl Assertion_failed
      else if lev = - 1 then
        Inr (estimate[seq := \<lparr>oe_level = - 1, oe_nsize = - 3, oe_csize = - 3, oe_dumpdate = None, oe_guessed = False\<rparr>])
      else
        Inr (estimate[seq := \<lparr>oe_level = lev, oe_nsize = - 3, oe_csize = - 3,
                              oe_dumpdate = Some (get_dumpdate info lev), oe_guessed = False\<rparr>]))"

text \<open>A sequence of requests, the first one at place \<open>i\<close>.\<close>

fun ask_all :: "nat \<Rightarrow> int list \<Rightarrow> info_t \<Rightarrow> one_est_t list \<Rightarrow> fault + one_est_t list" where
  "ask_all i [] info estimate = Inr estimate"
| "ask_all i (lev # levs) info estimate = bind_r (askfor i lev info estimate) (ask_all (i + 1) levs info)"

text \<open>
  \<open>last_level\<close> with the loop for old info files over the first nine levels; the loop ends with \<open>i = 9\<close>, which is
  what is stored. The loop state is \<open>min_pos\<close>, \<open>min_level\<close>, \<open>lev0_date\<close> and \<open>last_date\<close>.
\<close>

fun old_levels :: "pconf \<Rightarrow> info_t \<Rightarrow> nat list \<Rightarrow> int \<times> int \<times> int \<times> int \<Rightarrow> int" where
  "old_levels c info [] (min_pos, min_level, lev0_date, recent) = min_level"
| "old_levels c info (i # is) (min_pos, min_level, lev0_date, recent) =
     (let date = st_date (in_inf info i); lev0 = (if i = 0 then date else lev0_date) in
      if pc_reserve c < 100 then
        if i \<noteq> 0 \<and> date < lev0_date then old_levels c info is (min_pos, min_level, lev0_date, recent)
        else if date > recent then old_levels c info is (min_pos, int i, lev0, date)
        else old_levels c info is (min_pos, min_level, lev0, recent)
      else
        case lookup_tapelabel (st_label (in_inf info i)) (pc_tapelist c) of
          None \<Rightarrow> old_levels c info is (min_pos, min_level, lev0_date, recent)
        | Some tp \<Rightarrow>
            if i \<noteq> 0 \<and> date < lev0_date then old_levels c info is (min_pos, min_level, lev0_date, recent)
            else
              let pos = tp_position (pc_tapelist c ! tp) in
              if pos < min_pos then old_levels c info is (pos, int i, lev0, recent)
              else old_levels c info is (min_pos, min_level, lev0, recent))"

definition last_level :: "pconf \<Rightarrow> info_t \<Rightarrow> int \<times> info_t" where
  "last_level c info =
     (if in_last_level info \<noteq> - 1 then (in_last_level info, info)
      else (old_levels c info [0..<9] (1000000000, - 1, EPOCH, EPOCH), info\<lparr>in_last_level := 9\<rparr>))"

definition next_level0 :: "pconf \<Rightarrow> pdisk \<Rightarrow> info_t \<Rightarrow> int" where
  "next_level0 c dp info =
     (if pd_strategy dp = DS_NOFULL \<or> pd_strategy dp = DS_INCRONLY then 1
      else if pd_strategy dp = DS_NOINC then 0
      else if st_date (in_inf info 0) < 0 then - days_diff EPOCH (pc_today c)
      else pd_dumpcycle dp - days_diff (st_date (in_inf info 0)) (pc_today c))"

text \<open>Reading the entry of a level outside the array is a fault.\<close>

definition inf_at :: "info_t \<Rightarrow> int \<Rightarrow> fault + stats_t" where
  "inf_at info lev = (if 0 \<le> lev \<and> lev < DUMP_LEVELS then Inr (in_inf info (nat lev)) else Inl Out_of_bounds)"

definition runs_at :: "pconf \<Rightarrow> info_t \<Rightarrow> int \<Rightarrow> fault + int \<times> info_t" where
  "runs_at c info lev =
     (let (last, info) = last_level c info in
      if lev \<noteq> last then Inr (0, info)
      else if in_consecutive_runs info \<noteq> - 1 then Inr (in_consecutive_runs info, info)
      else if lev = 0 then Inr (1, info)
      else
        bind_r (inf_at info lev) (\<lambda>cur. bind_r (inf_at info (lev - 1)) (\<lambda>old.
          case (lookup_tapelabel (st_label cur) (pc_tapelist c), lookup_tapelabel (st_label old) (pc_tapelist c)) of
            (Some cur_tape, Some old_tape) \<Rightarrow>
              let diff = tp_position (pc_tapelist c ! old_tape) - tp_position (pc_tapelist c ! cur_tape);
                  nb_runs = (if pc_runtapes c = 0 then diff else diff sdiv pc_runtapes c) in
              Inr (nb_runs, info\<lparr>in_consecutive_runs := nb_runs\<rparr>)
          | _ \<Rightarrow> Inr (0, info))))"

text \<open>The loop \<open>while (--level)\<close> ends at once for level 1; from 0 it would run down.\<close>

definition bump_thresh :: "int \<Rightarrow> int \<Rightarrow> int \<Rightarrow> int \<Rightarrow> rat \<Rightarrow> fault + int" where
  "bump_thresh level size_level_0 bumppercent bumpsize bumpmult =
     (let bump = (if bumppercent \<noteq> 0 \<and> size_level_0 > 1024
                  then fl (fl (fl (of_int size_level_0) * fl (of_int bumppercent)) / 100)
                  else fl (of_int bumpsize)) in
      if level < 1 then Inl Never_returns
      else Inr (trunc (((\<lambda>bump. fl (bump * bumpmult)) ^^ nat (level - 1)) bump)))"

definition when_overwrite :: "pconf \<Rightarrow> string \<Rightarrow> int" where
  "when_overwrite c label =
     (let runtapes = (if pc_runtapes c = 0 then 1 else pc_runtapes c) in
      case lookup_tapelabel label (pc_tapelist c) of
        None \<Rightarrow> 1
      | Some tp \<Rightarrow>
          if \<not> tp_reuse (pc_tapelist c ! tp) then 1024
          else if lookup_nb_tape (pc_tapelist c) > pc_tapecycle c then
            (lookup_nb_tape (pc_tapelist c) - tp_position (pc_tapelist c ! tp)) sdiv runtapes
          else (pc_tapecycle c - tp_position (pc_tapelist c ! tp)) sdiv runtapes)"

section \<open>The estimates to ask for\<close>

text \<open>The block \<open>setup_estimate\<close> allocates. \<open>g_malloc\<close> leaves the array as it is; \<open>askfor\<close> fills it.\<close>

definition new_est :: "pdisk \<Rightarrow> info_t \<Rightarrow> est_t" where
  "new_est dp info =
     \<lparr>es_state = DISK_READY, es_dump_priority = pd_priority dp, es_dump_est = Default_est, es_degr_est = Default_est,
      es_estimate = replicate MAX_LEVELS default_one_est, es_last_level = 0, es_last_lev0size = 0, es_next_level0 = 0,
      es_level_days = 0, es_promote = 0, es_fullrate = 0, es_incrrate = 0, es_fullcomp = 0, es_incrcomp = 0,
      es_errstr = None, es_degr_mesg = None, es_info = info\<rparr>"

definition with_levels :: "pconf \<Rightarrow> pdisk \<Rightarrow> est_t \<Rightarrow> est_t" where
  "with_levels c dp ep =
     (let (lev, info) = last_level c (es_info ep) in
      ep\<lparr>es_info := info, es_last_level := lev, es_next_level0 := next_level0 c dp info\<rparr>)"

text \<open>``Calculated fields'': the forced full dump and the levels.\<close>

definition calculate_levels :: "pconf \<Rightarrow> pdisk \<Rightarrow> est_t \<Rightarrow> est_t" where
  "calculate_levels c dp ep =
     (if ISSET (in_command (es_info ep)) FORCE_FULL then
        if pd_strategy dp = DS_NOFULL \<or> pd_strategy dp = DS_INCRONLY then
          with_levels c dp (ep\<lparr>es_info := (es_info ep)\<lparr>in_command := CLR (in_command (es_info ep)) FORCE_FULL\<rparr>\<rparr>)
        else
          ep\<lparr>es_degr_mesg := Some ''Skipping: force-full disk can't be dumped in degraded mode'',
             es_last_level := - 1, es_next_level0 := - pc_dumpcycle c\<rparr>
      else if pd_strategy dp = DS_NOFULL then
        ep\<lparr>es_last_level := 1, es_next_level0 := next_level0 c dp (es_info ep)\<rparr>
      else with_levels c dp ep)"

text \<open>The warnings about tapes that are overwritten; a lost level 1 resets the level.\<close>

definition check_overwrite :: "pconf \<Rightarrow> est_t \<Rightarrow> est_t" where
  "check_overwrite c ep =
     (if es_last_level ep > 1 \<and> st_label (in_inf (es_info ep) 1) \<noteq> [] \<and>
         when_overwrite c (st_label (in_inf (es_info ep) 1)) = 0
      then ep\<lparr>es_last_level := 0\<rparr> else ep)"

definition adjust_priority :: "est_t \<Rightarrow> est_t" where
  "adjust_priority ep =
     (if es_next_level0 ep < 0 then ep\<lparr>es_dump_priority := es_dump_priority ep - es_next_level0 ep\<rparr>
      else if ISSET (in_command (es_info ep)) FORCE_FULL then ep\<lparr>es_dump_priority := es_dump_priority ep + 1\<rparr>
      else ep)"

text \<open>What is known of the disk before the estimates are chosen: \<open>Inl\<close> when the disk is skipped.\<close>

definition skip_full_done :: "pconf \<Rightarrow> est_t \<Rightarrow> est_t" where
  "skip_full_done c ep =
     ep\<lparr>es_info := (es_info ep)\<lparr>in_inf := (in_inf (es_info ep))(0 := (in_inf (es_info ep) 0)\<lparr>st_date := pc_today c\<rparr>),
                                in_command := CLR (in_command (es_info ep)) FORCE_FULL\<rparr>,
        es_next_level0 := es_next_level0 ep + pc_dumpcycle c, es_last_level := 0\<rparr>"

text \<open>The statistics filled in for a disk that is not skipped.\<close>

definition fill_statistics :: "pconf \<Rightarrow> pdisk \<Rightarrow> est_t \<Rightarrow> fault + est_t" where
  "fill_statistics c dp ep =
     (let ep = (if es_last_level ep = - 1 \<and> es_next_level0 ep > 0 \<and> pd_strategy dp \<noteq> DS_NOFULL \<and>
                   pd_strategy dp \<noteq> DS_INCRONLY \<and> pc_reserve c = 100
                then ep\<lparr>es_next_level0 := 0\<rparr> else ep) in
      map_r (\<lambda>(days, info).
          ep\<lparr>es_info := info, es_level_days := days, es_last_lev0size := st_csize (in_inf info 0),
             es_fullrate := perf_average (pf_rate (in_full info)) 0,
             es_incrrate := perf_average (pf_rate (in_incr info)) 0,
             es_fullcomp := perf_average (pf_comp (in_full info)) (fst (pd_comprate dp)),
             es_incrcomp := perf_average (pf_comp (in_incr info)) (snd (pd_comprate dp))\<rparr>)
        (runs_at c (es_info ep) (es_last_level ep)))"

text \<open>``Determine which estimates to get'', first for a full dump: the levels asked for and the new block.\<close>

definition full_levels :: "pdisk \<Rightarrow> est_t \<Rightarrow> int list \<times> est_t" where
  "full_levels dp ep =
     (if pd_strategy dp = DS_NOINC \<or>
         (\<not> pd_skip_full dp \<and> (\<not> ISSET (in_command (es_info ep)) FORCE_BUMP \<or> pd_skip_incr dp \<or> es_last_level ep = - 1))
      then
        case pd_strategy dp of
          DS_STANDARD \<Rightarrow> ([0], ep\<lparr>es_degr_mesg := Some (if es_last_level ep = - 1
            then ''Skipping: new disk can't be dumped in degraded mode''
            else ''Skipping: strategy NOINC can't be dumped in degraded mode'')\<rparr>)
        | DS_NOINC \<Rightarrow> ([0], ep\<lparr>es_degr_mesg := Some (if es_last_level ep = - 1
            then ''Skipping: new disk can't be dumped in degraded mode''
            else ''Skipping: strategy NOINC can't be dumped in degraded mode'')\<rparr>)
        | DS_INCRONLY \<Rightarrow> ([], if ISSET (in_command (es_info ep)) FORCE_FULL then ep\<lparr>es_last_level := 0\<rparr> else ep)
        | _ \<Rightarrow> ([], ep)
      else ([], ep))"

text \<open>Then for an incremental dump.\<close>

definition incr_levels :: "pdisk \<Rightarrow> est_t \<Rightarrow> fault + int list \<times> est_t" where
  "incr_levels dp ep =
     (let lev = es_last_level ep; command = in_command (es_info ep) in
      if pd_skip_incr dp \<or> pd_strategy dp = DS_NOINC then Inr ([], ep)
      else if lev = - 1 then
        let ep = (if es_degr_mesg ep = None
                  then ep\<lparr>es_degr_mesg := Some ''Skipping: new disk can't be dumped in degraded mode''\<rparr> else ep) in
        if pd_strategy dp = DS_NOFULL \<or> pd_strategy dp = DS_INCRONLY then Inr ([1], ep)
        else if pd_skip_full dp then Inl Assertion_failed
        else Inr ([], ep)
      else if ISSET command FORCE_NO_BUMP then
        Inr (if lev > 0 then [lev] else [],
             ep\<lparr>es_degr_mesg := Some ''Skipping: force-no-bump disk can't be dumped in degraded mode''\<rparr>)
      else if ISSET command FORCE_BUMP \<and> lev + 1 < DUMP_LEVELS then
        Inr ([lev + 1], ep\<lparr>es_degr_mesg := Some ''Skipping: force-bump disk can't be dumped in degraded mode''\<rparr>)
      else if lev = 0 then Inr ([1], ep)
      else if lev < - 1 \<or> lev \<ge> DUMP_LEVELS then Inl Assertion_failed
      else
        map_r (\<lambda>thresh.
            let st = in_inf (es_info ep) (nat lev) in
            (if (st_size st = 0 \<or> st_size st > thresh \<and> es_level_days ep \<ge> pd_bumpdays dp) \<and> lev + 1 < DUMP_LEVELS
             then [lev, lev + 1] else [lev], ep))
          (bump_thresh lev (st_size (in_inf (es_info ep) 0)) (pd_bumppercent dp) (pd_bumpsize dp) (pd_bumpmult dp)))"

definition ask_levels :: "int list \<Rightarrow> est_t \<Rightarrow> fault + est_t" where
  "ask_levels levs ep =
     map_r (\<lambda>estimate. ep\<lparr>es_estimate := estimate\<rparr>)
       (ask_all 0 (levs @ replicate (MAX_LEVELS - length levs) (- 1)) (es_info ep) (es_estimate ep))"

definition choose_estimates :: "pdisk \<Rightarrow> est_t \<Rightarrow> fault + est_t" where
  "choose_estimates dp ep =
     (case full_levels dp ep of
        (full, ep) \<Rightarrow>
          bind_r (incr_levels dp ep) (\<lambda>(incr, ep).
            bind_r (ask_levels (full @ incr) ep) (\<lambda>ep.
              if oe_level (es_estimate ep ! 0) = - 1 then Inl Assertion_failed else Inr ep)))"

definition set_up :: "nat \<Rightarrow> est_t \<Rightarrow> planner \<Rightarrow> planner" where
  "set_up d ep s = s\<lparr>pl_disks := (pl_disks s)(d := (pl_disks s d)\<lparr>pd_up := Some ep\<rparr>)\<rparr>"

text \<open>A disk that is skipped keeps its block, with no level asked for, and is on no queue.\<close>

definition skip_disk :: "nat \<Rightarrow> est_t \<Rightarrow> planner \<Rightarrow> fault + planner" where
  "skip_disk d ep s = map_r (\<lambda>ep. set_up d ep s) (ask_levels [] ep)"

definition setup_estimate :: "nat \<Rightarrow> planner \<Rightarrow> fault + planner" where
  "setup_estimate d s =
     (let c = pl_conf s; dp = pl_disks s d; info = snd (pl_db s d) in
      if pd_directtcp dp \<and> (pd_compress dp \<or> pd_encrypt dp \<or> pd_to_holdingdisk dp = HOLD_REQUIRED) then Inr s
      else
        let dp = (if pd_directtcp dp \<and> pd_to_holdingdisk dp = HOLD_AUTO then dp\<lparr>pd_to_holdingdisk := HOLD_NEVER\<rparr> else dp);
            s = s\<lparr>pl_disks := (pl_disks s)(d := dp)\<rparr>;
            ep = adjust_priority (check_overwrite c (calculate_levels c dp (new_est dp info)));
            full_skipped = pd_skip_full dp \<and> pd_strategy dp \<noteq> DS_NOINC in
        if full_skipped \<and> es_next_level0 ep \<le> 0 then
          let ep = skip_full_done c ep in
          skip_disk d ep (s\<lparr>pl_db := (pl_db s)(d := (0, es_info ep))\<rparr>)
        else
          let ep = (if full_skipped \<and> es_last_level ep = - 1 then ep\<lparr>es_last_level := 0\<rparr> else ep) in
          if pd_strategy dp = DS_INCRONLY \<and> es_last_level ep = - 1 \<and> \<not> ISSET (in_command (es_info ep)) FORCE_FULL then
            skip_disk d ep s
          else if pd_skip_incr dp \<and> es_next_level0 ep > 0 then skip_disk d ep s
          else
            map_r (\<lambda>ep. (set_up d ep s)\<lparr>pl_startq := pl_startq s @ [d]\<rparr>)
              (bind_r (fill_statistics c dp ep) (choose_estimates dp)))"

section \<open>The estimate of a level\<close>

definition est_csize :: "pdisk \<Rightarrow> est_t \<Rightarrow> one_est_t \<Rightarrow> one_est_t" where
  "est_csize dp ep oe =
     (if \<not> pd_compress dp then oe\<lparr>oe_csize := oe_nsize oe\<rparr>
      else
        let ratio = (if oe_level oe = 0 then es_fullcomp ep else es_incrcomp ep);
            ratio = (if ratio > fl (11 / 10) then fl (11 / 10) else ratio);
            size = trunc (fl (fl (of_int (oe_nsize oe)) * ratio)) in
        oe\<lparr>oe_csize := (if size \<le> 0 then 1 else size)\<rparr>)"

definition est_at :: "est_t \<Rightarrow> est_ptr \<Rightarrow> one_est_t" where
  "est_at ep p = (case p of Default_est \<Rightarrow> default_one_est | Estimate i \<Rightarrow> es_estimate ep ! i)"

fun find_level :: "int \<Rightarrow> nat \<Rightarrow> one_est_t list \<Rightarrow> nat option" where
  "find_level level i [] = None"
| "find_level level i (oe # oes) = (if level = oe_level oe then Some i else find_level level (i + 1) oes)"

text \<open>The pointer found, and the block with the size on tape filled in if it was missing.\<close>

definition est_for_level :: "pdisk \<Rightarrow> int \<Rightarrow> est_t \<Rightarrow> est_ptr \<times> est_t" where
  "est_for_level dp level ep =
     (if level < 0 \<or> level \<ge> DUMP_LEVELS then (Default_est, ep)
      else
        case find_level level 0 (es_estimate ep) of
          None \<Rightarrow> (Default_est, ep)
        | Some i \<Rightarrow>
            (Estimate i,
             if oe_csize (es_estimate ep ! i) \<le> - 1
             then ep\<lparr>es_estimate := (es_estimate ep)[i := est_csize dp ep (es_estimate ep ! i)]\<rparr> else ep))"

definition est_tape_size :: "pdisk \<Rightarrow> int \<Rightarrow> est_t \<Rightarrow> int \<times> est_t" where
  "est_tape_size dp level ep =
     (let (p, ep) = est_for_level dp level ep in
      case p of
        Default_est \<Rightarrow> (oe_csize default_one_est, ep)
      | Estimate i \<Rightarrow>
          let ep = (if oe_level (es_estimate ep ! i) \<ge> 0 \<and> oe_csize (es_estimate ep ! i) \<le> - 1
                    then ep\<lparr>es_estimate := (es_estimate ep)[i := est_csize dp ep (es_estimate ep ! i)]\<rparr> else ep) in
          (oe_csize (es_estimate ep ! i), ep))"

text \<open>\<open>pick_inclevel\<close> chooses the level of an incremental dump.\<close>

definition pick_inclevel :: "pdisk \<Rightarrow> est_t \<Rightarrow> fault + est_ptr \<times> est_t" where
  "pick_inclevel dp ep =
     (let (level0, ep) = est_for_level dp 0 ep;
          (base, ep) = est_for_level dp (es_last_level ep) ep;
          base_est = est_at ep base in
      if oe_level base_est = 0 then Inr (est_for_level dp 1 ep)
      else if pd_strategy dp = DS_NOFULL then Inr (est_for_level dp 1 ep)
      else if oe_nsize base_est = - 1 then
        let (bump, ep) = est_for_level dp (es_last_level ep + 1) ep in
        Inr (if oe_nsize (est_at ep bump) > 0 then (bump, ep) else (base, ep))
      else
        bind_r (bump_thresh (oe_level base_est) (oe_nsize (est_at ep level0)) (pd_bumppercent dp) (pd_bumpsize dp) (pd_bumpmult dp))
          (\<lambda>thresh.
            if oe_level base_est = DUMP_LEVELS - 1 \<or> es_level_days ep < pd_bumpdays dp \<or> oe_nsize base_est \<le> thresh
            then Inr (base, ep)
            else
              let (bump, ep) = est_for_level dp (oe_level base_est + 1) ep in
              if oe_nsize (est_at ep bump) = - 1 then Inr (base, ep)
              else if oe_nsize base_est - oe_nsize (est_at ep bump) < thresh then Inr (base, ep)
              else Inr (bump, ep)))"

end
