(* ===== verification/Planner_Schedule.thy ===== *)
theory Planner_Schedule
  imports Planner
begin

text \<open>
  The planner (\<open>server-src/planner.c\<close>), second part: the schedule. The estimates of every disk are analysed
  and the disk enters the schedule; dumps that do not fit on tape are delayed, with a list of what was
  there before (\<open>biq\<close>) from which dumps are put back; dumps of later days are promoted when there is room.
\<close>

section \<open>Analysing estimates\<close>

abbreviation est :: "planner \<Rightarrow> nat \<Rightarrow> est_t" where
  "est s d \<equiv> the (pd_up (pl_disks s d))"

definition dump_est :: "planner \<Rightarrow> nat \<Rightarrow> one_est_t" where
  "dump_est s d = est_at (est s d) (es_dump_est (est s d))"

definition degr_est :: "planner \<Rightarrow> nat \<Rightarrow> one_est_t" where
  "degr_est s d = est_at (est s d) (es_degr_est (est s d))"

definition schedule_order :: "planner \<Rightarrow> nat \<Rightarrow> nat \<Rightarrow> int" where
  "schedule_order s a b =
     (let diff = es_dump_priority (est s b) - es_dump_priority (est s a);
          ldiff = oe_csize (dump_est s b) - oe_csize (dump_est s a) in
      if diff \<noteq> 0 then diff else if ldiff < 0 then - 1 else if ldiff > 0 then 1 else 0)"

text \<open>What a dump takes on tape: its blocks, the block of its header and the file mark.\<close>

definition tape_use :: "pconf \<Rightarrow> one_est_t \<Rightarrow> int" where
  "tape_use c oe = pc_blocksize_kb c + oe_csize oe + pc_tape_mark c"

text \<open>The levels of a disk that is due for a full dump; whether the full dump counts is returned too.\<close>

definition choose_full :: "pdisk \<Rightarrow> est_t \<Rightarrow> fault + bool \<times> est_t" where
  "choose_full dp ep =
     (let (p, ep) = est_for_level dp 0 ep; ep = ep\<lparr>es_dump_est := p\<rparr> in
      if oe_csize (est_at ep p) \<le> 0 then
        map_r (\<lambda>(q, ep).
            (False,
             if oe_nsize (est_at ep q) = - 1
             then case est_for_level dp (oe_level (est_at ep q) + 1) ep of (q, ep) \<Rightarrow> ep\<lparr>es_dump_est := q\<rparr>
             else ep\<lparr>es_dump_est := q\<rparr>))
          (pick_inclevel dp ep)
      else if es_last_level ep = - 1 \<or> pd_skip_incr dp then
        Inr (True, (if pd_skip_incr dp \<and> es_degr_mesg ep = None
                    then ep\<lparr>es_degr_mesg := Some ''Skpping: skip-incr disk can't be dumped in degraded mode''\<rparr>
                    else ep)\<lparr>es_degr_est := Default_est\<rparr>)
      else
        map_r (\<lambda>(q, ep).
            let (q, ep) = (if oe_level (est_at ep q) \<ge> 0 \<and> oe_csize (est_at ep q) = - 1
                           then est_for_level dp (oe_level (est_at ep q) + 1) ep else (q, ep)) in
            (True,
             if oe_csize (est_at ep q) = - 1 then
               (if es_degr_mesg ep = None
                then ep\<lparr>es_degr_mesg := Some ''Skipping: an incremental estimate could not be performed, so disk cannot be dumped in degraded mode''\<rparr>
                else ep)\<lparr>es_degr_est := Default_est\<rparr>
             else ep\<lparr>es_degr_est := q\<rparr>))
          (pick_inclevel dp ep))"

text \<open>Levels tried in turn while there is no estimate.\<close>

fun try_levels :: "pdisk \<Rightarrow> int list \<Rightarrow> est_ptr \<times> est_t \<Rightarrow> est_ptr \<times> est_t" where
  "try_levels dp [] (p, ep) = (p, ep)"
| "try_levels dp (lev # levs) (p, ep) =
     try_levels dp levs (if oe_csize (est_at ep p) = - 1 then est_for_level dp lev ep else (p, ep))"

definition choose_incr :: "pdisk \<Rightarrow> est_t \<Rightarrow> fault + est_t" where
  "choose_incr dp ep =
     map_r (\<lambda>(p, ep).
         let (p, ep) = try_levels dp [es_last_level ep, es_last_level ep + 1, 0] (p, ep); ep = ep\<lparr>es_dump_est := p\<rparr> in
         if es_degr_mesg ep = None
         then ep\<lparr>es_degr_mesg := Some ''Skipping: a full is not planned, so can't dump in degraded mode''\<rparr> else ep)
       (pick_inclevel dp ep)"

definition due_for_full :: "planner \<Rightarrow> nat \<Rightarrow> est_t \<Rightarrow> bool" where
  "due_for_full s d ep \<longleftrightarrow>
     es_next_level0 ep \<le> 0 \<or>
     fst (pl_db s d) = 0 \<and> es_last_level ep = 0 \<and> ISSET (in_command (snd (pl_db s d))) FORCE_NO_BUMP"

definition add_balance :: "nat \<Rightarrow> planner \<Rightarrow> planner" where
  "add_balance d s =
     (let c = pl_conf s; dp = pl_disks s d in
      if pd_skip_full dp \<or> pd_strategy dp = DS_NOFULL \<or> pd_strategy dp = DS_INCRONLY then s
      else
        let (lev0size, ep) = est_tape_size dp 0 (est s d);
            s = set_up d ep s;
            lev0size = (if lev0size = - 1 then es_last_lev0size ep else lev0size);
            share = (if pd_strategy dp = DS_NOINC then lev0size
                     else if pd_dumpcycle dp = 0 then (lev0size * pc_dumpcycle c) sdiv pc_runs_per_cycle c
                     else if pd_dumpcycle dp \<noteq> pc_dumpcycle c
                     then (lev0size * (pc_dumpcycle c sdiv pd_dumpcycle dp)) sdiv pc_runs_per_cycle c
                     else lev0size sdiv pc_runs_per_cycle c) in
        s\<lparr>pl_balanced_size := fl (pl_balanced_size s + fl (of_int share))\<rparr>)"

definition enter_schedule :: "nat \<Rightarrow> planner \<Rightarrow> planner" where
  "enter_schedule d s =
     (let s = s\<lparr>pl_schedq := place (schedule_order s) d (pl_schedq s)\<rparr> in
      s\<lparr>pl_total_size := pl_total_size s + tape_use (pl_conf s) (dump_est s d)\<rparr>)"

definition analyze_estimate :: "nat \<Rightarrow> planner \<Rightarrow> fault + planner" where
  "analyze_estimate d s =
     (let dp = pl_disks s d; ep = (est s d)\<lparr>es_degr_est := Default_est\<rparr> in
      bind_r (if due_for_full s d ep then choose_full dp ep else map_r (Pair False) (choose_incr dp ep)) (\<lambda>(full, ep).
        let s = set_up d ep s;
            s = (if full then s\<lparr>pl_total_lev0 := fl (pl_total_lev0 s + fl (of_int (oe_csize (dump_est s d))))\<rparr> else s) in
        Inr (add_balance d (enter_schedule d s))))"

fun analyze_all :: "nat list \<Rightarrow> planner \<Rightarrow> fault + planner" where
  "analyze_all [] s = Inr s"
| "analyze_all (d # ds) s = bind_r (analyze_estimate d s) (analyze_all ds)"

definition begin_analysis :: "planner \<Rightarrow> planner" where
  "begin_analysis s =
     s\<lparr>pl_total_size := (pc_blocksize_kb (pl_conf s) + pc_tape_mark (pl_conf s)) * 2, pl_total_lev0 := 0,
       pl_balanced_size := 0, pl_schedq := []\<rparr>"

section \<open>Delaying dumps\<close>

record bi_t =
  bi_deleted :: bool
  bi_dp :: nat
  bi_level :: int
  bi_nsize :: int
  bi_csize :: int

type_synonym delay_state = "planner \<times> bi_t list"

text \<open>
  \<open>delay_one_dump\<close>. When the dump is kept, the estimate of the degraded dump is assigned to the local
  variable \<open>estimate\<close> and added to the total; \<open>dump_est\<close> of the disk stays what it is.
\<close>

definition delay_one_dump :: "nat \<Rightarrow> bool \<Rightarrow> delay_state \<Rightarrow> delay_state" where
  "delay_one_dump d delete = (\<lambda>(s, biq).
     let estimate = dump_est s d;
         s = s\<lparr>pl_total_size := pl_total_size s - tape_use (pl_conf s) estimate\<rparr>;
         s = (if oe_level estimate = 0 then s\<lparr>pl_total_lev0 := fl (pl_total_lev0 s - fl (of_int (oe_csize estimate)))\<rparr> else s);
         bi = \<lparr>bi_deleted = delete, bi_dp = d, bi_level = oe_level estimate, bi_nsize = oe_nsize estimate,
               bi_csize = oe_csize estimate\<rparr> in
     (if delete then s\<lparr>pl_schedq := remove1 d (pl_schedq s)\<rparr>
      else s\<lparr>pl_total_size := pl_total_size s + tape_use (pl_conf s) (degr_est s d)\<rparr>,
      biq @ [bi]))"

text \<open>A full dump that cannot become an incremental one.\<close>

definition no_incremental :: "planner \<Rightarrow> nat \<Rightarrow> bool" where
  "no_incremental s d \<longleftrightarrow> pd_skip_incr (pl_disks s d) \<or> es_last_level (est s d) < 0 \<or> oe_level (degr_est s d) < 0"

text \<open>Step 1, dumps larger than the tapes.\<close>

definition delay_oversize :: "nat \<Rightarrow> delay_state \<Rightarrow> delay_state" where
  "delay_oversize d = (\<lambda>(s, biq).
     let c = pl_conf s; dp = pl_disks s d;
         avail_tapes = (if pd_splitsize dp > 0 \<or> pd_allow_split dp then pc_runtapes c else 1);
         (full_size, ep) = est_tape_size dp 0 (est s d);
         s = set_up d ep s in
     if oe_csize (dump_est s d) = - 1 \<or> oe_csize (dump_est s d) \<le> pc_one_tape c * avail_tapes then (s, biq)
     else
       delay_one_dump d
         (if oe_level (dump_est s d) = 0 then no_incremental s d \<or> oe_csize (degr_est s d) > pc_one_tape c else True)
         (s, biq))"

text \<open>Step 2, full dumps; one of them is preserved.\<close>

definition full_date :: "planner \<Rightarrow> nat \<Rightarrow> int" where
  "full_date s d = st_date (in_inf (es_info (est s d)) 0)"

fun preserve_loop :: "planner \<Rightarrow> nat list \<Rightarrow> nat option \<times> int \<times> int \<Rightarrow> nat option \<times> int \<times> int" where
  "preserve_loop s [] (preserve, priority, timestamps) = (preserve, priority, timestamps)"
| "preserve_loop s (d # ds) (preserve, priority, timestamps) =
     preserve_loop s ds
       (if oe_level (dump_est s d) = 0 \<and>
           (preserve = None \<or> es_dump_priority (est s d) > priority \<or>
            es_dump_priority (est s d) = priority \<and> full_date s d < timestamps)
        then (Some d, es_dump_priority (est s d), full_date s d)
        else (preserve, priority, timestamps))"

definition find_preserve :: "planner \<Rightarrow> nat option" where
  "find_preserve s = fst (preserve_loop s (pl_schedq s) (None, 0, 2147483647))"

text \<open>One scan of step 2a from the tail; its state is \<open>nb_forced_level_0\<close>, \<open>preserve\<close>, \<open>delayed_dp\<close> and \<open>timestamps\<close>.\<close>

fun scan_fulls :: "planner \<Rightarrow> nat list \<Rightarrow> nat \<times> nat option \<times> nat option \<times> int \<Rightarrow> nat \<times> nat option \<times> nat option \<times> int" where
  "scan_fulls s [] (forced, preserve, delayed, timestamps) = (forced, preserve, delayed, timestamps)"
| "scan_fulls s (d # ds) (forced, preserve, delayed, timestamps) =
     scan_fulls s ds
       (if oe_level (dump_est s d) \<noteq> 0 then (forced, preserve, delayed, timestamps)
        else if ISSET (in_command (snd (pl_db s d))) FORCE_FULL then (forced + 1, Some d, delayed, timestamps)
        else if Some d \<noteq> preserve \<and> full_date s d > timestamps then (forced, preserve, Some d, full_date s d)
        else (forced, preserve, delayed, timestamps))"

definition over :: "planner \<Rightarrow> bool" where
  "over s \<longleftrightarrow> pl_total_size s > pc_tape_length (pl_conf s)"

text \<open>The \<open>do ... while\<close> loop of step 2a.\<close>

partial_function (option) delay_fulls :: "nat \<times> nat option \<Rightarrow> delay_state \<Rightarrow> ((nat \<times> nat option) \<times> delay_state) option" where
  "delay_fulls fp sb =
     (case scan_fulls (fst sb) (if over (fst sb) then rev (pl_schedq (fst sb)) else []) (fst fp, snd fp, None, 0) of
        (forced, preserve, None, _) \<Rightarrow> Some ((forced, preserve), sb)
      | (forced, preserve, Some d, _) \<Rightarrow>
          delay_fulls (forced, preserve) (delay_one_dump d (no_incremental (fst sb) d) sb))"

declare delay_fulls.simps [code]

text \<open>Step 2b, full dumps forced by the administrator, and step 3, incremental dumps; both go on while the total is too large.\<close>

fun delay_forced :: "nat option \<Rightarrow> nat list \<Rightarrow> delay_state \<Rightarrow> delay_state" where
  "delay_forced preserve [] sb = sb"
| "delay_forced preserve (d # ds) sb =
     (if over (fst sb) then
        delay_forced preserve ds
          (if oe_level (dump_est (fst sb) d) = 0 \<and> Some d \<noteq> preserve
           then delay_one_dump d (no_incremental (fst sb) d) sb else sb)
      else sb)"

fun delay_incrementals :: "nat list \<Rightarrow> delay_state \<Rightarrow> delay_state" where
  "delay_incrementals [] sb = sb"
| "delay_incrementals (d # ds) sb =
     (if over (fst sb) then
        delay_incrementals ds (if oe_level (dump_est (fst sb) d) \<noteq> 0 then delay_one_dump d True sb else sb)
      else sb)"

text \<open>Step 4: the before images are tried from the last to the first; those that do not fit stay on \<open>biq\<close>.\<close>

definition reinstate :: "bi_t \<Rightarrow> delay_state \<Rightarrow> delay_state" where
  "reinstate bi = (\<lambda>(s, biq).
     let c = pl_conf s; d = bi_dp bi; dp = pl_disks s d;
         avail_tapes = (if pd_splitsize dp > 0 then pc_runtapes c else 1);
         new_total = (if bi_deleted bi then pl_total_size s + (pc_blocksize_kb c + bi_csize bi + pc_tape_mark c)
                      else pl_total_size s - oe_csize (dump_est s d) + bi_csize bi) in
     if new_total \<le> pc_tape_length c \<and> bi_csize bi < pc_one_tape c * avail_tapes then
       let s = s\<lparr>pl_total_size := new_total\<rparr> in
       if bi_deleted bi then
         let s = (if bi_level bi = 0 then s\<lparr>pl_total_lev0 := fl (pl_total_lev0 s + fl (of_int (bi_csize bi)))\<rparr> else s) in
         (s\<lparr>pl_schedq := place (schedule_order s) d (pl_schedq s)\<rparr>, biq)
       else
         (case est_for_level dp (bi_level bi) (est s d) of (p, ep) \<Rightarrow> (set_up d (ep\<lparr>es_dump_est := p\<rparr>) s, biq))
     else (s, bi # biq))"

definition delay_dumps :: "planner \<Rightarrow> delay_state option" where
  "delay_dumps s =
     (let sb = fold delay_oversize (pl_schedq s) (s, []) in
      map_option (\<lambda>((forced, preserve), sb).
          let sb = (if forced > 0 \<and> over (fst sb) then delay_forced preserve (rev (pl_schedq (fst sb))) sb else sb);
              (s, biq) = delay_incrementals (rev (pl_schedq (fst sb))) sb in
          fold reinstate (rev biq) (s, []))
        (delay_fulls (0, find_preserve (fst sb)) sb))"

section \<open>Promoting dumps\<close>

text \<open>What a full dump today would make of the total.\<close>

definition promoted_total :: "planner \<Rightarrow> nat \<Rightarrow> one_est_t \<Rightarrow> int" where
  "promoted_total s d level0_est = pl_total_size s - oe_csize (dump_est s d) + oe_csize level0_est"

definition same_day :: "planner \<Rightarrow> nat \<Rightarrow> nat \<Rightarrow> bool" where
  "same_day s d d1 \<longleftrightarrow> oe_level (dump_est s d1) \<noteq> 0 \<and> es_next_level0 (est s d1) = es_next_level0 (est s d)"

definition dumped_today :: "planner \<Rightarrow> nat \<Rightarrow> bool" where
  "dumped_today s d1 \<longleftrightarrow> oe_level (dump_est s d1) = 0"

definition count_disks :: "(nat \<Rightarrow> bool) \<Rightarrow> planner \<Rightarrow> int" where
  "count_disks P s = int (length (filter P (pl_schedq s)))"

definition same_host :: "planner \<Rightarrow> nat \<Rightarrow> nat \<Rightarrow> bool" where
  "same_host s d d1 \<longleftrightarrow> pd_host (pl_disks s d) = pd_host (pl_disks s d1)"

text \<open>The promotion value of a disk, if it may be promoted, and the estimates looked at.\<close>

definition promotion_value :: "planner \<Rightarrow> nat \<Rightarrow> one_est_t \<Rightarrow> int option" where
  "promotion_value s d level0_est =
     (let c = pl_conf s; ep = est s d;
          new_lev0 = trunc (pl_total_lev0 s) + oe_csize level0_est;
          nb_disk_today = count_disks (dumped_today s) s;
          nb_disk_same_day = count_disks (same_day s d) s;
          nb_today = count_disks (\<lambda>d1. same_host s d d1 \<and> dumped_today s d1) s;
          nb_same_day = count_disks (\<lambda>d1. same_host s d d1 \<and> same_day s d d1) s in
      if oe_nsize level0_est \<le> 0 \<or> es_next_level0 ep \<le> 0 \<or> es_next_level0 ep > pd_maxpromoteday (pl_disks s d) then None
      else if promoted_total s d level0_est > pc_tape_length c then None
      else if new_lev0 > trunc (fl (pl_balanced_size s + pl_balance_threshold s)) \<and> nb_disk_today > 0 then None
      else if nb_disk_same_day = 1 \<and> nb_disk_today = 0 then None
      else
        let nb_today2 = nb_today * nb_today;
            nb_same_day = (if nb_today = 0 \<and> nb_same_day > 1 then nb_same_day + 1 else nb_same_day) in
        Some (if nb_same_day \<ge> nb_today2
              then (nb_same_day - nb_today2) * (nb_same_day - nb_today2) + pc_dumpcycle c - es_next_level0 ep
              else - nb_today2 + pc_dumpcycle c - es_next_level0 ep))"

fun promote_loop :: "nat list \<Rightarrow> nat option \<times> planner \<Rightarrow> nat option \<times> planner" where
  "promote_loop [] (best, s) = (best, s)"
| "promote_loop (d # ds) (best, s) =
     (case est_for_level (pl_disks s d) 0 (est s d) of
        (p, ep) \<Rightarrow>
          let s = set_up d (ep\<lparr>es_promote := - 1000\<rparr>) s in
          case promotion_value s d (est_at (est s d) p) of
            None \<Rightarrow> promote_loop ds (best, s)
          | Some v \<Rightarrow>
              let s = set_up d ((est s d)\<lparr>es_promote := v\<rparr>) s in
              promote_loop ds
                (if (case best of None \<Rightarrow> True | Some b \<Rightarrow> es_promote (est s b) < v) then Some d else best, s))"

text \<open>The change of a disk that is promoted.\<close>

definition make_full :: "nat \<Rightarrow> est_ptr \<Rightarrow> planner \<Rightarrow> planner" where
  "make_full d p s =
     set_up d ((est s d)\<lparr>es_degr_est := es_dump_est (est s d), es_dump_est := p, es_next_level0 := 0\<rparr>) s"

definition promote_highest_priority_incremental :: "planner \<Rightarrow> bool \<times> planner" where
  "promote_highest_priority_incremental s =
     (case promote_loop (pl_schedq s) (None, s) of
        (None, s) \<Rightarrow> (False, s)
      | (Some d, s) \<Rightarrow>
          case est_for_level (pl_disks s d) 0 (est s d) of
            (p, ep) \<Rightarrow>
              let s = set_up d ep s;
                  new_lev0 = trunc (pl_total_lev0 s) + oe_csize (est_at ep p) in
              (True,
               make_full d p
                 (s\<lparr>pl_total_size := promoted_total s d (est_at ep p), pl_total_lev0 := fl (of_int new_lev0)\<rparr>)))"

text \<open>\<open>promote_hills\<close>: the hills of the coming days, the tallest one, and a disk of it that fits.\<close>

definition in_balance :: "pdisk \<Rightarrow> bool" where
  "in_balance dp \<longleftrightarrow> \<not> pd_skip_full dp \<and> pd_strategy dp \<noteq> DS_NOFULL \<and> pd_strategy dp \<noteq> DS_INCRONLY"

fun add_hills :: "planner \<Rightarrow> nat list \<Rightarrow> (int \<times> int) list \<Rightarrow> (int \<times> int) list" where
  "add_hills s [] sp = sp"
| "add_hills s (d # ds) sp =
     (let days = nat (es_next_level0 (est s d)) in
      add_hills s ds
        (if days < length sp \<and> in_balance (pl_disks s d)
         then sp[days := (fst (sp ! days) + 1, snd (sp ! days) + es_last_lev0size (est s d))] else sp))"

fun tallest :: "nat \<Rightarrow> (int \<times> int) list \<Rightarrow> int \<times> nat \<Rightarrow> int \<times> nat" where
  "tallest days [] (hill_size, hill_days) = (hill_size, hill_days)"
| "tallest days ((n, sz) # sp) (hill_size, hill_days) =
     tallest (days + 1) sp (if n > 1 \<and> sz > hill_size then (sz, days) else (hill_size, hill_days))"

fun hill_disk :: "int \<Rightarrow> nat list \<Rightarrow> planner \<Rightarrow> (nat \<times> est_ptr) option \<times> planner" where
  "hill_disk hill_days [] s = (None, s)"
| "hill_disk hill_days (d # ds) s =
     (if es_next_level0 (est s d) \<noteq> hill_days \<or> es_next_level0 (est s d) > pd_maxpromoteday (pl_disks s d) \<or>
         \<not> in_balance (pl_disks s d)
      then hill_disk hill_days ds s
      else
        case est_for_level (pl_disks s d) 0 (est s d) of
          (p, ep) \<Rightarrow>
            let s = set_up d ep s in
            if oe_nsize (est_at ep p) \<le> 0 \<or> promoted_total s d (est_at ep p) > pc_tape_length (pl_conf s)
            then hill_disk hill_days ds s
            else (Some (d, p), s))"

lemma tallest_place:
  "tallest days sp (m, h) = (m', h') \<Longrightarrow>
     (m', h') = (m, h) \<or> m < m' \<and> days \<le> h' \<and> h' < days + length sp \<and> fst (sp ! (h' - days)) > 1"
proof (induction days sp "(m, h)" arbitrary: m h rule: tallest.induct)
  case (2 days n sz sp hill_size hill_days)
  from "2.hyps" [OF surjective_pairing] "2.prems" show ?case
    by (cases "n > 1 \<and> sz > hill_size") (auto simp: nth_Cons' split: if_splits)
qed simp

function cut_hills :: "(int \<times> int) list \<Rightarrow> planner \<Rightarrow> bool \<times> planner" where
  "cut_hills sp s =
     (case tallest 0 sp (0, 0) of
        (hill_size, hill_days) \<Rightarrow>
          if hill_size \<le> 0 then (False, s)
          else
            case hill_disk (int hill_days) (pl_schedq s) s of
              (None, s) \<Rightarrow> cut_hills (sp[hill_days := (0, snd (sp ! hill_days))]) s
            | (Some (d, p), s) \<Rightarrow>
                (True,
                 make_full d p
                   (s\<lparr>pl_total_size := promoted_total s d (est_at (est s d) p),
                      pl_total_lev0 := fl (pl_total_lev0 s + fl (of_int (oe_csize (est_at (est s d) p))))\<rparr>)))"
  by pat_completeness auto

termination
proof (relation "measure (\<lambda>(sp, s). length (filter (\<lambda>h. fst h > 1) sp))", goal_cases)
  case prems: (2 sp s hill_size hill_days)
  then have "tallest 0 sp (0, 0) = (hill_size, hill_days)" "hill_size > 0" by auto
  from tallest_place [OF this(1)] this(2) have h: "hill_days < length sp" "fst (sp ! hill_days) > 1" by auto
  have "length (filter P (xs[i := v])) < length (filter P xs)" if "i < length xs" "P (xs ! i)" "\<not> P v"
    for P and xs :: "(int \<times> int) list" and i v
    using that by (induction xs arbitrary: i) (auto simp: nth_Cons' split: nat.splits)
  from this [OF h(1), of "\<lambda>h. fst h > 1"] h(2) show ?case by simp
qed simp

declare cut_hills.simps [simp del]

definition promote_hills :: "planner \<Rightarrow> bool \<times> planner" where
  "promote_hills s =
     (if pl_total_lev0 s > 0 then (False, s)
      else
        let my_dumpcycle = (if pc_dumpcycle (pl_conf s) > 10000 then 10000 else pc_dumpcycle (pl_conf s)) in
        cut_hills (add_hills s (pl_schedq s) (replicate (nat my_dumpcycle) (0, 0))) s)"

text \<open>Step 8 of \<open>main\<close>: promotions until the balance is reached or nothing moves, then a hill.\<close>

partial_function (option) promote_while :: "planner \<Rightarrow> planner option" where
  "promote_while s =
     (if fl (pl_balanced_size s - pl_total_lev0 s) > pl_balance_threshold s then
        case promote_highest_priority_incremental s of (moved, s) \<Rightarrow> if moved then promote_while s else Some s
      else Some s)"

declare promote_while.simps [code]

definition promote_dumps :: "planner \<Rightarrow> planner option" where
  "promote_dumps s =
     map_option (\<lambda>s. snd (promote_hills s))
       (promote_while (s\<lparr>pl_balance_threshold := fl (pl_balanced_size s * fl (5 / 100))\<rparr>))"

text \<open>Steps 6 to 8 of \<open>main\<close> on the disks that have an estimate.\<close>

definition make_schedule :: "nat list \<Rightarrow> planner \<Rightarrow> fault + planner" where
  "make_schedule estq s =
     bind_r (analyze_all estq (begin_analysis s)) (\<lambda>s.
       case delay_dumps s of
         None \<Rightarrow> Inl Never_returns
       | Some (s', biq) \<Rightarrow>
           if pl_schedq s' = [] \<and> pl_total_size s' < pl_total_size s then Inl Assertion_failed
           else case promote_dumps s' of None \<Rightarrow> Inl Never_returns | Some s'' \<Rightarrow> Inr s'')"

end
