(* ===== verification/Planner_Correct.thy ===== *)
theory Planner_Correct
  imports Planner_Schedule
begin

text \<open>
  What the planner keeps: looking up an estimate changes no estimate that is already settled, the total is the
  sum of what is scheduled, and no disk gets lost between the schedule and the before images.
\<close>

section \<open>Looking up estimates\<close>

text \<open>An estimate is settled when its size on tape would not change if it were computed again.\<close>

definition settled_est :: "pdisk \<Rightarrow> est_t \<Rightarrow> one_est_t \<Rightarrow> bool" where
  "settled_est dp ep oe \<longleftrightarrow> (oe_csize oe \<le> - 1 \<longrightarrow> est_csize dp ep oe = oe)"

definition settled :: "pdisk \<Rightarrow> est_t \<Rightarrow> est_ptr \<Rightarrow> bool" where
  "settled dp ep p \<longleftrightarrow>
     (case p of Default_est \<Rightarrow> True
      | Estimate i \<Rightarrow> i < length (es_estimate ep) \<and> settled_est dp ep (es_estimate ep ! i))"

text \<open>What a look-up may do to a block.\<close>

definition looked_list :: "pdisk \<Rightarrow> est_t \<Rightarrow> one_est_t list \<Rightarrow> one_est_t list \<Rightarrow> bool" where
  "looked_list dp ep = list_all2 (\<lambda>oe oe'. oe' = oe \<or> oe_csize oe \<le> - 1 \<and> oe' = est_csize dp ep oe)"

definition looked :: "pdisk \<Rightarrow> est_t \<Rightarrow> est_t \<Rightarrow> bool" where
  "looked dp ep ep' \<longleftrightarrow>
     (\<exists>E. ep' = ep\<lparr>es_estimate := E\<rparr> \<and> looked_list dp ep (es_estimate ep) E)"

lemma est_csize_simps [simp]:
  "oe_level (est_csize dp ep oe) = oe_level oe" "oe_nsize (est_csize dp ep oe) = oe_nsize oe"
  "oe_dumpdate (est_csize dp ep oe) = oe_dumpdate oe"
  "est_csize dp ep (est_csize dp ep oe) = est_csize dp ep oe"
  "est_csize dp (ep\<lparr>es_estimate := E\<rparr>) oe = est_csize dp ep oe"
  "est_csize dp (ep\<lparr>es_dump_est := p\<rparr>) oe = est_csize dp ep oe"
  "est_csize dp (ep\<lparr>es_degr_est := p\<rparr>) oe = est_csize dp ep oe"
  "est_csize dp (ep\<lparr>es_degr_mesg := m\<rparr>) oe = est_csize dp ep oe"
  "est_csize dp (ep\<lparr>es_promote := v\<rparr>) oe = est_csize dp ep oe"
  "est_csize dp (ep\<lparr>es_next_level0 := v\<rparr>) oe = est_csize dp ep oe"
  by (simp_all add: est_csize_def Let_def)

lemma settled_csize [simp]: "settled_est dp ep (est_csize dp ep oe)"
  by (simp add: settled_est_def)

lemma looked_refl [simp]: "looked dp ep ep"
  by (auto simp: looked_def looked_list_def list_all2_same intro!: exI [of _ "es_estimate ep"])

lemma looked_trans: "looked dp ep ep1 \<Longrightarrow> looked dp ep1 ep2 \<Longrightarrow> looked dp ep ep2"
proof (clarsimp simp: looked_def looked_list_def)
  fix E E' assume 1: "list_all2 (\<lambda>oe oe'. oe' = oe \<or> oe_csize oe \<le> - 1 \<and> oe' = est_csize dp ep oe) (es_estimate ep) E"
    and 2: "list_all2 (\<lambda>oe oe'. oe' = oe \<or> oe_csize oe \<le> - 1 \<and> oe' = est_csize dp ep oe) E E'"
  have "list_all2 (\<lambda>oe oe'. oe' = oe \<or> oe_csize oe \<le> - 1 \<and> oe' = est_csize dp ep oe) (es_estimate ep) E'"
    by (rule list_all2_trans [OF _ 1 2]) auto
  then show "\<exists>E. ep\<lparr>es_estimate := E'\<rparr> = ep\<lparr>es_estimate := E\<rparr> \<and>
      list_all2 (\<lambda>oe oe'. oe' = oe \<or> oe_csize oe \<le> - 1 \<and> oe' = est_csize dp ep oe) (es_estimate ep) E" by blast
qed

lemma looked_fields:
  assumes "looked dp ep ep'"
  shows "ep' = ep\<lparr>es_estimate := es_estimate ep'\<rparr>" "length (es_estimate ep') = length (es_estimate ep)"
    "map oe_level (es_estimate ep') = map oe_level (es_estimate ep)"
    "map oe_nsize (es_estimate ep') = map oe_nsize (es_estimate ep)"
proof -
  from assms obtain E where E: "ep' = ep\<lparr>es_estimate := E\<rparr>" "looked_list dp ep (es_estimate ep) E" by (auto simp: looked_def)
  then show "ep' = ep\<lparr>es_estimate := es_estimate ep'\<rparr>" by simp
  show len: "length (es_estimate ep') = length (es_estimate ep)" using E by (simp add: looked_list_def list_all2_lengthD)
  show "map oe_level (es_estimate ep') = map oe_level (es_estimate ep)" "map oe_nsize (es_estimate ep') = map oe_nsize (es_estimate ep)"
    using E len by (auto simp: looked_list_def list_all2_conv_all_nth intro!: nth_equalityI)
qed

lemma looked_settled:
  assumes "looked dp ep ep'" and "settled dp ep p"
  shows "settled dp ep' p" "est_at ep' p = est_at ep p"
proof -
  from assms obtain E where E: "ep' = ep\<lparr>es_estimate := E\<rparr>" "looked_list dp ep (es_estimate ep) E" by (auto simp: looked_def)
  then have nth: "E ! i = es_estimate ep ! i" if "i < length (es_estimate ep)" "settled_est dp ep (es_estimate ep ! i)" for i
    using that by (auto simp: looked_list_def list_all2_conv_all_nth settled_est_def)
  have len: "length E = length (es_estimate ep)" using E by (simp add: looked_list_def list_all2_lengthD)
  show "settled dp ep' p" "est_at ep' p = est_at ep p"
    using assms(2) nth len E(1) by (auto simp: settled_def est_at_def settled_est_def split: est_ptr.splits)
qed

lemma find_level_Some:
  "find_level level b oes = Some i \<Longrightarrow> b \<le> i \<and> i < b + length oes \<and> oe_level (oes ! (i - b)) = level"
  by (induction level b oes arbitrary: i rule: find_level.induct) (fastforce split: if_splits simp: nth_Cons')+

lemma find_level_None: "find_level level b oes = None \<longleftrightarrow> level \<notin> oe_level ` set oes"
  by (induction level b oes rule: find_level.induct) auto

lemma looked_update:
  "i < length (es_estimate ep) \<Longrightarrow> oe_csize (es_estimate ep ! i) \<le> - 1 \<Longrightarrow>
     looked dp ep (ep\<lparr>es_estimate := (es_estimate ep)[i := est_csize dp ep (es_estimate ep ! i)]\<rparr>)"
  unfolding looked_def looked_list_def
  by (intro exI conjI refl) (auto simp: list_all2_conv_all_nth nth_list_update split: if_splits)

lemma est_for_level_looked:
  assumes "est_for_level dp level ep = (p, ep')"
  shows "looked dp ep ep'" "settled dp ep' p" "p = Default_est \<or> oe_level (est_at ep' p) = level"
    "p = Default_est \<longleftrightarrow> level < 0 \<or> level \<ge> DUMP_LEVELS \<or> level \<notin> oe_level ` set (es_estimate ep)"
proof -
  have "looked dp ep ep' \<and> settled dp ep' p \<and> (p = Default_est \<or> oe_level (est_at ep' p) = level) \<and>
    (p = Default_est \<longleftrightarrow> level < 0 \<or> level \<ge> DUMP_LEVELS \<or> level \<notin> oe_level ` set (es_estimate ep))"
  proof (cases "level < 0 \<or> level \<ge> DUMP_LEVELS \<or> find_level level 0 (es_estimate ep) = None")
    case True
    then have "p = Default_est" "ep' = ep" using assms by (auto simp: est_for_level_def split: if_splits)
    then show ?thesis using True by (simp add: settled_def find_level_None)
  next
    case False
    then obtain i where i: "find_level level 0 (es_estimate ep) = Some i" by auto
    then have len: "i < length (es_estimate ep)" "oe_level (es_estimate ep ! i) = level" using find_level_Some [OF i] by auto
    have "level \<in> oe_level ` set (es_estimate ep)" using len nth_mem by (metis imageI)
    then show ?thesis
      using False assms i len looked_update [OF len(1), of dp]
      by (auto simp: est_for_level_def settled_def est_at_def settled_est_def split: if_splits)
  qed
  then show "looked dp ep ep'" "settled dp ep' p" "p = Default_est \<or> oe_level (est_at ep' p) = level"
    "p = Default_est \<longleftrightarrow> level < 0 \<or> level \<ge> DUMP_LEVELS \<or> level \<notin> oe_level ` set (es_estimate ep)" by blast+
qed

lemma est_tape_size_looked: "est_tape_size dp level ep = (n, ep') \<Longrightarrow> looked dp ep ep'"
proof -
  assume eq: "est_tape_size dp level ep = (n, ep')"
  obtain p ep1 where 1: "est_for_level dp level ep = (p, ep1)" by force
  note l = est_for_level_looked [OF 1]
  show ?thesis
  proof (cases p)
    case Default_est
    then show ?thesis using eq 1 l(1) by (simp add: est_tape_size_def)
  next
    case (Estimate i)
    then have i: "i < length (es_estimate ep1)" using l(2) by (simp add: settled_def)
    show ?thesis
      using eq 1 Estimate looked_trans [OF l(1) looked_update [OF i]] l(1)
      by (auto simp: est_tape_size_def Let_def split: if_splits)
  qed
qed

section \<open>Blocks in good order\<close>

definition pointer_ok :: "pdisk \<Rightarrow> est_t \<Rightarrow> est_ptr \<Rightarrow> bool" where
  "pointer_ok dp ep p \<longleftrightarrow> settled dp ep p \<and> (p = Default_est \<or> 0 \<le> oe_level (est_at ep p))"

text \<open>The array has its length, no level is asked for twice, and the two pointers are to settled estimates.\<close>

definition levels_ok :: "est_t \<Rightarrow> bool" where
  "levels_ok ep \<longleftrightarrow>
     length (es_estimate ep) = MAX_LEVELS \<and>
     (\<forall>lev \<in> oe_level ` set (es_estimate ep). - 1 \<le> lev \<and> lev < DUMP_LEVELS) \<and>
     distinct (filter (\<lambda>lev. lev \<noteq> - 1) (map oe_level (es_estimate ep)))"

definition est_wf :: "pdisk \<Rightarrow> est_t \<Rightarrow> bool" where
  "est_wf dp ep \<longleftrightarrow> levels_ok ep \<and> pointer_ok dp ep (es_dump_est ep) \<and> pointer_ok dp ep (es_degr_est ep)"

definition wf_on :: "nat set \<Rightarrow> planner \<Rightarrow> bool" where
  "wf_on D s \<longleftrightarrow> (\<forall>d \<in> D. pd_up (pl_disks s d) \<noteq> None \<and> est_wf (pl_disks s d) (est s d))"

lemma distinct_filter_nth:
  "distinct (filter P xs) \<Longrightarrow> i < length xs \<Longrightarrow> j < length xs \<Longrightarrow> xs ! i = xs ! j \<Longrightarrow> P (xs ! i) \<Longrightarrow> i = j"
proof (induction xs arbitrary: i j)
  case (Cons x xs)
  have notin: "P x \<Longrightarrow> x \<notin> set xs" using Cons.prems(1) by auto
  show ?case
  proof (cases i; cases j)
    fix i' j' assume ij: "i = Suc i'" "j = Suc j'"
    then have "i' = j'" using Cons.prems Cons.IH [of i' j'] by (auto split: if_splits)
    then show ?thesis using ij by simp
  qed (use Cons.prems notin in auto)
qed simp

lemma levels_unique:
  assumes "levels_ok ep" "i < length (es_estimate ep)" "find_level (oe_level (es_estimate ep ! i)) 0 (es_estimate ep) = Some j"
    and "oe_level (es_estimate ep ! i) \<noteq> - 1"
  shows "j = i"
proof -
  let ?ls = "map oe_level (es_estimate ep)"
  from find_level_Some [OF assms(3)] have j: "j < length ?ls" "?ls ! j = ?ls ! i" using assms(2) by auto
  have "distinct (filter (\<lambda>lev. lev \<noteq> - 1) ?ls)" using assms(1) by (simp add: levels_ok_def)
  from distinct_filter_nth [OF this j(1) _ j(2)] show ?thesis using assms(2,4) j by auto
qed

text \<open>Looking up the level of a pointer gives the pointer back, and changes nothing.\<close>

lemma est_for_level_same:
  assumes "levels_ok ep" "pointer_ok dp ep p"
  shows "est_for_level dp (oe_level (est_at ep p)) ep = (p, ep)"
proof (cases p)
  case Default_est
  then show ?thesis by (simp add: est_for_level_def est_at_def default_one_est_def)
next
  case (Estimate i)
  let ?oe = "es_estimate ep ! i"
  have i: "i < length (es_estimate ep)" "settled_est dp ep ?oe" "0 \<le> oe_level ?oe"
    using assms(2) Estimate by (auto simp: pointer_ok_def settled_def est_at_def)
  then have lt: "oe_level ?oe < DUMP_LEVELS" using assms(1) by (auto simp: levels_ok_def)
  have "find_level (oe_level ?oe) 0 (es_estimate ep) \<noteq> None" using i(1) by (auto simp: find_level_None)
  then have "find_level (oe_level ?oe) 0 (es_estimate ep) = Some i"
    using levels_unique [OF assms(1) i(1)] i(3) by auto
  moreover have "oe_csize ?oe \<le> - 1 \<Longrightarrow> (es_estimate ep)[i := est_csize dp ep ?oe] = es_estimate ep"
    using i(2) by (simp add: settled_est_def)
  ultimately show ?thesis using i lt Estimate by (simp add: est_for_level_def est_at_def)
qed

lemma looked_wf:
  assumes "looked dp ep ep'" "est_wf dp ep"
  shows "est_wf dp ep'" "es_dump_est ep' = es_dump_est ep" "es_degr_est ep' = es_degr_est ep"
    "est_at ep' (es_dump_est ep') = est_at ep (es_dump_est ep)" "est_at ep' (es_degr_est ep') = est_at ep (es_degr_est ep)"
proof -
  note f = looked_fields [OF assms(1)]
  show p: "es_dump_est ep' = es_dump_est ep" "es_degr_est ep' = es_degr_est ep" using assms(1) by (auto simp: looked_def)
  have "levels_ok ep'" using assms(2) f(2,3) unfolding est_wf_def levels_ok_def by (metis image_set)
  moreover have "pointer_ok dp ep' q \<and> est_at ep' q = est_at ep q" if "pointer_ok dp ep q" for q
    using looked_settled [OF assms(1), of q] that by (auto simp: pointer_ok_def)
  ultimately show "est_wf dp ep'" "est_at ep' (es_dump_est ep') = est_at ep (es_dump_est ep)"
    "est_at ep' (es_degr_est ep') = est_at ep (es_degr_est ep)"
    using assms(2) by (auto simp: est_wf_def p)
qed

section \<open>Two disks\<close>

text \<open>
  Full dumps of 80 and 60, incremental ones of 10 (unless they are skipped), tapes of 100; both disks are due. The
  disks are shown before their estimates are analysed and after it.
\<close>

definition ex_est :: "int \<Rightarrow> int \<Rightarrow> int \<times> int \<Rightarrow> est_ptr \<times> est_ptr \<Rightarrow> est_t" where
  "ex_est full incr = (\<lambda>(c0, c1) (dump, degr).
     \<lparr>es_state = DISK_DONE, es_dump_priority = 1, es_dump_est = dump, es_degr_est = degr,
      es_estimate = [\<lparr>oe_level = 0, oe_nsize = full, oe_csize = c0, oe_dumpdate = Some ''1970:1:1:0:0:0'', oe_guessed = False\<rparr>,
        \<lparr>oe_level = 1, oe_nsize = incr, oe_csize = c1, oe_dumpdate = Some ''1970:1:1:0:0:0'', oe_guessed = False\<rparr>,
        \<lparr>oe_level = - 1, oe_nsize = - 3, oe_csize = - 3, oe_dumpdate = None, oe_guessed = False\<rparr>],
      es_last_level = 0, es_last_lev0size = full, es_next_level0 = 0, es_level_days = 1, es_promote = 0, es_fullrate = 0,
      es_incrrate = 0, es_fullcomp = 1, es_incrcomp = 1, es_errstr = None, es_degr_mesg = None,
      es_info = zero_info\<lparr>in_inf := (in_inf zero_info)(0 := zero_stats\<lparr>st_date := 500000\<rparr>)\<rparr>\<rparr>)"

definition ex_disk :: "bool \<Rightarrow> est_t \<Rightarrow> pdisk" where
  "ex_disk skip_incr ep =
     \<lparr>pd_host = ''h'', pd_name = ''d'', pd_features = ''ff'', pd_priority = 1, pd_allow_split = True, pd_splitsize = 0, pd_dumpcycle = 7,
      pd_maxpromoteday = 1, pd_bumppercent = 0, pd_bumpsize = 10, pd_bumpdays = 2, pd_bumpmult = 1, pd_strategy = DS_STANDARD,
      pd_compress = False, pd_encrypt = False, pd_comprate = (1, 1), pd_skip_incr = skip_incr, pd_skip_full = False,
      pd_to_holdingdisk = HOLD_AUTO, pd_directtcp = False, pd_todo = True, pd_up = Some ep\<rparr>"

definition ex_conf :: pconf where
  "ex_conf = \<lparr>pc_runtapes = 1, pc_dumpcycle = 7, pc_runs_per_cycle = 5, pc_tapecycle = 10, pc_reserve = 50, pc_tape_length = 100,
     pc_one_tape = 100, pc_blocksize_kb = 1, pc_tape_mark = 0, pc_today = 1767229323, pc_timestamp = ''20260101'', pc_tapelist = []\<rparr>"

definition ex_planner :: "bool \<Rightarrow> planner" where
  "ex_planner skip_incr = \<lparr>pl_conf = ex_conf,
     pl_disks = (\<lambda>d. ex_disk skip_incr (ex_est (if d = 0 then 80 else 60) 10 (- 3, - 3) (Default_est, Default_est))),
     pl_db = (\<lambda>_. (0, zero_info)), pl_startq = [], pl_schedq = [], pl_total_size = 0, pl_total_lev0 = 0, pl_balanced_size = 0,
     pl_balance_threshold = 0\<rparr>"

definition ex_plan :: "bool \<Rightarrow> planner" where
  "ex_plan skip_incr =
     (ex_planner skip_incr)\<lparr>
       pl_disks := (\<lambda>d. ex_disk skip_incr (ex_est (if d = 0 then 80 else 60) 10 (if d = 0 then 80 else 60, if skip_incr then - 3 else 10)
                   (Estimate 0, if skip_incr then Default_est else Estimate 1))),
       pl_schedq := [0, 1], pl_total_size := 144, pl_total_lev0 := 140, pl_balanced_size := 28\<rparr>"

end
