(* ===== verification/Planner_Delay.thy ===== *)
theory Planner_Delay
  imports Planner_Correct
begin

text \<open>
  Delaying dumps: what \<open>delay_dumps\<close> keeps, what it achieves, and where the total it keeps is not the total
  of what is scheduled.
\<close>

section \<open>What a step of the delays leaves alone\<close>

text \<open>The blocks of the disks \<open>D\<close> are only looked at; configuration and info database do not change.\<close>

definition same_plan :: "nat set \<Rightarrow> planner \<Rightarrow> planner \<Rightarrow> bool" where
  "same_plan D s s' \<longleftrightarrow>
     pl_conf s' = pl_conf s \<and> pl_db s' = pl_db s \<and>
     (\<forall>d \<in> D. \<exists>ep'. pl_disks s' d = (pl_disks s d)\<lparr>pd_up := Some ep'\<rparr> \<and> looked (pl_disks s d) (est s d) ep')"

lemma est_csize_up [simp]: "est_csize (dp\<lparr>pd_up := u\<rparr>) ep oe = est_csize dp ep oe"
  by (simp add: est_csize_def)

lemma looked_up [simp]: "looked (dp\<lparr>pd_up := u\<rparr>) ep ep' = looked dp ep ep'"
  by (simp add: looked_def looked_list_def)

lemma settled_up [simp]: "settled (dp\<lparr>pd_up := u\<rparr>) ep p = settled dp ep p"
  by (simp add: settled_def settled_est_def split: est_ptr.splits)

lemma est_wf_up [simp]: "est_wf (dp\<lparr>pd_up := u\<rparr>) ep = est_wf dp ep"
  by (simp add: est_wf_def pointer_ok_def)

lemma same_plan_refl: "wf_on D s \<Longrightarrow> same_plan D s s"
proof -
  assume "wf_on D s"
  then have "\<exists>ep'. pl_disks s d = (pl_disks s d)\<lparr>pd_up := Some ep'\<rparr> \<and> looked (pl_disks s d) (est s d) ep'" if "d \<in> D" for d
    using that by (intro exI [of _ "est s d"]) (auto simp: wf_on_def)
  then show ?thesis by (simp add: same_plan_def)
qed

lemma same_plan_trans:
  assumes "same_plan D s s1" and "same_plan D s1 s2"
  shows "same_plan D s s2"
proof -
  have "\<exists>ep'. pl_disks s2 d = (pl_disks s d)\<lparr>pd_up := Some ep'\<rparr> \<and> looked (pl_disks s d) (est s d) ep'" if d: "d \<in> D" for d
  proof -
    obtain e1 where 1: "pl_disks s1 d = (pl_disks s d)\<lparr>pd_up := Some e1\<rparr>" "looked (pl_disks s d) (est s d) e1"
      using assms(1) d unfolding same_plan_def by blast
    obtain e2 where 2: "pl_disks s2 d = (pl_disks s1 d)\<lparr>pd_up := Some e2\<rparr>" "looked (pl_disks s1 d) (est s1 d) e2"
      using assms(2) d unfolding same_plan_def by blast
    have "est s1 d = e1" by (simp add: 1(1))
    then have "looked (pl_disks s d) e1 e2" using 2(2) by (simp add: 1(1))
    with looked_trans [OF 1(2)] have "looked (pl_disks s d) (est s d) e2" by blast
    moreover have "pl_disks s2 d = (pl_disks s d)\<lparr>pd_up := Some e2\<rparr>" by (simp add: 1(1) 2(1))
    ultimately show ?thesis by blast
  qed
  then show ?thesis using assms by (simp add: same_plan_def)
qed

lemma same_planD:
  assumes "same_plan D s s'" and "wf_on D s"
  shows "wf_on D s'" "d \<in> D \<Longrightarrow> dump_est s' d = dump_est s d" "d \<in> D \<Longrightarrow> degr_est s' d = degr_est s d"
    "d \<in> D \<Longrightarrow> no_incremental s' d = no_incremental s d" "d \<in> D \<Longrightarrow> full_date s' d = full_date s d"
    "d \<in> D \<Longrightarrow> es_dump_priority (est s' d) = es_dump_priority (est s d)"
    "d \<in> D \<Longrightarrow> es_next_level0 (est s' d) = es_next_level0 (est s d)"
    "d \<in> D \<Longrightarrow> (pl_disks s' d)\<lparr>pd_up := None\<rparr> = (pl_disks s d)\<lparr>pd_up := None\<rparr>"
    "pl_conf s' = pl_conf s" "pl_db s' = pl_db s"
proof -
  have D: "\<exists>E. pl_disks s' d = (pl_disks s d)\<lparr>pd_up := Some ((est s d)\<lparr>es_estimate := E\<rparr>)\<rparr> \<and>
      looked (pl_disks s d) (est s d) ((est s d)\<lparr>es_estimate := E\<rparr>)" if "d \<in> D" for d
  proof -
    from assms(1) that obtain ep' where
      "pl_disks s' d = (pl_disks s d)\<lparr>pd_up := Some ep'\<rparr>" "looked (pl_disks s d) (est s d) ep'" unfolding same_plan_def by blast
    moreover from this(2) obtain E where "ep' = (est s d)\<lparr>es_estimate := E\<rparr>" by (auto simp: looked_def)
    ultimately show ?thesis by blast
  qed
  have wf: "est_wf (pl_disks s d) (est s d)" if "d \<in> D" for d using assms(2) that by (simp add: wf_on_def)
  show "wf_on D s'" unfolding wf_on_def
  proof
    fix d assume d: "d \<in> D"
    from D [OF d] obtain E where E: "pl_disks s' d = (pl_disks s d)\<lparr>pd_up := Some ((est s d)\<lparr>es_estimate := E\<rparr>)\<rparr>"
      "looked (pl_disks s d) (est s d) ((est s d)\<lparr>es_estimate := E\<rparr>)" by blast
    show "pd_up (pl_disks s' d) \<noteq> None \<and> est_wf (pl_disks s' d) (est s' d)"
      using looked_wf(1) [OF E(2) wf [OF d]] by (simp add: E(1))
  qed
  show "dump_est s' d = dump_est s d" "degr_est s' d = degr_est s d" "no_incremental s' d = no_incremental s d"
    "full_date s' d = full_date s d" "es_dump_priority (est s' d) = es_dump_priority (est s d)"
    "es_next_level0 (est s' d) = es_next_level0 (est s d)"
    "(pl_disks s' d)\<lparr>pd_up := None\<rparr> = (pl_disks s d)\<lparr>pd_up := None\<rparr>" if d: "d \<in> D" for d
  proof -
    from D [OF d] obtain E where E: "pl_disks s' d = (pl_disks s d)\<lparr>pd_up := Some ((est s d)\<lparr>es_estimate := E\<rparr>)\<rparr>"
      "looked (pl_disks s d) (est s d) ((est s d)\<lparr>es_estimate := E\<rparr>)" by blast
    show e: "dump_est s' d = dump_est s d" "degr_est s' d = degr_est s d"
      using looked_wf(4,5) [OF E(2) wf [OF d]] by (simp_all add: dump_est_def degr_est_def E(1))
    show "no_incremental s' d = no_incremental s d" unfolding no_incremental_def e by (simp add: E(1))
    show "full_date s' d = full_date s d" "es_dump_priority (est s' d) = es_dump_priority (est s d)"
      "es_next_level0 (est s' d) = es_next_level0 (est s d)"
      "(pl_disks s' d)\<lparr>pd_up := None\<rparr> = (pl_disks s d)\<lparr>pd_up := None\<rparr>"
      by (simp_all add: E(1) full_date_def)
  qed
  show "pl_conf s' = pl_conf s" "pl_db s' = pl_db s" using assms(1) by (simp_all add: same_plan_def)
qed

lemma same_plan_look:
  assumes "wf_on D s" "d \<in> D" "looked (pl_disks s d) (est s d) ep'"
  shows "same_plan D s (set_up d ep' s)"
proof -
  have ex: "\<exists>ep1. pl_disks (set_up d ep' s) d1 = (pl_disks s d1)\<lparr>pd_up := Some ep1\<rparr> \<and> looked (pl_disks s d1) (est s d1) ep1"
    if "d1 \<in> D" for d1
  proof (cases "d1 = d")
    case True
    then show ?thesis using assms(3) by (auto simp: set_up_def)
  next
    case False
    then have "pl_disks (set_up d ep' s) d1 = pl_disks s d1" by (simp add: set_up_def)
    moreover have "\<exists>ep1. pl_disks s d1 = (pl_disks s d1)\<lparr>pd_up := Some ep1\<rparr> \<and> looked (pl_disks s d1) (est s d1) ep1"
      using same_plan_refl [OF assms(1)] that unfolding same_plan_def by blast
    ultimately show ?thesis by (simp only:)
  qed
  have rest: "pl_conf (set_up d ep' s) = pl_conf s" "pl_db (set_up d ep' s) = pl_db s" by (simp_all add: set_up_def)
  show ?thesis unfolding same_plan_def by (intro conjI ballI rest ex)
qed

lemma same_plan_rest:
  assumes "wf_on D s" "pl_disks s' = pl_disks s" "pl_conf s' = pl_conf s" "pl_db s' = pl_db s"
  shows "same_plan D s s'"
  using same_plan_refl [OF assms(1)] unfolding same_plan_def assms(2-4) .

section \<open>One delay\<close>

definition bi_ok :: "planner \<Rightarrow> bi_t \<Rightarrow> bool" where
  "bi_ok s0 bi \<longleftrightarrow>
     bi_dp bi \<in> set (pl_schedq s0) \<and> bi_level bi = oe_level (dump_est s0 (bi_dp bi)) \<and>
     bi_csize bi = oe_csize (dump_est s0 (bi_dp bi))"

definition delay_inv :: "planner \<Rightarrow> delay_state \<Rightarrow> bool" where
  "delay_inv s0 = (\<lambda>(s, biq).
     same_plan (set (pl_schedq s0)) s0 s \<and> (\<forall>bi \<in> set biq. bi_ok s0 bi) \<and>
     mset (pl_schedq s) + mset (map bi_dp (filter bi_deleted biq)) = mset (pl_schedq s0))"

text \<open>The total that is right for a schedule.\<close>

definition use_of :: "planner \<Rightarrow> nat \<Rightarrow> int" where
  "use_of s d = tape_use (pl_conf s) (dump_est s d)"

definition space_needed :: "planner \<Rightarrow> int" where
  "space_needed s = (pc_blocksize_kb (pl_conf s) + pc_tape_mark (pl_conf s)) * 2 + sum_list (map (use_of s) (pl_schedq s))"

text \<open>No dump was kept in the schedule when it was delayed, and the total is right.\<close>

definition delay_books :: "planner \<Rightarrow> delay_state \<Rightarrow> bool" where
  "delay_books s0 = (\<lambda>(s, biq).
     delay_inv s0 (s, biq) \<and> (\<forall>bi \<in> set biq. bi_deleted bi) \<and> pl_total_size s = space_needed s)"

lemma delay_invD:
  assumes "delay_inv s0 (s, biq)"
  shows "same_plan (set (pl_schedq s0)) s0 s" "bi \<in> set biq \<Longrightarrow> bi_ok s0 bi"
    "mset (pl_schedq s) + mset (map bi_dp (filter bi_deleted biq)) = mset (pl_schedq s0)"
    "set (pl_schedq s) \<subseteq> set (pl_schedq s0)"
proof -
  show "same_plan (set (pl_schedq s0)) s0 s" "bi \<in> set biq \<Longrightarrow> bi_ok s0 bi"
    and m: "mset (pl_schedq s) + mset (map bi_dp (filter bi_deleted biq)) = mset (pl_schedq s0)"
    using assms by (auto simp: delay_inv_def)
  have "set_mset (mset (pl_schedq s)) \<subseteq> set_mset (mset (pl_schedq s0))" unfolding m [symmetric] by simp
  then show "set (pl_schedq s) \<subseteq> set (pl_schedq s0)" by simp
qed

lemma delay_one_fields [simp]:
  "pl_disks (fst (delay_one_dump d del sb)) = pl_disks (fst sb)"
  "pl_conf (fst (delay_one_dump d del sb)) = pl_conf (fst sb)"
  "pl_db (fst (delay_one_dump d del sb)) = pl_db (fst sb)"
  "pl_schedq (fst (delay_one_dump d del sb)) = (if del then remove1 d (pl_schedq (fst sb)) else pl_schedq (fst sb))"
  by (cases sb; simp add: delay_one_dump_def Let_def)+

lemma dump_est_cong: "pl_disks s' d = pl_disks s d \<Longrightarrow> dump_est s' d = dump_est s d"
  by (simp add: dump_est_def)

lemma delay_one_biq:
  "snd (delay_one_dump d del (s, biq)) = biq @ [\<lparr>bi_deleted = del, bi_dp = d, bi_level = oe_level (dump_est s d),
     bi_nsize = oe_nsize (dump_est s d), bi_csize = oe_csize (dump_est s d)\<rparr>]"
  by (simp add: delay_one_dump_def Let_def dump_est_def)

lemma delay_one_total:
  "pl_total_size (fst (delay_one_dump d del (s, biq))) =
     pl_total_size s - use_of s d + (if del then 0 else tape_use (pl_conf s) (degr_est s d))"
  by (simp add: delay_one_dump_def Let_def dump_est_def degr_est_def use_of_def)

lemma use_of_cong: "pl_disks s' = pl_disks s \<Longrightarrow> pl_conf s' = pl_conf s \<Longrightarrow> use_of s' = use_of s"
  by (simp add: use_of_def dump_est_def fun_eq_iff)

lemma delay_one_inv:
  assumes inv: "delay_inv s0 sb" and wf: "wf_on (set (pl_schedq s0)) s0" and d: "d \<in> set (pl_schedq (fst sb))"
  shows "delay_inv s0 (delay_one_dump d del sb)"
proof -
  obtain s biq where sb: "sb = (s, biq)" by force
  note i = delay_invD [OF inv [unfolded sb]]
  obtain s' biq' where sb': "delay_one_dump d del (s, biq) = (s', biq')" by force
  have s': "pl_disks s' = pl_disks s" "pl_conf s' = pl_conf s" "pl_db s' = pl_db s"
      "pl_schedq s' = (if del then remove1 d (pl_schedq s) else pl_schedq s)"
    using delay_one_fields [of d del "(s, biq)"] by (simp_all add: sb')
  have d0: "d \<in> set (pl_schedq s0)" "d \<in> set (pl_schedq s)" using d i(4) by (auto simp: sb)
  have biq': "biq' = biq @ [\<lparr>bi_deleted = del, bi_dp = d, bi_level = oe_level (dump_est s d),
      bi_nsize = oe_nsize (dump_est s d), bi_csize = oe_csize (dump_est s d)\<rparr>]"
    using delay_one_biq [of d del s biq] by (simp add: sb')
  have "same_plan (set (pl_schedq s0)) s s'"
    by (rule same_plan_rest [OF same_planD(1) [OF i(1) wf]]) (simp_all add: s')
  then have "same_plan (set (pl_schedq s0)) s0 s'" by (rule same_plan_trans [OF i(1)])
  moreover have "\<forall>bi \<in> set biq'. bi_ok s0 bi"
    using i(2) d0(1) same_planD(2) [OF i(1) wf d0(1)] by (auto simp: biq' bi_ok_def)
  moreover have "mset (pl_schedq s') + mset (map bi_dp (filter bi_deleted biq')) = mset (pl_schedq s0)"
    using i(3) d0 by (auto simp: s'(4) biq')
  ultimately show ?thesis by (simp add: sb sb' delay_inv_def)
qed

lemma sum_remove1: "d \<in> set ds \<Longrightarrow> sum_list (map f (remove1 d ds)) = sum_list (map f ds) - (f d :: int)"
  by (simp add: sum_list_map_remove1 [of d ds f])

lemma delay_one_books:
  assumes books: "delay_books s0 sb" and wf: "wf_on (set (pl_schedq s0)) s0" and d: "d \<in> set (pl_schedq (fst sb))"
  shows "delay_books s0 (delay_one_dump d True sb)"
proof -
  obtain s biq where sb: "sb = (s, biq)" by force
  obtain s' biq' where sb': "delay_one_dump d True (s, biq) = (s', biq')" by force
  have b: "delay_inv s0 (s, biq)" "\<forall>bi \<in> set biq. bi_deleted bi" "pl_total_size s = space_needed s"
    using books by (simp_all add: sb delay_books_def)
  have s': "pl_disks s' = pl_disks s" "pl_conf s' = pl_conf s" "pl_schedq s' = remove1 d (pl_schedq s)"
      "pl_total_size s' = pl_total_size s - use_of s d"
    using delay_one_fields [of d True "(s, biq)"] delay_one_total [of d True s biq] by (simp_all add: sb')
  have "space_needed s' = space_needed s - use_of s d"
    using d by (simp add: space_needed_def use_of_cong [OF s'(1,2)] s' sum_remove1 sb)
  moreover have "\<forall>bi \<in> set biq'. bi_deleted bi" using delay_one_biq [of d True s biq] b(2) by (simp add: sb')
  moreover have "delay_inv s0 (s', biq')" using delay_one_inv [OF b(1) wf, of d True] d by (simp add: sb sb')
  ultimately show ?thesis using b(3) by (simp add: sb sb' delay_books_def s')
qed

section \<open>The loops\<close>

text \<open>Full dumps that can only be dropped, not be replaced by an incremental one.\<close>

definition all_final :: "planner \<Rightarrow> bool" where
  "all_final s \<longleftrightarrow> (\<forall>d \<in> set (pl_schedq s). oe_level (dump_est s d) = 0 \<longrightarrow> no_incremental s d)"

text \<open>What holds before the delays.\<close>

definition plan_ok :: "planner \<Rightarrow> bool" where
  "plan_ok s \<longleftrightarrow> distinct (pl_schedq s) \<and> wf_on (set (pl_schedq s)) s"

text \<open>An invariant of the loops: \<open>delay_inv\<close>, and \<open>delay_books\<close> where no full dump can be replaced.\<close>

definition loop_inv :: "bool \<Rightarrow> planner \<Rightarrow> delay_state \<Rightarrow> bool" where
  "loop_inv b s0 sb \<longleftrightarrow> (if b then delay_books s0 sb else delay_inv s0 sb)"

lemma loop_inv_inv: "loop_inv b s0 sb \<Longrightarrow> delay_inv s0 sb"
  by (cases sb) (auto simp: loop_inv_def delay_books_def split: if_splits)

lemma loop_delay:
  assumes "loop_inv b s0 sb" "plan_ok s0" "d \<in> set (pl_schedq (fst sb))" "b \<Longrightarrow> del"
  shows "loop_inv b s0 (delay_one_dump d del sb)"
  using assms delay_one_inv [of s0 sb d del] delay_one_books [of s0 sb d]
  by (cases b) (auto simp: loop_inv_def plan_ok_def)

lemma loop_inv_same:
  assumes "loop_inv b s0 (s, biq)" "plan_ok s0" "d \<in> set (pl_schedq s0)"
  shows "no_incremental s d = no_incremental s0 d" "dump_est s d = dump_est s0 d"
  using same_planD(2,4) [OF delay_invD(1) [OF loop_inv_inv [OF assms(1)]], of d] assms(2,3) by (auto simp: plan_ok_def)

lemma loop_look:
  assumes "loop_inv b s0 (s, biq)" "plan_ok s0" "d \<in> set (pl_schedq s0)" "looked (pl_disks s d) (est s d) ep'"
  shows "loop_inv b s0 (set_up d ep' s, biq)"
proof -
  note i = delay_invD [OF loop_inv_inv [OF assms(1)]]
  have wf: "wf_on (set (pl_schedq s0)) s" using same_planD(1) [OF i(1)] assms(2) by (simp add: plan_ok_def)
  note sp = same_plan_look [OF wf assms(3,4)]
  have keep: "pl_schedq (set_up d ep' s) = pl_schedq s" "pl_total_size (set_up d ep' s) = pl_total_size s"
    "pl_conf (set_up d ep' s) = pl_conf s" by (simp_all add: set_up_def)
  have "delay_inv s0 (set_up d ep' s, biq)"
    using same_plan_trans [OF i(1) sp] i(2,3) by (simp add: delay_inv_def keep)
  moreover have "space_needed (set_up d ep' s) = space_needed s"
  proof -
    have "map (use_of (set_up d ep' s)) (pl_schedq s) = map (use_of s) (pl_schedq s)"
      using same_planD(2) [OF sp wf] i(4) by (auto simp: use_of_def keep)
    then show ?thesis by (simp only: space_needed_def keep)
  qed
  ultimately show ?thesis using assms(1) by (simp add: loop_inv_def delay_books_def keep split: if_splits)
qed

lemma oversize_step:
  assumes "loop_inv b s0 sb" "plan_ok s0" "d \<in> set (pl_schedq (fst sb))" "b \<Longrightarrow> all_final s0"
  shows "loop_inv b s0 (delay_oversize d sb)" "set (pl_schedq (fst sb)) - {d} \<subseteq> set (pl_schedq (fst (delay_oversize d sb)))"
proof -
  obtain s biq where sb: "sb = (s, biq)" by force
  have d: "d \<in> set (pl_schedq s0)" "d \<in> set (pl_schedq s)"
    using assms(3) delay_invD(4) [OF loop_inv_inv [OF assms(1) [unfolded sb]]] by (auto simp: sb)
  obtain n ep where ts: "est_tape_size (pl_disks s d) 0 (est s d) = (n, ep)" by force
  define s1 where "s1 = set_up d ep s"
  have 1: "loop_inv b s0 (s1, biq)"
    unfolding s1_def by (rule loop_look [OF assms(1) [unfolded sb] assms(2) d(1) est_tape_size_looked [OF ts]])
  have q: "pl_schedq s1 = pl_schedq s" by (simp add: s1_def set_up_def)
  have del: "no_incremental s1 d" if "b" "oe_level (dump_est s1 d) = 0"
    using loop_inv_same [OF 1 assms(2) d(1)] assms(4) [OF that(1)] that(2) d(1) by (simp add: all_final_def)
  have eq: "\<exists>del. delay_oversize d sb = (if c then (s1, biq) else delay_one_dump d del (s1, biq)) \<and> (b \<longrightarrow> del)"
    if "c = (oe_csize (dump_est s1 d) = - 1 \<or> oe_csize (dump_est s1 d) \<le>
        pc_one_tape (pl_conf s) * (if pd_splitsize (pl_disks s d) > 0 \<or> pd_allow_split (pl_disks s d) then pc_runtapes (pl_conf s) else 1))" for c
    using del unfolding that
    by (intro exI [of _ "if oe_level (dump_est s1 d) = 0 then no_incremental s1 d \<or> oe_csize (degr_est s1 d) > pc_one_tape (pl_conf s) else True"])
      (auto simp: sb delay_oversize_def ts Let_def s1_def [symmetric])
  from eq [OF refl] obtain c del where e: "delay_oversize d sb = (if c then (s1, biq) else delay_one_dump d del (s1, biq))" "b \<longrightarrow> del" by blast
  show "loop_inv b s0 (delay_oversize d sb)"
    using loop_delay [OF 1 assms(2), of d del] 1 e d(2) by (cases c) (simp_all add: q)
  show "set (pl_schedq (fst sb)) - {d} \<subseteq> set (pl_schedq (fst (delay_oversize d sb)))"
    unfolding e(1) by (cases c) (auto simp: sb q dest: in_set_remove1 [THEN iffD2, rotated])
qed

lemma oversize_loop:
  assumes "loop_inv b s0 sb" "plan_ok s0" "distinct ds" "set ds \<subseteq> set (pl_schedq (fst sb))" "b \<Longrightarrow> all_final s0"
  shows "loop_inv b s0 (fold delay_oversize ds sb)"
  using assms
proof (induction ds arbitrary: sb)
  case (Cons d ds)
  have d: "d \<in> set (pl_schedq (fst sb))" using Cons.prems(4) by simp
  note step = oversize_step [OF Cons.prems(1,2) d Cons.prems(5)]
  have "set ds \<subseteq> set (pl_schedq (fst (delay_oversize d sb)))" using step(2) Cons.prems(3,4) by auto
  then show ?case using Cons.IH [OF step(1)] Cons.prems by simp
qed simp

lemma scan_fulls_finds:
  "scan_fulls s ds (forced, preserve, delayed, ts) = (forced', preserve', Some d, ts') \<Longrightarrow>
     d \<in> set ds \<and> oe_level (dump_est s d) = 0 \<or> delayed = Some d"
  by (induction s ds "(forced, preserve, delayed, ts)" arbitrary: forced preserve delayed ts rule: scan_fulls.induct)
    (auto split: if_splits)

lemma scan_finds:
  assumes "scan_fulls (fst sb) (if over (fst sb) then rev (pl_schedq (fst sb)) else []) (fst fp, snd fp, None, 0) = (forced, preserve, Some d, ts)"
  shows "d \<in> set (pl_schedq (fst sb))" "oe_level (dump_est (fst sb) d) = 0"
  using scan_fulls_finds [OF assms] by (auto split: if_splits)

lemma delay_fulls_inv:
  assumes "delay_fulls fp sb = Some (fp', sb')" "delay_inv s0 sb" "plan_ok s0"
  shows "delay_inv s0 sb'"
proof -
  let ?scan = "\<lambda>fp sb. scan_fulls (fst sb) (if over (fst sb) then rev (pl_schedq (fst sb)) else []) (fst fp, snd fp, None, 0)"
  have "delay_inv s0 sb \<longrightarrow> delay_inv s0 (snd (fp', sb'))"
  proof (rule delay_fulls.raw_induct [where P = "\<lambda>fp sb r. delay_inv s0 sb \<longrightarrow> delay_inv s0 (snd r)", rotated])
    show "delay_fulls fp sb = Some (fp', sb')" by (rule assms(1))
  next
    fix f fp sb r
    assume IH: "\<And>fp sb r. f fp sb = Some r \<Longrightarrow> delay_inv s0 sb \<longrightarrow> delay_inv s0 (snd r)"
      and eq: "(case ?scan fp sb of (forced, preserve, None, _) \<Rightarrow> Some ((forced, preserve), sb)
        | (forced, preserve, Some d, _) \<Rightarrow> f (forced, preserve) (delay_one_dump d (no_incremental (fst sb) d) sb)) = Some r"
    obtain forced preserve del ts where scan: "?scan fp sb = (forced, preserve, del, ts)" by (metis prod_cases4)
    show "delay_inv s0 sb \<longrightarrow> delay_inv s0 (snd r)"
    proof (cases del)
      case None
      then show ?thesis using eq by (auto simp: scan)
    next
      case (Some d)
      have "f (forced, preserve) (delay_one_dump d (no_incremental (fst sb) d) sb) = Some r" using eq by (simp add: scan Some)
      from IH [OF this] show ?thesis
        using delay_one_inv [OF _ _ scan_finds(1) [OF scan [unfolded Some]]] assms(3) by (simp add: plan_ok_def)
    qed
  qed
  then show ?thesis using assms(2) by simp
qed

text \<open>Where every full dump that is delayed is dropped, the loop ends: each round drops a dump.\<close>

lemma delay_fulls_ends:
  assumes "loop_inv True s0 sb" "plan_ok s0" "all_final s0"
  shows "\<exists>fp' sb'. delay_fulls fp sb = Some (fp', sb') \<and> loop_inv True s0 sb'"
  using assms(1)
proof (induction "length (pl_schedq (fst sb))" arbitrary: fp sb rule: less_induct)
  case less
  obtain forced preserve del ts where scan:
    "scan_fulls (fst sb) (if over (fst sb) then rev (pl_schedq (fst sb)) else []) (fst fp, snd fp, None, 0) = (forced, preserve, del, ts)"
    by (metis prod_cases4)
  show ?case
  proof (cases del)
    case None
    then show ?thesis using less.prems by (subst delay_fulls.simps) (simp add: scan)
  next
    case (Some d)
    note d = scan_finds [OF scan [unfolded Some]]
    obtain s biq where sb: "sb = (s, biq)" by force
    have d0: "d \<in> set (pl_schedq s0)" using d(1) delay_invD(4) [OF loop_inv_inv [OF less.prems [unfolded sb]]] by (auto simp: sb)
    have no: "no_incremental (fst sb) d"
      using loop_inv_same [OF less.prems [unfolded sb] assms(2) d0] d(2) assms(3) d0 by (simp add: sb all_final_def)
    have "length (pl_schedq (fst (delay_one_dump d True sb))) < length (pl_schedq (fst sb))"
      using d(1) length_pos_if_in_set [OF d(1)] by (simp add: length_remove1)
    from less.hyps [OF this loop_delay [OF less.prems assms(2) d(1)], of "(forced, preserve)"]
    show ?thesis by (subst delay_fulls.simps) (simp add: scan Some no)
  qed
qed

text \<open>The loops over the disks from the tail; what is left to visit is still scheduled.\<close>

lemma delay_forced_inv:
  assumes "loop_inv b s0 sb" "plan_ok s0" "distinct ds" "set ds \<subseteq> set (pl_schedq (fst sb))" "b \<Longrightarrow> all_final s0"
  shows "loop_inv b s0 (delay_forced preserve ds sb)"
  using assms
proof (induction preserve ds sb rule: delay_forced.induct)
  case (2 preserve d ds sb)
  obtain s biq where sb: "sb = (s, biq)" by force
  have d: "d \<in> set (pl_schedq (fst sb))" "d \<in> set (pl_schedq s0)"
    using "2.prems"(4) delay_invD(4) [OF loop_inv_inv [OF "2.prems"(1) [unfolded sb]]] by (auto simp: sb)
  let ?del = "no_incremental (fst sb) d"
  let ?c = "oe_level (dump_est (fst sb) d) = 0 \<and> Some d \<noteq> preserve"
  have del: "b \<Longrightarrow> ?c \<Longrightarrow> ?del"
    using loop_inv_same [OF "2.prems"(1) [unfolded sb] "2.prems"(2) d(2)] "2.prems"(5) d(2) by (auto simp: all_final_def sb)
  have "loop_inv b s0 (if ?c then delay_one_dump d ?del sb else sb)"
    using loop_delay [OF "2.prems"(1,2) d(1), of ?del] del "2.prems"(1) by auto
  moreover have "set ds \<subseteq> set (pl_schedq (fst (if ?c then delay_one_dump d ?del sb else sb)))"
    using "2.prems"(3,4) by (auto intro: in_set_remove1 [THEN iffD2, rotated])
  ultimately show ?case using "2.IH" "2.prems" by simp
qed simp

lemma delay_incrementals_inv:
  assumes "loop_inv b s0 sb" "plan_ok s0" "distinct ds" "set ds \<subseteq> set (pl_schedq (fst sb))"
  shows "loop_inv b s0 (delay_incrementals ds sb) \<and>
    (over (fst (delay_incrementals ds sb)) \<longrightarrow>
      (\<forall>d \<in> set (pl_schedq (fst (delay_incrementals ds sb))). d \<in> set ds \<longrightarrow> oe_level (dump_est s0 d) = 0) \<and>
      set (pl_schedq (fst (delay_incrementals ds sb))) \<subseteq> set (pl_schedq (fst sb)))"
  using assms
proof (induction ds sb rule: delay_incrementals.induct)
  case (2 d ds sb)
  obtain s biq where sb: "sb = (s, biq)" by force
  have d: "d \<in> set (pl_schedq (fst sb))" "d \<in> set (pl_schedq s0)"
    using "2.prems"(4) delay_invD(4) [OF loop_inv_inv [OF "2.prems"(1) [unfolded sb]]] by (auto simp: sb)
  have dist: "distinct (pl_schedq (fst sb))"
  proof -
    have "mset (pl_schedq s) \<subseteq># mset (pl_schedq s0)"
      unfolding delay_invD(3) [OF loop_inv_inv [OF "2.prems"(1) [unfolded sb]], symmetric] by simp
    then show ?thesis using "2.prems"(2) unfolding plan_ok_def by (metis sb fst_conv distinct_count_atmost_1 count_mset_0_iff mset_subset_eq_count le_zero_eq le_neq_implies_less less_one set_mset_mset)
  qed
  show ?case
  proof (cases "over (fst sb)")
    case True
    define sb1 where "sb1 = (if oe_level (dump_est (fst sb) d) \<noteq> 0 then delay_one_dump d True sb else sb)"
    have 1: "loop_inv b s0 sb1" using loop_delay [OF "2.prems"(1,2) d(1), of True] "2.prems"(1) by (simp add: sb1_def)
    have q: "pl_schedq (fst sb1) = (if oe_level (dump_est (fst sb) d) \<noteq> 0 then remove1 d (pl_schedq (fst sb)) else pl_schedq (fst sb))"
      by (simp add: sb1_def)
    have sub: "set ds \<subseteq> set (pl_schedq (fst sb1))"
      using "2.prems"(3,4) by (auto simp: q intro: in_set_remove1 [THEN iffD2, rotated])
    have gone: "d \<in> set (pl_schedq (fst sb1)) \<Longrightarrow> oe_level (dump_est s0 d) = 0"
      using dist loop_inv_same(2) [OF "2.prems"(1) [unfolded sb] "2.prems"(2) d(2)] by (auto simp: q sb split: if_splits)
    have less: "set (pl_schedq (fst sb1)) \<subseteq> set (pl_schedq (fst sb))" by (auto simp: q dest: subsetD [OF set_remove1_subset])
    have run: "delay_incrementals (d # ds) sb = delay_incrementals ds sb1" using True by (simp add: sb1_def)
    show ?thesis using "2.IH" [OF True] 1 "2.prems"(2,3) sub gone less unfolding run sb1_def [symmetric] by auto
  qed (use "2.prems"(1) in simp)
qed simp

section \<open>Putting dumps back\<close>

lemma est_same_plan: "wf_on D s \<Longrightarrow> d \<in> D \<Longrightarrow> set_up d (est s d) s = s"
proof -
  assume "wf_on D s" "d \<in> D"
  then have "pd_up (pl_disks s d) = Some (est s d)" by (auto simp: wf_on_def)
  then have "(pl_disks s d)\<lparr>pd_up := Some (est s d)\<rparr> = pl_disks s d" by (metis pdisk.surjective pdisk.update_convs(22) pdisk.select_convs(22))
  then show ?thesis by (simp add: set_up_def)
qed

lemma loop_inv_order:
  assumes "loop_inv b s0 (s, biq)" "mset biq' = mset biq"
  shows "loop_inv b s0 (s, biq')"
proof -
  have "set biq' = set biq" using assms(2) by (metis set_mset_mset)
  moreover have "mset (map bi_dp (filter bi_deleted biq')) = mset (map bi_dp (filter bi_deleted biq))"
    using assms(2) by simp
  ultimately show ?thesis using assms(1) by (simp add: loop_inv_def delay_books_def delay_inv_def split: if_splits)
qed

text \<open>A dump that was kept in the schedule is put back as it was: its estimate is the one it had all along.\<close>

lemma reinstate_kept:
  assumes "delay_inv s0 (s, bi # biq)" "plan_ok s0"
  shows "est_for_level (pl_disks s (bi_dp bi)) (bi_level bi) (est s (bi_dp bi)) = (es_dump_est (est s (bi_dp bi)), est s (bi_dp bi))"
    and "bi_csize bi = oe_csize (dump_est s (bi_dp bi))"
proof -
  note i = delay_invD [OF assms(1)]
  have wf0: "wf_on (set (pl_schedq s0)) s0" using assms(2) by (simp add: plan_ok_def)
  have bi: "bi_dp bi \<in> set (pl_schedq s0)" "bi_level bi = oe_level (dump_est s0 (bi_dp bi))" "bi_csize bi = oe_csize (dump_est s0 (bi_dp bi))"
    using i(2) [of bi] by (simp_all add: bi_ok_def)
  have e: "dump_est s (bi_dp bi) = dump_est s0 (bi_dp bi)" by (rule same_planD(2) [OF i(1) wf0 bi(1)])
  have "est_wf (pl_disks s (bi_dp bi)) (est s (bi_dp bi))" using same_planD(1) [OF i(1) wf0] bi(1) by (simp add: wf_on_def)
  then have ok: "levels_ok (est s (bi_dp bi))" "pointer_ok (pl_disks s (bi_dp bi)) (est s (bi_dp bi)) (es_dump_est (est s (bi_dp bi)))"
    by (simp_all add: est_wf_def)
  show "est_for_level (pl_disks s (bi_dp bi)) (bi_level bi) (est s (bi_dp bi)) = (es_dump_est (est s (bi_dp bi)), est s (bi_dp bi))"
    using est_for_level_same [OF ok] bi(2) e by (metis dump_est_def)
  show "bi_csize bi = oe_csize (dump_est s (bi_dp bi))" by (simp add: e bi(3))
qed

definition fits_or_full :: "planner \<Rightarrow> planner \<Rightarrow> bool" where
  "fits_or_full s0 s \<longleftrightarrow> (over s \<longrightarrow> (\<forall>d \<in> set (pl_schedq s). oe_level (dump_est s0 d) = 0))"

lemma reinstate_inv:
  assumes "loop_inv b s0 (s, bi # biq @ kept)" "plan_ok s0" "fits_or_full s0 s"
    and r: "reinstate bi (s, kept) = (s', kept')"
  shows "loop_inv b s0 (s', biq @ kept') \<and> fits_or_full s0 s'"
proof -
  let ?d = "bi_dp bi"
  note li = loop_inv_inv [OF assms(1)]
  note i = delay_invD [OF li] and k = reinstate_kept [OF li assms(2)]
  have wf0: "wf_on (set (pl_schedq s0)) s0" using assms(2) by (simp add: plan_ok_def)
  note wf = same_planD(1) [OF i(1) wf0]
  have d: "?d \<in> set (pl_schedq s0)" using i(2) [of bi] by (simp add: bi_ok_def)
  define c where "c = (if pd_splitsize (pl_disks s ?d) > 0 then pc_runtapes (pl_conf s) else 1)"
  define new_total where "new_total = (if bi_deleted bi then pl_total_size s + use_of s ?d else pl_total_size s)"
  have nt: "new_total = (if bi_deleted bi then pl_total_size s + (pc_blocksize_kb (pl_conf s) + bi_csize bi + pc_tape_mark (pl_conf s))
      else pl_total_size s - oe_csize (dump_est s ?d) + bi_csize bi)"
    by (simp add: new_total_def use_of_def tape_use_def k(2))
  show ?thesis
  proof (cases "new_total \<le> pc_tape_length (pl_conf s) \<and> bi_csize bi < pc_one_tape (pl_conf s) * c")
    case False
    then have "s' = s" "kept' = bi # kept" using r by (auto simp: reinstate_def Let_def nt [symmetric] c_def split: if_splits)
    then show ?thesis using assms(3) loop_inv_order [OF assms(1)] by simp
  next
    case True
    then have fit: "new_total \<le> pc_tape_length (pl_conf s)" by blast
    show ?thesis
    proof (cases "bi_deleted bi")
      case False
      have t: "new_total = pl_total_size s" using False by (simp add: new_total_def)
      have "s' = s" "kept' = kept"
        using r True False k(1) est_same_plan [OF wf d] by (simp_all add: reinstate_def Let_def k(2) t c_def)
      moreover have "\<not> b" using assms(1) False by (auto simp: loop_inv_def delay_books_def split: if_splits)
      ultimately show ?thesis using li assms(3) False by (simp add: loop_inv_def delay_inv_def)
    next
      case del: True
      have nt2: "pl_total_size s + (pc_blocksize_kb (pl_conf s) + bi_csize bi + pc_tape_mark (pl_conf s)) = new_total"
        by (simp add: nt del)
      have s': "pl_disks s' = pl_disks s" "pl_conf s' = pl_conf s" "pl_db s' = pl_db s" "pl_total_size s' = new_total"
        "\<exists>cmp. pl_schedq s' = place cmp ?d (pl_schedq s)" and kept': "kept' = kept"
        using r True del by (auto simp: reinstate_def Let_def nt2 c_def)
      from s'(5) obtain cmp where q: "pl_schedq s' = place cmp ?d (pl_schedq s)" by blast
      have "same_plan (set (pl_schedq s0)) s0 s'"
        by (rule same_plan_trans [OF i(1) same_plan_rest [OF wf s'(1-3)]])
      then have inv: "delay_inv s0 (s', biq @ kept)" using i(2,3) del by (simp add: delay_inv_def q)
      have "space_needed s' = space_needed s + use_of s ?d"
      proof -
        have "sum_list (map f (place cmp ?d xs)) = f ?d + sum_list (map f xs)" for f :: "nat \<Rightarrow> int" and xs
        proof -
          have "map f xs = map f (takeWhile P xs) @ map f (dropWhile P xs)" for P by (metis map_append takeWhile_dropWhile_id)
          from arg_cong [OF this, of sum_list] show ?thesis by (simp add: place_def)
        qed
        then show ?thesis by (simp add: space_needed_def q s' use_of_cong [OF s'(1,2)])
      qed
      then have "loop_inv b s0 (s', biq @ kept)"
        using inv assms(1) del by (auto simp: loop_inv_def delay_books_def s' new_total_def split: if_splits)
      moreover have "\<not> over s'" using fit by (simp add: over_def s')
      ultimately show ?thesis by (simp add: kept' fits_or_full_def)
    qed
  qed
qed

lemma reinstate_all:
  "loop_inv b s0 (s, biq @ kept) \<Longrightarrow> plan_ok s0 \<Longrightarrow> fits_or_full s0 s \<Longrightarrow>
     loop_inv b s0 (fold reinstate biq (s, kept)) \<and> fits_or_full s0 (fst (fold reinstate biq (s, kept)))"
proof (induction biq arbitrary: s kept)
  case (Cons bi biq)
  obtain s' kept' where r: "reinstate bi (s, kept) = (s', kept')" by force
  have "loop_inv b s0 (s', biq @ kept') \<and> fits_or_full s0 s'"
    by (rule reinstate_inv [OF _ Cons.prems(2,3) r]) (use Cons.prems(1) in simp)
  then show ?case using Cons.IH Cons.prems(2) r by simp
qed simp

section \<open>The whole of the delays\<close>

text \<open>Steps 2b to 4, after the loop of step 2a.\<close>

definition finish_delays :: "nat \<times> nat option \<Rightarrow> delay_state \<Rightarrow> delay_state" where
  "finish_delays fp sb =
     (let sb = (if fst fp > 0 \<and> over (fst sb) then delay_forced (snd fp) (rev (pl_schedq (fst sb))) sb else sb);
          (s, biq) = delay_incrementals (rev (pl_schedq (fst sb))) sb in
      fold reinstate (rev biq) (s, []))"

lemma delay_dumps_steps:
  "delay_dumps s =
     (let sb = fold delay_oversize (pl_schedq s) (s, []) in
      map_option (\<lambda>(fp, sb). finish_delays fp sb) (delay_fulls (0, find_preserve (fst sb)) sb))"
  by (simp add: delay_dumps_def finish_delays_def Let_def case_prod_beta')

lemma loop_distinct:
  assumes "loop_inv b s0 sb" "plan_ok s0"
  shows "distinct (pl_schedq (fst sb))"
proof -
  obtain s biq where sb: "sb = (s, biq)" by force
  have "mset (pl_schedq s) \<subseteq># mset (pl_schedq s0)"
    unfolding delay_invD(3) [OF loop_inv_inv [OF assms(1) [unfolded sb]], symmetric] by simp
  then have "\<forall>d. count (mset (pl_schedq s)) d \<le> 1"
    using assms(2) unfolding plan_ok_def distinct_count_atmost_1 by (metis (no_types) le_zero_eq mset_subset_eq_count nle_le order_trans less_one not_less)
  then show ?thesis unfolding sb by (metis distinct_count_atmost_1 fst_conv count_mset_0_iff le_neq_implies_less less_one)
qed

lemma finish_delays_inv:
  assumes "loop_inv b s0 sb" "plan_ok s0" "b \<Longrightarrow> all_final s0"
  shows "loop_inv b s0 (finish_delays fp sb) \<and> fits_or_full s0 (fst (finish_delays fp sb))"
proof -
  define sb1 where "sb1 = (if fst fp > 0 \<and> over (fst sb) then delay_forced (snd fp) (rev (pl_schedq (fst sb))) sb else sb)"
  have 1: "loop_inv b s0 sb1"
    using delay_forced_inv [OF assms(1,2), of "rev (pl_schedq (fst sb))"] loop_distinct [OF assms(1,2)] assms(1,3) by (simp add: sb1_def)
  obtain s biq where sb2: "delay_incrementals (rev (pl_schedq (fst sb1))) sb1 = (s, biq)" by force
  have "distinct (rev (pl_schedq (fst sb1)))" "set (rev (pl_schedq (fst sb1))) \<subseteq> set (pl_schedq (fst sb1))"
    using loop_distinct [OF 1 assms(2)] by simp_all
  note 2 = delay_incrementals_inv [OF 1 assms(2) this, unfolded sb2]
  then have "loop_inv b s0 (s, rev biq @ [])" "fits_or_full s0 s"
    using loop_inv_order [of b s0 s biq "rev biq"] by (auto simp: fits_or_full_def)
  from reinstate_all [OF this(1) assms(2) this(2)] show ?thesis
    by (simp add: finish_delays_def sb1_def [symmetric] sb2 Let_def)
qed

lemma delay_start:
  assumes "plan_ok s" "b \<Longrightarrow> pl_total_size s = space_needed s" "b \<Longrightarrow> all_final s"
  shows "loop_inv b s (fold delay_oversize (pl_schedq s) (s, []))"
proof -
  have "loop_inv b s (s, [])"
    using assms same_plan_refl [of "set (pl_schedq s)" s] by (simp add: loop_inv_def delay_books_def delay_inv_def plan_ok_def)
  from oversize_loop [OF this assms(1) _ _ assms(3), of "pl_schedq s"] assms(1) show ?thesis by (simp add: plan_ok_def)
qed

lemma delay_dumps_kept:
  assumes "plan_ok s" "delay_dumps s = Some (s', biq)"
  shows "delay_inv s (s', biq)" "fits_or_full s s'"
proof -
  let ?sb = "fold delay_oversize (pl_schedq s) (s, [])"
  obtain fp sb where run: "delay_fulls (0, find_preserve (fst ?sb)) ?sb = Some (fp, sb)" and res: "finish_delays fp sb = (s', biq)"
    using assms(2) by (auto simp: delay_dumps_steps Let_def)
  have "loop_inv False s sb"
    using delay_fulls_inv [OF run _ assms(1)] delay_start [OF assms(1), of False] by (simp add: loop_inv_def)
  from finish_delays_inv [OF this assms(1), of fp] show "delay_inv s (s', biq)" "fits_or_full s s'"
    by (simp_all add: res loop_inv_def)
qed

lemma delay_dumps_ests:
  assumes "plan_ok s" "delay_dumps s = Some (s', biq)" "d \<in> set (pl_schedq s')"
  shows "dump_est s' d = dump_est s d"
proof -
  note i = delay_invD [OF delay_dumps_kept(1) [OF assms(1,2)]]
  show ?thesis using same_planD(2) [OF i(1)] assms(1,3) i(4) by (auto simp: plan_ok_def)
qed

lemma delay_dumps_final:
  assumes "plan_ok s" "all_final s" "pl_total_size s = space_needed s"
  shows "\<exists>s' biq. delay_dumps s = Some (s', biq) \<and> delay_books s (s', biq)"
proof -
  let ?sb = "fold delay_oversize (pl_schedq s) (s, [])"
  have start: "loop_inv True s ?sb" by (rule delay_start [OF assms(1,3,2)])
  obtain fp sb where run: "delay_fulls (0, find_preserve (fst ?sb)) ?sb = Some (fp, sb)" and inv: "loop_inv True s sb"
    using delay_fulls_ends [OF start assms(1,2)] by blast
  obtain s' biq where res: "finish_delays fp sb = (s', biq)" by force
  have "delay_dumps s = Some (s', biq)" using run by (simp add: delay_dumps_steps Let_def res)
  moreover have "delay_books s (s', biq)"
    using finish_delays_inv [OF inv assms(1,2), of fp] by (simp add: res loop_inv_def)
  ultimately show ?thesis by blast
qed

text \<open>C30: whatever is delayed, no disk is lost: each disk of the schedule is still scheduled or is on the list of
  dumps that were dropped. What is scheduled is scheduled with the very estimate it had before, so no full dump
  becomes an incremental one, which is what a delay is for. When the total is still too large, only full dumps are
  left.\<close>

theorem delay_dumps_partition:
  assumes "plan_ok s" and "delay_dumps s = Some (s', biq)"
  shows "mset (pl_schedq s') + mset (map bi_dp (filter bi_deleted biq)) = mset (pl_schedq s) \<and>
    (\<forall>d \<in> set (pl_schedq s'). dump_est s' d = dump_est s d) \<and>
    (over s' \<longrightarrow> (\<forall>d \<in> set (pl_schedq s'). oe_level (dump_est s' d) = 0))"
  using delay_invD(3) [OF delay_dumps_kept(1) [OF assms]] delay_dumps_kept(2) [OF assms] delay_dumps_ests [OF assms]
  by (simp add: fits_or_full_def)

lemma ex_plan_facts:
  "plan_ok (ex_plan b)" "over (ex_plan b)" "map_option (\<lambda>(s, biq). pl_total_size s) (delay_dumps (ex_plan False)) = Some 94"
  "all_final (ex_plan True)" "pl_total_size (ex_plan True) = space_needed (ex_plan True)"
proof -
  have "plan_ok (ex_plan True)" by code_simp
  moreover have "plan_ok (ex_plan False)" by code_simp
  ultimately show "plan_ok (ex_plan b)" by (cases b) auto
  have "over (ex_plan True)" by code_simp
  moreover have "over (ex_plan False)" by code_simp
  ultimately show "over (ex_plan b)" by (cases b) auto
  show "map_option (\<lambda>(s, biq). pl_total_size s) (delay_dumps (ex_plan False)) = Some 94" by code_simp
  show "all_final (ex_plan True)" by code_simp
  show "pl_total_size (ex_plan True) = space_needed (ex_plan True)" by code_simp
qed

theorem delay_dumps_partition_witness:
  "\<exists>s biq. delay_dumps (ex_plan False) = Some (s, biq) \<and> pl_total_size s = 94 \<and> \<not> over s \<and>
    mset (pl_schedq s) + mset (map bi_dp (filter bi_deleted biq)) = mset (pl_schedq (ex_plan False))"
proof -
  from ex_plan_facts(3) obtain s biq where r: "delay_dumps (ex_plan False) = Some (s, biq)" "pl_total_size s = 94" by auto
  have "pc_tape_length (pl_conf (ex_plan False)) = 100" by code_simp
  then have "\<not> over s"
    using same_planD(9) [OF delay_invD(1) [OF delay_dumps_kept(1) [OF ex_plan_facts(1) r(1)]]] ex_plan_facts(1) [of False] r(2)
    by (simp add: over_def plan_ok_def)
  then show ?thesis using r delay_dumps_partition [OF ex_plan_facts(1) r(1)] by blast
qed

text \<open>When the full dumps that must go can only be dropped, the delays end, and the total kept by the planner is
  the space the remaining dumps need; they fit on the tapes, or only full dumps are left.\<close>

theorem delay_dumps_books:
  assumes "plan_ok s" and "all_final s" and "pl_total_size s = space_needed s"
  shows "\<exists>s' biq. delay_dumps s = Some (s', biq) \<and> pl_total_size s' = space_needed s' \<and>
    (pl_total_size s' \<le> pc_tape_length (pl_conf s') \<or> (\<forall>d \<in> set (pl_schedq s'). oe_level (dump_est s' d) = 0))"
proof -
  obtain s' biq where d: "delay_dumps s = Some (s', biq)" "delay_books s (s', biq)" using delay_dumps_final [OF assms] by blast
  then show ?thesis using delay_dumps_kept(2) [OF assms(1) d(1)] delay_dumps_ests [OF assms(1) d(1)]
    by (auto simp: fits_or_full_def over_def delay_books_def)
qed

theorem delay_dumps_books_witness:
  "over (ex_plan True) \<and> (\<exists>s biq. delay_dumps (ex_plan True) = Some (s, biq) \<and> pl_total_size s = space_needed s)"
  using delay_dumps_books [OF ex_plan_facts(1,4,5)] ex_plan_facts(2) by blast


end
