(* ===== verification/Planner_Books.thy ===== *)
theory Planner_Books
  imports Planner_Delay "HOL-Library.Product_Lexorder"
begin

text \<open>
  The books of the planner: analysing the estimates puts every disk on the schedule once, in order, and the total
  is the space the scheduled dumps need; promotions keep it, and never promise more than the tapes hold.
\<close>

section \<open>Pointers found\<close>

lemma pointer_ok_simps [simp]:
  "pointer_ok dp ep Default_est"
  "pointer_ok dp (ep\<lparr>es_dump_est := p\<rparr>) q = pointer_ok dp ep q"
  "pointer_ok dp (ep\<lparr>es_degr_est := p\<rparr>) q = pointer_ok dp ep q"
  "pointer_ok dp (ep\<lparr>es_degr_mesg := m\<rparr>) q = pointer_ok dp ep q"
  "pointer_ok dp (ep\<lparr>es_promote := v\<rparr>) q = pointer_ok dp ep q"
  "pointer_ok dp (ep\<lparr>es_next_level0 := v\<rparr>) q = pointer_ok dp ep q"
  by (simp_all add: pointer_ok_def settled_def settled_est_def est_at_def split: est_ptr.splits)

lemma levels_ok_simps [simp]:
  "levels_ok (ep\<lparr>es_dump_est := p\<rparr>) = levels_ok ep"
  "levels_ok (ep\<lparr>es_degr_est := p\<rparr>) = levels_ok ep"
  "levels_ok (ep\<lparr>es_degr_mesg := m\<rparr>) = levels_ok ep"
  "levels_ok (ep\<lparr>es_promote := v\<rparr>) = levels_ok ep"
  "levels_ok (ep\<lparr>es_next_level0 := v\<rparr>) = levels_ok ep"
  by (simp_all add: levels_ok_def)

text \<open>What a look-up returns: a good pointer, into a block that was only looked at.\<close>

definition got :: "pdisk \<Rightarrow> est_t \<Rightarrow> est_ptr \<times> est_t \<Rightarrow> bool" where
  "got dp ep = (\<lambda>(p, ep'). looked dp ep ep' \<and> pointer_ok dp ep' p)"

lemma got_level [intro]: "got dp ep (est_for_level dp lev ep)"
proof -
  obtain p ep' where e: "est_for_level dp lev ep = (p, ep')" by force
  note l = est_for_level_looked [OF e]
  have "p = Default_est \<or> 0 \<le> oe_level (est_at ep' p)" using l(3,4) by linarith
  then show ?thesis using l by (simp add: got_def e pointer_ok_def)
qed

lemma got_later: "looked dp ep ep1 \<Longrightarrow> got dp ep1 r \<Longrightarrow> got dp ep r"
  by (cases r) (auto simp: got_def intro: looked_trans)

lemma pointer_later: "looked dp ep ep' \<Longrightarrow> pointer_ok dp ep p \<Longrightarrow> pointer_ok dp ep' p"
  using looked_settled [of dp ep ep' p] by (auto simp: pointer_ok_def)

lemma levels_later: "looked dp ep ep' \<Longrightarrow> levels_ok ep \<Longrightarrow> levels_ok ep'"
  using looked_fields(2,3) [of dp ep ep'] unfolding levels_ok_def by (metis image_set)

lemma pick_inclevel_got: "pick_inclevel dp ep = Inr r \<Longrightarrow> got dp ep r"
proof -
  assume pick: "pick_inclevel dp ep = Inr r"
  obtain level0 ep0 where 0: "est_for_level dp 0 ep = (level0, ep0)" by force
  obtain base ep1 where 1: "est_for_level dp (es_last_level ep0) ep0 = (base, ep1)" by force
  have l0: "looked dp ep ep0" using got_level [of dp ep 0] by (simp add: 0 got_def)
  have g1: "looked dp ep0 ep1" "pointer_ok dp ep1 base" using got_level [of dp ep0 "es_last_level ep0"] by (simp_all add: 1 got_def)
  have l1: "looked dp ep ep1" using looked_trans [OF l0 g1(1)] .
  have step: "got dp ep (est_for_level dp lev ep1)" for lev using got_later [OF l1 got_level] .
  have keep: "got dp ep (base, ep2)" if "est_for_level dp lev ep1 = (q, ep2)" for lev q ep2
  proof -
    have "looked dp ep1 ep2" using got_level [of dp ep1 lev] that by (simp add: got_def)
    then show ?thesis using looked_trans [OF l1] pointer_later g1(2) by (simp add: got_def)
  qed
  have b: "got dp ep (base, ep1)" using l1 g1(2) by (simp add: got_def)
  show ?thesis
    using pick step keep b unfolding pick_inclevel_def
    by (auto simp: 0 1 Let_def bind_r_eq_Inr_iff split: if_splits prod.splits)
       (metis)+
qed

lemma try_levels_got: "got dp ep (p, ep1) \<Longrightarrow> got dp ep (try_levels dp levs (p, ep1))"
proof (induction dp levs "(p, ep1)" arbitrary: p ep1 rule: try_levels.induct)
  case (2 dp lev levs p ep1)
  show ?case
  proof (cases "oe_csize (est_at ep1 p) = - 1")
    case True
    obtain q ep2 where e: "est_for_level dp lev ep1 = (q, ep2)" by force
    have "got dp ep (q, ep2)" using got_level [of dp ep1 lev] "2.prems" by (auto simp: e got_def intro: looked_trans)
    then show ?thesis using "2.hyps" [of q ep2] True by (simp add: e)
  qed (use 2 in simp)
qed simp

section \<open>Analysing\<close>

lemma looked_pointers: "looked dp ep ep' \<Longrightarrow> es_dump_est ep' = es_dump_est ep \<and> es_degr_est ep' = es_degr_est ep"
  by (auto simp: looked_def)

lemma est_wf_fields [simp]:
  "est_wf dp (ep\<lparr>es_dump_est := p\<rparr>) \<longleftrightarrow> levels_ok ep \<and> pointer_ok dp ep p \<and> pointer_ok dp ep (es_degr_est ep)"
  "est_wf dp (ep\<lparr>es_degr_est := p\<rparr>) \<longleftrightarrow> levels_ok ep \<and> pointer_ok dp ep (es_dump_est ep) \<and> pointer_ok dp ep p"
  "est_wf dp (ep\<lparr>es_degr_mesg := m\<rparr>) = est_wf dp ep"
  by (simp_all add: est_wf_def)

lemma est_at_fields [simp]:
  "est_at (ep\<lparr>es_dump_est := p\<rparr>) q = est_at ep q" "est_at (ep\<lparr>es_degr_est := p\<rparr>) q = est_at ep q"
  "est_at (ep\<lparr>es_degr_mesg := m\<rparr>) q = est_at ep q"
  by (simp_all add: est_at_def split: est_ptr.splits)

lemma choose_full_wf:
  assumes "choose_full dp ep = Inr (full, ep')" "levels_ok ep" "es_degr_est ep = Default_est"
  shows "est_wf dp ep'"
proof -
  obtain p ep0 where 0: "est_for_level dp 0 ep = (p, ep0)" by force
  define ep1 where "ep1 = ep0\<lparr>es_dump_est := p\<rparr>"
  have g0: "looked dp ep ep0" "pointer_ok dp ep0 p" using got_level [of dp ep 0] by (simp_all add: 0 got_def)
  have 1: "levels_ok ep1" "es_degr_est ep1 = Default_est" "es_dump_est ep1 = p" "pointer_ok dp ep1 p"
    using levels_later [OF g0(1) assms(2)] looked_pointers [OF g0(1)] assms(3) g0(2) by (simp_all add: ep1_def)
  have later: "levels_ok ep2" "es_degr_est ep2 = Default_est" "es_dump_est ep2 = p" "pointer_ok dp ep2 q" "pointer_ok dp ep2 p"
    if "got dp ep1 (q, ep2)" for q ep2
    using that levels_later [of dp ep1 ep2] looked_pointers [of dp ep1 ep2] pointer_later [of dp ep1 ep2 p] 1 by (simp_all add: got_def)
  have got2: "got dp ep1 (est_for_level dp lev ep2)" if "got dp ep1 (q, ep2)" for q ep2 lev
    using that got_later [OF _ got_level, of dp ep1 ep2 lev] by (simp add: got_def)
  consider (none) "oe_csize (est_at ep1 p) \<le> 0" | (only) "\<not> oe_csize (est_at ep1 p) \<le> 0" "es_last_level ep1 = - 1 \<or> pd_skip_incr dp"
    | (both) "\<not> oe_csize (est_at ep1 p) \<le> 0" "\<not> (es_last_level ep1 = - 1 \<or> pd_skip_incr dp)" by blast
  then show ?thesis
  proof cases
    case none
    then obtain q ep2 where pick: "pick_inclevel dp ep1 = Inr (q, ep2)"
      and ep': "ep' = (if oe_nsize (est_at ep2 q) = - 1
        then case est_for_level dp (oe_level (est_at ep2 q) + 1) ep2 of (q, ep) \<Rightarrow> ep\<lparr>es_dump_est := q\<rparr>
        else ep2\<lparr>es_dump_est := q\<rparr>)"
      using assms(1) by (auto simp: choose_full_def 0 Let_def ep1_def map_r_eq_Inr_iff)
    note g = pick_inclevel_got [OF pick]
    obtain q3 ep3 where 3: "est_for_level dp (oe_level (est_at ep2 q) + 1) ep2 = (q3, ep3)" by force
    have g3: "got dp ep1 (q3, ep3)" using got2 [OF g] 3 by metis
    show ?thesis unfolding ep' 3 using later [OF g] later [OF g3] by simp
  next
    case only
    then show ?thesis using assms(1) 1 by (auto simp: choose_full_def 0 Let_def ep1_def est_wf_def split: if_splits)
  next
    case both
    then obtain q ep2 where pick: "pick_inclevel dp ep1 = Inr (q, ep2)"
      and eq: "(full, ep') = (let (q, ep) = (if oe_level (est_at ep2 q) \<ge> 0 \<and> oe_csize (est_at ep2 q) = - 1
                           then est_for_level dp (oe_level (est_at ep2 q) + 1) ep2 else (q, ep2)) in
            (True,
             if oe_csize (est_at ep q) = - 1 then
               (if es_degr_mesg ep = None
                then ep\<lparr>es_degr_mesg := Some ''Skipping: an incremental estimate could not be performed, so disk cannot be dumped in degraded mode''\<rparr>
                else ep)\<lparr>es_degr_est := Default_est\<rparr>
             else ep\<lparr>es_degr_est := q\<rparr>))"
      using assms(1) by (auto simp: choose_full_def 0 Let_def ep1_def map_r_eq_Inr_iff)
    note g = pick_inclevel_got [OF pick]
    obtain q3 ep3 where 3: "(if oe_level (est_at ep2 q) \<ge> 0 \<and> oe_csize (est_at ep2 q) = - 1
                           then est_for_level dp (oe_level (est_at ep2 q) + 1) ep2 else (q, ep2)) = (q3, ep3)" by force
    have g3: "got dp ep1 (q3, ep3)" using got2 [OF g] g 3 by (metis (full_types))
    show ?thesis using eq later [OF g3] unfolding 3 by (auto split: if_splits)
  qed
qed

lemma choose_incr_wf:
  assumes "choose_incr dp ep = Inr ep'" "levels_ok ep" "es_degr_est ep = Default_est"
  shows "est_wf dp ep'"
proof -
  obtain p ep1 where pick: "pick_inclevel dp ep = Inr (p, ep1)" and
    ep': "ep' = (let (p, ep) = try_levels dp [es_last_level ep1, es_last_level ep1 + 1, 0] (p, ep1); ep = ep\<lparr>es_dump_est := p\<rparr> in
         if es_degr_mesg ep = None
         then ep\<lparr>es_degr_mesg := Some ''Skipping: a full is not planned, so can't dump in degraded mode''\<rparr> else ep)"
    using assms(1) by (auto simp: choose_incr_def map_r_eq_Inr_iff)
  obtain q ep2 where 2: "try_levels dp [es_last_level ep1, es_last_level ep1 + 1, 0] (p, ep1) = (q, ep2)" by force
  have g: "got dp ep (q, ep2)" using try_levels_got [OF pick_inclevel_got [OF pick]] by (metis 2)
  then show ?thesis
    using levels_later [of dp ep ep2] looked_pointers [of dp ep ep2] assms(2,3) unfolding ep' 2 by (simp add: got_def Let_def)
qed

text \<open>The schedule is kept by falling priority, and by falling size among equals.\<close>

definition order_key :: "planner \<Rightarrow> nat \<Rightarrow> int \<times> int" where
  "order_key s d = (- es_dump_priority (est s d), - oe_csize (dump_est s d))"

lemma schedule_order_key: "schedule_order s a b < 0 \<longleftrightarrow> order_key s a < order_key s b"
  by (auto simp: schedule_order_def order_key_def Let_def less_prod_def)

definition booked :: "planner \<Rightarrow> bool" where
  "booked s \<longleftrightarrow> plan_ok s \<and> pl_total_size s = space_needed s"

lemma sum_place: "sum_list (map f (place cmp d xs)) = (f d + sum_list (map f xs) :: int)"
proof -
  have "map f xs = map f (takeWhile P xs) @ map f (dropWhile P xs)" for P by (metis map_append takeWhile_dropWhile_id)
  from arg_cong [OF this, of sum_list] show ?thesis by (simp add: place_def)
qed

lemma space_needed_cong:
  "pl_conf s' = pl_conf s \<Longrightarrow> pl_schedq s' = pl_schedq s \<Longrightarrow> (\<And>d. d \<in> set (pl_schedq s) \<Longrightarrow> dump_est s' d = dump_est s d) \<Longrightarrow>
     space_needed s' = space_needed s"
proof -
  assume a: "pl_conf s' = pl_conf s" "pl_schedq s' = pl_schedq s" "\<And>d. d \<in> set (pl_schedq s) \<Longrightarrow> dump_est s' d = dump_est s d"
  have "map (use_of s') (pl_schedq s) = map (use_of s) (pl_schedq s)" using a by (auto simp: use_of_def)
  then show ?thesis using a by (simp only: space_needed_def)
qed

text \<open>A disk with a good block enters the schedule.\<close>

lemma enter_schedule_books:
  assumes "plan_ok s" "pl_total_size s = space_needed s" "sorted (map (order_key s) (pl_schedq s))" "d \<notin> set (pl_schedq s)"
    and d: "pd_up (pl_disks s d) \<noteq> None" "est_wf (pl_disks s d) (est s d)"
  defines "s' \<equiv> enter_schedule d s"
  shows "booked s'" "sorted (map (order_key s') (pl_schedq s'))" "mset (pl_schedq s') = add_mset d (mset (pl_schedq s))"
    "pl_disks s' = pl_disks s" "pl_conf s' = pl_conf s"
proof -
  have q: "pl_schedq s' = place (schedule_order s) d (pl_schedq s)" and eq: "pl_disks s' = pl_disks s" "pl_conf s' = pl_conf s"
    and t: "pl_total_size s' = pl_total_size s + use_of s d"
    by (simp_all add: s'_def enter_schedule_def Let_def use_of_def dump_est_def)
  show "pl_disks s' = pl_disks s" "pl_conf s' = pl_conf s" by (fact eq)+
  show m: "mset (pl_schedq s') = add_mset d (mset (pl_schedq s))" by (simp add: q)
  have "distinct (pl_schedq s')"
    using assms(1,4) m by (metis distinct.simps(2) mset.simps(2) mset_eq_imp_distinct_iff plan_ok_def)
  moreover have "wf_on (set (pl_schedq s')) s'" using assms(1) d by (auto simp: q plan_ok_def wf_on_def eq)
  moreover have "space_needed s' = space_needed s + use_of s d"
    by (simp add: space_needed_def q eq sum_place use_of_cong [OF eq])
  ultimately show "booked s'" using assms(2) by (simp add: booked_def plan_ok_def t)
  have k: "order_key s' = order_key s" by (simp add: order_key_def fun_eq_iff dump_est_def eq)
  show "sorted (map (order_key s') (pl_schedq s'))"
    unfolding k q by (rule place_sorted [OF schedule_order_key assms(3)])
qed

lemma plan_up:
  assumes "d \<notin> set (pl_schedq s)"
  shows "plan_ok (set_up d ep s) = plan_ok s" "space_needed (set_up d ep s) = space_needed s"
    "map (order_key (set_up d ep s)) (pl_schedq s) = map (order_key s) (pl_schedq s)"
proof -
  have d: "pl_disks (set_up d ep s) d1 = pl_disks s d1" if "d1 \<in> set (pl_schedq s)" for d1 using assms that by (auto simp: set_up_def)
  have q: "pl_schedq (set_up d ep s) = pl_schedq s" "pl_conf (set_up d ep s) = pl_conf s" by (simp_all add: set_up_def)
  show "plan_ok (set_up d ep s) = plan_ok s" using d by (simp add: plan_ok_def wf_on_def q)
  show "space_needed (set_up d ep s) = space_needed s" by (rule space_needed_cong [OF q(2,1)]) (simp add: dump_est_def d)
  show "map (order_key (set_up d ep s)) (pl_schedq s) = map (order_key s) (pl_schedq s)"
    by (simp add: order_key_def dump_est_def d)
qed

lemma add_balance_look:
  assumes "wf_on D s" "d \<in> D"
  shows "same_plan D s (add_balance d s)" "pl_schedq (add_balance d s) = pl_schedq s"
    "pl_total_size (add_balance d s) = pl_total_size s" "pl_total_lev0 (add_balance d s) = pl_total_lev0 s"
    "d1 \<noteq> d \<Longrightarrow> pl_disks (add_balance d s) d1 = pl_disks s d1"
proof -
  let ?dp = "pl_disks s d"
  obtain n ep where ts: "est_tape_size ?dp 0 (est s d) = (n, ep)" by force
  have "add_balance d s = s \<or> (\<exists>b. add_balance d s = (set_up d ep s)\<lparr>pl_balanced_size := b\<rparr>)"
    by (auto simp: add_balance_def Let_def ts)
  then consider "add_balance d s = s" | b where "add_balance d s = (set_up d ep s)\<lparr>pl_balanced_size := b\<rparr>" by blast
  then have "same_plan D s (add_balance d s) \<and> pl_schedq (add_balance d s) = pl_schedq s \<and>
    pl_total_size (add_balance d s) = pl_total_size s \<and> pl_total_lev0 (add_balance d s) = pl_total_lev0 s \<and>
    (d1 \<noteq> d \<longrightarrow> pl_disks (add_balance d s) d1 = pl_disks s d1)"
  proof cases
    case 1
    then show ?thesis using same_plan_refl [OF assms(1)] by simp
  next
    case 2
    note l = same_plan_look [OF assms est_tape_size_looked [OF ts]]
    have "same_plan D (set_up d ep s) ((set_up d ep s)\<lparr>pl_balanced_size := b\<rparr>)"
      by (rule same_plan_rest [OF same_planD(1) [OF l assms(1)]]) simp_all
    from same_plan_trans [OF l this] show ?thesis unfolding 2 by (simp add: set_up_def)
  qed
  then show "same_plan D s (add_balance d s)" "pl_schedq (add_balance d s) = pl_schedq s"
    "pl_total_size (add_balance d s) = pl_total_size s" "pl_total_lev0 (add_balance d s) = pl_total_lev0 s"
    "d1 \<noteq> d \<Longrightarrow> pl_disks (add_balance d s) d1 = pl_disks s d1" by blast+
qed

text \<open>One disk analysed.\<close>

lemma analyze_estimate_books:
  assumes "analyze_estimate d s = Inr s'" "booked s" "sorted (map (order_key s) (pl_schedq s))" "d \<notin> set (pl_schedq s)"
    and d: "pd_up (pl_disks s d) \<noteq> None" "levels_ok (est s d)"
  shows "booked s'" "sorted (map (order_key s') (pl_schedq s'))" "mset (pl_schedq s') = add_mset d (mset (pl_schedq s))"
    "d1 \<noteq> d \<Longrightarrow> pl_disks s' d1 = pl_disks s d1"
proof -
  let ?ep = "(est s d)\<lparr>es_degr_est := Default_est\<rparr>"
  from assms(1) obtain full ep where
    choose: "(if due_for_full s d ?ep then choose_full (pl_disks s d) ?ep else map_r (Pair False) (choose_incr (pl_disks s d) ?ep)) = Inr (full, ep)"
    and s': "s' = (let s = set_up d ep s;
            s = (if full then s\<lparr>pl_total_lev0 := fl (pl_total_lev0 s + fl (of_int (oe_csize (dump_est s d))))\<rparr> else s) in
        add_balance d (enter_schedule d s))"
    by (auto simp: analyze_estimate_def Let_def bind_r_eq_Inr_iff)
  have wf: "est_wf (pl_disks s d) ep"
    using choose choose_full_wf [of "pl_disks s d" ?ep full ep] choose_incr_wf [of "pl_disks s d" ?ep ep] d(2)
    by (auto simp: map_r_eq_Inr_iff split: if_splits)
  define s1 where "s1 = set_up d ep s"
  define s2 where "s2 = (if full then s1\<lparr>pl_total_lev0 := fl (pl_total_lev0 s1 + fl (of_int (oe_csize (dump_est s1 d))))\<rparr> else s1)"
  have 1: "plan_ok s1" "pl_total_size s1 = space_needed s1" "sorted (map (order_key s1) (pl_schedq s))"
  proof -
    note u = plan_up [OF assms(4), of ep]
    show "plan_ok s1" using u(1) assms(2) by (simp add: booked_def s1_def)
    have "pl_total_size s1 = pl_total_size s" by (simp add: s1_def set_up_def)
    then show "pl_total_size s1 = space_needed s1" using u(2) assms(2) by (simp add: booked_def s1_def)
    show "sorted (map (order_key s1) (pl_schedq s))" unfolding s1_def u(3) by (rule assms(3))
  qed
  have eq: "pl_disks s2 = pl_disks s1" "pl_conf s2 = pl_conf s1" "pl_schedq s2 = pl_schedq s" "pl_total_size s2 = pl_total_size s1"
    by (simp_all add: s2_def s1_def set_up_def)
  have q1: "pl_schedq s1 = pl_schedq s" by (simp add: s1_def set_up_def)
  have k: "order_key s2 = order_key s1" by (simp add: order_key_def dump_est_def eq fun_eq_iff)
  have r: "space_needed s2 = space_needed s1" by (rule space_needed_cong) (simp_all add: eq q1 dump_est_def)
  have 2: "plan_ok s2" "pl_total_size s2 = space_needed s2" "sorted (map (order_key s2) (pl_schedq s2))" "d \<notin> set (pl_schedq s2)"
    using 1 assms(4) by (simp_all add: eq q1 k r plan_ok_def wf_on_def)
  have up: "pd_up (pl_disks s2 d) \<noteq> None" "est_wf (pl_disks s2 d) (est s2 d)" using wf by (simp_all add: eq s1_def set_up_def)
  note e = enter_schedule_books [OF 2 up]
  define s3 where "s3 = enter_schedule d s2"
  have d3: "d \<in> set (pl_schedq s3)" using e(3) unfolding s3_def by (metis set_mset_mset set_mset_add_mset_insert insertI1)
  have wf3: "wf_on (set (pl_schedq s3)) s3" using e(1) by (simp add: s3_def booked_def plan_ok_def)
  note b = add_balance_look [OF wf3 d3] and p = same_planD [OF add_balance_look(1) [OF wf3 d3] wf3]
  have s': "s' = add_balance d s3" unfolding s' s3_def s2_def s1_def by (simp add: Let_def)
  have "space_needed s' = space_needed s3" unfolding s' using p(2,9) b(2) by (intro space_needed_cong) auto
  moreover have "plan_ok s'" using e(1) p(1) b(2) by (simp add: s' s3_def booked_def plan_ok_def)
  ultimately show "booked s'" using e(1) b(3) by (simp add: booked_def s' s3_def)
  have "map (order_key s') (pl_schedq s3) = map (order_key s3) (pl_schedq s3)" using p(2,6) by (simp add: order_key_def s')
  then show "sorted (map (order_key s') (pl_schedq s'))" using e(2) b(2) unfolding s3_def [symmetric] s' by (simp only:)
  show "mset (pl_schedq s') = add_mset d (mset (pl_schedq s))" using e(3) b(2) by (simp add: s' s3_def eq)
  show "pl_disks s' d1 = pl_disks s d1" if "d1 \<noteq> d"
    using b(5) [OF that] e(4) that by (simp add: s' s3_def eq) (simp add: s1_def set_up_def)
qed

text \<open>The disks an analysis is given: each once, with a block in order.\<close>

definition ready :: "nat list \<Rightarrow> planner \<Rightarrow> bool" where
  "ready estq s \<longleftrightarrow> distinct estq \<and> (\<forall>d \<in> set estq. pd_up (pl_disks s d) \<noteq> None \<and> levels_ok (est s d))"

lemma analyze_all_books:
  assumes "analyze_all ds s = Inr s'" "booked s" "sorted (map (order_key s) (pl_schedq s))" "ready ds s"
    and "set ds \<inter> set (pl_schedq s) = {}"
  shows "booked s' \<and> sorted (map (order_key s') (pl_schedq s')) \<and> mset (pl_schedq s') = mset ds + mset (pl_schedq s)"
  using assms
proof (induction ds arbitrary: s)
  case (Cons d ds)
  from Cons.prems(1) obtain s1 where 1: "analyze_estimate d s = Inr s1" and rest: "analyze_all ds s1 = Inr s'"
    by (auto simp: bind_r_eq_Inr_iff)
  have d: "d \<notin> set (pl_schedq s)" "pd_up (pl_disks s d) \<noteq> None" "levels_ok (est s d)" "d \<notin> set ds"
    using Cons.prems(4,5) by (auto simp: ready_def)
  note a = analyze_estimate_books [OF 1 Cons.prems(2,3) d(1-3)]
  have "set (pl_schedq s1) = insert d (set (pl_schedq s))" using a(3) by (metis set_mset_mset set_mset_add_mset_insert)
  moreover have "ready ds s1"
  proof -
    have "pl_disks s1 d1 = pl_disks s d1" if "d1 \<in> set ds" for d1 using a(4) that d(4) by metis
    then show ?thesis using Cons.prems(4) by (simp add: ready_def)
  qed
  ultimately show ?case using Cons.IH [OF rest a(1,2)] Cons.prems(5) a(3) d(4) by auto
qed simp

lemma begin_analysis_books: "booked (begin_analysis s)" "pl_schedq (begin_analysis s) = []"
  by (simp_all add: begin_analysis_def booked_def plan_ok_def wf_on_def space_needed_def)

lemma analysis_booked:
  assumes "ready estq s" "analyze_all estq (begin_analysis s) = Inr s'"
  shows "booked s'" "sorted (map (order_key s') (pl_schedq s'))" "mset (pl_schedq s') = mset estq"
proof -
  have "ready estq (begin_analysis s)" using assms(1) by (simp add: ready_def begin_analysis_def)
  from analyze_all_books [OF assms(2) begin_analysis_books(1) _ this]
  show "booked s'" "sorted (map (order_key s') (pl_schedq s'))" "mset (pl_schedq s') = mset estq"
    by (simp_all add: begin_analysis_books)
qed

text \<open>C29: analysing the estimates puts every disk on the schedule exactly once, by falling priority and by falling
  size among equals, with its estimate blocks in order, and the total the planner keeps is the space the
  scheduled dumps need on tape with their headers and marks.\<close>

theorem analysis_books:
  assumes "ready estq s" and "analyze_all estq (begin_analysis s) = Inr s'"
  shows "mset (pl_schedq s') = mset estq \<and> sorted (map (order_key s') (pl_schedq s')) \<and>
    pl_total_size s' = space_needed s' \<and> plan_ok s'"
  using analysis_booked [OF assms] by (simp add: booked_def)

text \<open>One of the two disks analysed.\<close>

lemma ex_planner_ready: "ready [0] (ex_planner True)"
  by code_simp

abbreviation ex_block :: est_t where
  "ex_block \<equiv> ex_est 80 10 (- 3, - 3) (Default_est, Default_est)"

lemma ex_choose_full:
  "choose_full (ex_disk True ex_block) ex_block =
     Inr (True, (ex_est 80 10 (80, - 3) (Estimate 0, Default_est))
       \<lparr>es_degr_mesg := Some ''Skpping: skip-incr disk can't be dumped in degraded mode''\<rparr>)"
  by (simp add: choose_full_def est_for_level_def ex_est_def ex_disk_def DUMP_LEVELS_def est_csize_def est_at_def)

lemma ex_due: "due_for_full (begin_analysis (ex_planner True)) 0 ex_block"
  by code_simp

lemma ex_planner_analysed:
  "\<exists>s. analyze_all [0] (begin_analysis (ex_planner True)) = Inr s \<and> pl_total_size s = 83 \<and> all_final s"
proof -
  have p: "pl_disks (begin_analysis (ex_planner True)) 0 = ex_disk True ex_block"
    by (simp add: begin_analysis_def ex_planner_def)
  have u: "pd_up (ex_disk True x) = Some x" for x by (simp add: ex_disk_def)
  have e: "ex_block\<lparr>es_degr_est := Default_est\<rparr> = ex_block" by (simp add: ex_est_def)
  have "\<exists>s. analyze_estimate 0 (begin_analysis (ex_planner True)) = Inr s \<and> pl_total_size s = 83 \<and> all_final s"
    by (simp add: analyze_estimate_def p u ex_choose_full ex_due e)
      (simp add: Let_def add_balance_def enter_schedule_def set_up_def tape_use_def dump_est_def est_at_def ex_est_def
        ex_disk_def ex_planner_def begin_analysis_def ex_conf_def all_final_def place_def est_tape_size_def est_for_level_def
        no_incremental_def DUMP_LEVELS_def)
  then show ?thesis by auto
qed

theorem analysis_books_witness:
  "\<exists>s. analyze_all [0] (begin_analysis (ex_planner True)) = Inr s \<and> mset (pl_schedq s) = {#0#} \<and> space_needed s = 83"
proof -
  obtain s where s: "analyze_all [0] (begin_analysis (ex_planner True)) = Inr s" "pl_total_size s = 83"
    using ex_planner_analysed by blast
  show ?thesis using analysis_books [OF ex_planner_ready s(1)] s by (intro exI [of _ s]) simp
qed

end
