(* ===== verification/Planner_Promote.thy ===== *)
theory Planner_Promote
  imports Planner_Books
begin

text \<open>
  Promotions: the look at every disk leaves the plan alone, one promotion makes one full dump of a later day a dump
  of today, keeps the books and fits on the tapes, and the promotions come to an end.
\<close>

section \<open>Looking for a disk to promote\<close>

text \<open>The level 0 estimate a look-up finds.\<close>

definition lev0_est :: "planner \<Rightarrow> nat \<Rightarrow> one_est_t" where
  "lev0_est s d = (case est_for_level (pl_disks s d) 0 (est s d) of (p, ep) \<Rightarrow> est_at ep p)"

text \<open>The blocks are looked at and their promotion values written; nothing else changes.\<close>

definition touched :: "planner \<Rightarrow> planner \<Rightarrow> bool" where
  "touched s s' \<longleftrightarrow>
     pl_conf s' = pl_conf s \<and> pl_schedq s' = pl_schedq s \<and> pl_total_size s' = pl_total_size s \<and>
     pl_total_lev0 s' = pl_total_lev0 s \<and> pl_balanced_size s' = pl_balanced_size s \<and>
     pl_balance_threshold s' = pl_balance_threshold s \<and>
     (\<forall>d \<in> set (pl_schedq s). \<exists>E v. looked (pl_disks s d) (est s d) ((est s d)\<lparr>es_estimate := E\<rparr>) \<and>
        pl_disks s' d = (pl_disks s d)\<lparr>pd_up := Some ((est s d)\<lparr>es_estimate := E, es_promote := v\<rparr>)\<rparr>)"

lemma looked_promote: "looked dp (ep\<lparr>es_promote := v\<rparr>) ep' \<Longrightarrow>
    \<exists>E. ep' = ep\<lparr>es_estimate := E, es_promote := v\<rparr> \<and> looked dp ep (ep\<lparr>es_estimate := E\<rparr>)"
proof -
  assume "looked dp (ep\<lparr>es_promote := v\<rparr>) ep'"
  then obtain E where E: "ep' = (ep\<lparr>es_promote := v\<rparr>)\<lparr>es_estimate := E\<rparr>" "looked_list dp (ep\<lparr>es_promote := v\<rparr>) (es_estimate ep) E"
    by (auto simp: looked_def)
  then have "looked dp ep (ep\<lparr>es_estimate := E\<rparr>)" unfolding looked_def looked_list_def by auto
  moreover have "ep' = ep\<lparr>es_estimate := E, es_promote := v\<rparr>" unfolding E(1) by (cases ep) simp
  ultimately show ?thesis by blast
qed

lemma looked_estimate: "looked dp ep (ep\<lparr>es_estimate := E\<rparr>) \<longleftrightarrow> looked_list dp ep (es_estimate ep) E"
proof
  assume "looked dp ep (ep\<lparr>es_estimate := E\<rparr>)"
  then obtain E' where E': "ep\<lparr>es_estimate := E\<rparr> = ep\<lparr>es_estimate := E'\<rparr>" "looked_list dp ep (es_estimate ep) E'" by (auto simp: looked_def)
  from arg_cong [OF E'(1), of es_estimate] show "looked_list dp ep (es_estimate ep) E" using E'(2) by simp
qed (auto simp: looked_def)

lemma pointer_ok_up [simp]: "pointer_ok (dp\<lparr>pd_up := u\<rparr>) ep p = pointer_ok dp ep p"
  by (simp add: pointer_ok_def)

lemma up_same: "pd_up dp = Some e \<Longrightarrow> dp\<lparr>pd_up := Some e\<rparr> = dp"
  by (cases dp) simp

lemma looked_list_I: "looked dp ep ep' \<Longrightarrow> \<exists>E. ep' = ep\<lparr>es_estimate := E\<rparr> \<and> looked dp ep (ep\<lparr>es_estimate := E\<rparr>)"
proof -
  assume "looked dp ep ep'"
  then obtain E where "ep' = ep\<lparr>es_estimate := E\<rparr>" "looked_list dp ep (es_estimate ep) E" unfolding looked_def by blast
  then show ?thesis unfolding looked_estimate by blast
qed

lemma touched_blocks:
  assumes "touched s s'" "d \<in> set (pl_schedq s)"
  obtains E v where "looked (pl_disks s d) (est s d) ((est s d)\<lparr>es_estimate := E\<rparr>)"
    "pl_disks s' d = (pl_disks s d)\<lparr>pd_up := Some ((est s d)\<lparr>es_estimate := E, es_promote := v\<rparr>)\<rparr>"
  using assms unfolding touched_def by blast

lemma find_level_cong: "map oe_level xs = map oe_level ys \<Longrightarrow> find_level lev b xs = find_level lev b ys"
proof -
  assume l: "map oe_level xs = map oe_level ys"
  from map_eq_imp_length_eq [OF l] l show ?thesis by (induction xs ys arbitrary: b rule: list_induct2) simp_all
qed

lemma looked_level:
  assumes "looked dp ep (ep\<lparr>es_estimate := E\<rparr>)"
  shows "(case est_for_level dp lev (ep\<lparr>es_estimate := E\<rparr>) of (p, e) \<Rightarrow> est_at e p) = (case est_for_level dp lev ep of (p, e) \<Rightarrow> est_at e p)"
proof -
  have nth: "length E = length (es_estimate ep)"
    "i < length E \<Longrightarrow> E ! i = es_estimate ep ! i \<or> oe_csize (es_estimate ep ! i) \<le> - 1 \<and> E ! i = est_csize dp ep (es_estimate ep ! i)" for i
    using assms by (auto simp: looked_estimate looked_list_def list_all2_conv_all_nth)
  have "map oe_level E = map oe_level (es_estimate ep)" using looked_fields(3) [OF assms] by simp
  then have f: "find_level lev 0 E = find_level lev 0 (es_estimate ep)" by (rule find_level_cong)
  show ?thesis
  proof (cases "find_level lev 0 (es_estimate ep)")
    case (Some i)
    have i: "i < length (es_estimate ep)" using find_level_Some [OF Some] by simp
    then show ?thesis using nth(2) [of i] nth(1) f Some by (auto simp: est_for_level_def est_at_def)
  qed (simp add: est_for_level_def f est_at_def)
qed

lemma est_csize_promote_E [simp]: "est_csize dp (ep\<lparr>es_estimate := E, es_promote := v\<rparr>) oe = est_csize dp ep oe"
  by (simp add: est_csize_def)

lemma est_for_level_promote:
  "est_for_level dp lev (ep\<lparr>es_promote := v\<rparr>) = (case est_for_level dp lev ep of (p, ep) \<Rightarrow> (p, ep\<lparr>es_promote := v\<rparr>))"
  by (auto simp: est_for_level_def split: option.splits)

lemma est_at_promote [simp]: "est_at (ep\<lparr>es_promote := v\<rparr>) p = est_at ep p"
  by (simp add: est_at_def split: est_ptr.splits)

lemma est_for_level_up [simp]: "est_for_level (dp\<lparr>pd_up := u\<rparr>) lev ep = est_for_level dp lev ep"
  by (simp add: est_for_level_def split: option.splits)

lemma touched_same:
  assumes "touched s s'" "plan_ok s" "d \<in> set (pl_schedq s)"
  shows "dump_est s' d = dump_est s d" "es_next_level0 (est s' d) = es_next_level0 (est s d)" "lev0_est s' d = lev0_est s d"
    "(pl_disks s' d)\<lparr>pd_up := None\<rparr> = (pl_disks s d)\<lparr>pd_up := None\<rparr>" "pd_up (pl_disks s' d) \<noteq> None"
    "est_wf (pl_disks s' d) (est s' d)"
proof -
  have wf: "est_wf (pl_disks s d) (est s d)" using assms(2,3) by (simp add: plan_ok_def wf_on_def)
  obtain E v where l: "looked (pl_disks s d) (est s d) ((est s d)\<lparr>es_estimate := E\<rparr>)"
    and d: "pl_disks s' d = (pl_disks s d)\<lparr>pd_up := Some ((est s d)\<lparr>es_estimate := E, es_promote := v\<rparr>)\<rparr>"
    by (rule touched_blocks [OF assms(1,3)])
  note w = looked_wf [OF l wf]
  show "dump_est s' d = dump_est s d" using w(4) by (simp add: dump_est_def d)
  show "es_next_level0 (est s' d) = es_next_level0 (est s d)" by (simp add: d)
  show "lev0_est s' d = lev0_est s d"
    using looked_level [OF l, of 0]
    unfolding lev0_est_def by (simp add: d est_for_level_promote split: prod.splits)
  show "(pl_disks s' d)\<lparr>pd_up := None\<rparr> = (pl_disks s d)\<lparr>pd_up := None\<rparr>" "pd_up (pl_disks s' d) \<noteq> None" by (simp_all add: d)
  show "est_wf (pl_disks s' d) (est s' d)" using w(1) by (simp add: d est_wf_def)
qed

lemma touched_refl: "plan_ok s \<Longrightarrow> touched s s"
proof -
  assume ok: "plan_ok s"
  have "\<exists>E v. looked (pl_disks s d) (est s d) ((est s d)\<lparr>es_estimate := E\<rparr>) \<and>
        pl_disks s d = (pl_disks s d)\<lparr>pd_up := Some ((est s d)\<lparr>es_estimate := E, es_promote := v\<rparr>)\<rparr>"
    if "d \<in> set (pl_schedq s)" for d
  proof (intro exI conjI)
    show "looked (pl_disks s d) (est s d) ((est s d)\<lparr>es_estimate := es_estimate (est s d)\<rparr>)" by simp
    have "pd_up (pl_disks s d) = Some (est s d)" using ok that by (auto simp: plan_ok_def wf_on_def)
    then show "pl_disks s d = (pl_disks s d)\<lparr>pd_up := Some ((est s d)\<lparr>es_estimate := es_estimate (est s d), es_promote := es_promote (est s d)\<rparr>)\<rparr>"
by (simp add: up_same)
  qed
  then show ?thesis unfolding touched_def by (intro conjI refl ballI)
qed

lemma touched_trans:
  assumes "touched s s1" "touched s1 s2" "plan_ok s"
  shows "touched s s2"
proof -
  have "\<exists>E v. looked (pl_disks s d) (est s d) ((est s d)\<lparr>es_estimate := E\<rparr>) \<and>
        pl_disks s2 d = (pl_disks s d)\<lparr>pd_up := Some ((est s d)\<lparr>es_estimate := E, es_promote := v\<rparr>)\<rparr>"
    if d: "d \<in> set (pl_schedq s)" for d
  proof -
    obtain E v where 1: "looked (pl_disks s d) (est s d) ((est s d)\<lparr>es_estimate := E\<rparr>)"
      "pl_disks s1 d = (pl_disks s d)\<lparr>pd_up := Some ((est s d)\<lparr>es_estimate := E, es_promote := v\<rparr>)\<rparr>"
      by (rule touched_blocks [OF assms(1) d])
    have "d \<in> set (pl_schedq s1)" using assms(1) d by (simp add: touched_def)
    then obtain E2 v2 where 2: "looked (pl_disks s1 d) (est s1 d) ((est s1 d)\<lparr>es_estimate := E2\<rparr>)"
      "pl_disks s2 d = (pl_disks s1 d)\<lparr>pd_up := Some ((est s1 d)\<lparr>es_estimate := E2, es_promote := v2\<rparr>)\<rparr>"
      by (rule touched_blocks [OF assms(2)])
    have e1: "est s1 d = ((est s d)\<lparr>es_estimate := E\<rparr>)\<lparr>es_promote := v\<rparr>" by (simp add: 1(2))
    have "looked (pl_disks s d) (((est s d)\<lparr>es_estimate := E\<rparr>)\<lparr>es_promote := v\<rparr>) ((est s1 d)\<lparr>es_estimate := E2\<rparr>)"
      using 2(1) by (simp add: 1(2))
    from looked_promote [OF this] obtain E3 where 3:
      "(est s1 d)\<lparr>es_estimate := E2\<rparr> = ((est s d)\<lparr>es_estimate := E\<rparr>)\<lparr>es_estimate := E3, es_promote := v\<rparr>"
      "looked (pl_disks s d) ((est s d)\<lparr>es_estimate := E\<rparr>) (((est s d)\<lparr>es_estimate := E\<rparr>)\<lparr>es_estimate := E3\<rparr>)" by blast
    have "looked (pl_disks s d) (est s d) ((est s d)\<lparr>es_estimate := E3\<rparr>)" using looked_trans [OF 1(1) 3(2)] by simp
    moreover have "pl_disks s2 d = (pl_disks s d)\<lparr>pd_up := Some ((est s d)\<lparr>es_estimate := E3, es_promote := v2\<rparr>)\<rparr>"
      unfolding 2(2) 3(1) by (simp add: 1(2))
    ultimately show ?thesis by blast
  qed
  then show ?thesis using assms(1,2) unfolding touched_def by (intro conjI ballI) simp_all
qed

lemma touched_plan:
  assumes "touched s s'" "plan_ok s"
  shows "plan_ok s'" "space_needed s' = space_needed s" "lev0_est s' d = lev0_est s d \<or> d \<notin> set (pl_schedq s)"
proof -
  have q: "pl_schedq s' = pl_schedq s" "pl_conf s' = pl_conf s" using assms(1) by (simp_all add: touched_def)
  show "plan_ok s'" using touched_same(5,6) [OF assms] assms(2) by (simp add: plan_ok_def wf_on_def q)
  show "space_needed s' = space_needed s" by (rule space_needed_cong [OF q(2,1) touched_same(1) [OF assms]])
  show "lev0_est s' d = lev0_est s d \<or> d \<notin> set (pl_schedq s)" using touched_same(3) [OF assms] by blast
qed

text \<open>One block looked at, with a promotion value written.\<close>

lemma touch:
  assumes "plan_ok s" "d \<in> set (pl_schedq s)" "looked (pl_disks s d) (est s d) ep"
  shows "touched s (set_up d (ep\<lparr>es_promote := v\<rparr>) s)"
proof -
  from looked_list_I [OF assms(3)] obtain E where E: "ep = (est s d)\<lparr>es_estimate := E\<rparr>"
    "looked (pl_disks s d) (est s d) ((est s d)\<lparr>es_estimate := E\<rparr>)" by blast
  have ex: "\<exists>E v. looked (pl_disks s d1) (est s d1) ((est s d1)\<lparr>es_estimate := E\<rparr>) \<and>
        pl_disks (set_up d (ep\<lparr>es_promote := v0\<rparr>) s) d1 = (pl_disks s d1)\<lparr>pd_up := Some ((est s d1)\<lparr>es_estimate := E, es_promote := v\<rparr>)\<rparr>"
    if d1: "d1 \<in> set (pl_schedq s)" for d1 v0
  proof (cases "d1 = d")
    case True
    show ?thesis unfolding True by (intro exI conjI) (rule E(2), simp add: set_up_def E(1))
  next
    case False
    then have same: "pl_disks (set_up d (ep\<lparr>es_promote := v0\<rparr>) s) d1 = pl_disks s d1" by (simp add: set_up_def)
    show ?thesis unfolding same using touched_refl [OF assms(1)] d1 unfolding touched_def by blast
  qed
  show ?thesis unfolding touched_def by (intro conjI ballI ex) (simp_all add: set_up_def)
qed

lemma promote_same: "ep\<lparr>es_promote := es_promote ep\<rparr> = ep"
  by simp

lemma touch_look: "plan_ok s \<Longrightarrow> d \<in> set (pl_schedq s) \<Longrightarrow> looked (pl_disks s d) (est s d) ep \<Longrightarrow> touched s (set_up d ep s)"
  using touch [of s d ep "es_promote ep"] by simp

lemma est_set_up [simp]: "est (set_up d ep s) d = ep" "pl_conf (set_up d ep s) = pl_conf s"
  "pl_schedq (set_up d ep s) = pl_schedq s" "d1 \<noteq> d \<Longrightarrow> pl_disks (set_up d ep s) d1 = pl_disks s d1"
  "pl_total_size (set_up d ep s) = pl_total_size s" "pl_total_lev0 (set_up d ep s) = pl_total_lev0 s"
  "pl_disks (set_up d ep s) d = (pl_disks s d)\<lparr>pd_up := Some ep\<rparr>"
  by (simp_all add: set_up_def)

lemma level0_found:
  assumes "est_for_level (pl_disks s d) 0 (est s d) = (p, ep)"
  shows "est_at ep p = lev0_est s d" "pointer_ok (pl_disks s d) ep p" "looked (pl_disks s d) (est s d) ep"
  using got_level [of "pl_disks s d" "est s d" 0] by (simp_all add: assms got_def lev0_est_def)

text \<open>A disk that may be promoted: its full dump has an estimate, and the total stays within the tapes.\<close>

definition promotable :: "planner \<Rightarrow> nat \<Rightarrow> bool" where
  "promotable s d \<longleftrightarrow>
     d \<in> set (pl_schedq s) \<and> oe_nsize (lev0_est s d) > 0 \<and> es_next_level0 (est s d) > 0 \<and>
     promoted_total s d (lev0_est s d) \<le> pc_tape_length (pl_conf s)"

lemma promotable_touched:
  assumes "touched s s'" "plan_ok s"
  shows "promotable s' d = promotable s d"
proof (cases "d \<in> set (pl_schedq s)")
  case True
  note t = touched_same(1-3) [OF assms True]
  have "pl_schedq s' = pl_schedq s" "pl_conf s' = pl_conf s" "pl_total_size s' = pl_total_size s"
    using assms(1) by (simp_all add: touched_def)
  then show ?thesis by (simp add: promotable_def promoted_total_def t)
qed (use assms(1) in \<open>auto simp: promotable_def touched_def\<close>)

lemma promotion_value_promotable:
  "promotion_value s d (lev0_est s d) = Some v \<Longrightarrow> d \<in> set (pl_schedq s) \<Longrightarrow> promotable s d"
  by (auto simp: promotion_value_def promotable_def Let_def split: if_splits)

lemma promote_loop_touches:
  assumes "promote_loop ds (best, s) = (best', s')" "plan_ok s" "set ds \<subseteq> set (pl_schedq s)" "\<forall>b. best = Some b \<longrightarrow> promotable s b"
  shows "touched s s' \<and> (\<forall>b. best' = Some b \<longrightarrow> promotable s' b)"
  using assms
proof (induction ds "(best, s)" arbitrary: best s rule: promote_loop.induct)
  case (1 best s)
  then show ?case using touched_refl [of s] by simp
next
  case (2 d ds best s)
  have d: "d \<in> set (pl_schedq s)" "set ds \<subseteq> set (pl_schedq s)" using "2.prems"(3) by simp_all
  obtain p ep where f: "est_for_level (pl_disks s d) 0 (est s d) = (p, ep)" by force
  note l = level0_found [OF f]
  define s1 where "s1 = set_up d (ep\<lparr>es_promote := - 1000\<rparr>) s"
  have t1: "touched s s1" unfolding s1_def by (rule touch [OF "2.prems"(2) d(1) l(3)])
  have ok1: "plan_ok s1" by (rule touched_plan(1) [OF t1 "2.prems"(2)])
  have q1: "pl_schedq s1 = pl_schedq s" by (simp add: s1_def)
  have e1: "est_at (est s1 d) p = lev0_est s1 d"
    using touched_same(3) [OF t1 "2.prems"(2) d(1)] l(1) by (simp add: s1_def)
  have step: "(case promotion_value s1 d (est_at (est s1 d) p) of
        None \<Rightarrow> promote_loop ds (best, s1)
      | Some v \<Rightarrow> promote_loop ds (if (case best of None \<Rightarrow> True
          | Some b \<Rightarrow> es_promote (est (set_up d ((est s1 d)\<lparr>es_promote := v\<rparr>) s1) b) < v) then Some d else best,
          set_up d ((est s1 d)\<lparr>es_promote := v\<rparr>) s1)) = (best', s')"
    using "2.prems"(1) by (simp only: promote_loop.simps f prod.case s1_def Let_def)
  show ?case
  proof (cases "promotion_value s1 d (est_at (est s1 d) p)")
    case None
    have run: "promote_loop ds (best, s1) = (best', s')" using step None by simp
    have b: "\<forall>b. best = Some b \<longrightarrow> promotable s1 b" using "2.prems"(4) by (simp add: promotable_touched [OF t1 "2.prems"(2)])
    from "2.hyps"(1) [OF f [symmetric] s1_def None run ok1 _ b] d(2) q1
    have "touched s1 s' \<and> (\<forall>b. best' = Some b \<longrightarrow> promotable s' b)" by simp
    then show ?thesis using touched_trans [OF t1 _ "2.prems"(2)] by blast
  next
    case (Some v)
    define s2 where "s2 = set_up d ((est s1 d)\<lparr>es_promote := v\<rparr>) s1"
    have d1: "d \<in> set (pl_schedq s1)" using d(1) q1 by simp
    have t12: "touched s1 s2" unfolding s2_def by (rule touch [OF ok1 d1]) simp
    have t2: "touched s s2" by (rule touched_trans [OF t1 t12 "2.prems"(2)])
    have ok2: "plan_ok s2" by (rule touched_plan(1) [OF t2 "2.prems"(2)])
    have q2: "pl_schedq s2 = pl_schedq s" by (simp add: s2_def q1)
    define best2 where "best2 = (if (case best of None \<Rightarrow> True | Some b \<Rightarrow> es_promote (est s2 b) < v) then Some d else best)"
    have run: "promote_loop ds (best2, s2) = (best', s')" using step Some by (simp only: s2_def best2_def option.case)
    have "promotable s1 d" using Some e1 d1 by (simp add: promotion_value_promotable)
    then have b: "\<forall>b. best2 = Some b \<longrightarrow> promotable s2 b"
      using "2.prems"(4) promotable_touched [OF t2 "2.prems"(2)] promotable_touched [OF t12 ok1]
      by (auto simp: best2_def split: if_splits)
    from "2.hyps"(2) [OF f [symmetric] s1_def Some s2_def run [unfolded best2_def] ok2 _ b [unfolded best2_def]] d(2) q2
    have "touched s2 s' \<and> (\<forall>b. best' = Some b \<longrightarrow> promotable s' b)" by simp
    then show ?thesis using touched_trans [OF t2 _ "2.prems"(2)] by blast
  qed
qed

end
