(* ===== verification/Planner_Ends.thy ===== *)
theory Planner_Ends
  imports Planner_Promote
begin

text \<open>
  The promotions as a whole: each keeps the books and makes one more dump a full one, so they end.
\<close>

section \<open>One disk made a full dump\<close>

lemma sum_change:
  "distinct ds \<Longrightarrow> d \<in> set ds \<Longrightarrow> (\<And>x. x \<in> set ds \<Longrightarrow> x \<noteq> d \<Longrightarrow> f x = g x) \<Longrightarrow>
     sum_list (map f ds) = sum_list (map g ds) - g d + (f d :: int)"
proof (induction ds)
  case (Cons x ds)
  show ?case
  proof (cases "x = d")
    case True
    then have "map f ds = map g ds" using Cons.prems by auto
    then have "sum_list (map f ds) = sum_list (map g ds)" by (rule arg_cong)
    then show ?thesis using True by simp
  qed (use Cons in auto)
qed simp

lemma make_full_books:
  assumes "booked s" "d \<in> set (pl_schedq s)" "pointer_ok (pl_disks s d) (est s d) p"
    and s'_def: "s' = make_full d p (s\<lparr>pl_total_size := promoted_total s d (est_at (est s d) p), pl_total_lev0 := v\<rparr>)"
  shows "booked s'" "pl_schedq s' = pl_schedq s" "pl_conf s' = pl_conf s"
    "pl_total_size s' = promoted_total s d (est_at (est s d) p)"
    "dump_est s' d = est_at (est s d) p" "d1 \<noteq> d \<Longrightarrow> dump_est s' d1 = dump_est s d1"
    "es_next_level0 (est s' d) = 0" "d1 \<noteq> d \<Longrightarrow> est s' d1 = est s d1"
proof -
  let ?ep = "(est s d)\<lparr>es_degr_est := es_dump_est (est s d), es_dump_est := p, es_next_level0 := 0\<rparr>"
  have ok: "distinct (pl_schedq s)" "wf_on (set (pl_schedq s)) s" "pl_total_size s = space_needed s"
    using assms(1) by (simp_all add: booked_def plan_ok_def)
  have f: "pl_schedq s' = pl_schedq s" "pl_conf s' = pl_conf s" "pl_total_size s' = promoted_total s d (est_at (est s d) p)"
    "pl_disks s' d = (pl_disks s d)\<lparr>pd_up := Some ?ep\<rparr>" "d1 \<noteq> d \<Longrightarrow> pl_disks s' d1 = pl_disks s d1" for d1
    by (simp_all add: s'_def make_full_def set_up_def)
  show "pl_schedq s' = pl_schedq s" "pl_conf s' = pl_conf s" "pl_total_size s' = promoted_total s d (est_at (est s d) p)"
    by (fact f)+
  have at: "est_at (ep\<lparr>es_next_level0 := n\<rparr>) q = est_at ep q" for ep n q by (simp add: est_at_def split: est_ptr.splits)
  show e: "dump_est s' d = est_at (est s d) p" by (simp add: dump_est_def f(4) at)
  show o: "dump_est s' d1 = dump_est s d1" if "d1 \<noteq> d" for d1 using f(5) [OF that] by (simp add: dump_est_def)
  show "es_next_level0 (est s' d) = 0" "d1 \<noteq> d \<Longrightarrow> est s' d1 = est s d1" by (simp_all add: f(4,5))
  have wf: "est_wf (pl_disks s d) (est s d)" using ok(2) assms(2) by (simp add: wf_on_def)
  have "est_wf ((pl_disks s d)\<lparr>pd_up := Some ?ep\<rparr>) ?ep" using wf assms(3) by (simp add: est_wf_def)
  then have "pd_up (pl_disks s' d1) \<noteq> None \<and> est_wf (pl_disks s' d1) (est s' d1)" if "d1 \<in> set (pl_schedq s)" for d1
    using ok(2) that f(4) f(5) [of d1] by (cases "d1 = d") (auto simp: wf_on_def)
  then have "plan_ok s'" using ok(1) by (simp add: plan_ok_def wf_on_def f)
  moreover have "space_needed s' = space_needed s - oe_csize (dump_est s d) + oe_csize (est_at (est s d) p)"
  proof -
    have "sum_list (map (use_of s') (pl_schedq s)) = sum_list (map (use_of s) (pl_schedq s)) - use_of s d + use_of s' d"
      by (rule sum_change [OF ok(1) assms(2)]) (simp add: use_of_def f o)
    then show ?thesis by (simp add: space_needed_def f use_of_def e tape_use_def)
  qed
  ultimately show "booked s'" by (simp add: booked_def f ok(3) promoted_total_def)
qed

section \<open>What promotions do to a plan\<close>

text \<open>The dumps are those of before, or full dumps with an estimate; a total that changes stays within the tapes.\<close>

definition promoted :: "planner \<Rightarrow> planner \<Rightarrow> bool" where
  "promoted s s' \<longleftrightarrow>
     booked s' \<and> pl_schedq s' = pl_schedq s \<and> pl_conf s' = pl_conf s \<and>
     (pl_total_size s' = pl_total_size s \<or> pl_total_size s' \<le> pc_tape_length (pl_conf s)) \<and>
     (\<forall>d \<in> set (pl_schedq s). dump_est s' d = dump_est s d \<or> oe_level (dump_est s' d) = 0 \<and> oe_nsize (dump_est s' d) > 0)"

lemma promoted_refl: "booked s \<Longrightarrow> promoted s s"
  by (simp add: promoted_def)

lemma promoted_trans: "promoted s s1 \<Longrightarrow> promoted s1 s2 \<Longrightarrow> promoted s s2"
  unfolding promoted_def by (auto; metis)

lemma promoted_touched: "booked s \<Longrightarrow> touched s s' \<Longrightarrow> promoted s s'"
proof -
  assume b: "booked s" and t: "touched s s'"
  have ok: "plan_ok s" "pl_total_size s = space_needed s" using b by (simp_all add: booked_def)
  have q: "pl_schedq s' = pl_schedq s" "pl_conf s' = pl_conf s" "pl_total_size s' = pl_total_size s" using t by (simp_all add: touched_def)
  have "booked s'" using touched_plan(1,2) [OF t ok(1)] ok(2) q(3) by (simp add: booked_def)
  then show ?thesis using touched_same(1) [OF t ok(1)] q by (simp add: promoted_def)
qed

lemma promoted_full:
  assumes "booked s" "d \<in> set (pl_schedq s)" "pointer_ok (pl_disks s d) (est s d) p"
    and "oe_nsize (est_at (est s d) p) > 0" "oe_level (est_at (est s d) p) = 0"
    and "promoted_total s d (est_at (est s d) p) \<le> pc_tape_length (pl_conf s)"
  shows "promoted s (make_full d p (s\<lparr>pl_total_size := promoted_total s d (est_at (est s d) p), pl_total_lev0 := v\<rparr>))"
  using make_full_books [OF assms(1-3) refl, where v = v] assms(4-6) unfolding promoted_def by metis

lemma level0_full:
  assumes "est_for_level dp 0 ep = (p, ep')" "oe_nsize (est_at ep' p) > 0"
  shows "oe_level (est_at ep' p) = 0"
  using est_for_level_looked(3) [OF assms(1)] assms(2) by (auto simp: est_at_def default_one_est_def)

text \<open>The disks that are left to be promoted.\<close>

definition later_fulls :: "planner \<Rightarrow> nat" where
  "later_fulls s = length (filter (\<lambda>d. es_next_level0 (est s d) > 0) (pl_schedq s))"

lemma filter_le: "(\<And>x. x \<in> set xs \<Longrightarrow> P x \<Longrightarrow> Q x) \<Longrightarrow> length (filter P xs) \<le> length (filter Q xs)"
  by (induction xs) (auto simp: le_SucI)

lemma filter_less: "(\<And>x. x \<in> set xs \<Longrightarrow> P x \<Longrightarrow> Q x) \<Longrightarrow> d \<in> set xs \<Longrightarrow> Q d \<Longrightarrow> \<not> P d \<Longrightarrow> length (filter P xs) < length (filter Q xs)"
proof (induction xs)
  case (Cons x xs)
  have le: "length (filter P xs) \<le> length (filter Q xs)" using Cons.prems(1) by (intro filter_le) simp
  show ?case
  proof (cases "x = d")
    case True
    then show ?thesis using Cons.prems(3,4) le by simp
  qed (use Cons in auto)
qed simp

lemma promote_step:
  assumes "promote_highest_priority_incremental s = (moved, s')" "booked s"
  shows "promoted s s'" "moved \<Longrightarrow> later_fulls s' < later_fulls s"
proof -
  have ok: "plan_ok s" using assms(2) by (simp add: booked_def)
  obtain best s1 where loop: "promote_loop (pl_schedq s) (None, s) = (best, s1)" by force
  have t: "touched s s1" "\<forall>b. best = Some b \<longrightarrow> promotable s1 b" using promote_loop_touches [OF loop ok] by simp_all
  have "promoted s s' \<and> (moved \<longrightarrow> later_fulls s' < later_fulls s)"
  proof (cases best)
    case None
    then have "s' = s1" "\<not> moved" using assms(1) by (simp_all add: promote_highest_priority_incremental_def loop)
    then show ?thesis using promoted_touched [OF assms(2) t(1)] by simp
  next
    case (Some d)
    obtain p ep where f: "est_for_level (pl_disks s1 d) 0 (est s1 d) = (p, ep)" by force
    note l = level0_found [OF f]
    define s2 where "s2 = set_up d ep s1"
    define v where "v = fl (of_int (trunc (pl_total_lev0 s2) + oe_csize (est_at ep p)))"
    have pr: "promotable s1 d" using t(2) Some by simp
    then have d: "d \<in> set (pl_schedq s1)" by (simp add: promotable_def)
    have ok1: "plan_ok s1" by (rule touched_plan(1) [OF t(1) ok])
    have t12: "touched s1 s2" unfolding s2_def by (rule touch_look [OF ok1 d l(3)])
    have t2: "touched s s2" by (rule touched_trans [OF t(1) t12 ok])
    have e2: "est s2 d = ep" "lev0_est s2 d = est_at ep p" using touched_same(3) [OF t12 ok1 d] l(1) by (simp_all add: s2_def)
    have pr2: "promotable s2 d" using pr promotable_touched [OF t12 ok1] by simp
    have b2: "booked s2" using promoted_touched [OF assms(2) t2] by (simp add: promoted_def)
    have ptr: "pointer_ok (pl_disks s2 d) (est s2 d) p" using l(2) by (simp add: s2_def)
    have t0: "pl_total_lev0 s2 = pl_total_lev0 s1" by (simp add: s2_def)
    have run: "s' = make_full d p (s2\<lparr>pl_total_size := promoted_total s2 d (est_at (est s2 d) p), pl_total_lev0 := v\<rparr>)" and moved
      using assms(1) by (simp_all add: promote_highest_priority_incremental_def loop Some f s2_def [symmetric] Let_def e2(1) v_def t0)
    have n: "oe_nsize (est_at (est s2 d) p) > 0" "promoted_total s2 d (est_at (est s2 d) p) \<le> pc_tape_length (pl_conf s2)"
      using pr2 unfolding promotable_def e2 by simp_all
    have d2: "d \<in> set (pl_schedq s2)" using pr2 by (simp add: promotable_def)
    have lev: "oe_level (est_at (est s2 d) p) = 0" using level0_full [OF f] n(1) unfolding e2(1) by blast
    have "promoted s2 s'" unfolding run by (rule promoted_full [OF b2 d2 ptr n(1) lev n(2)])
    then have "promoted s s'" using promoted_trans [OF promoted_touched [OF assms(2) t2]] by blast
    moreover have "later_fulls s' < later_fulls s"
    proof -
      note m = make_full_books [OF b2 d2 ptr run]
      have q: "pl_schedq s' = pl_schedq s" using m(2) t2 by (simp add: touched_def)
      have ds: "d \<in> set (pl_schedq s)" using d2 t2 by (simp add: touched_def)
      have level0: "es_next_level0 (est s2 x) = es_next_level0 (est s x)" if "x \<in> set (pl_schedq s)" for x
        by (rule touched_same(2) [OF t2 ok that])
      show ?thesis unfolding later_fulls_def q
      proof (rule filter_less [of _ _ _ d])
        show "d \<in> set (pl_schedq s)" by (fact ds)
        show "es_next_level0 (est s d) > 0" using pr2 level0 [OF ds] by (simp add: promotable_def)
        show "\<not> es_next_level0 (est s' d) > 0" by (simp add: m(7))
        show "es_next_level0 (est s x) > 0" if "x \<in> set (pl_schedq s)" "es_next_level0 (est s' x) > 0" for x
          using that m(7) m(8) [of x] level0 [OF that(1)] by (cases "x = d") simp_all
      qed
    qed
    ultimately show ?thesis by blast
  qed
  then show "promoted s s'" "moved \<Longrightarrow> later_fulls s' < later_fulls s" by blast+
qed

lemma promote_while_ends: "booked s \<Longrightarrow> \<exists>s'. promote_while s = Some s' \<and> promoted s s'"
proof (induction "later_fulls s" arbitrary: s rule: less_induct)
  case less
  obtain moved s1 where p: "promote_highest_priority_incremental s = (moved, s1)" by force
  note step = promote_step [OF p less.prems]
  show ?case
  proof (cases "fl (pl_balanced_size s - pl_total_lev0 s) > pl_balance_threshold s \<and> moved")
    case True
    have "booked s1" using step(1) by (simp add: promoted_def)
    with less.hyps [OF step(2)] True obtain s' where "promote_while s1 = Some s'" "promoted s1 s'" by blast
    then show ?thesis using True promoted_trans [OF step(1)] by (subst promote_while.simps) (auto simp: p)
  next
    case False
    then show ?thesis using step(1) promoted_refl [OF less.prems] by (subst promote_while.simps) (auto simp: p)
  qed
qed

section \<open>Hills\<close>

lemma hill_disk_touches:
  assumes "hill_disk h ds s = (r, s')" "plan_ok s" "set ds \<subseteq> set (pl_schedq s)"
  shows "touched s s' \<and> (\<forall>d p. r = Some (d, p) \<longrightarrow> d \<in> set (pl_schedq s') \<and> pointer_ok (pl_disks s' d) (est s' d) p \<and>
    oe_nsize (est_at (est s' d) p) > 0 \<and> oe_level (est_at (est s' d) p) = 0 \<and>
    promoted_total s' d (est_at (est s' d) p) \<le> pc_tape_length (pl_conf s'))"
  using assms
proof (induction h ds s rule: hill_disk.induct)
  case (1 h s)
  then show ?case using touched_refl [of s] by simp
next
  case (2 h d ds s)
  let ?skip = "es_next_level0 (est s d) \<noteq> h \<or> es_next_level0 (est s d) > pd_maxpromoteday (pl_disks s d) \<or> \<not> in_balance (pl_disks s d)"
  show ?case
  proof (cases ?skip)
    case True
    then have "hill_disk h ds s = (r, s')" using "2.prems"(1) by auto
    from "2.IH"(1) [OF True this] "2.prems"(2,3) show ?thesis by simp
  next
    case False
    have d: "d \<in> set (pl_schedq s)" "set ds \<subseteq> set (pl_schedq s)" using "2.prems"(3) by simp_all
    obtain p ep where f: "est_for_level (pl_disks s d) 0 (est s d) = (p, ep)" by force
    note l = level0_found [OF f]
    define s1 where "s1 = set_up d ep s"
    have t1: "touched s s1" unfolding s1_def by (rule touch_look [OF "2.prems"(2) d(1) l(3)])
    have ok1: "plan_ok s1" by (rule touched_plan(1) [OF t1 "2.prems"(2)])
    have q1: "pl_schedq s1 = pl_schedq s" "est s1 d = ep" by (simp_all add: s1_def)
    show ?thesis
    proof (cases "oe_nsize (est_at ep p) \<le> 0 \<or> promoted_total s1 d (est_at ep p) > pc_tape_length (pl_conf s1)")
      case True
      then have run: "hill_disk h ds s1 = (r, s')" using "2.prems"(1) False by (auto simp: f s1_def)
      have sub: "set ds \<subseteq> set (pl_schedq s1)" using d(2) q1(1) by simp
      from "2.IH"(2) [OF False f [symmetric] s1_def True run ok1 sub] show ?thesis
        using touched_trans [OF t1 _ "2.prems"(2)] by blast
    next
      case fits: False
      then have r: "r = Some (d, p)" "s' = s1" using "2.prems"(1) False by (auto simp: f s1_def)
      have "pointer_ok (pl_disks s1 d) ep p" using l(2) by (simp add: s1_def)
      then show ?thesis using r t1 d(1) q1 fits level0_full [OF f] by simp
    qed
  qed
qed

lemma cut_hills_promotes: "cut_hills sp s = (moved, s') \<Longrightarrow> booked s \<Longrightarrow> promoted s s'"
proof (induction sp s arbitrary: moved s' rule: cut_hills.induct)
  case (1 sp s)
  obtain hill_size hill_days where t: "tallest 0 sp (0, 0) = (hill_size, hill_days)" by force
  have ok: "plan_ok s" using "1.prems"(2) by (simp add: booked_def)
  show ?case
  proof (cases "hill_size \<le> 0")
    case True
    then show ?thesis using "1.prems" promoted_refl [OF "1.prems"(2)] by (simp add: cut_hills.simps [of sp s] t)
  next
    case False
    obtain r s1 where h: "hill_disk (int hill_days) (pl_schedq s) s = (r, s1)" by force
    note ht = hill_disk_touches [OF h ok subset_refl]
    have ps: "promoted s s1" by (rule promoted_touched [OF "1.prems"(2)]) (use ht in blast)
    have b1: "booked s1" using ps by (simp add: promoted_def)
    show ?thesis
    proof (cases r)
      case None
      have "cut_hills (sp[hill_days := (0, snd (sp ! hill_days))]) s1 = (moved, s')"
        using "1.prems"(1) False None by (simp add: cut_hills.simps [of sp s] t h)
      from "1.IH" [OF t [symmetric] False h [symmetric] None this b1] show ?thesis by (rule promoted_trans [OF ps])
    next
      case (Some dp)
      obtain d p where dp: "dp = (d, p)" by force
      have g: "d \<in> set (pl_schedq s1)" "pointer_ok (pl_disks s1 d) (est s1 d) p" "oe_nsize (est_at (est s1 d) p) > 0"
        "oe_level (est_at (est s1 d) p) = 0" "promoted_total s1 d (est_at (est s1 d) p) \<le> pc_tape_length (pl_conf s1)"
        using ht Some dp by simp_all
      have "s' = make_full d p (s1\<lparr>pl_total_size := promoted_total s1 d (est_at (est s1 d) p),
          pl_total_lev0 := fl (pl_total_lev0 s1 + fl (of_int (oe_csize (est_at (est s1 d) p))))\<rparr>)"
        using "1.prems"(1) False Some dp by (simp add: cut_hills.simps [of sp s] t h)
      then show ?thesis using promoted_trans [OF ps promoted_full [OF b1 g]] by simp
    qed
  qed
qed

lemma promote_dumps_promotes:
  assumes "booked s"
  shows "\<exists>s'. promote_dumps s = Some s' \<and> promoted s s'"
proof -
  define b where "b = fl (pl_balanced_size s * fl (5 / 100))"
  let ?s0 = "s\<lparr>pl_balance_threshold := b\<rparr>"
  have est: "dump_est ?s0 d = dump_est s d" for d by (simp add: dump_est_def)
  have b0: "booked ?s0" and p0: "promoted s ?s0"
  proof -
    have "space_needed ?s0 = space_needed s" by (rule space_needed_cong) (simp_all add: est)
    then show "booked ?s0" using assms by (simp add: booked_def plan_ok_def wf_on_def)
    then show "promoted s ?s0" by (simp add: promoted_def est)
  qed
  obtain s1 where 1: "promote_while ?s0 = Some s1" "promoted ?s0 s1" using promote_while_ends [OF b0] by blast
  obtain moved s2 where 2: "promote_hills s1 = (moved, s2)" by force
  have "booked s1" using 1(2) by (simp add: promoted_def)
  then have "promoted s1 s2"
    using 2 cut_hills_promotes promoted_refl by (auto simp: promote_hills_def Let_def split: if_splits)
  then have "promoted s s2" using promoted_trans [OF p0 promoted_trans [OF 1(2)]] by blast
  then show ?thesis using 1(1) 2 unfolding promote_dumps_def b_def by auto
qed

text \<open>C31: the promotions come to an end, whatever the plan is. The schedule holds the same disks, the total the
  planner keeps is still the space the scheduled dumps need, and when the promotions change it the dumps
  fit on the tapes; each dump is the one it was, or a full dump that has an estimate.\<close>

theorem promote_dumps_ends:
  assumes "plan_ok s" and "pl_total_size s = space_needed s"
  shows "\<exists>s'. promote_dumps s = Some s' \<and> pl_schedq s' = pl_schedq s \<and> pl_total_size s' = space_needed s' \<and>
    (pl_total_size s' = pl_total_size s \<or> pl_total_size s' \<le> pc_tape_length (pl_conf s)) \<and>
    (\<forall>d \<in> set (pl_schedq s). dump_est s' d = dump_est s d \<or> oe_level (dump_est s' d) = 0 \<and> oe_nsize (dump_est s' d) > 0)"
  using promote_dumps_promotes [of s] assms unfolding promoted_def booked_def by auto

theorem promote_dumps_ends_witness:
  "\<exists>s. promote_dumps (ex_plan True) = Some s \<and> pl_schedq s = [0, 1] \<and> pl_total_size s = space_needed s"
proof -
  have "pl_schedq (ex_plan True) = [0, 1]" by (simp add: ex_plan_def)
  then show ?thesis using promote_dumps_ends [OF ex_plan_facts(1,5)] by auto
qed

section \<open>The whole schedule\<close>



end
