(* ===== verification/Planner_Requests.thy ===== *)
theory Planner_Requests
  imports Planner_Books
begin

text \<open>
  The requests of the planner: whatever the info database says, a disk that is put on the start queue has
  an estimate block in order, with at least one level asked for and none twice. This is what the analysis
  of the estimates relies on.
\<close>

section \<open>Asking for levels\<close>

lemma askfor_result:
  assumes "askfor i lev info E = Inr E'" "length E = MAX_LEVELS"
  shows "length E' = MAX_LEVELS" "i < MAX_LEVELS" "- 1 \<le> lev" "lev < DUMP_LEVELS"
    "map oe_level E' = (map oe_level E)[i := lev]" "map oe_nsize E' = (map oe_nsize E)[i := - 3]"
  using assms by (auto simp: askfor_def map_update DUMP_LEVELS_def split: if_splits)

lemma take_update: "i < length xs \<Longrightarrow> take (Suc i) (xs[i := v]) = take i xs @ [v]"
  by (simp add: take_Suc_conv_app_nth)

lemma ask_all_result:
  assumes "ask_all i levs info E = Inr E'" "length E = MAX_LEVELS" "i + length levs = MAX_LEVELS"
  shows "length E' = MAX_LEVELS \<and> map oe_level E' = take i (map oe_level E) @ levs \<and>
    map oe_nsize E' = take i (map oe_nsize E) @ replicate (length levs) (- 3) \<and> (\<forall>lev \<in> set levs. - 1 \<le> lev \<and> lev < DUMP_LEVELS)"
  using assms
proof (induction levs arbitrary: i E)
  case (Cons lev levs)
  from Cons.prems(1) obtain E1 where 1: "askfor i lev info E = Inr E1" and rest: "ask_all (i + 1) levs info E1 = Inr E'"
    by (auto simp: bind_r_eq_Inr_iff)
  note a = askfor_result [OF 1 Cons.prems(2)]
  have "i < length E" using a(2) Cons.prems(2) by simp
  then show ?case using Cons.IH [OF rest a(1)] Cons.prems(3) a by (simp add: take_update)
qed simp

text \<open>What holds of a block whose levels have been asked for.\<close>

definition requested :: "est_t \<Rightarrow> bool" where
  "requested ep \<longleftrightarrow> levels_ok ep \<and> (\<forall>oe \<in> set (es_estimate ep). oe_nsize oe = - 3) \<and>
     es_dump_est ep = Default_est \<and> es_degr_est ep = Default_est"

lemma ask_levels_requested:
  assumes "ask_levels levs ep = Inr ep'" "length (es_estimate ep) = MAX_LEVELS" "length levs \<le> MAX_LEVELS"
    and "distinct (filter (\<lambda>lev. lev \<noteq> - 1) levs)" "es_dump_est ep = Default_est" "es_degr_est ep = Default_est"
  shows "requested ep'" "map oe_level (es_estimate ep') = levs @ replicate (MAX_LEVELS - length levs) (- 1)"
proof -
  from assms(1) obtain E where E: "ask_all 0 (levs @ replicate (MAX_LEVELS - length levs) (- 1)) (es_info ep) (es_estimate ep) = Inr E"
    and ep': "ep' = ep\<lparr>es_estimate := E\<rparr>" by (auto simp: ask_levels_def map_r_eq_Inr_iff)
  have r: "length E = MAX_LEVELS" "map oe_level E = levs @ replicate (MAX_LEVELS - length levs) (- 1)"
    "map oe_nsize E = replicate MAX_LEVELS (- 3)"
    "\<forall>lev \<in> set (levs @ replicate (MAX_LEVELS - length levs) (- 1)). - 1 \<le> lev \<and> lev < DUMP_LEVELS"
    using ask_all_result [OF E assms(2)] assms(3) by simp_all
  show "map oe_level (es_estimate ep') = levs @ replicate (MAX_LEVELS - length levs) (- 1)" by (simp add: ep' r(2))
  have lev: "oe_level ` set E = set (levs @ replicate (MAX_LEVELS - length levs) (- 1))" unfolding r(2) [symmetric] by simp
  have "oe_nsize oe = - 3" if "oe \<in> set E" for oe
  proof -
    have "oe_nsize oe \<in> set (map oe_nsize E)" using that by simp
    then show ?thesis unfolding r(3) by simp
  qed
  moreover have "\<forall>lev \<in> oe_level ` set E. - 1 \<le> lev \<and> lev < DUMP_LEVELS" unfolding lev by (rule r(4))
  ultimately show "requested ep'" using r(1) assms(4-6) by (simp add: requested_def levels_ok_def ep' r(2))
qed

section \<open>Choosing the levels\<close>

lemma full_levels_result:
  assumes "full_levels dp ep = (levs, ep')"
  shows "levs = [] \<or> levs = [0]" "es_estimate ep' = es_estimate ep" "es_dump_est ep' = es_dump_est ep" "es_degr_est ep' = es_degr_est ep"
    "levs = [0] \<Longrightarrow> pd_strategy dp = DS_STANDARD \<or> pd_strategy dp = DS_NOINC"
  using assms by (auto simp: full_levels_def split: if_splits strategy_t.splits)

lemma incr_levels_result:
  assumes "incr_levels dp ep = Inr (levs, ep')"
  shows "length levs \<le> 2 \<and> distinct (filter (\<lambda>lev. lev \<noteq> - 1) levs) \<and> 0 \<notin> set levs \<and>
    es_estimate ep' = es_estimate ep \<and> es_dump_est ep' = es_dump_est ep \<and> es_degr_est ep' = es_degr_est ep"
  using assms unfolding incr_levels_def Let_def
  by (auto split: if_splits simp: map_r_eq_Inr_iff)

lemma choose_estimates_requested:
  assumes "choose_estimates dp ep = Inr ep'" "length (es_estimate ep) = MAX_LEVELS"
    and "es_dump_est ep = Default_est" "es_degr_est ep = Default_est"
  shows "requested ep' \<and> oe_level (es_estimate ep' ! 0) \<noteq> - 1"
proof -
  obtain full ep1 where 1: "full_levels dp ep = (full, ep1)" by force
  from assms(1) obtain incr ep2 where 2: "incr_levels dp ep1 = Inr (incr, ep2)" and 3: "ask_levels (full @ incr) ep2 = Inr ep'"
    and 4: "oe_level (es_estimate ep' ! 0) \<noteq> - 1"
    by (auto simp: choose_estimates_def 1 bind_r_eq_Inr_iff split: if_splits)
  note f = full_levels_result [OF 1] and i = incr_levels_result [OF 2]
  have "distinct (filter (\<lambda>lev. lev \<noteq> - 1) (full @ incr))" "length (full @ incr) \<le> MAX_LEVELS"
    using f(1) i by (auto simp: MAX_LEVELS_def)
  from ask_levels_requested(1) [OF 3 _ this(2,1)] show ?thesis using f(2-4) i assms(2-4) 4 by simp
qed

section \<open>The requests of a disk\<close>

text \<open>What the steps before the choice leave alone.\<close>

definition unasked :: "est_t \<Rightarrow> bool" where
  "unasked ep \<longleftrightarrow> length (es_estimate ep) = MAX_LEVELS \<and> es_dump_est ep = Default_est \<and> es_degr_est ep = Default_est"

lemma unasked_new [simp]: "unasked (new_est dp info)"
  by (simp add: unasked_def new_est_def)

lemma unasked_steps [simp]:
  "unasked (with_levels c dp ep) = unasked ep" "unasked (calculate_levels c dp ep) = unasked ep"
  "unasked (check_overwrite c ep) = unasked ep" "unasked (adjust_priority ep) = unasked ep"
  "unasked (skip_full_done c ep) = unasked ep" "unasked (ep\<lparr>es_last_level := lev\<rparr>) = unasked ep"
  "unasked (ep\<lparr>es_next_level0 := n\<rparr>) = unasked ep"
  by (auto simp: unasked_def with_levels_def calculate_levels_def check_overwrite_def adjust_priority_def skip_full_done_def
      split: prod.splits)

lemma fill_statistics_unasked: "fill_statistics c dp ep = Inr ep' \<Longrightarrow> unasked ep \<Longrightarrow> unasked ep'"
  by (auto simp: fill_statistics_def Let_def map_r_eq_Inr_iff unasked_def)

lemma estimates_requested:
  assumes "bind_r (fill_statistics c dp ep) (choose_estimates dp) = Inr ep'" "unasked ep"
  shows "requested ep' \<and> oe_level (es_estimate ep' ! 0) \<noteq> - 1"
proof -
  from assms(1) obtain ep1 where 1: "fill_statistics c dp ep = Inr ep1" "choose_estimates dp ep1 = Inr ep'"
    by (auto simp: bind_r_eq_Inr_iff)
  then show ?thesis
    using choose_estimates_requested [OF 1(2)] fill_statistics_unasked [OF 1(1) assms(2)] by (simp add: unasked_def)
qed

lemma skip_disk_unchanged: "skip_disk d ep s = Inr s' \<Longrightarrow> pl_startq s' = pl_startq s \<and> (\<forall>d1. d1 \<noteq> d \<longrightarrow> pl_disks s' d1 = pl_disks s d1)"
  by (auto simp: skip_disk_def map_r_eq_Inr_iff set_up_def)

text \<open>C32: whatever the info database and the settings of a disk are, setting up its estimates either leaves the start
  queue alone or appends the disk to it; then its block holds three requests, each without a size yet, the first one for a
  real level, no level asked for twice, all levels below the largest, and no dump chosen. No other disk changes.\<close>

theorem setup_estimate_requests:
  assumes "setup_estimate d s = Inr s'"
  shows "(pl_startq s' = pl_startq s \<or>
      pl_startq s' = pl_startq s @ [d] \<and> pd_up (pl_disks s' d) \<noteq> None \<and> requested (est s' d) \<and>
      oe_level (es_estimate (est s' d) ! 0) \<noteq> - 1) \<and> (\<forall>d1. d1 \<noteq> d \<longrightarrow> pl_disks s' d1 = pl_disks s d1)"
proof -
  define dp where "dp = (if pd_directtcp (pl_disks s d) \<and> pd_to_holdingdisk (pl_disks s d) = HOLD_AUTO
    then (pl_disks s d)\<lparr>pd_to_holdingdisk := HOLD_NEVER\<rparr> else pl_disks s d)"
  define s1 where "s1 = s\<lparr>pl_disks := (pl_disks s)(d := dp)\<rparr>"
  define ep where "ep = adjust_priority (check_overwrite (pl_conf s) (calculate_levels (pl_conf s) dp (new_est dp (snd (pl_db s d)))))"
  have un: "unasked ep" by (simp add: ep_def)
  have s1: "pl_startq s1 = pl_startq s" "d1 \<noteq> d \<Longrightarrow> pl_disks s1 d1 = pl_disks s d1" for d1 by (simp_all add: s1_def)
  have start: ?thesis if "map_r (\<lambda>ep. (set_up d ep s1)\<lparr>pl_startq := pl_startq s1 @ [d]\<rparr>)
      (bind_r (fill_statistics (pl_conf s) dp ep1) (choose_estimates dp)) = Inr s'" "unasked ep1" for ep1
  proof -
    from that(1) obtain ep2 where 2: "bind_r (fill_statistics (pl_conf s) dp ep1) (choose_estimates dp) = Inr ep2"
      and s': "s' = (set_up d ep2 s1)\<lparr>pl_startq := pl_startq s1 @ [d]\<rparr>" by (auto simp: map_r_eq_Inr_iff)
    show ?thesis using estimates_requested [OF 2 that(2)] by (simp add: s' set_up_def s1)
  qed
  have skip: ?thesis if "skip_disk d ep1 s2 = Inr s'" "pl_startq s2 = pl_startq s1" "pl_disks s2 = pl_disks s1" for ep1 s2
    using skip_disk_unchanged [OF that(1)] that(2,3) s1 by simp
  show ?thesis
    using assms start skip un s1(1) unfolding setup_estimate_def Let_def dp_def [symmetric] s1_def [symmetric] ep_def [symmetric]
    by (auto split: if_splits)
qed

theorem setup_estimate_requests_witness:
  "\<exists>s. setup_estimate 0 (ex_planner False) = Inr s \<and> pl_startq s = [0] \<and> requested (est s 0)"
proof -
  have "map_r pl_startq (setup_estimate 0 (ex_planner False)) = Inr [0]" by code_simp
  then obtain s where s: "setup_estimate 0 (ex_planner False) = Inr s" "pl_startq s = [0]" by (auto simp: map_r_eq_Inr_iff)
  have "pl_startq (ex_planner False) = []" by (simp add: ex_planner_def)
  then show ?thesis using setup_estimate_requests [OF s(1)] s by auto
qed

end
