(* ===== verification/Planner_Asks.thy ===== *)
theory Planner_Asks
  imports Planner_Requests Features
begin

text \<open>
  The requests for estimates that the planner sends to a host (\<open>getsize\<close> of \<open>server-src/planner.c\<close>), with the check of
  the options of a disk (\<open>validate_optionstr\<close> of \<open>server-src/diskfile.c\<close>) and the estimates the server makes itself from
  the history of a disk (\<open>internal_server_estimate\<close> of \<open>server-src/server_util.c\<close>). A request is what it asks for, with
  its timeout; its text, the log lines and the scripts are not modelled, and the start queue is not either: it says no more
  than which hosts are ready.
\<close>

section \<open>The options of a disk\<close>

datatype comp_t = COMP_NONE | COMP_FAST | COMP_BEST | COMP_CUST | COMP_SERVER_FAST | COMP_SERVER_BEST | COMP_SERVER_CUST

datatype encrypt_t = ENCRYPT_NONE | ENCRYPT_CUST | ENCRYPT_SERV_CUST

datatype estimate_t = ES_CLIENT | ES_SERVER | ES_CALCSIZE | ES_ES

text \<open>The settings that matter for a request; a list of exclude or include patterns may be absent.\<close>

record dle_opts =
  do_auth :: string
  do_program :: string
  do_estimatelist :: "estimate_t list"
  do_compress :: comp_t
  do_clntcompprog :: "string option"
  do_srvcompprog :: "string option"
  do_encrypt :: encrypt_t
  do_clnt_encrypt :: "string option"
  do_srv_encrypt :: "string option"
  do_clnt_decrypt_opt :: "string option"
  do_record :: bool
  do_index :: bool
  do_kencrypt :: bool
  do_exclude_file :: "string list option"
  do_exclude_list :: "string list option"
  do_include_file :: "string list option"
  do_include_list :: "string list option"
  do_exclude_optional :: bool
  do_include_optional :: bool

definition has :: "am_feature \<Rightarrow> string \<Rightarrow> bool" where
  "has f name = am_has_feature (Some f) (feature name)"

definition tolower :: "char \<Rightarrow> char" where
  "tolower c = (if CHR ''A'' \<le> c \<and> c \<le> CHR ''Z'' then char_of (of_char c + 32 :: nat) else c)"

text \<open>An error is a text with a flag: was its memory allocated? The list ends in \<open>g_strfreev\<close>.\<close>

type_synonym opt_error = "bool \<times> string"

definition needs :: "am_feature \<Rightarrow> string \<Rightarrow> string \<Rightarrow> opt_error list" where
  "needs f name msg = (if has f name then [] else [(True, msg)])"

definition unset :: "string option \<Rightarrow> bool" where
  "unset prog \<longleftrightarrow> prog = None \<or> prog = Some []"

definition nb_element :: "string list option \<Rightarrow> nat" where
  "nb_element sl = (case sl of None \<Rightarrow> 0 | Some xs \<Rightarrow> length xs)"

definition auth_errors :: "am_feature \<Rightarrow> dle_opts \<Rightarrow> opt_error list" where
  "auth_errors f dp =
     (if \<not> has f ''fe_options_auth'' \<and> map tolower (do_auth dp) = ''bsd''
      then needs f ''fe_options_bsd_auth'' ''does not support auth'' else [])"

definition compress_errors :: "am_feature \<Rightarrow> dle_opts \<Rightarrow> opt_error list" where
  "compress_errors f dp =
     (case do_compress dp of
        COMP_FAST \<Rightarrow> needs f ''fe_options_compress_fast'' ''does not support fast compression''
      | COMP_BEST \<Rightarrow> needs f ''fe_options_compress_best'' ''does not support best compression''
      | COMP_CUST \<Rightarrow>
          if has f ''fe_options_compress_cust'' then
            (if unset (do_clntcompprog dp) then [(True, ''client custom compression with no compression program specified'')] else [])
          else [(True, ''does not support client custom compression'')]
      | COMP_SERVER_CUST \<Rightarrow>
          if unset (do_srvcompprog dp) then [(True, ''server custom compression with no compression program specified'')] else []
      | _ \<Rightarrow> [])"

definition encrypt_errors :: "am_feature \<Rightarrow> dle_opts \<Rightarrow> opt_error list" where
  "encrypt_errors f dp =
     (case do_encrypt dp of
        ENCRYPT_NONE \<Rightarrow> []
      | ENCRYPT_CUST \<Rightarrow>
          if has f ''fe_options_encrypt_cust'' then
            (if do_clnt_decrypt_opt dp \<noteq> None
             then needs f ''fe_options_client_decrypt_option'' ''does not support client decrypt option'' else []) @
            (if unset (do_clnt_encrypt dp) then [(True, ''encrypt client with no encryption program specified'')] else []) @
            (if do_compress dp \<in> {COMP_SERVER_FAST, COMP_SERVER_BEST, COMP_SERVER_CUST}
             then [(True, ''Client encryption with server compression is not supported. See amanda.conf(5) for detail'')] else [])
          else [(True, ''does not support client data encryption'')]
      | ENCRYPT_SERV_CUST \<Rightarrow>
          if unset (do_srv_encrypt dp) then
            [(True, ''No encryption program specified in dumptypes, Change the dumptype in the disklist or mention the encryption program to use in the dumptypes file'')]
          else [])"

definition exclude_errors :: "am_feature \<Rightarrow> dle_opts \<Rightarrow> opt_error list" where
  "exclude_errors f dp =
     (let nb_file = nb_element (do_exclude_file dp); nb_list = nb_element (do_exclude_list dp) in
      (if nb_file > 0 then needs f ''fe_options_exclude_file'' ''does not support exclude file'' else []) @
      (if nb_list > 0 then needs f ''fe_options_exclude_list'' ''does not support exclude list'' else []) @
      (if nb_file + nb_list > 1 then needs f ''fe_options_multiple_exclude'' ''does not support multiple exclude'' else []))"

text \<open>The text for the include file is not a copy, and many includes ask for the feature of many excludes.\<close>

definition include_errors :: "am_feature \<Rightarrow> dle_opts \<Rightarrow> opt_error list" where
  "include_errors f dp =
     (let nb_file = nb_element (do_include_file dp); nb_list = nb_element (do_include_list dp) in
      (if nb_file > 0 \<and> \<not> has f ''fe_options_include_file'' then [(False, ''does not support include file'')] else []) @
      (if nb_list > 0 then needs f ''fe_options_include_list'' ''does not support include list'' else []) @
      (if nb_file + nb_list > 1 then needs f ''fe_options_multiple_exclude'' ''does not support multiple include'' else []))"

definition validate_optionstr :: "am_feature \<Rightarrow> dle_opts \<Rightarrow> opt_error list" where
  "validate_optionstr f dp =
     auth_errors f dp @ compress_errors f dp @ encrypt_errors f dp @
     (if \<not> do_record dp then needs f ''fe_options_no_record'' ''does not support no record'' else []) @
     (if do_index dp then needs f ''fe_options_index'' ''does not support index'' else []) @
     (if do_kencrypt dp then needs f ''fe_options_kencrypt'' ''does not support kencrypt'' else []) @
     exclude_errors f dp @ include_errors f dp @
     (if do_exclude_optional dp then needs f ''fe_options_optional_exclude'' ''does not support optional exclude'' else []) @
     (if do_include_optional dp then needs f ''fe_options_optional_include'' ''does not support optional include'' else [])"

section \<open>Estimates of the server\<close>

definition NB_HISTORY :: nat where "NB_HISTORY = 100"
definition NB_DAY :: nat where "NB_DAY = 30"

text \<open>The loops run from the oldest dump but one down to the latest.\<close>

definition newest_down :: "nat list" where
  "newest_down = rev [0 ..< NB_HISTORY - 1]"

definition level0_step :: "info_t \<Rightarrow> nat \<Rightarrow> int \<times> int \<Rightarrow> int \<times> int" where
  "level0_step info j = (\<lambda>(est_size, nb_est).
     let h = in_history info ! j in
     if hi_level h = 0 \<and> \<not> hi_size h < 0 then (hi_size h, nb_est + 1) else (est_size, nb_est))"

definition level0_estimate :: "int \<Rightarrow> info_t \<Rightarrow> int \<times> bool" where
  "level0_estimate tape_length info =
     (case fold (level0_step info) newest_down (0, 0) of
        (est_size, nb_est) \<Rightarrow>
          if nb_est > 0 then (est_size, True)
          else if st_size (in_inf info 0) > 1000 then (st_size (in_inf info 0), True)
          else (min 1000000 (tape_length div 2), False))"

text \<open>The guess when there is no statistics for an incremental level.\<close>

definition incr_guess :: "int \<Rightarrow> strategy_t \<Rightarrow> info_t \<Rightarrow> int \<Rightarrow> int" where
  "incr_guess tape_length strategy info guess =
     (let sz = min guess (tape_length div 2); level0_size = fst (level0_estimate tape_length info) in
      if level0_size > 0 \<and> strategy \<noteq> DS_NOFULL then min sz (level0_size div 2) else sz)"

definition incr_estimate :: "int \<Rightarrow> strategy_t \<Rightarrow> info_t \<Rightarrow> int \<Rightarrow> int \<Rightarrow> int \<times> int \<Rightarrow> int \<times> bool" where
  "incr_estimate tape_length strategy info level guess = (\<lambda>(est_size, nb_est).
     if nb_est > 0 then (est_size div nb_est, True)
     else if st_size (in_inf info (nat level)) > 1000 then (st_size (in_inf info (nat level)), True)
     else (incr_guess tape_length strategy info guess, False))"

text \<open>The day at the level a dump was made, with the sums and the numbers of dumps of the days.\<close>

definition same_level_step :: "info_t \<Rightarrow> nat \<Rightarrow> nat \<times> int list \<times> int list \<Rightarrow> nat \<times> int list \<times> int list" where
  "same_level_step info j = (\<lambda>(nb_day, size_day, est_day).
     let h = in_history info ! j in
     if hi_level h \<le> 0 \<or> hi_size h < 0 then (nb_day, size_day, est_day)
     else if hi_level h = hi_level (in_history info ! (j + 1)) then
       let nb_day = (if nb_day < NB_DAY - 1 then nb_day + 1 else nb_day) in
       (nb_day, size_day[nb_day := size_day ! nb_day + hi_size h], est_day[nb_day := est_day ! nb_day + 1])
     else (0, size_day, est_day))"

fun day_back :: "int list \<Rightarrow> nat \<Rightarrow> nat" where
  "day_back est_day 0 = 0"
| "day_back est_day (Suc n) = (if est_day ! Suc n = 0 then day_back est_day n else Suc n)"

definition next_level_step :: "info_t \<Rightarrow> nat \<Rightarrow> int \<times> int \<Rightarrow> int \<times> int" where
  "next_level_step info j = (\<lambda>(est_size, nb_est).
     let h = in_history info ! j in
     if hi_level h \<le> 0 \<or> hi_size h < 0 then (est_size, nb_est)
     else if hi_level h = hi_level (in_history info ! (j + 1)) + 1 then (est_size + hi_size h, nb_est + 1)
     else (est_size, nb_est))"

text \<open>The size, and whether it rests on statistics. The count of the runs may be any number; below zero it is no index.\<close>

definition internal_server_estimate :: "int \<Rightarrow> strategy_t \<Rightarrow> info_t \<Rightarrow> int \<Rightarrow> fault + int \<times> bool" where
  "internal_server_estimate tape_length strategy info level =
     (if level = 0 then Inr (level0_estimate tape_length info)
      else if level = in_last_level info then
        case fold (same_level_step info) newest_down (0, replicate NB_DAY 0, replicate NB_DAY 0) of
          (_, size_day, est_day) \<Rightarrow>
            let nb_day = min (in_consecutive_runs info + 1) (int NB_DAY - 1) in
            if nb_day < 0 then Inl Out_of_bounds
            else
              let nb_day = day_back est_day (nat nb_day) in
              Inr (incr_estimate tape_length strategy info level 10000 (size_day ! nb_day, est_day ! nb_day))
      else if level = in_last_level info + 1 then
        Inr (incr_estimate tape_length strategy info level 100000 (fold (next_level_step info) newest_down (0, 0)))
      else Inr (min 100000 (tape_length div 2), False))"

definition server_estimate :: "int \<Rightarrow> strategy_t \<Rightarrow> nat \<Rightarrow> info_t \<Rightarrow> int \<Rightarrow> est_t \<Rightarrow> fault + est_t" where
  "server_estimate tape_length strategy i info level ep =
     map_r (\<lambda>(size, stats).
         let oe = (es_estimate ep ! i)\<lparr>oe_nsize := size\<rparr> in
         ep\<lparr>es_dump_est := Estimate i, es_estimate := (es_estimate ep)[i := if stats then oe else oe\<lparr>oe_guessed := True\<rparr>]\<rparr>)
       (internal_server_estimate tape_length strategy info level)"

fun server_levels :: "int \<Rightarrow> strategy_t \<Rightarrow> info_t \<Rightarrow> nat list \<Rightarrow> est_t \<Rightarrow> fault + est_t" where
  "server_levels tape_length strategy info [] ep = Inr ep"
| "server_levels tape_length strategy info (i # is) ep =
     (let lev = oe_level (es_estimate ep ! i) in
      if lev = - 1 then Inr ep
      else bind_r (server_estimate tape_length strategy i info lev ep) (server_levels tape_length strategy info is))"

section \<open>The state of the estimates\<close>

datatype host_state = HOST_READY | HOST_ACTIVE | HOST_DONE

text \<open>What a request asks of a disk: with XML the disk and how many levels, else one line per level, for \<open>calcsize\<close> or not.\<close>

datatype disk_req = Xml_req nat nat | Text_req nat bool "int list"

datatype request = Noop int | Sendsize int "disk_req list"

type_synonym am_host = "string \<times> nat list"

record results =
  rs_disks :: "nat \<Rightarrow> pdisk"
  rs_opts :: "nat \<Rightarrow> dle_opts"
  rs_db :: "nat \<Rightarrow> int \<times> info_t"                \<comment> \<open>what \<open>get_info\<close> returns\<close>
  rs_got :: "nat \<Rightarrow> nat"                           \<comment> \<open>\<open>got_estimate\<close>\<close>
  rs_waitq :: "nat list"
  rs_pestq :: "nat list"
  rs_estq :: "nat list"
  rs_failq :: "nat list"
  rs_up :: "string \<Rightarrow> host_state"                  \<comment> \<open>by host\<close>
  rs_features :: "string \<Rightarrow> am_feature option"
  rs_sent :: "(string \<times> request) list"

record est_conf =
  ec_ctimeout :: int
  ec_etimeout :: int
  ec_tape_length :: int
  ec_drivers :: "string list"     \<comment> \<open>the security drivers that are built in\<close>

definition rs_set_up :: "nat \<Rightarrow> est_t \<Rightarrow> results \<Rightarrow> results" where
  "rs_set_up d ep st = st\<lparr>rs_disks := (rs_disks st)(d := (rs_disks st d)\<lparr>pd_up := Some ep\<rparr>)\<rparr>"

definition set_host :: "am_host \<Rightarrow> host_state \<Rightarrow> results \<Rightarrow> results" where
  "set_host hostp up st = st\<lparr>rs_up := (rs_up st)(fst hostp := up)\<rparr>"

section \<open>Asking for the estimates of a disk\<close>

text \<open>The server makes its own estimates; a client that cannot be told of them is not asked for more.\<close>

definition ask_server :: "est_conf \<Rightarrow> am_feature \<Rightarrow> nat \<Rightarrow> est_t \<Rightarrow> results \<Rightarrow> fault + est_t \<times> results" where
  "ask_server c f d ep st =
     map_r (\<lambda>ep. if has f ''fe_xml_estimate'' then (ep, st)
                 else (ep\<lparr>es_state := DISK_DONE\<rparr>, st\<lparr>rs_estq := rs_estq st @ [d]\<rparr>))
       (server_levels (ec_tape_length c) (pd_strategy (rs_disks st d)) (snd (rs_db st d)) [0 ..< MAX_LEVELS] ep)"

definition levels_asked :: "est_t \<Rightarrow> int list" where
  "levels_asked ep = takeWhile (\<lambda>lev. lev \<noteq> - 1) (map oe_level (es_estimate ep))"

text \<open>The request for a disk, if there is one.\<close>

definition client_req :: "am_feature \<Rightarrow> dle_opts \<Rightarrow> estimate_t \<Rightarrow> nat \<Rightarrow> est_t \<Rightarrow> disk_req option" where
  "client_req f dp estimate d ep =
     (if levels_asked ep = [] then None
      else if has f ''fe_req_xml'' then Some (Xml_req d (length (levels_asked ep)))
      else if do_program dp \<noteq> ''DUMP'' \<and> do_program dp \<noteq> ''GNUTAR'' then None
      else Some (Text_req d (estimate = ES_CALCSIZE \<and> has f ''fe_calcsize_estimate'') (levels_asked ep)))"

definition ask_client :: "am_feature \<Rightarrow> nat \<Rightarrow> est_t \<Rightarrow> results \<Rightarrow> disk_req option \<times> results" where
  "ask_client f d ep st =
     (let dp = rs_opts st d;
          estimate = (case find (\<lambda>e. e = ES_CLIENT \<or> e = ES_CALCSIZE) (do_estimatelist dp) of
                        Some e \<Rightarrow> e | None \<Rightarrow> last (do_estimatelist dp)) in
      if estimate \<noteq> ES_CLIENT \<and> estimate \<noteq> ES_CALCSIZE \<and> \<not> (has f ''fe_req_xml'' \<or> has f ''fe_xml_estimate'')
      then (None, rs_set_up d ep st)
      else
        let req = client_req f dp estimate d ep;
            ep = (if \<not> has f ''fe_req_xml'' \<and> do_program dp \<noteq> ''DUMP'' \<and> do_program dp \<noteq> ''GNUTAR''
                  then ep\<lparr>es_errstr := Some ''does not support application-api''\<rparr> else ep) in
        (req,
         if req \<noteq> None then
           (if es_state ep = DISK_DONE
            then (rs_set_up d (ep\<lparr>es_state := DISK_PARTIALY_DONE\<rparr>) st)\<lparr>rs_estq := remove1 d (rs_estq st), rs_pestq := rs_pestq st @ [d]\<rparr>
            else rs_set_up d (ep\<lparr>es_state := DISK_ACTIVE\<rparr>) st)
         else if es_state ep \<noteq> DISK_DONE then
           (rs_set_up d (ep\<lparr>es_state := DISK_DONE,
              es_errstr := Some (case es_errstr ep of None \<Rightarrow> ''Can't request estimate'' | Some e \<Rightarrow> e)\<rparr>) st)
             \<lparr>rs_failq := rs_failq st @ [d]\<rparr>
         else rs_set_up d ep st))"

definition ask_disk :: "est_conf \<Rightarrow> am_feature \<Rightarrow> nat \<Rightarrow> results \<Rightarrow> fault + disk_req option \<times> results" where
  "ask_disk c f d st =
     (if \<not> pd_todo (rs_disks st d) then Inr (None, st)
      else
        case pd_up (rs_disks st d) of
          None \<Rightarrow> Inl Out_of_bounds
        | Some ep \<Rightarrow>
            if es_state ep \<noteq> DISK_READY then Inr (None, st)
            else
              let st = st\<lparr>rs_got := (rs_got st)(d := 0)\<rparr>; dp = rs_opts st d; errors = validate_optionstr f dp in
              if oe_level (es_estimate ep ! 0) = - 1 then Inr (None, rs_set_up d (ep\<lparr>es_state := DISK_DONE\<rparr>) st)
              else if errors \<noteq> [] then
                (if list_all fst errors then Inr (None, rs_set_up d (ep\<lparr>es_state := DISK_DONE\<rparr>) st) else Inl Invalid_free)
              else if do_estimatelist dp = [] then Inl Out_of_bounds
              else
                map_r (\<lambda>(ep, st). ask_client f d ep st)
                  (if ES_SERVER \<in> set (do_estimatelist dp) then ask_server c f d ep st else Inr (ep, st)))"

fun ask_disks :: "est_conf \<Rightarrow> am_feature \<Rightarrow> nat list \<Rightarrow> results \<Rightarrow> fault + disk_req list \<times> results" where
  "ask_disks c f [] st = Inr ([], st)"
| "ask_disks c f (d # ds) st =
     bind_r (ask_disk c f d st) (\<lambda>(req, st).
       map_r (\<lambda>(reqs, st). (case req of None \<Rightarrow> reqs | Some r \<Rightarrow> r # reqs, st)) (ask_disks c f ds st))"

section \<open>The request to a host\<close>

fun number_of :: "disk_req \<Rightarrow> nat" where
  "number_of (Xml_req d n) = n"
| "number_of (Text_req d calc levs) = length levs"

definition request_timeout :: "est_conf \<Rightarrow> disk_req list \<Rightarrow> int" where
  "request_timeout c reqs =
     (if ec_etimeout c < 0 then - ec_etimeout c else int (sum_list (map number_of reqs)) * ec_etimeout c)"

text \<open>The active disks of the host wait for the answer.\<close>

fun wait_disks :: "nat list \<Rightarrow> results \<Rightarrow> fault + results" where
  "wait_disks [] st = Inr st"
| "wait_disks (d # ds) st =
     (if \<not> pd_todo (rs_disks st d) then wait_disks ds st
      else
        case pd_up (rs_disks st d) of
          None \<Rightarrow> Inl Out_of_bounds
        | Some ep \<Rightarrow>
            if es_state ep = DISK_ACTIVE
            then wait_disks ds ((rs_set_up d (ep\<lparr>es_errstr := None\<rparr>) st)\<lparr>rs_waitq := rs_waitq st @ [d]\<rparr>)
            else wait_disks ds st)"

definition send_request :: "est_conf \<Rightarrow> am_host \<Rightarrow> request \<Rightarrow> results \<Rightarrow> fault + results" where
  "send_request c hostp req st =
     (if \<not> list_ex (\<lambda>name. map tolower name = map tolower (do_auth (rs_opts st (hd (snd hostp))))) (ec_drivers c)
      then Inr (set_host hostp HOST_DONE st)
      else
        map_r (\<lambda>st. st\<lparr>rs_sent := rs_sent st @ [(fst hostp, req)]\<rparr>)
          (wait_disks (snd hostp) (set_host hostp HOST_ACTIVE st)))"

text \<open>The first request is \<open>noop\<close>: it asks for the features of the client.\<close>

definition getsize :: "est_conf \<Rightarrow> am_host \<Rightarrow> results \<Rightarrow> fault + results" where
  "getsize c hostp st =
     (if snd hostp = [] then Inl Assertion_failed
      else if rs_up st (fst hostp) \<noteq> HOST_READY then Inr st
      else
        case rs_features st (fst hostp) of
          None \<Rightarrow> send_request c hostp (Noop (ec_ctimeout c)) st
        | Some f \<Rightarrow>
            bind_r (ask_disks c f (snd hostp) st) (\<lambda>(reqs, st).
              if reqs = [] then Inr (set_host hostp HOST_DONE st)
              else send_request c hostp (Sendsize (request_timeout c reqs) reqs) st))"

section \<open>The estimates of the server\<close>

text \<open>The sizes on record for a level: of the dumps of its kind in the history, and of the last dump of the level if it is large.\<close>

definition recorded :: "info_t \<Rightarrow> int \<Rightarrow> int list" where
  "recorded info level =
     map hi_size (filter (\<lambda>h. (if level = 0 then hi_level h = 0 else hi_level h > 0) \<and> hi_size h \<ge> 0) (in_history info)) @
     filter (\<lambda>sz. sz > 1000) [st_size (in_inf info (nat level))]"

text \<open>A sum of \<open>n\<close> sizes between \<open>lo\<close> and \<open>hi\<close>.\<close>

definition mean_of :: "int \<Rightarrow> int \<Rightarrow> int \<times> int \<Rightarrow> bool" where
  "mean_of lo hi = (\<lambda>(tot, n). 0 \<le> n \<and> n * lo \<le> tot \<and> tot \<le> n * hi)"

lemma mean_of_0 [simp]: "mean_of lo hi (0, 0)"
  by (simp add: mean_of_def)

lemma mean_of_add: "mean_of lo hi (tot, n) \<Longrightarrow> lo \<le> sz \<Longrightarrow> sz \<le> hi \<Longrightarrow> mean_of lo hi (tot + sz, n + 1)"
  by (simp add: mean_of_def algebra_simps)

lemma mean_of_div:
  assumes "mean_of lo hi (tot, n)" "n > 0"
  shows "lo \<le> tot div n \<and> tot div n \<le> hi"
proof -
  have "(n * lo) div n \<le> tot div n" "tot div n \<le> (n * hi) div n"
    using assms zdiv_mono1 [of "n * lo" tot n] zdiv_mono1 [of tot "n * hi" n] by (simp_all add: mean_of_def)
  then show ?thesis using assms(2) by simp
qed

text \<open>The limits hold for every size on record.\<close>

definition in_range :: "int \<Rightarrow> int \<Rightarrow> info_t \<Rightarrow> int \<Rightarrow> bool" where
  "in_range lo hi info level \<longleftrightarrow> (\<forall>sz \<in> set (recorded info level). lo \<le> sz \<and> sz \<le> hi)"

lemma within_history:
  assumes "in_range lo hi info level" "j \<in> set newest_down" "length (in_history info) = NB_HISTORY + 1"
    and "if level = 0 then hi_level (in_history info ! j) = 0 else hi_level (in_history info ! j) > 0"
    and "\<not> hi_size (in_history info ! j) < 0"
  shows "lo \<le> hi_size (in_history info ! j) \<and> hi_size (in_history info ! j) \<le> hi"
proof -
  have "in_history info ! j \<in> set (in_history info)" using assms(2,3) by (auto simp: newest_down_def NB_HISTORY_def)
  then have "hi_size (in_history info ! j) \<in> set (recorded info level)" using assms(4,5) by (auto simp: recorded_def)
  then show ?thesis using assms(1) by (simp add: in_range_def)
qed

lemma within_inf: "in_range lo hi info level \<Longrightarrow> st_size (in_inf info (nat level)) > 1000 \<Longrightarrow>
    lo \<le> st_size (in_inf info (nat level)) \<and> st_size (in_inf info (nat level)) \<le> hi"
  by (simp add: in_range_def recorded_def)

lemma level0_bounds:
  assumes "in_range lo hi info 0" "length (in_history info) = NB_HISTORY + 1" "level0_estimate tape info = (sz, stats)"
  shows "stats \<Longrightarrow> lo \<le> sz \<and> sz \<le> hi" "\<not> stats \<Longrightarrow> sz = min 1000000 (tape div 2)"
proof -
  obtain est_size nb_est where f: "fold (level0_step info) newest_down (0, 0) = (est_size, nb_est)" by force
  have "(\<lambda>(s, n). n \<ge> 0 \<and> (n > 0 \<longrightarrow> lo \<le> s \<and> s \<le> hi)) (fold (level0_step info) newest_down (0, 0))"
  proof (rule fold_invariant [where Q = "\<lambda>j. j \<in> set newest_down"])
    fix j and p :: "int \<times> int" assume j: "j \<in> set newest_down" and "case p of (s, n) \<Rightarrow> n \<ge> 0 \<and> (n > 0 \<longrightarrow> lo \<le> s \<and> s \<le> hi)"
    then show "case level0_step info j p of (s, n) \<Rightarrow> n \<ge> 0 \<and> (n > 0 \<longrightarrow> lo \<le> s \<and> s \<le> hi)"
      using within_history [OF assms(1) j assms(2)] by (auto simp: level0_step_def Let_def split: prod.splits)
  qed auto
  then show "stats \<Longrightarrow> lo \<le> sz \<and> sz \<le> hi" "\<not> stats \<Longrightarrow> sz = min 1000000 (tape div 2)"
    using assms(3) within_inf [OF assms(1)] by (auto simp: level0_estimate_def f split: if_splits)
qed

lemma mean_of_update:
  assumes "\<forall>i < n. mean_of lo hi (ss ! i, ns ! i)" "length ss = n" "length ns = n" "k < n" "lo \<le> sz \<and> sz \<le> hi"
  shows "\<forall>i < n. mean_of lo hi (ss[k := ss ! k + sz] ! i, ns[k := ns ! k + 1] ! i)"
  using assms by (simp add: nth_list_update mean_of_add)

definition days_ok :: "int \<Rightarrow> int \<Rightarrow> nat \<times> int list \<times> int list \<Rightarrow> bool" where
  "days_ok lo hi = (\<lambda>(k, ss, ns). k < NB_DAY \<and> length ss = NB_DAY \<and> length ns = NB_DAY \<and>
     (\<forall>i < NB_DAY. mean_of lo hi (ss ! i, ns ! i)))"

lemma same_level_means:
  assumes "in_range lo hi info level" "level \<noteq> 0" "length (in_history info) = NB_HISTORY + 1"
  shows "days_ok lo hi (fold (same_level_step info) newest_down (0, replicate NB_DAY 0, replicate NB_DAY 0))"
proof (rule fold_invariant [where Q = "\<lambda>j. j \<in> set newest_down"])
  fix j and p :: "nat \<times> int list \<times> int list" assume j: "j \<in> set newest_down" and inv: "days_ok lo hi p"
  obtain k ss ns where p: "p = (k, ss, ns)" by (cases p) auto
  define k' where "k' = (if k < NB_DAY - 1 then k + 1 else k)"
  have k': "k' < NB_DAY" using inv p by (auto simp: k'_def days_ok_def)
  have "\<forall>i < NB_DAY. mean_of lo hi (ss[k' := ss ! k' + hi_size (in_history info ! j)] ! i, ns[k' := ns ! k' + 1] ! i)"
    if "\<not> (hi_level (in_history info ! j) \<le> 0 \<or> hi_size (in_history info ! j) < 0)"
    using mean_of_update [OF _ _ _ k'] within_history [OF assms(1) j assms(3)] inv p that assms(2) by (simp add: days_ok_def)
  then show "days_ok lo hi (same_level_step info j p)"
    using inv k' unfolding p same_level_step_def Let_def prod.case k'_def [symmetric] by (simp add: days_ok_def split: if_split)
qed (auto simp: days_ok_def NB_DAY_def)

lemma next_level_means:
  assumes "in_range lo hi info level" "level \<noteq> 0" "length (in_history info) = NB_HISTORY + 1"
  shows "mean_of lo hi (fold (next_level_step info) newest_down (0, 0))"
proof (rule fold_invariant [where Q = "\<lambda>j. j \<in> set newest_down"])
  fix j p assume j: "j \<in> set newest_down" and "mean_of lo hi p"
  then show "mean_of lo hi (next_level_step info j p)"
    using within_history [OF assms(1) j assms(3)] assms(2)
    by (auto simp: next_level_step_def Let_def intro: mean_of_add split: prod.splits)
qed auto

lemma incr_guess_bounds:
  assumes "0 \<le> guess" "0 \<le> tape"
  shows "0 \<le> incr_guess tape strategy info guess" "incr_guess tape strategy info guess \<le> min guess (tape div 2)"
  using assms by (auto simp: incr_guess_def Let_def)

lemma incr_bounds:
  assumes "in_range lo hi info level" "mean_of lo hi p" "0 \<le> guess" "0 \<le> tape"
    and "incr_estimate tape strategy info level guess p = (sz, stats)"
  shows "stats \<Longrightarrow> lo \<le> sz \<and> sz \<le> hi" "\<not> stats \<Longrightarrow> 0 \<le> sz \<and> sz \<le> min guess (tape div 2)"
  using assms(5) mean_of_div [of lo hi "fst p" "snd p"] assms(2) within_inf [OF assms(1)] incr_guess_bounds [OF assms(3,4), of strategy info]
  by (auto simp: incr_estimate_def split: prod.splits if_splits)

lemma day_back_le: "day_back est_day n \<le> n"
  by (induction n) auto

text \<open>An estimate of the server that rests on statistics lies between the smallest and the largest of the sizes on record for
  the level: of the dumps of its kind, full or incremental, in the history, and of the last dump of the level. An estimate that
  is a guess is not negative, and no more than half a tape and 1000000 kilobytes.\<close>

theorem server_estimate_within_records:
  assumes "length (in_history info) = NB_HISTORY + 1" "0 \<le> tape"
    and "internal_server_estimate tape strategy info level = Inr (sz, stats)"
  shows "if stats then (\<forall>lo hi. in_range lo hi info level \<longrightarrow> lo \<le> sz \<and> sz \<le> hi) else 0 \<le> sz \<and> sz \<le> min 1000000 (tape div 2)"
proof -
  have any: "\<exists>lo hi. in_range lo hi info level"
  proof (intro exI)
    show "in_range (Min (set (recorded info level))) (Max (set (recorded info level))) info level" by (simp add: in_range_def)
  qed
  have incr: ?thesis if "incr_estimate tape strategy info level guess p = (sz, stats)" "0 \<le> guess" "guess \<le> 100000"
      "\<And>lo hi. in_range lo hi info level \<Longrightarrow> mean_of lo hi p" for guess p
    using incr_bounds [OF _ that(4) that(2) assms(2) that(1)] any that(3) by force
  consider "level = 0" | "level \<noteq> 0" "level = in_last_level info" | "level \<noteq> 0" "level \<noteq> in_last_level info" "level = in_last_level info + 1"
    | "level \<noteq> 0" "level \<noteq> in_last_level info" "level \<noteq> in_last_level info + 1" by blast
  then show ?thesis
  proof cases
    case 1
    then have "level0_estimate tape info = (sz, stats)" using assms(3) by (simp add: internal_server_estimate_def)
    then show ?thesis using level0_bounds [OF _ assms(1)] any 1 assms(2) by fastforce
  next
    case 2
    obtain k ss ns where f: "fold (same_level_step info) newest_down (0, replicate NB_DAY 0, replicate NB_DAY 0) = (k, ss, ns)"
      using prod_cases3 by blast
    define n where "n = day_back ns (nat (min (in_consecutive_runs info + 1) (int NB_DAY - 1)))"
    have "n < NB_DAY" using day_back_le [of ns "nat (min (in_consecutive_runs info + 1) (int NB_DAY - 1))"]
      unfolding n_def NB_DAY_def by linarith
    moreover have "incr_estimate tape strategy info level 10000 (ss ! n, ns ! n) = (sz, stats)"
      using assms(3) 2 by (auto simp: internal_server_estimate_def f Let_def n_def split: if_splits)
    ultimately show ?thesis using incr [of 10000 "(ss ! n, ns ! n)"] same_level_means [OF _ 2(1) assms(1)] by (simp add: f days_ok_def)
  next
    case 3
    then have "incr_estimate tape strategy info level 100000 (fold (next_level_step info) newest_down (0, 0)) = (sz, stats)"
      using assms(3) by (auto simp: internal_server_estimate_def)
    then show ?thesis by (rule incr) (use next_level_means [OF _ 3(1) assms(1)] in simp_all)
  next
    case 4
    then have "sz = min 100000 (tape div 2) \<and> \<not> stats" using assms(3) by (simp add: internal_server_estimate_def)
    then show ?thesis using assms(2) by auto
  qed
qed

text \<open>A full dump of 5000 kilobytes four dumps ago.\<close>

definition ex_history :: info_t where
  "ex_history = zero_info\<lparr>in_history := (in_history zero_info)[3 := \<lparr>hi_level = 0, hi_size = 5000, hi_csize = 0, hi_date = 0, hi_secs = 0\<rparr>]\<rparr>"

theorem server_estimate_within_records_witness:
  "\<exists>sz. internal_server_estimate 1000000 DS_STANDARD ex_history 0 = Inr (sz, True) \<and> in_range 4000 6000 ex_history 0 \<and>
     4000 \<le> sz \<and> sz \<le> 6000"
proof -
  have e: "internal_server_estimate 1000000 DS_STANDARD ex_history 0 = Inr (5000, True)" by code_simp
  have r: "in_range 4000 6000 ex_history 0" by code_simp
  have "length (in_history ex_history) = NB_HISTORY + 1" by (simp add: ex_history_def zero_info_def NB_HISTORY_def)
  from server_estimate_within_records [OF this _ e] have "4000 \<le> (5000 :: int) \<and> (5000 :: int) \<le> 6000" using r by simp
  with e r show ?thesis by blast
qed

end
