(* ===== verification/Schedule_Text.thy ===== *)
theory Schedule_Text
  imports Planner_Schedule Driver_Steps Quoting
begin

text \<open>
  The schedule as text, where the planner meets the driver: \<open>output_scheduleline\<close> of \<open>server-src/planner.c\<close>
  prints one line for a disk, and \<open>read_schedule\<close> of \<open>server-src/driver.c\<close> reads the lines and puts the disks on
  its queues. What is proved: the driver reads back what the planner planned, line for line, and its queues
  hold the planned disks in the order of the plan. A newline that a quoted field brings into a line makes the
  number after the cut field unreadable, so it is an end of the line here. Numbers are those that fit their types.
\<close>

section \<open>Printing\<close>

definition DEFAULT_DUMPRATE :: rat where "DEFAULT_DUMPRATE = 1024"

definition fix_rate :: "rat \<Rightarrow> rat" where
  "fix_rate rate = (if rate < 1 then DEFAULT_DUMPRATE else rate)"

text \<open>\<open>g_strjoin\<close> of an empty separator ends at a \<open>NULL\<close>.\<close>

definition g_strjoin :: "string option list \<Rightarrow> string" where
  "g_strjoin xs = concat (map the (takeWhile (\<lambda>x. x \<noteq> None) xs))"

definition est_seconds :: "one_est_t \<Rightarrow> rat \<Rightarrow> int" where
  "est_seconds oe kps = trunc (fl (fl (of_int (oe_csize oe)) / kps))"

definition quote_string :: "string \<Rightarrow> string" where
  "quote_string s = quote_string_maybe (Some s) False"

definition has_degraded :: "planner \<Rightarrow> nat \<Rightarrow> bool" where
  "has_degraded s d \<longleftrightarrow> oe_level (dump_est s d) = 0 \<and> oe_csize (degr_est s d) \<noteq> - 1"

definition dump_rate :: "planner \<Rightarrow> nat \<Rightarrow> rat" where
  "dump_rate s d = fix_rate (if oe_level (dump_est s d) = 0 then es_fullrate (est s d) else es_incrrate (est s d))"

definition degr_text :: "planner \<Rightarrow> nat \<Rightarrow> string" where
  "degr_text s d =
     (let ep = est s d; degr = degr_est s d; degr_kps = fix_rate (es_incrrate ep) in
      if has_degraded s d then
        g_strjoin [Some '' '', Some (show_int (oe_level degr)), Some '' '', oe_dumpdate degr, Some '' '', Some (show_int (oe_nsize degr)),
          Some '' '', Some (show_int (oe_csize degr)), Some '' '', Some (show_int (est_seconds degr degr_kps)),
          Some '' '', Some (show_int (round_even degr_kps))]
      else
        '' '' @ quote_string (case es_degr_mesg ep of Some m \<Rightarrow> m
                | None \<Rightarrow> ''Skipping: cannot dump in degraded mode for unknown reason''))"

definition output_scheduleline :: "planner \<Rightarrow> nat \<Rightarrow> string" where
  "output_scheduleline s d =
     (let dp = pl_disks s d; ep = est s d; dump = dump_est s d; dump_kps = dump_rate s d in
      if oe_csize dump = - 1 then []
      else
        g_strjoin [Some ''DUMP '', Some (pd_host dp), Some '' '', Some (pd_features dp), Some '' '', Some (quote_string (pd_name dp)),
          Some '' '', Some (pc_timestamp (pl_conf s)), Some '' '', Some (show_int (es_dump_priority ep)),
          Some '' '', Some (show_int (oe_level dump)), Some '' '', oe_dumpdate dump, Some '' '', Some (show_int (oe_nsize dump)),
          Some '' '', Some (show_int (oe_csize dump)), Some '' '', Some (show_int (est_seconds dump dump_kps)),
          Some '' '', Some (show_int (round_even dump_kps)), Some (degr_text s d), Some [CHR 0x0A]])"

section \<open>Reading\<close>

datatype degraded = Degr_mesg string | Degr_dump int string int int int int

record sched_line =
  sl_host :: string
  sl_features :: string
  sl_disk :: string
  sl_datestamp :: string
  sl_priority :: int
  sl_level :: int
  sl_dumpdate :: string
  sl_nsize :: int
  sl_csize :: int
  sl_time :: int
  sl_kps :: int
  sl_degr :: degraded

text \<open>\<open>sscanf\<close> with a conversion for a decimal number.\<close>

definition scan_int :: "string \<Rightarrow> int option" where
  "scan_int s =
     (let s = dropWhile (\<lambda>c. g_ascii_isspace c \<or> c = CHR 0x0B) s;
          neg = (s \<noteq> [] \<and> hd s = CHR ''-'');
          s = (if s \<noteq> [] \<and> (hd s = CHR ''+'' \<or> hd s = CHR ''-'') then drop 1 s else s) in
      if s = [] \<or> \<not> is_digit (hd s) then None
      else Some (if neg then - int (read_digits 0 s) else int (read_digits 0 s)))"

fun skip_quoted_string :: "bool \<Rightarrow> string \<Rightarrow> string \<times> string" where
  "skip_quoted_string iq [] = ([], [])"
| "skip_quoted_string iq (c # cs) =
     (if \<not> iq \<and> g_ascii_isspace c then ([], c # cs)
      else if c = CHR 0x22 then apfst ((#) c) (skip_quoted_string (\<not> iq) cs)
      else if c = CHR 0x5C then
        (case cs of [] \<Rightarrow> ([c], []) | d # ds \<Rightarrow> apfst (\<lambda>w. c # d # w) (skip_quoted_string iq ds))
      else apfst ((#) c) (skip_quoted_string iq cs))"

definition word_field :: "string \<Rightarrow> fault + string \<times> string" where
  "word_field s = (let s = skip_whitespace s in if s = [] then Inl Assertion_failed else Inr (cut_field s))"

definition quoted_field :: "string \<Rightarrow> fault + string \<times> string" where
  "quoted_field s =
     (let s = skip_whitespace s in
      if s = [] then Inl Assertion_failed
      else
        case skip_quoted_string False s of (qname, rest) \<Rightarrow>
          map_r (\<lambda>name. (name, if rest \<noteq> [] \<and> hd rest = CHR 0x0A then [] else rest)) (unquote_string (Some qname)))"

definition int_field :: "string \<Rightarrow> fault + int \<times> string" where
  "int_field s =
     (let s = skip_whitespace s in
      case (if s = [] then None else scan_int s) of
        None \<Rightarrow> Inl Assertion_failed
      | Some n \<Rightarrow> Inr (n, skip_integer s))"

definition degr_fields :: "string \<Rightarrow> fault + degraded" where
  "degr_fields s =
     (let s = skip_whitespace s in
      if s = [] then Inl Assertion_failed
      else if hd s = CHR 0x22 then map_r (Degr_mesg \<circ> fst) (quoted_field s)
      else
        bind_r (int_field s) (\<lambda>(level, s).
        bind_r (word_field s) (\<lambda>(dumpdate, s).
        bind_r (int_field s) (\<lambda>(nsize, s).
        bind_r (int_field s) (\<lambda>(csize, s).
        bind_r (int_field s) (\<lambda>(time, s).
        map_r (\<lambda>(kps, s). Degr_dump level dumpdate nsize csize time (kps mod 2 ^ 64)) (int_field s)))))))"

definition schedule_line :: "string \<Rightarrow> fault + sched_line" where
  "schedule_line line =
     bind_r (word_field line) (\<lambda>(command, s).
     if command \<noteq> ''DUMP'' then Inl Assertion_failed else
     bind_r (word_field s) (\<lambda>(hostname, s).
     bind_r (word_field s) (\<lambda>(features, s).
     bind_r (quoted_field s) (\<lambda>(diskname, s).
     bind_r (word_field s) (\<lambda>(datestamp, s).
     bind_r (int_field s) (\<lambda>(priority, s).
     bind_r (int_field s) (\<lambda>(level, s).
     bind_r (word_field s) (\<lambda>(dumpdate, s).
     bind_r (int_field s) (\<lambda>(nsize, s).
     bind_r (int_field s) (\<lambda>(csize, s).
     bind_r (int_field s) (\<lambda>(time, s).
     bind_r (int_field s) (\<lambda>(kps, s).
     map_r (\<lambda>degr.
         \<lparr>sl_host = hostname, sl_features = features, sl_disk = diskname, sl_datestamp = datestamp, sl_priority = priority,
          sl_level = level, sl_dumpdate = dumpdate, sl_nsize = nsize, sl_csize = csize, sl_time = time, sl_kps = kps mod 2 ^ 64,
          sl_degr = degr\<rparr>) (degr_fields s)))))))))))))"

text \<open>
  The schedule of a disk is filled in; the numbers of the degraded dump are not set when there is a message
  instead. The features of the host and the dump dates are not kept in the model of the driver.
\<close>

definition fill_sched :: "sched_line \<Rightarrow> dle \<Rightarrow> dle" where
  "fill_sched sl d =
     (let csize = am_round (DISK_BLOCK_KB + sl_csize sl) DISK_BLOCK_KB;
          d = d\<lparr>d_scheduled := True, d_level := sl_level sl, d_est_nsize := DISK_BLOCK_KB + sl_nsize sl, d_est_csize := csize,
                d_est_size := csize, d_est_time := nat (sl_time sl), d_est_kps := nat (sl_kps sl), d_datestamp := sl_datestamp sl,
                d_dump_attempted := 0, d_taper_attempted := 0, s_act_size := 0, s_holdp := None, d_activehd := - 1,
                d_dumper := None, d_taper := None, d_timestamp := 0, d_destname := None, d_no_space := False\<rparr> in
      case sl_degr sl of
        Degr_mesg m \<Rightarrow> d\<lparr>d_degr_level := - 1\<rparr>
      | Degr_dump level dumpdate nsize csize time kps \<Rightarrow>
          d\<lparr>d_degr_level := level, d_degr_nsize := DISK_BLOCK_KB + nsize,
            d_degr_csize := am_round (DISK_BLOCK_KB + csize) DISK_BLOCK_KB, d_degr_time := nat time, d_degr_kps := nat kps\<rparr>)"

text \<open>
  Parameters: the look-up in the disk list, the check of the option strings, and the disks with a directtcp data path.
  When the check finds errors, \<open>qname\<close> is freed, which points into the line: that is a fault.
\<close>

definition take_line ::
  "(string \<Rightarrow> string \<Rightarrow> nat option) \<Rightarrow> (nat \<Rightarrow> bool) \<Rightarrow> (nat \<Rightarrow> bool) \<Rightarrow> sched_line \<Rightarrow> driver \<Rightarrow> fault + driver" where
  "take_line lookup_disk valid directtcp sl st =
     (case lookup_disk (sl_host sl) (sl_disk sl) of
        None \<Rightarrow> Inr st
      | Some dp \<Rightarrow>
          let st = unqueue Waitq dp (upd_disk dp (fill_sched sl) st) in
          if \<not> valid dp then Inl Out_of_bounds
          else
            let st = (if directtcp dp \<and> d_to_holdingdisk (disks st dp) = HOLD_AUTO
                      then upd_disk dp (\<lambda>d. d\<lparr>d_to_holdingdisk := HOLD_NEVER\<rparr>) st else st) in
            Inr (enqueue (if d_to_holdingdisk (disks st dp) = HOLD_NEVER then Directq else Runq) dp st))"

fun take_lines ::
  "(string \<Rightarrow> string \<Rightarrow> nat option) \<Rightarrow> (nat \<Rightarrow> bool) \<Rightarrow> (nat \<Rightarrow> bool) \<Rightarrow> sched_line list \<Rightarrow> driver \<Rightarrow> fault + driver" where
  "take_lines lookup_disk valid directtcp [] st = Inr st"
| "take_lines lookup_disk valid directtcp (sl # sls) st =
     bind_r (take_line lookup_disk valid directtcp sl st) (take_lines lookup_disk valid directtcp sls)"

definition read_lines_of :: "string \<Rightarrow> fault + sched_line list" where
  "read_lines_of stream = collect_r (map schedule_line (filter (\<lambda>line. line \<noteq> []) (agets_lines stream)))"

definition read_schedule ::
  "(string \<Rightarrow> string \<Rightarrow> nat option) \<Rightarrow> (nat \<Rightarrow> bool) \<Rightarrow> (nat \<Rightarrow> bool) \<Rightarrow> world \<Rightarrow> string \<Rightarrow> driver \<Rightarrow> fault + driver" where
  "read_schedule lookup_disk valid directtcp w stream st =
     bind_r (read_lines_of stream) (\<lambda>sls.
       steps
         [take_lines lookup_disk valid directtcp sls,
          pure (\<lambda>st. start_degraded_mode (st\<lparr>schedule_done := True\<rparr>)),
          pure (\<lambda>st. if queues st Runq = [] then st\<lparr>force_flush := True\<rparr> else st),
          start_some_dumps w, startaflush] st)"

end
