(* ===== verification/Planner_Results.thy ===== *)
theory Planner_Results
  imports Planner_Asks Schedule_Text Protocol
begin

text \<open>
  The answers to the requests for estimates (\<open>handle_result\<close> of \<open>server-src/planner.c\<close>, and the end of
  \<open>get_estimates\<close>): the lines of a reply fill in the estimates, and the disks of the host move from the queue of those
  that wait (\<open>waitq\<close>) to those with partial results (\<open>pestq\<close>), with estimates (\<open>estq\<close>) or without (\<open>failq\<close>); then the
  host is asked again. Scripts and log lines are not modelled, and so is what happens to the links of a queue when
  \<open>remove_disk\<close> is given the wrong queue: then nothing is removed here. Where the code writes a NUL over the end of a field
  and a newline ends it, no number follows, as in the schedule lines.
\<close>

section \<open>One line of a reply\<close>

definition lookup_hostdisk :: "am_host \<Rightarrow> (nat \<Rightarrow> pdisk) \<Rightarrow> string \<Rightarrow> nat option" where
  "lookup_hostdisk hp dk str = find (\<lambda>d. pd_name (dk d) = str) (snd hp)"

fun skip_quoted_line :: "bool \<Rightarrow> string \<Rightarrow> string" where
  "skip_quoted_line iq [] = []"
| "skip_quoted_line iq (c # cs) =
     (if \<not> iq \<and> c = CHR 0x0A then cs else skip_quoted_line (if c = CHR 0x22 then \<not> iq else iq) cs)"

text \<open>\<open>strstr\<close>: the text from the first occurrence on, and the character before it.\<close>

fun strstr :: "char option \<Rightarrow> string \<Rightarrow> string \<Rightarrow> (char option \<times> string) option" where
  "strstr prev [] key = (if key = [] then Some (prev, []) else None)"
| "strstr prev (c # cs) key = (if strncmp_const (c # cs) key then Some (prev, c # cs) else strstr (Some c) cs key)"

text \<open>The result of a line: an error message, or the rest of the reply; with the state in both cases.\<close>

type_synonym line_result = "(string + string) \<times> results"

definition noop_unknown :: "string \<Rightarrow> bool" where
  "noop_unknown t \<longleftrightarrow> t = ''unknown service: noop'' \<or> t = ''noop: invalid service''"

definition options_line :: "am_host \<Rightarrow> string \<Rightarrow> results \<Rightarrow> line_result" where
  "options_line hostp s st =
     (case strstr None s ''features='' of
        Some (Some c, t) \<Rightarrow>
          if g_ascii_isspace c \<or> c = CHR '';'' then
            let features = am_string_to_feature (Some (takeWhile (\<lambda>c. c \<noteq> CHR '';'') (drop 9 t)));
                st = st\<lparr>rs_features := (rs_features st)(fst hostp := features)\<rparr> in
            if features = None then (Inl (fst hostp), st) else (Inr (skip_quoted_line False s), st)
          else (Inr (skip_quoted_line False s), st)
      | _ \<Rightarrow> (Inr (skip_quoted_line False s), st))"

text \<open>\<open>fp\<close>: the text from the space at the end of \<open>ERROR\<close> or \<open>WARNING\<close> on.\<close>

definition error_line :: "am_host \<Rightarrow> pktype \<Rightarrow> string \<Rightarrow> string \<Rightarrow> results \<Rightarrow> line_result" where
  "error_line hostp type s fp st =
     (let t = skip_whitespace fp in
      if rs_features st (fst hostp) = None \<and> type = P_NAK \<and> noop_unknown (if t \<noteq> [] \<and> hd t = CHR 0x0A then [] else t)
      then (Inr (skip_quoted_line False s), st)
      else (Inl (fst hostp @ (if type = P_NAK then ''NAK '' else []) @ '': '' @ takeWhile (\<lambda>c. c \<noteq> CHR 0x0A) fp), st))"

definition bad_msg :: "am_host \<Rightarrow> results \<Rightarrow> line_result" where
  "bad_msg hostp st = (Inl (''badly formatted response from '' @ fst hostp), st)"

text \<open>The estimate of a level is taken over; the client may take back an estimate with the size -2.\<close>

definition take_size :: "int \<Rightarrow> nat \<Rightarrow> est_t \<Rightarrow> est_t" where
  "take_size n i ep =
     (if n = - 2 then ep\<lparr>es_estimate := (es_estimate ep)[i := (es_estimate ep ! i)\<lparr>oe_nsize := - 1, oe_guessed := False\<rparr>]\<rparr>
      else if n > - 1 then ep\<lparr>es_estimate := (es_estimate ep)[i := (es_estimate ep ! i)\<lparr>oe_nsize := n, oe_guessed := False\<rparr>]\<rparr>
      else ep)"

text \<open>What follows the level: the size with the rest of the line, or an error text for the disk.\<close>

definition size_or_error :: "pktype \<Rightarrow> string \<Rightarrow> est_t \<Rightarrow> fault + (int \<times> string \<times> est_t)" where
  "size_or_error type t ep =
     (if strncmp_const t ''SIZE '' then Inr (the (scan_int (drop 5 t)), t, ep)
      else
        case skip_quoted_string False (skip_whitespace (snd (skip_non_whitespace t))) of
          (msg, rest) \<Rightarrow>
            if type = P_REP \<and> es_errstr ep = None
            then map_r (\<lambda>e. (- 1, rest, ep\<lparr>es_errstr := Some e\<rparr>)) (unquote_string (Some msg))
            else Inr (- 1, rest, ep))"

text \<open>The level must be one that was asked for; clients report level 0 for some errors all the same.\<close>

definition take_answer :: "am_host \<Rightarrow> int \<Rightarrow> nat \<Rightarrow> results \<Rightarrow> int \<times> string \<times> est_t \<Rightarrow> line_result" where
  "take_answer hostp level d st = (\<lambda>(n, rest, ep).
     case find_level level 0 (es_estimate ep) of
       None \<Rightarrow>
         if level > 0 then bad_msg hostp (rs_set_up d ep st)
         else (Inr (skip_quoted_line False rest), (rs_set_up d ep st)\<lparr>rs_got := (rs_got st)(d := rs_got st d + 1)\<rparr>)
     | Some i \<Rightarrow>
         (Inr (skip_quoted_line False rest),
          (rs_set_up d (take_size n i ep) st)\<lparr>rs_got := (rs_got st)(d := rs_got st d + 1)\<rparr>))"

definition disk_answer :: "am_host \<Rightarrow> pktype \<Rightarrow> int \<Rightarrow> string \<Rightarrow> nat \<Rightarrow> results \<Rightarrow> fault + line_result" where
  "disk_answer hostp type level t d st =
     (if strncmp_const t ''SIZE '' \<and> scan_int (drop 5 t) = None \<or>
         \<not> strncmp_const t ''SIZE '' \<and> \<not> strncmp_const t ''ERROR '' \<and> \<not> strncmp_const t ''WARNING ''
      then Inr (bad_msg hostp st)
      else
        case pd_up (rs_disks st d) of
          None \<Rightarrow> Inl Out_of_bounds
        | Some ep \<Rightarrow> map_r (take_answer hostp level d st) (size_or_error type t ep))"

definition disk_line :: "am_host \<Rightarrow> pktype \<Rightarrow> string \<Rightarrow> results \<Rightarrow> fault + line_result" where
  "disk_line hostp type s st =
     (case skip_quoted_string False s of
        (msg, rest) \<Rightarrow>
          bind_r (unquote_string (Some msg)) (\<lambda>disk.
            let t = skip_whitespace (if rest \<noteq> [] \<and> hd rest = CHR 0x0A then [] else rest) in
            case scan_int t of
              None \<Rightarrow> Inr (bad_msg hostp st)
            | Some level \<Rightarrow>
                let t = skip_whitespace (skip_integer t) in
                (case lookup_hostdisk hostp (rs_disks st) disk of
                   None \<Rightarrow> Inr (bad_msg hostp st)
                 | Some d \<Rightarrow> disk_answer hostp type level t d st)))"

definition reply_line :: "am_host \<Rightarrow> pktype \<Rightarrow> string \<Rightarrow> results \<Rightarrow> fault + line_result" where
  "reply_line hostp type s st =
     (if strncmp_const s ''OPTIONS '' then Inr (options_line hostp s st)
      else if strncmp_const s ''ERROR '' then Inr (error_line hostp type s (drop 5 s) st)
      else if strncmp_const s ''WARNING '' then Inr (error_line hostp type s (drop 7 s) st)
      else disk_line hostp type s st)"

section \<open>The lines of a reply\<close>

lemma skip_quoted_line_shorter: "length (skip_quoted_line iq s) \<le> length s - 1"
proof (induction s arbitrary: iq)
  case (Cons c cs)
  have "length (skip_quoted_line iq' cs) \<le> length cs" for iq' using Cons [of iq'] by linarith
  then show ?case by simp
qed simp

lemma skip_quoted_string_shorter: "length (snd (skip_quoted_string iq s)) \<le> length s"
proof (induction s arbitrary: iq rule: length_induct)
  case (1 s)
  show ?case
  proof (cases s)
    case (Cons c cs)
    have cs: "length (snd (skip_quoted_string iq' cs)) \<le> Suc (length cs)" for iq' using 1 [rule_format, of cs iq'] Cons by simp
    have "length (snd (skip_quoted_string iq' ds)) \<le> Suc (Suc (length ds))" if "cs = d # ds" for iq' d ds
      using 1 [rule_format, of ds iq'] Cons that by simp
    then have "length (snd (case cs of [] \<Rightarrow> ([c], []) | d # ds \<Rightarrow> apfst (\<lambda>w. c # d # w) (skip_quoted_string iq ds))) \<le> Suc (length cs)"
      by (auto split: list.split)
    with cs show ?thesis unfolding Cons by simp
  qed simp
qed

lemma skip_whitespace_shorter: "length (skip_whitespace s) \<le> length s"
  by (simp add: skip_whitespace_def length_dropWhile_le)

lemma skip_integer_shorter: "length (skip_integer s) \<le> length s"
proof -
  have "length (drop 1 s) \<le> length s" by simp
  then have "length (dropWhile is_digit (drop 1 s)) \<le> length s"
    using length_dropWhile_le [of is_digit "drop 1 s"] by linarith
  then show ?thesis by (simp add: skip_integer_def length_dropWhile_le)
qed

text \<open>What is read after the level: a size leaves the block alone, an error text changes the error text at most.\<close>

lemma size_or_error_cases:
  assumes "size_or_error type t ep = Inr (n, rest, ep')"
  shows "length rest \<le> length t" "ep' = ep \<or> (\<exists>e. ep' = ep\<lparr>es_errstr := Some e\<rparr>)"
proof -
  obtain msg r0 where q: "skip_quoted_string False (skip_whitespace (snd (skip_non_whitespace t))) = (msg, r0)" by force
  have "length (snd (skip_quoted_string False (skip_whitespace (snd (skip_non_whitespace t))))) \<le> length t"
    using skip_quoted_string_shorter [of False "skip_whitespace (snd (skip_non_whitespace t))"]
      skip_whitespace_shorter [of "snd (skip_non_whitespace t)"] length_dropWhile_le [of "\<lambda>c. \<not> g_ascii_isspace c" t]
    by (simp add: skip_non_whitespace_def)
  then have r0: "length r0 \<le> length t" by (simp add: q)
  consider "rest = t" "ep' = ep" | e where "rest = r0" "ep' = ep\<lparr>es_errstr := Some e\<rparr>" | "rest = r0" "ep' = ep"
  proof -
    have e: "if strncmp_const t ''SIZE '' then rest = t \<and> ep' = ep
        else if type = P_REP \<and> es_errstr ep = None then rest = r0 \<and> (\<exists>e. ep' = ep\<lparr>es_errstr := Some e\<rparr>)
        else rest = r0 \<and> ep' = ep"
      using assms unfolding size_or_error_def q prod.case by (simp only: map_r_eq_Inr_iff split: if_split_asm) auto
    show thesis using e that by (simp only: split: if_split_asm) blast+
  qed
  then show "length rest \<le> length t" "ep' = ep \<or> (\<exists>e. ep' = ep\<lparr>es_errstr := Some e\<rparr>)"
    by (cases; use r0 in simp; blast)+
qed

text \<open>What a line for a disk can do: nothing but an error message, or take over an answer of the block of a disk of the host.\<close>

lemma disk_line_cases:
  assumes "disk_line hostp type s st = Inr r"
  obtains (bad) "r = bad_msg hostp st"
  | (answer) d ep level t n rest ep' where
      "d \<in> set (snd hostp)" "pd_up (rs_disks st d) = Some ep" "length t \<le> length s"
      "size_or_error type t ep = Inr (n, rest, ep')" "r = take_answer hostp level d st (n, rest, ep')"
proof -
  obtain msg r0 where q: "skip_quoted_string False s = (msg, r0)" by force
  define t0 where "t0 = skip_whitespace (if r0 \<noteq> [] \<and> hd r0 = CHR 0x0A then [] else r0)"
  define t where "t = skip_whitespace (skip_integer t0)"
  have r0: "length r0 \<le> length s" using skip_quoted_string_shorter [of False s] by (simp add: q)
  have "length (if r0 \<noteq> [] \<and> hd r0 = CHR 0x0A then [] else r0) \<le> length r0" by simp
  then have "length t0 \<le> length s"
    using r0 skip_whitespace_shorter [of "if r0 \<noteq> [] \<and> hd r0 = CHR 0x0A then [] else r0"] unfolding t0_def by linarith
  then have t: "length t \<le> length s"
    using skip_whitespace_shorter [of "skip_integer t0"] skip_integer_shorter [of t0] unfolding t_def by linarith
  from assms obtain disk where
    "(case scan_int t0 of None \<Rightarrow> Inr (bad_msg hostp st)
      | Some level \<Rightarrow> (case lookup_hostdisk hostp (rs_disks st) disk of None \<Rightarrow> Inr (bad_msg hostp st)
          | Some d \<Rightarrow> disk_answer hostp type level t d st)) = Inr r"
    unfolding disk_line_def q prod.case Let_def t0_def [symmetric] t_def [symmetric] bind_r_eq_Inr_iff by blast
  then consider "r = bad_msg hostp st"
    | level d where "lookup_hostdisk hostp (rs_disks st) disk = Some d" "disk_answer hostp type level t d st = Inr r"
    by (auto split: option.splits)
  then show thesis
  proof cases
    case (2 level d)
    then have "d \<in> set (snd hostp)" by (auto simp: lookup_hostdisk_def find_Some_iff)
    moreover have "r = bad_msg hostp st \<or>
        (\<exists>ep n rest ep'. pd_up (rs_disks st d) = Some ep \<and> size_or_error type t ep = Inr (n, rest, ep') \<and>
           r = take_answer hostp level d st (n, rest, ep'))"
      using 2(2) by (simp add: disk_answer_def map_r_eq_Inr_iff split: if_splits option.splits)
    ultimately show thesis using bad answer t by metis
  qed (rule bad)
qed

lemma take_answer_rest: "fst (take_answer hostp level d st (n, rest, ep)) = Inr r \<Longrightarrow> r = skip_quoted_line False rest"
  by (auto simp: take_answer_def bad_msg_def split: option.splits if_splits)

lemma disk_line_shorter:
  assumes "disk_line hostp type s st = Inr (Inr rest, st')" "s \<noteq> []"
  shows "length rest < length s"
  using assms(1)
proof (cases rule: disk_line_cases)
  case (answer d ep level t n r ep')
  from answer(5) have "fst (take_answer hostp level d st (n, r, ep')) = Inr rest" by (metis fst_conv)
  then have "rest = skip_quoted_line False r" by (rule take_answer_rest)
  then show ?thesis
    using answer(3) size_or_error_cases(1) [OF answer(4)] skip_quoted_line_shorter [of False r] assms(2) by (cases s) auto
qed (simp add: bad_msg_def)

lemma reply_line_shorter:
  assumes "reply_line hostp type s st = Inr (Inr rest, st')" "s \<noteq> []"
  shows "length rest < length s"
proof -
  have q: "length (skip_quoted_line False s) < length s" using skip_quoted_line_shorter [of False s] assms(2) by (cases s) auto
  show ?thesis
    using assms(1) q disk_line_shorter [OF _ assms(2), of hostp type st rest st']
    by (auto simp: reply_line_def options_line_def error_line_def Let_def split: if_splits option.splits)
qed

function reply_lines :: "am_host \<Rightarrow> pktype \<Rightarrow> string \<Rightarrow> results \<Rightarrow> fault + (string option \<times> results)" where
  "reply_lines hostp type s st =
     (if s = [] then Inr (None, st)
      else
        case reply_line hostp type s st of
          Inl e \<Rightarrow> Inl e
        | Inr (Inl errbuf, st) \<Rightarrow> Inr (Some errbuf, st)
        | Inr (Inr rest, st) \<Rightarrow> reply_lines hostp type rest st)"
  by pat_completeness auto

termination by (relation "measure (\<lambda>(hostp, type, s, st). length s)") (auto dest: reply_line_shorter)

declare reply_lines.simps [simp del]

section \<open>The disks of the host\<close>

definition any_estimate :: "est_t \<Rightarrow> bool" where
  "any_estimate ep \<longleftrightarrow> list_ex (\<lambda>oe. oe_level oe \<noteq> - 1 \<and> oe_nsize oe > 0) (es_estimate ep)"

definition drop_missing :: "est_t \<Rightarrow> est_t" where
  "drop_missing ep =
     ep\<lparr>es_estimate := map (\<lambda>oe. if oe_level oe \<noteq> - 1 \<and> oe_nsize oe < 0 then oe\<lparr>oe_level := - 1\<rparr> else oe) (es_estimate ep)\<rparr>"

definition settle_disk :: "am_host \<Rightarrow> pktype \<Rightarrow> nat \<Rightarrow> results \<Rightarrow> fault + results" where
  "settle_disk hostp type d st =
     (let dp = rs_disks st d; qname = quote_string (pd_name dp) in
      if \<not> pd_todo dp then Inr st
      else
        case pd_up dp of
          None \<Rightarrow> Inl Out_of_bounds
        | Some ep \<Rightarrow>
            if es_state ep \<noteq> DISK_ACTIVE \<and> es_state ep \<noteq> DISK_PARTIALY_DONE then Inr st
            else
              let st = (if es_state ep = DISK_ACTIVE then st\<lparr>rs_waitq := remove1 d (rs_waitq st)\<rparr>
                        else st\<lparr>rs_pestq := remove1 d (rs_pestq st)\<rparr>);
                  ep = (if type = P_REP then ep\<lparr>es_state := DISK_DONE\<rparr>
                        else if type = P_PREP then ep\<lparr>es_state := DISK_PARTIALY_DONE\<rparr> else ep) in
              if oe_level (es_estimate ep ! 0) = - 1 then Inr (rs_set_up d ep st)
              else if type = P_PREP then Inr ((rs_set_up d ep st)\<lparr>rs_pestq := rs_pestq st @ [d]\<rparr>)
              else if type = P_REP then
                Inr ((if any_estimate ep then (rs_set_up d (drop_missing ep) st)\<lparr>rs_estq := rs_estq st @ [d]\<rparr>
                      else
                        (rs_set_up d
                          (if rs_got st d \<noteq> 0 \<and> es_errstr ep = None
                           then ep\<lparr>es_errstr := Some (''disk '' @ qname @ '', all estimate failed'')\<rparr>
                           else if es_errstr ep = None
                           then ep\<lparr>es_errstr := Some (''missing result for '' @ qname @ '' in '' @ fst hostp @ '' response'')\<rparr>
                           else ep) st)\<lparr>rs_failq := rs_failq st @ [d]\<rparr>)\<lparr>rs_up := (rs_up st)(fst hostp := HOST_DONE)\<rparr>)
              else Inr (rs_set_up d ep st))"

fun settle_disks :: "am_host \<Rightarrow> pktype \<Rightarrow> nat list \<Rightarrow> results \<Rightarrow> fault + results" where
  "settle_disks hostp type [] st = Inr st"
| "settle_disks hostp type (d # ds) st = bind_r (settle_disk hostp type d st) (settle_disks hostp type ds)"

text \<open>\<open>error_return\<close>: the disks that are active fail, or if there are none all disks.\<close>

definition fail_disk :: "string \<Rightarrow> nat \<Rightarrow> est_t \<Rightarrow> results \<Rightarrow> results" where
  "fail_disk errbuf d ep st =
     (rs_set_up d (ep\<lparr>es_state := DISK_DONE, es_errstr := Some errbuf\<rparr>) st)
       \<lparr>rs_waitq := remove1 d (rs_waitq st), rs_failq := rs_failq st @ [d]\<rparr>"

fun fail_disks :: "bool \<Rightarrow> string \<Rightarrow> nat list \<Rightarrow> nat \<times> results \<Rightarrow> fault + nat \<times> results" where
  "fail_disks only_active errbuf [] (i, st) = Inr (i, st)"
| "fail_disks only_active errbuf (d # ds) (i, st) =
     (if \<not> pd_todo (rs_disks st d) then fail_disks only_active errbuf ds (i, st)
      else
        case pd_up (rs_disks st d) of
          None \<Rightarrow> Inl Out_of_bounds
        | Some ep \<Rightarrow>
            if only_active \<and> es_state ep \<noteq> DISK_ACTIVE then fail_disks only_active errbuf ds (i, st)
            else fail_disks only_active errbuf ds (i + 1, fail_disk errbuf d ep st))"

definition error_return :: "am_host \<Rightarrow> string \<Rightarrow> results \<Rightarrow> fault + results" where
  "error_return hostp errbuf st =
     map_r (set_host hostp HOST_DONE)
       (bind_r (fail_disks True errbuf (snd hostp) (0, st)) (\<lambda>(i, st).
          if i = 0 then map_r snd (fail_disks False errbuf (snd hostp) (0, st)) else Inr st))"

text \<open>The check of a NAK: an error message, or the body that is parsed on.\<close>

definition nak_body :: "am_host \<Rightarrow> string \<Rightarrow> string + string" where
  "nak_body hostp body =
     (let failed = fst hostp @ '' NAK: [NAK parse failed]''; s = skip_whitespace (drop 6 body);
          remoterr = takeWhile (\<lambda>c. c \<noteq> CHR 0x0A) s in
      if \<not> strncmp_const body ''ERROR '' \<or> s = [] \<or> hd s = CHR 0x0A then Inl failed
      else if \<not> noop_unknown remoterr then Inl (fst hostp @ '' NAK: '' @ remoterr)
      else Inr (takeWhile (\<lambda>c. c \<noteq> CHR 0x0A) body))"

text \<open>The answer read, up to an error: no packet comes with the error of the security layer.\<close>

definition read_reply :: "am_host \<Rightarrow> string + pktype \<times> string \<Rightarrow> results \<Rightarrow> fault + (string option \<times> results)" where
  "read_reply hostp pkt st =
     (case pkt of
        Inl geterror \<Rightarrow>
          Inr (Some (if geterror = ''timeout waiting for REP''
                     then ''Some estimate timeout on '' @ fst hostp @ '', using server estimate if possible''
                     else ''Request to '' @ fst hostp @ '' failed: '' @ geterror), st)
      | Inr (type, body) \<Rightarrow>
          if type = P_NAK then
            (case nak_body hostp body of Inl errbuf \<Rightarrow> Inr (Some errbuf, st) | Inr body \<Rightarrow> reply_lines hostp type body st)
          else reply_lines hostp type body st)"

definition pkt_type :: "string + pktype \<times> string \<Rightarrow> pktype" where
  "pkt_type pkt = (case pkt of Inl _ \<Rightarrow> P_REP | Inr (type, _) \<Rightarrow> type)"

text \<open>After an answer without errors the host is asked again, for the disks that are still to be asked for.\<close>

definition handle_result :: "est_conf \<Rightarrow> am_host \<Rightarrow> string + pktype \<times> string \<Rightarrow> results \<Rightarrow> fault + results" where
  "handle_result c hostp pkt st =
     bind_r (read_reply hostp pkt (set_host hostp HOST_READY st)) (\<lambda>(err, st).
       case err of
         Some errbuf \<Rightarrow> error_return hostp errbuf st
       | None \<Rightarrow>
           let st = (if rs_up st (fst hostp) = HOST_READY \<and> rs_features st (fst hostp) = None
                     then st\<lparr>rs_features := (rs_features st)(fst hostp := Some am_set_default_feature_set)\<rparr> else st) in
           bind_r (settle_disks hostp (pkt_type pkt) (snd hostp) st) (getsize c hostp))"

section \<open>When no more answers come\<close>

definition strand :: "nat \<Rightarrow> results \<Rightarrow> results" where
  "strand d st = (rs_set_up d ((the (pd_up (rs_disks st d)))\<lparr>es_errstr := Some ''hmm, disk was stranded on waitq''\<rparr>) st)
     \<lparr>rs_failq := rs_failq st @ [d]\<rparr>"

definition end_partial :: "nat \<Rightarrow> results \<Rightarrow> results" where
  "end_partial d st =
     (let ep = drop_missing (the (pd_up (rs_disks st d))) in
      if any_estimate ep then (rs_set_up d ep st)\<lparr>rs_estq := rs_estq st @ [d]\<rparr>
      else
        (rs_set_up d (ep\<lparr>es_errstr := Some (''disk '' @ quote_string (pd_name (rs_disks st d)) @ '', all estimate timed out'')\<rparr>) st)
          \<lparr>rs_failq := rs_failq st @ [d]\<rparr>)"

definition end_estimates :: "results \<Rightarrow> results" where
  "end_estimates st =
     (let st = (fold strand (rs_waitq st) st)\<lparr>rs_waitq := []\<rparr> in
      (fold end_partial (rs_pestq st) st)\<lparr>rs_pestq := []\<rparr>)"

section \<open>What a line leaves alone\<close>

definition state_of :: "results \<Rightarrow> nat \<Rightarrow> est_state option" where
  "state_of st d = map_option es_state (pd_up (rs_disks st d))"

definition levels_of :: "results \<Rightarrow> nat \<Rightarrow> int list option" where
  "levels_of st d = map_option (\<lambda>ep. map oe_level (es_estimate ep)) (pd_up (rs_disks st d))"

definition same_queues :: "results \<Rightarrow> results \<Rightarrow> bool" where
  "same_queues st st' \<longleftrightarrow> rs_waitq st' = rs_waitq st \<and> rs_pestq st' = rs_pestq st \<and>
     rs_estq st' = rs_estq st \<and> rs_failq st' = rs_failq st"

definition lines_keep :: "results \<Rightarrow> results \<Rightarrow> bool" where
  "lines_keep st st' \<longleftrightarrow> same_queues st st' \<and> state_of st' = state_of st \<and> levels_of st' = levels_of st \<and>
     (\<forall>d. pd_todo (rs_disks st' d) = pd_todo (rs_disks st d))"

lemma lines_keep_refl [simp]: "lines_keep st st"
  by (simp add: lines_keep_def same_queues_def)

lemma lines_keep_trans: "lines_keep st st1 \<Longrightarrow> lines_keep st1 st2 \<Longrightarrow> lines_keep st st2"
  by (simp add: lines_keep_def same_queues_def)

lemma lines_keep_fields [simp]:
  "lines_keep st (st'\<lparr>rs_got := g\<rparr>) = lines_keep st st'" "lines_keep st (st'\<lparr>rs_features := f\<rparr>) = lines_keep st st'"
  "lines_keep st (st'\<lparr>rs_up := u\<rparr>) = lines_keep st st'"
  by (simp_all add: lines_keep_def same_queues_def state_of_def levels_of_def fun_eq_iff)

lemma lines_keep_set_up:
  assumes "pd_up (rs_disks st d) = Some ep" "es_state ep' = es_state ep"
    and "map oe_level (es_estimate ep') = map oe_level (es_estimate ep)"
  shows "lines_keep st (rs_set_up d ep' st)"
  using assms by (auto simp: lines_keep_def same_queues_def state_of_def levels_of_def rs_set_up_def fun_eq_iff)

lemma take_size_keeps: "es_state (take_size n i ep) = es_state ep"
  "map oe_level (es_estimate (take_size n i ep)) = map oe_level (es_estimate ep)"
  by (simp_all add: take_size_def map_update) (metis list_update_id length_map map_update nth_map list_update_beyond linorder_not_less)+

lemma reply_line_keeps:
  assumes "reply_line hostp type s st = Inr (r, st')"
  shows "lines_keep st st'"
proof -
  have "lines_keep st st'" if d: "disk_line hostp type s st = Inr (r, st')"
    using d
  proof (cases rule: disk_line_cases)
    case (answer d ep level t n rest ep')
    have e: "es_state ep' = es_state ep" "es_estimate ep' = es_estimate ep"
      using size_or_error_cases(2) [OF answer(4)] by auto
    have st': "st' = snd (take_answer hostp level d st (n, rest, ep'))" using answer(5) by (metis snd_conv)
    show ?thesis
      using lines_keep_set_up [OF answer(2), of ep'] lines_keep_set_up [OF answer(2), of "take_size n i ep'" for i] e
      unfolding st' by (auto simp: take_answer_def bad_msg_def take_size_keeps split: option.split)
  qed (simp add: bad_msg_def)
  moreover have "lines_keep st (snd (options_line hostp s st))" "lines_keep st (snd (error_line hostp type s fp st))" for fp
    by (auto simp: options_line_def error_line_def Let_def split: option.splits)
  ultimately show ?thesis using assms unfolding reply_line_def by (auto split: if_splits) (metis snd_conv)+
qed

lemma reply_lines_keep: "reply_lines hostp type s st = Inr (r, st') \<Longrightarrow> lines_keep st st'"
proof (induction hostp type s st arbitrary: r st' rule: reply_lines.induct)
  case (1 hostp type s st)
  show ?case
  proof (cases "s = []")
    case False
    show ?thesis
    proof (cases "reply_line hostp type s st")
      case (Inr x)
      obtain y st1 where x: "x = (y, st1)" by force
      note keep = reply_line_keeps [OF Inr [unfolded x]]
      show ?thesis
      proof (cases y)
        case (Inl e)
        with 1(2) False Inr x keep show ?thesis by (simp add: reply_lines.simps [of _ _ s])
      next
        case (Inr rest)
        with 1(2) False x \<open>reply_line hostp type s st = Inr x\<close> have "reply_lines hostp type rest st1 = Inr (r, st')"
          by (simp add: reply_lines.simps [of _ _ s])
        from 1(1) [OF False \<open>reply_line hostp type s st = Inr x\<close> x [symmetric] Inr this] keep show ?thesis by (blast intro: lines_keep_trans)
      qed
    qed (use 1(2) False in \<open>simp add: reply_lines.simps [of _ _ s]\<close>)
  qed (use 1(2) in \<open>simp add: reply_lines.simps\<close>)
qed

end
