(* ===== verification/Planner_Answers.thy ===== *)
theory Planner_Answers
  imports Planner_Results
begin

text \<open>
  The queues of the estimates, through all answers: each disk is on one queue at most, as its state says, and none is lost,
  whatever the hosts answer, as long as no error comes after partial results; what such a late error does; and how the
  estimates end, for the analysis of \<open>Planner_Books\<close>.
\<close>

section \<open>The queues\<close>

definition lv_ok :: "int list \<Rightarrow> bool" where
  "lv_ok ls \<longleftrightarrow> length ls = MAX_LEVELS \<and> (\<forall>lev \<in> set ls. - 1 \<le> lev \<and> lev < DUMP_LEVELS) \<and>
     distinct (filter (\<lambda>lev. lev \<noteq> - 1) ls)"

lemma levels_ok_lv: "levels_ok ep \<longleftrightarrow> lv_ok (map oe_level (es_estimate ep))"
  by (simp add: levels_ok_def lv_ok_def)

text \<open>
  Each disk is on one queue at most, as its state says; a disk that waits for an answer, or for the rest of it, has a level to
  be estimated first, and no level is there twice.
\<close>

definition on_queues :: "results \<Rightarrow> bool" where
  "on_queues st \<longleftrightarrow>
     distinct (rs_waitq st @ rs_pestq st @ rs_estq st @ rs_failq st) \<and>
     (\<forall>d \<in> set (rs_waitq st). state_of st d = Some DISK_ACTIVE) \<and>
     (\<forall>d \<in> set (rs_pestq st). state_of st d = Some DISK_PARTIALY_DONE) \<and>
     (\<forall>d \<in> set (rs_estq st) \<union> set (rs_failq st). state_of st d = Some DISK_DONE) \<and>
     (\<forall>d ls. state_of st d \<in> {Some DISK_ACTIVE, Some DISK_PARTIALY_DONE} \<longrightarrow> levels_of st d = Some ls \<longrightarrow> hd ls \<noteq> - 1)"

definition levels_fit :: "results \<Rightarrow> bool" where
  "levels_fit st \<longleftrightarrow> (\<forall>d ls. levels_of st d = Some ls \<longrightarrow> lv_ok ls)"

definition answered :: "results \<Rightarrow> bool" where
  "answered st \<longleftrightarrow> on_queues st \<and> levels_fit st"

definition queued :: "results \<Rightarrow> nat set" where
  "queued st = set (rs_waitq st) \<union> set (rs_pestq st) \<union> set (rs_estq st) \<union> set (rs_failq st)"

lemma answered_keep: "lines_keep st st' \<Longrightarrow> answered st' = answered st" "lines_keep st st' \<Longrightarrow> queued st' = queued st"
  by (simp_all add: lines_keep_def same_queues_def answered_def on_queues_def levels_fit_def queued_def)

lemma on_queues_fields [simp]:
  "on_queues (st\<lparr>rs_up := u\<rparr>) = on_queues st" "on_queues (st\<lparr>rs_features := f\<rparr>) = on_queues st"
  "levels_fit (st\<lparr>rs_up := u\<rparr>) = levels_fit st" "levels_fit (st\<lparr>rs_features := f\<rparr>) = levels_fit st"
  "levels_fit (st\<lparr>rs_waitq := q\<rparr>) = levels_fit st" "levels_fit (st\<lparr>rs_pestq := q\<rparr>) = levels_fit st"
  "levels_fit (st\<lparr>rs_estq := q\<rparr>) = levels_fit st" "levels_fit (st\<lparr>rs_failq := q\<rparr>) = levels_fit st"
  by (simp_all add: on_queues_def levels_fit_def state_of_def levels_of_def)

text \<open>What a step for the disk \<open>d\<close> of the host does to the queues: \<open>d\<close> leaves the queue of its state, its block changes, and it may be
  put on the queue of its new state.\<close>

definition taken_off :: "nat \<Rightarrow> est_t \<Rightarrow> results \<Rightarrow> results" where
  "taken_off d ep st =
     (rs_set_up d ep st)\<lparr>rs_waitq := remove1 d (rs_waitq st), rs_pestq := remove1 d (rs_pestq st)\<rparr>"

lemma queues_taken [simp]:
  "rs_waitq (taken_off d ep st) = remove1 d (rs_waitq st)" "rs_pestq (taken_off d ep st) = remove1 d (rs_pestq st)"
  "rs_estq (taken_off d ep st) = rs_estq st" "rs_failq (taken_off d ep st) = rs_failq st"
  by (simp_all add: taken_off_def rs_set_up_def)

lemma state_of_taken [simp]: "state_of (taken_off d ep st) = (state_of st)(d := Some (es_state ep))"
  "levels_of (taken_off d ep st) = (levels_of st)(d := Some (map oe_level (es_estimate ep)))"
  by (auto simp: fun_eq_iff state_of_def levels_of_def taken_off_def rs_set_up_def)

text \<open>A block as it may be stored: with its levels in order, and a first one while it waits.\<close>

definition sound_est :: "est_t \<Rightarrow> bool" where
  "sound_est ep \<longleftrightarrow> lv_ok (map oe_level (es_estimate ep)) \<and>
     (es_state ep = DISK_ACTIVE \<or> es_state ep = DISK_PARTIALY_DONE \<longrightarrow> oe_level (es_estimate ep ! 0) \<noteq> - 1)"

lemma sound_first: "lv_ok (map oe_level (es_estimate ep)) \<Longrightarrow> hd (map oe_level (es_estimate ep)) = oe_level (es_estimate ep ! 0)"
  by (cases "es_estimate ep") (simp_all add: lv_ok_def MAX_LEVELS_def)

lemma answered_sound: "answered st \<Longrightarrow> pd_up (rs_disks st d) = Some ep \<Longrightarrow> sound_est ep"
proof -
  assume a: "answered st" "pd_up (rs_disks st d) = Some ep"
  then have s: "state_of st d = Some (es_state ep)" "levels_of st d = Some (map oe_level (es_estimate ep))"
    by (simp_all add: state_of_def levels_of_def)
  then have lv: "lv_ok (map oe_level (es_estimate ep))" using a(1) by (simp add: answered_def levels_fit_def)
  have "state_of st d \<in> {Some DISK_ACTIVE, Some DISK_PARTIALY_DONE} \<Longrightarrow> hd (map oe_level (es_estimate ep)) \<noteq> - 1"
    using a(1) s(2) unfolding answered_def on_queues_def by blast
  then show "sound_est ep" using lv s(1) unfolding sound_est_def sound_first [OF lv] by auto
qed

lemma on_queues_off:
  assumes "on_queues st" "state_of st d = Some x" "x \<noteq> DISK_DONE" "sound_est ep"
  shows "on_queues (taken_off d ep st) \<and> d \<notin> queued (taken_off d ep st) \<and> queued st \<subseteq> insert d (queued (taken_off d ep st))"
proof -
  have "d \<notin> set (rs_estq st)" "d \<notin> set (rs_failq st)" using assms by (auto simp: on_queues_def)
  moreover have "set (remove1 d q) = set q - {d}" if "distinct q" for q :: "nat list" using that by simp
  moreover have "distinct (rs_waitq st)" "distinct (rs_pestq st)" using assms(1) by (auto simp: on_queues_def)
  ultimately show ?thesis
    using assms(1,4) sound_first [of ep] unfolding on_queues_def queued_def sound_est_def by auto
qed

lemma on_queues_put:
  assumes "on_queues st" "d \<notin> queued st"
  shows "state_of st d = Some DISK_DONE \<Longrightarrow> on_queues (st\<lparr>rs_estq := rs_estq st @ [d]\<rparr>)"
    "state_of st d = Some DISK_DONE \<Longrightarrow> on_queues (st\<lparr>rs_failq := rs_failq st @ [d]\<rparr>)"
    "state_of st d = Some DISK_PARTIALY_DONE \<Longrightarrow> on_queues (st\<lparr>rs_pestq := rs_pestq st @ [d]\<rparr>)"
    "state_of st d = Some DISK_ACTIVE \<Longrightarrow> on_queues (st\<lparr>rs_waitq := rs_waitq st @ [d]\<rparr>)"
  using assms by (auto simp: on_queues_def queued_def state_of_def levels_of_def)

lemma remove_other:
  assumes "on_queues st" "state_of st d = Some x"
  shows "x \<noteq> DISK_ACTIVE \<Longrightarrow> remove1 d (rs_waitq st) = rs_waitq st"
    "x \<noteq> DISK_PARTIALY_DONE \<Longrightarrow> remove1 d (rs_pestq st) = rs_pestq st"
  using assms by (auto simp: on_queues_def intro!: remove1_idem)

lemma levels_fit_off: "levels_fit st \<Longrightarrow> lv_ok (map oe_level (es_estimate ep)) \<Longrightarrow> levels_fit (taken_off d ep st)"
  by (auto simp: levels_fit_def)

lemma lv_ok_drop: "lv_ok (map oe_level (es_estimate ep)) \<Longrightarrow> lv_ok (map oe_level (es_estimate (drop_missing ep)))"
proof -
  have "distinct (filter (\<lambda>lev. lev \<noteq> - 1) (map oe_level oes)) \<Longrightarrow>
      distinct (filter (\<lambda>lev. lev \<noteq> - 1)
        (map oe_level (map (\<lambda>oe. if oe_level oe \<noteq> - 1 \<and> oe_nsize oe < 0 then oe\<lparr>oe_level := - 1\<rparr> else oe) oes)))" for oes
    by (induction oes) (auto split: if_split_asm)
  then show "lv_ok (map oe_level (es_estimate ep)) \<Longrightarrow> ?thesis" by (auto simp: lv_ok_def drop_missing_def DUMP_LEVELS_def)
qed

section \<open>Settling a disk\<close>

text \<open>The step of one disk keeps the queues right and takes the disk off \<open>waitq\<close>; unless \<open>lost\<close>, no disk leaves the queues.\<close>

definition step_ok :: "bool \<Rightarrow> nat \<Rightarrow> results \<Rightarrow> results \<Rightarrow> bool" where
  "step_ok lost d st st' \<longleftrightarrow>
     answered st' \<and> (\<forall>d1. pd_todo (rs_disks st' d1) = pd_todo (rs_disks st d1)) \<and>
     (\<forall>d1. d1 \<noteq> d \<longrightarrow> state_of st' d1 = state_of st d1) \<and>
     set (rs_waitq st') \<subseteq> set (rs_waitq st) \<and> (pd_todo (rs_disks st d) \<longrightarrow> d \<notin> set (rs_waitq st')) \<and>
     (lost \<or> queued st \<subseteq> queued st')"

lemma step_ok_refl: "answered st \<Longrightarrow> pd_todo (rs_disks st d) \<longrightarrow> d \<notin> set (rs_waitq st) \<Longrightarrow> step_ok lost d st st"
  by (simp add: step_ok_def)

lemma taken_todo [simp]: "pd_todo (rs_disks (taken_off d ep st) d1) = pd_todo (rs_disks st d1)"
  by (simp add: taken_off_def rs_set_up_def)

lemma step_ok_off:
  assumes "answered st" "state_of st d = Some x" "x \<noteq> DISK_DONE" "sound_est ep" "lost \<or> d \<notin> queued st"
  shows "step_ok lost d st (taken_off d ep st)"
  using assms on_queues_off [of st d x ep] levels_fit_off [of st ep d]
  by (auto simp: step_ok_def answered_def queued_def sound_est_def dest: subsetD [OF set_remove1_subset])

lemma step_ok_moved:
  assumes "answered st" "state_of st d = Some x" "x \<noteq> DISK_DONE" "sound_est ep"
  shows "es_state ep = DISK_DONE \<Longrightarrow> step_ok lost d st ((taken_off d ep st)\<lparr>rs_estq := rs_estq st @ [d]\<rparr>)" (is "_ \<Longrightarrow> ?E")
    "es_state ep = DISK_DONE \<Longrightarrow> step_ok lost d st ((taken_off d ep st)\<lparr>rs_failq := rs_failq st @ [d]\<rparr>)" (is "_ \<Longrightarrow> ?F")
    "es_state ep = DISK_PARTIALY_DONE \<Longrightarrow> step_ok lost d st ((taken_off d ep st)\<lparr>rs_pestq := remove1 d (rs_pestq st) @ [d]\<rparr>)" (is "_ \<Longrightarrow> ?P")
proof -
  define t where "t = taken_off d ep st"
  have o: "on_queues t" "d \<notin> queued t" "queued st \<subseteq> insert d (queued t)"
    using on_queues_off [of st d x ep] assms by (simp_all add: answered_def t_def)
  have l: "levels_fit t" using levels_fit_off assms(1,4) by (simp add: answered_def t_def sound_est_def)
  have w: "set (rs_waitq t) \<subseteq> set (rs_waitq st)" "d \<notin> set (rs_waitq t)" "d1 \<noteq> d \<Longrightarrow> state_of t d1 = state_of st d1"
      "pd_todo (rs_disks t d1) = pd_todo (rs_disks st d1)" for d1
    using o(2) by (auto simp: t_def queued_def dest: subsetD [OF set_remove1_subset])
  have q: "rs_estq t = rs_estq st" "rs_failq t = rs_failq st" "rs_pestq t = remove1 d (rs_pestq st)" by (simp_all add: t_def)
  have x: "step_ok lost d st t'" if "on_queues t'" "rs_disks t' = rs_disks t" "rs_waitq t' = rs_waitq t" "queued t' = insert d (queued t)" for t'
  proof -
    have "levels_fit t'" "state_of t' = state_of t" using l that(2) by (simp_all add: levels_fit_def levels_of_def state_of_def fun_eq_iff)
    then show ?thesis using w o(3) that by (auto simp: step_ok_def answered_def)
  qed
  have st: "state_of t d = Some (es_state ep)" by (simp add: t_def)
  show ?E if "es_state ep = DISK_DONE"
    using on_queues_put(1) [OF o(1,2)] st that by (intro x [unfolded t_def]) (auto simp: queued_def t_def)
  show ?F if "es_state ep = DISK_DONE"
    using on_queues_put(2) [OF o(1,2)] st that by (intro x [unfolded t_def]) (auto simp: queued_def t_def)
  show ?P if "es_state ep = DISK_PARTIALY_DONE"
    using on_queues_put(3) [OF o(1,2)] st that by (intro x [unfolded t_def]) (auto simp: queued_def t_def)
qed

lemma step_ok_up [simp]: "step_ok lost d st (st'\<lparr>rs_up := u\<rparr>) = step_ok lost d st st'"
proof -
  have "state_of (st'\<lparr>rs_up := u\<rparr>) = state_of st'" by (simp add: state_of_def fun_eq_iff)
  then show ?thesis by (simp add: step_ok_def answered_def queued_def)
qed

lemma settle_disk_ok:
  assumes "answered st" "settle_disk hostp type d st = Inr st'"
  shows "step_ok (type \<noteq> P_REP \<and> type \<noteq> P_PREP) d st st'"
proof (cases "pd_todo (rs_disks st d) \<and> (state_of st d = Some DISK_ACTIVE \<or> state_of st d = Some DISK_PARTIALY_DONE)")
  case False
  then have "st' = st" using assms(2) by (auto simp: settle_disk_def state_of_def Let_def split: if_splits option.splits)
  moreover have "pd_todo (rs_disks st d) \<longrightarrow> d \<notin> set (rs_waitq st)" using False assms(1) by (auto simp: answered_def on_queues_def)
  ultimately show ?thesis using step_ok_refl assms(1) by blast
next
  case True
  then obtain ep where ep: "pd_up (rs_disks st d) = Some ep" "es_state ep = DISK_ACTIVE \<or> es_state ep = DISK_PARTIALY_DONE"
    by (auto simp: state_of_def)
  define ep1 where "ep1 = (if type = P_REP then ep\<lparr>es_state := DISK_DONE\<rparr> else if type = P_PREP then ep\<lparr>es_state := DISK_PARTIALY_DONE\<rparr> else ep)"
  define st1 where "st1 = (if es_state ep = DISK_ACTIVE then st\<lparr>rs_waitq := remove1 d (rs_waitq st)\<rparr> else st\<lparr>rs_pestq := remove1 d (rs_pestq st)\<rparr>)"
  have so: "state_of st d = Some (es_state ep)" using ep(1) by (simp add: state_of_def)
  have off: "rs_set_up d e st1 = taken_off d e st" for e
    using remove_other [of st d, OF _ so] assms(1) ep(2) by (auto simp: st1_def taken_off_def rs_set_up_def answered_def)
  have q1: "rs_pestq st1 = remove1 d (rs_pestq st)" "rs_estq st1 = rs_estq st" "rs_failq st1 = rs_failq st"
    using remove_other [of st d, OF _ so] assms(1) by (auto simp: st1_def answered_def)
  have snd: "sound_est ep" by (rule answered_sound [OF assms(1) ep(1)])
  then have first: "oe_level (es_estimate ep1 ! 0) \<noteq> - 1" and lv: "sound_est ep1"
    using ep(2) by (auto simp: sound_est_def ep1_def)
  have nd: "es_state ep \<noteq> DISK_DONE" using ep(2) by auto
  note moved = step_ok_moved [OF assms(1) so nd]
  define ep2 where "ep2 =
    (if rs_got st d \<noteq> 0 \<and> es_errstr ep = None
     then ep1\<lparr>es_errstr := Some (''disk '' @ quote_string (pd_name (rs_disks st d)) @ '', all estimate failed'')\<rparr>
     else if es_errstr ep = None
     then ep1\<lparr>es_errstr := Some (''missing result for '' @ quote_string (pd_name (rs_disks st d)) @ '' in '' @ fst hostp @ '' response'')\<rparr>
     else ep1)"
  have ep2: "es_state ep2 = es_state ep1" "es_estimate ep2 = es_estimate ep1" by (simp_all add: ep2_def)
  have s': "st' = (if oe_level (es_estimate ep1 ! 0) = - 1 then taken_off d ep1 st
      else if type = P_PREP then (taken_off d ep1 st)\<lparr>rs_pestq := remove1 d (rs_pestq st) @ [d]\<rparr>
      else if type = P_REP then
        (if any_estimate ep1 then (taken_off d (drop_missing ep1) st)\<lparr>rs_estq := rs_estq st @ [d]\<rparr>
         else (taken_off d ep2 st)\<lparr>rs_failq := rs_failq st @ [d]\<rparr>)\<lparr>rs_up := (rs_up st)(fst hostp := HOST_DONE)\<rparr>
      else taken_off d ep1 st)" (is "_ = ?result")
  proof -
    have e1: "es_errstr ep1 = es_errstr ep" "rs_got st1 = rs_got st" "rs_up st1 = rs_up st" by (simp_all add: ep1_def st1_def)
    have c: "(\<not> pd_todo (rs_disks st d)) = False" "(es_state ep \<noteq> DISK_ACTIVE \<and> es_state ep \<noteq> DISK_PARTIALY_DONE) = False"
      using True ep(2) by simp_all
    have "settle_disk hostp type d st = Inr ?result"
      unfolding settle_disk_def Let_def ep(1) option.case c if_False st1_def [symmetric] ep1_def [symmetric] off q1 e1 ep2_def [symmetric]
      by (cases "oe_level (es_estimate ep1 ! 0) = - 1"; cases "type = P_PREP"; cases "type = P_REP") (simp_all only: if_True if_False simp_thms)
    then show ?thesis using assms(2) by simp
  qed
  show ?thesis
  proof (cases "type \<noteq> P_PREP \<and> type \<noteq> P_REP")
    case True
    then have "st' = taken_off d ep1 st" unfolding s' by (elim conjE) (simp only: if_True if_False simp_thms if_cancel)
    then show ?thesis using step_ok_off [OF assms(1) so nd lv] True by simp
  next
    case False
    then have c: "oe_level (es_estimate ep1 ! 0) \<noteq> - 1" "type = P_PREP \<or> type = P_REP" using first by auto
    show ?thesis
    proof (cases "type = P_PREP")
      case True
      have "es_state ep1 = DISK_PARTIALY_DONE" using True by (simp add: ep1_def)
      moreover have "st' = (taken_off d ep1 st)\<lparr>rs_pestq := remove1 d (rs_pestq st) @ [d]\<rparr>"
        unfolding s' using c(1) True by (simp only: if_True if_False simp_thms)
      ultimately show ?thesis using moved(3) [OF lv] by simp
    next
      case False
      have fin: "es_state ep1 = DISK_DONE" "es_state (drop_missing ep1) = DISK_DONE" using False c(2) by (simp_all add: ep1_def drop_missing_def)
      then have "sound_est (drop_missing ep1)" "sound_est ep2" using lv lv_ok_drop [of ep1] ep2 by (simp_all add: sound_est_def)
      with fin have "step_ok lost d st ((taken_off d (drop_missing ep1) st)\<lparr>rs_estq := rs_estq st @ [d]\<rparr>)"
          "step_ok lost d st ((taken_off d ep2 st)\<lparr>rs_failq := rs_failq st @ [d]\<rparr>)" for lost
        using moved(1) [of "drop_missing ep1"] moved(2) [of ep2] fin ep2 by simp_all
      moreover have "st' = (if any_estimate ep1 then (taken_off d (drop_missing ep1) st)\<lparr>rs_estq := rs_estq st @ [d]\<rparr>
          else (taken_off d ep2 st)\<lparr>rs_failq := rs_failq st @ [d]\<rparr>)\<lparr>rs_up := (rs_up st)(fst hostp := HOST_DONE)\<rparr>"
        unfolding s' using c False by (elim disjE) (simp_all only: if_True if_False simp_thms)
      ultimately show ?thesis by (simp split: if_split)
    qed
  qed
qed

section \<open>The disks of a host\<close>

definition host_ok :: "bool \<Rightarrow> nat list \<Rightarrow> results \<Rightarrow> results \<Rightarrow> bool" where
  "host_ok lost ds st st' \<longleftrightarrow>
     answered st' \<and> (\<forall>d1. pd_todo (rs_disks st' d1) = pd_todo (rs_disks st d1)) \<and>
     set (rs_waitq st') \<subseteq> set (rs_waitq st) \<and> (\<forall>d \<in> set ds. pd_todo (rs_disks st d) \<longrightarrow> d \<notin> set (rs_waitq st')) \<and>
     (lost \<or> queued st \<subseteq> queued st')"

lemma host_ok_Nil: "answered st \<Longrightarrow> host_ok lost [] st st"
  by (simp add: host_ok_def)

lemma host_ok_Cons: "step_ok lost d st st1 \<Longrightarrow> host_ok lost ds st1 st' \<Longrightarrow> host_ok lost (d # ds) st st'"
  by (auto simp: step_ok_def host_ok_def)

lemma settle_disks_ok:
  "answered st \<Longrightarrow> settle_disks hostp type ds st = Inr st' \<Longrightarrow> host_ok (type \<noteq> P_REP \<and> type \<noteq> P_PREP) ds st st'"
proof (induction hostp type ds st rule: settle_disks.induct)
  case (2 hostp type d ds st)
  from 2(3) obtain st1 where 1: "settle_disk hostp type d st = Inr st1" "settle_disks hostp type ds st1 = Inr st'"
    by (auto simp: bind_r_eq_Inr_iff)
  note ok = settle_disk_ok [OF 2(2) 1(1)]
  then have "answered st1" by (simp add: step_ok_def)
  from host_ok_Cons [OF ok 2(1) [OF this 1(2)]] show ?case .
qed (simp add: host_ok_Nil)

lemma fail_disk_ok:
  assumes "answered st" "pd_up (rs_disks st d) = Some ep" "es_state ep = DISK_ACTIVE \<or> es_state ep = DISK_READY"
  shows "step_ok False d st (fail_disk errbuf d ep st)"
proof -
  have so: "state_of st d = Some (es_state ep)" using assms(2) by (simp add: state_of_def)
  have nd: "es_state ep \<noteq> DISK_DONE" using assms(3) by auto
  have "sound_est ep" by (rule answered_sound [OF assms(1,2)])
  then have lv: "sound_est (ep\<lparr>es_state := DISK_DONE, es_errstr := Some errbuf\<rparr>)" by (simp add: sound_est_def)
  have "remove1 d (rs_pestq st) = rs_pestq st" using remove_other(2) [OF _ so] assms(1,3) by (auto simp: answered_def)
  then have "fail_disk errbuf d ep st =
      (taken_off d (ep\<lparr>es_state := DISK_DONE, es_errstr := Some errbuf\<rparr>) st)\<lparr>rs_failq := rs_failq st @ [d]\<rparr>"
    by (simp add: fail_disk_def taken_off_def rs_set_up_def)
  then show ?thesis using step_ok_moved(2) [OF assms(1) so nd lv] by simp
qed

text \<open>The first pass takes the active disks; it counts none only when none is active.\<close>

lemma fail_active:
  assumes "answered st" "fail_disks True errbuf ds (i, st) = Inr (j, st')"
  shows "host_ok False ds st st' \<and> i \<le> j \<and>
    (j = i \<longrightarrow> st' = st \<and> (\<forall>d \<in> set ds. pd_todo (rs_disks st d) \<longrightarrow> state_of st d \<noteq> Some DISK_ACTIVE))"
  using assms
proof (induction ds arbitrary: i st)
  case (Cons d ds)
  show ?case
  proof (cases "pd_todo (rs_disks st d) \<and> state_of st d = Some DISK_ACTIVE")
    case True
    then obtain ep where ep: "pd_up (rs_disks st d) = Some ep" "es_state ep = DISK_ACTIVE" by (auto simp: state_of_def)
    note ok = fail_disk_ok [OF Cons.prems(1) ep(1), of errbuf]
    have "fail_disks True errbuf ds (i + 1, fail_disk errbuf d ep st) = Inr (j, st')" using Cons.prems(2) True ep by simp
    moreover have "answered (fail_disk errbuf d ep st)" using ok ep(2) by (simp add: step_ok_def)
    ultimately have IH: "host_ok False ds (fail_disk errbuf d ep st) st'" "i + 1 \<le> j" using Cons.IH by blast+
    show ?thesis using host_ok_Cons [OF ok IH(1)] IH(2) ep(2) by simp
  next
    case False
    then have rest: "fail_disks True errbuf ds (i, st) = Inr (j, st')"
      using Cons.prems(2) by (auto simp: state_of_def split: if_splits option.splits)
    have "step_ok False d st st" using False Cons.prems(1) by (intro step_ok_refl) (auto simp: answered_def on_queues_def)
    then show ?thesis using Cons.IH [OF Cons.prems(1) rest] host_ok_Cons False by auto
  qed
qed (simp add: host_ok_Nil)

lemma fail_all:
  assumes "answered st" "distinct ds" "\<forall>d \<in> set ds. pd_todo (rs_disks st d) \<longrightarrow> state_of st d = Some DISK_READY"
    and "fail_disks False errbuf ds (i, st) = Inr (j, st')"
  shows "host_ok False ds st st'"
  using assms
proof (induction ds arbitrary: i st)
  case (Cons d ds)
  show ?case
  proof (cases "pd_todo (rs_disks st d)")
    case True
    then have "state_of st d = Some DISK_READY" using Cons.prems(3) by simp
    then obtain ep where ep: "pd_up (rs_disks st d) = Some ep" "es_state ep = DISK_READY" by (auto simp: state_of_def)
    have ok: "step_ok False d st (fail_disk errbuf d ep st)" using fail_disk_ok [OF Cons.prems(1) ep(1), of errbuf] ep(2) by simp
    have rest: "fail_disks False errbuf ds (i + 1, fail_disk errbuf d ep st) = Inr (j, st')" using Cons.prems(4) True ep by simp
    have "\<forall>d1 \<in> set ds. pd_todo (rs_disks (fail_disk errbuf d ep st) d1) \<longrightarrow> state_of (fail_disk errbuf d ep st) d1 = Some DISK_READY"
      using ok Cons.prems(2,3) by (auto simp: step_ok_def)
    then show ?thesis using host_ok_Cons [OF ok] Cons.IH [OF _ _ _ rest] ok Cons.prems(2) by (simp add: step_ok_def)
  next
    case False
    then have rest: "fail_disks False errbuf ds (i, st) = Inr (j, st')" using Cons.prems(4) by simp
    have "step_ok False d st st" using False Cons.prems(1) by (simp add: step_ok_refl)
    then show ?thesis using Cons.IH [OF Cons.prems(1) _ _ rest] Cons.prems(2,3) host_ok_Cons by simp
  qed
qed (simp add: host_ok_Nil)

lemma host_ok_up [simp]: "host_ok lost ds st (st'\<lparr>rs_up := u\<rparr>) = host_ok lost ds st st'"
proof -
  have "queued (st'\<lparr>rs_up := u\<rparr>) = queued st'" by (simp add: queued_def)
  then show ?thesis by (simp add: host_ok_def answered_def)
qed

text \<open>A packet that may take disks off the queues for good.\<close>

definition loses :: "string + pktype \<times> string \<Rightarrow> bool" where
  "loses pkt = (case pkt of Inl _ \<Rightarrow> False | Inr (type, _) \<Rightarrow> type \<noteq> P_REP \<and> type \<noteq> P_PREP)"

definition waits :: "nat list \<Rightarrow> results \<Rightarrow> bool" where
  "waits ds st \<longleftrightarrow> (\<exists>d \<in> set ds. pd_todo (rs_disks st d) \<and> state_of st d = Some DISK_ACTIVE) \<or>
     (\<forall>d \<in> set ds. pd_todo (rs_disks st d) \<longrightarrow> state_of st d = Some DISK_READY)"

lemma error_return_ok:
  assumes "answered st" "distinct (snd hostp)" "waits (snd hostp) st" "error_return hostp errbuf st = Inr st'"
  shows "host_ok False (snd hostp) st st'"
proof -
  from assms(4) obtain i st1 st2 where 1: "fail_disks True errbuf (snd hostp) (0, st) = Inr (i, st1)"
    and 2: "(if i = 0 then map_r snd (fail_disks False errbuf (snd hostp) (0, st1)) else Inr st1) = Inr st2"
    and st': "st' = set_host hostp HOST_DONE st2"
    by (auto simp: error_return_def map_r_eq_Inr_iff bind_r_eq_Inr_iff)
  note a = fail_active [OF assms(1) 1]
  show ?thesis
  proof (cases "i = 0")
    case True
    then have "\<forall>d \<in> set (snd hostp). pd_todo (rs_disks st d) \<longrightarrow> state_of st d = Some DISK_READY" "st1 = st"
      using a assms(3) by (auto simp: waits_def)
    then show ?thesis using 2 True fail_all [OF assms(1,2)] by (auto simp: st' map_r_eq_Inr_iff set_host_def)
  qed (use 2 a in \<open>auto simp: st' set_host_def\<close>)
qed

lemma waits_keep: "lines_keep st st' \<Longrightarrow> waits ds st' = waits ds st"
  by (simp add: lines_keep_def waits_def)

lemma host_ok_keep:
  assumes "lines_keep st st1" "host_ok lost ds st1 st'"
  shows "host_ok lost ds st st'"
  using assms answered_keep(2) [OF assms(1)] by (auto simp: lines_keep_def same_queues_def host_ok_def)

section \<open>Asking\<close>

lemma server_levels_keep:
  "server_levels tape strategy info is ep = Inr ep' \<Longrightarrow>
     es_state ep' = es_state ep \<and> map oe_level (es_estimate ep') = map oe_level (es_estimate ep)"
proof (induction "is" arbitrary: ep)
  case (Cons i "is")
  show ?case
  proof (cases "oe_level (es_estimate ep ! i) = - 1")
    case False
    then obtain ep1 where 1: "server_estimate tape strategy i info (oe_level (es_estimate ep ! i)) ep = Inr ep1"
      and rest: "server_levels tape strategy info is ep1 = Inr ep'"
      using Cons.prems by (auto simp: Let_def bind_r_eq_Inr_iff)
    have "es_state ep1 = es_state ep \<and> map oe_level (es_estimate ep1) = map oe_level (es_estimate ep)"
    proof (cases "i < length (es_estimate ep)")
      case True
      then show ?thesis using 1 by (auto simp: server_estimate_def map_r_eq_Inr_iff Let_def map_update list_update_same_conv)
    next
      case False
      then show ?thesis using 1 by (auto simp: server_estimate_def map_r_eq_Inr_iff Let_def list_update_beyond)
    qed
    then show ?thesis using Cons.IH [OF rest] by simp
  qed (use Cons.prems in simp)
qed simp

lemma step_ok_got: "step_ok lost d (st\<lparr>rs_got := g\<rparr>) st' = step_ok lost d st st'"
  by (simp add: step_ok_def queued_def state_of_def fun_eq_iff)

lemma answered_got [simp]: "answered (st\<lparr>rs_got := g\<rparr>) = answered st"
  by (simp add: answered_def on_queues_def levels_fit_def state_of_def levels_of_def)

text \<open>A disk that has not been asked for is on no queue.\<close>

lemma ready_unqueued: "answered st \<Longrightarrow> state_of st d = Some DISK_READY \<Longrightarrow> d \<notin> queued st"
  by (fastforce simp: answered_def on_queues_def queued_def)

lemma set_up_taken: "d \<notin> queued st \<Longrightarrow> rs_set_up d ep st = taken_off d ep st"
  by (simp add: taken_off_def queued_def remove1_idem rs_set_up_def)

lemma ask_client_ok:
  assumes "answered st" "state_of st d = Some DISK_READY" "sound_est ep" "oe_level (es_estimate ep ! 0) \<noteq> - 1"
    and "es_state ep = DISK_READY \<and> st1 = st \<or> es_state ep = DISK_DONE \<and> st1 = st\<lparr>rs_estq := rs_estq st @ [d]\<rparr>"
  shows "step_ok False d st (snd (ask_client f d ep st1))"
proof -
  note free = ready_unqueued [OF assms(1,2)]
  then have nq: "d \<notin> set (rs_estq st)" "remove1 d (rs_pestq st) = rs_pestq st" by (simp_all add: queued_def remove1_idem)
  have off: "rs_set_up d e st = taken_off d e st" for e by (rule set_up_taken [OF free])
  have off1: "rs_set_up d e (st\<lparr>rs_estq := q\<rparr>) = (taken_off d e st)\<lparr>rs_estq := q\<rparr>" for e q
    unfolding off [of e, symmetric] by (simp add: rs_set_up_def)
  have snd: "sound_est (ep\<lparr>es_state := x\<rparr>)" "sound_est (ep\<lparr>es_errstr := m\<rparr>)" "sound_est (ep\<lparr>es_state := x, es_errstr := m\<rparr>)"
      "sound_est (ep\<lparr>es_errstr := m, es_state := x\<rparr>)" for x m
    using assms(3,4) by (simp_all add: sound_est_def)
  note step = step_ok_off [OF assms(1,2), simplified] step_ok_moved [OF assms(1,2), simplified]
  have fin: "step_ok False d st (taken_off d e st)" if "sound_est e" for e using step(1) [of e False] that free by simp
  consider "es_state ep = DISK_READY" "st1 = st" | "es_state ep = DISK_DONE" "st1 = st\<lparr>rs_estq := rs_estq st @ [d]\<rparr>"
    using assms(5) by blast
  then show ?thesis
  proof cases
    case 1
    then show ?thesis
      using fin [OF assms(3)] fin [OF snd(1)] fin [OF snd(4)] step(3) [OF snd(3)] step(3) [OF snd(4)]
      by (simp add: ask_client_def Let_def off split: if_split)
  next
    case 2
    have r: "remove1 d (rs_estq st @ [d]) = rs_estq st" using nq(1) by (simp add: remove1_append)
    have same: "(taken_off d e st)\<lparr>rs_estq := rs_estq st, rs_pestq := q\<rparr> = (taken_off d e st)\<lparr>rs_pestq := q\<rparr>" for e q
      by (rule results.equality) simp_all
    show ?thesis
      using step(2) [OF assms(3)] step(2) [OF snd(2)] step(4) [OF snd(1)] step(4) [OF snd(4)] nq(2) 2
      by (simp add: ask_client_def Let_def off1 r same split: if_split)
  qed
qed

lemma ask_disk_ok:
  assumes "answered st" "pd_todo (rs_disks st d) \<longrightarrow> d \<notin> set (rs_waitq st)" "ask_disk c f d st = Inr (req, st')"
  shows "step_ok False d st st'"
proof (cases "pd_todo (rs_disks st d) \<and> state_of st d = Some DISK_READY")
  case False
  then have "st' = st" using assms(3) by (auto simp: ask_disk_def state_of_def split: if_splits option.splits)
  then show ?thesis using step_ok_refl assms(1,2) by blast
next
  case True
  then obtain ep where ep: "pd_up (rs_disks st d) = Some ep" "es_state ep = DISK_READY" by (auto simp: state_of_def)
  define st0 where "st0 = st\<lparr>rs_got := (rs_got st)(d := 0)\<rparr>"
  have st0: "answered st0" "state_of st0 d = Some DISK_READY" "rs_disks st0 = rs_disks st" "rs_opts st0 = rs_opts st"
    using assms(1) ep by (simp_all add: st0_def state_of_def)
  have snd: "sound_est ep" by (rule answered_sound [OF assms(1) ep(1)])
  have over: ?thesis if "st' = rs_set_up d (ep\<lparr>es_state := DISK_DONE\<rparr>) st0"
  proof -
    have "sound_est (ep\<lparr>es_state := DISK_DONE\<rparr>)" using snd by (simp add: sound_est_def)
    then have "step_ok False d st0 st'"
      using step_ok_off [OF st0(1,2)] ready_unqueued [OF st0(1,2)] set_up_taken [OF ready_unqueued [OF st0(1,2)]] that by simp
    then show ?thesis by (simp add: st0_def step_ok_got)
  qed
  show ?thesis
  proof (cases "oe_level (es_estimate ep ! 0) = - 1 \<or> validate_optionstr f (rs_opts st d) \<noteq> []")
    case True
    then have "st' = rs_set_up d (ep\<lparr>es_state := DISK_DONE\<rparr>) st0"
      using assms(3) ep \<open>pd_todo (rs_disks st d) \<and> _\<close> unfolding ask_disk_def
      by (simp add: Let_def st0_def split: if_splits)
    then show ?thesis by (rule over)
  next
    case False
    then obtain ep1 st1 where 1: "(if ES_SERVER \<in> set (do_estimatelist (rs_opts st d)) then ask_server c f d ep st0 else Inr (ep, st0)) = Inr (ep1, st1)"
      and st': "st' = snd (ask_client f d ep1 st1)"
      using assms(3) ep \<open>pd_todo (rs_disks st d) \<and> _\<close> unfolding ask_disk_def st0_def
      by (auto simp: Let_def map_r_eq_Inr_iff split: if_splits) (metis snd_conv)+
    have keep: "map oe_level (es_estimate ep1) = map oe_level (es_estimate ep)"
      "es_state ep1 = DISK_READY \<and> st1 = st0 \<or> es_state ep1 = DISK_DONE \<and> st1 = st0\<lparr>rs_estq := rs_estq st0 @ [d]\<rparr>"
      using 1 ep(2) server_levels_keep by (fastforce simp: ask_server_def map_r_eq_Inr_iff split: if_splits)+
    have lv: "lv_ok (map oe_level (es_estimate ep))" using snd by (simp add: sound_est_def)
    have "oe_level (es_estimate ep1 ! 0) = oe_level (es_estimate ep ! 0)"
      using sound_first [of ep1] sound_first [of ep] lv unfolding keep(1) by simp
    then have "sound_est ep1" "oe_level (es_estimate ep1 ! 0) \<noteq> - 1" using lv False keep(1) by (simp_all add: sound_est_def)
    then have "step_ok False d st0 st'" unfolding st' using keep(2) by (intro ask_client_ok [OF st0(1,2)])
    then show ?thesis by (simp add: st0_def step_ok_got)
  qed
qed

lemma ask_disks_ok:
  "answered st \<Longrightarrow> distinct ds \<Longrightarrow> \<forall>d \<in> set ds. pd_todo (rs_disks st d) \<longrightarrow> d \<notin> set (rs_waitq st) \<Longrightarrow>
   ask_disks c f ds st = Inr (reqs, st') \<Longrightarrow> host_ok False ds st st'"
proof (induction ds arbitrary: st reqs)
  case (Cons d ds)
  from Cons.prems(4) obtain req st1 reqs1 where 1: "ask_disk c f d st = Inr (req, st1)" "ask_disks c f ds st1 = Inr (reqs1, st')"
    by (auto simp: bind_r_eq_Inr_iff map_r_eq_Inr_iff)
  have ok: "step_ok False d st st1" using ask_disk_ok [OF Cons.prems(1) _ 1(1)] Cons.prems(3) by simp
  then have "answered st1" "\<forall>d \<in> set ds. pd_todo (rs_disks st1 d) \<longrightarrow> d \<notin> set (rs_waitq st1)"
    using Cons.prems(3) by (auto simp: step_ok_def)
  from Cons.IH [OF this(1) _ this(2) 1(2)] Cons.prems(2) show ?case using host_ok_Cons [OF ok] by simp
qed (simp add: host_ok_Nil)

text \<open>What a request to a host may do to the queues: its disks may wait.\<close>

definition sent_ok :: "bool \<Rightarrow> nat list \<Rightarrow> results \<Rightarrow> results \<Rightarrow> bool" where
  "sent_ok lost ds st st' \<longleftrightarrow>
     answered st' \<and> (\<forall>d1. pd_todo (rs_disks st' d1) = pd_todo (rs_disks st d1)) \<and>
     set (rs_waitq st') \<subseteq> set (rs_waitq st) \<union> set ds \<and> (lost \<or> queued st \<subseteq> queued st')"

lemma sent_ok_fields [simp]:
  "sent_ok lost ds st (st'\<lparr>rs_up := u\<rparr>) = sent_ok lost ds st st'" "sent_ok lost ds st (st'\<lparr>rs_sent := q\<rparr>) = sent_ok lost ds st st'"
proof -
  have "answered (st'\<lparr>rs_up := u\<rparr>) = answered st'" "queued (st'\<lparr>rs_up := u\<rparr>) = queued st'"
    "answered (st'\<lparr>rs_sent := q\<rparr>) = answered st'" "queued (st'\<lparr>rs_sent := q\<rparr>) = queued st'"
    by (simp_all add: answered_def on_queues_def levels_fit_def state_of_def levels_of_def queued_def)
  then show "sent_ok lost ds st (st'\<lparr>rs_up := u\<rparr>) = sent_ok lost ds st st'" "sent_ok lost ds st (st'\<lparr>rs_sent := q\<rparr>) = sent_ok lost ds st st'"
    by (simp_all add: sent_ok_def)
qed

lemma wait_disks_ok:
  "answered st \<Longrightarrow> distinct ds \<Longrightarrow> \<forall>d \<in> set ds. pd_todo (rs_disks st d) \<longrightarrow> d \<notin> set (rs_waitq st) \<Longrightarrow>
   wait_disks ds st = Inr st' \<Longrightarrow> sent_ok False ds st st'"
proof (induction ds arbitrary: st)
  case (Cons d ds)
  show ?case
  proof (cases "pd_todo (rs_disks st d) \<and> state_of st d = Some DISK_ACTIVE")
    case False
    then have "wait_disks ds st = Inr st'" using Cons.prems(4) by (auto simp: state_of_def split: if_splits option.splits)
    then show ?thesis using Cons.IH [of st] Cons.prems(1-3) by (auto simp: sent_ok_def)
  next
    case True
    then obtain ep where ep: "pd_up (rs_disks st d) = Some ep" "es_state ep = DISK_ACTIVE" by (auto simp: state_of_def)
    define st0 where "st0 = rs_set_up d (ep\<lparr>es_errstr := None\<rparr>) st"
    have keep: "lines_keep st st0" unfolding st0_def using ep(1) by (intro lines_keep_set_up) simp_all
    then have st0: "answered st0" "queued st0 = queued st" "state_of st0 d = Some DISK_ACTIVE" "rs_waitq st0 = rs_waitq st"
      "pd_todo (rs_disks st0 d1) = pd_todo (rs_disks st d1)" for d1
      using answered_keep Cons.prems(1) True by (auto simp: lines_keep_def same_queues_def)
    define st1 where "st1 = st0\<lparr>rs_waitq := rs_waitq st @ [d]\<rparr>"
    have "d \<notin> set (rs_waitq st)" using Cons.prems(3) True by simp
    then have "d \<notin> queued st0" using st0(1,3,4) by (fastforce simp: answered_def on_queues_def queued_def)
    then have "on_queues st1" using on_queues_put(4) [of st0 d] st0 by (simp add: st1_def answered_def)
    then have "answered st1" using st0(1) by (simp add: answered_def st1_def)
    moreover have "wait_disks ds st1 = Inr st'" using Cons.prems(4) True ep by (simp add: st1_def st0_def)
    moreover have "\<forall>d \<in> set ds. pd_todo (rs_disks st1 d) \<longrightarrow> d \<notin> set (rs_waitq st1)"
      using Cons.prems(2,3) st0(5) by (auto simp: st1_def)
    ultimately have "sent_ok False ds st1 st'" using Cons.IH Cons.prems(2) by simp
    moreover have "queued st1 = insert d (queued st)" using st0(2,4) by (auto simp: st1_def queued_def)
    ultimately show ?thesis using st0(5) by (auto simp: sent_ok_def st1_def)
  qed
qed (simp add: sent_ok_def)

lemma set_host_fields [simp]:
  "rs_waitq (set_host hostp u st) = rs_waitq st" "rs_disks (set_host hostp u st) = rs_disks st"
  by (simp_all add: set_host_def)

lemma answered_host [simp]: "answered (set_host hostp u st) = answered st" "queued (set_host hostp u st) = queued st"
  by (simp_all add: set_host_def answered_def queued_def)

lemma send_request_ok:
  assumes "answered st" "distinct (snd hostp)" "\<forall>d \<in> set (snd hostp). pd_todo (rs_disks st d) \<longrightarrow> d \<notin> set (rs_waitq st)"
    and "send_request c hostp req st = Inr st'"
  shows "sent_ok False (snd hostp) st st'"
proof (cases "list_ex (\<lambda>name. map tolower name = map tolower (do_auth (rs_opts st (hd (snd hostp))))) (ec_drivers c)")
  case True
  then obtain st1 where 1: "wait_disks (snd hostp) (set_host hostp HOST_ACTIVE st) = Inr st1"
    and st': "st' = st1\<lparr>rs_sent := rs_sent st1 @ [(fst hostp, req)]\<rparr>"
    using assms(4) by (auto simp: send_request_def map_r_eq_Inr_iff)
  have "sent_ok False (snd hostp) (set_host hostp HOST_ACTIVE st) st1"
    using wait_disks_ok [OF _ assms(2) _ 1] assms(1,3) by simp
  then show ?thesis unfolding st' sent_ok_fields by (simp add: sent_ok_def)
next
  case False
  then have "st' = set_host hostp HOST_DONE st" using assms(4) by (simp add: send_request_def)
  then show ?thesis using assms(1) by (simp add: sent_ok_def)
qed

lemma getsize_ok:
  assumes "answered st" "distinct (snd hostp)" "\<forall>d \<in> set (snd hostp). pd_todo (rs_disks st d) \<longrightarrow> d \<notin> set (rs_waitq st)"
    and "getsize c hostp st = Inr st'"
  shows "sent_ok False (snd hostp) st st'"
proof (cases "rs_up st (fst hostp) = HOST_READY")
  case False
  then have "st' = st" using assms(4) by (simp add: getsize_def split: if_splits)
  then show ?thesis using assms(1) by (simp add: sent_ok_def)
next
  case True
  show ?thesis
  proof (cases "rs_features st (fst hostp)")
    case None
    then have "send_request c hostp (Noop (ec_ctimeout c)) st = Inr st'" using assms(4) True by (simp add: getsize_def split: if_splits)
    then show ?thesis by (rule send_request_ok [OF assms(1-3)])
  next
    case (Some f)
    then obtain reqs st1 where 1: "ask_disks c f (snd hostp) st = Inr (reqs, st1)"
      and 2: "(if reqs = [] then Inr (set_host hostp HOST_DONE st1)
        else send_request c hostp (Sendsize (request_timeout c reqs) reqs) st1) = Inr st'"
      using assms(4) True by (auto simp: getsize_def bind_r_eq_Inr_iff split: if_splits)
    have ok: "host_ok False (snd hostp) st st1" by (rule ask_disks_ok [OF assms(1-3) 1])
    have "sent_ok False (snd hostp) st1 st'"
    proof (cases "reqs = []")
      case True
      then have "st' = set_host hostp HOST_DONE st1" using 2 by simp
      then show ?thesis using ok by (simp add: sent_ok_def host_ok_def)
    next
      case False
      then have "send_request c hostp (Sendsize (request_timeout c reqs) reqs) st1 = Inr st'" using 2 by simp
      then show ?thesis using send_request_ok [OF _ assms(2)] ok by (simp add: host_ok_def)
    qed
    then show ?thesis using ok by (auto simp: host_ok_def sent_ok_def)
  qed
qed

lemma sent_ok_trans: "sent_ok lost ds st st1 \<Longrightarrow> sent_ok False ds st1 st' \<Longrightarrow> sent_ok lost ds st st'"
  by (auto simp: sent_ok_def)

lemma host_ok_sent: "host_ok lost ds st st' \<Longrightarrow> sent_ok lost ds st st'"
  by (auto simp: host_ok_def sent_ok_def)

section \<open>The state of the hosts\<close>

lemma ask_client_up: "ask_client f d ep st = (req, st') \<Longrightarrow> rs_up st' = rs_up st"
  by (auto simp: ask_client_def Let_def rs_set_up_def split: if_splits)

lemma ask_server_up: "ask_server c f d ep st = Inr (ep', st') \<Longrightarrow> rs_up st' = rs_up st"
  by (auto simp: ask_server_def map_r_eq_Inr_iff split: if_splits)

lemma ask_disk_up:
  assumes "ask_disk c f d st = Inr (req, st')"
  shows "rs_up st' = rs_up st"
  using assms unfolding ask_disk_def Let_def
  by (auto simp: map_r_eq_Inr_iff rs_set_up_def dest!: ask_client_up [OF sym] ask_server_up split: if_splits option.splits)

lemma ask_disks_up: "ask_disks c f ds st = Inr (reqs, st') \<Longrightarrow> rs_up st' = rs_up st"
proof (induction ds arbitrary: st reqs)
  case (Cons d ds)
  from Cons.prems obtain req st1 reqs1 where 1: "ask_disk c f d st = Inr (req, st1)" "ask_disks c f ds st1 = Inr (reqs1, st')"
    by (auto simp: bind_r_eq_Inr_iff map_r_eq_Inr_iff)
  then show ?case using ask_disk_up Cons.IH by simp
qed simp

lemma wait_disks_up: "wait_disks ds st = Inr st' \<Longrightarrow> rs_up st' = rs_up st"
  by (induction ds arbitrary: st) (fastforce simp: rs_set_up_def split: if_splits option.splits)+

lemma send_request_up:
  "send_request c hostp req st = Inr st' \<Longrightarrow> rs_up st' (fst hostp) \<noteq> HOST_READY \<and> (\<forall>h. h \<noteq> fst hostp \<longrightarrow> rs_up st' h = rs_up st h)"
  by (auto simp: send_request_def set_host_def map_r_eq_Inr_iff dest: wait_disks_up split: if_splits)

lemma getsize_up:
  assumes "getsize c hostp st = Inr st'"
  shows "rs_up st' (fst hostp) \<noteq> HOST_READY \<and> (\<forall>h. h \<noteq> fst hostp \<longrightarrow> rs_up st' h = rs_up st h)"
  using assms send_request_up unfolding getsize_def
  by (auto simp: bind_r_eq_Inr_iff set_host_def dest!: ask_disks_up split: if_splits option.splits) (metis send_request_up)+

lemma reply_line_up:
  assumes "reply_line hostp type s st = Inr (r, st')"
  shows "rs_up st' = rs_up st"
proof -
  have "rs_up st' = rs_up st" if d: "disk_line hostp type s st = Inr (r, st')"
    using d
  proof (cases rule: disk_line_cases)
    case (answer d ep level t n rest ep')
    then have "st' = snd (take_answer hostp level d st (n, rest, ep'))" by (metis snd_conv)
    then show ?thesis by (simp add: take_answer_def bad_msg_def rs_set_up_def split: option.split)
  qed (simp add: bad_msg_def)
  moreover have "rs_up (snd (options_line hostp s st)) = rs_up st" "rs_up (snd (error_line hostp type s fp st)) = rs_up st" for fp
    by (auto simp: options_line_def error_line_def Let_def split: option.splits)
  ultimately show ?thesis using assms unfolding reply_line_def by (auto split: if_splits) (metis snd_conv)+
qed

lemma reply_lines_up: "reply_lines hostp type s st = Inr (r, st') \<Longrightarrow> rs_up st' = rs_up st"
proof (induction hostp type s st arbitrary: r st' rule: reply_lines.induct)
  case (1 hostp type s st)
  show ?case
  proof (cases "s = []")
    case False
    then show ?thesis
      using 1(2) 1(1) [OF False] by (fastforce simp: reply_lines.simps [of _ _ s] dest: reply_line_up split: sum.splits)
  qed (use 1(2) in \<open>simp add: reply_lines.simps\<close>)
qed

lemma settle_disk_up: "settle_disk hostp type d st = Inr st' \<Longrightarrow> h \<noteq> fst hostp \<Longrightarrow> rs_up st' h = rs_up st h"
  by (auto simp: settle_disk_def Let_def rs_set_up_def split: if_splits option.splits)

lemma settle_disks_up: "settle_disks hostp type ds st = Inr st' \<Longrightarrow> h \<noteq> fst hostp \<Longrightarrow> rs_up st' h = rs_up st h"
proof (induction hostp type ds st rule: settle_disks.induct)
  case (2 hostp type d ds st)
  from 2(2) obtain st1 where 1: "settle_disk hostp type d st = Inr st1" "settle_disks hostp type ds st1 = Inr st'"
    by (auto simp: bind_r_eq_Inr_iff)
  show ?case using settle_disk_up [OF 1(1) 2(3)] 2(1) [OF 1(2) 2(3)] by simp
qed simp

lemma fail_disks_up: "fail_disks act errbuf ds (i, st) = Inr (j, st') \<Longrightarrow> rs_up st' = rs_up st"
proof (induction ds arbitrary: i st)
  case (Cons d ds)
  have "rs_up (fail_disk errbuf d ep st) = rs_up st" for ep by (simp add: fail_disk_def rs_set_up_def)
  then show ?case using Cons by (auto split: if_splits option.splits)
qed simp

lemma error_return_up:
  assumes "error_return hostp errbuf st = Inr st'"
  shows "rs_up st' (fst hostp) = HOST_DONE \<and> (\<forall>h. h \<noteq> fst hostp \<longrightarrow> rs_up st' h = rs_up st h)"
proof -
  from assms obtain i st1 st2 where 1: "fail_disks True errbuf (snd hostp) (0, st) = Inr (i, st1)"
    and 2: "(if i = 0 then map_r snd (fail_disks False errbuf (snd hostp) (0, st1)) else Inr st1) = Inr st2"
    and st': "st' = set_host hostp HOST_DONE st2"
    by (auto simp: error_return_def map_r_eq_Inr_iff bind_r_eq_Inr_iff)
  have "rs_up st2 = rs_up st1" using 2 fail_disks_up by (auto simp: map_r_eq_Inr_iff split: if_splits)
  then show ?thesis using fail_disks_up [OF 1] by (simp add: st' set_host_def)
qed

lemma read_reply_keep: "read_reply hostp pkt st = Inr (err, st') \<Longrightarrow> lines_keep st st' \<and> rs_up st' = rs_up st"
  unfolding read_reply_def
  by (auto split: sum.splits prod.splits if_splits dest: reply_lines_keep reply_lines_up)

section \<open>The answers of a host\<close>

text \<open>An error comes in time when a disk of the host waits, or when none has been asked for.\<close>

definition timely :: "am_host \<Rightarrow> string + pktype \<times> string \<Rightarrow> results \<Rightarrow> bool" where
  "timely hostp pkt st \<longleftrightarrow> waits (snd hostp) st \<or>
     (case read_reply hostp pkt (set_host hostp HOST_READY st) of Inr (None, _) \<Rightarrow> True | _ \<Rightarrow> False)"

lemma handle_result_ok:
  assumes "handle_result c hostp pkt st = Inr st'" "answered st" "distinct (snd hostp)" "timely hostp pkt st"
  shows "sent_ok (loses pkt) (snd hostp) st st' \<and> rs_up st' (fst hostp) \<noteq> HOST_READY \<and>
    (\<forall>h. h \<noteq> fst hostp \<longrightarrow> rs_up st' h = rs_up st h)"
proof -
  define st0 where "st0 = set_host hostp HOST_READY st"
  from assms(1) obtain err st1 where 1: "read_reply hostp pkt st0 = Inr (err, st1)"
    and 2: "(case err of Some errbuf \<Rightarrow> error_return hostp errbuf st1
      | None \<Rightarrow> bind_r (settle_disks hostp (pkt_type pkt) (snd hostp)
          (if rs_up st1 (fst hostp) = HOST_READY \<and> rs_features st1 (fst hostp) = None
           then st1\<lparr>rs_features := (rs_features st1)(fst hostp := Some am_set_default_feature_set)\<rparr> else st1))
          (getsize c hostp)) = Inr st'"
    unfolding handle_result_def st0_def [symmetric] Let_def bind_r_eq_Inr_iff by auto
  have keep0: "lines_keep st st0" by (simp add: st0_def set_host_def)
  have up0: "\<forall>h. h \<noteq> fst hostp \<longrightarrow> rs_up st0 h = rs_up st h" by (simp add: st0_def set_host_def)
  have keep: "lines_keep st st1" "rs_up st1 = rs_up st0" using read_reply_keep [OF 1] lines_keep_trans [OF keep0] by blast+
  have st1: "answered st1" using answered_keep(1) [OF keep(1)] assms(2) by simp
  show ?thesis
  proof (cases err)
    case (Some errbuf)
    then have e: "error_return hostp errbuf st1 = Inr st'" using 2 by simp
    have "waits (snd hostp) st" using assms(4) unfolding timely_def st0_def [symmetric] 1 Some by simp
    then have "waits (snd hostp) st1" using waits_keep [OF keep(1)] by simp
    then have "host_ok False (snd hostp) st1 st'" by (rule error_return_ok [OF st1 assms(3) _ e])
    then have "host_ok False (snd hostp) st st'" by (rule host_ok_keep [OF keep(1)])
    then have "host_ok (loses pkt) (snd hostp) st st'" by (simp add: host_ok_def)
    then have "sent_ok (loses pkt) (snd hostp) st st'" by (rule host_ok_sent)
    then show ?thesis using error_return_up [OF e] up0 keep(2) by simp
  next
    case None
    define st2 where "st2 = (if rs_up st1 (fst hostp) = HOST_READY \<and> rs_features st1 (fst hostp) = None
      then st1\<lparr>rs_features := (rs_features st1)(fst hostp := Some am_set_default_feature_set)\<rparr> else st1)"
    have st2: "lines_keep st st2" "rs_up st2 = rs_up st1" using keep(1) by (simp_all add: st2_def)
    then have "answered st2" using answered_keep(1) assms(2) by blast
    from 2 None obtain st3 where 3: "settle_disks hostp (pkt_type pkt) (snd hostp) st2 = Inr st3" "getsize c hostp st3 = Inr st'"
      by (auto simp: st2_def bind_r_eq_Inr_iff)
    have "pkt_type pkt \<noteq> P_REP \<and> pkt_type pkt \<noteq> P_PREP \<longrightarrow> loses pkt"
      by (auto simp: pkt_type_def loses_def split: sum.splits)
    then have host: "host_ok (loses pkt) (snd hostp) st st3"
      using host_ok_keep [OF st2(1) settle_disks_ok [OF \<open>answered st2\<close> 3(1)]] unfolding host_ok_def by blast
    then have "answered st3" "\<forall>d \<in> set (snd hostp). pd_todo (rs_disks st3 d) \<longrightarrow> d \<notin> set (rs_waitq st3)"
      by (simp_all add: host_ok_def)
    from getsize_ok [OF this(1) assms(3) this(2) 3(2)] have "sent_ok False (snd hostp) st3 st'" .
    then have "sent_ok (loses pkt) (snd hostp) st st'" using sent_ok_trans host_ok_sent [OF host] by blast
    moreover have "\<forall>h. h \<noteq> fst hostp \<longrightarrow> rs_up st3 h = rs_up st h"
      using settle_disks_up [OF 3(1)] st2(2) keep(2) up0 by simp
    ultimately show ?thesis using getsize_up [OF 3(2)] by simp
  qed
qed


text \<open>Two disks of a host: one waits for its estimate, the other has its partial results.\<close>

definition ex_opts :: dle_opts where
  "ex_opts =
     \<lparr>do_auth = ''BSD'', do_program = ''GNUTAR'', do_estimatelist = [ES_CLIENT], do_compress = COMP_NONE, do_clntcompprog = None,
      do_srvcompprog = None, do_encrypt = ENCRYPT_NONE, do_clnt_encrypt = None, do_srv_encrypt = None, do_clnt_decrypt_opt = None,
      do_record = True, do_index = False, do_kencrypt = False, do_exclude_file = None, do_exclude_list = None,
      do_include_file = None, do_include_list = None, do_exclude_optional = False, do_include_optional = False\<rparr>"

text \<open>A client with the feature for the authentication only.\<close>

definition ex_features :: am_feature where
  "ex_features = fst (am_add_feature am_allocate_feature_set (feature ''fe_options_auth''))"

definition ex_est_conf :: est_conf where
  "ex_est_conf = \<lparr>ec_ctimeout = 30, ec_etimeout = 300, ec_tape_length = 1000000, ec_drivers = [''bsd'', ''local'']\<rparr>"

definition ex_state :: "(nat \<Rightarrow> est_state) \<Rightarrow> nat list \<Rightarrow> nat list \<Rightarrow> host_state \<Rightarrow> results" where
  "ex_state state waitq pestq up =
     \<lparr>rs_disks = (\<lambda>d. (ex_disk False ((ex_est 80 10 (- 3, - 3) (Default_est, Default_est))
        \<lparr>es_state := state d\<rparr>))\<lparr>pd_name := if d = 0 then ''a'' else ''b''\<rparr>),
      rs_opts = (\<lambda>_. ex_opts), rs_db = (\<lambda>_. (0, zero_info)), rs_got = (\<lambda>_. 0),
      rs_waitq = waitq, rs_pestq = pestq, rs_estq = [], rs_failq = [], rs_up = (\<lambda>_. up),
      rs_features = (\<lambda>_. Some ex_features), rs_sent = []\<rparr>"

definition ex_results :: results where
  "ex_results = ex_state (\<lambda>d. if d = 0 then DISK_ACTIVE else DISK_PARTIALY_DONE) [0] [1] HOST_ACTIVE"

lemma ex_levels_of: "levels_of (ex_state state waitq pestq up) d = Some [0, 1, - 1]"
  "state_of (ex_state state waitq pestq up) d = Some (state d)"
  by (simp_all add: levels_of_def state_of_def ex_state_def ex_disk_def ex_est_def)

lemma ex_fit: "levels_fit (ex_state state waitq pestq up)"
  by (simp add: levels_fit_def ex_levels_of lv_ok_def MAX_LEVELS_def DUMP_LEVELS_def)

lemma ex_results_answered: "answered ex_results"
proof -
  have "on_queues ex_results" unfolding on_queues_def ex_results_def ex_levels_of by (simp add: ex_state_def)
  then show ?thesis using ex_fit by (simp add: answered_def ex_results_def)
qed

definition ex_reply :: string where
  "ex_reply = ''a 0 SIZE 500'' @ [CHR 0x0A]"

lemma ex_reply_taken:
  "map_r (\<lambda>st. (rs_waitq st, rs_pestq st, rs_estq st, rs_failq st))
     (handle_result ex_est_conf (''h'', [0, 1]) (Inr (P_REP, ex_reply)) ex_results) = Inr ([], [], [0, 1], [])"
  by code_simp

lemma ex_timely: "timely (''h'', [0, 1]) pkt ex_results"
proof -
  have "waits [0, 1] ex_results" unfolding waits_def ex_results_def ex_levels_of by (simp add: ex_state_def ex_disk_def)
  then show ?thesis by (simp add: timely_def)
qed


section \<open>A late error\<close>



section \<open>The end of the estimates\<close>

lemma fold_strand:
  "rs_failq (fold strand q st) = rs_failq st @ q" "rs_estq (fold strand q st) = rs_estq st" "rs_pestq (fold strand q st) = rs_pestq st"
  by (induction q arbitrary: st) (simp_all add: strand_def rs_set_up_def)

lemma fold_strand_levels:
  "\<forall>d \<in> set q. pd_up (rs_disks st d) \<noteq> None \<Longrightarrow> levels_of (fold strand q st) = levels_of st"
proof (induction q arbitrary: st)
  case (Cons d q)
  have "levels_of (strand d st) = levels_of st" "\<forall>d1 \<in> set q. pd_up (rs_disks (strand d st) d1) \<noteq> None"
    using Cons.prems by (auto simp: fun_eq_iff levels_of_def strand_def rs_set_up_def)
  then show ?case using Cons.IH [of "strand d st"] by simp
qed simp

text \<open>A disk with partial results ends with those that have an estimate exactly when there is one.\<close>

definition estimated :: "results \<Rightarrow> nat \<Rightarrow> bool" where
  "estimated st d \<longleftrightarrow> any_estimate (the (pd_up (rs_disks st d)))"

lemma end_partial_step:
  "rs_waitq (end_partial d st) = rs_waitq st" "rs_pestq (end_partial d st) = rs_pestq st"
  "d1 \<noteq> d \<Longrightarrow> rs_disks (end_partial d st) d1 = rs_disks st d1"
  "levels_of (end_partial d st) d = Some (map oe_level (es_estimate (drop_missing (the (pd_up (rs_disks st d))))))"
  "if estimated (end_partial d st) d then rs_estq (end_partial d st) = rs_estq st @ [d] \<and> rs_failq (end_partial d st) = rs_failq st
   else rs_estq (end_partial d st) = rs_estq st \<and> rs_failq (end_partial d st) = rs_failq st @ [d]"
  by (simp_all add: end_partial_def Let_def rs_set_up_def levels_of_def estimated_def any_estimate_def)

lemma fold_end_partial:
  assumes "distinct q" "levels_fit st" "\<forall>d \<in> set q. pd_up (rs_disks st d) \<noteq> None"
  shows "levels_fit (fold end_partial q st) \<and>
    (\<forall>d. pd_up (rs_disks st d) \<noteq> None \<longrightarrow> pd_up (rs_disks (fold end_partial q st) d) \<noteq> None) \<and>
    rs_estq (fold end_partial q st) = rs_estq st @ filter (estimated (fold end_partial q st)) q \<and>
    rs_failq (fold end_partial q st) = rs_failq st @ filter (\<lambda>d. \<not> estimated (fold end_partial q st) d) q \<and>
    rs_waitq (fold end_partial q st) = rs_waitq st \<and> (\<forall>d. d \<notin> set q \<longrightarrow> rs_disks (fold end_partial q st) d = rs_disks st d)"
  using assms
proof (induction q arbitrary: st)
  case (Cons d q)
  let ?st = "end_partial d st"
  note step = end_partial_step [where d = d and st = st]
  obtain ep where ep: "pd_up (rs_disks st d) = Some ep" using Cons.prems(3) by auto
  have lv: "levels_fit ?st"
  proof -
    have "lv_ok (map oe_level (es_estimate ep))" using Cons.prems(2) ep by (auto simp: levels_fit_def levels_of_def)
    then have "lv_ok (map oe_level (es_estimate (drop_missing ep)))" by (rule lv_ok_drop)
    moreover have "levels_of ?st d1 = levels_of st d1" if "d1 \<noteq> d" for d1 using step(3) [OF that] by (simp add: levels_of_def)
    ultimately show ?thesis using Cons.prems(2) step(4) ep unfolding levels_fit_def by (metis option.sel)
  qed
  have up: "pd_up (rs_disks st d1) \<noteq> None \<longrightarrow> pd_up (rs_disks ?st d1) \<noteq> None" for d1
    using step(3) [of d1] step(4) by (cases "d1 = d") (auto simp: levels_of_def)
  have q: "distinct q" "\<forall>d1 \<in> set q. pd_up (rs_disks ?st d1) \<noteq> None" using Cons.prems(1,3) up by auto
  note IH = Cons.IH [OF q(1) lv q(2)]
  have same: "estimated (fold end_partial q ?st) d = estimated ?st d"
    using IH Cons.prems(1) by (simp add: estimated_def)
  show ?case using IH up step(1,3,5) Cons.prems(1) same by auto
qed simp

text \<open>When no more answers come, every disk that was on one of the queues ends on exactly one of two: with an estimate to be analysed,
  or failed. Those that waited have failed; those with partial results are analysed exactly when one of their levels has a size.
  Every disk that is handed to the analysis comes once, with its block in order, which is what the analysis needs.\<close>

lemma end_estimates_settles:
  assumes "answered st"
  shows "rs_waitq (end_estimates st) = [] \<and> rs_pestq (end_estimates st) = [] \<and>
    mset (rs_estq (end_estimates st) @ rs_failq (end_estimates st)) = mset (rs_waitq st @ rs_pestq st @ rs_estq st @ rs_failq st) \<and>
    distinct (rs_estq (end_estimates st) @ rs_failq (end_estimates st)) \<and>
    rs_estq (end_estimates st) = rs_estq st @ filter (estimated (end_estimates st)) (rs_pestq st) \<and>
    ready (rs_estq (end_estimates st)) (s\<lparr>pl_disks := rs_disks (end_estimates st)\<rparr>)"
proof -
  define st1 where "st1 = (fold strand (rs_waitq st) st)\<lparr>rs_waitq := []\<rparr>"
  define st2 where "st2 = fold end_partial (rs_pestq st) st1"
  have up: "pd_up (rs_disks st d) \<noteq> None" if "d \<in> queued st" for d
  proof -
    have "\<exists>x. state_of st d = Some x" using assms that unfolding answered_def on_queues_def queued_def by blast
    then show ?thesis by (auto simp: state_of_def)
  qed
  have lv1: "levels_of st1 = levels_of st"
    using fold_strand_levels [of "rs_waitq st" st] up by (simp add: st1_def queued_def levels_of_def fun_eq_iff)
  have up1: "pd_up (rs_disks st1 d) \<noteq> None" if "d \<in> queued st" for d
    using up [OF that] lv1 by (metis levels_of_def option.map_disc_iff)
  have q1: "rs_failq st1 = rs_failq st @ rs_waitq st" "rs_estq st1 = rs_estq st" "rs_pestq st1 = rs_pestq st" "rs_waitq st1 = []"
    by (simp_all add: st1_def fold_strand)
  have "distinct (rs_pestq st)" "levels_fit st1" "\<forall>d \<in> set (rs_pestq st). pd_up (rs_disks st1 d) \<noteq> None"
    using assms up1 lv1 by (auto simp: answered_def on_queues_def levels_fit_def queued_def)
  note e = fold_end_partial [OF this, folded st2_def]
  have st': "end_estimates st = st2\<lparr>rs_pestq := []\<rparr>" by (simp add: end_estimates_def Let_def st1_def [symmetric] st2_def q1)
  have est: "estimated (end_estimates st) = estimated st2" by (simp add: st' estimated_def fun_eq_iff)
  have ms: "mset (rs_estq st2 @ rs_failq st2) = mset (rs_waitq st @ rs_pestq st @ rs_estq st @ rs_failq st)"
    using e by (simp add: q1 mset_filter ac_simps)
  moreover have d: "distinct (rs_estq st2 @ rs_failq st2)"
    using mset_eq_imp_distinct_iff [OF ms] assms by (simp add: answered_def on_queues_def)
  moreover have "ready (rs_estq st2) (s\<lparr>pl_disks := rs_disks st2\<rparr>)"
  proof -
    have "pd_up (rs_disks st2 d) \<noteq> None" if "d \<in> set (rs_estq st2)" for d
    proof -
      have "d \<in> set_mset (mset (rs_estq st2 @ rs_failq st2))" using that by simp
      then have "d \<in> queued st" unfolding ms by (auto simp: queued_def)
      then show ?thesis using up1 e by blast
    qed
    moreover have "levels_ok (the (pd_up (rs_disks st2 d)))" if some: "pd_up (rs_disks st2 d) \<noteq> None" for d
    proof -
      obtain ep where ep: "pd_up (rs_disks st2 d) = Some ep" using some by auto
      then have "levels_of st2 d = Some (map oe_level (es_estimate ep))" by (simp add: levels_of_def)
      then show ?thesis using e ep unfolding levels_fit_def levels_ok_lv by simp
    qed
    ultimately show ?thesis using d by (simp add: ready_def)
  qed
  ultimately show ?thesis using e unfolding est by (simp add: st' q1)
qed

section \<open>All answers\<close>

text \<open>
  What happens while the planner gets its estimates, in any order: a host that is ready is asked, or an answer of a host is
  handled. Here no error comes after partial results. Each host has disks of its own.
\<close>

inductive est_run :: "est_conf \<Rightarrow> am_host list \<Rightarrow> results \<Rightarrow> results \<Rightarrow> bool" for c hs where
  est_begin: "est_run c hs st st"
| est_ask: "est_run c hs st st1 \<Longrightarrow> hostp \<in> set hs \<Longrightarrow> rs_up st1 (fst hostp) = HOST_READY \<Longrightarrow>
    getsize c hostp st1 = Inr st2 \<Longrightarrow> est_run c hs st st2"
| est_answer: "est_run c hs st st1 \<Longrightarrow> hostp \<in> set hs \<Longrightarrow> timely hostp pkt st1 \<Longrightarrow>
    handle_result c hostp pkt st1 = Inr st2 \<Longrightarrow> est_run c hs st st2"

definition hosts_ok :: "am_host list \<Rightarrow> bool" where
  "hosts_ok hs \<longleftrightarrow> distinct (map fst hs) \<and> distinct (concat (map snd hs))"

text \<open>No disk waits while its host is ready.\<close>

definition run_inv :: "am_host list \<Rightarrow> results \<Rightarrow> bool" where
  "run_inv hs st \<longleftrightarrow> answered st \<and>
     (\<forall>h \<in> set hs. rs_up st (fst h) = HOST_READY \<longrightarrow> (\<forall>d \<in> set (snd h). pd_todo (rs_disks st d) \<longrightarrow> d \<notin> set (rs_waitq st)))"

lemma hosts_okD:
  assumes "hosts_ok hs" "h \<in> set hs" "h1 \<in> set hs"
  shows "distinct (snd h)" "fst h = fst h1 \<Longrightarrow> h = h1" "h \<noteq> h1 \<Longrightarrow> set (snd h) \<inter> set (snd h1) = {}"
proof -
  obtain k l where k: "k < length hs" "h = hs ! k" "l < length hs" "h1 = hs ! l"
    using assms(2,3) by (metis in_set_conv_nth)
  have d: "distinct (map snd hs ! k)" if "k < length hs" for k
    using assms(1) that by (simp add: hosts_ok_def distinct_concat_iff)
  show "distinct (snd h)" using d k by simp
  show "fst h = fst h1 \<Longrightarrow> h = h1" using assms(1) k by (auto simp: hosts_ok_def distinct_conv_nth)
  show "h \<noteq> h1 \<Longrightarrow> set (snd h) \<inter> set (snd h1) = {}"
  proof -
    assume "h \<noteq> h1"
    have dis: "distinct (concat (map snd hs))" using assms(1) by (simp add: hosts_ok_def)
    show ?thesis
      using dis assms(2,3) \<open>h \<noteq> h1\<close>
    proof (induction hs)
      case (Cons x hs)
      then show ?case by (auto split: if_splits)
    qed simp
  qed
qed

lemma run_step:
  assumes "run_inv hs st1" "hosts_ok hs" "hostp \<in> set hs" "sent_ok lost (snd hostp) st1 st2"
    and "rs_up st2 (fst hostp) \<noteq> HOST_READY" "\<forall>h. h \<noteq> fst hostp \<longrightarrow> rs_up st2 h = rs_up st1 h"
  shows "run_inv hs st2"
proof -
  have "d \<notin> set (rs_waitq st2)" if h: "h \<in> set hs" "rs_up st2 (fst h) = HOST_READY" "d \<in> set (snd h)" "pd_todo (rs_disks st2 d)" for h d
  proof -
    have ne: "fst h \<noteq> fst hostp" using h(2) assms(5) by metis
    then have "d \<notin> set (snd hostp)" using hosts_okD(3) [OF assms(2) h(1) assms(3)] h(3) by auto
    moreover have "d \<notin> set (rs_waitq st1)" using assms(1,4,6) h ne by (auto simp: run_inv_def sent_ok_def)
    ultimately show ?thesis using assms(4) by (auto simp: sent_ok_def)
  qed
  then show ?thesis using assms(4) by (simp add: run_inv_def sent_ok_def)
qed

lemma est_run_inv:
  assumes "est_run c hs st st'" "hosts_ok hs" "run_inv hs st"
  shows "run_inv hs st'"
  using assms
proof (induction rule: est_run.induct)
  case (est_ask st st1 hostp st2)
  then have inv: "run_inv hs st1" by simp
  have "sent_ok False (snd hostp) st1 st2"
    using getsize_ok [OF _ hosts_okD(1) [OF est_ask.prems(1) est_ask.hyps(2,2)] _ est_ask.hyps(4)] inv est_ask.hyps(2,3)
    by (auto simp: run_inv_def)
  then show ?case using run_step [OF inv est_ask.prems(1) est_ask.hyps(2)] getsize_up [OF est_ask.hyps(4)] by blast
next
  case (est_answer st st1 hostp pkt st2)
  then have inv: "run_inv hs st1" by simp
  then have "answered st1" by (simp add: run_inv_def)
  from handle_result_ok [OF est_answer.hyps(4) this hosts_okD(1) [OF est_answer.prems(1) est_answer.hyps(2,2)] est_answer.hyps(3)]
  show ?case using run_step [OF inv est_answer.prems(1) est_answer.hyps(2)] by blast
qed


text \<open>A host that is asked for the estimates of its two disks and answers.\<close>

abbreviation ex_ready :: results where
  "ex_ready \<equiv> ex_state (\<lambda>_. DISK_READY) [] [] HOST_READY"

lemma ex_asked:
  "map_r (\<lambda>st. (rs_sent st, timely (''h'', [0, 1]) (Inr (P_REP, ex_reply)) st)) (getsize ex_est_conf (''h'', [0, 1]) ex_ready) =
   Inr ([(''h'', Sendsize 1200 [Text_req 0 False [0, 1], Text_req 1 False [0, 1]])], True)"
  by code_simp

lemma ex_answered:
  "map_r (\<lambda>st. (rs_waitq st, rs_pestq st, rs_estq st, rs_failq st))
     (bind_r (getsize ex_est_conf (''h'', [0, 1]) ex_ready) (handle_result ex_est_conf (''h'', [0, 1]) (Inr (P_REP, ex_reply)))) =
   Inr ([], [], [0, 1], [])"
  by code_simp


end
