(* ===== verification/Schedule_Passed.thy ===== *)
theory Schedule_Passed
  imports Schedule_Text Planner_Correct
begin

text \<open>
  The driver reads what the planner wrote: the fields of a line one by one, the lines, and the queues.
\<close>

section \<open>Fields\<close>

lemma skip_whitespace_idem [simp]: "skip_whitespace (skip_whitespace s) = skip_whitespace s"
  by (simp add: skip_whitespace_def)

lemma fields_skip [simp]:
  "word_field (skip_whitespace s) = word_field s" "quoted_field (skip_whitespace s) = quoted_field s"
  "int_field (skip_whitespace s) = int_field s" "degr_fields (skip_whitespace s) = degr_fields s"
  by (simp_all add: word_field_def quoted_field_def int_field_def degr_fields_def)

lemma fields_space [simp]:
  "word_field (CHR '' '' # s) = word_field s" "quoted_field (CHR '' '' # s) = quoted_field s"
  "int_field (CHR '' '' # s) = int_field s" "degr_fields (CHR '' '' # s) = degr_fields s"
  by (simp_all add: word_field_def quoted_field_def int_field_def degr_fields_def)

definition text_word :: "string \<Rightarrow> bool" where
  "text_word w \<longleftrightarrow> w \<noteq> [] \<and> is_word w \<and> CHR 0x22 \<notin> set w \<and> CHR 0x5C \<notin> set w"

lemma word_field_text: "text_word w \<Longrightarrow> word_field (w @ CHR '' '' # t) = Inr (w, skip_whitespace t)"
  by (simp add: word_field_def text_word_def skip_whitespace_word cut_field_space)

lemma show_int_word: "text_word (show_int n)"
proof -
  have d: "CHR 0x22 \<notin> set (show_nat m)" "CHR 0x5C \<notin> set (show_nat m)" for m
    using show_nat_digits [of m] by (auto simp: is_digit_def)
  show ?thesis unfolding text_word_def
  proof (intro conjI)
    show "show_int n \<noteq> []" by (simp add: show_int_def)
    show "is_word (show_int n)" by simp
    show "CHR 0x22 \<notin> set (show_int n)" "CHR 0x5C \<notin> set (show_int n)" using d by (auto simp: show_int_def)
  qed
qed

definition number_ends :: "string \<Rightarrow> bool" where
  "number_ends t \<longleftrightarrow> t = [] \<or> \<not> is_digit (hd t)"

lemma number_ends_simps [simp]: "number_ends []" "number_ends (CHR '' '' # t)"
  by (simp_all add: number_ends_def is_digit_def)

lemma read_digits_ends: "number_ends t \<Longrightarrow> read_digits n t = n"
  by (cases t) (auto simp: number_ends_def)

lemma digit_chars: "is_digit c \<Longrightarrow> c \<noteq> CHR ''-'' \<and> c \<noteq> CHR ''+'' \<and> \<not> g_ascii_isspace c \<and> c \<noteq> CHR 0x0B"
  by (auto simp: is_digit_def g_ascii_isspace_def)

lemma scan_nat:
  assumes "number_ends t"
  shows "read_digits 0 (show_nat n @ t) = n" "dropWhile is_digit (show_nat n @ t) = t" "is_digit (hd (show_nat n @ t))"
proof -
  have d: "\<forall>c \<in> set (show_nat n). is_digit c" "show_nat n \<noteq> []" using show_nat_digits [of n] by simp_all
  show "read_digits 0 (show_nat n @ t) = n" using d assms by (simp add: read_digits_append read_digits_ends)
  show "dropWhile is_digit (show_nat n @ t) = t"
    using d assms by (cases t) (auto simp: dropWhile_append2 number_ends_def)
  show "is_digit (hd (show_nat n @ t))" using d by simp
qed

lemma scan_int_show: "number_ends t \<Longrightarrow> scan_int (show_int n @ t) = Some n"
proof -
  assume t: "number_ends t"
  note s = scan_nat [OF t]
  show ?thesis
  proof (cases "n < 0")
    case True
    have "\<not> g_ascii_isspace (CHR ''-'')" by (simp add: g_ascii_isspace_def)
    then show ?thesis using True s [of "nat (- n)"] by (simp add: scan_int_def show_int_def Let_def)
  next
    case False
    obtain c cs where c: "show_nat (nat n) @ t = c # cs" "is_digit c"
      using s(3) [of "nat n"] by (cases "show_nat (nat n) @ t") auto
    then show ?thesis using False s(1) [of "nat n"] digit_chars [OF c(2)]
      by (simp add: scan_int_def show_int_def Let_def del: read_digits.simps)
  qed
qed

lemma skip_integer_show: "number_ends t \<Longrightarrow> skip_integer (show_int n @ t) = t"
proof -
  assume t: "number_ends t"
  note s = scan_nat [OF t]
  show ?thesis
  proof (cases "n < 0")
    case False
    have "hd (show_nat (nat n) @ t) \<noteq> CHR ''-''" "hd (show_nat (nat n) @ t) \<noteq> CHR ''+''"
      using digit_chars [OF s(3) [of "nat n"]] by auto
    then show ?thesis using False s(2) [of "nat n"] by (simp add: skip_integer_def show_int_def)
  qed (use s(2) [of "nat (- n)"] in \<open>simp add: skip_integer_def show_int_def\<close>)
qed

lemma int_field_text: "number_ends t \<Longrightarrow> int_field (show_int n @ t) = Inr (n, t)"
proof -
  assume t: "number_ends t"
  have w: "is_word (show_int n)" "show_int n \<noteq> []" using show_int_word [of n] by (simp_all add: text_word_def)
  show ?thesis
    using scan_int_show [OF t] skip_integer_show [OF t] w by (simp add: int_field_def skip_whitespace_word [OF w])
qed

section \<open>Quoted fields\<close>

lemma quoted_chars: "needs_quote (CHR '' '')" "needs_quote (CHR 0x09)" "needs_quote (CHR 0x0A)" "needs_quote (CHR 0x0C)"
  "needs_quote (CHR 0x0D)" "needs_quote dquote" "needs_quote bslash"
  by (simp_all add: needs_quote_def signed_char_def)

lemma space_needs_quote: "g_ascii_isspace c \<Longrightarrow> needs_quote c"
  using quoted_chars by (auto simp: g_ascii_isspace_def)

lemma skip_quoted_body:
  "skip_quoted_string True (quote_body s @ dquote # t) = apfst (\<lambda>w. quote_body s @ dquote # w) (skip_quoted_string False t)"
  by (induction s) (simp_all add: apfst_def map_prod_def split: prod.splits)

lemma skip_quoted_bare:
  "\<not> list_ex needs_quote s \<Longrightarrow> skip_quoted_string False (s @ t) = apfst (\<lambda>w. s @ w) (skip_quoted_string False t)"
proof (induction s)
  case (Cons c s)
  have "\<not> g_ascii_isspace c" using Cons.prems space_needs_quote [of c] by auto
  then show ?case using Cons by (auto simp: needs_quote_def apfst_def map_prod_def split: prod.splits)
qed (simp add: apfst_def map_prod_def split: prod.splits)

lemma quote_string_eq:
  "quote_string s = (if s \<noteq> [] \<and> \<not> list_ex needs_quote s then s else dquote # quote_body s @ [dquote])"
  by (simp add: quote_string_def quote_string_maybe_eq)

lemma skip_quote_string:
  "t = [] \<or> hd t = CHR '' '' \<Longrightarrow> skip_quoted_string False (quote_string s @ t) = (quote_string s, t)"
proof -
  assume t: "t = [] \<or> hd t = CHR '' ''"
  then have e: "skip_quoted_string False t = ([], t)" by (cases t) auto
  have "\<not> g_ascii_isspace dquote" by (simp add: g_ascii_isspace_def)
  then show ?thesis using skip_quoted_body [of s t] skip_quoted_bare [of s t] by (simp add: quote_string_eq e)
qed

lemma quote_string_start: "quote_string s \<noteq> [] \<and> \<not> g_ascii_isspace (hd (quote_string s))"
  using space_needs_quote [of "hd s"] by (cases s) (auto simp: quote_string_eq g_ascii_isspace_def)

lemma quoted_field_text: "t = [] \<or> hd t = CHR '' '' \<Longrightarrow> quoted_field (quote_string s @ t) = Inr (s, t)"
proof -
  assume t: "t = [] \<or> hd t = CHR '' ''"
  obtain c cs where q: "quote_string s = c # cs" "\<not> g_ascii_isspace c" using quote_string_start [of s] by (cases "quote_string s") auto
  have "skip_whitespace (quote_string s @ t) = quote_string s @ t" by (simp add: q)
  moreover have "unquote_string (Some (quote_string s)) = Inr s" by (simp add: quote_string_def unquote_quote)
  ultimately show ?thesis using t skip_quote_string [OF t, of s] q(1) by (auto simp: quoted_field_def)
qed

section \<open>Closed lines\<close>

lemma closed_append: "closed_line a \<Longrightarrow> closed_line b \<Longrightarrow> closed_line (a @ b)"
  by (simp add: closed_line_def)

lemma closed_space: "closed_line s \<Longrightarrow> closed_line (CHR '' '' # s)"
  by (simp add: closed_line_def agets_flags_def)

lemma closed_word: "text_word w \<Longrightarrow> closed_line w"
  by (rule closed_plain) (auto simp: text_word_def is_word_def g_ascii_isspace_def)

lemma closed_quote_string: "closed_line (quote_string s)"
proof -
  have body: "CHR 0x0A \<notin> set (quote_body s) \<and> fold agets_flags (quote_body s) (True, False) = (True, False)" for s
    by (induction s) (auto simp: agets_flags_def)
  have bare: "CHR 0x0A \<notin> set s \<and> CHR 0x22 \<notin> set s \<and> CHR 0x5C \<notin> set s" if "\<not> list_ex needs_quote s"
    using that quoted_chars(3,6,7) by (auto simp: list_ex_iff)
  have q: "agets_flags dquote (False, False) = (True, False)" "agets_flags dquote (True, False) = (False, False)"
    by (simp_all add: agets_flags_def)
  show ?thesis
    using body [of s] bare closed_plain [of s] by (auto simp: quote_string_eq closed_line_def q)
qed

section \<open>A line\<close>

text \<open>What the driver is to know of a planned dump.\<close>

definition planned_degr :: "planner \<Rightarrow> nat \<Rightarrow> degraded" where
  "planned_degr s d =
     (let ep = est s d; degr = degr_est s d; kps = fix_rate (es_incrrate ep) in
      if has_degraded s d then
        Degr_dump (oe_level degr) (the (oe_dumpdate degr)) (oe_nsize degr) (oe_csize degr) (est_seconds degr kps) (round_even kps)
      else Degr_mesg (case es_degr_mesg ep of Some m \<Rightarrow> m | None \<Rightarrow> ''Skipping: cannot dump in degraded mode for unknown reason''))"

definition planned :: "planner \<Rightarrow> nat \<Rightarrow> sched_line" where
  "planned s d =
     (let dp = pl_disks s d; dump = dump_est s d in
      \<lparr>sl_host = pd_host dp, sl_features = pd_features dp, sl_disk = pd_name dp, sl_datestamp = pc_timestamp (pl_conf s),
       sl_priority = es_dump_priority (est s d), sl_level = oe_level dump, sl_dumpdate = the (oe_dumpdate dump),
       sl_nsize = oe_nsize dump, sl_csize = oe_csize dump, sl_time = est_seconds dump (dump_rate s d),
       sl_kps = round_even (dump_rate s d), sl_degr = planned_degr s d\<rparr>)"

text \<open>
  What the plan of a disk may not have: a host name, features or a date with a space, a quote or a backslash,
  a rate that is not a 64-bit number, or a message that needs no quotes. The disk name may be any.
\<close>

definition has_date :: "one_est_t \<Rightarrow> bool" where
  "has_date oe \<longleftrightarrow> (case oe_dumpdate oe of None \<Rightarrow> False | Some w \<Rightarrow> text_word w)"

definition line_ok :: "planner \<Rightarrow> nat \<Rightarrow> bool" where
  "line_ok s d \<longleftrightarrow>
     text_word (pd_host (pl_disks s d)) \<and> text_word (pd_features (pl_disks s d)) \<and> text_word (pc_timestamp (pl_conf s)) \<and>
     has_date (dump_est s d) \<and> es_fullrate (est s d) \<le> 2 ^ 60 \<and> es_incrrate (est s d) \<le> 2 ^ 60 \<and>
     (if has_degraded s d then has_date (degr_est s d)
      else case es_degr_mesg (est s d) of None \<Rightarrow> True | Some m \<Rightarrow> m = [] \<or> list_ex needs_quote m)"

lemma round_even_rate:
  assumes "r \<le> 2 ^ 60"
  shows "round_even (fix_rate r) mod 2 ^ 64 = round_even (fix_rate r)"
proof -
  have "1 \<le> fix_rate r" "fix_rate r \<le> 2 ^ 60" using assms by (simp_all add: fix_rate_def DEFAULT_DUMPRATE_def)
  then have f: "0 \<le> floor (fix_rate r)" "floor (fix_rate r) \<le> 2 ^ 60" by (simp_all add: floor_le_iff)
  moreover have "round_even (fix_rate r) = floor (fix_rate r) \<or> round_even (fix_rate r) = floor (fix_rate r) + 1"
    by (simp add: round_even_def Let_def)
  ultimately show ?thesis by (intro mod_pos_pos_trivial) auto
qed

lemma not_digit_quote: "quote_string m @ [] = quote_string m"
  by simp

lemma degr_text_read:
  assumes "line_ok s d"
  shows "degr_fields (degr_text s d) = Inr (planned_degr s d)" "closed_line (degr_text s d)" "number_ends (degr_text s d)"
proof -
  let ?degr = "degr_est s d" and ?kps = "fix_rate (es_incrrate (est s d))"
  have "degr_fields (degr_text s d) = Inr (planned_degr s d) \<and> closed_line (degr_text s d) \<and> number_ends (degr_text s d)"
  proof (cases "has_degraded s d")
    case True
    then obtain w where w: "oe_dumpdate ?degr = Some w" "text_word w"
      using assms by (auto simp: line_ok_def has_date_def split: option.splits)
    let ?t = "show_int (oe_level ?degr) @ CHR '' '' # w @ CHR '' '' # show_int (oe_nsize ?degr) @ CHR '' '' # show_int (oe_csize ?degr) @
      CHR '' '' # show_int (est_seconds ?degr ?kps) @ CHR '' '' # show_int (round_even ?kps)"
    have t: "degr_text s d = CHR '' '' # ?t" using True w(1) by (simp add: degr_text_def g_strjoin_def Let_def)
    have kps: "round_even ?kps mod 2 ^ 64 = round_even ?kps" using assms by (intro round_even_rate) (simp add: line_ok_def)
    have sw: "skip_whitespace ?t = ?t" "?t \<noteq> []" "hd ?t \<noteq> dquote"
    proof -
      have i: "is_word (show_int n)" "show_int n \<noteq> []" "CHR 0x22 \<notin> set (show_int n)" for n
        using show_int_word [of n] by (simp_all add: text_word_def)
      show "skip_whitespace ?t = ?t" by (rule skip_whitespace_word [OF i(1,2)])
      show "?t \<noteq> []" "hd ?t \<noteq> dquote" using i(2,3) [of "oe_level ?degr"] by (auto simp: hd_append) (metis list.set_sel(1))
    qed
    have "degr_fields ?t = Inr (planned_degr s d)"
      unfolding degr_fields_def Let_def sw(1)
      using sw(2,3) w kps int_field_text [of "[]" "round_even ?kps"] True
      by (simp add: int_field_text word_field_text planned_degr_def Let_def)
    moreover have "closed_line ?t"
      by (intro closed_append closed_space closed_word show_int_word w(2))
    ultimately show ?thesis unfolding t by (simp add: closed_space)
  next
    case False
    define m where "m = (case es_degr_mesg (est s d) of Some m \<Rightarrow> m | None \<Rightarrow> ''Skipping: cannot dump in degraded mode for unknown reason'')"
    have t: "degr_text s d = CHR '' '' # quote_string m" using False by (simp add: degr_text_def m_def Let_def)
    have "needs_quote (CHR '':'')" by (simp add: needs_quote_def)
    then have "m = [] \<or> list_ex needs_quote m"
      using assms False by (auto simp: line_ok_def m_def split: option.splits)
    then have q: "quote_string m = dquote # quote_body m @ [dquote]" by (auto simp: quote_string_eq)
    have sp: "\<not> g_ascii_isspace dquote" by (simp add: g_ascii_isspace_def)
    have "degr_fields (quote_string m) = map_r (Degr_mesg \<circ> fst) (quoted_field (quote_string m @ []))"
      by (simp add: degr_fields_def q sp Let_def)
    also have "\<dots> = Inr (planned_degr s d)"
      using False by (subst quoted_field_text) (simp_all add: planned_degr_def m_def Let_def)
    finally show ?thesis unfolding t by (simp add: closed_space closed_quote_string)
  qed
  then show "degr_fields (degr_text s d) = Inr (planned_degr s d)" "closed_line (degr_text s d)" "number_ends (degr_text s d)"
    by blast+
qed

text \<open>The line without its newline.\<close>

definition line_text :: "planner \<Rightarrow> nat \<Rightarrow> string" where
  "line_text s d =
     (let dp = pl_disks s d; dump = dump_est s d in
      ''DUMP'' @ CHR '' '' # pd_host dp @ CHR '' '' # pd_features dp @ CHR '' '' # quote_string (pd_name dp) @
      CHR '' '' # pc_timestamp (pl_conf s) @ CHR '' '' # show_int (es_dump_priority (est s d)) @ CHR '' '' # show_int (oe_level dump) @
      CHR '' '' # the (oe_dumpdate dump) @ CHR '' '' # show_int (oe_nsize dump) @ CHR '' '' # show_int (oe_csize dump) @
      CHR '' '' # show_int (est_seconds dump (dump_rate s d)) @ CHR '' '' # show_int (round_even (dump_rate s d)) @ degr_text s d)"

lemma output_line_text:
  assumes "line_ok s d"
  shows "output_scheduleline s d = (if oe_csize (dump_est s d) = - 1 then [] else line_text s d @ [CHR 0x0A])"
proof -
  obtain w where "oe_dumpdate (dump_est s d) = Some w"
    using assms by (auto simp: line_ok_def has_date_def split: option.splits)
  then show ?thesis by (simp add: output_scheduleline_def line_text_def g_strjoin_def Let_def)
qed

lemma line_text_read:
  assumes "line_ok s d"
  shows "schedule_line (line_text s d) = Inr (planned s d)" "closed_line (line_text s d)" "line_text s d \<noteq> []"
proof -
  obtain w where w: "oe_dumpdate (dump_est s d) = Some w" "text_word w"
    using assms by (auto simp: line_ok_def has_date_def split: option.splits)
  have ok: "text_word (pd_host (pl_disks s d))" "text_word (pd_features (pl_disks s d))" "text_word (pc_timestamp (pl_conf s))"
    using assms by (simp_all add: line_ok_def)
  have dump: "text_word ''DUMP''" by (simp add: text_word_def is_word_def g_ascii_isspace_def)
  note degr = degr_text_read [OF assms]
  have kps: "round_even (dump_rate s d) mod 2 ^ 64 = round_even (dump_rate s d)"
    unfolding dump_rate_def by (rule round_even_rate) (use assms in \<open>simp add: line_ok_def\<close>)
  have "word_field (''DUMP'' @ CHR '' '' # t) = Inr (''DUMP'', skip_whitespace t)" for t by (rule word_field_text [OF dump])
  then show "schedule_line (line_text s d) = Inr (planned s d)"
    using kps unfolding line_text_def schedule_line_def Let_def
    by (simp add: word_field_text ok w int_field_text quoted_field_text degr kps planned_def Let_def del: append.simps)
  show "closed_line (line_text s d)"
    unfolding line_text_def Let_def w(1) option.sel
    by (intro closed_append closed_space closed_word closed_quote_string show_int_word degr dump ok w(2))
  show "line_text s d \<noteq> []" by (simp add: line_text_def Let_def)
qed

section \<open>The whole schedule\<close>

lemma read_lines_printed:
  assumes "\<forall>d \<in> set ds. line_ok s d"
  shows "read_lines_of (concat (map (output_scheduleline s) ds)) =
    Inr (map (planned s) (filter (\<lambda>d. oe_csize (dump_est s d) \<noteq> - 1) ds))"
proof -
  let ?ds = "filter (\<lambda>d. oe_csize (dump_est s d) \<noteq> - 1) ds"
  have "concat (map (output_scheduleline s) ds) = concat (map (\<lambda>l. l @ [CHR 0x0A]) (map (line_text s) ?ds))"
    using assms by (induction ds) (simp_all add: output_line_text)
  moreover have "agets_lines (concat (map (\<lambda>l. l @ [CHR 0x0A]) (map (line_text s) ?ds))) = map (line_text s) ?ds"
    by (rule agets_lines_closed) (use assms line_text_read(2) in auto)
  moreover have "filter (\<lambda>line. line \<noteq> []) (map (line_text s) ?ds) = map (line_text s) ?ds"
    using assms line_text_read(3) by (auto simp: filter_id_conv)
  moreover have "collect_r (map schedule_line (map (line_text s) ?ds)) = Inr (map (planned s) ?ds)"
    unfolding map_map by (rule collect_r_map) (use assms line_text_read(1) in auto)
  ultimately show ?thesis by (simp add: read_lines_of_def)
qed

text \<open>The driver reads exactly what the planner printed: for every disk of the plan that has an estimate one schedule,
  with the host, the disk (whatever its name is), the date, priority, level, sizes, time and rate that were planned
  and the incremental dump for degraded mode or the reason why there is none.\<close>

theorem schedule_text_roundtrip:
  assumes "\<forall>d \<in> set ds. line_ok s d"
  shows "read_lines_of (concat (map (output_scheduleline s) ds)) =
    Inr (map (planned s) (filter (\<lambda>d. oe_csize (dump_est s d) \<noteq> - 1) ds))"
  by (rule read_lines_printed [OF assms])

lemma ex_plan_lines: "\<forall>d \<in> {0, 1}. line_ok (ex_plan b) d" "\<forall>d \<in> {0, 1}. oe_csize (dump_est (ex_plan b) d) \<noteq> - 1"
proof -
  have "\<forall>d \<in> set [0, 1]. line_ok (ex_plan True) d \<and> oe_csize (dump_est (ex_plan True) d) \<noteq> - 1" by code_simp
  moreover have "\<forall>d \<in> set [0, 1]. line_ok (ex_plan False) d \<and> oe_csize (dump_est (ex_plan False) d) \<noteq> - 1" by code_simp
  ultimately show "\<forall>d \<in> {0, 1}. line_ok (ex_plan b) d" "\<forall>d \<in> {0, 1}. oe_csize (dump_est (ex_plan b) d) \<noteq> - 1"
    by (cases b; simp)+
qed

theorem schedule_text_roundtrip_witness:
  "read_lines_of (concat (map (output_scheduleline (ex_plan False)) [1, 0])) = Inr [planned (ex_plan False) 1, planned (ex_plan False) 0]"
  using schedule_text_roundtrip [of "[1, 0]" "ex_plan False"] ex_plan_lines [of False] by simp

section \<open>The queues of the driver\<close>

definition never_held :: "(nat \<Rightarrow> bool) \<Rightarrow> driver \<Rightarrow> nat \<Rightarrow> bool" where
  "never_held directtcp st d \<longleftrightarrow>
     d_to_holdingdisk (disks st d) = HOLD_NEVER \<or> directtcp d \<and> d_to_holdingdisk (disks st d) = HOLD_AUTO"

lemma fill_sched_holding [simp]: "d_to_holdingdisk (fill_sched sl d) = d_to_holdingdisk d"
  by (simp add: fill_sched_def Let_def split: degraded.splits)

definition taken :: "sched_line \<Rightarrow> dle \<Rightarrow> bool" where
  "taken sl d \<longleftrightarrow> d_scheduled d \<and> d_level d = sl_level sl \<and> d_datestamp d = sl_datestamp sl \<and>
     d_est_size d = am_round (DISK_BLOCK_KB + sl_csize sl) DISK_BLOCK_KB \<and> d_est_csize d = d_est_size d \<and>
     d_est_kps d = nat (sl_kps sl) \<and> d_est_time d = nat (sl_time sl) \<and>
     d_degr_level d = (case sl_degr sl of Degr_mesg m \<Rightarrow> - 1 | Degr_dump level _ _ _ _ _ \<Rightarrow> level)"

lemma taken_fill: "taken sl (fill_sched sl d)" "taken sl (d\<lparr>d_to_holdingdisk := h\<rparr>) = taken sl d"
  by (simp_all add: taken_def fill_sched_def Let_def split: degraded.splits)

lemma take_line_result:
  assumes "lookup_disk (sl_host sl) (sl_disk sl) = Some d" "valid d"
  shows "\<exists>st'. take_line lookup_disk valid directtcp sl st = Inr st' \<and>
    queues st' Runq = queues st Runq @ (if never_held directtcp st d then [] else [d]) \<and>
    queues st' Directq = queues st Directq @ (if never_held directtcp st d then [d] else []) \<and>
    taken sl (disks st' d) \<and> (\<forall>d1. d1 \<noteq> d \<longrightarrow> disks st' d1 = disks st d1)"
  using assms by (auto simp: take_line_def never_held_def enqueue_def unqueue_def upd_disk_def Let_def taken_fill)

lemma take_lines_result:
  assumes "\<forall>d \<in> set ds. lookup_disk (sl_host (sl d)) (sl_disk (sl d)) = Some d \<and> valid d" "distinct ds"
  shows "\<exists>st'. take_lines lookup_disk valid directtcp (map sl ds) st = Inr st' \<and>
    queues st' Runq = queues st Runq @ filter (\<lambda>d. \<not> never_held directtcp st d) ds \<and>
    queues st' Directq = queues st Directq @ filter (never_held directtcp st) ds \<and>
    (\<forall>d \<in> set ds. taken (sl d) (disks st' d)) \<and> (\<forall>d. d \<notin> set ds \<longrightarrow> disks st' d = disks st d)"
  using assms
proof (induction ds arbitrary: st)
  case (Cons d ds)
  have d: "lookup_disk (sl_host (sl d)) (sl_disk (sl d)) = Some d" "valid d" "d \<notin> set ds" using Cons.prems by simp_all
  from take_line_result [where directtcp = directtcp and st = st and valid = valid and lookup_disk = lookup_disk, OF d(1,2)]
  obtain st1 where t: "take_line lookup_disk valid directtcp (sl d) st = Inr st1"
    "queues st1 Runq = queues st Runq @ (if never_held directtcp st d then [] else [d])"
    "queues st1 Directq = queues st Directq @ (if never_held directtcp st d then [d] else [])"
    "taken (sl d) (disks st1 d)" "d1 \<noteq> d \<Longrightarrow> disks st1 d1 = disks st d1" for d1 by blast
  have "never_held directtcp st1 x = never_held directtcp st x" if "x \<in> set ds" for x
  proof -
    have "x \<noteq> d" using that d(3) by blast
    from t(5) [OF this] show ?thesis by (simp add: never_held_def)
  qed
  then have never: "filter (never_held directtcp st1) ds = filter (never_held directtcp st) ds"
    "filter (\<lambda>d. \<not> never_held directtcp st1 d) ds = filter (\<lambda>d. \<not> never_held directtcp st d) ds"
    by (auto intro: filter_cong)
  from Cons.IH [of st1] Cons.prems obtain st' where "take_lines lookup_disk valid directtcp (map sl ds) st1 = Inr st'"
    "queues st' Runq = queues st1 Runq @ filter (\<lambda>d. \<not> never_held directtcp st1 d) ds"
    "queues st' Directq = queues st1 Directq @ filter (never_held directtcp st1) ds"
    "\<forall>d \<in> set ds. taken (sl d) (disks st' d)" "\<forall>d. d \<notin> set ds \<longrightarrow> disks st' d = disks st1 d" by auto
  then show ?case using t d(3) by (intro exI [of _ st']) (auto simp: never)
qed simp

text \<open>C37: planner and driver together: the schedule the planner prints puts the disks it names on the queues of the
  driver, in the order of the plan, those that cannot use a holding disk on the queue of direct dumps; each of
  them has the level that was planned, the planned size with its header rounded up to whole blocks, and the level of the
  degraded dump, if one was planned. No other disk is touched.\<close>

theorem schedule_handed_over:
  assumes "\<forall>d \<in> set ds. line_ok s d \<and> oe_csize (dump_est s d) \<noteq> - 1" and "distinct ds"
    and "\<forall>d \<in> set ds. lookup_disk (pd_host (pl_disks s d)) (pd_name (pl_disks s d)) = Some d \<and> valid d"
  shows "\<exists>sls st'. read_lines_of (concat (map (output_scheduleline s) ds)) = Inr sls \<and>
    take_lines lookup_disk valid directtcp sls st = Inr st' \<and>
    queues st' Runq = queues st Runq @ filter (\<lambda>d. \<not> never_held directtcp st d) ds \<and>
    queues st' Directq = queues st Directq @ filter (never_held directtcp st) ds \<and>
    (\<forall>d \<in> set ds. d_scheduled (disks st' d) \<and> d_level (disks st' d) = oe_level (dump_est s d) \<and>
      d_est_size (disks st' d) = am_round (DISK_BLOCK_KB + oe_csize (dump_est s d)) DISK_BLOCK_KB \<and>
      d_degr_level (disks st' d) = (if has_degraded s d then oe_level (degr_est s d) else - 1)) \<and>
    (\<forall>d. d \<notin> set ds \<longrightarrow> disks st' d = disks st d)"
proof -
  have f: "filter (\<lambda>d. oe_csize (dump_est s d) \<noteq> - 1) ds = ds" using assms(1) by (simp add: filter_id_conv)
  have r: "read_lines_of (concat (map (output_scheduleline s) ds)) = Inr (map (planned s) ds)"
    using read_lines_printed [of ds s] assms(1) f by simp
  have p: "sl_host (planned s d) = pd_host (pl_disks s d)" "sl_disk (planned s d) = pd_name (pl_disks s d)" for d
    by (simp_all add: planned_def Let_def)
  have t: "d_scheduled e \<and> d_level e = oe_level (dump_est s d) \<and>
      d_est_size e = am_round (DISK_BLOCK_KB + oe_csize (dump_est s d)) DISK_BLOCK_KB \<and>
      d_degr_level e = (if has_degraded s d then oe_level (degr_est s d) else - 1)" if "taken (planned s d) e" for d e
    using that by (auto simp: taken_def planned_def planned_degr_def Let_def split: if_splits)
  have "\<forall>d \<in> set ds. lookup_disk (sl_host (planned s d)) (sl_disk (planned s d)) = Some d \<and> valid d"
    using assms(3) by (simp add: p)
  from take_lines_result [where sl = "planned s" and directtcp = directtcp and st = st and valid = valid and lookup_disk = lookup_disk,
      OF this assms(2)]
  obtain st' where st': "take_lines lookup_disk valid directtcp (map (planned s) ds) st = Inr st'"
    "queues st' Runq = queues st Runq @ filter (\<lambda>d. \<not> never_held directtcp st d) ds"
    "queues st' Directq = queues st Directq @ filter (never_held directtcp st) ds"
    "\<forall>d \<in> set ds. taken (planned s d) (disks st' d)" "\<forall>d. d \<notin> set ds \<longrightarrow> disks st' d = disks st d" by blast
  show ?thesis using r st' t by (intro exI conjI ballI) (assumption | blast)+
qed

theorem schedule_handed_over_witness:
  "\<exists>sls st'. read_lines_of (output_scheduleline (ex_plan False) 0) = Inr sls \<and>
     take_lines (\<lambda>_ _. Some 0) (\<lambda>_. True) (\<lambda>_. False) sls undefined = Inr st' \<and> d_level (disks st' 0) = 0"
proof -
  have "oe_level (dump_est (ex_plan False) 0) = 0" by code_simp
  moreover have "\<forall>d \<in> set [0]. line_ok (ex_plan False) d \<and> oe_csize (dump_est (ex_plan False) d) \<noteq> - 1"
    using ex_plan_lines [of False] by simp
  ultimately show ?thesis
    using schedule_handed_over [of "[0]" "ex_plan False" "\<lambda>_ _. Some 0" "\<lambda>_. True" "\<lambda>_. False" undefined] by auto
qed

end
