(* ===== verification/Amandates.thy ===== *)
theory Amandates
  imports Schedule_Passed
begin

text \<open>
  The dump dates of a client (\<open>client-src/amandates.c\<close>, with \<open>client-src/unctime.c\<close>): per disk and level the time of the last
  dump, sorted by the name of the disk, kept in a file. A pointer to an entry is its index in the list. Files are a map from
  names to their text. Parameters: what may be created, opened and locked, \<open>/etc/dumpdates\<close>, the device of a name and
  \<open>mktime\<close>. Reading, writing and closing a file that is open succeed, and the levels and dates in the files fit their types.
\<close>

section \<open>Dates in the form of ctime\<close>

record am_env =
  en_creates :: "string \<Rightarrow> bool"
  en_opens :: "string \<Rightarrow> bool"
  en_locks :: "string \<Rightarrow> bool"
  en_dumpdates :: "string option"
  en_devname :: "string \<Rightarrow> string"
  en_mktime :: "int \<Rightarrow> int \<Rightarrow> int \<Rightarrow> int \<Rightarrow> int \<Rightarrow> int \<Rightarrow> int"

definition month_names :: string where "month_names = ''JanFebMarAprMayJunJulAugSepOctNovDec''"

text \<open>\<open>lookup\<close> of \<open>unctime.c\<close>: the first month whose name, with what follows, begins with the text.\<close>

definition month_lookup :: "string \<Rightarrow> nat option" where
  "month_lookup str = find (\<lambda>i. take (length str) (drop (3 * i) month_names) = str) [0 ..< 12]"

text \<open>The buffer of 26 characters has NULs behind a shorter text, and one behind the month.\<close>

definition unctime :: "am_env \<Rightarrow> string \<Rightarrow> int" where
  "unctime en str =
     (let dbuf = take 25 str in
      case month_lookup (take 3 (drop 4 dbuf)) of
        None \<Rightarrow> - 1
      | Some mon \<Rightarrow>
          en_mktime en (OFF_T_ATOI (drop 20 dbuf) - 1900) (int mon) (OFF_T_ATOI (drop 8 dbuf)) (OFF_T_ATOI (drop 11 dbuf))
            (OFF_T_ATOI (drop 14 dbuf)) (OFF_T_ATOI (drop 17 dbuf)))"

section \<open>The list\<close>

record amandates_t =
  am_name :: string
  am_dates :: "nat \<Rightarrow> int"

text \<open>\<open>ad_amdf\<close> tells whether the file is open, \<open>ad_files\<close> what is in the files.\<close>

record amdates =
  ad_list :: "amandates_t list"
  ad_amdf :: bool
  ad_updated :: bool
  ad_readonly :: bool
  ad_file :: "string option"
  ad_files :: "string \<Rightarrow> string option"

definition level_ok :: "int \<Rightarrow> bool" where
  "level_ok level \<longleftrightarrow> 0 \<le> level \<and> level < DUMP_LEVELS"

definition set_date :: "nat \<Rightarrow> int \<Rightarrow> int \<Rightarrow> amdates \<Rightarrow> amdates" where
  "set_date i level dumpdate st =
     st\<lparr>ad_list := (ad_list st)[i := (ad_list st ! i)\<lparr>am_dates := (am_dates (ad_list st ! i))(nat level := dumpdate)\<rparr>]\<rparr>"

text \<open>One line of \<open>/etc/dumpdates\<close>: the device, the level and the date.\<close>

definition dumpdates_line :: "am_env \<Rightarrow> string \<Rightarrow> (string \<times> int \<times> int) option" where
  "dumpdates_line en line =
     (let s = skip_whitespace line in
      if s = [] then None
      else
        case cut_field s of (fname, s) \<Rightarrow>
          if s = [] then None
          else
            case scan_int s of
              None \<Rightarrow> None
            | Some level \<Rightarrow>
                let s = skip_whitespace (skip_integer s) in
                if s = [] then None else Some (fname, level, unctime en s))"

definition import_line :: "string \<Rightarrow> nat \<Rightarrow> string \<times> int \<times> int \<Rightarrow> amdates \<Rightarrow> amdates" where
  "import_line devname i = (\<lambda>(fname, level, dumpdate) st.
     if fname \<noteq> devname \<or> \<not> level_ok level then st
     else if dumpdate \<noteq> - 1 \<and> dumpdate > am_dates (ad_list st ! i) (nat level) then
       set_date i level dumpdate (st\<lparr>ad_updated := ad_updated st \<or> \<not> ad_readonly st\<rparr>)
     else st)"

definition import_dumpdates :: "am_env \<Rightarrow> nat \<Rightarrow> amdates \<Rightarrow> amdates" where
  "import_dumpdates en i st =
     (case en_dumpdates en of
        None \<Rightarrow> st
      | Some stream \<Rightarrow>
          fold (import_line (en_devname en (am_name (ad_list st ! i))) i)
            (List.map_filter (dumpdates_line en) (agets_lines stream)) st)"

text \<open>The place of a name in the list, where it is or where it belongs.\<close>

definition am_place :: "string \<Rightarrow> amandates_t list \<Rightarrow> nat" where
  "am_place name ams = length (takeWhile (\<lambda>amdp. am_name amdp < name) ams)"

definition lookup :: "am_env \<Rightarrow> string \<Rightarrow> amdates \<Rightarrow> nat \<times> amdates" where
  "lookup en name st =
     (let i = am_place name (ad_list st) in
      if i < length (ad_list st) \<and> am_name (ad_list st ! i) = name then (i, st)
      else
        let newp = \<lparr>am_name = name, am_dates = \<lambda>_. EPOCH\<rparr> in
        (i, import_dumpdates en i (st\<lparr>ad_list := take i (ad_list st) @ newp # drop i (ad_list st)\<rparr>)))"

definition amandates_lookup :: "am_env \<Rightarrow> string \<Rightarrow> amdates \<Rightarrow> nat \<times> amdates" where
  "amandates_lookup = lookup"

definition enter_record :: "am_env \<Rightarrow> string \<Rightarrow> int \<Rightarrow> int \<Rightarrow> amdates \<Rightarrow> amdates" where
  "enter_record en name level dumpdate st =
     (case lookup en name st of (i, st) \<Rightarrow>
        if \<not> level_ok level then st
        else if dumpdate < am_dates (ad_list st ! i) (nat level) then st
        else set_date i level dumpdate st)"

definition amandates_updateone :: "am_env \<Rightarrow> string \<Rightarrow> int \<Rightarrow> int \<Rightarrow> amdates \<Rightarrow> fault + amdates" where
  "amandates_updateone en name level dumpdate st =
     (if ad_readonly st then Inl Assertion_failed
      else
        Inr (case lookup en name st of (i, st) \<Rightarrow>
          if \<not> level_ok level then st
          else if dumpdate < am_dates (ad_list st ! i) (nat level) then st
          else (set_date i level dumpdate st)\<lparr>ad_updated := True\<rparr>))"

definition free_amandates :: "amdates \<Rightarrow> amdates" where
  "free_amandates st = st\<lparr>ad_list := []\<rparr>"

section \<open>The file\<close>

definition date_line :: "string \<Rightarrow> nat \<Rightarrow> int \<Rightarrow> string" where
  "date_line name level date = quote_string name @ '' '' @ show_int (int level) @ '' '' @ show_int date @ [CHR 0x0A]"

definition amandates_text :: "amandates_t list \<Rightarrow> string" where
  "amandates_text ams =
     concat (map (\<lambda>amdp. concat (map (\<lambda>level.
       if am_dates amdp level = EPOCH then [] else date_line (am_name amdp) level (am_dates amdp level)) [0 ..< nat DUMP_LEVELS])) ams)"

text \<open>The new text is written from the start of the file, which is not cut off behind it.\<close>

definition finish_amandates :: "amdates \<Rightarrow> fault + amdates" where
  "finish_amandates st =
     (if \<not> ad_amdf st then Inr st
      else if ad_updated st \<and> ad_readonly st then Inl Assertion_failed
      else
        let file = the (ad_file st);
            old = the (ad_files st file);
            new = amandates_text (ad_list st);
            files = (if ad_updated st then (ad_files st)(file \<mapsto> new @ drop (length new) old) else ad_files st) in
        Inr (st\<lparr>ad_files := files, ad_amdf := False\<rparr>))"

text \<open>\<open>sscanf\<close> for the level and the date.\<close>

definition scan_two :: "string \<Rightarrow> (int \<times> int) option" where
  "scan_two s =
     (case scan_int s of
        None \<Rightarrow> None
      | Some level \<Rightarrow>
          map_option (Pair level) (scan_int (skip_integer (dropWhile (\<lambda>c. g_ascii_isspace c \<or> c = CHR 0x0B) s))))"

definition amandates_line :: "string \<Rightarrow> fault + (string \<times> int \<times> int) option" where
  "amandates_line line =
     (let s = skip_whitespace line in
      if s = [] then Inr None
      else
        case skip_quoted_string False s of (qname, s) \<Rightarrow>
          map_r (\<lambda>name.
              let s = (if s \<noteq> [] \<and> hd s = CHR 0x0A then [] else skip_whitespace s) in
              case (if s = [] then None else scan_two s) of
                None \<Rightarrow> None
              | Some (level, ldate) \<Rightarrow> if level_ok level then Some (name, level, ldate) else None)
            (unquote_string (Some qname)))"

fun enter_lines :: "am_env \<Rightarrow> string list \<Rightarrow> amdates \<Rightarrow> fault + amdates" where
  "enter_lines en [] st = Inr st"
| "enter_lines en (line # ls) st =
     bind_r (amandates_line line) (\<lambda>r.
       enter_lines en ls (case r of None \<Rightarrow> st | Some (name, level, ldate) \<Rightarrow> enter_record en name level ldate st))"

text \<open>A file that is not there is created, when that can be done.\<close>

definition start_amandates :: "am_env \<Rightarrow> string option \<Rightarrow> bool \<Rightarrow> amdates \<Rightarrow> fault + int \<times> amdates" where
  "start_amandates en amandates_file open_readwrite st =
     (case amandates_file of
        None \<Rightarrow> Inr (0, st)
      | Some file \<Rightarrow>
          bind_r (finish_amandates st) (\<lambda>st.
            let files = (if ad_files st file = None \<and> en_creates en file then (ad_files st)(file \<mapsto> []) else ad_files st);
                st = \<lparr>ad_list = [], ad_amdf = False, ad_updated = False, ad_readonly = \<not> open_readwrite, ad_file = Some file,
                      ad_files = files\<rparr> in
            case (if en_opens en file then ad_files st file else None) of
              None \<Rightarrow> Inr (0, st)
            | Some stream \<Rightarrow>
                if \<not> en_locks en file then Inl Assertion_failed
                else map_r (\<lambda>st. (1, st\<lparr>ad_updated := False\<rparr>)) (enter_lines en (agets_lines stream) (st\<lparr>ad_amdf := True\<rparr>))))"

section \<open>The list is a map from names to dates\<close>

text \<open>The names are in order and occur once; dates are not negative, and there are none beyond the last level.\<close>

definition dates_ok :: "(nat \<Rightarrow> int) \<Rightarrow> bool" where
  "dates_ok f \<longleftrightarrow> (\<forall>l. 0 \<le> f l \<and> (DUMP_LEVELS \<le> int l \<longrightarrow> f l = EPOCH))"

definition am_ok :: "amdates \<Rightarrow> bool" where
  "am_ok st \<longleftrightarrow> sorted_wrt (<) (map am_name (ad_list st)) \<and> (\<forall>a \<in> set (ad_list st). dates_ok (am_dates a))"

definition dates :: "amdates \<Rightarrow> string \<rightharpoonup> nat \<Rightarrow> int" where
  "dates st = map_of (map (\<lambda>a. (am_name a, am_dates a)) (ad_list st))"

text \<open>The dates \<open>/etc/dumpdates\<close> has for a name.\<close>

definition dump_records :: "am_env \<Rightarrow> (string \<times> int \<times> int) list" where
  "dump_records en =
     (case en_dumpdates en of None \<Rightarrow> [] | Some stream \<Rightarrow> List.map_filter (dumpdates_line en) (agets_lines stream))"

definition imported :: "am_env \<Rightarrow> string \<Rightarrow> nat \<Rightarrow> int" where
  "imported en name l =
     (if int l < DUMP_LEVELS
      then Max (insert EPOCH (set (map (snd \<circ> snd) (filter (\<lambda>(f, lev, d). f = en_devname en name \<and> lev = int l) (dump_records en)))))
      else EPOCH)"

lemma map_of_list_update:
  "distinct (map fst xs) \<Longrightarrow> i < length xs \<Longrightarrow> fst (xs ! i) = k \<Longrightarrow> map_of (xs[i := (k, v)]) = (map_of xs)(k \<mapsto> v)"
proof (induction xs arbitrary: i)
  case (Cons x xs)
  show ?case
  proof (cases i)
    case (Suc j)
    have "fst (xs ! j) \<in> fst ` set xs" using Cons.prems(2) Suc by simp
    moreover have "fst x \<notin> fst ` set xs" "k = fst (xs ! j)" using Cons.prems(1,3) Suc by simp_all
    ultimately have "fst x \<noteq> k" by metis
    with Cons Suc show ?thesis by (auto simp: fun_upd_twist)
  qed (use Cons.prems in auto)
qed simp

lemma set_date_facts:
  assumes "i < length (ad_list st)" "am_ok st" "level_ok level" "dumpdate \<ge> am_dates (ad_list st ! i) (nat level)"
  shows "am_ok (set_date i level dumpdate st)"
    "dates (set_date i level dumpdate st) =
      (dates st)(am_name (ad_list st ! i) \<mapsto> (am_dates (ad_list st ! i))(nat level := dumpdate))"
    "map am_name (ad_list (set_date i level dumpdate st)) = map am_name (ad_list st)"
proof -
  let ?a = "ad_list st ! i"
  let ?b = "?a\<lparr>am_dates := (am_dates ?a)(nat level := dumpdate)\<rparr>"
  show names: "map am_name (ad_list (set_date i level dumpdate st)) = map am_name (ad_list st)"
    using assms(1) by (simp add: set_date_def map_update list_update_same_conv)
  have a: "dates_ok (am_dates ?a)" using assms(1,2) by (simp add: am_ok_def)
  then have "0 \<le> am_dates ?a (nat level)" by (simp add: dates_ok_def)
  then have "0 \<le> dumpdate" using assms(4) by simp
  with a have "dates_ok (am_dates ?b)" using assms(3,4) by (auto simp: dates_ok_def level_ok_def)
  then show "am_ok (set_date i level dumpdate st)"
    using assms(2) names set_update_subset_insert [of "ad_list st" i ?b] by (auto simp: am_ok_def set_date_def)
  have d: "distinct (map am_name (ad_list st))"
    using assms(2) strict_sorted_iff [of "map am_name (ad_list st)"] by (simp add: am_ok_def)
  show "dates (set_date i level dumpdate st) = (dates st)(am_name ?a \<mapsto> (am_dates ?a)(nat level := dumpdate))"
    using map_of_list_update [of "map (\<lambda>a. (am_name a, am_dates a)) (ad_list st)" i "am_name ?a" "am_dates ?b"] assms(1) d
    by (simp add: dates_def set_date_def map_update comp_def)
qed

text \<open>A date that is not older than the one that is there takes its place.\<close>

definition raise_date :: "int \<Rightarrow> int \<Rightarrow> (nat \<Rightarrow> int) \<Rightarrow> nat \<Rightarrow> int" where
  "raise_date level d f = (if level_ok level then f(nat level := max (f (nat level)) d) else f)"

definition same_file :: "amdates \<Rightarrow> amdates \<Rightarrow> bool" where
  "same_file st st' \<longleftrightarrow>
     ad_amdf st' = ad_amdf st \<and> ad_readonly st' = ad_readonly st \<and> ad_file st' = ad_file st \<and> ad_files st' = ad_files st"

text \<open>What holds when the dates of one entry have changed to \<open>f\<close>.\<close>

definition entry_changed :: "string \<Rightarrow> (nat \<Rightarrow> int) \<Rightarrow> amdates \<Rightarrow> amdates \<Rightarrow> bool" where
  "entry_changed name f st st' \<longleftrightarrow>
     am_ok st' \<and> same_file st st' \<and> map am_name (ad_list st') = map am_name (ad_list st) \<and> dates st' = (dates st)(name \<mapsto> f)"

lemma dates_nth:
  assumes "i < length (ad_list st)" "am_ok st"
  shows "dates st (am_name (ad_list st ! i)) = Some (am_dates (ad_list st ! i))"
proof -
  have d: "distinct (map am_name (ad_list st))"
    using assms(2) strict_sorted_iff [of "map am_name (ad_list st)"] by (simp add: am_ok_def)
  have "(am_name (ad_list st ! i), am_dates (ad_list st ! i)) \<in> set (map (\<lambda>a. (am_name a, am_dates a)) (ad_list st))"
    using assms(1) by (auto intro: nth_mem)
  then show ?thesis using d by (simp add: dates_def comp_def)
qed

lemma am_ok_more [simp]: "am_ok (st\<lparr>ad_updated := b\<rparr>) = am_ok st" "dates (st\<lparr>ad_updated := b\<rparr>) = dates st"
    "set_date i l d (st\<lparr>ad_updated := b\<rparr>) = (set_date i l d st)\<lparr>ad_updated := b\<rparr>"
  by (simp_all add: am_ok_def dates_def set_date_def)

lemma set_date_changed:
  assumes "i < length (ad_list st)" "am_ok st" "am_name (ad_list st ! i) = name" "level_ok level"
    "d \<ge> am_dates (ad_list st ! i) (nat level)"
  shows "entry_changed name (raise_date level d (am_dates (ad_list st ! i))) st ((set_date i level d st)\<lparr>ad_updated := b\<rparr>)"
    "entry_changed name (raise_date level d (am_dates (ad_list st ! i))) st (set_date i level d st)"
  using set_date_facts [OF assms(1,2,4,5)] assms(3-5)
  by (simp_all add: entry_changed_def raise_date_def same_file_def) (simp_all add: set_date_def max_def)

lemma entry_unchanged:
  assumes "i < length (ad_list st)" "am_ok st" "am_name (ad_list st ! i) = name"
  shows "entry_changed name (am_dates (ad_list st ! i)) st st"
  using dates_nth [OF assms(1,2)] assms by (auto simp: entry_changed_def same_file_def)

lemma raise_date_older: "level_ok level \<Longrightarrow> d \<le> f (nat level) \<Longrightarrow> raise_date level d f = f"
  by (simp add: raise_date_def max_def)

lemma import_line_changed:
  assumes "i < length (ad_list st)" "am_ok st" "am_name (ad_list st ! i) = name"
  shows "entry_changed name (if fname = devname then raise_date level d (am_dates (ad_list st ! i)) else am_dates (ad_list st ! i)) st
    (import_line devname i (fname, level, d) st)"
proof -
  let ?f = "am_dates (ad_list st ! i)"
  have "dates_ok ?f" using assms(1,2) by (simp add: am_ok_def)
  then have pos: "0 \<le> ?f (nat level)" by (simp add: dates_ok_def)
  show ?thesis
  proof (cases "fname = devname \<and> level_ok level")
    case True
    show ?thesis
    proof (cases "d > ?f (nat level)")
      case False
      then show ?thesis
        using True entry_unchanged [OF assms] raise_date_older [of level d ?f] by (simp add: import_line_def)
    qed (use True pos set_date_changed [OF assms] in \<open>simp add: import_line_def\<close>)
  qed (use entry_unchanged [OF assms] in \<open>auto simp: import_line_def raise_date_def\<close>)
qed

lemma entry_changed_trans:
  "entry_changed name f st st' \<Longrightarrow> entry_changed name g st' st'' \<Longrightarrow> entry_changed name g st st''"
  by (simp add: entry_changed_def same_file_def)

lemma entry_changed_nth:
  assumes "entry_changed name f st st'" "i < length (ad_list st)" "am_name (ad_list st ! i) = name"
  shows "i < length (ad_list st')" "am_ok st'" "am_name (ad_list st' ! i) = name" "am_dates (ad_list st' ! i) = f"
proof -
  have names: "map am_name (ad_list st') = map am_name (ad_list st)" and ok: "am_ok st'" and d: "dates st' name = Some f"
    using assms(1) by (simp_all add: entry_changed_def)
  show i: "i < length (ad_list st')" using names assms(2) by (metis length_map)
  show n: "am_name (ad_list st' ! i) = name" using names assms(2,3) i by (metis nth_map)
  show "am_ok st'" by (rule ok)
  show "am_dates (ad_list st' ! i) = f" using dates_nth [OF i ok] d n by simp
qed

lemma import_lines_changed:
  assumes "i < length (ad_list st)" "am_ok st" "am_name (ad_list st ! i) = name"
  shows "entry_changed name
    (fold (\<lambda>(f, level, d) g. if f = devname then raise_date level d g else g) recs (am_dates (ad_list st ! i))) st
    (fold (import_line devname i) recs st)"
  using assms
proof (induction recs arbitrary: st)
  case Nil
  then show ?case by (simp add: entry_unchanged)
next
  case (Cons r recs)
  obtain f level d where r: "r = (f, level, d)" by (cases r)
  note c = import_line_changed [OF Cons.prems, of f devname level d]
  note n = entry_changed_nth [OF c Cons.prems(1,3)]
  show ?case using entry_changed_trans [OF c Cons.IH [OF n(1-3)]] n(4) by (simp add: r)
qed

lemma Max_insert_two: "finite S \<Longrightarrow> Max (insert a (insert d S)) = Max (insert (max a d) S)"
  by (cases "S = {}") (simp_all add: max.commute max.left_commute max.assoc)

lemma raise_dates_max:
  assumes "\<forall>l. DUMP_LEVELS \<le> int l \<longrightarrow> g l = EPOCH"
  shows "fold (\<lambda>(f, level, d) g. if f = devname then raise_date level d g else g) recs g l =
    (if int l < DUMP_LEVELS
     then Max (insert (g l) (set (map (snd \<circ> snd) (filter (\<lambda>(f, lev, d). f = devname \<and> lev = int l) recs)))) else EPOCH)"
  using assms
proof (induction recs arbitrary: g)
  case (Cons r recs)
  obtain f level d where r: "r = (f, level, d)" by (cases r)
  have "\<forall>l. DUMP_LEVELS \<le> int l \<longrightarrow> raise_date level d g l = EPOCH"
    using Cons.prems by (auto simp: raise_date_def level_ok_def)
  note IH = Cons.IH [OF this] Cons.IH [OF Cons.prems]
  show ?case
  proof (cases "f = devname \<and> level = int l \<and> int l < DUMP_LEVELS")
    case True
    then have "raise_date level d g l = max (g l) d" by (simp add: raise_date_def level_ok_def)
    then show ?thesis using True IH(1) by (simp add: r Max_insert_two del: Max_insert)
  next
    case False
    then have "int l < DUMP_LEVELS \<Longrightarrow> f = devname \<Longrightarrow> raise_date level d g l = g l"
      by (auto simp: raise_date_def level_ok_def)
    then show ?thesis using False IH by (auto simp: r)
  qed
qed simp

text \<open>A name that is looked up is at its place afterwards, with the dates that were imported when it is new.\<close>

definition dates_for :: "am_env \<Rightarrow> string \<Rightarrow> amdates \<Rightarrow> nat \<Rightarrow> int" where
  "dates_for en name st = (case dates st name of None \<Rightarrow> imported en name | Some f \<Rightarrow> f)"

lemma am_place_facts:
  assumes "sorted_wrt (<) (map am_name ams)"
  shows "\<forall>a \<in> set (take (am_place name ams) ams). am_name a < name"
    "\<forall>a \<in> set (drop (am_place name ams) ams). name \<le> am_name a"
    "name \<in> am_name ` set ams \<longleftrightarrow> am_place name ams < length ams \<and> am_name (ams ! am_place name ams) = name"
proof -
  show "\<forall>a \<in> set (take (am_place name ams) ams). am_name a < name"
    unfolding am_place_def takeWhile_eq_take [symmetric] by (auto dest: set_takeWhileD)
  show "\<forall>a \<in> set (drop (am_place name ams) ams). name \<le> am_name a"
    using assms by (induction ams) (auto simp: am_place_def)
  show "name \<in> am_name ` set ams \<longleftrightarrow> am_place name ams < length ams \<and> am_name (ams ! am_place name ams) = name"
    using assms by (induction ams) (auto simp: am_place_def)
qed

lemma am_place_length [simp]: "am_place name ams \<le> length ams"
  by (simp add: am_place_def length_takeWhile_le)

lemma dates_dom: "dom (dates st) = am_name ` set (ad_list st)"
  by (simp add: dates_def dom_map_of_conv_image_fst image_image)

lemma map_of_insert_new:
  "k \<notin> fst ` set xs \<Longrightarrow> map_of (take i xs @ (k, v) # drop i xs) = (map_of xs)(k \<mapsto> v)"
proof -
  assume k: "k \<notin> fst ` set xs"
  have "map_of xs = map_of (drop i xs) ++ map_of (take i xs)" by (metis append_take_drop_id map_of_append)
  moreover have "map_of (take i xs) k = None"
    using k by (metis append_take_drop_id map_add_None map_of_append map_of_eq_None_iff)
  ultimately show ?thesis by (auto simp: map_add_def fun_eq_iff split: option.splits)
qed

lemma insert_sorted:
  assumes "am_ok st" "name \<notin> am_name ` set (ad_list st)" "i = am_place name (ad_list st)"
  shows "am_ok (st\<lparr>ad_list := take i (ad_list st) @ \<lparr>am_name = name, am_dates = \<lambda>_. EPOCH\<rparr> # drop i (ad_list st)\<rparr>)"
proof -
  let ?ams = "ad_list st"
  have s: "sorted_wrt (<) (map am_name ?ams)" using assms(1) by (simp add: am_ok_def)
  note p = am_place_facts [OF s, of name, folded assms(3)]
  have t: "sorted_wrt (<) (take i (map am_name ?ams) @ drop i (map am_name ?ams))" using s by simp
  have "\<forall>a \<in> set (drop i ?ams). name < am_name a"
    using p(2) assms(2) by (metis (full_types) image_eqI in_set_dropD order_le_imp_less_or_eq)
  then have "sorted_wrt (<) (map am_name (take i ?ams) @ name # map am_name (drop i ?ams))"
    using p(1) t by (auto simp: sorted_wrt_append take_map drop_map)
  moreover have "\<forall>a \<in> set (take i ?ams) \<union> set (drop i ?ams). dates_ok (am_dates a)"
    using assms(1) by (auto simp: am_ok_def dest: in_set_takeD in_set_dropD)
  ultimately show ?thesis by (auto simp: am_ok_def dates_ok_def EPOCH_def)
qed

lemma lookup_entry:
  assumes "am_ok st"
  obtains i st' where "lookup en name st = (i, st')" "i < length (ad_list st')" "am_name (ad_list st' ! i) = name"
    "am_dates (ad_list st' ! i) = dates_for en name st" "am_ok st'" "same_file st st'"
    "dates st' = (dates st)(name \<mapsto> dates_for en name st)"
proof -
  define i where "i = am_place name (ad_list st)"
  have s: "sorted_wrt (<) (map am_name (ad_list st))" using assms by (simp add: am_ok_def)
  note p = am_place_facts [OF s, of name, folded i_def]
  show thesis
  proof (cases "name \<in> am_name ` set (ad_list st)")
    case True
    with p(3) have i: "i < length (ad_list st)" "am_name (ad_list st ! i) = name" by simp_all
    have d: "dates st name = Some (am_dates (ad_list st ! i))" using dates_nth [OF i(1) assms] i(2) by simp
    show thesis
      by (rule that [of i st]) (use i d assms in \<open>auto simp: lookup_def i_def [symmetric] Let_def dates_for_def same_file_def\<close>)
  next
    case False
    let ?new = "\<lparr>am_name = name, am_dates = \<lambda>_. EPOCH\<rparr>"
    define st1 where "st1 = st\<lparr>ad_list := take i (ad_list st) @ ?new # drop i (ad_list st)\<rparr>"
    have none: "dates st name = None" using False dates_dom [of st] by blast
    have l: "lookup en name st = (i, import_dumpdates en i st1)"
      using False p(3) by (auto simp: lookup_def i_def [symmetric] Let_def st1_def)
    have "i \<le> length (ad_list st)" by (simp add: i_def)
    then have i: "i < length (ad_list st1)" "ad_list st1 ! i = ?new" by (simp_all add: st1_def nth_append)
    have ok: "am_ok st1" unfolding st1_def by (rule insert_sorted [OF assms False i_def])
    have d1: "dates st1 = (dates st)(name \<mapsto> \<lambda>_. EPOCH)"
      using map_of_insert_new [of name "map (\<lambda>a. (am_name a, am_dates a)) (ad_list st)" i "\<lambda>_. EPOCH"] False
      by (simp add: dates_def st1_def take_map drop_map image_image)
    have sf: "same_file st st1" by (simp add: st1_def same_file_def)
    have n: "am_name (ad_list st1 ! i) = name" using i by simp
    have imp: "fold (\<lambda>(f, level, d) g. if f = en_devname en name then raise_date level d g else g) (dump_records en) (\<lambda>_. EPOCH) = imported en name"
      by (rule ext, subst raise_dates_max) (simp_all add: imported_def)
    have "import_dumpdates en i st1 = fold (import_line (en_devname en name) i) (dump_records en) st1"
      using n by (simp add: import_dumpdates_def dump_records_def split: option.split)
    then have c: "entry_changed name (imported en name) st1 (import_dumpdates en i st1)"
      using import_lines_changed [OF i(1) ok n, of "en_devname en name" "dump_records en"] i(2) imp by simp
    note c' = entry_changed_nth [OF c i(1) n]
    show thesis
      by (rule that [OF l]) (use c' c d1 sf none in \<open>auto simp: dates_for_def entry_changed_def same_file_def\<close>)
  qed
qed

lemma enter_record_map:
  assumes "am_ok st"
  shows "am_ok (enter_record en name level d st)" "same_file st (enter_record en name level d st)"
    "dates (enter_record en name level d st) = (dates st)(name \<mapsto> raise_date level d (dates_for en name st))"
proof -
  obtain i st' where l: "lookup en name st = (i, st')" "i < length (ad_list st')" "am_name (ad_list st' ! i) = name"
      "am_dates (ad_list st' ! i) = dates_for en name st" "am_ok st'" "same_file st st'"
      "dates st' = (dates st)(name \<mapsto> dates_for en name st)"
    by (rule lookup_entry [OF assms])
  have "am_ok (enter_record en name level d st) \<and> same_file st (enter_record en name level d st) \<and>
      dates (enter_record en name level d st) = (dates st)(name \<mapsto> raise_date level d (dates_for en name st))"
  proof (cases "level_ok level \<and> dates_for en name st (nat level) \<le> d")
    case True
    then have "entry_changed name (raise_date level d (dates_for en name st)) st' (set_date i level d st')"
      using set_date_changed(2) [OF l(2,5,3), of level d] l(4) by simp
    then show ?thesis using True l by (auto simp: enter_record_def entry_changed_def same_file_def)
  next
    case False
    then have "raise_date level d (dates_for en name st) = dates_for en name st" by (auto simp: raise_date_def)
    then show ?thesis using False l by (auto simp: enter_record_def)
  qed
  then show "am_ok (enter_record en name level d st)" "same_file st (enter_record en name level d st)"
      "dates (enter_record en name level d st) = (dates st)(name \<mapsto> raise_date level d (dates_for en name st))" by simp_all
qed

text \<open>C19: the sorted list of dump dates is a map from disk names to dates per level. Updating a date enters the disk if it is new, with
  the latest dates \<open>/etc/dumpdates\<close> has for its device, and then replaces the date of the level unless that would set it back or
  the level does not exist; no other disk and no other level changes, and the list stays sorted, without a name twice. A list
  that was opened for reading is not updated: the assertion fails.\<close>

theorem amandates_update_is_map:
  assumes "am_ok st"
  shows "case amandates_updateone en name level dumpdate st of
      Inl e \<Rightarrow> e = Assertion_failed \<and> ad_readonly st
    | Inr st' \<Rightarrow> \<not> ad_readonly st \<and> am_ok st' \<and>
        dates st' = (dates st)(name \<mapsto> \<lambda>l. let old = (case dates st name of None \<Rightarrow> imported en name l | Some f \<Rightarrow> f l) in
          if int l = level \<and> level < DUMP_LEVELS then max old dumpdate else old)"
proof (cases "ad_readonly st")
  case False
  obtain i st1 where l: "lookup en name st = (i, st1)" by (cases "lookup en name st")
  define st' where "st' = (if level_ok level \<and> \<not> dumpdate < am_dates (ad_list st1 ! i) (nat level)
      then (enter_record en name level dumpdate st)\<lparr>ad_updated := True\<rparr> else enter_record en name level dumpdate st)"
  have u: "amandates_updateone en name level dumpdate st = Inr st'"
    using False by (auto simp: amandates_updateone_def enter_record_def l st'_def)
  note e = enter_record_map [OF assms, of en name level dumpdate]
  have "am_ok st'" "dates st' = (dates st)(name \<mapsto> raise_date level dumpdate (dates_for en name st))"
    using e by (simp_all add: st'_def)
  moreover have "raise_date level dumpdate (dates_for en name st) =
      (\<lambda>l. let old = (case dates st name of None \<Rightarrow> imported en name l | Some f \<Rightarrow> f l) in
          if int l = level \<and> level < DUMP_LEVELS then max old dumpdate else old)"
    by (rule ext) (auto simp: raise_date_def level_ok_def dates_for_def Let_def split: option.split)
  ultimately show ?thesis using False by (simp add: u)
qed (simp add: amandates_updateone_def)

text \<open>An environment in which everything is allowed and there is no \<open>/etc/dumpdates\<close>, and the dates of one disk.\<close>

definition ex_env :: am_env where
  "ex_env = \<lparr>en_creates = \<lambda>_. True, en_opens = \<lambda>_. True, en_locks = \<lambda>_. True, en_dumpdates = None, en_devname = \<lambda>s. s,
     en_mktime = \<lambda>y mon d h m s. 0\<rparr>"

definition ex_dates :: amdates where
  "ex_dates = \<lparr>ad_list = [\<lparr>am_name = ''a b'', am_dates = (\<lambda>_. EPOCH)(1 := 7)\<rparr>], ad_amdf = True, ad_updated = True, ad_readonly = False,
     ad_file = Some ''amandates'', ad_files = [''amandates'' \<mapsto> []]\<rparr>"

lemma ex_dates_ok: "am_ok ex_dates"
  by (simp add: am_ok_def ex_dates_def dates_ok_def EPOCH_def DUMP_LEVELS_def)

theorem amandates_update_is_map_witness:
  "\<exists>st'. amandates_updateone ex_env ''a b'' 1 9 ex_dates = Inr st' \<and> map_option (\<lambda>f. f 1) (dates st' ''a b'') = Some 9"
proof -
  have d: "dates ex_dates ''a b'' = Some ((\<lambda>_. EPOCH)(1 := 7))" by (simp add: dates_def ex_dates_def)
  show ?thesis
    using amandates_update_is_map [OF ex_dates_ok, where en = ex_env and name = "''a b''" and level = 1 and dumpdate = 9]
    by (cases "amandates_updateone ex_env ''a b'' 1 9 ex_dates")
       (simp_all add: ex_dates_def [THEN arg_cong, of ad_readonly] d DUMP_LEVELS_def Let_def)
qed

section \<open>The file is read as it was written\<close>

text \<open>The records of a list, in the order in which they are written.\<close>

definition records_of :: "amandates_t list \<Rightarrow> (string \<times> int \<times> int) list" where
  "records_of ams = concat (map (\<lambda>a. map (\<lambda>l. (am_name a, int l, am_dates a l))
     (filter (\<lambda>l. am_dates a l \<noteq> EPOCH) [0 ..< nat DUMP_LEVELS])) ams)"

definition record_line :: "string \<times> int \<times> int \<Rightarrow> string" where
  "record_line = (\<lambda>(name, level, d). quote_string name @ '' '' @ show_int level @ '' '' @ show_int d)"

lemma amandates_text_lines:
  "amandates_text ams = concat (map (\<lambda>l. l @ [CHR 0x0A]) (map record_line (records_of ams)))"
proof -
  have "concat (map (\<lambda>l. if f l = EPOCH then [] else date_line name l (f l)) ls) =
      concat (map (\<lambda>l. l @ [CHR 0x0A]) (map record_line (map (\<lambda>l. (name, int l, f l)) (filter (\<lambda>l. f l \<noteq> EPOCH) ls))))"
    for name and f :: "nat \<Rightarrow> int" and ls
    by (induction ls) (simp_all add: date_line_def record_line_def)
  then show ?thesis by (induction ams) (simp_all add: amandates_text_def records_of_def)
qed

lemma closed_record_line: "closed_line (record_line r)"
proof -
  obtain name level d where r: "r = (name, level, d)" by (cases r)
  have "closed_line (show_int n)" for n by (rule closed_word) (rule show_int_word)
  then show ?thesis by (simp add: r record_line_def closed_append closed_space closed_quote_string)
qed

lemma scan_two_text: "scan_two (show_int a @ CHR '' '' # show_int b) = Some (a, b)"
proof -
  have a: "scan_int (show_int a @ CHR '' '' # show_int b) = Some a" by (rule scan_int_show) simp
  have b: "scan_int (CHR '' '' # show_int b) = Some b"
    using scan_int_show [of "[]" b] by (simp add: scan_int_def)
  have "\<exists>c cs. show_int a = c # cs \<and> \<not> g_ascii_isspace c \<and> c \<noteq> CHR 0x0B"
  proof (cases "a < 0")
    case False
    obtain c cs where "show_nat (nat a) = c # cs" "is_digit c"
      using show_nat_digits [of "nat a"] by (cases "show_nat (nat a)") auto
    with digit_chars [of c] False show ?thesis by (simp add: show_int_def)
  qed (simp add: show_int_def g_ascii_isspace_def)
  then have "dropWhile (\<lambda>c. g_ascii_isspace c \<or> c = CHR 0x0B) (show_int a @ CHR '' '' # show_int b) = show_int a @ CHR '' '' # show_int b"
    by auto
  then show ?thesis using a b skip_integer_show [of "CHR '' '' # show_int b" a] by (simp add: scan_two_def)
qed

lemma amandates_line_read:
  assumes "level_ok level"
  shows "amandates_line (record_line (name, level, d)) = Inr (Some (name, level, d))"
proof -
  let ?t = "CHR '' '' # show_int level @ CHR '' '' # show_int d"
  obtain c cs where q: "quote_string name = c # cs" "\<not> g_ascii_isspace c"
    using quote_string_start [of name] by (cases "quote_string name") auto
  have "record_line (name, level, d) = quote_string name @ ?t" by (simp add: record_line_def)
  moreover have "skip_whitespace (quote_string name @ ?t) = quote_string name @ ?t" by (simp add: q)
  moreover have "skip_quoted_string False (quote_string name @ ?t) = (quote_string name, ?t)" by (rule skip_quote_string) simp
  moreover have "unquote_string (Some (quote_string name)) = Inr name" by (simp add: quote_string_def unquote_quote)
  moreover have "skip_whitespace (show_int level @ CHR '' '' # show_int d) = show_int level @ CHR '' '' # show_int d"
    using show_int_word [of level] by (simp add: skip_whitespace_word text_word_def)
  moreover have "show_int level \<noteq> []" using show_int_word [of level] by (simp add: text_word_def)
  ultimately show ?thesis using assms q(1) by (simp add: amandates_line_def scan_two_text Let_def)
qed

lemma enter_lines_records:
  "\<forall>(name, level, d) \<in> set recs. level_ok level \<Longrightarrow>
    enter_lines en (map record_line recs) st = Inr (fold (\<lambda>(name, level, d). enter_record en name level d) recs st)"
  by (induction recs arbitrary: st) (auto simp: amandates_line_read)

definition date_in :: "(string \<rightharpoonup> nat \<Rightarrow> int) \<Rightarrow> string \<Rightarrow> nat \<Rightarrow> int" where
  "date_in m name l = (case m name of None \<Rightarrow> EPOCH | Some f \<Rightarrow> f l)"

text \<open>Without \<open>/etc/dumpdates\<close>, the dates after records have been entered are the latest ones of each level.\<close>

lemma imported_none: "en_dumpdates en = None \<Longrightarrow> imported en name = (\<lambda>_. EPOCH)"
  by (auto simp: imported_def dump_records_def)

lemma fold_enter_records:
  assumes "am_ok st" "en_dumpdates en = None" "\<forall>(name, level, d) \<in> set recs. level_ok level"
  defines "st' \<equiv> fold (\<lambda>(name, level, d). enter_record en name level d) recs st"
  shows "am_ok st' \<and> same_file st st' \<and> dom (dates st') = dom (dates st) \<union> fst ` set recs \<and>
    (\<forall>name l. date_in (dates st') name l = Max (insert (date_in (dates st) name l) {d. (name, int l, d) \<in> set recs}))"
  using assms(1,3) unfolding st'_def
proof (induction recs arbitrary: st)
  case Nil
  then show ?case by (simp add: same_file_def)
next
  case (Cons r recs)
  obtain n level d where r: "r = (n, level, d)" by (cases r)
  note e = enter_record_map [OF Cons.prems(1), of en n level d]
  have was: "date_in (dates st) n l = dates_for en n st l" for l
    by (simp add: date_in_def dates_for_def imported_none [OF assms(2)] split: option.split)
  have lev: "level_ok level" using Cons.prems(2) by (auto simp: r)
  have one: "date_in (dates (enter_record en n level d st)) name l =
      (if name = n \<and> level = int l then max (date_in (dates st) name l) d else date_in (dates st) name l)" for name l
    using lev was [of l] unfolding e(3) by (auto simp: date_in_def raise_date_def level_ok_def)
  have IH: "am_ok st' \<and> same_file (enter_record en n level d st) st' \<and>
      dom (dates st') = dom (dates (enter_record en n level d st)) \<union> fst ` set recs \<and>
      (\<forall>name l. date_in (dates st') name l =
         Max (insert (date_in (dates (enter_record en n level d st)) name l) {d. (name, int l, d) \<in> set recs}))"
    if "st' = fold (\<lambda>(name, level, d). enter_record en name level d) recs (enter_record en n level d st)" for st'
    unfolding that by (rule Cons.IH [OF e(1)]) (use Cons.prems(2) in auto)
  have "Max (insert (date_in (dates (enter_record en n level d st)) name l) {d. (name, int l, d) \<in> set recs}) =
      Max (insert (date_in (dates st) name l) {d. (name, int l, d) \<in> set (r # recs)})" for name l
  proof -
    have "{d. (name, int l, d) \<in> set recs} \<subseteq> (snd \<circ> snd) ` set recs" by force
    then have fin: "finite {d. (name, int l, d) \<in> set recs}" by (rule finite_subset) simp
    show ?thesis
    proof (cases "name = n \<and> level = int l")
      case True
      then have "{d. (name, int l, d) \<in> set (r # recs)} = insert d {d. (name, int l, d) \<in> set recs}" by (auto simp: r)
      then show ?thesis unfolding one using True fin by (simp add: Max_insert_two del: Max_insert)
    next
      case False
      then have "{d. (name, int l, d) \<in> set (r # recs)} = {d. (name, int l, d) \<in> set recs}" by (auto simp: r)
      then show ?thesis unfolding one using False by auto
    qed
  qed
  moreover have "fold (\<lambda>(name, level, d). enter_record en name level d) (r # recs) st =
      fold (\<lambda>(name, level, d). enter_record en name level d) recs (enter_record en n level d st)" by (simp add: r)
  ultimately show ?case using IH [OF refl] e(2,3) by (auto simp: r same_file_def)
qed

lemma records_of_facts:
  assumes "am_ok st"
  shows "\<forall>(name, level, d) \<in> set (records_of (ad_list st)). level_ok level"
    "(name, int l, d) \<in> set (records_of (ad_list st)) \<longleftrightarrow> d \<noteq> EPOCH \<and> date_in (dates st) name l = d"
    "name \<in> fst ` set (records_of (ad_list st)) \<longleftrightarrow> (\<exists>f. dates st name = Some f \<and> f \<noteq> (\<lambda>_. EPOCH))"
proof -
  show "\<forall>(name, level, d) \<in> set (records_of (ad_list st)). level_ok level"
    by (auto simp: records_of_def level_ok_def DUMP_LEVELS_def)
  have d: "distinct (map am_name (ad_list st))"
    using assms strict_sorted_iff [of "map am_name (ad_list st)"] by (simp add: am_ok_def)
  have some: "dates st n = Some f \<longleftrightarrow> (\<exists>a \<in> set (ad_list st). am_name a = n \<and> am_dates a = f)" for n f
    using d by (auto simp: dates_def comp_def)
  have ok: "dates_ok f" if "dates st n = Some f" for n f using that assms by (auto simp: some am_ok_def)
  have r: "(n, int l, d) \<in> set (records_of (ad_list st)) \<longleftrightarrow> (\<exists>f. dates st n = Some f \<and> f l = d \<and> d \<noteq> EPOCH)" for n l d
  proof -
    have "(n, int l, d) \<in> set (records_of (ad_list st)) \<longleftrightarrow>
        (\<exists>f. dates st n = Some f \<and> f l = d \<and> d \<noteq> EPOCH \<and> l < nat DUMP_LEVELS)"
      by (auto simp: records_of_def some)
    moreover have "l < nat DUMP_LEVELS" if "dates st n = Some f" "f l \<noteq> EPOCH" for f
      using ok [OF that(1)] that(2) by (force simp: dates_ok_def)
    ultimately show ?thesis by blast
  qed
  show "(name, int l, d) \<in> set (records_of (ad_list st)) \<longleftrightarrow> d \<noteq> EPOCH \<and> date_in (dates st) name l = d"
    unfolding r by (auto simp: date_in_def split: option.splits)
  have "name \<in> fst ` set (records_of (ad_list st)) \<longleftrightarrow> (\<exists>l d. (name, int l, d) \<in> set (records_of (ad_list st)))"
    by (force simp: records_of_def)
  then show "name \<in> fst ` set (records_of (ad_list st)) \<longleftrightarrow> (\<exists>f. dates st name = Some f \<and> f \<noteq> (\<lambda>_. EPOCH))"
    unfolding r by (auto simp: fun_eq_iff)
qed

text \<open>What the file holds of the dates: a disk without any date is not written.\<close>

definition stored :: "(string \<rightharpoonup> nat \<Rightarrow> int) \<Rightarrow> string \<rightharpoonup> nat \<Rightarrow> int" where
  "stored m name = (case m name of None \<Rightarrow> None | Some f \<Rightarrow> if f = (\<lambda>_. EPOCH) then None else Some f)"

lemma enter_records_of:
  assumes "am_ok st" "am_ok st0" "ad_list st0 = []" "en_dumpdates en = None"
  defines "st' \<equiv> fold (\<lambda>(name, level, d). enter_record en name level d) (records_of (ad_list st)) st0"
  shows "am_ok st'" "same_file st0 st'" "dates st' = stored (dates st)"
proof -
  note e = fold_enter_records [OF assms(2,4) records_of_facts(1) [OF assms(1)], folded st'_def]
  show "am_ok st'" "same_file st0 st'" using e by simp_all
  have none: "dates st0 = Map.empty" using assms(3) by (simp add: dates_def)
  have val: "date_in (dates st') name l = date_in (dates st) name l" for name l
  proof -
    have "0 \<le> date_in (dates st) name l"
      using assms(1) by (auto simp: date_in_def dates_def am_ok_def dates_ok_def EPOCH_def dest!: map_of_SomeD split: option.split)
    moreover have "{d. (name, int l, d) \<in> set (records_of (ad_list st))} =
        (if date_in (dates st) name l = EPOCH then {} else {date_in (dates st) name l})"
      unfolding records_of_facts(2) [OF assms(1)] by auto
    moreover have "date_in (dates st') name l = Max (insert EPOCH {d. (name, int l, d) \<in> set (records_of (ad_list st))})"
      using e none by (simp add: date_in_def)
    ultimately show ?thesis by (simp add: EPOCH_def)
  qed
  show "dates st' = stored (dates st)"
  proof
    fix name
    have dom: "name \<in> dom (dates st') \<longleftrightarrow> (\<exists>f. dates st name = Some f \<and> f \<noteq> (\<lambda>_. EPOCH))"
      using e none records_of_facts(3) [OF assms(1), of name] by simp
    show "dates st' name = stored (dates st) name"
    proof (cases "dates st' name")
      case None
      then have "name \<notin> dom (dates st')" by blast
      with dom None show ?thesis by (auto simp: stored_def split: option.split)
    next
      case (Some g)
      with dom obtain f where f: "dates st name = Some f" "f \<noteq> (\<lambda>_. EPOCH)" by blast
      have "g = f" using val [of name] Some f(1) by (simp add: date_in_def fun_eq_iff)
      with Some f show ?thesis by (simp add: stored_def)
    qed
  qed
qed



text \<open>Of a longer file, what is behind the new text stays.\<close>

lemma finish_keeps_tail:
  assumes "ad_amdf st" "ad_updated st" "\<not> ad_readonly st" "ad_file st = Some file" "ad_files st file = Some old"
  obtains st1 where "finish_amandates st = Inr st1"
    "ad_files st1 file = Some (amandates_text (ad_list st) @ drop (length (amandates_text (ad_list st))) old)"
  using assms by (simp add: finish_amandates_def Let_def)

text \<open>Every start, successful or not, leaves a list in order.\<close>

lemma enter_lines_ok: "am_ok st \<Longrightarrow> enter_lines en ls st = Inr st' \<Longrightarrow> am_ok st'"
proof (induction ls arbitrary: st)
  case (Cons line ls)
  from Cons.prems(2) obtain r where r: "amandates_line line = Inr r"
      "enter_lines en ls (case r of None \<Rightarrow> st | Some (name, level, ldate) \<Rightarrow> enter_record en name level ldate st) = Inr st'"
    by (auto simp: bind_r_eq_Inr_iff)
  show ?case
    by (rule Cons.IH [OF _ r(2)]) (use Cons.prems(1) enter_record_map(1) in \<open>auto split: option.split\<close>)
qed simp

lemma start_amandates_ok:
  assumes "am_ok st" "start_amandates en amandates_file rw st = Inr (rc, st')"
  shows "am_ok st'"
proof (cases amandates_file)
  case (Some name)
  have e: "am_ok \<lparr>ad_list = [], ad_amdf = a, ad_updated = b, ad_readonly = c, ad_file = d, ad_files = e\<rparr>" for a b c d e
    by (simp add: am_ok_def)
  obtain s1 where "finish_amandates st = Inr s1"
    using assms(2) by (auto simp: start_amandates_def Some bind_r_eq_Inr_iff)
  define s2 where "s2 = \<lparr>ad_list = [], ad_amdf = False, ad_updated = False, ad_readonly = \<not> rw, ad_file = Some name,
      ad_files = if ad_files s1 name = None \<and> en_creates en name then (ad_files s1)(name \<mapsto> []) else ad_files s1\<rparr>"
  have ok: "am_ok s2" "am_ok (s2\<lparr>ad_amdf := True\<rparr>)" using e by (simp_all add: s2_def)
  have "(case (if en_opens en name then ad_files s2 name else None) of
        None \<Rightarrow> Inr (0, s2)
      | Some stream \<Rightarrow> if \<not> en_locks en name then Inl Assertion_failed
          else map_r (\<lambda>st. (1, st\<lparr>ad_updated := False\<rparr>)) (enter_lines en (agets_lines stream) (s2\<lparr>ad_amdf := True\<rparr>))) = Inr (rc, st')"
    using assms(2) \<open>finish_amandates st = Inr s1\<close> by (simp only: start_amandates_def Some option.case bind_r_simps Let_def s2_def)
  then show ?thesis
    using ok by (auto simp: map_r_eq_Inr_iff dest: enter_lines_ok [OF ok(2)] split: option.split_asm if_split_asm)
qed (use assms in \<open>simp add: start_amandates_def\<close>)

end
