(* ===== verification/Ipc_Binary.thy ===== *)
theory Ipc_Binary
  imports Amar_Write
begin

text \<open>
  Binary messages between processes (\<open>common-src/ipc-binary.c\<close>): a protocol is a table of commands with the flags of their
  arguments; messages are put together, queued in the outgoing buffer of a channel and read out of its incoming buffer,
  whatever pieces the data comes in. A buffer is an allocated block with the place and the length of the data in it; memory
  that has not been written yet is zero here, and reading past the data that has come in is a fault. An argument is its bytes;
  the file descriptor is a parameter: what \<open>read\<close> returns, and how much \<open>full_write\<close> writes.
\<close>

section \<open>Buffers\<close>

record ipc_buf =
  ib_mem :: "byte list"
  ib_offset :: nat
  ib_length :: nat

text \<open>The buffers of a new channel.\<close>

definition empty_buf :: ipc_buf where "empty_buf = \<lparr>ib_mem = [], ib_offset = 0, ib_length = 0\<rparr>"

definition ib_size :: "ipc_buf \<Rightarrow> nat" where "ib_size b = length (ib_mem b)"

definition store_at :: "nat \<Rightarrow> byte list \<Rightarrow> byte list \<Rightarrow> byte list" where
  "store_at k bs mem = take k mem @ bs @ drop (k + length bs) mem"

definition expand_buffer :: "nat \<Rightarrow> ipc_buf \<Rightarrow> ipc_buf" where
  "expand_buffer sz b =
     (let new_len = ib_length b + sz in
      if ib_offset b + new_len > ib_size b then
        if ib_offset b \<noteq> 0 \<and> new_len \<le> ib_size b then
          b\<lparr>ib_mem := store_at 0 (take (ib_length b) (drop (ib_offset b) (ib_mem b))) (ib_mem b), ib_offset := 0\<rparr>
        else b\<lparr>ib_mem := ib_mem b @ replicate (ib_offset b + new_len - ib_size b) 0\<rparr>
      else b)"

definition add_to_buffer :: "byte list \<Rightarrow> ipc_buf \<Rightarrow> ipc_buf" where
  "add_to_buffer data b =
     (let b = expand_buffer (length data) b in
      b\<lparr>ib_mem := store_at (ib_offset b + ib_length b) data (ib_mem b), ib_length := ib_length b + length data\<rparr>)"

definition consume_from_buffer :: "nat \<Rightarrow> ipc_buf \<Rightarrow> fault + ipc_buf" where
  "consume_from_buffer sz b =
     (if sz > ib_length b then Inl Assertion_failed
      else
        let len = ib_length b - sz in
        Inr (b\<lparr>ib_length := len, ib_offset := if len = 0 then 0 else ib_offset b + sz\<rparr>))"

section \<open>Protocols\<close>

definition IPC_BINARY_STRING :: "8 word" where "IPC_BINARY_STRING = 1"
definition IPC_BINARY_OPTIONAL :: "8 word" where "IPC_BINARY_OPTIONAL = 2"
definition IPC_BINARY_EXISTS :: "8 word" where "IPC_BINARY_EXISTS = 128"

definition MSG_HDR_LEN :: nat where "MSG_HDR_LEN = 10"
definition ARG_HDR_LEN :: nat where "ARG_HDR_LEN = 6"

record ipc_cmd =
  ic_exists :: bool
  ic_arg_flags :: "8 word list"

record ipc_proto =
  ip_magic :: "16 word"
  ip_cmds :: "ipc_cmd list"

definition flag_set :: "8 word \<Rightarrow> 8 word \<Rightarrow> bool" where
  "flag_set flags f \<longleftrightarrow> flags AND f \<noteq> 0"

definition ipc_binary_proto_new :: "16 word \<Rightarrow> ipc_proto" where
  "ipc_binary_proto_new magic = \<lparr>ip_magic = magic, ip_cmds = []\<rparr>"

text \<open>The new length has 16 bits: for the largest identifier it is zero, and the table is gone.\<close>

definition renew :: "'a \<Rightarrow> 16 word \<Rightarrow> 'a list \<Rightarrow> 'a list" where
  "renew x i xs =
     (if unat i < length xs then xs
      else if i + 1 = 0 then [] else xs @ replicate (unat (i + 1) - length xs) x)"

definition ipc_binary_proto_add_cmd :: "16 word \<Rightarrow> ipc_proto \<Rightarrow> fault + ipc_proto" where
  "ipc_binary_proto_add_cmd i proto =
     (let cmds = renew \<lparr>ic_exists = False, ic_arg_flags = []\<rparr> i (ip_cmds proto) in
      if i = 0 then Inl Assertion_failed
      else if unat i \<ge> length cmds then Inl Out_of_bounds
      else if ic_exists (cmds ! unat i) then Inl Assertion_failed
      else Inr (proto\<lparr>ip_cmds := cmds[unat i := (cmds ! unat i)\<lparr>ic_exists := True\<rparr>]\<rparr>))"

definition ipc_binary_cmd_add_arg :: "16 word \<Rightarrow> 8 word \<Rightarrow> ipc_cmd \<Rightarrow> fault + ipc_cmd" where
  "ipc_binary_cmd_add_arg i flags cmd =
     (let arg_flags = renew 0 i (ic_arg_flags cmd) in
      if i = 0 then Inl Assertion_failed
      else if unat i \<ge> length arg_flags then Inl Out_of_bounds
      else if arg_flags ! unat i \<noteq> 0 then Inl Assertion_failed
      else Inr (cmd\<lparr>ic_arg_flags := arg_flags[unat i := flags OR IPC_BINARY_EXISTS]\<rparr>))"

section \<open>Messages\<close>

text \<open>An argument that is not set has no data, the NULL pointer.\<close>

record ipc_message =
  im_cmd_id :: "16 word"
  im_cmd :: ipc_cmd
  im_args :: "byte list option list"

definition all_args_present :: "ipc_message \<Rightarrow> bool" where
  "all_args_present msg =
     list_all (\<lambda>(flags, data). \<not> (data = None \<and> flag_set flags IPC_BINARY_EXISTS \<and> \<not> flag_set flags IPC_BINARY_OPTIONAL))
       (zip (ic_arg_flags (im_cmd msg)) (im_args msg))"

definition valid_cmd :: "ipc_proto \<Rightarrow> 16 word \<Rightarrow> bool" where
  "valid_cmd proto i \<longleftrightarrow> i \<noteq> 0 \<and> unat i < length (ip_cmds proto) \<and> ic_exists (ip_cmds proto ! unat i)"

definition ipc_binary_new_message :: "ipc_proto \<Rightarrow> 16 word \<Rightarrow> fault + ipc_message" where
  "ipc_binary_new_message proto i =
     (if \<not> valid_cmd proto i then Inl Assertion_failed
      else
        let cmd = ip_cmds proto ! unat i in
        Inr \<lparr>im_cmd_id = i, im_cmd = cmd, im_args = replicate (length (ic_arg_flags cmd)) None\<rparr>)"

text \<open>The data of the caller is the memory from the pointer on, and a size beyond it a fault; \<open>g_memdup\<close> of no bytes is NULL.\<close>

definition ipc_binary_add_arg :: "16 word \<Rightarrow> nat \<Rightarrow> byte list \<Rightarrow> bool \<Rightarrow> ipc_message \<Rightarrow> fault + ipc_message" where
  "ipc_binary_add_arg i sz data take_memory msg =
     (let flags = ic_arg_flags (im_cmd msg) in
      if i = 0 \<or> unat i \<ge> length flags then Inl Assertion_failed
      else if \<not> flag_set (flags ! unat i) IPC_BINARY_EXISTS \<or> im_args msg ! unat i \<noteq> None then Inl Assertion_failed
      else if sz = 0 \<and> flag_set (flags ! unat i) IPC_BINARY_STRING \<and> 0 \<notin> set data then Inl Out_of_bounds
      else
        let sz = (if sz = 0 \<and> flag_set (flags ! unat i) IPC_BINARY_STRING then length (takeWhile (\<lambda>c. c \<noteq> 0) data) else sz) in
        if sz > length data then Inl Out_of_bounds
        else
          Inr (msg\<lparr>im_args := (im_args msg)[unat i := if \<not> take_memory \<and> sz = 0 then None else Some (take sz data)]\<rparr>))"

text \<open>The arguments that are set, with their numbers.\<close>

definition args_set :: "byte list option list \<Rightarrow> (nat \<times> byte list) list" where
  "args_set args = map (\<lambda>i. (i, the (args ! i))) (filter (\<lambda>i. args ! i \<noteq> None) [0 ..< length args])"

definition arg_bytes :: "nat \<times> byte list \<Rightarrow> byte list" where
  "arg_bytes = (\<lambda>(i, data). be_bytes 4 (length data) @ be_bytes 2 i @ data)"

definition msg_len :: "ipc_message \<Rightarrow> nat" where
  "msg_len msg = MSG_HDR_LEN + sum_list (map (\<lambda>(i, data). length data + ARG_HDR_LEN) (args_set (im_args msg)))"

definition msg_header :: "16 word \<Rightarrow> ipc_message \<Rightarrow> byte list" where
  "msg_header magic msg =
     be_bytes 2 (unat magic) @ be_bytes 2 (unat (im_cmd_id msg)) @ be_bytes 4 (msg_len msg) @
     be_bytes 2 (length (args_set (im_args msg)))"

definition msg_bytes :: "16 word \<Rightarrow> ipc_message \<Rightarrow> byte list" where
  "msg_bytes magic msg = msg_header magic msg @ concat (map arg_bytes (args_set (im_args msg)))"

text \<open>The message is written at the start of the data in the buffer, also when there is data already.\<close>

definition ipc_binary_queue_message :: "ipc_proto \<Rightarrow> ipc_message \<Rightarrow> ipc_buf \<Rightarrow> fault + ipc_buf" where
  "ipc_binary_queue_message proto msg out =
     (if \<not> all_args_present msg then Inl Assertion_failed
      else
        let out = expand_buffer (msg_len msg) out in
        Inr (out\<lparr>ib_mem := store_at (ib_offset out) (msg_bytes (ip_magic proto) msg) (ib_mem out),
                 ib_length := ib_length out + msg_len msg\<rparr>))"

section \<open>Reading messages\<close>

text \<open>The data in a buffer.\<close>

definition contents :: "ipc_buf \<Rightarrow> byte list" where
  "contents b = take (ib_length b) (drop (ib_offset b) (ib_mem b))"

definition get_guint16 :: "byte list \<Rightarrow> fault + 16 word \<times> byte list" where
  "get_guint16 p = (if length p < 2 then Inl Out_of_bounds else Inr (of_nat (be_value (take 2 p)), drop 2 p))"

definition get_guint32 :: "byte list \<Rightarrow> fault + 32 word \<times> byte list" where
  "get_guint32 p = (if length p < 4 then Inl Out_of_bounds else Inr (of_nat (be_value (take 4 p)), drop 4 p))"

text \<open>The arguments of a message, \<open>None\<close> for one that is not valid or comes twice.\<close>

fun poll_args :: "8 word list \<Rightarrow> nat \<Rightarrow> byte list \<Rightarrow> byte list option list \<Rightarrow> fault + byte list option list option" where
  "poll_args flags 0 p args = Inr (Some args)"
| "poll_args flags (Suc n_args) p args =
     bind_r (get_guint32 p) (\<lambda>(arglen, p).
       bind_r (get_guint16 p) (\<lambda>(arg_id, p).
         let i = unat arg_id in
         if i = 0 \<or> i \<ge> length flags then Inr None
         else if \<not> flag_set (flags ! i) IPC_BINARY_EXISTS \<or> args ! i \<noteq> None then Inr None
         else if unat arglen > length p then Inl Out_of_bounds
         else
           poll_args flags n_args (drop (unat arglen) p)
             (args[i := if \<not> flag_set (flags ! i) IPC_BINARY_STRING \<and> arglen = 0 then None else Some (take (unat arglen) p)])))"

datatype poll_result = Got ipc_message | Waiting | Invalid

definition poll_body :: "ipc_proto \<Rightarrow> 16 word \<Rightarrow> nat \<Rightarrow> byte list \<Rightarrow> ipc_buf \<Rightarrow> fault + poll_result \<times> ipc_buf" where
  "poll_body proto cmd_id len p b =
     bind_r (get_guint16 p) (\<lambda>(n_args, p).
       bind_r (ipc_binary_new_message proto cmd_id) (\<lambda>msg.
         bind_r (poll_args (ic_arg_flags (im_cmd msg)) (unat n_args) p (im_args msg)) (\<lambda>args.
           case args of
             None \<Rightarrow> Inr (Invalid, b)
           | Some args \<Rightarrow>
               let msg = msg\<lparr>im_args := args\<rparr> in
               if \<not> all_args_present msg then Inr (Invalid, b)
               else map_r (\<lambda>b. (Got msg, b)) (consume_from_buffer len b))))"

definition ipc_binary_poll_message :: "ipc_proto \<Rightarrow> ipc_buf \<Rightarrow> fault + poll_result \<times> ipc_buf" where
  "ipc_binary_poll_message proto b =
     (if ib_length b < MSG_HDR_LEN then Inr (Waiting, b)
      else
        bind_r (get_guint16 (contents b)) (\<lambda>(magic, p).
          if magic \<noteq> ip_magic proto then Inr (Invalid, b)
          else
            bind_r (get_guint16 p) (\<lambda>(cmd_id, p).
              if \<not> valid_cmd proto cmd_id then Inr (Invalid, b)
              else
                bind_r (get_guint32 p) (\<lambda>(len, p).
                  if unat len > ib_length b then Inr (Waiting, b) else poll_body proto cmd_id (unat len) p b))))"

text \<open>What \<open>ipc_binary_read_message\<close> returns: a message, or NULL with the error in \<open>errno\<close>; no error at the end of the data.\<close>

datatype ipc_read = Read_message ipc_message | Read_invalid | Read_failed | Read_cut_off | Read_end

definition read_data :: "byte list \<Rightarrow> ipc_buf \<Rightarrow> ipc_buf" where
  "read_data bytes b =
     (let b = expand_buffer 32768 b in
      b\<lparr>ib_mem := store_at (ib_offset b + ib_length b) bytes (ib_mem b), ib_length := ib_length b + length bytes\<rparr>)"

definition at_end :: "ipc_buf \<Rightarrow> ipc_read" where
  "at_end b = (if ib_length b \<noteq> 0 then Read_cut_off else Read_end)"

text \<open>The results of \<open>read\<close>, in their order: \<open>None\<close> an error, no bytes the end; there is nothing more after the last one.\<close>

fun ipc_binary_read_message ::
    "ipc_proto \<Rightarrow> byte list option list \<Rightarrow> ipc_buf \<Rightarrow> fault + ipc_read \<times> byte list option list \<times> ipc_buf" where
  "ipc_binary_read_message proto [] b =
     map_r (\<lambda>(polled, b).
         case polled of
           Got msg \<Rightarrow> (Read_message msg, [], b)
         | Invalid \<Rightarrow> (Read_invalid, [], b)
         | Waiting \<Rightarrow> (at_end b, [], expand_buffer 32768 b))
       (ipc_binary_poll_message proto b)"
| "ipc_binary_read_message proto (r # rs) b =
     bind_r (ipc_binary_poll_message proto b) (\<lambda>(polled, b).
       case polled of
         Got msg \<Rightarrow> Inr (Read_message msg, r # rs, b)
       | Invalid \<Rightarrow> Inr (Read_invalid, r # rs, b)
       | Waiting \<Rightarrow>
           (case r of
              None \<Rightarrow> Inr (Read_failed, rs, expand_buffer 32768 b)
            | Some bytes \<Rightarrow>
                if bytes = [] then Inr (at_end b, rs, expand_buffer 32768 b)
                else ipc_binary_read_message proto rs (read_data bytes b)))"

definition ipc_binary_write_message ::
    "(byte list \<Rightarrow> nat) \<Rightarrow> ipc_proto \<Rightarrow> ipc_message \<Rightarrow> ipc_buf \<Rightarrow> fault + int \<times> ipc_buf" where
  "ipc_binary_write_message full_write proto msg out =
     bind_r (ipc_binary_queue_message proto msg out) (\<lambda>out.
       let written = full_write (contents out) in
       map_r (\<lambda>out. (if written < ib_length out then - 1 else 0, out)) (consume_from_buffer written out))"

definition ipc_binary_feed_data :: "byte list \<Rightarrow> ipc_buf \<Rightarrow> ipc_buf" where
  "ipc_binary_feed_data = add_to_buffer"

definition ipc_binary_data_transmitted :: "nat \<Rightarrow> ipc_buf \<Rightarrow> fault + ipc_buf" where
  "ipc_binary_data_transmitted = consume_from_buffer"

section \<open>A buffer is a queue of bytes\<close>

definition buf_ok :: "ipc_buf \<Rightarrow> bool" where
  "buf_ok b \<longleftrightarrow> ib_offset b + ib_length b \<le> ib_size b"

lemma length_contents [simp]: "buf_ok b \<Longrightarrow> length (contents b) = ib_length b"
  by (simp add: contents_def buf_ok_def ib_size_def)

lemma expand_buffer_facts:
  assumes "buf_ok b"
  shows "contents (expand_buffer sz b) = contents b" "ib_length (expand_buffer sz b) = ib_length b"
    "ib_offset (expand_buffer sz b) + ib_length b + sz \<le> ib_size (expand_buffer sz b)"
  using assms
  by (auto simp: expand_buffer_def contents_def buf_ok_def ib_size_def store_at_def Let_def min_def)

lemma take_store_at:
  assumes "k + length bs \<le> length mem" "off + len = k"
  shows "take (len + length bs) (drop off (store_at k bs mem)) = take len (drop off mem) @ bs"
proof -
  have "drop off (take k mem) = take len (drop off mem)" using assms(2) by (auto simp: drop_take)
  then show ?thesis using assms by (simp add: store_at_def)
qed

lemma add_to_buffer_contents:
  assumes "buf_ok b"
  shows "contents (add_to_buffer data b) = contents b @ data" "buf_ok (add_to_buffer data b)"
proof -
  define b1 where "b1 = expand_buffer (length data) b"
  note e = expand_buffer_facts [OF assms, of "length data", folded b1_def]
  have b': "add_to_buffer data b =
      b1\<lparr>ib_mem := store_at (ib_offset b1 + ib_length b1) data (ib_mem b1), ib_length := ib_length b1 + length data\<rparr>"
    by (simp add: add_to_buffer_def b1_def Let_def)
  show "contents (add_to_buffer data b) = contents b @ data"
    using take_store_at [of "ib_offset b1 + ib_length b1" data "ib_mem b1" "ib_offset b1" "ib_length b1"] e
    unfolding b' by (simp add: contents_def ib_size_def)
  show "buf_ok (add_to_buffer data b)"
    using e unfolding b' by (simp add: buf_ok_def ib_size_def store_at_def)
qed

lemma read_data_contents:
  assumes "buf_ok b" "length bytes \<le> 32768"
  shows "contents (read_data bytes b) = contents b @ bytes" "buf_ok (read_data bytes b)"
proof -
  define b1 where "b1 = expand_buffer 32768 b"
  note e = expand_buffer_facts [OF assms(1), of 32768, folded b1_def]
  have b': "read_data bytes b =
      b1\<lparr>ib_mem := store_at (ib_offset b1 + ib_length b1) bytes (ib_mem b1), ib_length := ib_length b1 + length bytes\<rparr>"
    by (simp add: read_data_def b1_def Let_def)
  show "contents (read_data bytes b) = contents b @ bytes"
    using take_store_at [of "ib_offset b1 + ib_length b1" bytes "ib_mem b1" "ib_offset b1" "ib_length b1"] e assms(2)
    unfolding b' by (simp add: contents_def ib_size_def)
  show "buf_ok (read_data bytes b)"
    using e assms(2) unfolding b' by (simp add: buf_ok_def ib_size_def store_at_def)
qed

lemma consume_contents:
  assumes "buf_ok b" "n \<le> ib_length b"
  obtains b' where "consume_from_buffer n b = Inr b'" "contents b' = drop n (contents b)" "buf_ok b'"
    "ib_length b' = ib_length b - n"
proof -
  define b' where
    "b' = b\<lparr>ib_length := ib_length b - n, ib_offset := if ib_length b - n = 0 then 0 else ib_offset b + n\<rparr>"
  have "consume_from_buffer n b = Inr b'" using assms(2) by (simp add: consume_from_buffer_def Let_def b'_def)
  moreover have "contents b' = drop n (contents b)" by (simp add: b'_def contents_def drop_take add.commute)
  moreover have "buf_ok b'" using assms by (simp add: b'_def buf_ok_def ib_size_def)
  moreover have "ib_length b' = ib_length b - n" by (simp add: b'_def)
  ultimately show thesis by (rule that)
qed

text \<open>C13: a buffer is a queue of bytes, wherever its data lies in the allocated block and whether the block has to be moved or to grow:
  adding data appends it, consuming takes it from the front, and more than there is cannot be consumed. The data never lies
  outside the block.\<close>

theorem ipc_buffer_is_queue:
  assumes "buf_ok b"
  shows "contents (ipc_binary_feed_data data b) = contents b @ data \<and> buf_ok (ipc_binary_feed_data data b) \<and>
    (case ipc_binary_data_transmitted n b of
       Inr b' \<Rightarrow> n \<le> length (contents b) \<and> contents b' = drop n (contents b) \<and> buf_ok b'
     | Inl e \<Rightarrow> e = Assertion_failed \<and> n > length (contents b))"
proof -
  have "case consume_from_buffer n b of
       Inr b' \<Rightarrow> n \<le> ib_length b \<and> contents b' = drop n (contents b) \<and> buf_ok b'
     | Inl e \<Rightarrow> e = Assertion_failed \<and> n > ib_length b"
  proof (cases "n \<le> ib_length b")
    case True
    with consume_contents [OF assms] obtain b' where
      "consume_from_buffer n b = Inr b'" "contents b' = drop n (contents b)" "buf_ok b'" by metis
    with True show ?thesis by simp
  qed (simp add: consume_from_buffer_def)
  then show ?thesis
    unfolding ipc_binary_feed_data_def ipc_binary_data_transmitted_def length_contents [OF assms]
    using add_to_buffer_contents [OF assms] by blast
qed

theorem ipc_buffer_is_queue_witness:
  "contents (ipc_binary_feed_data [3] \<lparr>ib_mem = [0, 1, 2], ib_offset = 1, ib_length = 2\<rparr>) = [1, 2, 3]"
proof -
  have "buf_ok \<lparr>ib_mem = [0, 1, 2 :: byte], ib_offset = 1, ib_length = 2\<rparr>" by (simp add: buf_ok_def ib_size_def)
  from ipc_buffer_is_queue [OF this, of "[3]" 0] show ?thesis by (simp add: contents_def)
qed

section \<open>A message is read as it was written\<close>

text \<open>A message as \<open>ipc_binary_new_message\<close> and \<open>ipc_binary_add_arg\<close> make it: every argument that is set is one of the command and not
  empty, unless it is a string; and the message fits into its length field.\<close>

definition good_message :: "ipc_proto \<Rightarrow> ipc_message \<Rightarrow> bool" where
  "good_message proto msg \<longleftrightarrow>
     valid_cmd proto (im_cmd_id msg) \<and> im_cmd msg = ip_cmds proto ! unat (im_cmd_id msg) \<and>
     length (im_args msg) = length (ic_arg_flags (im_cmd msg)) \<and> length (im_args msg) < 2 ^ 16 \<and>
     all_args_present msg \<and> msg_len msg < 2 ^ 32 \<and>
     (\<forall>(i, data) \<in> set (args_set (im_args msg)). i \<noteq> 0 \<and> flag_set (ic_arg_flags (im_cmd msg) ! i) IPC_BINARY_EXISTS \<and>
        (data = [] \<longrightarrow> flag_set (ic_arg_flags (im_cmd msg) ! i) IPC_BINARY_STRING))"

lemma be_bytes_4: "be_bytes 4 n = [of_nat (n div 16777216), of_nat (n div 65536), of_nat (n div 256), of_nat n]"
proof -
  have "be_bytes (Suc (Suc (Suc (Suc 0)))) n = [of_nat (n div 16777216), of_nat (n div 65536), of_nat (n div 256), of_nat n]"
    by (simp add: div_mult2_eq [symmetric])
  moreover have "(4 :: nat) = Suc (Suc (Suc (Suc 0)))" by simp
  ultimately show ?thesis by metis
qed

lemma get_guint16_bytes: "get_guint16 (be_bytes 2 n @ rest) = Inr (of_nat (n mod 2 ^ 16), rest)"
  by (simp add: get_guint16_def be_value_bytes)

lemma get_guint32_bytes: "get_guint32 (be_bytes 4 n @ rest) = Inr (of_nat (n mod 2 ^ 32), rest)"
  by (simp add: get_guint32_def be_value_bytes)

lemma poll_args_step:
  assumes "get_guint32 p = Inr (w, p')" "get_guint16 p' = Inr (a, data @ rest)" "unat w = length data" "unat a = i"
    and "i \<noteq> 0" "i < length flags" "flag_set (flags ! i) IPC_BINARY_EXISTS" "args ! i = None"
    and "data = [] \<longrightarrow> flag_set (flags ! i) IPC_BINARY_STRING"
  shows "poll_args flags (Suc n) p args = poll_args flags n rest (args[i := Some data])"
proof -
  have "w = 0 \<longleftrightarrow> data = []" using assms(3) by (metis length_0_conv unat_0 unat_eq_zero)
  then show ?thesis using assms by (cases "data = []") simp_all
qed

lemma poll_args_bytes:
  assumes "\<forall>(i, data) \<in> set ps. i \<noteq> 0 \<and> i < length flags \<and> flag_set (flags ! i) IPC_BINARY_EXISTS \<and> args ! i = None \<and>
      length data < 2 ^ 32 \<and> (data = [] \<longrightarrow> flag_set (flags ! i) IPC_BINARY_STRING)"
    and "distinct (map fst ps)" "length flags < 2 ^ 16" "length args = length flags"
  shows "poll_args flags (length ps) (concat (map arg_bytes ps) @ rest) args =
    Inr (Some (fold (\<lambda>(i, data) args. args[i := Some data]) ps args))"
  using assms
proof (induction ps arbitrary: args)
  case (Cons p ps)
  obtain i data where p: "p = (i, data)" by (cases p)
  have i: "i \<noteq> 0" "i < length flags" "flag_set (flags ! i) IPC_BINARY_EXISTS" "args ! i = None" "length data < 2 ^ 32"
      "data = [] \<longrightarrow> flag_set (flags ! i) IPC_BINARY_STRING" "i < 2 ^ 16"
    using Cons.prems(1,3) p by auto
  have u: "unat (of_nat (i mod 2 ^ 16) :: 16 word) = i" "unat (of_nat (length data mod 2 ^ 32) :: 32 word) = length data"
    using i(5,7) by (simp_all add: unat_of_nat)
  have "poll_args flags (Suc n) (arg_bytes (i, data) @ rest) args = poll_args flags n rest (args[i := Some data])" for n rest
  proof (rule poll_args_step [OF _ _ u(2) u(1)])
    show "get_guint32 (arg_bytes (i, data) @ rest) = Inr (of_nat (length data mod 2 ^ 32), be_bytes 2 i @ data @ rest)"
      using get_guint32_bytes [of "length data" "be_bytes 2 i @ data @ rest"] by (simp only: arg_bytes_def split append_assoc)
    show "get_guint16 (be_bytes 2 i @ data @ rest) = Inr (of_nat (i mod 2 ^ 16), data @ rest)"
      by (rule get_guint16_bytes)
  qed (use i in auto)
  then have "poll_args flags (Suc (length ps)) (arg_bytes (i, data) @ concat (map arg_bytes ps) @ rest) args =
      poll_args flags (length ps) (concat (map arg_bytes ps) @ rest) (args[i := Some data])" .
  also have "\<dots> = Inr (Some (fold (\<lambda>(i, data) args. args[i := Some data]) ps (args[i := Some data])))"
  proof (rule Cons.IH)
    show "\<forall>(j, data') \<in> set ps. j \<noteq> 0 \<and> j < length flags \<and> flag_set (flags ! j) IPC_BINARY_EXISTS \<and> (args[i := Some data]) ! j = None \<and>
        length data' < 2 ^ 32 \<and> (data' = [] \<longrightarrow> flag_set (flags ! j) IPC_BINARY_STRING)"
    proof (safe, goal_cases)
      case (4 j data')
      then have "i \<noteq> j" using Cons.prems(2) by (force simp: p)
      with 4 Cons.prems(1) show ?case by (auto simp: p)
    qed (use Cons.prems(1) in auto)
  qed (use Cons.prems p in auto)
  finally show ?case by (simp only: p list.map concat.simps append_assoc list.size add_Suc_right add_0_right fold.simps comp_def split)
qed simp

text \<open>The arguments set one after the other are the arguments of the message.\<close>

lemma nth_fold_set:
  assumes "distinct (map fst ps)" "\<forall>p \<in> set ps. fst p < length args" "j < length args"
  shows "fold (\<lambda>(i, data) args. args[i := Some data]) ps args ! j =
    (case map_of ps j of None \<Rightarrow> args ! j | Some data \<Rightarrow> Some data)"
  using assms
proof (induction ps arbitrary: args)
  case (Cons p ps)
  then have "map_of ps (fst p) = None" by (auto simp: map_of_eq_None_iff)
  with Cons show ?case by (cases p) (auto simp: nth_list_update split: option.splits)
qed simp

lemma length_fold_set [simp]: "length (fold (\<lambda>(i, data) args. args[i := Some data]) ps args) = length args"
  by (induction ps arbitrary: args) auto

lemma args_set_facts: "distinct (map fst (args_set args))" "\<forall>p \<in> set (args_set args). fst p < length args"
    "map fst (args_set args) = filter (\<lambda>i. args ! i \<noteq> None) [0 ..< length args]"
  by (auto simp: args_set_def comp_def)

lemma fold_args_set:
  "fold (\<lambda>(i, data) args. args[i := Some data]) (args_set args) (replicate (length args) None) = args"
proof (rule nth_equalityI)
  fix j
  assume "j < length (fold (\<lambda>(i, data) args. args[i := Some data]) (args_set args) (replicate (length args) None))"
  then have j: "j < length args" by simp
  have "map_of (args_set args) j = args ! j"
    using j by (auto simp: args_set_def map_of_map_restrict restrict_map_def)
  then show "fold (\<lambda>(i, data) args. args[i := Some data]) (args_set args) (replicate (length args) None) ! j = args ! j"
    using j args_set_facts [of args] by (subst nth_fold_set) (auto split: option.splits)
qed simp

lemma length_arg_bytes [simp]: "length (arg_bytes p) = length (snd p) + ARG_HDR_LEN"
  by (simp add: arg_bytes_def ARG_HDR_LEN_def split: prod.split)

lemma length_msg_bytes [simp]: "length (msg_bytes magic msg) = msg_len msg"
  by (simp add: msg_bytes_def msg_header_def msg_len_def MSG_HDR_LEN_def length_concat comp_def split_def)

lemma msg_header_read:
  assumes "msg_len msg < 2 ^ 32"
  shows "get_guint16 (msg_header magic msg @ rest) =
      Inr (magic, be_bytes 2 (unat (im_cmd_id msg)) @ be_bytes 4 (msg_len msg) @
        be_bytes 2 (length (args_set (im_args msg))) @ rest)"
    "get_guint16 (be_bytes 2 (unat (im_cmd_id msg)) @ rest) = Inr (im_cmd_id msg, rest)"
    "get_guint32 (be_bytes 4 (msg_len msg) @ rest) = Inr (of_nat (msg_len msg), rest)"
    "unat (of_nat (msg_len msg) :: 32 word) = msg_len msg"
proof -
  have m: "unat (w :: 16 word) mod 2 ^ 16 = unat w" for w using unat_below [of w] by simp
  show "get_guint16 (msg_header magic msg @ rest) =
      Inr (magic, be_bytes 2 (unat (im_cmd_id msg)) @ be_bytes 4 (msg_len msg) @
        be_bytes 2 (length (args_set (im_args msg))) @ rest)"
    unfolding msg_header_def append_assoc get_guint16_bytes m by simp
  show "get_guint16 (be_bytes 2 (unat (im_cmd_id msg)) @ rest) = Inr (im_cmd_id msg, rest)"
    unfolding get_guint16_bytes m by simp
  show "get_guint32 (be_bytes 4 (msg_len msg) @ rest) = Inr (of_nat (msg_len msg), rest)"
    unfolding get_guint32_bytes using assms by simp
  show "unat (of_nat (msg_len msg) :: 32 word) = msg_len msg" using assms by (simp add: unat_of_nat)
qed

lemma poll_body_read:
  assumes "buf_ok b" "good_message proto msg" "msg_len msg \<le> ib_length b"
    and "p = be_bytes 2 (length (args_set (im_args msg))) @ concat (map arg_bytes (args_set (im_args msg))) @ rest"
  obtains b' where "poll_body proto (im_cmd_id msg) (msg_len msg) p b = Inr (Got msg, b')"
    "contents b' = drop (msg_len msg) (contents b)" "buf_ok b'"
proof -
  let ?ps = "args_set (im_args msg)"
  have good: "valid_cmd proto (im_cmd_id msg)" "im_cmd msg = ip_cmds proto ! unat (im_cmd_id msg)"
      "length (im_args msg) = length (ic_arg_flags (im_cmd msg))" "length (im_args msg) < 2 ^ 16" "all_args_present msg"
      "msg_len msg < 2 ^ 32"
    using assms(2) unfolding good_message_def by blast+
  have len: "length ?ps < 2 ^ 16"
  proof -
    have "length ?ps \<le> length (im_args msg)"
      unfolding args_set_def length_map by (rule order_trans [OF length_filter_le]) simp
    with good(4) show ?thesis by simp
  qed
  have short: "length data < 2 ^ 32" if "(i, data) \<in> set ?ps" for i data
  proof -
    have "length data + ARG_HDR_LEN \<le> sum_list (map (\<lambda>(i, data). length data + ARG_HDR_LEN) ?ps)"
      using that by (auto dest!: split_list)
    with good(6) show ?thesis by (simp add: msg_len_def)
  qed
  have flags: "i \<noteq> 0 \<and> flag_set (ic_arg_flags (im_cmd msg) ! i) IPC_BINARY_EXISTS \<and>
      (data = [] \<longrightarrow> flag_set (ic_arg_flags (im_cmd msg) ! i) IPC_BINARY_STRING)" if "(i, data) \<in> set ?ps" for i data
    using assms(2) that unfolding good_message_def by blast
  have args: "poll_args (ic_arg_flags (im_cmd msg)) (length ?ps) (concat (map arg_bytes ?ps) @ rest)
      (replicate (length (ic_arg_flags (im_cmd msg))) None) = Inr (Some (im_args msg))"
  proof (subst poll_args_bytes)
    show "\<forall>(i, data) \<in> set ?ps. i \<noteq> 0 \<and> i < length (ic_arg_flags (im_cmd msg)) \<and>
        flag_set (ic_arg_flags (im_cmd msg) ! i) IPC_BINARY_EXISTS \<and>
        replicate (length (ic_arg_flags (im_cmd msg))) None ! i = (None :: byte list option) \<and> length data < 2 ^ 32 \<and>
        (data = [] \<longrightarrow> flag_set (ic_arg_flags (im_cmd msg) ! i) IPC_BINARY_STRING)"
      using flags short args_set_facts(2) [of "im_args msg"] good(3) by fastforce
  qed (use args_set_facts good(3,4) fold_args_set [of "im_args msg"] in auto)
  obtain b' where b': "consume_from_buffer (msg_len msg) b = Inr b'" "contents b' = drop (msg_len msg) (contents b)" "buf_ok b'"
    using consume_contents [OF assms(1,3)] by metis
  have n: "get_guint16 p = Inr (of_nat (length ?ps), concat (map arg_bytes ?ps) @ rest)"
      "unat (of_nat (length ?ps) :: 16 word) = length ?ps"
    using len unfolding assms(4) get_guint16_bytes by (simp_all add: unat_of_nat)
  have new: "ipc_binary_new_message proto (im_cmd_id msg) =
      Inr (msg\<lparr>im_args := replicate (length (ic_arg_flags (im_cmd msg))) None\<rparr>)"
    using good(1,2) by (simp add: ipc_binary_new_message_def Let_def)
  show thesis
    by (rule that [OF _ b'(2,3)]) (simp add: poll_body_def n new args good(5) b'(1) del: poll_args.simps)
qed

text \<open>Polling gives the message at the start of the data, or waits while there is only a part of it.\<close>

lemma poll_message_read:
  assumes "buf_ok b" "good_message proto msg" "contents b = msg_bytes (ip_magic proto) msg @ rest"
  obtains b' where "ipc_binary_poll_message proto b = Inr (Got msg, b')" "contents b' = rest" "buf_ok b'"
proof -
  have good: "valid_cmd proto (im_cmd_id msg)" "msg_len msg < 2 ^ 32"
    using assms(2) unfolding good_message_def by blast+
  have len: "msg_len msg \<le> ib_length b" "\<not> ib_length b < MSG_HDR_LEN"
    using length_contents [OF assms(1)] assms(3) by (simp_all add: msg_len_def)
  obtain b' where b': "poll_body proto (im_cmd_id msg) (msg_len msg) (be_bytes 2 (length (args_set (im_args msg))) @
      concat (map arg_bytes (args_set (im_args msg))) @ rest) b = Inr (Got msg, b')"
      "contents b' = drop (msg_len msg) (contents b)" "buf_ok b'"
    using poll_body_read [OF assms(1,2) len(1) refl] by metis
  have "ipc_binary_poll_message proto b = Inr (Got msg, b')"
    using len good(1) b'(1)
    by (simp add: ipc_binary_poll_message_def assms(3) msg_bytes_def msg_header_read [OF good(2)])
  moreover have "contents b' = rest" using b'(2) assms(3) by simp
  ultimately show thesis using b'(3) by (rule that)
qed

lemma poll_message_waits:
  assumes "buf_ok b" "good_message proto msg" "contents b @ later = msg_bytes (ip_magic proto) msg @ rest"
    and "ib_length b < msg_len msg"
  shows "ipc_binary_poll_message proto b = Inr (Waiting, b)"
proof (cases "ib_length b < MSG_HDR_LEN")
  case False
  have good: "valid_cmd proto (im_cmd_id msg)" "msg_len msg < 2 ^ 32"
    using assms(2) unfolding good_message_def by blast+
  let ?h = "msg_header (ip_magic proto) msg"
  have h: "length ?h = MSG_HDR_LEN" by (simp add: msg_header_def MSG_HDR_LEN_def)
  have "take MSG_HDR_LEN (contents b @ later) = ?h" by (simp add: assms(3) msg_bytes_def h)
  then have "contents b = ?h @ drop MSG_HDR_LEN (contents b)"
    using False length_contents [OF assms(1)] by (metis append_take_drop_id le_less_linear take_append diff_is_0_eq take0 append_Nil2)
  then obtain q where "contents b = ?h @ q" by blast
  then show ?thesis
    using False good(1) assms(4) by (simp add: ipc_binary_poll_message_def msg_header_read [OF good(2)])
qed (simp add: ipc_binary_poll_message_def)

text \<open>The results of \<open>read\<close> that bring data, in pieces that fit into the room made for them.\<close>

lemma message_arrives:
  assumes "good_message proto msg" "buf_ok b" "contents b @ concat cs = msg_bytes (ip_magic proto) msg @ rest"
    and "\<forall>c \<in> set cs. c \<noteq> [] \<and> length c \<le> 32768"
  shows "\<exists>b' cs'. ipc_binary_read_message proto (map Some cs @ later) b = Inr (Read_message msg, map Some cs' @ later, b') \<and>
    buf_ok b' \<and> contents b' @ concat cs' = rest"
  using assms(2-4)
proof (induction cs arbitrary: b)
  case Nil
  then obtain b' where "ipc_binary_poll_message proto b = Inr (Got msg, b')" "contents b' = rest" "buf_ok b'"
    using poll_message_read [OF _ assms(1)] by (metis append_Nil2 concat.simps(1))
  then show ?case by (cases later) (auto intro!: exI [of _ "[]"])
next
  case (Cons c cs)
  show ?case
  proof (cases "ib_length b < msg_len msg")
    case True
    note wait = poll_message_waits [OF Cons.prems(1) assms(1) Cons.prems(2) True]
    have "length c \<le> 32768" using Cons.prems(3) by simp
    note read = read_data_contents [OF Cons.prems(1) this]
    show ?thesis
      using Cons.IH [OF read(2)] Cons.prems(2,3) by (simp add: wait read(1))
  next
    case False
    then have "msg_len msg \<le> length (contents b)" using Cons.prems(1) by simp
    define r where "r = drop (msg_len msg) (contents b)"
    have "take (msg_len msg) (contents b) = msg_bytes (ip_magic proto) msg"
      using \<open>msg_len msg \<le> length (contents b)\<close> arg_cong [OF Cons.prems(2), of "take (msg_len msg)"] by simp
    then have r: "contents b = msg_bytes (ip_magic proto) msg @ r"
      using append_take_drop_id [of "msg_len msg" "contents b"] by (simp add: r_def)
    with Cons.prems(2) have "r @ concat (c # cs) = rest" by simp
    note r = r this
    obtain b' where "ipc_binary_poll_message proto b = Inr (Got msg, b')" "contents b' = r" "buf_ok b'"
      using poll_message_read [OF Cons.prems(1) assms(1) r(1)] by metis
    then show ?thesis using r(2) by (auto intro!: exI [of _ "c # cs"])
  qed
qed

text \<open>The message is written where the data of the buffer begins.\<close>

lemma queue_message_contents:
  assumes "buf_ok out" "all_args_present msg"
  obtains out' where "ipc_binary_queue_message proto msg out = Inr out'" "buf_ok out'"
    "ib_length out' = ib_length out + msg_len msg" "take (msg_len msg) (contents out') = msg_bytes (ip_magic proto) msg"
proof -
  define b1 where "b1 = expand_buffer (msg_len msg) out"
  note e = expand_buffer_facts [OF assms(1), of "msg_len msg", folded b1_def]
  define out' where "out' = b1\<lparr>ib_mem := store_at (ib_offset b1) (msg_bytes (ip_magic proto) msg) (ib_mem b1),
      ib_length := ib_length b1 + msg_len msg\<rparr>"
  have "ipc_binary_queue_message proto msg out = Inr out'"
    using assms(2) by (simp add: ipc_binary_queue_message_def b1_def out'_def Let_def)
  moreover have "buf_ok out'" using e by (simp add: out'_def buf_ok_def ib_size_def store_at_def)
  moreover have "ib_length out' = ib_length out + msg_len msg" using e by (simp add: out'_def)
  moreover have "take (msg_len msg) (contents out') = msg_bytes (ip_magic proto) msg"
    using e by (simp add: out'_def contents_def store_at_def ib_size_def)
  ultimately show thesis by (rule that)
qed

text \<open>C12: a message with all its arguments, written into an empty outgoing buffer, is exactly what is sent; and however \<open>read\<close> cuts the
  bytes into pieces, \<open>ipc_binary_read_message\<close> returns the same message, reads no further than it needs to and leaves what
  follows the message for the next call.\<close>

theorem ipc_message_arrives:
  assumes "good_message proto msg" "buf_ok out" "ib_length out = 0" "buf_ok b"
    and "contents b @ concat cs = msg_bytes (ip_magic proto) msg @ rest" "\<forall>c \<in> set cs. c \<noteq> [] \<and> length c \<le> 32768"
  shows "(\<exists>out'. ipc_binary_queue_message proto msg out = Inr out' \<and> contents out' = msg_bytes (ip_magic proto) msg) \<and>
    (\<exists>b' cs'. ipc_binary_read_message proto (map Some cs @ later) b = Inr (Read_message msg, map Some cs' @ later, b') \<and>
       buf_ok b' \<and> contents b' @ concat cs' = rest)"
proof
  have "all_args_present msg" using assms(1) unfolding good_message_def by blast
  then obtain out' where out': "ipc_binary_queue_message proto msg out = Inr out'" "buf_ok out'"
      "ib_length out' = msg_len msg" "take (msg_len msg) (contents out') = msg_bytes (ip_magic proto) msg"
    using queue_message_contents [OF assms(2)] assms(3) by (metis add_0)
  then show "\<exists>out'. ipc_binary_queue_message proto msg out = Inr out' \<and> contents out' = msg_bytes (ip_magic proto) msg"
    by (metis length_contents order_refl take_all)
qed (rule message_arrives [OF assms(1,4,5,6)])

text \<open>A protocol with one command of a string and an optional argument that is not one.\<close>

definition ex_proto :: ipc_proto where
  "ex_proto = \<lparr>ip_magic = 0x7734, ip_cmds =
     [\<lparr>ic_exists = False, ic_arg_flags = []\<rparr>, \<lparr>ic_exists = True, ic_arg_flags = [0, 129, 130]\<rparr>]\<rparr>"

definition ex_message :: "byte list \<Rightarrow> ipc_message" where
  "ex_message s = \<lparr>im_cmd_id = 1, im_cmd = ip_cmds ex_proto ! 1, im_args = [None, Some s, None]\<rparr>"

lemma ex_args [simp]: "args_set (im_args (ex_message s)) = [(1, s)]"
  by (simp add: args_set_def ex_message_def upt_rec)

lemma ex_message_good: "length s < 1000 \<Longrightarrow> good_message ex_proto (ex_message s)"
  unfolding good_message_def ex_args
  by (simp add: ex_message_def ex_proto_def valid_cmd_def all_args_present_def flag_set_def msg_len_def MSG_HDR_LEN_def ARG_HDR_LEN_def
      IPC_BINARY_EXISTS_def IPC_BINARY_OPTIONAL_def IPC_BINARY_STRING_def args_set_def upt_rec)

lemma empty_buf_facts [simp]: "buf_ok empty_buf" "ib_length empty_buf = 0" "contents empty_buf = []"
  by (simp_all add: empty_buf_def buf_ok_def ib_size_def contents_def)

theorem ipc_message_arrives_witness:
  "\<exists>b' cs'. ipc_binary_read_message ex_proto [Some [0x77, 0x34, 0], Some [1, 0, 0, 0, 18, 0, 1, 0, 0, 0, 2, 0, 1, 65, 66, 7]] empty_buf =
      Inr (Read_message (ex_message [65, 66]), cs', b') \<and> contents b' @ concat (map the cs') = [7]"
proof -
  let ?cs = "[[0x77, 0x34, 0], [1, 0, 0, 0, 18, 0, 1, 0, 0, 0, 2, 0, 1, 65, 66, 7]]"
  have m: "msg_bytes (ip_magic ex_proto) (ex_message [65, 66]) @ [7] = concat ?cs"
    unfolding msg_bytes_def msg_header_def msg_len_def ex_args
    by (simp add: ex_proto_def ex_message_def arg_bytes_def MSG_HDR_LEN_def ARG_HDR_LEN_def be_bytes_2 be_bytes_4)
  have "good_message ex_proto (ex_message [65, 66])" by (rule ex_message_good) simp
  from ipc_message_arrives [OF this, of empty_buf empty_buf ?cs "[7]" "[]"] m
  obtain b' cs' where "ipc_binary_read_message ex_proto (map Some ?cs) empty_buf =
      Inr (Read_message (ex_message [65, 66]), map Some cs', b')" "contents b' @ concat cs' = [7]"
    by auto
  then show ?thesis by (intro exI [of _ b'] exI [of _ "map Some cs'"]) (simp add: comp_def)
qed



section \<open>Writes that do not go through\<close>

text \<open>The number of bytes written is compared with what is left after they were consumed, so that a write that stops after half of the
  data is reported as a success.\<close>

lemma short_write_reported:
  assumes "buf_ok out" "all_args_present msg"
  obtains out1 r out2 where "ipc_binary_queue_message proto msg out = Inr out1"
    "ipc_binary_write_message (\<lambda>bs. min k (length bs)) proto msg out = Inr (r, out2)"
    "contents out2 = drop k (contents out1)" "r = - 1 \<longleftrightarrow> 2 * k < length (contents out1)"
proof -
  obtain out1 where 1: "ipc_binary_queue_message proto msg out = Inr out1" "buf_ok out1"
    using queue_message_contents [OF assms] by metis
  define n where "n = min k (ib_length out1)"
  obtain out2 where 2: "consume_from_buffer n out1 = Inr out2" "contents out2 = drop n (contents out1)"
      "ib_length out2 = ib_length out1 - n"
    using consume_contents [OF 1(2), of n] by (auto simp: n_def)
  have "ipc_binary_write_message (\<lambda>bs. min k (length bs)) proto msg out = Inr (if n < ib_length out2 then - 1 else 0, out2)"
    using 1 2(1) by (simp add: ipc_binary_write_message_def Let_def n_def [symmetric])
  moreover have "contents out2 = drop k (contents out1)" using 2(2) 1(2) by (cases "k \<le> ib_length out1") (simp_all add: n_def)
  moreover have "(if n < ib_length out2 then - 1 else 0) = (- 1 :: int) \<longleftrightarrow> 2 * k < length (contents out1)"
    using 1(2) 2(3) by (auto simp: n_def)
  ultimately show thesis by (rule that [OF 1(1)])
qed

text \<open>A message whose length field is zero is taken out of the buffer without its bytes: the next call finds it again.\<close>

lemma zero_length_stays:
  assumes "buf_ok b" "valid_cmd proto i" "list_all (\<lambda>f. flag_set f IPC_BINARY_OPTIONAL \<or> \<not> flag_set f IPC_BINARY_EXISTS)
      (ic_arg_flags (ip_cmds proto ! unat i))"
    and "contents b = be_bytes 2 (unat (ip_magic proto)) @ be_bytes 2 (unat i) @ be_bytes 4 0 @ be_bytes 2 0 @ rest"
  shows "\<exists>msg. ipc_binary_poll_message proto b = Inr (Got msg, b)"
proof -
  have m: "(of_nat (unat (w :: 16 word) mod 2 ^ 16) :: 16 word) = w" for w using unat_below [of w] by simp
  have len: "ib_length b \<noteq> 0" "\<not> ib_length b < MSG_HDR_LEN"
    using length_contents [OF assms(1)] assms(4) by (simp_all add: MSG_HDR_LEN_def)
  have "list_all (\<lambda>(f, data). \<not> (data = None \<and> flag_set f IPC_BINARY_EXISTS \<and> \<not> flag_set f IPC_BINARY_OPTIONAL))
      (zip fs (replicate (length fs) None))"
    if "list_all (\<lambda>f. flag_set f IPC_BINARY_OPTIONAL \<or> \<not> flag_set f IPC_BINARY_EXISTS) fs" for fs
    using that by (induction fs) auto
  from this [OF assms(3)] have "\<exists>msg. ipc_binary_poll_message proto b = Inr (Got msg, b)" if "ib_length b \<noteq> 0"
    using that len assms(2)
    by (simp add: ipc_binary_poll_message_def assms(4) get_guint16_bytes get_guint32_bytes m [simplified] poll_body_def ipc_binary_new_message_def
        all_args_present_def consume_from_buffer_def Let_def)
  with len show ?thesis by blast
qed

end
