(* ===== verification/Events.thy ===== *)
theory Events
  imports Amanda_Prelude
begin

text \<open>
  The event loop (\<open>common-src/event.c\<close>). A handle is a pointer into a heap of handles; memory that was freed is not used again,
  so that every use of a handle after it was freed is a fault. Parameters: \<open>call\<close>, what calling a callback with its argument
  does (it may register, release and wake up events, and run the loop again), the size of a set of descriptors, and for every
  iteration of GLib's main loop the handles whose sources it dispatches; GLib dispatches no source that was destroyed. The
  mutex, the debug messages and the sources for children on old systems are not modelled.
\<close>

section \<open>Events\<close>

datatype event_type_t = EV_READFD | EV_WRITEFD | EV_TIME | EV_WAIT

text \<open>The callback with its argument is \<open>eh_fn\<close>; \<open>eh_source\<close> tells whether the event has a source.\<close>

record 'f event_handle =
  eh_fn :: 'f
  eh_type :: event_type_t
  eh_data :: int
  eh_source :: bool
  eh_has_fired :: bool
  eh_is_dead :: bool

record 'f events =
  ev_heap :: "nat \<Rightarrow> 'f event_handle option"
  ev_fresh :: nat
  ev_all :: "nat list"
  ev_stop :: bool

definition deref :: "nat \<Rightarrow> 'f events \<Rightarrow> fault + 'f event_handle" where
  "deref p st = (case ev_heap st p of None \<Rightarrow> Inl Out_of_bounds | Some h \<Rightarrow> Inr h)"

definition upd_handle :: "nat \<Rightarrow> ('f event_handle \<Rightarrow> 'f event_handle) \<Rightarrow> 'f events \<Rightarrow> fault + 'f events" where
  "upd_handle p g st = map_r (\<lambda>h. st\<lparr>ev_heap := (ev_heap st)(p \<mapsto> g h)\<rparr>) (deref p st)"

text \<open>The mark that the event has fired is written after the callback.\<close>

definition fire :: "('f \<Rightarrow> 'f events \<Rightarrow> fault + 'f events) \<Rightarrow> nat \<Rightarrow> 'f events \<Rightarrow> fault + 'f events" where
  "fire call p st =
     bind_r (deref p st) (\<lambda>h. bind_r (call (eh_fn h) st) (upd_handle p (\<lambda>h. h\<lparr>eh_has_fired := True\<rparr>)))"

definition event_handle_callback :: "('f \<Rightarrow> 'f events \<Rightarrow> fault + 'f events) \<Rightarrow> nat \<Rightarrow> 'f events \<Rightarrow> fault + 'f events" where
  "event_handle_callback call p st = bind_r (deref p st) (\<lambda>h. if \<not> eh_is_dead h then fire call p st else Inr st)"

definition event_create :: "int \<Rightarrow> int \<Rightarrow> event_type_t \<Rightarrow> 'f \<Rightarrow> 'f events \<Rightarrow> fault + nat \<times> 'f events" where
  "event_create fd_setsize data type fn st =
     (if (type = EV_READFD \<or> type = EV_WRITEFD) \<and> data \<ge> fd_setsize then Inl Assertion_failed
      else if type = EV_TIME \<and> data \<le> 0 then Inl Assertion_failed
      else
        let handle = \<lparr>eh_fn = fn, eh_type = type, eh_data = data, eh_source = False, eh_has_fired = False, eh_is_dead = False\<rparr> in
        Inr (ev_fresh st, st\<lparr>ev_heap := (ev_heap st)(ev_fresh st \<mapsto> handle), ev_fresh := ev_fresh st + 1\<rparr>))"

definition event_activate :: "nat \<Rightarrow> 'f events \<Rightarrow> fault + 'f events" where
  "event_activate p st =
     upd_handle p (\<lambda>h. if eh_type h = EV_WAIT then h else h\<lparr>eh_source := True\<rparr>) (st\<lparr>ev_all := p # ev_all st\<rparr>)"

definition event_register :: "int \<Rightarrow> int \<Rightarrow> event_type_t \<Rightarrow> 'f \<Rightarrow> 'f events \<Rightarrow> fault + nat \<times> 'f events" where
  "event_register fd_setsize data type fn st =
     bind_r (event_create fd_setsize data type fn st) (\<lambda>(p, st). map_r (Pair p) (event_activate p st))"

definition event_release :: "nat \<Rightarrow> 'f events \<Rightarrow> fault + 'f events" where
  "event_release p st =
     bind_r (deref p st) (\<lambda>h. if eh_is_dead h then Inl Assertion_failed else upd_handle p (\<lambda>h. h\<lparr>eh_is_dead := True\<rparr>) st)"

definition wakes_up_for :: "int \<Rightarrow> 'f event_handle \<Rightarrow> bool" where
  "wakes_up_for i h \<longleftrightarrow> eh_type h = EV_WAIT \<and> eh_data h = i \<and> \<not> eh_is_dead h"

fun find_waiting :: "int \<Rightarrow> nat list \<Rightarrow> 'f events \<Rightarrow> fault + nat list" where
  "find_waiting i [] st = Inr []"
| "find_waiting i (p # ps) st =
     bind_r (deref p st) (\<lambda>h. map_r (\<lambda>tofire. if wakes_up_for i h then p # tofire else tofire) (find_waiting i ps st))"

fun fire_waiting ::
    "('f \<Rightarrow> 'f events \<Rightarrow> fault + 'f events) \<Rightarrow> int \<Rightarrow> nat list \<Rightarrow> nat \<times> 'f events \<Rightarrow> fault + nat \<times> 'f events" where
  "fire_waiting call i [] (n, st) = Inr (n, st)"
| "fire_waiting call i (p # ps) (n, st) =
     bind_r (deref p st) (\<lambda>h.
       if wakes_up_for i h then bind_r (fire call p st) (\<lambda>st. fire_waiting call i ps (n + 1, st))
       else fire_waiting call i ps (n, st))"

definition event_wakeup :: "('f \<Rightarrow> 'f events \<Rightarrow> fault + 'f events) \<Rightarrow> int \<Rightarrow> 'f events \<Rightarrow> fault + nat \<times> 'f events" where
  "event_wakeup call i st = bind_r (find_waiting i (ev_all st) st) (\<lambda>tofire. fire_waiting call i tofire (0, st))"

section \<open>The loop\<close>

text \<open>The dead events are taken out of the list and freed, but for the one that is waited for.\<close>

fun flush_list :: "nat option \<Rightarrow> nat list \<Rightarrow> 'f events \<Rightarrow> fault + nat list \<times> 'f events" where
  "flush_list wait_eh [] st = Inr ([], st)"
| "flush_list wait_eh (p # ps) st =
     bind_r (deref p st) (\<lambda>h.
       if eh_is_dead h \<and> Some p \<noteq> wait_eh then flush_list wait_eh ps (st\<lparr>ev_heap := (ev_heap st)(p := None)\<rparr>)
       else map_r (apfst ((#) p)) (flush_list wait_eh ps st))"

definition flush_dead_events :: "nat option \<Rightarrow> 'f events \<Rightarrow> fault + 'f events" where
  "flush_dead_events wait_eh st = map_r (\<lambda>(ps, st). st\<lparr>ev_all := ps\<rparr>) (flush_list wait_eh (ev_all st) st)"

fun any_mainloop_events :: "nat list \<Rightarrow> 'f events \<Rightarrow> fault + bool" where
  "any_mainloop_events [] st = Inr False"
| "any_mainloop_events (p # ps) st =
     bind_r (deref p st) (\<lambda>h. map_r (\<lambda>ret. eh_type h \<noteq> EV_WAIT \<or> ret) (any_mainloop_events ps st))"

text \<open>One iteration of the main loop.\<close>

fun dispatch :: "('f \<Rightarrow> 'f events \<Rightarrow> fault + 'f events) \<Rightarrow> nat list \<Rightarrow> 'f events \<Rightarrow> fault + 'f events" where
  "dispatch call [] st = Inr st"
| "dispatch call (p # ps) st =
     bind_r (case ev_heap st p of
         None \<Rightarrow> Inr st
       | Some h \<Rightarrow> if eh_source h then event_handle_callback call p st else Inr st) (dispatch call ps)"

text \<open>Whether the event that is waited for has fired or has been released.\<close>

definition wait_over :: "nat option \<Rightarrow> 'f events \<Rightarrow> fault + bool" where
  "wait_over wait_eh st =
     (case wait_eh of
        None \<Rightarrow> Inr False
      | Some p \<Rightarrow> map_r (\<lambda>h. if eh_type h = EV_WAIT then eh_is_dead h else eh_has_fired h) (deref p st))"

text \<open>\<open>None\<close> when the loop has not ended after the iterations that are given.\<close>

fun loop_iterations ::
    "('f \<Rightarrow> 'f events \<Rightarrow> fault + 'f events) \<Rightarrow> nat option \<Rightarrow> bool \<Rightarrow> bool \<Rightarrow> nat list list \<Rightarrow> 'f events \<Rightarrow>
     fault + 'f events option" where
  "loop_iterations call wait_eh nonblock return_when_empty its st =
     bind_r (flush_dead_events wait_eh st) (\<lambda>st.
     bind_r (any_mainloop_events (ev_all st) st) (\<lambda>any.
       if return_when_empty \<and> \<not> any then Inr (Some st)
       else
         case its of
           [] \<Rightarrow> Inr None
         | ready # its \<Rightarrow>
             bind_r (dispatch call ready st) (\<lambda>st.
               if \<not> return_when_empty \<and> ev_stop st then Inr (Some st)
               else
                 bind_r (wait_over wait_eh st) (\<lambda>over.
                   if over \<or> nonblock then Inr (Some st)
                   else loop_iterations call wait_eh nonblock return_when_empty its st))))"

definition event_loop_wait ::
    "('f \<Rightarrow> 'f events \<Rightarrow> fault + 'f events) \<Rightarrow> nat option \<Rightarrow> bool \<Rightarrow> bool \<Rightarrow> nat list list \<Rightarrow> 'f events \<Rightarrow>
     fault + 'f events option" where
  "event_loop_wait call wait_eh nonblock return_when_empty its st =
     bind_r (case wait_eh of None \<Rightarrow> Inr st | Some p \<Rightarrow> upd_handle p (\<lambda>h. h\<lparr>eh_has_fired := False\<rparr>) st) (\<lambda>st.
     bind_r (loop_iterations call wait_eh nonblock return_when_empty its st) (\<lambda>r.
       case r of None \<Rightarrow> Inr None | Some st \<Rightarrow> map_r Some (flush_dead_events None st)))"

definition event_loop where
  "event_loop call nonblock = event_loop_wait call None nonblock True"

definition event_loop_run where
  "event_loop_run call its st = event_loop_wait call None False False its (st\<lparr>ev_stop := False\<rparr>)"

definition event_loop_quit :: "'f events \<Rightarrow> 'f events" where
  "event_loop_quit st = st\<lparr>ev_stop := True\<rparr>"

definition event_wait where
  "event_wait call p = event_loop_wait call (Some p) False True"

section \<open>What holds of the events\<close>

text \<open>Every event in the list is allocated and there once, and an event with a source is in the list.\<close>

definition ev_ok :: "'f events \<Rightarrow> bool" where
  "ev_ok st \<longleftrightarrow>
     distinct (ev_all st) \<and> (\<forall>p \<in> set (ev_all st). ev_heap st p \<noteq> None) \<and> (\<forall>p \<ge> ev_fresh st. ev_heap st p = None) \<and>
     (\<forall>p h. ev_heap st p = Some h \<and> eh_source h \<longrightarrow> p \<in> set (ev_all st))"

text \<open>No event is freed, leaves the list, comes back to life or forgets that it has fired.\<close>

definition same_event :: "'f event_handle \<Rightarrow> 'f event_handle \<Rightarrow> bool" where
  "same_event h h' \<longleftrightarrow>
     eh_type h' = eh_type h \<and> eh_data h' = eh_data h \<and> (eh_is_dead h \<longrightarrow> eh_is_dead h') \<and> (eh_has_fired h \<longrightarrow> eh_has_fired h')"

definition kept :: "'f events \<Rightarrow> 'f events \<Rightarrow> bool" where
  "kept st st' \<longleftrightarrow>
     (\<forall>p h. ev_heap st p = Some h \<longrightarrow> (\<exists>h'. ev_heap st' p = Some h' \<and> same_event h h')) \<and> set (ev_all st) \<subseteq> set (ev_all st')"

text \<open>Callbacks that only create, activate, release and wake up events are of this kind; one that runs the loop is not.\<close>

definition orderly :: "('f \<Rightarrow> 'f events \<Rightarrow> fault + 'f events) \<Rightarrow> bool" where
  "orderly call \<longleftrightarrow> (\<forall>f st st'. ev_ok st \<longrightarrow> call f st = Inr st' \<longrightarrow> ev_ok st' \<and> kept st st')"

lemma same_event_refl [simp]: "same_event h h"
  by (simp add: same_event_def)

lemma kept_refl [simp]: "kept st st"
  by (simp add: kept_def)

lemma same_event_trans: "same_event h h' \<Longrightarrow> same_event h' h'' \<Longrightarrow> same_event h h''"
  by (simp add: same_event_def)

lemma keptD: "kept st st' \<Longrightarrow> ev_heap st p = Some h \<Longrightarrow> \<exists>h'. ev_heap st' p = Some h' \<and> same_event h h'"
  by (simp add: kept_def)

lemma kept_trans:
  assumes "kept st st'" "kept st' st''"
  shows "kept st st''"
  unfolding kept_def
proof (intro conjI allI impI)
  fix p h
  assume "ev_heap st p = Some h"
  then obtain h' where h': "ev_heap st' p = Some h'" "same_event h h'" using keptD [OF assms(1)] by blast
  then obtain h'' where "ev_heap st'' p = Some h''" "same_event h' h''" using keptD [OF assms(2)] by blast
  with h'(2) show "\<exists>h''. ev_heap st'' p = Some h'' \<and> same_event h h''" using same_event_trans by blast
next
  show "set (ev_all st) \<subseteq> set (ev_all st'')" using assms unfolding kept_def by blast
qed

lemma deref_Some: "ev_heap st p = Some h \<Longrightarrow> deref p st = Inr h"
  by (simp add: deref_def)

lemma deref_eq_Inr: "deref p st = Inr h \<longleftrightarrow> ev_heap st p = Some h"
  by (simp add: deref_def split: option.split)

lemma upd_handle_ok:
  assumes "ev_ok st" "ev_heap st p = Some h" "\<And>h. same_event h (g h)" "\<And>h. eh_source (g h) = eh_source h"
  obtains st' where "upd_handle p g st = Inr st'" "ev_ok st'" "kept st st'" "ev_heap st' p = Some (g h)" "ev_all st' = ev_all st"
proof -
  define st' where "st' = st\<lparr>ev_heap := (ev_heap st)(p \<mapsto> g h)\<rparr>"
  have "upd_handle p g st = Inr st'" using assms(2) by (simp add: upd_handle_def deref_def st'_def)
  moreover have "ev_ok st'"
    using assms(1,2,4) unfolding ev_ok_def st'_def by (auto split: if_splits)
  moreover have "kept st st'" using assms(2,3) by (auto simp: kept_def st'_def)
  ultimately show thesis by (rule that) (simp_all add: st'_def)
qed

text \<open>Firing an event that is allocated fails only where its callback fails.\<close>

lemma fire_ok:
  assumes "orderly call" "ev_ok st" "ev_heap st p = Some h"
  shows "case fire call p st of
      Inl e \<Rightarrow> call (eh_fn h) st = Inl e
    | Inr st' \<Rightarrow> ev_ok st' \<and> kept st st' \<and> (\<exists>h'. ev_heap st' p = Some h' \<and> eh_has_fired h')"
proof (cases "call (eh_fn h) st")
  case (Inr st1)
  then have ok: "ev_ok st1" "kept st st1" using assms(1,2) by (auto simp: orderly_def)
  then obtain h1 where h1: "ev_heap st1 p = Some h1" using keptD assms(3) by blast
  obtain st' where "upd_handle p (\<lambda>h. h\<lparr>eh_has_fired := True\<rparr>) st1 = Inr st'" "ev_ok st'" "kept st1 st'"
      "ev_heap st' p = Some (h1\<lparr>eh_has_fired := True\<rparr>)"
    by (rule upd_handle_ok [OF ok(1) h1, of "\<lambda>h. h\<lparr>eh_has_fired := True\<rparr>"]) (simp_all add: same_event_def)
  then show ?thesis using Inr assms(3) kept_trans [OF ok(2)] by (simp add: fire_def deref_Some)
qed (simp add: fire_def deref_Some [OF assms(3)])

section \<open>Waking up\<close>

lemma find_waiting_filter:
  "\<forall>p \<in> set ps. ev_heap st p \<noteq> None \<Longrightarrow>
    find_waiting i ps st = Inr (filter (\<lambda>p. wakes_up_for i (the (ev_heap st p))) ps)"
  by (induction ps) (auto simp: deref_def)

lemma fire_waiting_ok:
  assumes "orderly call" "ev_ok st" "\<forall>p \<in> set ps. ev_heap st p \<noteq> None"
    "\<forall>p \<in> set ps. wakes_up_for i (the (ev_heap st p)) \<or> eh_is_dead (the (ev_heap st p))"
  shows "case fire_waiting call i ps (n, st) of
      Inl e \<Rightarrow> (\<exists>f st1. ev_ok st1 \<and> call f st1 = Inl e)
    | Inr (m, st') \<Rightarrow> ev_ok st' \<and> kept st st' \<and> n \<le> m \<and> m \<le> n + length ps \<and>
        (\<forall>p \<in> set ps. \<exists>h. ev_heap st' p = Some h \<and> (eh_has_fired h \<or> eh_is_dead h))"
  using assms(2-4)
proof (induction ps arbitrary: n st)
  case (Cons p ps)
  obtain h where h: "ev_heap st p = Some h" using Cons.prems(2) by auto
  have keep: "\<forall>q \<in> set ps. ev_heap st1 q \<noteq> None" "\<forall>q \<in> set ps. wakes_up_for i (the (ev_heap st1 q)) \<or> eh_is_dead (the (ev_heap st1 q))"
    if k: "kept st st1" for st1
  proof -
    have "\<exists>h'. ev_heap st1 q = Some h' \<and> same_event (the (ev_heap st q)) h'" if "q \<in> set ps" for q
    proof -
      from that Cons.prems(2) obtain hq where "ev_heap st q = Some hq" by auto
      with keptD [OF k this] show ?thesis by simp
    qed
    then show "\<forall>q \<in> set ps. ev_heap st1 q \<noteq> None"
        "\<forall>q \<in> set ps. wakes_up_for i (the (ev_heap st1 q)) \<or> eh_is_dead (the (ev_heap st1 q))"
      using Cons.prems(3) by (fastforce simp: same_event_def wakes_up_for_def)+
  qed
  show ?case
  proof (cases "wakes_up_for i h")
    case True
    note f = fire_ok [OF assms(1) Cons.prems(1) h]
    show ?thesis
    proof (cases "fire call p st")
      case (Inr st1)
      with f have ok: "ev_ok st1" "kept st st1" "\<exists>h'. ev_heap st1 p = Some h' \<and> eh_has_fired h'" by simp_all
      note IH = Cons.IH [OF ok(1) keep [OF ok(2)], of "n + 1"]
      show ?thesis
        using IH True h Inr ok kept_trans [OF ok(2)]
        by (auto simp: deref_Some kept_def same_event_def split: sum.splits; blast)
    qed (use f True h Cons.prems(1) in \<open>auto simp: deref_Some\<close>)
  next
    case False
    then have "eh_is_dead h" using Cons.prems(3) h by simp
    then show ?thesis
      using Cons.IH [OF Cons.prems(1) keep [OF kept_refl], of n] False h
      by (auto simp: deref_Some kept_def same_event_def split: sum.splits; blast)
  qed
qed simp

definition to_wake :: "int \<Rightarrow> 'f events \<Rightarrow> nat list" where
  "to_wake i st = filter (\<lambda>p. wakes_up_for i (the (ev_heap st p))) (ev_all st)"


section \<open>The loop\<close>

definition dead_in :: "'f events \<Rightarrow> nat \<Rightarrow> bool" where
  "dead_in st p \<longleftrightarrow> (case ev_heap st p of None \<Rightarrow> False | Some h \<Rightarrow> eh_is_dead h)"

lemma flush_list_filter:
  assumes "distinct ps" "\<forall>p \<in> set ps. ev_heap st p \<noteq> None"
  shows "flush_list w ps st = Inr (filter (\<lambda>p. \<not> dead_in st p \<or> Some p = w) ps,
    st\<lparr>ev_heap := \<lambda>p. if p \<in> set ps \<and> dead_in st p \<and> Some p \<noteq> w then None else ev_heap st p\<rparr>)"
  using assms
proof (induction ps arbitrary: st)
  case Nil
  then show ?case by simp
next
  case (Cons p ps)
  obtain h where h: "ev_heap st p = Some h" using Cons.prems(2) by auto
  show ?case
  proof (cases "eh_is_dead h \<and> Some p \<noteq> w")
    case True
    let ?st1 = "st\<lparr>ev_heap := (ev_heap st)(p := None)\<rparr>"
    have d: "dead_in ?st1 q = dead_in st q" if "q \<in> set ps" for q
      using that Cons.prems(1) by (auto simp: dead_in_def)
    have f: "filter (\<lambda>q. \<not> dead_in ?st1 q \<or> Some q = w) ps = filter (\<lambda>q. \<not> dead_in st q \<or> Some q = w) ps"
      by (rule filter_cong) (simp_all add: d)
    have "flush_list w ps ?st1 = Inr (filter (\<lambda>q. \<not> dead_in ?st1 q \<or> Some q = w) ps,
        ?st1\<lparr>ev_heap := \<lambda>q. if q \<in> set ps \<and> dead_in ?st1 q \<and> Some q \<noteq> w then None else ev_heap ?st1 q\<rparr>)"
      by (rule Cons.IH) (use Cons.prems in auto)
    moreover have dp: "dead_in st p" using True h by (simp add: dead_in_def)
    moreover have "(\<lambda>q. if q \<in> set ps \<and> dead_in ?st1 q \<and> Some q \<noteq> w then None else ev_heap ?st1 q) =
        (\<lambda>q. if q \<in> set (p # ps) \<and> dead_in st q \<and> Some q \<noteq> w then None else ev_heap st q)"
    proof
      fix q
      show "(if q \<in> set ps \<and> dead_in ?st1 q \<and> Some q \<noteq> w then None else ev_heap ?st1 q) =
          (if q \<in> set (p # ps) \<and> dead_in st q \<and> Some q \<noteq> w then None else ev_heap st q)"
        using True dp d [of q] by (cases "q = p"; cases "q \<in> set ps") simp_all
    qed
    ultimately show ?thesis
      using True f by (simp add: deref_Some [OF h])
  next
    case False
    then have "\<not> dead_in st p \<or> Some p = w" using h by (auto simp: dead_in_def)
    moreover have "flush_list w ps st = Inr (filter (\<lambda>q. \<not> dead_in st q \<or> Some q = w) ps,
        st\<lparr>ev_heap := \<lambda>q. if q \<in> set ps \<and> dead_in st q \<and> Some q \<noteq> w then None else ev_heap st q\<rparr>)"
      by (rule Cons.IH) (use Cons.prems in auto)
    moreover have "(\<lambda>q. if q \<in> set ps \<and> dead_in st q \<and> Some q \<noteq> w then None else ev_heap st q) =
        (\<lambda>q. if q \<in> set (p # ps) \<and> dead_in st q \<and> Some q \<noteq> w then None else ev_heap st q)"
      using \<open>\<not> dead_in st p \<or> Some p = w\<close> by (auto simp: fun_eq_iff)
    ultimately show ?thesis using False by (auto simp: deref_Some [OF h])
  qed
qed

lemma flush_ok:
  assumes "ev_ok st"
  obtains st' where "flush_dead_events w st = Inr st'" "ev_ok st'"
    "ev_all st' = filter (\<lambda>p. \<not> dead_in st p \<or> Some p = w) (ev_all st)"
    "ev_heap st' = (\<lambda>p. if p \<in> set (ev_all st) \<and> dead_in st p \<and> Some p \<noteq> w then None else ev_heap st p)"
    "ev_stop st' = ev_stop st"
proof -
  define st' where "st' = st\<lparr>ev_all := filter (\<lambda>p. \<not> dead_in st p \<or> Some p = w) (ev_all st),
      ev_heap := \<lambda>p. if p \<in> set (ev_all st) \<and> dead_in st p \<and> Some p \<noteq> w then None else ev_heap st p\<rparr>"
  have "flush_dead_events w st = Inr st'"
    using flush_list_filter [of "ev_all st" st w] assms by (simp add: flush_dead_events_def ev_ok_def st'_def)
  moreover have "ev_ok st'" using assms unfolding ev_ok_def st'_def by (auto split: if_splits)
  ultimately show thesis by (rule that) (simp_all add: st'_def)
qed

lemma any_mainloop_ok:
  "\<forall>p \<in> set ps. ev_heap st p \<noteq> None \<Longrightarrow>
    any_mainloop_events ps st = Inr (\<exists>p \<in> set ps. eh_type (the (ev_heap st p)) \<noteq> EV_WAIT)"
  by (induction ps) (auto simp: deref_def)

lemma dispatch_ok:
  assumes "orderly call" "ev_ok st"
  shows "case dispatch call ready st of
      Inl e \<Rightarrow> (\<exists>f st1. ev_ok st1 \<and> call f st1 = Inl e)
    | Inr st' \<Rightarrow> ev_ok st' \<and> kept st st'"
  using assms(2)
proof (induction ready arbitrary: st)
  case (Cons p ready)
  show ?case
  proof (cases "\<exists>h. ev_heap st p = Some h \<and> eh_source h \<and> \<not> eh_is_dead h")
    case True
    then obtain h where h: "ev_heap st p = Some h" "eh_source h" "\<not> eh_is_dead h" by blast
    note f = fire_ok [OF assms(1) Cons.prems h(1)]
    show ?thesis
    proof (cases "fire call p st")
      case (Inr st1)
      with f have ok: "ev_ok st1" "kept st st1" by simp_all
      show ?thesis
        using Cons.IH [OF ok(1)] Inr h kept_trans [OF ok(2)]
        by (auto simp: event_handle_callback_def deref_Some split: sum.splits)
    qed (use f h Cons.prems in \<open>auto simp: event_handle_callback_def deref_Some\<close>)
  next
    case False
    then have "dispatch call (p # ready) st = dispatch call ready st"
      by (auto simp: event_handle_callback_def deref_def split: option.split)
    then show ?thesis using Cons.IH [OF Cons.prems] by simp
  qed
qed simp

declare loop_iterations.simps [simp del]

definition only_waits :: "'f events \<Rightarrow> bool" where
  "only_waits st \<longleftrightarrow> (\<forall>q \<in> set (ev_all st). eh_type (the (ev_heap st q)) = EV_WAIT)"

text \<open>The event that is waited for is in the list whenever the loop looks at it.\<close>

lemma loop_iterations_ok:
  assumes "orderly call" "ev_ok st" "\<forall>p. w = Some p \<longrightarrow> p \<in> set (ev_all st)"
  shows "case loop_iterations call w nonblock rwe its st of
      Inl e \<Rightarrow> (\<exists>f st1. ev_ok st1 \<and> call f st1 = Inl e)
    | Inr None \<Rightarrow> True
    | Inr (Some st') \<Rightarrow> ev_ok st' \<and> (\<forall>p. w = Some p \<longrightarrow> p \<in> set (ev_all st')) \<and>
        (rwe \<and> only_waits st' \<or> \<not> rwe \<and> ev_stop st' \<or> nonblock \<or> wait_over w st' = Inr True)"
  using assms(2,3)
proof (induction its arbitrary: st)
  case (Nil st)
  obtain s1 where f: "flush_dead_events w st = Inr s1" "ev_ok s1"
      "ev_all s1 = filter (\<lambda>p. \<not> dead_in st p \<or> Some p = w) (ev_all st)"
    using flush_ok [OF Nil.prems(1), of w] by metis
  have "any_mainloop_events (ev_all s1) s1 = Inr (\<not> only_waits s1)"
    using any_mainloop_ok [of "ev_all s1" s1] f(2) by (simp add: ev_ok_def only_waits_def)
  moreover have "\<forall>p. w = Some p \<longrightarrow> p \<in> set (ev_all s1)" using f(3) Nil.prems(2) by auto
  ultimately show ?case using f(1,2) by (subst loop_iterations.simps) simp
next
  case (Cons ready its)
  obtain s1 where f: "flush_dead_events w st = Inr s1" "ev_ok s1"
      "ev_all s1 = filter (\<lambda>p. \<not> dead_in st p \<or> Some p = w) (ev_all st)"
    using flush_ok [OF Cons.prems(1), of w] by metis
  have any: "any_mainloop_events (ev_all s1) s1 = Inr (\<not> only_waits s1)"
    using any_mainloop_ok [of "ev_all s1" s1] f(2) by (simp add: ev_ok_def only_waits_def)
  have w1: "\<forall>p. w = Some p \<longrightarrow> p \<in> set (ev_all s1)" using f(3) Cons.prems(2) by auto
  show ?case
  proof (cases "rwe \<and> only_waits s1")
    case True
    then show ?thesis using f(1,2) any w1 by (subst loop_iterations.simps) simp
  next
    case False
    note d = dispatch_ok [OF assms(1) f(2), of ready]
    show ?thesis
    proof (cases "dispatch call ready s1")
      case (Inl e)
      then show ?thesis using f(1) any d False by (subst loop_iterations.simps) auto
    next
      case (Inr s2)
      with d have ok: "ev_ok s2" "kept s1 s2" by simp_all
      then have w2: "\<forall>p. w = Some p \<longrightarrow> p \<in> set (ev_all s2)" using w1 unfolding kept_def by blast
      have "\<exists>b. wait_over w s2 = Inr b"
      proof (cases w)
        case (Some p)
        with w2 ok(1) obtain h where "ev_heap s2 p = Some h" unfolding ev_ok_def by blast
        with Some show ?thesis by (simp add: wait_over_def deref_Some)
      qed (auto simp: wait_over_def)
      then obtain b where b: "wait_over w s2 = Inr b" ..
      have eq: "loop_iterations call w nonblock rwe (ready # its) st =
          (if \<not> rwe \<and> ev_stop s2 then Inr (Some s2)
           else if b \<or> nonblock then Inr (Some s2) else loop_iterations call w nonblock rwe its s2)"
        using f(1) any False Inr b by (subst loop_iterations.simps) auto
      show ?thesis
      proof (cases "(\<not> rwe \<and> ev_stop s2) \<or> b \<or> nonblock")
        case True
        then have "loop_iterations call w nonblock rwe (ready # its) st = Inr (Some s2)" by (auto simp: eq)
        then show ?thesis using True ok w2 b by auto
      next
        case False
        then have "loop_iterations call w nonblock rwe (ready # its) st = loop_iterations call w nonblock rwe its s2"
          by (intro trans [OF eq]) (use False in auto)
        then show ?thesis using Cons.IH [OF ok(1) w2] by (simp only:)
      qed
    qed
  qed
qed

text \<open>C15: \<open>event_wait\<close> fails only where a callback fails. When it returns, there is nothing left the main loop could dispatch, or the event it
  waits for has fired, or that event was released and is freed; the list then holds no released event, and every event in it is
  allocated. That is for callbacks that do not run the loop themselves.\<close>

theorem event_wait_returns:
  assumes "orderly call" "ev_ok st" "p \<in> set (ev_all st)"
  shows "case event_wait call p its st of
      Inl e \<Rightarrow> (\<exists>f st1. ev_ok st1 \<and> call f st1 = Inl e)
    | Inr None \<Rightarrow> True
    | Inr (Some st') \<Rightarrow> ev_ok st' \<and> (\<forall>q \<in> set (ev_all st'). \<not> dead_in st' q) \<and>
        (only_waits st' \<or> (case ev_heap st' p of None \<Rightarrow> True | Some h \<Rightarrow> eh_type h \<noteq> EV_WAIT \<and> eh_has_fired h))"
proof -
  obtain h where h: "ev_heap st p = Some h" using assms(2,3) by (auto simp: ev_ok_def)
  define s0 where "s0 = st\<lparr>ev_heap := (ev_heap st)(p \<mapsto> h\<lparr>eh_has_fired := False\<rparr>)\<rparr>"
  have s0: "upd_handle p (\<lambda>h. h\<lparr>eh_has_fired := False\<rparr>) st = Inr s0"
    by (simp add: upd_handle_def deref_Some [OF h] s0_def)
  have ok: "ev_ok s0" using assms(2) h unfolding ev_ok_def s0_def by (auto split: if_splits)
  have "\<forall>q. Some p = Some q \<longrightarrow> q \<in> set (ev_all s0)" using assms(3) by (simp add: s0_def)
  note l = loop_iterations_ok [OF assms(1) ok this, where nonblock = False and rwe = True and its = its]
  show ?thesis
  proof (cases "loop_iterations call (Some p) False True its s0")
    case (Inr r)
    show ?thesis
    proof (cases r)
      case (Some s1)
      with l Inr have s1: "ev_ok s1" "p \<in> set (ev_all s1)" "only_waits s1 \<or> wait_over (Some p) s1 = Inr True" by simp_all
      obtain st' where st': "flush_dead_events None s1 = Inr st'" "ev_ok st'"
          "ev_all st' = filter (\<lambda>q. \<not> dead_in s1 q \<or> Some q = None) (ev_all s1)"
          "ev_heap st' = (\<lambda>q. if q \<in> set (ev_all s1) \<and> dead_in s1 q \<and> Some q \<noteq> None then None else ev_heap s1 q)"
          "ev_stop st' = ev_stop s1"
        by (rule flush_ok [OF s1(1), of None])
      have "\<forall>q \<in> set (ev_all st'). \<not> dead_in st' q" unfolding dead_in_def st'(3,4) by simp
      moreover have "only_waits st'" if "only_waits s1" using that unfolding only_waits_def st'(3,4) by simp
      moreover have "case ev_heap st' p of None \<Rightarrow> True | Some h \<Rightarrow> eh_type h \<noteq> EV_WAIT \<and> eh_has_fired h"
        if "wait_over (Some p) s1 = Inr True"
      proof -
        have "\<exists>h1. ev_heap s1 p = Some h1 \<and> (if eh_type h1 = EV_WAIT then eh_is_dead h1 else eh_has_fired h1)"
          using that by (simp add: wait_over_def map_r_eq_Inr_iff deref_eq_Inr)
        then obtain h1 where h1: "ev_heap s1 p = Some h1" "if eh_type h1 = EV_WAIT then eh_is_dead h1 else eh_has_fired h1"
          by blast
        then have "ev_heap st' p = (if eh_is_dead h1 then None else Some h1)" using s1(2) st'(4) by (simp add: dead_in_def)
        with h1(2) show ?thesis by (simp split: if_splits)
      qed
      ultimately show ?thesis
        using s1(3) st'(1,2) Inr Some by (auto simp: event_wait_def event_loop_wait_def s0)
    qed (use Inr in \<open>simp add: event_wait_def event_loop_wait_def s0\<close>)
  qed (use l in \<open>simp add: event_wait_def event_loop_wait_def s0\<close>)
qed

section \<open>A callback that runs the loop\<close>

text \<open>A callback that gets the place of its handle, releases it and runs the loop once, without blocking, when nothing is ready.\<close>

definition release_and_loop :: "nat \<Rightarrow> nat events \<Rightarrow> fault + nat events" where
  "release_and_loop p st =
     bind_r (event_release p st) (\<lambda>st.
       map_r (\<lambda>r. case r of None \<Rightarrow> st | Some st' \<Rightarrow> st') (event_loop (\<lambda>_. Inr) True [[]] st))"

lemma nested_loop_frees:
  assumes "ev_ok st" "p \<in> set (ev_all st)" "dead_in st p"
  obtains st' where "event_loop (\<lambda>_. Inr) True [[]] st = Inr (Some st')" "ev_heap st' p = None"
proof -
  obtain s1 where f1: "flush_dead_events None st = Inr s1" "ev_ok s1"
      "ev_all s1 = filter (\<lambda>q. \<not> dead_in st q \<or> Some q = None) (ev_all st)"
      "ev_heap s1 = (\<lambda>q. if q \<in> set (ev_all st) \<and> dead_in st q \<and> Some q \<noteq> None then None else ev_heap st q)"
      "ev_stop s1 = ev_stop st"
    by (rule flush_ok [OF assms(1), of None])
  obtain s2 where f2: "flush_dead_events None s1 = Inr s2" "ev_ok s2"
      "ev_all s2 = filter (\<lambda>q. \<not> dead_in s1 q \<or> Some q = None) (ev_all s1)"
      "ev_heap s2 = (\<lambda>q. if q \<in> set (ev_all s1) \<and> dead_in s1 q \<and> Some q \<noteq> None then None else ev_heap s1 q)"
      "ev_stop s2 = ev_stop s1"
    by (rule flush_ok [OF f1(2), of None])
  have any: "any_mainloop_events (ev_all s1) s1 = Inr (\<not> only_waits s1)"
    using any_mainloop_ok [of "ev_all s1" s1] f1(2) by (simp add: ev_ok_def only_waits_def)
  have "loop_iterations (\<lambda>_. Inr) None True True [[]] st = Inr (Some s1)"
    using f1(1) any by (subst loop_iterations.simps) (simp add: wait_over_def)
  then have "event_loop (\<lambda>_. Inr) True [[]] st = Inr (Some s2)"
    using f2(1) by (simp add: event_loop_def event_loop_wait_def)
  moreover have "ev_heap s1 p = None" using assms(2,3) by (simp add: f1(4))
  then have "ev_heap s2 p = None" by (simp add: f2(4))
  ultimately show thesis by (rule that)
qed

text \<open>When the callback of an event releases the event and runs the loop, the loop frees the handle, and the mark that the event has
  fired is then written to memory that was freed, whatever the other events are.\<close>

theorem fire_after_free:
  assumes "ev_ok st" "p \<in> set (ev_all st)" "ev_heap st p = Some h" "\<not> eh_is_dead h" "eh_fn h = p"
  shows "event_handle_callback release_and_loop p st = Inl Out_of_bounds"
proof -
  obtain s1 where s1: "upd_handle p (\<lambda>h. h\<lparr>eh_is_dead := True\<rparr>) st = Inr s1" "ev_ok s1" "kept st s1"
      "ev_heap s1 p = Some (h\<lparr>eh_is_dead := True\<rparr>)" "ev_all s1 = ev_all st"
    by (rule upd_handle_ok [OF assms(1,3), of "\<lambda>h. h\<lparr>eh_is_dead := True\<rparr>"]) (simp_all add: same_event_def)
  have "p \<in> set (ev_all s1)" "dead_in s1 p" using assms(2) s1(4,5) by (simp_all add: dead_in_def)
  then obtain s2 where s2: "event_loop (\<lambda>_. Inr) True [[]] s1 = Inr (Some s2)" "ev_heap s2 p = None"
    using nested_loop_frees [OF s1(2)] by blast
  have "event_release p st = Inr s1" using assms(4) s1(1) by (simp add: event_release_def deref_Some [OF assms(3)])
  then have "release_and_loop p st = Inr s2" using s2(1) by (simp add: release_and_loop_def)
  then show ?thesis
    using assms(3-5) s2(2) by (simp add: event_handle_callback_def fire_def upd_handle_def deref_def)
qed

text \<open>One event that waits for the id 5.\<close>

definition ex_events :: "nat events" where
  "ex_events = \<lparr>ev_heap = [0 \<mapsto> \<lparr>eh_fn = 0, eh_type = EV_WAIT, eh_data = 5, eh_source = False, eh_has_fired = False, eh_is_dead = False\<rparr>],
     ev_fresh = 1, ev_all = [0], ev_stop = False\<rparr>"

lemma ex_events_ok: "ev_ok ex_events"
  by (simp add: ev_ok_def ex_events_def)

theorem fire_after_free_witness: "event_handle_callback release_and_loop 0 ex_events = Inl Out_of_bounds"
  by (rule fire_after_free [OF ex_events_ok, of 0
        "\<lparr>eh_fn = 0, eh_type = EV_WAIT, eh_data = 5, eh_source = False, eh_has_fired = False, eh_is_dead = False\<rparr>"])
     (simp_all add: ex_events_def)

text \<open>Callbacks that release their events are orderly.\<close>

lemma release_orderly: "orderly event_release"
  unfolding orderly_def
proof (intro allI impI)
  fix p :: nat and st st' :: "nat events"
  assume ok: "ev_ok st" and r: "event_release p st = Inr st'"
  then obtain h where h: "ev_heap st p = Some h" "\<not> eh_is_dead h" "upd_handle p (\<lambda>h. h\<lparr>eh_is_dead := True\<rparr>) st = Inr st'"
    by (auto simp: event_release_def bind_r_eq_Inr_iff deref_eq_Inr split: if_splits)
  obtain s1 where "upd_handle p (\<lambda>h. h\<lparr>eh_is_dead := True\<rparr>) st = Inr s1" "ev_ok s1" "kept st s1"
      "ev_heap s1 p = Some (h\<lparr>eh_is_dead := True\<rparr>)" "ev_all s1 = ev_all st"
    by (rule upd_handle_ok [OF ok h(1), of "\<lambda>h. h\<lparr>eh_is_dead := True\<rparr>"]) (simp_all add: same_event_def)
  then show "ev_ok st' \<and> kept st st'" using h(3) by simp
qed

text \<open>Registering an event keeps the order too, and gives a handle that was not there.\<close>

lemma register_ok:
  assumes "ev_ok st" "event_register fd_setsize data type fn st = Inr (p, st')"
  shows "ev_ok st'" "kept st st'" "ev_heap st p = None" "ev_all st' = p # ev_all st"
proof -
  have p: "p = ev_fresh st" and st': "st' = st\<lparr>ev_heap := (ev_heap st)(p \<mapsto>
      \<lparr>eh_fn = fn, eh_type = type, eh_data = data, eh_source = (type \<noteq> EV_WAIT), eh_has_fired = False, eh_is_dead = False\<rparr>),
      ev_fresh := p + 1, ev_all := p # ev_all st\<rparr>"
    using assms(2) by (auto simp: event_register_def event_create_def event_activate_def upd_handle_def deref_def Let_def split: if_splits)
  show none: "ev_heap st p = None" using assms(1) by (simp add: ev_ok_def p)
  then have "p \<notin> set (ev_all st)" using assms(1) unfolding ev_ok_def by blast
  then show "ev_ok st'" using assms(1) unfolding ev_ok_def st' by (auto simp: p split: if_splits)
  show "kept st st'" using none by (auto simp: kept_def st')
  show "ev_all st' = p # ev_all st" by (simp add: st')
qed

lemmas event_ops = event_wakeup_def fire_def deref_def upd_handle_def event_release_def wakes_up_for_def event_handle_callback_def


definition ex_timer :: "nat events" where
  "ex_timer = \<lparr>ev_heap = [0 \<mapsto> \<lparr>eh_fn = 0, eh_type = EV_TIME, eh_data = 3, eh_source = True, eh_has_fired = False, eh_is_dead = False\<rparr>],
     ev_fresh = 1, ev_all = [0], ev_stop = False\<rparr>"

theorem event_wait_returns_witness:
  "\<exists>st'. event_wait event_release 0 [[], [0]] ex_timer = Inr (Some st') \<and> ev_ok st' \<and> ev_heap st' 0 = None"
proof -
  have ok: "ev_ok ex_timer" "0 \<in> set (ev_all ex_timer)" by (simp_all add: ev_ok_def ex_timer_def)
  obtain st' where "event_wait event_release 0 [[], [0]] ex_timer = Inr (Some st')" "ev_heap st' 0 = None"
    by (simp add: event_ops event_wait_def event_loop_wait_def loop_iterations.simps flush_dead_events_def wait_over_def ex_timer_def)
  then show ?thesis using event_wait_returns [OF release_orderly ok, of "[[], [0]]"] by simp
qed

end
