(* ===== verification/Spec2Isabelle.thy ===== *)
theory Spec2Isabelle
  imports Quoting Fileheader Rait_Correct Amar_Read Xfer Protocol Tapelist Features Driver_Choice Tapefile Planner_Ends Planner_Answers Amandates Ipc_Binary Events
begin

text \<open>
  Verification development of Amanda, the Advanced Maryland Automatic Network Disk Archiver.

  \<^bold>\<open>The program.\<close> Amanda backs up a network of hosts to one server. The server's planner asks the clients
  for estimates over the request protocol (\<open>common-src/protocol.c\<close>), the driver orders dumps and hands
  them to dumpers and tapers, and the taper moves each dump with a transfer (\<open>xfer-src\<close>), a chain of
  elements, onto a device (\<open>device-src\<close>). A device may be a RAIT, an array of other devices with
  parity. What is on which tape is kept in tape lists, a dump may be stored in an archive with named
  attributes (\<open>amar-src\<close>), and the programs talk in quoted lines of text, in binary messages and in packets
  whose features the hosts negotiate (\<open>common-src\<close>). The planner chooses a level for each disk, fits the dumps
  onto the tapes and prints the schedule, which the driver reads; the tapes are in the tape file and what is
  known of the earlier dumps in the info database (\<open>server-src\<close>).

  \<^bold>\<open>The parts modelled, and where.\<close>

  \<^item> \<open>Amanda_Prelude\<close>: the failure values, results, decimal text and the interfaces. \<open>text_codec\<close> and
    \<open>line_codec\<close> are the contract of a printer and its reader, \<open>guarded_system\<close> of a state machine that
    keeps an invariant, \<open>metered_system\<close> of one whose actions use up a budget.
  \<^item> \<open>Quoting\<close> (\<open>common-src/util.c\<close>): \<open>quote_string\<close>, \<open>unquote_string\<close>, \<open>split_quoted_strings\<close>,
    \<open>hexencode_string\<close>, \<open>hexdecode_string\<close>, \<open>sanitise_filename\<close>'s relative \<open>sanitize_string\<close> and the braced
    alternates. Each printer and reader is a codec; a line of quoted strings is a line codec.
  \<^item> \<open>Fileheader\<close> (\<open>common-src/fileheader.c\<close>): the dump header as a record, its initialisation and comparison.
  \<^item> \<open>Device\<close> (\<open>device-src/device.c\<close>, \<open>device.h\<close>, \<open>property.h\<close>): the common fields of a device, its method
    table as a record of functions, and the dispatchers with the assertions they make.
  \<^item> \<open>Rait_Parity\<close>, \<open>Rait\<close>, \<open>Rait_Config\<close> (\<open>device-src/rait-device.c\<close>): chunks and parity, the operations on
    an array, its properties. The children are devices of any class: the method table is a parameter.
    \<open>Rait_Read\<close>, \<open>Rait_Status\<close> and \<open>Rait_Correct\<close> hold the theorems: a block read is the block written even
    with one child lost, the status only gets worse, the block size agreed on fits every child.
  \<^item> \<open>Amar_Write\<close>, \<open>Amar_Read\<close> (\<open>amar-src/amar.c\<close>): the records, the writer with its buffer, the reader with
    its callbacks. The position the writer reports is the length of what was written; the records in
    the output are the ones asked for; reading ends on every input.
  \<^item> \<open>Xfer_Link\<close>, \<open>Xfer\<close> (\<open>xfer-src/xfer.c\<close> and the tables of the elements): the search for the cheapest
    chain of mechanisms, and the life of a transfer with its message queue.
  \<^item> \<open>Protocol\<close> (\<open>common-src/packet.c\<close>, \<open>protocol.c\<close>): packets that grow, and the request state machine.
  \<^item> \<open>Tapelist\<close> (\<open>common-src/tapelist.c\<close>) and \<open>Features\<close> (\<open>common-src/amfeatures.c\<close>): the tapes of a dump and
    the sets of features, each with its text form.
  \<^item> \<open>Disklist\<close> (\<open>server-src/diskfile.c\<close>): the doubly linked queues of disks, over a heap of links; they implement
    lists (the locale \<open>queue_family\<close> is the contract).
  \<^item> \<open>Holding_Space\<close> (\<open>server-src/driver.c\<close>): choosing holding disks for a dump and keeping their books.
  \<^item> \<open>Driver\<close>, \<open>Driver_Steps\<close>, \<open>Driver_Handlers\<close> (\<open>server-src/driver.c\<close>, \<open>driverio.c\<close>): the state of the driver, how it
    starts dumps and decides about tapes, and the handlers of the messages of dumpers, chunkers and tapers.
    \<open>Ledger\<close> is the abstract state of its books (which disk runs on which dumper and taper, what it takes of
    its host and interface, where the others wait) with the transactions that keep them right,
    \<open>Driver_Books\<close> reads that ledger off a state of the driver, \<open>Driver_Keeps\<close>, \<open>Driver_Starts\<close>, \<open>Driver_Ends\<close> and
    \<open>Driver_Runs\<close> show that every operation is made of these transactions, and \<open>Driver_Correct\<close> what follows for
    whole runs; \<open>Driver_Choice\<close> is about the choice of the next dump for a taper.
  \<^item> \<open>Lines\<close> and \<open>Tapefile\<close> (\<open>common-src/file.c\<close>, the scanning macros of \<open>amanda.h\<close>, \<open>server-src/tapefile.c\<close>): reading
    lines with quotes, and the list of tapes with its text file. A list that is written is read back, reading
    is sorting by the date, and the tape to use again is the oldest one that may be overwritten.
  \<^item> \<open>Doubles\<close> and \<open>Infofile\<close> (\<open>server-src/infofile.c\<close>): double precision arithmetic as rationals rounded to 53
    bits, and the history of a disk with its average rates and dates.
  \<^item> \<open>Planner\<close>, \<open>Planner_Schedule\<close> (\<open>server-src/planner.c\<close>): the levels asked for and the estimate of a level; the
    analysis of the estimates, the delays and the promotions. \<open>Planner_Requests\<close> shows what a disk asks for,
    \<open>Planner_Correct\<close>, \<open>Planner_Delay\<close>, \<open>Planner_Books\<close>, \<open>Planner_Promote\<close> and \<open>Planner_Ends\<close> that no disk is lost or
    on two queues, that the total is the space of what is scheduled, that the schedule fits on the tapes, that
    the promotions end, and the one place where a delay books less than the dump takes.
  \<^item> \<open>Planner_Asks\<close>, \<open>Planner_Results\<close>, \<open>Planner_Answers\<close> (\<open>planner.c\<close>, \<open>server_util.c\<close>, \<open>validate_optionstr\<close> of
    \<open>diskfile.c\<close>): the requests to a host, the estimates of the server, the answers of a host and the queues
    they move the disks through, up to the analysis.
  \<^item> \<open>Schedule_Text\<close>, \<open>Schedule_Passed\<close> (\<open>output_scheduleline\<close> of \<open>planner.c\<close>, \<open>read_schedule\<close> of \<open>driver.c\<close>): the
    schedule as text. The driver reads back the plan, and its queues hold the disks in the order of the plan.
  \<^item> \<open>Events\<close> (\<open>common-src/event.c\<close>): the events and their loop, over a heap of handles. Waking up fires every event that
    waits, once; no handle is used after it was freed unless a callback runs the loop, and what happens then.
  \<^item> \<open>Amandates\<close> (\<open>client-src/amandates.c\<close>, \<open>client-src/unctime.c\<close>): the dump dates of a client, a sorted list that
    implements a map from disks to dates, with its text file.
  \<^item> \<open>Ipc_Binary\<close> (\<open>common-src/ipc-binary.c\<close>): the protocols, buffers and messages of the binary communication
    between processes. A buffer is a queue of bytes, and a message is read as it was written, in any pieces.

  \<^bold>\<open>How the code is represented.\<close> A C structure is a record, an enumeration a datatype, a machine integer
  whose width matters a word (record sizes, file numbers, status flags, bytes, cost fields); \<open>gsize\<close>
  and \<open>off_t\<close> counters that the code never lets wrap are \<open>nat\<close> or \<open>int\<close>. A C string is a list of
  characters without its NUL, a NULL pointer \<open>None\<close>. Failures are values of type \<open>fault\<close>: a failed
  assertion, an access outside an object, a loop that never ends. A function that changes its object
  returns the changed record. Function pointers (the methods of a device, the callbacks of an archive,
  the setup and cancel methods of an element) are parameters of the definitions that call them.
  Threads appear as steps of a transition relation where their order matters (messages of a
  transfer, packets and timeouts of a request) and as operations in index order where every thread
  works on an object of its own (the children of an array).

  \<^bold>\<open>Bounds and fuel.\<close> Loops over data are structural or have a measure. \<open>amar_read\<close> runs with fuel: every
  round takes a record header of eight bytes, so a round per eight bytes of input, and one more, is
  enough, and \<open>amar_read_terminates\<close> proves it. The machine of a request runs until it waits or answers;
  its rounds are bounded by its own states. The lines of an answer to the planner are taken one by one, with
  the length of the text as measure. The promotions are a partial function, and \<open>Planner_Ends\<close> shows that it
  always returns. Sizes on tape are unbounded integers, and doubles have no largest exponent.

  \<^bold>\<open>What the groups of lemmas show.\<close> For each codec: reading what was printed gives it back. For each
  state machine: an invariant that every operation keeps, and the consequences over whole runs. For the
  routines with a specification of their own (linking, block sizes, parity, sequences of numbers):
  equality with it. The theorems about errors are exact on where the code fails: they state the
  inputs for which an assertion fails, memory outside an object is touched or the answer is not the
  promised one.

  \<^bold>\<open>Not modelled.\<close> Socket, tape, S3 and NDMP input and output, process control and the security drivers are
  the environment and have no code of their own to verify beyond system calls. gnulib and the NDMP library
  are third-party code. The parser of the configuration and the command-line programs are not modelled. Of
  the planner the text of the requests, the log lines, the scripts and the start from the configuration are
  left out, and what happens to the links of a queue from which a disk is removed that is on another one; of
  the info database its text file; of the driver the reading of the dumps to flush and the processes it starts.
\<close>

end
